(* ===== verification/TSK_Prelude.thy ===== *)
theory TSK_Prelude
  imports Main "HOL-Library.Word"
begin

text \<open>
  Shared material of the development: the JavaScript values the sources rely on (numbers,
  strings, dynamically typed values), the encodings of Node's \<^verbatim>\<open>Buffer\<close> (UTF-8, hex,
  base64url), decimal rendering, array and slice semantics, and generic lemmas on lists and
  ordered maps.

  Conventions used everywhere:
  \<^item> a JavaScript string is a HOL \<^typ>\<open>string\<close>; each character is one UTF-16 code unit below 256;
  \<^item> a number whose integrality the code does not test is an \<^typ>\<open>int\<close>; where the code tests
    \<^verbatim>\<open>Number.isInteger\<close>, \<^verbatim>\<open>Number.isSafeInteger\<close> or \<^verbatim>\<open>Number.isFinite\<close> on a caller-supplied
    number it is a \<open>jsnum\<close>, which also has fractions, infinities and NaN;
  \<^item> a value of type \<^verbatim>\<open>unknown\<close> is a \<open>jsval\<close>;
  \<^item> a \<^verbatim>\<open>Map\<close> or a plain object used as a dictionary is an association list in insertion order;
  \<^item> a thrown error is the left summand of \<open>'e + 'a\<close>.
\<close>

named_theorems jsnum_simps "characterisations of the number predicates"
named_theorems assoc_simps "laws of the insertion-ordered association lists"

section \<open>Numbers and dynamically typed values\<close>

text \<open>
  \<open>NInt n\<close> is an integral double, \<open>NFrac f\<close> a finite non-integral double with floor \<open>f\<close>,
  \<open>NInf True\<close> and \<open>NInf False\<close> the two infinities.
\<close>

datatype jsnum = NInt int | NFrac int | NInf bool | NNaN

datatype jsval =
    JUndefined
  | JNull
  | JBool bool
  | JNum jsnum
  | JString string
  | JArray "jsval list"
  | JObject "(string \<times> jsval) list"

definition MAX_SAFE_INTEGER :: int where
  "MAX_SAFE_INTEGER = 9007199254740991"

fun Number_isInteger :: "jsnum \<Rightarrow> bool" where
  "Number_isInteger (NInt _) = True"
| "Number_isInteger _ = False"

fun Number_isSafeInteger :: "jsnum \<Rightarrow> bool" where
  "Number_isSafeInteger (NInt n) = (\<bar>n\<bar> \<le> MAX_SAFE_INTEGER)"
| "Number_isSafeInteger _ = False"

fun Number_isFinite :: "jsnum \<Rightarrow> bool" where
  "Number_isFinite (NInt _) = True"
| "Number_isFinite (NFrac _) = True"
| "Number_isFinite _ = False"

text \<open>\<open>x < k\<close>, \<open>x > k\<close> and their negations against an integer; every comparison with NaN is false.\<close>

fun num_lt :: "jsnum \<Rightarrow> int \<Rightarrow> bool" where
  "num_lt (NInt n) k = (n < k)"
| "num_lt (NFrac f) k = (f < k)"
| "num_lt (NInf s) k = (\<not> s)"
| "num_lt NNaN k = False"

fun num_gt :: "jsnum \<Rightarrow> int \<Rightarrow> bool" where
  "num_gt (NInt n) k = (k < n)"
| "num_gt (NFrac f) k = (k \<le> f)"
| "num_gt (NInf s) k = s"
| "num_gt NNaN k = False"

definition num_le :: "jsnum \<Rightarrow> int \<Rightarrow> bool" where
  "num_le x k \<longleftrightarrow> num_lt x k \<or> x = NInt k"

definition num_ge :: "jsnum \<Rightarrow> int \<Rightarrow> bool" where
  "num_ge x k \<longleftrightarrow> num_gt x k \<or> x = NInt k"

fun num_floor :: "jsnum \<Rightarrow> int" where
  "num_floor (NInt n) = n"
| "num_floor (NFrac f) = f"
| "num_floor _ = 0"

fun num_int :: "jsnum \<Rightarrow> int option" where
  "num_int (NInt n) = Some n"
| "num_int _ = None"

lemma isInteger_iff [jsnum_simps]: "Number_isInteger x \<longleftrightarrow> (\<exists>n. x = NInt n)"
  by (cases x) auto

lemma isSafeInteger_iff [jsnum_simps]:
  "Number_isSafeInteger x \<longleftrightarrow> (\<exists>n. x = NInt n \<and> \<bar>n\<bar> \<le> MAX_SAFE_INTEGER)"
  by (cases x) auto

lemma num_le_NInt [simp]: "num_le (NInt n) k \<longleftrightarrow> n \<le> k"
  by (auto simp: num_le_def)

lemma num_ge_NInt [simp]: "num_ge (NInt n) k \<longleftrightarrow> k \<le> n"
  by (auto simp: num_ge_def)

text \<open>Own data properties of a plain object: an absent one reads as \<^verbatim>\<open>undefined\<close>.\<close>

fun js_get :: "jsval \<Rightarrow> string \<Rightarrow> jsval" where
  "js_get (JObject ps) k = (case map_of ps k of None \<Rightarrow> JUndefined | Some v \<Rightarrow> v)"
| "js_get _ _ = JUndefined"

section \<open>Decimal rendering of numbers\<close>

definition digit_char :: "nat \<Rightarrow> char" where
  "digit_char n = char_of (48 + n)"

fun show_nat :: "nat \<Rightarrow> string" where
  "show_nat n = (if n < 10 then [digit_char n] else show_nat (n div 10) @ [digit_char (n mod 10)])"

declare show_nat.simps [simp del]

definition show_int :: "int \<Rightarrow> string" where
  "show_int i = (if i < 0 then CHR ''-'' # show_nat (nat (- i)) else show_nat (nat i))"

text \<open>\<^verbatim>\<open>String(x)\<close>. No call site of the sources renders a fraction.\<close>

fun show_num :: "jsnum \<Rightarrow> string" where
  "show_num (NInt n) = show_int n"
| "show_num (NFrac f) = show_int f @ ''.''"
| "show_num (NInf True) = ''Infinity''"
| "show_num (NInf False) = ''-Infinity''"
| "show_num NNaN = ''NaN''"

definition dec_value :: "string \<Rightarrow> nat" where
  "dec_value s = foldl (\<lambda>a c. 10 * a + (of_char c - 48)) 0 s"

lemma of_char_digit [simp]: "n < 10 \<Longrightarrow> of_char (digit_char n) = (48 + n :: nat)"
  by (simp add: digit_char_def)

lemma dec_value_show_nat: "dec_value (show_nat n) = n"
proof (induction n rule: show_nat.induct)
  case (1 n)
  show ?case
  proof (cases "n < 10")
    case True
    then show ?thesis by (simp add: show_nat.simps [of n] dec_value_def)
  next
    case False
    with "1.IH" have "dec_value (show_nat (n div 10)) = n div 10" by simp
    with False show ?thesis by (simp add: show_nat.simps [of n] dec_value_def)
  qed
qed

lemma show_nat_inject [simp]: "show_nat m = show_nat n \<longleftrightarrow> m = n"
  by (metis dec_value_show_nat)

lemma show_nat_digits: "c \<in> set (show_nat n) \<Longrightarrow> 48 \<le> (of_char c :: nat) \<and> (of_char c :: nat) < 58"
proof (induction n rule: show_nat.induct)
  case (1 n)
  then show ?case
    by (cases "n < 10") (auto simp: show_nat.simps [of n])
qed

lemma show_nat_nonempty [simp]: "show_nat n \<noteq> []"
  by (subst show_nat.simps) simp

lemma show_nat_no_minus: "CHR ''-'' \<notin> set (show_nat n)"
  using show_nat_digits [of "CHR ''-''" n] by auto

lemma show_int_inject [simp]: "show_int i = show_int j \<longleftrightarrow> i = j"
proof -
  have *: "show_nat m \<noteq> CHR ''-'' # xs" for m xs
    using show_nat_no_minus [of m] by (metis list.set_intros(1))
  then have "CHR ''-'' # xs \<noteq> show_nat m" for m xs
    by metis
  then show ?thesis
    using * by (auto simp: show_int_def split: if_splits)
qed

lemma show_int_chars: "c \<in> set (show_int i) \<Longrightarrow> c = CHR ''-'' \<or> 48 \<le> (of_char c :: nat) \<and> (of_char c :: nat) < 58"
  by (auto simp: show_int_def dest: show_nat_digits split: if_splits)

lemma show_int_no_colon [simp]: "CHR '':'' \<notin> set (show_int i)"
  using show_int_chars [of "CHR '':''" i] by auto

section \<open>Byte encodings\<close>

type_synonym byte = "8 word"

type_synonym digest = "256 word"

text \<open>\<^verbatim>\<open>Buffer.from(s, 'utf8')\<close> for code units below 256: one byte below 128, two bytes above.\<close>

definition utf8_char :: "char \<Rightarrow> byte list" where
  "utf8_char c =
     (let n = of_char c :: nat
      in if n < 128 then [of_nat n] else [of_nat (192 + n div 64), of_nat (128 + n mod 64)])"

definition utf8 :: "string \<Rightarrow> byte list" where
  "utf8 s = concat (map utf8_char s)"

lemma utf8_simps [simp]: "utf8 [] = []" "utf8 (c # s) = utf8_char c @ utf8 s"
  by (simp_all add: utf8_def)

lemma utf8_append [simp]: "utf8 (s @ t) = utf8 s @ utf8 t"
  by (simp add: utf8_def)

lemma unat_byte: "n < 256 \<Longrightarrow> unat (of_nat n :: byte) = n"
  by (simp add: unat_of_nat)

lemma of_nat_byte_eq: "m < 256 \<Longrightarrow> n < 256 \<Longrightarrow> (of_nat m :: byte) = of_nat n \<longleftrightarrow> m = n"
  by (metis unat_byte)

lemma of_char_nat_inject: "(of_char c :: nat) = of_char d \<longleftrightarrow> c = d"
  by (metis char_of_char)

lemma utf8_char_Cons_inject:
  assumes "utf8_char c @ xs = utf8_char d @ ys"
  shows "c = d \<and> xs = ys"
proof -
  let ?m = "of_char c :: nat" and ?n = "of_char d :: nat"
  have bounds: "?m < 256" "?n < 256" "192 + ?m div 64 < 256" "192 + ?n div 64 < 256"
    "128 + ?m mod 64 < 256" "128 + ?n mod 64 < 256"
    using nat_of_char_less_256 [of c] nat_of_char_less_256 [of d] by (auto, linarith+)
  have "?m = ?n \<and> xs = ys"
  proof (cases "?m < 128"; cases "?n < 128")
    assume "?m < 128" "\<not> ?n < 128"
    then have "?m = 192 + ?n div 64"
      using assms bounds by (simp add: utf8_char_def Let_def of_nat_byte_eq del: of_nat_add)
    with \<open>?m < 128\<close> show ?thesis by simp
  next
    assume "\<not> ?m < 128" "?n < 128"
    then have "192 + ?m div 64 = ?n"
      using assms bounds by (simp add: utf8_char_def Let_def of_nat_byte_eq del: of_nat_add)
    with \<open>?n < 128\<close> show ?thesis by simp
  next
    assume "\<not> ?m < 128" "\<not> ?n < 128"
    then have "192 + ?m div 64 = 192 + ?n div 64" "128 + ?m mod 64 = 128 + ?n mod 64" "xs = ys"
      using assms bounds by (simp_all add: utf8_char_def Let_def of_nat_byte_eq del: of_nat_add)
    then show ?thesis
      by (metis add_left_cancel div_mult_mod_eq)
  qed (use assms bounds in \<open>simp_all add: utf8_char_def Let_def of_nat_byte_eq\<close>)
  then show ?thesis by (simp add: of_char_nat_inject)
qed

lemma utf8_char_nonempty [simp]: "utf8_char c \<noteq> []"
  by (simp add: utf8_char_def Let_def)

lemma utf8_inject [simp]: "utf8 s = utf8 t \<longleftrightarrow> s = t"
proof
  show "utf8 s = utf8 t \<Longrightarrow> s = t"
  proof (induction s arbitrary: t)
    case Nil
    then show ?case by (cases t) auto
  next
    case (Cons c s)
    then obtain d t' where t: "t = d # t'" by (cases t) auto
    with Cons.prems have "c = d \<and> utf8 s = utf8 t'"
      by (auto dest: utf8_char_Cons_inject)
    with Cons.IH t show ?case by auto
  qed
qed simp

text \<open>
  A SHA-256 or HMAC-SHA-256 result has 256 bits. \<^verbatim>\<open>digest('hex')\<close> renders 64 lower-case
  nibbles; \<^verbatim>\<open>digest('base64url')\<close> renders 42 groups of six bits and one of the last four, without
  padding: 43 characters.
\<close>

definition hex_digits :: string where
  "hex_digits = ''0123456789abcdef''"

definition b64url_alphabet :: string where
  "b64url_alphabet = ''ABCDEFGHIJKLMNOPQRSTUVWXYZabcdefghijklmnopqrstuvwxyz0123456789-_''"

definition digest_hex :: "digest \<Rightarrow> string" where
  "digest_hex d = map (\<lambda>i. hex_digits ! (unat (drop_bit (4 * (63 - i)) d) mod 16)) [0..<64]"

definition b64url_group :: "digest \<Rightarrow> nat \<Rightarrow> nat" where
  "b64url_group d i =
     (if i < 42 then unat (drop_bit (250 - 6 * i) d) mod 64 else (unat d mod 16) * 4)"

definition digest_b64url :: "digest \<Rightarrow> string" where
  "digest_b64url d = map (\<lambda>i. b64url_alphabet ! b64url_group d i) [0..<43]"

lemma length_digest_hex [simp]: "length (digest_hex d) = 64"
  by (simp add: digest_hex_def)

lemma length_digest_b64url [simp]: "length (digest_b64url d) = 43"
  by (simp add: digest_b64url_def)

lemma b64url_group_lt: "b64url_group d i < 64"
  by (auto simp: b64url_group_def)

lemma distinct_b64url_alphabet: "distinct b64url_alphabet"
  by (simp add: b64url_alphabet_def)

lemma length_b64url_alphabet [simp]: "length b64url_alphabet = 64"
  by (simp add: b64url_alphabet_def)

text \<open>Two digests with the same base64url text are the same digest: each bit is in some group.\<close>

lemma digest_b64url_groups:
  assumes "digest_b64url d = digest_b64url e" and "i < 43"
  shows "b64url_group d i = b64url_group e i"
proof -
  have "b64url_alphabet ! b64url_group d i = b64url_alphabet ! b64url_group e i"
    using assms by (simp add: digest_b64url_def)
  then show ?thesis
    using distinct_b64url_alphabet b64url_group_lt by (simp add: nth_eq_iff_index_eq)
qed

lemma bit_drop_mod:
  fixes d :: digest
  assumes "k \<le> n" and "n < k + m"
  shows "bit d n \<longleftrightarrow> bit (unat (drop_bit k d) mod 2 ^ m) (n - k)"
proof -
  have "bit (unat (drop_bit k d) mod 2 ^ m) (n - k) \<longleftrightarrow> bit (take_bit m (unat (drop_bit k d))) (n - k)"
    by (simp add: take_bit_eq_mod)
  also have "\<dots> \<longleftrightarrow> bit (drop_bit k d) (n - k)"
    using assms by (auto simp: bit_take_bit_iff bit_unsigned_iff)
  also have "\<dots> \<longleftrightarrow> bit d n"
    using assms by (simp add: bit_drop_bit_eq)
  finally show ?thesis by simp
qed

lemma digest_b64url_inject [simp]: "digest_b64url d = digest_b64url e \<longleftrightarrow> d = e"
proof
  assume eq: "digest_b64url d = digest_b64url e"
  show "d = e"
  proof (rule bit_word_eqI)
    fix n
    assume "n < LENGTH(256)"
    then have n: "n < 256" by simp
    show "bit d n \<longleftrightarrow> bit e n"
    proof (cases "n < 4")
      case True
      have "unat d mod 16 = unat e mod 16"
        using digest_b64url_groups [OF eq, of 42] by (simp add: b64url_group_def)
      with True show ?thesis
        using bit_drop_mod [of 0 n 4 d] bit_drop_mod [of 0 n 4 e] by simp
    next
      case False
      define i where "i = (255 - n) div 6"
      have i: "i < 42" "250 - 6 * i \<le> n" "n < 250 - 6 * i + 6"
        using n False unfolding i_def by auto
      have "unat (drop_bit (250 - 6 * i) d) mod 64 = unat (drop_bit (250 - 6 * i) e) mod 64"
        using digest_b64url_groups [OF eq, of i] i by (simp add: b64url_group_def)
      with i show ?thesis
        using bit_drop_mod [of "250 - 6 * i" n 6 d] bit_drop_mod [of "250 - 6 * i" n 6 e] by simp
    qed
  qed
qed simp

lemma digest_hex_inject [simp]: "digest_hex d = digest_hex e \<longleftrightarrow> d = e"
proof
  assume eq: "digest_hex d = digest_hex e"
  have hex: "distinct hex_digits" "length hex_digits = 16" by (simp_all add: hex_digits_def)
  show "d = e"
  proof (rule bit_word_eqI)
    fix n
    assume "n < LENGTH(256)"
    then have n: "n < 256" by simp
    define i where "i = 63 - n div 4"
    have i: "i < 64" "4 * (63 - i) \<le> n" "n < 4 * (63 - i) + 4" using n unfolding i_def by auto
    have "hex_digits ! (unat (drop_bit (4 * (63 - i)) d) mod 16) = hex_digits ! (unat (drop_bit (4 * (63 - i)) e) mod 16)"
      using eq i(1) by (simp add: digest_hex_def)
    then have "unat (drop_bit (4 * (63 - i)) d) mod 16 = unat (drop_bit (4 * (63 - i)) e) mod 16"
      using hex by (simp add: nth_eq_iff_index_eq)
    with i show "bit d n \<longleftrightarrow> bit e n"
      using bit_drop_mod [of "4 * (63 - i)" n 4 d] bit_drop_mod [of "4 * (63 - i)" n 4 e] by simp
  qed
qed simp

text \<open>Character classes of the identifier patterns.\<close>

definition is_lower :: "char \<Rightarrow> bool" where "is_lower c \<longleftrightarrow> 97 \<le> (of_char c :: nat) \<and> (of_char c :: nat) \<le> 122"
definition is_upper :: "char \<Rightarrow> bool" where "is_upper c \<longleftrightarrow> 65 \<le> (of_char c :: nat) \<and> (of_char c :: nat) \<le> 90"
definition is_digit :: "char \<Rightarrow> bool" where "is_digit c \<longleftrightarrow> 48 \<le> (of_char c :: nat) \<and> (of_char c :: nat) \<le> 57"

text \<open>\<^verbatim>\<open>/^[0-9a-fA-F]*$/\<close> and \<^verbatim>\<open>Buffer.from(s, 'hex')\<close> on an even number of such digits.\<close>

definition hex_val :: "char \<Rightarrow> nat option" where
  "hex_val c =
     (let n = of_char c :: nat
      in if 48 \<le> n \<and> n < 58 then Some (n - 48)
         else if 65 \<le> n \<and> n < 71 then Some (n - 55)
         else if 97 \<le> n \<and> n < 103 then Some (n - 87)
         else None)"

definition is_hex_char :: "char \<Rightarrow> bool" where
  "is_hex_char c = (hex_val c \<noteq> None)"

definition is_lower_hex_char :: "char \<Rightarrow> bool" where
  "is_lower_hex_char c = (c \<in> set hex_digits)"

fun hex_decode :: "string \<Rightarrow> byte list" where
  "hex_decode (a # b # s) =
     (case (hex_val a, hex_val b) of
        (Some x, Some y) \<Rightarrow> of_nat (16 * x + y) # hex_decode s
      | _ \<Rightarrow> [])"
| "hex_decode _ = []"

section \<open>Strings, slices and arrays\<close>

text \<open>\<^verbatim>\<open>s.slice(a, b)\<close>: negative indices count from the end, everything is clamped.\<close>

definition slice_index :: "int \<Rightarrow> int \<Rightarrow> int" where
  "slice_index n i = (if i < 0 then max 0 (n + i) else min n i)"

definition js_slice :: "'a list \<Rightarrow> int \<Rightarrow> int \<Rightarrow> 'a list" where
  "js_slice s a b =
     (let n = int (length s); i = slice_index n a; j = slice_index n b
      in take (nat (j - i)) (drop (nat i) s))"

lemma js_slice_in_range:
  "0 \<le> a \<Longrightarrow> a \<le> b \<Longrightarrow> b \<le> int (length s) \<Longrightarrow> js_slice s a b = take (nat (b - a)) (drop (nat a) s)"
  by (simp add: js_slice_def slice_index_def Let_def)

lemma js_slice_prefix:
  "0 \<le> b \<Longrightarrow> js_slice s 0 b = take (nat b) s"
  by (auto simp: js_slice_def slice_index_def Let_def min_def)

text \<open>\<^verbatim>\<open>arr[i] = x\<close> on an array whose holes read as \<^verbatim>\<open>undefined\<close>, and \<^verbatim>\<open>arr.join('')\<close>, which
  renders a hole as the empty string. A negative index makes a named property that no element
  access and no join sees.\<close>

definition js_array_set :: "'a option list \<Rightarrow> int \<Rightarrow> 'a \<Rightarrow> 'a option list" where
  "js_array_set xs i x =
     (if i < 0 then xs
      else if nat i < length xs then xs[nat i := Some x]
      else xs @ replicate (nat i - length xs) None @ [Some x])"

definition js_join :: "'a option list \<Rightarrow> 'a list" where
  "js_join xs = concat (map (\<lambda>h. case h of None \<Rightarrow> [] | Some c \<Rightarrow> [c]) xs)"

lemma js_join_map_Some [simp]: "js_join (map Some xs) = xs"
  by (induction xs) (auto simp: js_join_def)

text \<open>\<^verbatim>\<open>s.trim() === ''\<close>.\<close>

definition is_js_space :: "char \<Rightarrow> bool" where
  "is_js_space c = ((of_char c :: nat) \<in> {9, 10, 11, 12, 13, 32, 160})"

definition js_blank :: "string \<Rightarrow> bool" where
  "js_blank s = list_all is_js_space s"

section \<open>Insertion-ordered maps\<close>

text \<open>\<^verbatim>\<open>Map.set\<close> keeps the position of a present key and appends a new one; \<^verbatim>\<open>Map.delete\<close>
  removes the key.\<close>

fun omap_set :: "'k \<Rightarrow> 'v \<Rightarrow> ('k \<times> 'v) list \<Rightarrow> ('k \<times> 'v) list" where
  "omap_set k v [] = [(k, v)]"
| "omap_set k v ((k', v') # m) = (if k' = k then (k, v) # m else (k', v') # omap_set k v m)"

definition omap_delete :: "'k \<Rightarrow> ('k \<times> 'v) list \<Rightarrow> ('k \<times> 'v) list" where
  "omap_delete k m = filter (\<lambda>p. fst p \<noteq> k) m"

abbreviation omap_has :: "'k \<Rightarrow> ('k \<times> 'v) list \<Rightarrow> bool" where
  "omap_has k m \<equiv> map_of m k \<noteq> None"

abbreviation omap_keys :: "('k \<times> 'v) list \<Rightarrow> 'k list" where
  "omap_keys m \<equiv> map fst m"

lemma map_of_omap_set [simp, assoc_simps]: "map_of (omap_set k v m) = (map_of m)(k \<mapsto> v)"
  by (induction k v m rule: omap_set.induct) (auto simp: fun_eq_iff)

lemma map_of_omap_delete [simp, assoc_simps]: "map_of (omap_delete k m) = (map_of m)(k := None)"
  by (induction m) (auto simp: omap_delete_def fun_eq_iff)

lemma omap_has_keys: "omap_has k m \<longleftrightarrow> k \<in> set (omap_keys m)"
  by (simp add: map_of_eq_None_iff)

lemma omap_keys_set [assoc_simps]:
  "omap_keys (omap_set k v m) = (if k \<in> set (omap_keys m) then omap_keys m else omap_keys m @ [k])"
  by (induction k v m rule: omap_set.induct) auto

lemma omap_keys_delete [assoc_simps]: "omap_keys (omap_delete k m) = filter (\<lambda>x. x \<noteq> k) (omap_keys m)"
  by (induction m) (auto simp: omap_delete_def)

lemma distinct_omap_set [intro]: "distinct (omap_keys m) \<Longrightarrow> distinct (omap_keys (omap_set k v m))"
  by (simp add: omap_keys_set)

lemma distinct_omap_delete [intro]: "distinct (omap_keys m) \<Longrightarrow> distinct (omap_keys (omap_delete k m))"
  by (simp add: omap_keys_delete)

lemma length_omap_set [assoc_simps]:
  "length (omap_set k v m) = (if k \<in> set (omap_keys m) then length m else Suc (length m))"
  by (metis length_append_singleton length_map omap_keys_set)

lemma length_omap_delete_le: "length (omap_delete k m) \<le> length m"
  by (simp add: omap_delete_def)

lemma length_omap_delete:
  "distinct (omap_keys m) \<Longrightarrow> k \<in> set (omap_keys m) \<Longrightarrow> Suc (length (omap_delete k m)) = length m"
proof (induction m)
  case Nil
  then show ?case by simp
next
  case (Cons p m)
  show ?case
  proof (cases "fst p = k")
    case True
    with Cons.prems have "k \<notin> fst ` set m" by auto
    then have "filter (\<lambda>q. fst q \<noteq> k) m = m" by (intro filter_True) auto
    with True show ?thesis by (simp add: omap_delete_def)
  next
    case False
    with Cons show ?thesis by (auto simp: omap_delete_def)
  qed
qed

section \<open>Results\<close>

text \<open>Sequencing of computations that may throw: the first error wins.\<close>

definition bind_res :: "'e + 'a \<Rightarrow> ('a \<Rightarrow> 'e + 'b) \<Rightarrow> 'e + 'b" where
  "bind_res r f = (case r of Inl e \<Rightarrow> Inl e | Inr a \<Rightarrow> f a)"

lemma bind_res_simps [simp]:
  "bind_res (Inl e) f = Inl e"
  "bind_res (Inr a) f = f a"
  by (simp_all add: bind_res_def)

lemma bind_res_Inr_iff: "bind_res r f = Inr b \<longleftrightarrow> (\<exists>a. r = Inr a \<and> f a = Inr b)"
  by (cases r) auto

text \<open>A \<^verbatim>\<open>for\<close> loop of checks, each of which may throw.\<close>

fun check_all :: "('a \<Rightarrow> 'e + unit) \<Rightarrow> 'a list \<Rightarrow> 'e + unit" where
  "check_all f [] = Inr ()"
| "check_all f (x # xs) = bind_res (f x) (\<lambda>_. check_all f xs)"

lemma check_all_Inr_iff: "check_all f xs = Inr u \<longleftrightarrow> (\<forall>x \<in> set xs. f x = Inr ())"
  by (induction xs) (auto simp: bind_res_Inr_iff)

text \<open>A loop that threads a state and may throw.\<close>

fun fold_res :: "('a \<Rightarrow> 's \<Rightarrow> 'e + 's) \<Rightarrow> 'a list \<Rightarrow> 's \<Rightarrow> 'e + 's" where
  "fold_res f [] s = Inr s"
| "fold_res f (x # xs) s = bind_res (f x s) (fold_res f xs)"

lemma fold_res_cong [fundef_cong]:
  "xs = ys \<Longrightarrow> s = t \<Longrightarrow> (\<And>x u. x \<in> set ys \<Longrightarrow> f x u = g x u) \<Longrightarrow> fold_res f xs s = fold_res g ys t"
proof (induction xs arbitrary: s t ys)
  case (Cons x xs)
  then have "fold_res f xs u = fold_res g xs u" for u by (meson list.set_intros(2))
  with Cons.prems show ?case by (auto simp: bind_res_def split: sum.splits)
qed simp

lemma bind_res_cong [fundef_cong]:
  "r = r' \<Longrightarrow> (\<And>a. r' = Inr a \<Longrightarrow> f a = g a) \<Longrightarrow> bind_res r f = bind_res r' g"
  by (auto simp: bind_res_def split: sum.splits)

text \<open>An invariant of the loop.\<close>

lemma fold_res_induct:
  assumes "fold_res f xs s = Inr s'" and "P s"
    and "\<And>x t t'. x \<in> set xs \<Longrightarrow> P t \<Longrightarrow> f x t = Inr t' \<Longrightarrow> P t'"
  shows "P s'"
  using assms
proof (induction xs arbitrary: s)
  case (Cons x xs)
  then obtain t where "f x s = Inr t" "fold_res f xs t = Inr s'" by (auto simp: bind_res_Inr_iff)
  with Cons show ?case by (metis list.set_intros(1,2))
qed simp

end
