(* ===== verification/TSK_Types.thy ===== *)
theory TSK_Types
  imports TSK_Prelude
begin

text \<open>
  The data model of \<^verbatim>\<open>packages/core/src/types.ts\<close> and the wire-v1 HOTP counter rules of
  \<^verbatim>\<open>packages/core/src/hotp-counter.ts\<close>. An optional property is an option; \<^verbatim>\<open>lastUsedAt\<close>, which is
  optional and nullable, merges \<^verbatim>\<open>null\<close> and \<^verbatim>\<open>undefined\<close>, as every reader of it does. A thrown error
  is represented by its code or by the constant part of its message.
\<close>

type_synonym 'a res = "string + 'a"

section \<open>Types\<close>

datatype SegmentType = Static | Totp | Hotp

record SegmentConfig =
  seg_id :: string
  seg_pos :: "int \<times> int"
  seg_type :: SegmentType
  seg_window :: "int option"
  seg_counter :: "int option"

datatype KeyStatus = Active | Expiring | Revoked | Expired

record TumblerMap =
  tm_clientId :: string
  tm_sharedSecret :: string
  tm_keyLength :: int
  tm_segments :: "SegmentConfig list"
  tm_checksum :: "int \<times> int"
  tm_createdAt :: int
  tm_version :: string
  tm_label :: "string option"
  tm_expiresAt :: "int option"
  tm_maxRequests :: "int option"
  tm_rotationWarningRequests :: "int option"
  tm_hotpRotationWarningCounters :: "int option"
  tm_requestCount :: "int option"
  tm_lastUsedAt :: "int option"
  tm_status :: "KeyStatus option"

record ClientSegmentConfig =
  cs_id :: string
  cs_type :: SegmentType
  cs_length :: int
  cs_window :: "int option"
  cs_initialCounter :: "int option"

record TSKProvisionPayload =
  pp_clientId :: string
  pp_clientSegments :: "ClientSegmentConfig list"
  pp_keyLength :: int
  pp_checksumLength :: int
  pp_createdAt :: int
  pp_version :: string

datatype TSKError =
    CLIENT_NOT_FOUND
  | KEY_LENGTH_MISMATCH
  | MAP_INVALID_NO_SEGMENTS
  | MAP_INVALID_NO_HOTP
  | MAP_INVALID_ZERO_LENGTH_SEGMENT
  | INVALID_KEY

datatype TSKInternalError =
    CHECKSUM_INVALID
  | VALIDATION_FAILED
  | HOTP_COUNTER_INVALID
  | HOTP_COUNTER_EXHAUSTED
  | INTERNAL_ERROR

text \<open>The merged configuration \<^verbatim>\<open>{ ...DEFAULT_TSK_CONFIG, ...config }\<close>. The look-ahead is the only
  entry whose integrality the validator tests.\<close>

record TSKConfig =
  cfg_totpToleranceWindows :: int
  cfg_hotpLookahead :: jsnum
  cfg_maxKeyLength :: int
  cfg_minKeyLength :: int

definition DEFAULT_TSK_CONFIG :: TSKConfig where
  "DEFAULT_TSK_CONFIG =
     \<lparr>cfg_totpToleranceWindows = 1, cfg_hotpLookahead = NInt 5,
      cfg_maxKeyLength = 512, cfg_minKeyLength = 20\<rparr>"

text \<open>\<^verbatim>\<open>x ?? d\<close>.\<close>

definition nullish :: "'a option \<Rightarrow> 'a \<Rightarrow> 'a" where
  "nullish x d = (case x of None \<Rightarrow> d | Some v \<Rightarrow> v)"

lemma nullish_simps [simp]: "nullish None d = d" "nullish (Some v) d = v"
  by (simp_all add: nullish_def)

abbreviation seg_len :: "SegmentConfig \<Rightarrow> int" where
  "seg_len s \<equiv> snd (seg_pos s) - fst (seg_pos s)"

abbreviation stored_counter :: "SegmentConfig \<Rightarrow> int" where
  "stored_counter s \<equiv> nullish (seg_counter s) 0"

abbreviation hotp_segments :: "TumblerMap \<Rightarrow> SegmentConfig list" where
  "hotp_segments m \<equiv> filter (\<lambda>s. seg_type s = Hotp) (tm_segments m)"

section \<open>HOTP counters\<close>

definition TSK_MAX_HOTP_COUNTER :: int where
  "TSK_MAX_HOTP_COUNTER = 2147483647"

definition DEFAULT_HOTP_ROTATION_WARNING_COUNTERS :: int where
  "DEFAULT_HOTP_ROTATION_WARNING_COUNTERS = 1000"

definition isValidHOTPStoredCounter :: "jsval \<Rightarrow> bool" where
  "isValidHOTPStoredCounter v =
     (case v of
        JNum n \<Rightarrow> Number_isSafeInteger n \<and> num_ge n 0 \<and> num_le n TSK_MAX_HOTP_COUNTER
      | _ \<Rightarrow> False)"

definition isUsableHOTPDerivationCounter :: "jsval \<Rightarrow> bool" where
  "isUsableHOTPDerivationCounter v \<longleftrightarrow>
     isValidHOTPStoredCounter v \<and>
     (case v of JNum n \<Rightarrow> num_lt n TSK_MAX_HOTP_COUNTER | _ \<Rightarrow> False)"

definition assertValidHOTPStoredCounter :: "jsval \<Rightarrow> unit res" where
  "assertValidHOTPStoredCounter v =
     (if \<not> isValidHOTPStoredCounter v then Inl ''TSK_HOTP_COUNTER_INVALID'' else Inr ())"

definition assertUsableHOTPDerivationCounter :: "jsval \<Rightarrow> unit res" where
  "assertUsableHOTPDerivationCounter v =
     bind_res (assertValidHOTPStoredCounter v) (\<lambda>_.
       if (case v of JNum n \<Rightarrow> num_ge n TSK_MAX_HOTP_COUNTER | _ \<Rightarrow> False)
       then Inl ''TSK_HOTP_COUNTER_EXHAUSTED'' else Inr ())"

abbreviation int_val :: "int \<Rightarrow> jsval" where
  "int_val n \<equiv> JNum (NInt n)"

definition hotpUsesRemaining :: "int \<Rightarrow> int res" where
  "hotpUsesRemaining c =
     bind_res (assertValidHOTPStoredCounter (int_val c)) (\<lambda>_. Inr (TSK_MAX_HOTP_COUNTER - c))"

fun minimumHOTPUses_loop :: "int option \<Rightarrow> SegmentConfig list \<Rightarrow> int option res" where
  "minimumHOTPUses_loop minimum [] = Inr minimum"
| "minimumHOTPUses_loop minimum (s # ss) =
     (if seg_type s \<noteq> Hotp then minimumHOTPUses_loop minimum ss
      else let c = nullish (seg_counter s) 0 in
        bind_res (assertValidHOTPStoredCounter (int_val c)) (\<lambda>_.
        bind_res (hotpUsesRemaining c) (\<lambda>remaining.
          minimumHOTPUses_loop
            (Some (case minimum of None \<Rightarrow> remaining | Some m \<Rightarrow> min m remaining)) ss)))"

definition minimumHOTPUsesRemaining :: "SegmentConfig list \<Rightarrow> int option res" where
  "minimumHOTPUsesRemaining ss = minimumHOTPUses_loop None ss"

definition assertValidClientHOTPInitialCounters :: "ClientSegmentConfig list \<Rightarrow> unit res" where
  "assertValidClientHOTPInitialCounters ss =
     check_all (\<lambda>s. if cs_type s \<noteq> Hotp then Inr ()
                    else assertValidHOTPStoredCounter (int_val (nullish (cs_initialCounter s) 0))) ss"

section \<open>Laws of the counter rules\<close>

lemma isValidHOTPStoredCounter_int [simp]:
  "isValidHOTPStoredCounter (int_val n) \<longleftrightarrow> 0 \<le> n \<and> n \<le> TSK_MAX_HOTP_COUNTER"
  by (auto simp: isValidHOTPStoredCounter_def TSK_MAX_HOTP_COUNTER_def MAX_SAFE_INTEGER_def)

lemma isUsableHOTPDerivationCounter_int [simp]:
  "isUsableHOTPDerivationCounter (int_val n) \<longleftrightarrow> 0 \<le> n \<and> n < TSK_MAX_HOTP_COUNTER"
  by (auto simp: isUsableHOTPDerivationCounter_def)

lemma assertValidHOTPStoredCounter_int [simp]:
  "assertValidHOTPStoredCounter (int_val n) = Inr u \<longleftrightarrow> 0 \<le> n \<and> n \<le> TSK_MAX_HOTP_COUNTER"
  by (simp add: assertValidHOTPStoredCounter_def)

lemma assertUsableHOTPDerivationCounter_int [simp]:
  "assertUsableHOTPDerivationCounter (int_val n) = Inr u \<longleftrightarrow> 0 \<le> n \<and> n < TSK_MAX_HOTP_COUNTER"
  by (auto simp: assertUsableHOTPDerivationCounter_def bind_res_Inr_iff)

lemma assertUsable_cases:
  "assertUsableHOTPDerivationCounter (int_val n) =
     (if 0 \<le> n \<and> n < TSK_MAX_HOTP_COUNTER then Inr ()
      else if n = TSK_MAX_HOTP_COUNTER then Inl ''TSK_HOTP_COUNTER_EXHAUSTED''
      else Inl ''TSK_HOTP_COUNTER_INVALID'')"
  by (auto simp: assertUsableHOTPDerivationCounter_def assertValidHOTPStoredCounter_def
      TSK_MAX_HOTP_COUNTER_def)

lemma isUsable_isValid: "isUsableHOTPDerivationCounter v \<Longrightarrow> isValidHOTPStoredCounter v"
  by (simp add: isUsableHOTPDerivationCounter_def)

text \<open>The persisted counter is in range for every HOTP segment of the list.\<close>

definition counters_valid :: "SegmentConfig list \<Rightarrow> bool" where
  "counters_valid ss =
     (\<forall>s \<in> set ss. seg_type s = Hotp \<longrightarrow>
        0 \<le> stored_counter s \<and> stored_counter s \<le> TSK_MAX_HOTP_COUNTER)"

lemma counters_valid_simps [simp]:
  "counters_valid []"
  "counters_valid (s # ss) \<longleftrightarrow>
     (seg_type s = Hotp \<longrightarrow> 0 \<le> stored_counter s \<and> stored_counter s \<le> TSK_MAX_HOTP_COUNTER) \<and>
     counters_valid ss"
  by (auto simp: counters_valid_def)

definition remaining_uses :: "SegmentConfig list \<Rightarrow> int set" where
  "remaining_uses ss = (\<lambda>s. TSK_MAX_HOTP_COUNTER - stored_counter s) ` {s \<in> set ss. seg_type s = Hotp}"

lemma remaining_uses_simps [simp]:
  "remaining_uses [] = {}"
  "remaining_uses (s # ss) =
     (if seg_type s = Hotp then insert (TSK_MAX_HOTP_COUNTER - stored_counter s) (remaining_uses ss)
      else remaining_uses ss)"
  by (auto simp: remaining_uses_def)

lemma finite_remaining_uses [simp]: "finite (remaining_uses ss)"
  by (simp add: remaining_uses_def)

lemma Min_insert_min: "finite A \<Longrightarrow> Min (insert (min a b) A) = min a (Min (insert b A))"
  for a b :: "'a :: linorder"
  by (cases "A = {}") (simp_all add: min.assoc)

lemma minimumHOTPUses_loop_valid:
  "counters_valid ss \<Longrightarrow>
   minimumHOTPUses_loop m ss =
     Inr (let R = remaining_uses ss \<union> (case m of None \<Rightarrow> {} | Some x \<Rightarrow> {x})
          in if R = {} then None else Some (Min R))"
proof (induction ss arbitrary: m)
  case Nil
  then show ?case by (auto split: option.splits)
next
  case (Cons s ss)
  then show ?case
    by (cases m)
      (auto simp: hotpUsesRemaining_def assertValidHOTPStoredCounter_def bind_res_def Let_def
        insert_commute Un_commute Min_insert_min simp flip: insert_is_Un split: sum.splits)
qed

lemma minimumHOTPUses_loop_Inr: "minimumHOTPUses_loop m ss = Inr r \<Longrightarrow> counters_valid ss"
  by (induction m ss arbitrary: r rule: minimumHOTPUses_loop.induct)
    (auto simp: bind_res_Inr_iff Let_def split: if_splits)

lemma minimumHOTPUsesRemaining_valid:
  "counters_valid ss \<Longrightarrow>
   minimumHOTPUsesRemaining ss =
     Inr (if remaining_uses ss = {} then None else Some (Min (remaining_uses ss)))"
  by (simp add: minimumHOTPUsesRemaining_def minimumHOTPUses_loop_valid)

lemma minimumHOTPUsesRemaining_iff:
  "minimumHOTPUsesRemaining ss = Inr r \<longleftrightarrow>
     counters_valid ss \<and> r = (if remaining_uses ss = {} then None else Some (Min (remaining_uses ss)))"
proof
  assume r: "minimumHOTPUsesRemaining ss = Inr r"
  then have "counters_valid ss"
    unfolding minimumHOTPUsesRemaining_def by (rule minimumHOTPUses_loop_Inr)
  with r show "counters_valid ss \<and> r = (if remaining_uses ss = {} then None else Some (Min (remaining_uses ss)))"
    by (simp add: minimumHOTPUsesRemaining_valid)
qed (simp add: minimumHOTPUsesRemaining_valid)

end
