(* ===== verification/Crypto.thy ===== *)
theory Crypto
  imports TSK_Types
begin

text \<open>
  \<^verbatim>\<open>packages/core/src/crypto.ts\<close>. The keyed hash of \<^verbatim>\<open>node:crypto\<close> is an argument
  \<open>H :: byte list \<Rightarrow> byte list \<Rightarrow> digest\<close> (key, message) of everything that uses it, and the entropy
  of \<^verbatim>\<open>randomBytes\<close> is an explicit list of bytes that the operations consume from the front.
\<close>

section \<open>Secrets and HMAC\<close>

type_synonym hmac_fn = "byte list \<Rightarrow> byte list \<Rightarrow> digest"
type_synonym sha_fn = "byte list \<Rightarrow> digest"

definition validateHexSecret :: "string \<Rightarrow> unit res" where
  "validateHexSecret secret =
     (if length secret \<noteq> 64 then Inl ''TSK: sharedSecret must be 64 hex chars''
      else if \<not> list_all is_hex_char secret then Inl ''TSK: sharedSecret contains non-hex characters''
      else Inr ())"

definition hmacRaw :: "hmac_fn \<Rightarrow> byte list \<Rightarrow> string \<Rightarrow> string" where
  "hmacRaw H secretBuf data = digest_b64url (H secretBuf (utf8 data))"

definition hmac :: "hmac_fn \<Rightarrow> string \<Rightarrow> string \<Rightarrow> string res" where
  "hmac H secret data =
     bind_res (validateHexSecret secret) (\<lambda>_. Inr (digest_b64url (H (hex_decode secret) (utf8 data))))"

definition hexSecretToBuffer :: "string \<Rightarrow> byte list res" where
  "hexSecretToBuffer secret = bind_res (validateHexSecret secret) (\<lambda>_. Inr (hex_decode secret))"

definition sha256 :: "sha_fn \<Rightarrow> string \<Rightarrow> string" where
  "sha256 S input = digest_hex (S (utf8 input))"

text \<open>\<^verbatim>\<open>timingSafeEqual\<close> throws on different lengths, which the guard excludes.\<close>

definition constantTimeEqual :: "string \<Rightarrow> string \<Rightarrow> bool" where
  "constantTimeEqual a b =
     (let bufA = utf8 a; bufB = utf8 b
      in if length bufA \<noteq> length bufB then False
         else list_all2 (=) bufA bufB)"

abbreviation secret_ok :: "string \<Rightarrow> bool" where
  "secret_ok s \<equiv> validateHexSecret s = Inr ()"

lemma secret_ok_iff: "secret_ok s \<longleftrightarrow> length s = 64 \<and> list_all is_hex_char s"
  by (simp add: validateHexSecret_def)

lemma length_hmacRaw [simp]: "length (hmacRaw H k d) = 43"
  by (simp add: hmacRaw_def)

lemma hmac_eq_hmacRaw: "secret_ok s \<Longrightarrow> hmac H s d = Inr (hmacRaw H (hex_decode s) d)"
  by (simp add: hmac_def hmacRaw_def)

lemma constantTimeEqual_iff [simp]: "constantTimeEqual a b \<longleftrightarrow> a = b"
  by (auto simp: constantTimeEqual_def Let_def list_all2_eq [symmetric])

section \<open>Randomness\<close>

text \<open>The outcome of an operation on a finite stock of random bytes: a value and the bytes left, a
  thrown error, or \<open>Starved\<close> when the stock is too short for the operation to finish.\<close>

datatype 'a drawn = Drawn 'a "byte list" | Thrown string | Starved

type_synonym 'a rand = "byte list \<Rightarrow> 'a drawn"

definition rreturn :: "'a \<Rightarrow> 'a rand" where
  "rreturn a bs = Drawn a bs"

definition rthrow :: "string \<Rightarrow> 'a rand" where
  "rthrow e bs = Thrown e"

definition rbind :: "'a rand \<Rightarrow> ('a \<Rightarrow> 'b rand) \<Rightarrow> 'b rand" where
  "rbind m f bs =
     (case m bs of Drawn a bs' \<Rightarrow> f a bs' | Thrown e \<Rightarrow> Thrown e | Starved \<Rightarrow> Starved)"

definition rlift :: "'a res \<Rightarrow> 'a rand" where
  "rlift r = (case r of Inl e \<Rightarrow> rthrow e | Inr a \<Rightarrow> rreturn a)"

definition randomBytes :: "nat \<Rightarrow> byte list rand" where
  "randomBytes n bs = (if length bs < n then Starved else Drawn (take n bs) (drop n bs))"

definition bytes_hex :: "byte list \<Rightarrow> string" where
  "bytes_hex bs = concat (map (\<lambda>b. [hex_digits ! (unat b div 16), hex_digits ! (unat b mod 16)]) bs)"

definition generateSharedSecret :: "string rand" where
  "generateSharedSecret = rbind (randomBytes 32) (\<lambda>b. rreturn (bytes_hex b))"

definition generateSegmentId :: "string \<Rightarrow> string rand" where
  "generateSegmentId prefix = rbind (randomBytes 4) (\<lambda>b. rreturn (prefix @ ''_'' @ bytes_hex b))"

definition generateClientId :: "string rand" where
  "generateClientId = rbind (randomBytes 8) (\<lambda>b. rreturn (''tsk_'' @ bytes_hex b))"

definition readUInt32BE :: "byte \<Rightarrow> byte \<Rightarrow> byte \<Rightarrow> byte \<Rightarrow> int" where
  "readUInt32BE a b c d = ((uint a * 256 + uint b) * 256 + uint c) * 256 + uint d"

text \<open>The \<^verbatim>\<open>do ... while (val >= limit)\<close> loop of the rejection sampler.\<close>

fun reject_loop :: "int \<Rightarrow> int rand" where
  "reject_loop limit (a # b # c # d # bs) =
     (let val = readUInt32BE a b c d
      in if limit \<le> val then reject_loop limit bs else Drawn val bs)"
| "reject_loop limit _ = Starved"

definition secureRandomInt :: "jsnum \<Rightarrow> int rand" where
  "secureRandomInt mx =
     (if \<not> Number_isSafeInteger mx \<or> num_le mx 0 \<or> num_gt mx 4294967296
      then rthrow ''max must be a positive safe integer no greater than 2^32''
      else if mx = NInt 1 then rreturn 0
      else let m = num_floor mx; limit = 4294967296 - 4294967296 mod m
           in rbind (reject_loop limit) (\<lambda>val. rreturn (val mod m)))"

section \<open>Laws of the random operations\<close>

lemma rbind_Drawn_iff:
  "rbind m f bs = Drawn b bs'' \<longleftrightarrow> (\<exists>a bs'. m bs = Drawn a bs' \<and> f a bs' = Drawn b bs'')"
  by (auto simp: rbind_def split: drawn.splits)

lemma rreturn_Drawn_iff [simp]: "rreturn a bs = Drawn b bs' \<longleftrightarrow> b = a \<and> bs' = bs"
  by (auto simp: rreturn_def)

lemma rthrow_Drawn_iff [simp]: "rthrow e bs \<noteq> Drawn b bs'"
  by (simp add: rthrow_def)

lemma rlift_Drawn_iff: "rlift r bs = Drawn a bs' \<longleftrightarrow> r = Inr a \<and> bs' = bs"
  by (cases r) (auto simp: rlift_def)

lemma randomBytes_Drawn_iff: "randomBytes n bs = Drawn xs bs' \<longleftrightarrow> bs = xs @ bs' \<and> length xs = n"
  by (auto simp: randomBytes_def)

lemma hex_digit_is_hex: "n < 16 \<Longrightarrow> is_hex_char (hex_digits ! n)"
  by (auto simp: is_hex_char_def hex_val_def hex_digits_def less_Suc_eq numeral_eq_Suc)

lemma unat_byte_less [simp]: "unat (b :: byte) < 256"
  using unsigned_less [of b, where ?'a = nat] by simp

lemma bytes_hex_is_hex: "list_all is_hex_char (bytes_hex bs)"
proof -
  have "unat b div 16 < 16" for b :: byte
    using unat_byte_less [of b] by linarith
  then show ?thesis
    by (auto simp: bytes_hex_def list_all_iff intro!: hex_digit_is_hex)
qed

lemma length_bytes_hex: "length (bytes_hex bs) = 2 * length bs"
  by (induction bs) (auto simp: bytes_hex_def)

lemma bytes_hex_chars: "c \<in> set (bytes_hex bs) \<Longrightarrow> c \<in> set hex_digits"
proof -
  have len: "length hex_digits = 16" by (simp add: hex_digits_def)
  have "unat b div 16 < length hex_digits" "unat b mod 16 < length hex_digits" for b :: byte
    using unat_byte_less [of b] unfolding len by linarith+
  then show "c \<in> set (bytes_hex bs) \<Longrightarrow> c \<in> set hex_digits"
    by (auto simp: bytes_hex_def intro: nth_mem)
qed

lemma generateSharedSecret_ok: "generateSharedSecret bs = Drawn s bs' \<Longrightarrow> secret_ok s"
  by (auto simp: generateSharedSecret_def rbind_Drawn_iff randomBytes_Drawn_iff secret_ok_iff
      bytes_hex_is_hex length_bytes_hex)

lemma readUInt32BE_bounds: "0 \<le> readUInt32BE a b c d" "readUInt32BE a b c d < 4294967296"
proof -
  have "0 \<le> uint x \<and> uint x < 256" for x :: byte
    using uint_lt2p [of x] by simp
  from this [of a] this [of b] this [of c] this [of d]
  show "0 \<le> readUInt32BE a b c d" "readUInt32BE a b c d < 4294967296"
    by (simp_all add: readUInt32BE_def)
qed

lemma reject_loop_Drawn:
  "reject_loop limit bs = Drawn val bs' \<Longrightarrow> 0 \<le> val \<and> val < limit"
  by (induction limit bs rule: reject_loop.induct)
    (auto simp: Let_def readUInt32BE_bounds split: if_splits)

lemma secureRandomInt_bounds:
  "secureRandomInt (NInt m) bs = Drawn r bs' \<Longrightarrow> 0 \<le> r \<and> r < m"
  by (auto simp: secureRandomInt_def Let_def rbind_Drawn_iff split: if_splits)

text \<open>Rejection never starves the caller for long: more than half of the 32-bit values are accepted.\<close>

lemma reject_limit:
  assumes "0 < m" and "m \<le> (4294967296 :: int)"
  shows "2147483648 \<le> 4294967296 - 4294967296 mod m" and "m dvd 4294967296 - 4294967296 mod m"
    and "4294967296 - 4294967296 mod m = m * (4294967296 div m)"
proof -
  show eq: "4294967296 - 4294967296 mod m = m * (4294967296 div m)"
    by (simp add: minus_mod_eq_mult_div)
  then show "m dvd 4294967296 - 4294967296 mod m" by simp
  have "4294967296 mod m \<le> 2147483648"
  proof (cases "m \<le> 2147483648")
    case True
    then show ?thesis using pos_mod_bound [OF assms(1), of 4294967296] by linarith
  next
    case False
    with assms have "4294967296 div m = 1"
      by (intro div_pos_geq [THEN trans] ) (auto simp: div_pos_pos_trivial)
    with False eq show ?thesis by simp
  qed
  then show "2147483648 \<le> 4294967296 - 4294967296 mod m" by linarith
qed

text \<open>A 32-bit value and its four bytes determine each other.\<close>

lemma uint_byte_bounds: "0 \<le> uint (x :: byte)" "uint (x :: byte) < 256"
  using uint_lt2p [of x] by simp_all

lemma horner_inject:
  assumes "x * 256 + d = x' * 256 + d'" and "0 \<le> d" "d < 256" "0 \<le> d'" "d' < (256 :: int)"
  shows "x = x' \<and> d = d'"
proof -
  have "d = (x * 256 + d) mod 256" "d' = (x' * 256 + d') mod 256"
    using assms(2-5) by simp_all
  with assms(1) have "d = d'" by metis
  with assms(1) show ?thesis by simp
qed

lemma readUInt32BE_inject:
  assumes "readUInt32BE a b c d = readUInt32BE a' b' c' d'"
  shows "a = a' \<and> b = b' \<and> c = c' \<and> d = d'"
proof -
  note step = horner_inject [OF _ uint_byte_bounds uint_byte_bounds]
  have d: "(uint a * 256 + uint b) * 256 + uint c = (uint a' * 256 + uint b') * 256 + uint c' \<and> uint d = uint d'"
    using assms unfolding readUInt32BE_def by (rule step)
  have c: "uint a * 256 + uint b = uint a' * 256 + uint b' \<and> uint c = uint c'"
    by (rule step [OF conjunct1 [OF d]])
  have "uint a = uint a' \<and> uint b = uint b'"
    by (rule step [OF conjunct1 [OF c]])
  with c d show ?thesis by (auto intro: unsigned_word_eqI)
qed

lemma uint_word_of_int_byte: "0 \<le> x \<Longrightarrow> x < 256 \<Longrightarrow> uint (word_of_int x :: byte) = x"
  by (simp add: uint_word_of_int)

lemma readUInt32BE_surj:
  assumes "0 \<le> v" and "v < 4294967296"
  shows "\<exists>a b c d. readUInt32BE a b c d = v"
proof -
  let ?a = "v div 256 div 256 div 256" and ?b = "v div 256 div 256 mod 256"
    and ?c = "v div 256 mod 256" and ?d = "v mod 256"
  have "0 \<le> ?a" "?a < 256"
    using assms by linarith+
  moreover have "((?a * 256 + ?b) * 256 + ?c) * 256 + ?d = v"
    by (simp only: div_mult_mod_eq)
  ultimately have "readUInt32BE (word_of_int ?a) (word_of_int ?b) (word_of_int ?c) (word_of_int ?d) = v"
    by (simp add: readUInt32BE_def uint_word_of_int_byte)
  then show ?thesis by blast
qed

text \<open>The four-byte draws that the sampler turns into \<open>r\<close> are in bijection with the multiples below
  the acceptance limit.\<close>

fun draw_value :: "byte list \<Rightarrow> int" where
  "draw_value [a, b, c, d] = readUInt32BE a b c d"
| "draw_value _ = 0"

definition draws_for :: "int \<Rightarrow> int \<Rightarrow> byte list set" where
  "draws_for m r = {bs. length bs = 4 \<and> secureRandomInt (NInt m) bs = Drawn r []}"

lemma draws_for_iff:
  assumes "1 < m" and "m \<le> 4294967296"
  shows "bs \<in> draws_for m r \<longleftrightarrow>
    (\<exists>a b c d. bs = [a, b, c, d] \<and> readUInt32BE a b c d < m * (4294967296 div m) \<and>
       readUInt32BE a b c d mod m = r)"
proof -
  have lim: "4294967296 - 4294967296 mod m = m * (4294967296 div m)"
    using assms by (intro reject_limit) auto
  have "length bs = 4 \<longleftrightarrow> (\<exists>a b c d. bs = [a, b, c, d])"
    by (auto simp: length_Suc_conv numeral_eq_Suc)
  then show ?thesis
    using assms
    by (auto simp: draws_for_def secureRandomInt_def Let_def rbind_Drawn_iff MAX_SAFE_INTEGER_def lim
        split: if_splits)
qed

text \<open>Rejection sampling removes modulo bias. For every \<open>max\<close> above 1 and at most \<open>2^32\<close>, every
  result \<open>r\<close> in \<open>[0, max)\<close> is produced by exactly the same number of four-byte draws, namely
  \<open>2^32 div max\<close>, so a uniform draw that is accepted gives a uniform result.\<close>

theorem secureRandomInt_unbiased:
  assumes m: "1 < m" "m \<le> 4294967296" and r: "0 \<le> r" "r < m"
  shows "card {bs. length bs = 4 \<and> secureRandomInt (NInt m) bs = Drawn r []} = nat (4294967296 div m)"
proof -
  let ?k = "4294967296 div m"
  let ?f = "\<lambda>bs. draw_value bs div m"
  have "bij_betw ?f (draws_for m r) {0..<?k}"
  proof (rule bij_betw_imageI)
    show "inj_on ?f (draws_for m r)"
    proof (rule inj_onI)
      fix bs bs'
      assume "bs \<in> draws_for m r" "bs' \<in> draws_for m r" "?f bs = ?f bs'"
      then show "bs = bs'"
        using m by (auto simp: draws_for_iff) (metis div_mult_mod_eq readUInt32BE_inject)+
    qed
    show "?f ` draws_for m r = {0..<?k}"
    proof (intro subset_antisym subsetI)
      fix q
      assume "q \<in> ?f ` draws_for m r"
      then obtain v where v: "q = v div m" "0 \<le> v" "v < m * ?k"
        using m by (auto simp: draws_for_iff readUInt32BE_bounds)
      have "m * (v div m) \<le> v"
        using m by (simp add: minus_mod_eq_mult_div [symmetric])
      with v(3) have "m * (v div m) < m * ?k" by linarith
      with v m show "q \<in> {0..<?k}" by (simp add: pos_imp_zdiv_nonneg_iff)
    next
      fix q
      assume q: "q \<in> {0..<?k}"
      have "q * m + r < m * ?k"
      proof -
        have "(q + 1) * m \<le> ?k * m" using q m by (intro mult_right_mono) auto
        with r show ?thesis by (simp add: algebra_simps)
      qed
      moreover have "m * ?k \<le> 4294967296"
        using m by (simp add: minus_mod_eq_mult_div [symmetric])
      moreover have "0 \<le> q * m + r" using q m r by simp
      ultimately obtain a b c d where v: "readUInt32BE a b c d = q * m + r"
        using readUInt32BE_surj [of "q * m + r"] by auto
      have "(q * m + r) div m = q" and "(q * m + r) mod m = r"
        using m r by simp_all
      with v have in_draws: "readUInt32BE a b c d < m * ?k" "readUInt32BE a b c d mod m = r"
        and f: "?f [a, b, c, d] = q"
        using \<open>q * m + r < m * ?k\<close> by (simp_all only: draw_value.simps)
      have "[a, b, c, d] \<in> draws_for m r"
        unfolding draws_for_iff [OF m] using in_draws by blast
      with f show "q \<in> ?f ` draws_for m r" by (metis image_eqI)
    qed
  qed
  then have "card (draws_for m r) = card {0..<?k}" by (rule bij_betw_same_card)
  then show ?thesis by (simp add: draws_for_def)
qed

theorem secureRandomInt_unbiased_witness:
  "card {bs. length bs = 4 \<and> secureRandomInt (NInt 10) bs = Drawn 3 []} = 429496729"
  using secureRandomInt_unbiased [of 10 3] by simp

end
