(* ===== verification/Segment.thy ===== *)
theory Segment
  imports Crypto
begin

text \<open>
  \<^verbatim>\<open>packages/core/src/segment.ts\<close>: the value of a segment is a slice of an HMAC of a derivation
  input that names the segment's kind, its identifier and its time window or counter. A window
  index is a \<open>jsnum\<close>, because a zero window makes JavaScript divide by zero. Dividing an integer
  time by \<open>1000\<close> and by the window and taking the floor is exact integer division for every
  time below \<open>2^45\<close> milliseconds and every window of at most 300 seconds.
\<close>

section \<open>Derivation inputs\<close>

definition static_input :: "string \<Rightarrow> string" where
  "static_input sid = ''static:'' @ sid"

definition totp_input :: "string \<Rightarrow> jsnum \<Rightarrow> string" where
  "totp_input sid T = ''totp:'' @ sid @ '':'' @ show_num T"

definition hotp_input :: "string \<Rightarrow> int \<Rightarrow> string" where
  "hotp_input sid c = ''hotp:'' @ sid @ '':'' @ show_int c"

definition pad_input :: "nat \<Rightarrow> string \<Rightarrow> string" where
  "pad_input round result = ''pad:'' @ show_nat round @ '':'' @ result"

text \<open>\<^verbatim>\<open>Math.floor(nowMs / 1000 / windowSec)\<close> and \<^verbatim>\<open>T + delta\<close>.\<close>

definition window_index :: "int \<Rightarrow> int \<Rightarrow> jsnum" where
  "window_index nowMs windowSec =
     (if windowSec = 0
      then (if nowMs = 0 then NNaN else NInf (0 < nowMs))
      else NInt (nowMs div (1000 * windowSec)))"

fun num_add :: "jsnum \<Rightarrow> int \<Rightarrow> jsnum" where
  "num_add (NInt n) k = NInt (n + k)"
| "num_add (NFrac f) k = NFrac (f + k)"
| "num_add x k = x"

section \<open>Padding and derivation\<close>

definition toSecretBuf :: "string \<Rightarrow> byte list res" where
  "toSecretBuf sharedSecret =
     bind_res (validateHexSecret sharedSecret) (\<lambda>_. Inr (hex_decode sharedSecret))"

text \<open>The \<^verbatim>\<open>while (result.length < length)\<close> loop. Each round appends the 43 characters of one HMAC.\<close>

function pad_loop :: "hmac_fn \<Rightarrow> byte list \<Rightarrow> int \<Rightarrow> nat \<Rightarrow> string \<Rightarrow> string" where
  "pad_loop H secretBuf len round result =
     (if int (length result) < len
      then pad_loop H secretBuf len (Suc round) (result @ hmacRaw H secretBuf (pad_input round result))
      else result)"
  by pat_completeness auto
termination
  by (relation "measure (\<lambda>(H, k, len, round, result). nat (len - int (length result)))") auto

declare pad_loop.simps [simp del]

definition padOrTruncate :: "hmac_fn \<Rightarrow> byte list \<Rightarrow> string \<Rightarrow> int \<Rightarrow> string" where
  "padOrTruncate H secretBuf s len =
     (if len \<le> int (length s) then js_slice s 0 len
      else js_slice (pad_loop H secretBuf len 0 s) 0 len)"

definition deriveSegmentValue :: "hmac_fn \<Rightarrow> string \<Rightarrow> SegmentConfig \<Rightarrow> int \<Rightarrow> string res" where
  "deriveSegmentValue H sharedSecret seg nowMs =
     (let segLen = snd (seg_pos seg) - fst (seg_pos seg);
          input = (case seg_type seg of
             Static \<Rightarrow> Inr (static_input (seg_id seg))
           | Totp \<Rightarrow> Inr (totp_input (seg_id seg) (window_index nowMs (nullish (seg_window seg) 60)))
           | Hotp \<Rightarrow>
               (let c = nullish (seg_counter seg) 0
                in bind_res (assertUsableHOTPDerivationCounter (int_val c))
                     (\<lambda>_. Inr (hotp_input (seg_id seg) c))))
      in bind_res input (\<lambda>derivationInput.
         bind_res (toSecretBuf sharedSecret) (\<lambda>secretBuf.
           Inr (padOrTruncate H secretBuf (hmacRaw H secretBuf derivationInput) segLen))))"

definition deriveSegmentForWindow :: "hmac_fn \<Rightarrow> string \<Rightarrow> SegmentConfig \<Rightarrow> jsnum \<Rightarrow> string res" where
  "deriveSegmentForWindow H sharedSecret seg T =
     (let segLen = snd (seg_pos seg) - fst (seg_pos seg)
      in bind_res (toSecretBuf sharedSecret) (\<lambda>secretBuf.
           Inr (padOrTruncate H secretBuf (hmacRaw H secretBuf (totp_input (seg_id seg) T)) segLen)))"

definition deriveSegmentForCounter :: "hmac_fn \<Rightarrow> string \<Rightarrow> SegmentConfig \<Rightarrow> int \<Rightarrow> string res" where
  "deriveSegmentForCounter H sharedSecret seg c =
     bind_res (assertUsableHOTPDerivationCounter (int_val c)) (\<lambda>_.
       let segLen = snd (seg_pos seg) - fst (seg_pos seg)
       in bind_res (toSecretBuf sharedSecret) (\<lambda>secretBuf.
            Inr (padOrTruncate H secretBuf (hmacRaw H secretBuf (hotp_input (seg_id seg) c)) segLen)))"

section \<open>Lengths\<close>

lemma pad_loop_length: "len \<le> int (length (pad_loop H k len round result))"
proof (induction H k len round result rule: pad_loop.induct)
  case (1 H k len round result)
  then show ?case by (subst pad_loop.simps) auto
qed

lemma pad_loop_prefix: "\<exists>t. pad_loop H k len round result = result @ t"
proof (induction H k len round result rule: pad_loop.induct)
  case (1 H k len round result)
  show ?case
  proof (cases "int (length result) < len")
    case True
    with "1.IH" obtain t where
      "pad_loop H k len (Suc round) (result @ hmacRaw H k (pad_input round result)) =
         (result @ hmacRaw H k (pad_input round result)) @ t" by blast
    with True show ?thesis by (simp add: pad_loop.simps [of H k len round result])
  qed (simp add: pad_loop.simps)
qed

lemma padOrTruncate_length: "0 \<le> len \<Longrightarrow> int (length (padOrTruncate H k s len)) = len"
  using pad_loop_length [of len H k 0 s] by (auto simp: padOrTruncate_def js_slice_prefix)

text \<open>What a segment of length \<open>n\<close> derives from an input under a valid secret.\<close>

definition seg_value :: "hmac_fn \<Rightarrow> string \<Rightarrow> string \<Rightarrow> int \<Rightarrow> string" where
  "seg_value H secret input n =
     padOrTruncate H (hex_decode secret) (hmacRaw H (hex_decode secret) input) n"

lemma length_seg_value: "0 \<le> n \<Longrightarrow> int (length (seg_value H s i n)) = n"
  by (simp add: seg_value_def padOrTruncate_length)

lemma deriveSegmentForWindow_eq:
  "secret_ok s \<Longrightarrow> deriveSegmentForWindow H s seg T = Inr (seg_value H s (totp_input (seg_id seg) T) (seg_len seg))"
  by (simp add: deriveSegmentForWindow_def toSecretBuf_def seg_value_def)

lemma deriveSegmentForCounter_eq:
  "secret_ok s \<Longrightarrow> 0 \<le> c \<Longrightarrow> c < TSK_MAX_HOTP_COUNTER \<Longrightarrow>
   deriveSegmentForCounter H s seg c = Inr (seg_value H s (hotp_input (seg_id seg) c) (seg_len seg))"
  by (simp add: deriveSegmentForCounter_def toSecretBuf_def seg_value_def assertUsable_cases)

lemma deriveSegmentValue_static:
  "secret_ok s \<Longrightarrow> seg_type seg = Static \<Longrightarrow>
   deriveSegmentValue H s seg now = Inr (seg_value H s (static_input (seg_id seg)) (seg_len seg))"
  by (simp add: deriveSegmentValue_def toSecretBuf_def seg_value_def Let_def)

text \<open>The current value of a rotating segment is the value the window and counter variants give for
  the current window and for the stored counter.\<close>

lemma deriveSegmentValue_totp:
  "seg_type seg = Totp \<Longrightarrow>
   deriveSegmentValue H s seg now = deriveSegmentForWindow H s seg (window_index now (nullish (seg_window seg) 60))"
  by (simp add: deriveSegmentValue_def deriveSegmentForWindow_def Let_def)

lemma deriveSegmentValue_hotp:
  "seg_type seg = Hotp \<Longrightarrow>
   deriveSegmentValue H s seg now = deriveSegmentForCounter H s seg (stored_counter seg)"
  by (simp add: deriveSegmentValue_def deriveSegmentForCounter_def Let_def assertUsable_cases)

section \<open>Domain separation\<close>

lemma append_sep_inject:
  "c \<notin> set a \<Longrightarrow> c \<notin> set b \<Longrightarrow> a @ c # s = b @ c # t \<longleftrightarrow> a = b \<and> s = t"
proof (induction a arbitrary: b)
  case Nil
  then show ?case by (cases b) auto
next
  case (Cons x a)
  then show ?case by (cases b) auto
qed

lemma show_num_inject:
  "show_num (NInt i) = show_num (NInt j) \<longleftrightarrow> i = j" by simp

lemma show_nat_no_colon [simp]: "CHR '':'' \<notin> set (show_nat n)"
  using show_nat_digits [of "CHR '':''" n] by auto

text \<open>Everything that is ever fed to HMAC under a client's shared secret.\<close>

datatype hmac_use =
    UStatic string
  | UTotp string int
  | UHotp string int
  | UPad nat string
  | UChecksum string

fun hmac_use_input :: "hmac_use \<Rightarrow> string" where
  "hmac_use_input (UStatic sid) = static_input sid"
| "hmac_use_input (UTotp sid T) = totp_input sid (NInt T)"
| "hmac_use_input (UHotp sid c) = hotp_input sid c"
| "hmac_use_input (UPad r s) = pad_input r s"
| "hmac_use_input (UChecksum body) = ''checksum:'' @ body"

fun hmac_use_plain :: "hmac_use \<Rightarrow> bool" where
  "hmac_use_plain (UTotp sid T) = (CHR '':'' \<notin> set sid)"
| "hmac_use_plain (UHotp sid c) = (CHR '':'' \<notin> set sid)"
| "hmac_use_plain _ = True"

text \<open>Domain separation of the derivation inputs. Two HMAC inputs built by the code for segment
  identifiers without a colon (as \<^verbatim>\<open>generateSegmentId\<close> makes them) are equal only when they serve the
  same purpose for the same segment, window, counter, padding round or key body.\<close>

theorem hmac_inputs_separated:
  assumes "hmac_use_plain u" and "hmac_use_plain v"
  shows "hmac_use_input u = hmac_use_input v \<longleftrightarrow> u = v"
  using assms
  by (cases u; cases v)
    (auto simp: static_input_def totp_input_def hotp_input_def pad_input_def append_sep_inject)

theorem hmac_inputs_separated_witness:
  "hmac_use_plain (UHotp ''seg_00ff00ff'' 3) \<and> hmac_use_plain (UTotp ''seg_00ff00ff'' 3) \<and>
   hmac_use_input (UHotp ''seg_00ff00ff'' 3) \<noteq> hmac_use_input (UTotp ''seg_00ff00ff'' 3)"
proof -
  have p: "hmac_use_plain (UHotp ''seg_00ff00ff'' 3)" "hmac_use_plain (UTotp ''seg_00ff00ff'' 3)"
    by simp_all
  show ?thesis using p hmac_inputs_separated [OF p] by simp
qed

end
