(* ===== verification/Tumbler_Map.thy ===== *)
theory Tumbler_Map
  imports Segment "HOL-Library.Multiset"
begin

text \<open>
  \<^verbatim>\<open>packages/core/src/tumbler-map.ts\<close>: option validation, randomised layout generation, the
  provision payload and the checksum. \<^verbatim>\<open>Math.floor(baseSize * 0.20)\<close> is \<open>baseSize div 5\<close>, exact for
  the base sizes below 512 that can occur. The audit capture event emitted at the end of
  \<^verbatim>\<open>generateTumblerMap\<close> does not influence the result and is left out.
\<close>

section \<open>Constants and options\<close>

definition CHECKSUM_LENGTH :: int where "CHECKSUM_LENGTH = 12"
definition MIN_SEGMENT_LENGTH :: int where "MIN_SEGMENT_LENGTH = 8"
definition MIN_KEY_LENGTH :: int where "MIN_KEY_LENGTH = 20"
definition MAX_KEY_LENGTH :: int where "MAX_KEY_LENGTH = 512"
definition MIN_TUMBLERS :: int where "MIN_TUMBLERS = 1"
definition MAX_TUMBLERS :: int where "MAX_TUMBLERS = 8"
definition ALLOWED_WINDOWS :: "int list" where "ALLOWED_WINDOWS = [30, 60, 120, 300]"
definition MIN_WINDOW_SEC :: int where "MIN_WINDOW_SEC = 30"
definition MAX_WINDOW_SEC :: int where "MAX_WINDOW_SEC = 300"

lemmas tumbler_consts = CHECKSUM_LENGTH_def MIN_SEGMENT_LENGTH_def MIN_KEY_LENGTH_def
  MAX_KEY_LENGTH_def MIN_TUMBLERS_def MAX_TUMBLERS_def ALLOWED_WINDOWS_def MIN_WINDOW_SEC_def
  MAX_WINDOW_SEC_def

record TumblerMapOptions =
  opt_keyLength :: "jsnum option"
  opt_minTumblers :: "jsnum option"
  opt_maxTumblers :: "jsnum option"
  opt_allowedWindows :: "jsnum list option"

record ValidOptions =
  vo_keyLength :: int
  vo_minTumblers :: int
  vo_maxTumblers :: int
  vo_allowedWindows :: "int list"

definition bad_window :: "jsnum \<Rightarrow> bool" where
  "bad_window w \<longleftrightarrow> \<not> Number_isInteger w \<or> num_lt w MIN_WINDOW_SEC \<or> num_gt w MAX_WINDOW_SEC"

definition validateOptions :: "TumblerMapOptions \<Rightarrow> ValidOptions res" where
  "validateOptions options =
     (let keyLength = nullish (opt_keyLength options) (NInt 64);
          minTumblers = nullish (opt_minTumblers options) (NInt 2);
          maxTumblers = nullish (opt_maxTumblers options) (NInt 5);
          allowedWindows = nullish (opt_allowedWindows options) (map NInt ALLOWED_WINDOWS)
      in
      if \<not> Number_isInteger keyLength \<or> num_lt keyLength MIN_KEY_LENGTH \<or> num_gt keyLength MAX_KEY_LENGTH
      then Inl ''TSK: keyLength must be an integer in [20, 512]''
      else if \<not> Number_isInteger minTumblers \<or> num_lt minTumblers MIN_TUMBLERS
      then Inl ''TSK: minTumblers must be >= 1''
      else if \<not> Number_isInteger maxTumblers \<or> num_gt maxTumblers MAX_TUMBLERS
      then Inl ''TSK: maxTumblers must be <= 8''
      else if num_floor minTumblers > num_floor maxTumblers
      then Inl ''TSK: minTumblers must be <= maxTumblers''
      else if allowedWindows = []
      then Inl ''TSK: allowedWindows must be a non-empty array''
      else if list_ex bad_window allowedWindows
      then Inl ''TSK: allowedWindows values must be integers in [30, 300]''
      else
        let numTotalSegments = num_floor maxTumblers + 1;
            minRequired = numTotalSegments * MIN_SEGMENT_LENGTH + CHECKSUM_LENGTH
        in if num_floor keyLength < minRequired
           then Inl ''TSK: keyLength is too small''
           else Inr \<lparr>vo_keyLength = num_floor keyLength, vo_minTumblers = num_floor minTumblers,
                     vo_maxTumblers = num_floor maxTumblers,
                     vo_allowedWindows = map num_floor allowedWindows\<rparr>)"

section \<open>Layout generation\<close>

text \<open>The loop that jitters the interior boundaries, from index \<open>i\<close> on, with \<open>k\<close> rounds left.\<close>

fun jitter_loop :: "int \<Rightarrow> int \<Rightarrow> int \<Rightarrow> nat \<Rightarrow> int \<Rightarrow> int \<Rightarrow> int list rand" where
  "jitter_loop totalLength cnt baseSize 0 i prev = rreturn []"
| "jitter_loop totalLength cnt baseSize (Suc k) i prev =
     (let ideal = i * baseSize;
          maxJitter = baseSize div 5
      in rbind (secureRandomInt (NInt (maxJitter * 2 + 1))) (\<lambda>r.
         let jitter = r - maxJitter;
             minBoundary = prev + MIN_SEGMENT_LENGTH;
             maxBoundary = totalLength - (cnt - i) * MIN_SEGMENT_LENGTH;
             boundary = max minBoundary (min maxBoundary (ideal + jitter))
         in rbind (jitter_loop totalLength cnt baseSize k (i + 1) boundary) (\<lambda>bs.
            rreturn (boundary # bs))))"

definition swap_at :: "'a list \<Rightarrow> nat \<Rightarrow> nat \<Rightarrow> 'a list" where
  "swap_at xs i j = xs[i := xs ! j, j := xs ! i]"

text \<open>\<^verbatim>\<open>for (let i = length - 1; i > 0; i--)\<close>.\<close>

fun shuffle_loop :: "nat \<Rightarrow> int list \<Rightarrow> int list rand" where
  "shuffle_loop 0 xs = rreturn xs"
| "shuffle_loop (Suc i) xs =
     rbind (secureRandomInt (NInt (int (Suc i) + 1))) (\<lambda>j. shuffle_loop i (swap_at xs (Suc i) (nat j)))"

definition randomNonOverlappingSegments :: "int \<Rightarrow> int \<Rightarrow> (int \<times> int) list rand" where
  "randomNonOverlappingSegments totalLength cnt =
     (if cnt \<le> 0 then rthrow ''Cannot create segments''
      else if totalLength < cnt * MIN_SEGMENT_LENGTH then rthrow ''Cannot create segments of min length''
      else let baseSize = totalLength div cnt in
        rbind (jitter_loop totalLength cnt baseSize (nat (cnt - 1)) 1 0) (\<lambda>mid.
        rbind (shuffle_loop (length mid - 1) mid) (\<lambda>shuffled.
          let finalBoundaries = [0] @ sort shuffled @ [totalLength]
          in rreturn (zip (butlast finalBoundaries) (tl finalBoundaries)))))"

text \<open>The body of \<^verbatim>\<open>positions.map((pos, i) => ...)\<close>. The draw of \<^verbatim>\<open>secureRandomInt(10)\<close> is skipped
  for the index that must be counter-based.\<close>

definition gen_segment :: "int list \<Rightarrow> int \<Rightarrow> int \<Rightarrow> int \<times> int \<Rightarrow> SegmentConfig rand" where
  "gen_segment allowedWindows requiredHotpIndex i pos =
     rbind (generateSegmentId (if i = 0 then ''id'' else ''seg'')) (\<lambda>segId.
       if i = 0
       then rreturn \<lparr>seg_id = segId, seg_pos = pos, seg_type = Static, seg_window = None, seg_counter = None\<rparr>
       else
         rbind (if i = requiredHotpIndex then rreturn False
                else rbind (secureRandomInt (NInt 10)) (\<lambda>r. rreturn (3 \<le> r))) (\<lambda>isTotp.
         rbind (secureRandomInt (NInt (int (length allowedWindows)))) (\<lambda>w.
           rreturn \<lparr>seg_id = segId, seg_pos = pos,
                    seg_type = (if isTotp then Totp else Hotp),
                    seg_window = (if isTotp then Some (allowedWindows ! nat w) else None),
                    seg_counter = (if isTotp then None else Some 0)\<rparr>)))"

fun gen_segments :: "int list \<Rightarrow> int \<Rightarrow> int \<Rightarrow> (int \<times> int) list \<Rightarrow> SegmentConfig list rand" where
  "gen_segments allowedWindows requiredHotpIndex i [] = rreturn []"
| "gen_segments allowedWindows requiredHotpIndex i (pos # rest) =
     rbind (gen_segment allowedWindows requiredHotpIndex i pos) (\<lambda>seg.
     rbind (gen_segments allowedWindows requiredHotpIndex (i + 1) rest) (\<lambda>segs.
       rreturn (seg # segs)))"

definition generateTumblerMap :: "TumblerMapOptions \<Rightarrow> int \<Rightarrow> TumblerMap rand" where
  "generateTumblerMap options now =
     rbind (rlift (validateOptions options)) (\<lambda>v.
     rbind generateClientId (\<lambda>clientId.
     rbind generateSharedSecret (\<lambda>sharedSecret.
     rbind (secureRandomInt (NInt (vo_maxTumblers v - vo_minTumblers v + 1))) (\<lambda>d.
     let numTumblers = vo_minTumblers v + d in
     rbind (secureRandomInt (NInt numTumblers)) (\<lambda>h.
     let requiredHotpIndex = 1 + h;
         checksumStart = vo_keyLength v - CHECKSUM_LENGTH;
         numSegments = numTumblers + 1 in
     rbind (randomNonOverlappingSegments checksumStart numSegments) (\<lambda>positions.
     rbind (gen_segments (vo_allowedWindows v) requiredHotpIndex 0 positions) (\<lambda>segments.
       rreturn \<lparr>tm_clientId = clientId, tm_sharedSecret = sharedSecret,
                tm_keyLength = vo_keyLength v, tm_segments = segments,
                tm_checksum = (checksumStart, vo_keyLength v), tm_createdAt = now,
                tm_version = ''1'', tm_label = None, tm_expiresAt = None, tm_maxRequests = None,
                tm_rotationWarningRequests = None, tm_hotpRotationWarningCounters = None,
                tm_requestCount = None, tm_lastUsedAt = None, tm_status = None\<rparr>)))))))"

section \<open>Provision payload and checksum\<close>

definition toClientSegment :: "SegmentConfig \<Rightarrow> ClientSegmentConfig" where
  "toClientSegment seg =
     \<lparr>cs_id = seg_id seg, cs_type = seg_type seg,
      cs_length = snd (seg_pos seg) - fst (seg_pos seg),
      cs_window = (if seg_type seg = Totp then seg_window seg else None),
      cs_initialCounter = (if seg_type seg = Hotp then Some (nullish (seg_counter seg) 0) else None)\<rparr>"

definition toProvisionPayload :: "TumblerMap \<Rightarrow> TSKProvisionPayload" where
  "toProvisionPayload m =
     (let sortedSegments = sort_key (\<lambda>s. fst (seg_pos s)) (tm_segments m)
      in \<lparr>pp_clientId = tm_clientId m,
          pp_clientSegments = map toClientSegment sortedSegments,
          pp_keyLength = tm_keyLength m,
          pp_checksumLength = CHECKSUM_LENGTH,
          pp_createdAt = tm_createdAt m,
          pp_version = ''1''\<rparr>)"

definition computeChecksum :: "hmac_fn \<Rightarrow> string \<Rightarrow> string \<Rightarrow> string res" where
  "computeChecksum H sharedSecret keyWithoutChecksum =
     bind_res (hmac H sharedSecret (''checksum:'' @ keyWithoutChecksum)) (\<lambda>full.
       Inr (js_slice full 0 CHECKSUM_LENGTH))"

section \<open>Well-formed layouts\<close>

text \<open>The segments follow one another from \<open>a\<close> to \<open>b\<close> without gap or overlap.\<close>

fun contiguous :: "int \<Rightarrow> SegmentConfig list \<Rightarrow> int \<Rightarrow> bool" where
  "contiguous a [] b = (a = b)"
| "contiguous a (s # ss) b = (fst (seg_pos s) = a \<and> a < snd (seg_pos s) \<and> contiguous (snd (seg_pos s)) ss b)"

definition wf_layout :: "TumblerMap \<Rightarrow> bool" where
  "wf_layout m \<longleftrightarrow>
     contiguous 0 (tm_segments m) (fst (tm_checksum m)) \<and>
     snd (tm_checksum m) = tm_keyLength m \<and>
     fst (tm_checksum m) + CHECKSUM_LENGTH = tm_keyLength m \<and>
     MIN_KEY_LENGTH \<le> tm_keyLength m \<and> tm_keyLength m \<le> MAX_KEY_LENGTH \<and>
     hotp_segments m \<noteq> []"

lemma contiguous_le: "contiguous a ss b \<Longrightarrow> a \<le> b"
  by (induction a ss b rule: contiguous.induct) auto

lemma contiguous_starts:
  "contiguous a ss b \<Longrightarrow> s \<in> set ss \<Longrightarrow> a \<le> fst (seg_pos s) \<and> fst (seg_pos s) < snd (seg_pos s) \<and> snd (seg_pos s) \<le> b"
proof (induction a ss b rule: contiguous.induct)
  case (2 a t ss b)
  then show ?case using contiguous_le [of "snd (seg_pos t)" ss b] by auto
qed simp

lemma contiguous_sorted: "contiguous a ss b \<Longrightarrow> sorted (map (\<lambda>s. fst (seg_pos s)) ss)"
proof (induction a ss b rule: contiguous.induct)
  case (2 a t ss b)
  then show ?case using contiguous_starts [of "snd (seg_pos t)" ss b] by force
qed simp

lemma payload_segments_contiguous:
  "contiguous a (tm_segments m) b \<Longrightarrow>
   pp_clientSegments (toProvisionPayload m) = map toClientSegment (tm_segments m)"
  by (simp add: toProvisionPayload_def contiguous_sorted sort_key_id_if_sorted Let_def)

section \<open>Correctness of the generator\<close>

text \<open>\<open>spaced a bs b\<close>: the boundaries \<open>a, bs, b\<close> leave at least the minimum segment length between
  neighbours.\<close>

fun spaced :: "int \<Rightarrow> int list \<Rightarrow> int \<Rightarrow> bool" where
  "spaced a [] b = (a + MIN_SEGMENT_LENGTH \<le> b)"
| "spaced a (x # xs) b = (a + MIN_SEGMENT_LENGTH \<le> x \<and> spaced x xs b)"

lemma jitter_loop_spaced:
  assumes "jitter_loop tot cnt base k i prev bs = Drawn mid bs'"
    and "cnt - i = int k" and "prev + (int k + 1) * MIN_SEGMENT_LENGTH \<le> tot"
  shows "spaced prev mid tot \<and> length mid = k"
  using assms
proof (induction k arbitrary: i prev bs mid bs')
  case 0
  then show ?case by simp
next
  case (Suc k)
  from Suc.prems(1) obtain r b mid' bs1 bs2 where
    b: "b = max (prev + MIN_SEGMENT_LENGTH)
          (min (tot - (cnt - i) * MIN_SEGMENT_LENGTH) (i * base + (r - base div 5)))"
    and rest: "jitter_loop tot cnt base k (i + 1) b bs1 = Drawn mid' bs2" and mid: "mid = b # mid'"
    by (auto simp: rbind_Drawn_iff Let_def)
  have room: "prev + MIN_SEGMENT_LENGTH \<le> tot - (cnt - i) * MIN_SEGMENT_LENGTH"
    using Suc.prems(2,3) by (simp add: MIN_SEGMENT_LENGTH_def algebra_simps)
  have "b + (int k + 1) * MIN_SEGMENT_LENGTH \<le> tot"
    using room Suc.prems(2) unfolding b by (simp add: MIN_SEGMENT_LENGTH_def)
  moreover have "cnt - (i + 1) = int k" using Suc.prems(2) by simp
  ultimately have "spaced b mid' tot \<and> length mid' = k"
    using Suc.IH [OF rest] by simp
  then show ?case using mid b by simp
qed

lemma spaced_sorted: "spaced a xs b \<Longrightarrow> sorted (a # xs)"
  by (induction a xs b rule: spaced.induct) (auto simp: MIN_SEGMENT_LENGTH_def)

lemma mset_swap_at: "i < length xs \<Longrightarrow> j < length xs \<Longrightarrow> mset (swap_at xs i j) = mset xs"
  by (simp add: swap_at_def mset_swap)

lemma shuffle_loop_mset:
  "shuffle_loop n xs bs = Drawn ys bs' \<Longrightarrow> n < length xs \<or> n = 0 \<Longrightarrow> mset ys = mset xs"
proof (induction n arbitrary: xs bs bs')
  case (Suc n)
  then obtain j bs1 where j: "secureRandomInt (NInt (int (Suc n) + 1)) bs = Drawn j bs1"
    and rest: "shuffle_loop n (swap_at xs (Suc n) (nat j)) bs1 = Drawn ys bs'"
    by (auto simp: rbind_Drawn_iff)
  have "nat j < length xs" using secureRandomInt_bounds [OF j] Suc.prems(2) by auto
  then have "mset (swap_at xs (Suc n) (nat j)) = mset xs"
    using Suc.prems(2) by (intro mset_swap_at) auto
  moreover have "length (swap_at xs (Suc n) (nat j)) = length xs" by (simp add: swap_at_def)
  ultimately show ?case using Suc.IH [OF rest] Suc.prems(2) by simp
qed simp

lemma sort_shuffled: "mset ys = mset xs \<Longrightarrow> sorted xs \<Longrightarrow> sort ys = xs"
  by (simp add: properties_for_sort)

lemma spaced_positions:
  "spaced a mid b \<Longrightarrow> map seg_pos ss = zip (a # mid) (mid @ [b]) \<Longrightarrow>
   contiguous a ss b \<and> (\<forall>s \<in> set ss. MIN_SEGMENT_LENGTH \<le> seg_len s)"
proof (induction a mid b arbitrary: ss rule: spaced.induct)
  case (1 a b)
  then show ?case by (auto simp: Cons_eq_map_conv MIN_SEGMENT_LENGTH_def)
next
  case (2 a x xs b)
  then obtain t ts where ss: "ss = t # ts" "seg_pos t = (a, x)" "map seg_pos ts = zip (x # xs) (xs @ [b])"
    by (auto simp: map_eq_Cons_conv)
  with 2 show ?case by (simp add: MIN_SEGMENT_LENGTH_def)
qed

lemma randomNonOverlappingSegments_spaced:
  assumes "randomNonOverlappingSegments tot cnt bs = Drawn ps bs'"
  shows "\<exists>mid. spaced 0 mid tot \<and> length mid + 1 = nat cnt \<and> ps = zip (0 # mid) (mid @ [tot])"
proof -
  from assms obtain mid ys bs1 where guard: "0 < cnt" "cnt * MIN_SEGMENT_LENGTH \<le> tot"
    and mid: "jitter_loop tot cnt (tot div cnt) (nat (cnt - 1)) 1 0 bs = Drawn mid bs1"
    and ys: "shuffle_loop (length mid - 1) mid bs1 = Drawn ys bs'"
    and ps: "ps = zip (butlast ([0] @ sort ys @ [tot])) (tl ([0] @ sort ys @ [tot]))"
    by (auto simp: randomNonOverlappingSegments_def rbind_Drawn_iff Let_def split: if_splits)
  have "spaced 0 mid tot \<and> length mid = nat (cnt - 1)"
    by (rule jitter_loop_spaced [OF mid]) (use guard in auto)
  moreover from this have "sorted mid" using spaced_sorted [of 0 mid tot] by simp
  moreover have "mset ys = mset mid"
    by (rule shuffle_loop_mset [OF ys]) (cases mid, auto)
  ultimately show ?thesis
    using guard(1) unfolding ps
    by (intro exI [of _ mid]) (auto simp: sort_shuffled butlast_append)
qed

text \<open>The kinds of the generated segments: the first is static, the required index is
  counter-based, every counter starts at zero and every window is an allowed one.\<close>

definition gen_kind :: "int list \<Rightarrow> int \<Rightarrow> int \<Rightarrow> SegmentConfig \<Rightarrow> bool" where
  "gen_kind ws req i s \<longleftrightarrow>
     (i = 0) = (seg_type s = Static) \<and>
     (i \<noteq> 0 \<longrightarrow> i = req \<longrightarrow> seg_type s = Hotp) \<and>
     (seg_type s = Hotp \<longrightarrow> seg_counter s = Some 0) \<and>
     (seg_type s = Totp \<longrightarrow> seg_window s \<in> Some ` set ws) \<and>
     CHR '':'' \<notin> set (seg_id s)"

fun gen_kinds :: "int list \<Rightarrow> int \<Rightarrow> int \<Rightarrow> SegmentConfig list \<Rightarrow> bool" where
  "gen_kinds ws req i [] = True"
| "gen_kinds ws req i (s # ss) = (gen_kind ws req i s \<and> gen_kinds ws req (i + 1) ss)"

lemma generateSegmentId_no_colon:
  "generateSegmentId p bs = Drawn sid bs' \<Longrightarrow> CHR '':'' \<notin> set p \<Longrightarrow> CHR '':'' \<notin> set sid"
  using bytes_hex_chars [of "CHR '':''"]
  by (auto simp: generateSegmentId_def rbind_Drawn_iff hex_digits_def)

lemma gen_segment_kind:
  assumes "gen_segment ws req i pos bs = Drawn s bs'" and "ws \<noteq> []"
  shows "seg_pos s = pos \<and> gen_kind ws req i s"
proof -
  have w: "secureRandomInt (NInt (int (length ws))) bs1 = Drawn w bs2 \<Longrightarrow> ws ! nat w \<in> set ws" for w bs1 bs2
    using secureRandomInt_bounds [of "int (length ws)" bs1 w bs2] by auto
  have c1: "generateSegmentId ''id'' bs = Drawn sid bs1 \<Longrightarrow> CHR '':'' \<notin> set sid" for sid bs1
    by (rule generateSegmentId_no_colon) auto
  have c2: "generateSegmentId ''seg'' bs = Drawn sid bs1 \<Longrightarrow> CHR '':'' \<notin> set sid" for sid bs1
    by (rule generateSegmentId_no_colon) auto
  show ?thesis
    using assms(1)
    by (auto simp: gen_segment_def gen_kind_def rbind_Drawn_iff split: if_splits dest!: w dest: c1 c2)
qed

lemma gen_segments_kinds:
  "gen_segments ws req i ps bs = Drawn ss bs' \<Longrightarrow> ws \<noteq> [] \<Longrightarrow> map seg_pos ss = ps \<and> gen_kinds ws req i ss"
  by (induction ws req i ps arbitrary: ss bs bs' rule: gen_segments.induct)
    (auto simp: rbind_Drawn_iff dest!: gen_segment_kind)

lemma gen_kinds_hotp:
  "gen_kinds ws req i ss \<Longrightarrow> 0 < req \<Longrightarrow> i \<le> req \<Longrightarrow> req < i + int (length ss) \<Longrightarrow> \<exists>s \<in> set ss. seg_type s = Hotp"
proof (induction ss arbitrary: i)
  case (Cons s ss)
  show ?case
  proof (cases "i = req")
    case True
    with Cons.prems show ?thesis by (auto simp: gen_kind_def)
  next
    case False
    with Cons.prems Cons.IH [of "i + 1"] show ?thesis by auto
  qed
qed simp

lemma gen_kinds_each:
  "gen_kinds ws req i ss \<Longrightarrow> s \<in> set ss \<Longrightarrow> \<exists>j. gen_kind ws req j s"
  by (induction ss arbitrary: i) auto

lemma validateOptions_Inr:
  assumes "validateOptions o' = Inr v"
  shows "MIN_TUMBLERS \<le> vo_minTumblers v" "vo_minTumblers v \<le> vo_maxTumblers v"
    "vo_maxTumblers v \<le> MAX_TUMBLERS" "vo_keyLength v \<le> MAX_KEY_LENGTH"
    "(vo_maxTumblers v + 1) * MIN_SEGMENT_LENGTH + CHECKSUM_LENGTH \<le> vo_keyLength v"
    "vo_allowedWindows v \<noteq> []"
    "w \<in> set (vo_allowedWindows v) \<Longrightarrow> MIN_WINDOW_SEC \<le> w \<and> w \<le> MAX_WINDOW_SEC"
  using assms
  by (auto simp: validateOptions_def Let_def isInteger_iff bad_window_def list_ex_iff split: if_splits)
    (metis (no_types, lifting) isInteger_iff not_le num_floor.simps(1) num_gt.simps(1) num_lt.simps(1))+

lemma generated_map_wf:
  assumes "generateTumblerMap opts now bs = Drawn m bs'"
  shows "wf_layout m \<and> secret_ok (tm_sharedSecret m) \<and>
    (\<forall>s \<in> set (tm_segments m). MIN_SEGMENT_LENGTH \<le> seg_len s \<and> CHR '':'' \<notin> set (seg_id s) \<and>
       (seg_type s = Hotp \<longrightarrow> seg_counter s = Some 0) \<and>
       (seg_type s = Totp \<longrightarrow> (\<exists>w. seg_window s = Some w \<and> MIN_WINDOW_SEC \<le> w \<and> w \<le> MAX_WINDOW_SEC))) \<and>
    seg_type (hd (tm_segments m)) = Static"
proof -
  from assms obtain v cid sec d h ps ss bs1 bs2 bs3 bs4 bs5 bs6 where
    v: "validateOptions opts = Inr v"
    and sec: "generateSharedSecret bs1 = Drawn sec bs2"
    and d: "secureRandomInt (NInt (vo_maxTumblers v - vo_minTumblers v + 1)) bs2 = Drawn d bs3"
    and h: "secureRandomInt (NInt (vo_minTumblers v + d)) bs3 = Drawn h bs4"
    and ps: "randomNonOverlappingSegments (vo_keyLength v - CHECKSUM_LENGTH) (vo_minTumblers v + d + 1) bs4 = Drawn ps bs5"
    and ss: "gen_segments (vo_allowedWindows v) (1 + h) 0 ps bs5 = Drawn ss bs6"
    and m: "tm_sharedSecret m = sec" "tm_keyLength m = vo_keyLength v" "tm_segments m = ss"
      "tm_checksum m = (vo_keyLength v - CHECKSUM_LENGTH, vo_keyLength v)"
    by (auto simp: generateTumblerMap_def rbind_Drawn_iff rlift_Drawn_iff Let_def)
  note opts = validateOptions_Inr [OF v]
  have n: "0 \<le> h" "h < vo_minTumblers v + d" "0 \<le> d"
    using secureRandomInt_bounds [OF d] secureRandomInt_bounds [OF h] by auto
  obtain mid where mid: "spaced 0 mid (vo_keyLength v - CHECKSUM_LENGTH)"
    "length mid + 1 = nat (vo_minTumblers v + d + 1)"
    "ps = zip (0 # mid) (mid @ [vo_keyLength v - CHECKSUM_LENGTH])"
    using randomNonOverlappingSegments_spaced [OF ps] by blast
  have kinds: "map seg_pos ss = ps" "gen_kinds (vo_allowedWindows v) (1 + h) 0 ss"
    using gen_segments_kinds [OF ss] opts(6) by auto
  have tile: "contiguous 0 ss (vo_keyLength v - CHECKSUM_LENGTH)" "\<forall>s \<in> set ss. MIN_SEGMENT_LENGTH \<le> seg_len s"
    using spaced_positions [OF mid(1), of ss] kinds(1) mid(3) by auto
  have "length ss = length ps" using kinds(1) by (metis length_map)
  also have "\<dots> = length mid + 1" using mid(3) by simp
  finally have len: "int (length ss) = vo_minTumblers v + d + 1" using mid(2) n by simp
  have "\<exists>s \<in> set ss. seg_type s = Hotp"
    by (rule gen_kinds_hotp [OF kinds(2)]) (use n len in auto)
  then have "hotp_segments m \<noteq> []" using m by (auto simp: filter_empty_conv)
  moreover have "MIN_KEY_LENGTH \<le> vo_keyLength v"
    using opts(1,2,5) by (simp add: tumbler_consts)
  ultimately have "wf_layout m"
    using m tile(1) opts(4) by (simp add: wf_layout_def)
  moreover have "secret_ok (tm_sharedSecret m)"
    using m generateSharedSecret_ok [OF sec] by simp
  moreover have "seg_type (hd ss) = Static"
    using kinds(2) len n by (cases ss) (auto simp: gen_kind_def)
  moreover have "CHR '':'' \<notin> set (seg_id s) \<and> (seg_type s = Hotp \<longrightarrow> seg_counter s = Some 0) \<and>
      (seg_type s = Totp \<longrightarrow> (\<exists>w. seg_window s = Some w \<and> MIN_WINDOW_SEC \<le> w \<and> w \<le> MAX_WINDOW_SEC))"
    if "s \<in> set ss" for s
    using gen_kinds_each [OF kinds(2) that] opts(7) by (auto simp: gen_kind_def)
  ultimately show ?thesis using m tile(2) by blast
qed


definition default_options :: TumblerMapOptions where
  "default_options =
     \<lparr>opt_keyLength = None, opt_minTumblers = None, opt_maxTumblers = None, opt_allowedWindows = None\<rparr>"

fun drawn_value :: "'a drawn \<Rightarrow> 'a option" where
  "drawn_value (Drawn a bs) = Some a"
| "drawn_value _ = None"

lemma drawn_value_Some_iff: "drawn_value r = Some a \<longleftrightarrow> (\<exists>bs. r = Drawn a bs)"
  by (cases r) auto


lemma secureRandomInt_not_thrown: "0 < m \<Longrightarrow> m \<le> 4294967296 \<Longrightarrow> secureRandomInt (NInt m) bs \<noteq> Thrown e"
proof -
  have "reject_loop limit bs \<noteq> Thrown e" for limit bs
    by (induction limit bs rule: reject_loop.induct) (auto simp: Let_def)
  then show "0 < m \<Longrightarrow> m \<le> 4294967296 \<Longrightarrow> secureRandomInt (NInt m) bs \<noteq> Thrown e"
    by (auto simp: secureRandomInt_def MAX_SAFE_INTEGER_def rreturn_def rbind_def Let_def split: drawn.splits)
qed

lemma rbind_Thrown_iff:
  "rbind m f bs = Thrown e \<longleftrightarrow> m bs = Thrown e \<or> (\<exists>a bs'. m bs = Drawn a bs' \<and> f a bs' = Thrown e)"
  by (auto simp: rbind_def split: drawn.splits)

lemma rreturn_Thrown_iff [simp]: "rreturn a bs \<noteq> Thrown e"
  by (simp add: rreturn_def)

lemma jitter_loop_not_thrown:
  "0 \<le> base \<Longrightarrow> base \<le> 512 \<Longrightarrow> jitter_loop tot cnt base k i prev bs \<noteq> Thrown e"
  by (induction k arbitrary: i prev bs) (auto simp: rbind_Thrown_iff Let_def secureRandomInt_not_thrown)

lemma shuffle_loop_not_thrown: "n \<le> 512 \<Longrightarrow> shuffle_loop n xs bs \<noteq> Thrown e"
  by (induction n arbitrary: xs bs) (auto simp: rbind_Thrown_iff secureRandomInt_not_thrown)

lemma randomBytes_not_thrown [simp]: "randomBytes n bs \<noteq> Thrown e"
  by (simp add: randomBytes_def)

lemma gen_segment_not_thrown:
  "ws \<noteq> [] \<Longrightarrow> length ws \<le> 4294967296 \<Longrightarrow> gen_segment ws req i pos bs \<noteq> Thrown e"
  by (auto simp: gen_segment_def generateSegmentId_def rbind_Thrown_iff secureRandomInt_not_thrown)

lemma gen_segments_not_thrown:
  "ws \<noteq> [] \<Longrightarrow> length ws \<le> 4294967296 \<Longrightarrow> gen_segments ws req i ps bs \<noteq> Thrown e"
  by (induction ps arbitrary: i bs) (auto simp: rbind_Thrown_iff gen_segment_not_thrown)

lemma randomNonOverlappingSegments_not_thrown:
  assumes "0 < cnt" and "cnt \<le> 512" and "cnt * MIN_SEGMENT_LENGTH \<le> tot" and "tot \<le> 512"
  shows "randomNonOverlappingSegments tot cnt bs \<noteq> Thrown e"
proof -
  have base: "0 \<le> tot div cnt" "tot div cnt \<le> 512"
    using assms int_div_less_self [of tot cnt]
    by (auto simp: MIN_SEGMENT_LENGTH_def pos_imp_zdiv_nonneg_iff) (smt (verit) div_by_1 zdiv_mono2)
  have "length mid \<le> 512" if "jitter_loop tot cnt (tot div cnt) (nat (cnt - 1)) 1 0 bs = Drawn mid bs1" for mid bs1
    using jitter_loop_spaced [OF that] assms by auto
  then show ?thesis
    using assms base
    by (auto simp: randomNonOverlappingSegments_def rbind_Thrown_iff Let_def jitter_loop_not_thrown
        intro!: shuffle_loop_not_thrown)
qed

text \<open>The generator throws exactly when option validation does, with the same error: the range
  checks inside the layout and sampling code never fire on validated options.\<close>

lemma generateTumblerMap_throws_iff:
  assumes "length (nullish (opt_allowedWindows opts) []) \<le> 4294967296"
  shows "generateTumblerMap opts now bs = Thrown e \<longleftrightarrow> validateOptions opts = Inl e"
proof (cases "validateOptions opts")
  case (Inl e')
  then show ?thesis by (auto simp: generateTumblerMap_def rbind_def rlift_def rthrow_def)
next
  case (Inr v)
  note opts = validateOptions_Inr [OF Inr]
  have wlen: "length (vo_allowedWindows v) \<le> 4294967296"
    using Inr assms by (auto simp: validateOptions_def Let_def nullish_def ALLOWED_WINDOWS_def split: if_splits option.splits)
  have lay: "randomNonOverlappingSegments (vo_keyLength v - CHECKSUM_LENGTH) (vo_minTumblers v + d + 1) bs1 \<noteq> Thrown e"
    if "secureRandomInt (NInt (vo_maxTumblers v - vo_minTumblers v + 1)) bs0 = Drawn d bs2" for d bs0 bs1 bs2
    using secureRandomInt_bounds [OF that] opts
    by (intro randomNonOverlappingSegments_not_thrown) (auto simp: tumbler_consts)
  have h: "secureRandomInt (NInt (vo_minTumblers v + d)) bs1 \<noteq> Thrown e"
    if "secureRandomInt (NInt (vo_maxTumblers v - vo_minTumblers v + 1)) bs0 = Drawn d bs2" for d bs0 bs1 bs2
    using secureRandomInt_bounds [OF that] opts
    by (intro secureRandomInt_not_thrown) (auto simp: tumbler_consts)
  have d: "secureRandomInt (NInt (vo_maxTumblers v - vo_minTumblers v + 1)) bs1 \<noteq> Thrown e" for bs1
    using opts by (intro secureRandomInt_not_thrown) (auto simp: tumbler_consts)
  have "generateTumblerMap opts now bs \<noteq> Thrown e"
    using Inr gen_segments_not_thrown [OF opts(6) wlen]
    by (auto simp: generateTumblerMap_def rbind_Thrown_iff rlift_def generateClientId_def
        generateSharedSecret_def Let_def d dest: lay h)
  with Inr show ?thesis by simp
qed

lemma generateTumblerMap_throws_iff_witness:
  "generateTumblerMap (default_options\<lparr>opt_keyLength := Some (NFrac 64)\<rparr>) 0 [] =
     Thrown ''TSK: keyLength must be an integer in [20, 512]''"
  using generateTumblerMap_throws_iff [of "default_options\<lparr>opt_keyLength := Some (NFrac 64)\<rparr>" 0 "[]"
      "''TSK: keyLength must be an integer in [20, 512]''"]
  by (simp add: default_options_def validateOptions_def)

text \<open>Although 20 is documented as the smallest key length, no request for fewer than 28
  characters is ever accepted: one anchor, one rotating segment and the checksum need 28.\<close>

theorem validateOptions_min_key_length:
  "validateOptions opts = Inr v \<Longrightarrow> 28 \<le> vo_keyLength v"
  using validateOptions_Inr [of opts v] by (simp add: tumbler_consts)

theorem validateOptions_min_key_length_witness:
  "\<exists>v. validateOptions (default_options\<lparr>opt_keyLength := Some (NInt 28), opt_minTumblers := Some (NInt 1),
      opt_maxTumblers := Some (NInt 1)\<rparr>) = Inr v \<and> 28 \<le> vo_keyLength v"
proof -
  obtain v where v: "validateOptions (default_options\<lparr>opt_keyLength := Some (NInt 28),
      opt_minTumblers := Some (NInt 1), opt_maxTumblers := Some (NInt 1)\<rparr>) = Inr v"
    by (simp add: validateOptions_def default_options_def tumbler_consts bad_window_def)
  show ?thesis using v validateOptions_min_key_length [OF v] by blast
qed

end
