(* ===== verification/Key_Gen.thy ===== *)
theory Key_Gen
  imports Tumbler_Map
begin

text \<open>
  \<^verbatim>\<open>packages/core/src/key-gen.ts\<close>: the server-side assembly, which writes each segment at its
  absolute position of a character buffer, and the client-side assembly, which concatenates the
  segments of the provision payload. A \<^verbatim>\<open>Map<string, number>\<close> of counters is an association list.
  The capture events emitted before the returns do not influence the keys.
\<close>

section \<open>Server-side assembly\<close>

text \<open>\<^verbatim>\<open>new Array<string>(n).fill('\x00')\<close> throws on a length that is not an unsigned 32-bit integer.\<close>

definition new_buffer :: "int \<Rightarrow> char option list res" where
  "new_buffer n =
     (if n < 0 \<or> 4294967295 < n then Inl ''Invalid array length''
      else Inr (replicate (nat n) (Some (CHR 0x00))))"

text \<open>\<^verbatim>\<open>keyBuffer[start + i] = value[i] ?? 'A'\<close> for \<open>n\<close> indices from \<open>i\<close> on.\<close>

fun write_value :: "string \<Rightarrow> int \<Rightarrow> nat \<Rightarrow> nat \<Rightarrow> char option list \<Rightarrow> char option list" where
  "write_value value start i 0 buf = buf"
| "write_value value start i (Suc n) buf =
     write_value value start (Suc i) n
       (js_array_set buf (start + int i) (if i < length value then value ! i else CHR ''A''))"

fun write_segments :: "hmac_fn \<Rightarrow> string \<Rightarrow> int \<Rightarrow> SegmentConfig list \<Rightarrow> char option list \<Rightarrow> char option list res" where
  "write_segments H sharedSecret nowMs [] buf = Inr buf"
| "write_segments H sharedSecret nowMs (seg # segs) buf =
     bind_res (deriveSegmentValue H sharedSecret seg nowMs) (\<lambda>value.
       let (start, stop) = seg_pos seg
       in write_segments H sharedSecret nowMs segs (write_value value start 0 (nat (stop - start)) buf))"

definition computeChecksumChars :: "hmac_fn \<Rightarrow> string \<Rightarrow> string \<Rightarrow> int \<Rightarrow> string res" where
  "computeChecksumChars H sharedSecret data len =
     bind_res (hmac H sharedSecret (''checksum:'' @ data)) (\<lambda>full. Inr (js_slice full 0 len))"

definition generateKeyFromMap :: "hmac_fn \<Rightarrow> TumblerMap \<Rightarrow> int \<Rightarrow> string res" where
  "generateKeyFromMap H m nowMs =
     bind_res (new_buffer (tm_keyLength m)) (\<lambda>buf0.
     bind_res (write_segments H (tm_sharedSecret m) nowMs (tm_segments m) buf0) (\<lambda>buf.
     let withoutChecksum = js_join (js_slice buf 0 (fst (tm_checksum m))) in
     bind_res (computeChecksumChars H (tm_sharedSecret m) withoutChecksum
                 (snd (tm_checksum m) - fst (tm_checksum m))) (\<lambda>checksum.
       Inr (js_join (write_value checksum (fst (tm_checksum m)) 0 (length checksum) buf)))))"

section \<open>Client-side assembly\<close>

function pad_loop_client :: "hmac_fn \<Rightarrow> byte list \<Rightarrow> int \<Rightarrow> nat \<Rightarrow> string \<Rightarrow> string" where
  "pad_loop_client H secretBuf len round result =
     (if int (length result) < len
      then pad_loop_client H secretBuf len (Suc round)
             (result @ hmacRaw H secretBuf (''pad:'' @ show_nat round @ '':'' @ result))
      else result)"
  by pat_completeness auto
termination
  by (relation "measure (\<lambda>(H, k, len, round, result). nat (len - int (length result)))") auto

declare pad_loop_client.simps [simp del]

definition padOrTruncateClient :: "hmac_fn \<Rightarrow> byte list \<Rightarrow> string \<Rightarrow> int \<Rightarrow> string" where
  "padOrTruncateClient H secretBuf s len =
     (if len \<le> int (length s) then js_slice s 0 len
      else js_slice (pad_loop_client H secretBuf len 0 s) 0 len)"

text \<open>The derivation input of a client segment, shared by the two client loops.\<close>

definition client_derivation_input :: "(string \<times> int) list \<Rightarrow> int \<Rightarrow> ClientSegmentConfig \<Rightarrow> string res" where
  "client_derivation_input counters nowMs seg =
     (case cs_type seg of
        Static \<Rightarrow> Inr (''static:'' @ cs_id seg)
      | Totp \<Rightarrow>
          (let windowSec = nullish (cs_window seg) 60
           in Inr (''totp:'' @ cs_id seg @ '':'' @ show_num (window_index nowMs windowSec)))
      | Hotp \<Rightarrow>
          (let c = nullish (map_of counters (cs_id seg)) (nullish (cs_initialCounter seg) 0)
           in bind_res (assertUsableHOTPDerivationCounter (int_val c))
                (\<lambda>_. Inr (''hotp:'' @ cs_id seg @ '':'' @ show_int c))))"

fun client_parts :: "hmac_fn \<Rightarrow> byte list \<Rightarrow> (string \<times> int) list \<Rightarrow> int \<Rightarrow> ClientSegmentConfig list \<Rightarrow> string list res" where
  "client_parts H secretBuf counters nowMs [] = Inr []"
| "client_parts H secretBuf counters nowMs (seg # segs) =
     bind_res (client_derivation_input counters nowMs seg) (\<lambda>derivationInput.
     let raw = hmacRaw H secretBuf derivationInput;
         value = padOrTruncateClient H secretBuf raw (cs_length seg)
     in bind_res (client_parts H secretBuf counters nowMs segs) (\<lambda>parts. Inr (value # parts)))"

definition generateKeyFromClientPayload ::
  "hmac_fn \<Rightarrow> string \<Rightarrow> TSKProvisionPayload \<Rightarrow> (string \<times> int) list \<Rightarrow> int \<Rightarrow> string res" where
  "generateKeyFromClientPayload H sharedSecret payload counters nowMs =
     bind_res (validateHexSecret sharedSecret) (\<lambda>_.
     let secretBuf = hex_decode sharedSecret in
     bind_res (client_parts H secretBuf counters nowMs (pp_clientSegments payload)) (\<lambda>parts.
     let body = concat parts in
     bind_res (computeChecksumChars H sharedSecret body (pp_checksumLength payload)) (\<lambda>checksum.
       Inr (body @ checksum))))"

fun client_values :: "hmac_fn \<Rightarrow> string \<Rightarrow> (string \<times> int) list \<Rightarrow> int \<Rightarrow> ClientSegmentConfig list \<Rightarrow>
    (string \<times> string) list \<Rightarrow> (string \<times> string) list res" where
  "client_values H sharedSecret counters nowMs [] values = Inr values"
| "client_values H sharedSecret counters nowMs (seg # segs) values =
     bind_res (client_derivation_input counters nowMs seg) (\<lambda>derivationInput.
     bind_res (hmac H sharedSecret derivationInput) (\<lambda>v.
       client_values H sharedSecret counters nowMs segs (omap_set (cs_id seg) v values)))"

definition generateClientSegmentValues ::
  "hmac_fn \<Rightarrow> string \<Rightarrow> ClientSegmentConfig list \<Rightarrow> (string \<times> int) list \<Rightarrow> int \<Rightarrow> (string \<times> string) list res" where
  "generateClientSegmentValues H sharedSecret clientSegments counters nowMs =
     client_values H sharedSecret counters nowMs clientSegments []"

section \<open>The two assemblies agree\<close>

text \<open>The duplicated padding routine of the client is the server's.\<close>

lemma pad_loop_client_eq: "pad_loop_client H k len round result = pad_loop H k len round result"
proof (induction H k len round result rule: pad_loop_client.induct)
  case (1 H k len round result)
  then show ?case
    by (subst pad_loop_client.simps, subst pad_loop.simps) (simp add: pad_input_def)
qed

lemma padOrTruncateClient_eq: "padOrTruncateClient H k s len = padOrTruncate H k s len"
  by (simp add: padOrTruncateClient_def padOrTruncate_def pad_loop_client_eq)

text \<open>The server map as it stands when the client's counters are the ones in \<open>counters\<close>.\<close>

definition with_counters :: "(string \<times> int) list \<Rightarrow> SegmentConfig \<Rightarrow> SegmentConfig" where
  "with_counters counters s =
     (if seg_type s = Hotp
      then s\<lparr>seg_counter := Some (nullish (map_of counters (seg_id s)) (stored_counter s))\<rparr> else s)"

lemma with_counters_simps [simp]:
  "seg_id (with_counters cs s) = seg_id s" "seg_pos (with_counters cs s) = seg_pos s"
  "seg_type (with_counters cs s) = seg_type s" "seg_window (with_counters cs s) = seg_window s"
  by (simp_all add: with_counters_def)

lemma contiguous_with_counters [simp]: "contiguous a (map (with_counters cs) ss) b = contiguous a ss b"
  by (induction a ss b rule: contiguous.induct) auto

text \<open>All segment values in order, the common specification of both loops.\<close>

fun derive_all :: "hmac_fn \<Rightarrow> string \<Rightarrow> int \<Rightarrow> SegmentConfig list \<Rightarrow> string list res" where
  "derive_all H s now [] = Inr []"
| "derive_all H s now (seg # segs) =
     bind_res (deriveSegmentValue H s seg now) (\<lambda>v. bind_res (derive_all H s now segs) (\<lambda>vs. Inr (v # vs)))"

lemma client_parts_derive_all:
  "secret_ok s \<Longrightarrow>
   client_parts H (hex_decode s) cs now (map toClientSegment ss) = derive_all H s now (map (with_counters cs) ss)"
proof (induction ss)
  case Nil
  then show ?case by simp
next
  case (Cons t ss)
  have t: "bind_res (client_derivation_input cs now (toClientSegment t)) (\<lambda>d.
      Inr (padOrTruncateClient H (hex_decode s) (hmacRaw H (hex_decode s) d) (cs_length (toClientSegment t)))) =
      deriveSegmentValue H s (with_counters cs t) now"
    using Cons.prems
    by (cases "seg_type t")
      (simp_all add: client_derivation_input_def toClientSegment_def deriveSegmentValue_def Let_def
        with_counters_def toSecretBuf_def padOrTruncateClient_eq static_input_def totp_input_def
        hotp_input_def assertUsable_cases)
  show ?case
    using Cons
    by (cases "client_derivation_input cs now (toClientSegment t)") (simp_all add: t [symmetric])
qed

lemma deriveSegmentValue_length:
  "deriveSegmentValue H s seg now = Inr v \<Longrightarrow> 0 \<le> seg_len seg \<Longrightarrow> int (length v) = seg_len seg"
  by (auto simp: deriveSegmentValue_def Let_def bind_res_Inr_iff padOrTruncate_length)

lemma write_value_eq:
  "length v = i + n \<Longrightarrow> 0 \<le> start \<Longrightarrow> nat start + i + n \<le> length buf \<Longrightarrow>
   write_value v start i n buf =
     take (nat start + i) buf @ map Some (drop i v) @ drop (nat start + i + n) buf"
proof (induction n arbitrary: i buf)
  case 0
  then show ?case by simp
next
  case (Suc n)
  have i: "i < length v" "nat (start + int i) = nat start + i" "nat start + i < length buf"
    using Suc.prems by auto
  let ?b = "buf[nat start + i := Some (v ! i)]"
  have "write_value v start i (Suc n) buf = write_value v start (Suc i) n ?b"
    using i Suc.prems by (simp add: js_array_set_def)
  also have "\<dots> = take (nat start + Suc i) ?b @ map Some (drop (Suc i) v) @ drop (nat start + Suc i + n) ?b"
    using Suc.prems by (intro Suc.IH) auto
  also have "take (nat start + Suc i) ?b = take (nat start + i) buf @ [Some (v ! i)]"
    using i by (simp add: take_Suc_conv_app_nth)
  finally show ?case
    using i by (simp flip: Cons_nth_drop_Suc)
qed

lemma write_segments_derive_all:
  "contiguous a ss b \<Longrightarrow> 0 \<le> a \<Longrightarrow> nat b \<le> length buf \<Longrightarrow>
   write_segments H s now ss buf =
     bind_res (derive_all H s now ss)
       (\<lambda>vs. Inr (take (nat a) buf @ map Some (concat vs) @ drop (nat b) buf))"
proof (induction ss arbitrary: a buf)
  case Nil
  then show ?case by simp
next
  case (Cons t ss)
  obtain e where pos: "seg_pos t = (a, e)" "a < e" and rest: "contiguous e ss b"
    using Cons.prems by (cases "seg_pos t") auto
  have eb: "e \<le> b" using rest by (rule contiguous_le)
  show ?case
  proof (cases "deriveSegmentValue H s t now")
    case (Inr v)
    with pos have v: "length v = nat (e - a)"
      using deriveSegmentValue_length [OF Inr] by simp
    define buf' where "buf' = write_value v a 0 (nat (e - a)) buf"
    have buf': "buf' = take (nat a) buf @ map Some v @ drop (nat e) buf"
      unfolding buf'_def using v pos eb Cons.prems by (subst write_value_eq) (auto simp: nat_diff_distrib)
    have "length buf' = length buf"
      using v pos eb Cons.prems by (simp add: buf' nat_diff_distrib)
    moreover have "take (nat e) buf' = take (nat a) buf @ map Some v"
      "drop (nat b) buf' = drop (nat b) buf"
      using v pos eb Cons.prems by (simp_all add: buf' nat_diff_distrib diff_le_mono nat_mono)
    ultimately show ?thesis
      using Inr pos Cons.IH [OF rest, of buf'] Cons.prems
      by (cases "derive_all H s now ss") (simp_all flip: buf'_def)
  qed simp
qed

lemma derive_all_length:
  "derive_all H s now ss = Inr vs \<Longrightarrow> contiguous a ss b \<Longrightarrow> int (length (concat vs)) = b - a"
proof (induction ss arbitrary: a vs)
  case (Cons t ss)
  then obtain v vs' where v: "deriveSegmentValue H s t now = Inr v" "derive_all H s now ss = Inr vs'" "vs = v # vs'"
    by (auto simp: bind_res_Inr_iff)
  with Cons.prems Cons.IH [OF v(2), of "snd (seg_pos t)"] show ?case
    using deriveSegmentValue_length [OF v(1)] by auto
qed simp

text \<open>A key body followed by the first characters of its checksum.\<close>

definition sealed :: "hmac_fn \<Rightarrow> string \<Rightarrow> string \<Rightarrow> string" where
  "sealed H s body = body @ take 12 (hmacRaw H (hex_decode s) (''checksum:'' @ body))"

lemma computeChecksumChars_eq:
  "secret_ok s \<Longrightarrow> computeChecksumChars H s body 12 = Inr (take 12 (hmacRaw H (hex_decode s) (''checksum:'' @ body)))"
  by (simp add: computeChecksumChars_def hmac_eq_hmacRaw js_slice_prefix)

lemma generateKeyFromMap_eq:
  assumes wf: "wf_layout m" and sec: "secret_ok (tm_sharedSecret m)"
  shows "generateKeyFromMap H m now =
     bind_res (derive_all H (tm_sharedSecret m) now (tm_segments m))
       (\<lambda>vs. Inr (sealed H (tm_sharedSecret m) (concat vs)))"
proof -
  let ?b = "fst (tm_checksum m)" and ?n = "nat (tm_keyLength m)"
  let ?buf = "replicate ?n (Some (CHR 0x00))"
  have c: "contiguous 0 (tm_segments m) ?b" and b: "?b + 12 = tm_keyLength m" "snd (tm_checksum m) = tm_keyLength m"
    and n: "tm_keyLength m \<le> 512" "0 \<le> ?b"
    using wf contiguous_le [of 0 "tm_segments m" ?b] by (auto simp: wf_layout_def tumbler_consts)
  have new: "new_buffer (tm_keyLength m) = Inr ?buf"
    using b n by (simp add: new_buffer_def)
  have twelve: "?n - nat ?b = 12" "nat ?b \<le> ?n" using b n by linarith+
  have w: "write_segments H (tm_sharedSecret m) now (tm_segments m) ?buf =
      bind_res (derive_all H (tm_sharedSecret m) now (tm_segments m))
        (\<lambda>vs. Inr (map Some (concat vs) @ replicate 12 (Some (CHR 0x00))))"
    using write_segments_derive_all [OF c, of ?buf] twelve by simp
  show ?thesis
  proof (cases "derive_all H (tm_sharedSecret m) now (tm_segments m)")
    case (Inr vs)
    have len: "int (length (concat vs)) = ?b" using derive_all_length [OF Inr c] by simp
    have pre: "js_join (js_slice (map Some (concat vs) @ replicate 12 (Some (CHR 0x00))) 0 ?b) = concat vs"
    proof -
      have "nat ?b = length (map Some (concat vs))" using len by simp
      then show ?thesis
        using js_join_map_Some [of "concat vs"] unfolding js_slice_prefix [OF n(2)]
        by (simp only: take_append take_all [OF order_refl] diff_self_eq_0 take_0 append_Nil2)
    qed
    define ck where "ck = take 12 (hmacRaw H (hex_decode (tm_sharedSecret m)) (''checksum:'' @ concat vs))"
    have ck: "length ck = 12" by (simp add: ck_def)
    have "write_value ck ?b 0 (length ck) (map Some (concat vs) @ replicate 12 (Some (CHR 0x00)))
        = map Some (concat vs @ ck)"
      using len ck n by (subst write_value_eq) (auto simp: ck)
    then have out: "js_join (write_value ck ?b 0 (length ck) (map Some (concat vs) @ replicate 12 (Some (CHR 0x00))))
        = concat vs @ ck" by (simp only: js_join_map_Some)
    have "snd (tm_checksum m) - ?b = 12" using b by simp
    then have "computeChecksumChars H (tm_sharedSecret m) (concat vs) (snd (tm_checksum m) - ?b) = Inr ck"
      using sec by (simp only: ck_def computeChecksumChars_eq)
    then show ?thesis
      using Inr by (simp only: generateKeyFromMap_def new w Let_def pre out bind_res_simps sealed_def flip: ck_def)
  qed (simp add: generateKeyFromMap_def new w)
qed

lemma generateKeyFromClientPayload_eq:
  assumes wf: "wf_layout m" and sec: "secret_ok s"
  shows "generateKeyFromClientPayload H s (toProvisionPayload m) cs now =
     bind_res (derive_all H s now (map (with_counters cs) (tm_segments m))) (\<lambda>vs. Inr (sealed H s (concat vs)))"
proof -
  have "pp_clientSegments (toProvisionPayload m) = map toClientSegment (tm_segments m)"
    "pp_checksumLength (toProvisionPayload m) = 12"
    using wf payload_segments_contiguous [of 0 m]
    by (auto simp: wf_layout_def) (simp add: toProvisionPayload_def tumbler_consts)
  then show ?thesis
    using sec
    by (simp add: generateKeyFromClientPayload_def client_parts_derive_all Let_def sealed_def
        computeChecksumChars_eq)
qed

lemma wf_layout_with_counters [simp]:
  "wf_layout (m\<lparr>tm_segments := map (with_counters cs) (tm_segments m)\<rparr>) = wf_layout m"
  by (simp add: wf_layout_def filter_map o_def)

text \<open>Client and server assemble the same key. For a well-formed map and any table of client
  counters, the key the client builds from the provision payload is, byte for byte and error for
  error, the key the server builds from the full map carrying those counters.\<close>

theorem client_key_eq_server_key:
  assumes "wf_layout m" and "secret_ok (tm_sharedSecret m)"
  shows "generateKeyFromClientPayload H (tm_sharedSecret m) (toProvisionPayload m) counters now =
         generateKeyFromMap H (m\<lparr>tm_segments := map (with_counters counters) (tm_segments m)\<rparr>) now"
  using assms by (simp add: generateKeyFromClientPayload_eq generateKeyFromMap_eq)

text \<open>A small map, used by the concrete examples: a static, a time-based and a counter-based segment
  of eight characters each.\<close>

definition example_secret :: string where
  "example_secret = replicate 64 (CHR ''a'')"

definition example_segments :: "SegmentConfig list" where
  "example_segments =
     [\<lparr>seg_id = ''id_1'', seg_pos = (0, 8), seg_type = Static, seg_window = None, seg_counter = None\<rparr>,
      \<lparr>seg_id = ''seg_2'', seg_pos = (8, 16), seg_type = Totp, seg_window = Some 60, seg_counter = None\<rparr>,
      \<lparr>seg_id = ''seg_3'', seg_pos = (16, 24), seg_type = Hotp, seg_window = None, seg_counter = Some 4\<rparr>]"

definition example_map :: TumblerMap where
  "example_map =
     \<lparr>tm_clientId = ''tsk_0'', tm_sharedSecret = example_secret, tm_keyLength = 36,
      tm_segments = example_segments, tm_checksum = (24, 36), tm_createdAt = 0, tm_version = ''1'',
      tm_label = None, tm_expiresAt = None, tm_maxRequests = None, tm_rotationWarningRequests = None,
      tm_hotpRotationWarningCounters = None, tm_requestCount = None, tm_lastUsedAt = None,
      tm_status = None\<rparr>"

lemma example_secret_ok [simp]: "secret_ok example_secret"
  by (simp add: secret_ok_iff example_secret_def list_all_iff is_hex_char_def hex_val_def)

lemma example_map_wf [simp]:
  "wf_layout example_map" "tm_sharedSecret example_map = example_secret"
  "tm_segments example_map = example_segments"
  by (simp_all add: wf_layout_def example_map_def example_segments_def tumbler_consts)

theorem client_key_eq_server_key_witness:
  "wf_layout example_map \<and> secret_ok (tm_sharedSecret example_map) \<and>
   generateKeyFromClientPayload (\<lambda>k d. of_nat (length d)) (tm_sharedSecret example_map)
     (toProvisionPayload example_map) [(''seg_3'', 9)] 1700000000000 =
   generateKeyFromMap (\<lambda>k d. of_nat (length d))
     (example_map\<lparr>tm_segments := map (with_counters [(''seg_3'', 9)]) (tm_segments example_map)\<rparr>) 1700000000000"
  using client_key_eq_server_key [of example_map "\<lambda>k d. of_nat (length d)" "[(''seg_3'', 9)]" 1700000000000]
  by simp

end
