(* ===== verification/Validate.thy ===== *)
theory Validate
  imports Key_Gen
begin

text \<open>
  \<^verbatim>\<open>packages/core/src/validate.ts\<close>: the validator of a submitted key. A result object is a record
  whose absent properties are \<open>None\<close>; the counter updates are an insertion-ordered map. An exception
  raised by the derivation code escapes as \<open>Inl\<close>. The validation time is a \<open>jsnum\<close>, since the code
  tests that it is finite, and the floor of a fractional time gives the same window indices.
\<close>

section \<open>Results\<close>

record SegmentResult =
  sr_id :: string
  sr_type :: SegmentType
  sr_valid :: bool

record HOTPCounterUpdate =
  cu_newCounter :: int
  cu_matchedCounter :: int

type_synonym counter_updates = "(string \<times> HOTPCounterUpdate) list"

record ValidationResult =
  vr_ok :: bool
  vr_clientId :: "string option"
  vr_error :: "TSKError option"
  vr_internalError :: "TSKInternalError option"
  vr_segmentResults :: "SegmentResult list option"
  vr_counterUpdates :: "counter_updates option"

definition fail_external :: "TSKError \<Rightarrow> ValidationResult" where
  "fail_external e =
     \<lparr>vr_ok = False, vr_clientId = None, vr_error = Some e, vr_internalError = None,
      vr_segmentResults = None, vr_counterUpdates = None\<rparr>"

definition fail_internal :: "TumblerMap \<Rightarrow> TSKInternalError \<Rightarrow> SegmentResult list option \<Rightarrow> ValidationResult" where
  "fail_internal m e rs =
     \<lparr>vr_ok = False, vr_clientId = Some (tm_clientId m), vr_error = Some INVALID_KEY,
      vr_internalError = Some e, vr_segmentResults = rs, vr_counterUpdates = None\<rparr>"

section \<open>The validator\<close>

text \<open>\<^verbatim>\<open>Math.floor(nowMs / 1000 / windowSec)\<close> for a finite time.\<close>

definition now_window :: "jsnum \<Rightarrow> int \<Rightarrow> jsnum" where
  "now_window nowMs windowSec =
     (if windowSec = 0 \<and> nowMs = NFrac 0 then NInf True else window_index (num_floor nowMs) windowSec)"

text \<open>\<^verbatim>\<open>for (let delta = -tolerance; delta <= tolerance; delta++)\<close>, left at the first match.\<close>

function totp_loop :: "hmac_fn \<Rightarrow> string \<Rightarrow> SegmentConfig \<Rightarrow> jsnum \<Rightarrow> string \<Rightarrow> int \<Rightarrow> int \<Rightarrow> bool res" where
  "totp_loop H sharedSecret seg T provided tolerance delta =
     (if delta \<le> tolerance
      then bind_res (deriveSegmentForWindow H sharedSecret seg (num_add T delta)) (\<lambda>expected.
        if constantTimeEqual provided expected then Inr True
        else totp_loop H sharedSecret seg T provided tolerance (delta + 1))
      else Inr False)"
  by pat_completeness auto
termination
  by (relation "measure (\<lambda>(H, s, seg, T, p, tol, delta). nat (tol + 1 - delta))") auto

text \<open>\<^verbatim>\<open>for (let lookahead = 0; lookahead <= maximumLookahead; lookahead++)\<close>: the matched counter.\<close>

function hotp_loop :: "hmac_fn \<Rightarrow> string \<Rightarrow> SegmentConfig \<Rightarrow> string \<Rightarrow> int \<Rightarrow> int \<Rightarrow> int \<Rightarrow> int option res" where
  "hotp_loop H sharedSecret seg provided storedCounter maximumLookahead lookahead =
     (if lookahead \<le> maximumLookahead
      then let matchedCounter = storedCounter + lookahead in
        bind_res (deriveSegmentForCounter H sharedSecret seg matchedCounter) (\<lambda>expected.
        if constantTimeEqual provided expected then Inr (Some matchedCounter)
        else hotp_loop H sharedSecret seg provided storedCounter maximumLookahead (lookahead + 1))
      else Inr None)"
  by pat_completeness auto
termination
  by (relation "measure (\<lambda>(H, s, seg, p, c, m, l). nat (m + 1 - l))") auto

declare totp_loop.simps [simp del] hotp_loop.simps [simp del]

text \<open>The body of the per-segment loop: \<open>Inl\<close> is an early return with an internal code, \<open>Inr\<close> the
  validity of the segment and the updated table.\<close>

definition validate_segment ::
  "hmac_fn \<Rightarrow> string \<Rightarrow> TumblerMap \<Rightarrow> jsnum \<Rightarrow> TSKConfig \<Rightarrow> SegmentConfig \<Rightarrow> counter_updates \<Rightarrow>
   (TSKInternalError + bool \<times> counter_updates) res" where
  "validate_segment H providedKey m nowMs cfg seg counterUpdates =
     (let provided = js_slice providedKey (fst (seg_pos seg)) (snd (seg_pos seg)) in
      case seg_type seg of
        Static \<Rightarrow>
          bind_res (deriveSegmentValue H (tm_sharedSecret m) seg (num_floor nowMs)) (\<lambda>expected.
            Inr (Inr (constantTimeEqual provided expected, counterUpdates)))
      | Totp \<Rightarrow>
          (let T = now_window nowMs (nullish (seg_window seg) 60) in
           bind_res (totp_loop H (tm_sharedSecret m) seg T provided
                       (cfg_totpToleranceWindows cfg) (- cfg_totpToleranceWindows cfg)) (\<lambda>segValid.
             Inr (Inr (segValid, counterUpdates))))
      | Hotp \<Rightarrow>
          (let storedCounter = nullish (seg_counter seg) 0 in
           if \<not> isValidHOTPStoredCounter (int_val storedCounter) then Inr (Inl HOTP_COUNTER_INVALID)
           else if TSK_MAX_HOTP_COUNTER \<le> storedCounter then Inr (Inl HOTP_COUNTER_EXHAUSTED)
           else
             let maximumLookahead =
                   min (num_floor (cfg_hotpLookahead cfg)) (TSK_MAX_HOTP_COUNTER - 1 - storedCounter)
             in bind_res (hotp_loop H (tm_sharedSecret m) seg provided storedCounter maximumLookahead 0)
                  (\<lambda>match. case match of
                     None \<Rightarrow> Inr (Inr (False, counterUpdates))
                   | Some matchedCounter \<Rightarrow>
                       Inr (Inr (True,
                         omap_set (seg_id seg)
                           \<lparr>cu_newCounter = matchedCounter + 1, cu_matchedCounter = matchedCounter\<rparr>
                           counterUpdates)))))"

fun validate_loop ::
  "hmac_fn \<Rightarrow> string \<Rightarrow> TumblerMap \<Rightarrow> jsnum \<Rightarrow> TSKConfig \<Rightarrow> SegmentConfig list \<Rightarrow>
   SegmentResult list \<Rightarrow> counter_updates \<Rightarrow> bool \<Rightarrow> ValidationResult res" where
  "validate_loop H providedKey m nowMs cfg [] segmentResults counterUpdates allValid =
     Inr (if \<not> allValid then fail_internal m VALIDATION_FAILED (Some segmentResults)
          else \<lparr>vr_ok = True, vr_clientId = Some (tm_clientId m), vr_error = None,
                vr_internalError = None, vr_segmentResults = Some segmentResults,
                vr_counterUpdates = (if 0 < length counterUpdates then Some counterUpdates else None)\<rparr>)"
| "validate_loop H providedKey m nowMs cfg (seg # segs) segmentResults counterUpdates allValid =
     bind_res (validate_segment H providedKey m nowMs cfg seg counterUpdates) (\<lambda>out.
       case out of
         Inl e \<Rightarrow> Inr (fail_internal m e (Some segmentResults))
       | Inr (segValid, counterUpdates') \<Rightarrow>
           validate_loop H providedKey m nowMs cfg segs
             (segmentResults @ [\<lparr>sr_id = seg_id seg, sr_type = seg_type seg, sr_valid = segValid\<rparr>])
             counterUpdates' (allValid \<and> segValid))"

definition validateTSKKey ::
  "hmac_fn \<Rightarrow> string \<Rightarrow> TumblerMap \<Rightarrow> jsnum \<Rightarrow> TSKConfig \<Rightarrow> ValidationResult res" where
  "validateTSKKey H providedKey m nowMs cfg =
     (if \<not> Number_isSafeInteger (cfg_hotpLookahead cfg) \<or> num_lt (cfg_hotpLookahead cfg) 0
      then Inr (fail_internal m INTERNAL_ERROR None)
      else if \<not> Number_isFinite nowMs then Inr (fail_internal m INTERNAL_ERROR None)
      else if length (tm_segments m) = 0 then Inr (fail_external MAP_INVALID_NO_SEGMENTS)
      else if \<not> list_ex (\<lambda>s. seg_type s = Hotp) (tm_segments m)
      then Inr (fail_external MAP_INVALID_NO_HOTP)
      else if list_ex (\<lambda>s. snd (seg_pos s) - fst (seg_pos s) \<le> 0) (tm_segments m)
      then Inr (fail_external MAP_INVALID_ZERO_LENGTH_SEGMENT)
      else if int (length providedKey) < cfg_minKeyLength cfg \<or> cfg_maxKeyLength cfg < int (length providedKey)
      then Inr (fail_external KEY_LENGTH_MISMATCH)
      else if int (length providedKey) \<noteq> tm_keyLength m
      then Inr (fail_external KEY_LENGTH_MISMATCH)
      else
        let csStart = fst (tm_checksum m); csEnd = snd (tm_checksum m);
            providedChecksum = js_slice providedKey csStart csEnd;
            keyWithoutChecksum = js_slice providedKey 0 csStart
        in bind_res (computeChecksum H (tm_sharedSecret m) keyWithoutChecksum) (\<lambda>expectedChecksum.
           if \<not> constantTimeEqual providedChecksum expectedChecksum
           then Inr (fail_internal m CHECKSUM_INVALID None)
           else validate_loop H providedKey m nowMs cfg (tm_segments m) [] [] True))"

section \<open>What a segment has to show\<close>

text \<open>The look-ahead counters the validator tries, and the declarative acceptance condition of a
  segment.\<close>

definition max_lookahead :: "TSKConfig \<Rightarrow> SegmentConfig \<Rightarrow> int" where
  "max_lookahead cfg seg =
     min (num_floor (cfg_hotpLookahead cfg)) (TSK_MAX_HOTP_COUNTER - 1 - stored_counter seg)"

definition tried_counters :: "TSKConfig \<Rightarrow> SegmentConfig \<Rightarrow> int list" where
  "tried_counters cfg seg = [stored_counter seg .. stored_counter seg + max_lookahead cfg seg]"

definition provided_value :: "string \<Rightarrow> SegmentConfig \<Rightarrow> string" where
  "provided_value key seg = js_slice key (fst (seg_pos seg)) (snd (seg_pos seg))"

definition hotp_match :: "hmac_fn \<Rightarrow> string \<Rightarrow> string \<Rightarrow> TSKConfig \<Rightarrow> SegmentConfig \<Rightarrow> int option" where
  "hotp_match H secret key cfg seg =
     find (\<lambda>c. provided_value key seg = seg_value H secret (hotp_input (seg_id seg) c) (seg_len seg))
       (tried_counters cfg seg)"

definition segment_matches :: "hmac_fn \<Rightarrow> string \<Rightarrow> string \<Rightarrow> jsnum \<Rightarrow> TSKConfig \<Rightarrow> SegmentConfig \<Rightarrow> bool" where
  "segment_matches H secret key nowMs cfg seg =
     (case seg_type seg of
        Static \<Rightarrow> provided_value key seg = seg_value H secret (static_input (seg_id seg)) (seg_len seg)
      | Totp \<Rightarrow>
          (\<exists>d \<in> {- cfg_totpToleranceWindows cfg .. cfg_totpToleranceWindows cfg}.
             provided_value key seg =
               seg_value H secret
                 (totp_input (seg_id seg) (num_add (now_window nowMs (nullish (seg_window seg) 60)) d))
                 (seg_len seg))
      | Hotp \<Rightarrow> hotp_match H secret key cfg seg \<noteq> None)"

lemma totp_loop_eq:
  assumes "secret_ok s"
  shows "totp_loop H s seg T p tol d =
    Inr (\<exists>e \<in> {d..tol}. p = seg_value H s (totp_input (seg_id seg) (num_add T e)) (seg_len seg))"
  using assms
proof (induction H s seg T p tol d rule: totp_loop.induct)
  case (1 H s seg T p tol d)
  have split: "{d..tol} = (if d \<le> tol then insert d {d + 1..tol} else {})" by auto
  show ?case
    using "1.IH" "1.prems" unfolding split
    by (subst totp_loop.simps) (auto simp: deriveSegmentForWindow_eq)
qed

lemma hotp_loop_eq:
  assumes "secret_ok s" and "0 \<le> c + l" and "c + mx < TSK_MAX_HOTP_COUNTER"
  shows "hotp_loop H s seg p c mx l =
    Inr (find (\<lambda>n. p = seg_value H s (hotp_input (seg_id seg) n) (seg_len seg)) [c + l .. c + mx])"
  using assms
proof (induction H s seg p c mx l rule: hotp_loop.induct)
  case (1 H s seg p c mx l)
  show ?case
  proof (cases "l \<le> mx")
    case True
    have "hotp_loop H s seg p c mx l =
        (if p = seg_value H s (hotp_input (seg_id seg) (c + l)) (seg_len seg) then Inr (Some (c + l))
         else hotp_loop H s seg p c mx (l + 1))"
      using True "1.prems" by (subst hotp_loop.simps) (simp add: deriveSegmentForCounter_eq Let_def)
    moreover have "[c + l .. c + mx] = (c + l) # [c + (l + 1) .. c + mx]"
      using True by (simp add: upto.simps [of "c + l"] add.assoc)
    ultimately show ?thesis
      using True "1.IH" [OF True] "1.prems" by (simp add: deriveSegmentForCounter_eq)
  qed (simp add: hotp_loop.simps)
qed

text \<open>The updates a segment contributes.\<close>

definition note_match :: "hmac_fn \<Rightarrow> string \<Rightarrow> string \<Rightarrow> TSKConfig \<Rightarrow> SegmentConfig \<Rightarrow> counter_updates \<Rightarrow> counter_updates" where
  "note_match H secret key cfg seg us =
     (if seg_type seg = Hotp
      then case hotp_match H secret key cfg seg of
             None \<Rightarrow> us
           | Some c \<Rightarrow> omap_set (seg_id seg) \<lparr>cu_newCounter = c + 1, cu_matchedCounter = c\<rparr> us
      else us)"

definition counter_fault :: "SegmentConfig \<Rightarrow> TSKInternalError option" where
  "counter_fault seg =
     (if seg_type seg \<noteq> Hotp then None
      else if stored_counter seg < 0 \<or> TSK_MAX_HOTP_COUNTER < stored_counter seg then Some HOTP_COUNTER_INVALID
      else if stored_counter seg = TSK_MAX_HOTP_COUNTER then Some HOTP_COUNTER_EXHAUSTED
      else None)"

lemma validate_segment_eq:
  assumes "secret_ok (tm_sharedSecret m)"
  shows "validate_segment H key m now cfg seg us =
    Inr (case counter_fault seg of
           Some e \<Rightarrow> Inl e
         | None \<Rightarrow> Inr (segment_matches H (tm_sharedSecret m) key now cfg seg,
                       note_match H (tm_sharedSecret m) key cfg seg us))"
proof (cases "seg_type seg")
  case Static
  then show ?thesis
    using assms
    by (simp add: validate_segment_def deriveSegmentValue_static counter_fault_def segment_matches_def
        note_match_def provided_value_def Let_def)
next
  case Totp
  then show ?thesis
    using assms
    by (simp add: validate_segment_def totp_loop_eq counter_fault_def segment_matches_def
        note_match_def provided_value_def Let_def)
next
  case Hotp
  define c where "c = stored_counter seg"
  have "hotp_loop H (tm_sharedSecret m) seg (provided_value key seg) c (max_lookahead cfg seg) 0 =
      Inr (hotp_match H (tm_sharedSecret m) key cfg seg)"
    if "0 \<le> c" "c < TSK_MAX_HOTP_COUNTER"
    using that assms
    by (subst hotp_loop_eq) (auto simp: hotp_match_def tried_counters_def max_lookahead_def c_def)
  then show ?thesis
    using Hotp assms
    by (auto simp: validate_segment_def counter_fault_def segment_matches_def note_match_def
        provided_value_def [symmetric] max_lookahead_def [symmetric] Let_def c_def split: option.splits)
qed

section \<open>The per-segment loop\<close>

definition segment_result :: "hmac_fn \<Rightarrow> string \<Rightarrow> string \<Rightarrow> jsnum \<Rightarrow> TSKConfig \<Rightarrow> SegmentConfig \<Rightarrow> SegmentResult" where
  "segment_result H secret key now cfg seg =
     \<lparr>sr_id = seg_id seg, sr_type = seg_type seg, sr_valid = segment_matches H secret key now cfg seg\<rparr>"

definition loop_result :: "TumblerMap \<Rightarrow> SegmentResult list \<Rightarrow> counter_updates \<Rightarrow> bool \<Rightarrow> ValidationResult" where
  "loop_result m rs us allValid =
     (if \<not> allValid then fail_internal m VALIDATION_FAILED (Some rs)
      else \<lparr>vr_ok = True, vr_clientId = Some (tm_clientId m), vr_error = None,
            vr_internalError = None, vr_segmentResults = Some rs,
            vr_counterUpdates = (if us = [] then None else Some us)\<rparr>)"

lemma validate_loop_no_fault:
  assumes "secret_ok (tm_sharedSecret m)" and "\<forall>s \<in> set ss. counter_fault s = None"
  shows "validate_loop H key m now cfg ss rs us av =
    Inr (loop_result m (rs @ map (segment_result H (tm_sharedSecret m) key now cfg) ss)
      (fold (note_match H (tm_sharedSecret m) key cfg) ss us)
      (av \<and> (\<forall>s \<in> set ss. segment_matches H (tm_sharedSecret m) key now cfg s)))"
  using assms
  by (induction ss arbitrary: rs us av)
    (auto simp: validate_segment_eq loop_result_def segment_result_def)

lemma validate_loop_fault:
  assumes "secret_ok (tm_sharedSecret m)" and "\<exists>s \<in> set ss. counter_fault s \<noteq> None"
  shows "\<exists>e rs'. validate_loop H key m now cfg ss rs us av = Inr (fail_internal m e (Some rs')) \<and>
           e \<in> {HOTP_COUNTER_INVALID, HOTP_COUNTER_EXHAUSTED}"
  using assms
proof (induction ss arbitrary: rs us av)
  case (Cons s ss)
  show ?case
  proof (cases "counter_fault s")
    case None
    with Cons show ?thesis by (auto simp: validate_segment_eq)
  next
    case (Some e)
    then have "e \<in> {HOTP_COUNTER_INVALID, HOTP_COUNTER_EXHAUSTED}"
      by (auto simp: counter_fault_def split: if_splits)
    with Some Cons.prems show ?thesis by (auto simp: validate_segment_eq)
  qed
qed simp

lemma fail_simps [simp]:
  "\<not> vr_ok (fail_external e)" "\<not> vr_ok (fail_internal m i rs)"
  "vr_error (fail_external e) = Some e" "vr_error (fail_internal m i rs) = Some INVALID_KEY"
  "vr_internalError (fail_external e) = None" "vr_internalError (fail_internal m i rs) = Some i"
  "vr_counterUpdates (fail_external e) = None" "vr_counterUpdates (fail_internal m i rs) = None"
  "vr_clientId (fail_internal m i rs) = Some (tm_clientId m)" "vr_clientId (fail_external e) = None"
  by (simp_all add: fail_external_def fail_internal_def)

lemma loop_result_simps [simp]:
  "vr_ok (loop_result m rs us av) = av"
  "vr_counterUpdates (loop_result m rs us av) = (if av \<and> us \<noteq> [] then Some us else None)"
  by (simp_all add: loop_result_def)

text \<open>The guards before the checksum, and the checksum itself, as predicates.\<close>

definition request_well_formed :: "string \<Rightarrow> TumblerMap \<Rightarrow> jsnum \<Rightarrow> TSKConfig \<Rightarrow> bool" where
  "request_well_formed key m now cfg \<longleftrightarrow>
     Number_isSafeInteger (cfg_hotpLookahead cfg) \<and> \<not> num_lt (cfg_hotpLookahead cfg) 0 \<and>
     Number_isFinite now \<and>
     hotp_segments m \<noteq> [] \<and> (\<forall>s \<in> set (tm_segments m). 0 < seg_len s) \<and>
     cfg_minKeyLength cfg \<le> int (length key) \<and> int (length key) \<le> cfg_maxKeyLength cfg \<and>
     int (length key) = tm_keyLength m"

definition checksum_correct :: "hmac_fn \<Rightarrow> string \<Rightarrow> TumblerMap \<Rightarrow> bool" where
  "checksum_correct H key m \<longleftrightarrow>
     js_slice key (fst (tm_checksum m)) (snd (tm_checksum m)) =
       take 12 (hmacRaw H (hex_decode (tm_sharedSecret m)) (''checksum:'' @ js_slice key 0 (fst (tm_checksum m))))"

lemma computeChecksum_eq:
  "secret_ok s \<Longrightarrow> computeChecksum H s body = Inr (take 12 (hmacRaw H (hex_decode s) (''checksum:'' @ body)))"
  by (simp add: computeChecksum_def hmac_eq_hmacRaw js_slice_prefix CHECKSUM_LENGTH_def)

lemma request_well_formed_nonempty: "request_well_formed key m now cfg \<Longrightarrow> tm_segments m \<noteq> []"
  by (auto simp: request_well_formed_def)

lemma validateTSKKey_well_formed:
  assumes "secret_ok (tm_sharedSecret m)" and "request_well_formed key m now cfg"
  shows "validateTSKKey H key m now cfg =
    (if checksum_correct H key m then validate_loop H key m now cfg (tm_segments m) [] [] True
     else Inr (fail_internal m CHECKSUM_INVALID None))"
  using assms request_well_formed_nonempty [OF assms(2)]
  by (auto simp: validateTSKKey_def request_well_formed_def computeChecksum_eq checksum_correct_def
      Let_def list_ex_iff filter_empty_conv not_le)

lemma validateTSKKey_malformed:
  assumes "\<not> request_well_formed key m now cfg"
  shows "\<exists>r. validateTSKKey H key m now cfg = Inr r \<and> \<not> vr_ok r \<and> vr_counterUpdates r = None"
  using assms
  by (auto simp: validateTSKKey_def request_well_formed_def list_ex_iff filter_empty_conv not_le not_less
      split: if_splits)

lemma validateTSKKey_total:
  "secret_ok (tm_sharedSecret m) \<Longrightarrow> \<exists>r. validateTSKKey H key m now cfg = Inr r"
  using validateTSKKey_malformed [of key m now cfg H] validateTSKKey_well_formed [of m key now cfg H]
    validate_loop_fault [of m "tm_segments m" H key now cfg "[]" "[]" True]
    validate_loop_no_fault [of m "tm_segments m" H key now cfg "[]" "[]" True]
  by (cases "request_well_formed key m now cfg"; cases "\<exists>s \<in> set (tm_segments m). counter_fault s \<noteq> None")
    auto

text \<open>Acceptance and the result on acceptance, in one equation.\<close>

definition key_acceptable :: "hmac_fn \<Rightarrow> string \<Rightarrow> TumblerMap \<Rightarrow> jsnum \<Rightarrow> TSKConfig \<Rightarrow> bool" where
  "key_acceptable H key m now cfg \<longleftrightarrow>
     request_well_formed key m now cfg \<and> checksum_correct H key m \<and>
     (\<forall>s \<in> set (tm_segments m). counter_fault s = None \<and>
        segment_matches H (tm_sharedSecret m) key now cfg s)"

lemma validateTSKKey_accept:
  assumes "secret_ok (tm_sharedSecret m)" and "key_acceptable H key m now cfg"
  shows "validateTSKKey H key m now cfg =
    Inr (loop_result m (map (segment_result H (tm_sharedSecret m) key now cfg) (tm_segments m))
      (fold (note_match H (tm_sharedSecret m) key cfg) (tm_segments m) []) True)"
  using assms by (simp add: key_acceptable_def validateTSKKey_well_formed validate_loop_no_fault)

lemma validateTSKKey_reject:
  assumes sec: "secret_ok (tm_sharedSecret m)" and no: "\<not> key_acceptable H key m now cfg"
    and r: "validateTSKKey H key m now cfg = Inr r"
  shows "\<not> vr_ok r \<and> vr_counterUpdates r = None"
proof (cases "request_well_formed key m now cfg \<and> checksum_correct H key m")
  case False
  then show ?thesis
    using validateTSKKey_malformed [of key m now cfg H] validateTSKKey_well_formed [OF sec, of key now cfg H] r
    by (cases "request_well_formed key m now cfg") auto
next
  case True
  show ?thesis
  proof (cases "\<exists>s \<in> set (tm_segments m). counter_fault s \<noteq> None")
    case fault: True
    then show ?thesis
      using True r validateTSKKey_well_formed [OF sec, of key now cfg H]
        validate_loop_fault [OF sec fault, of H key now cfg "[]" "[]" True] by auto
  next
    case False
    with True no have "\<not> (\<forall>s \<in> set (tm_segments m). segment_matches H (tm_sharedSecret m) key now cfg s)"
      by (auto simp: key_acceptable_def)
    then show ?thesis
      using True False r validateTSKKey_well_formed [OF sec, of key now cfg H]
        validate_loop_no_fault [OF sec, of "tm_segments m" H key now cfg "[]" "[]" True] by auto
  qed
qed

section \<open>Correctness of the validator\<close>

text \<open>C35: the validator decides exactly the acceptance condition. With a well-formed secret it never
  throws, and it accepts a key if and only if the request is well formed, the checksum matches, no
  counter is invalid or exhausted, and every segment matches: a static value, a window within the
  tolerance, or a counter of the look-ahead range.\<close>

theorem validateTSKKey_accepts_iff:
  assumes "secret_ok (tm_sharedSecret m)"
  shows "\<exists>r. validateTSKKey H key m now cfg = Inr r \<and>
    (vr_ok r \<longleftrightarrow>
       request_well_formed key m now cfg \<and> checksum_correct H key m \<and>
       (\<forall>s \<in> set (tm_segments m). counter_fault s = None \<and>
          segment_matches H (tm_sharedSecret m) key now cfg s))"
proof (cases "key_acceptable H key m now cfg")
  case True
  then show ?thesis using validateTSKKey_accept [OF assms True] by (auto simp: key_acceptable_def)
next
  case False
  then show ?thesis
    using validateTSKKey_total [OF assms, of H key now cfg] validateTSKKey_reject [OF assms False]
    by (auto simp: key_acceptable_def)
qed

lemma find_upto_least:
  "find P [a..b] = Some c \<Longrightarrow> P c \<and> a \<le> c \<and> c \<le> b \<and> (\<forall>x. a \<le> x \<longrightarrow> x < c \<longrightarrow> \<not> P x)"
proof (induction a b rule: upto.induct)
  case (1 a b)
  show ?case
  proof (cases "a \<le> b")
    case le: True
    show ?thesis
    proof (cases "P a")
      case False
      with le "1.prems" have "find P [a + 1..b] = Some c" by (simp add: upto.simps [of a])
      with "1.IH" le have ih: "P c \<and> a + 1 \<le> c \<and> c \<le> b \<and> (\<forall>x. a + 1 \<le> x \<longrightarrow> x < c \<longrightarrow> \<not> P x)" by simp
      moreover have "\<not> P x" if "a \<le> x" "x < c" for x
        using ih False that by (cases "x = a") auto
      ultimately show ?thesis by auto
    qed (use le "1.prems" in \<open>auto simp: upto.simps [of a]\<close>)
  qed (use "1.prems" in \<open>simp add: upto.simps [of a]\<close>)
qed

lemma hotp_match_Some:
  assumes "hotp_match H secret key cfg seg = Some c"
  shows "stored_counter seg \<le> c" "c \<le> stored_counter seg + num_floor (cfg_hotpLookahead cfg)"
    "c < TSK_MAX_HOTP_COUNTER"
    "provided_value key seg = seg_value H secret (hotp_input (seg_id seg) c) (seg_len seg)"
    "stored_counter seg \<le> d \<Longrightarrow> d < c \<Longrightarrow>
     provided_value key seg \<noteq> seg_value H secret (hotp_input (seg_id seg) d) (seg_len seg)"
  using find_upto_least [OF assms [unfolded hotp_match_def tried_counters_def]]
  by (auto simp: max_lookahead_def)

lemma fold_note_match_sound:
  "map_of (fold (note_match H secret key cfg) ss us) sid = Some u \<Longrightarrow>
   map_of us sid = Some u \<or>
   (\<exists>s \<in> set ss. seg_type s = Hotp \<and> seg_id s = sid \<and>
      hotp_match H secret key cfg s = Some (cu_matchedCounter u) \<and> cu_newCounter u = cu_matchedCounter u + 1)"
proof (induction ss arbitrary: us)
  case (Cons s ss)
  from Cons.IH [of "note_match H secret key cfg s us"] Cons.prems show ?case
    by (auto simp: note_match_def split: if_splits option.splits)
qed simp

lemma note_match_mono: "map_of us sid \<noteq> None \<Longrightarrow> map_of (note_match H secret key cfg s us) sid \<noteq> None"
  by (auto simp: note_match_def split: option.splits)

lemma fold_note_match_mono:
  "map_of us sid \<noteq> None \<Longrightarrow> map_of (fold (note_match H secret key cfg) ss us) sid \<noteq> None"
proof (induction ss arbitrary: us)
  case (Cons s ss)
  then show ?case using Cons.IH [OF note_match_mono [OF Cons.prems, of H secret key cfg s]] by simp
qed simp

lemma fold_note_match_complete:
  "s \<in> set ss \<Longrightarrow> seg_type s = Hotp \<Longrightarrow> hotp_match H secret key cfg s \<noteq> None \<Longrightarrow>
   map_of (fold (note_match H secret key cfg) ss us) (seg_id s) \<noteq> None"
proof (induction ss arbitrary: us)
  case (Cons t ss)
  show ?case
  proof (cases "s = t")
    case True
    then have "map_of (note_match H secret key cfg t us) (seg_id s) \<noteq> None"
      using Cons.prems by (auto simp: note_match_def)
    then show ?thesis using fold_note_match_mono by simp
  next
    case False
    with Cons.prems Cons.IH [of "note_match H secret key cfg t us"] show ?thesis by simp
  qed
qed simp

text \<open>The counter updates of an accepted key. There is one for every counter-based segment; each
  moves the counter to one past the matched value, the matched value is the least one in
  the look-ahead range that derives the submitted text, and it is never the exhausted sentinel.\<close>

theorem accepted_counter_updates:
  assumes sec: "secret_ok (tm_sharedSecret m)"
    and r: "validateTSKKey H key m now cfg = Inr r" "vr_ok r"
  shows "\<exists>us. vr_counterUpdates r = Some us \<and>
    (\<forall>s \<in> set (hotp_segments m). omap_has (seg_id s) us) \<and>
    (\<forall>sid u. map_of us sid = Some u \<longrightarrow>
       (\<exists>s \<in> set (hotp_segments m). seg_id s = sid \<and>
          cu_newCounter u = cu_matchedCounter u + 1 \<and>
          stored_counter s \<le> cu_matchedCounter u \<and>
          cu_matchedCounter u \<le> stored_counter s + num_floor (cfg_hotpLookahead cfg) \<and>
          cu_matchedCounter u < TSK_MAX_HOTP_COUNTER \<and>
          provided_value key s =
            seg_value H (tm_sharedSecret m) (hotp_input sid (cu_matchedCounter u)) (seg_len s) \<and>
          (\<forall>c. stored_counter s \<le> c \<longrightarrow> c < cu_matchedCounter u \<longrightarrow>
             provided_value key s \<noteq> seg_value H (tm_sharedSecret m) (hotp_input sid c) (seg_len s))))"
    (is "\<exists>us. _ \<and> _ \<and> (\<forall>sid u. _ \<longrightarrow> ?P sid u)")
proof -
  have acc: "key_acceptable H key m now cfg"
    using r validateTSKKey_reject [OF sec] by blast
  define us where "us = fold (note_match H (tm_sharedSecret m) key cfg) (tm_segments m) []"
  have all: "omap_has (seg_id s) us" if "s \<in> set (hotp_segments m)" for s
    using that acc unfolding us_def
    by (intro fold_note_match_complete) (auto simp: key_acceptable_def segment_matches_def)
  obtain s0 where "s0 \<in> set (hotp_segments m)"
    using acc by (fastforce simp: key_acceptable_def request_well_formed_def filter_empty_conv)
  from all [OF this] have "us \<noteq> []" by auto
  moreover have "r = loop_result m (map (segment_result H (tm_sharedSecret m) key now cfg) (tm_segments m)) us True"
    using r validateTSKKey_accept [OF sec acc] by (simp add: us_def)
  ultimately have us: "vr_counterUpdates r = Some us" by simp
  have "\<exists>s \<in> set (hotp_segments m). seg_id s = sid \<and> cu_newCounter u = cu_matchedCounter u + 1 \<and>
      hotp_match H (tm_sharedSecret m) key cfg s = Some (cu_matchedCounter u)" if "map_of us sid = Some u" for sid u
    using fold_note_match_sound [OF that [unfolded us_def]] by auto
  note each = this
  show ?thesis
  proof (intro exI [of _ us] conjI us ballI all allI impI)
    fix sid u
    assume "map_of us sid = Some u"
    from each [OF this] obtain s where s: "s \<in> set (hotp_segments m)" "seg_id s = sid"
      "cu_newCounter u = cu_matchedCounter u + 1"
      "hotp_match H (tm_sharedSecret m) key cfg s = Some (cu_matchedCounter u)" by blast
    show "?P sid u"
      using s(1,2,3) hotp_match_Some [OF s(4)] by (intro bexI [of _ s]) (simp_all add: s(2))
  qed
qed

text \<open>C37: no oracle. For a submission that passes the structural and length guards every rejection,
  whatever its internal reason, shows the same external result: the generic error code and the
  client identifier, and no counter update.\<close>

theorem rejections_indistinguishable:
  assumes sec: "secret_ok (tm_sharedSecret m)" and wf: "request_well_formed key m now cfg"
    and r: "validateTSKKey H key m now cfg = Inr r" "\<not> vr_ok r"
  shows "vr_error r = Some INVALID_KEY \<and> vr_clientId r = Some (tm_clientId m) \<and>
    vr_counterUpdates r = None \<and>
    (vr_internalError r = Some CHECKSUM_INVALID \<longleftrightarrow> \<not> checksum_correct H key m)"
proof (cases "checksum_correct H key m \<and> (\<exists>s \<in> set (tm_segments m). counter_fault s \<noteq> None)")
  case True
  then show ?thesis
    using r validateTSKKey_well_formed [OF sec wf, of H]
      validate_loop_fault [OF sec conjunct2 [OF True], of H key now cfg "[]" "[]" True] by auto
next
  case False
  then show ?thesis
    using r validateTSKKey_well_formed [OF sec wf, of H]
      validate_loop_no_fault [OF sec, of "tm_segments m" H key now cfg "[]" "[]" True]
    by (auto simp: loop_result_def split: if_splits)
qed

section \<open>Generated keys are accepted\<close>

lemma derive_all_total:
  "\<forall>s \<in> set ss. \<exists>v. deriveSegmentValue H sec s now = Inr v \<Longrightarrow> \<exists>vs. derive_all H sec now ss = Inr vs"
  by (induction ss) auto

lemma js_slice_append:
  "int (length pre) = a \<Longrightarrow> e = a + int (length v) \<Longrightarrow> js_slice (pre @ v @ post) a e = v"
  by (subst js_slice_in_range) auto

text \<open>In a key assembled from consecutive segments, each segment's slice is its derived value.\<close>

lemma derive_all_slices:
  assumes "derive_all H sec now ss = Inr vs" and "contiguous a ss b" and "int (length pre) = a" and "s \<in> set ss"
  shows "deriveSegmentValue H sec s now = Inr (provided_value (pre @ concat vs @ post) s)"
  using assms
proof (induction ss arbitrary: a vs pre)
  case (Cons t ss)
  then obtain v vs' where v: "deriveSegmentValue H sec t now = Inr v" "derive_all H sec now ss = Inr vs'" "vs = v # vs'"
    by (auto simp: bind_res_Inr_iff)
  have c: "fst (seg_pos t) = a" "a < snd (seg_pos t)" "contiguous (snd (seg_pos t)) ss b"
    using Cons.prems by auto
  have len: "int (length v) = snd (seg_pos t) - a"
    using deriveSegmentValue_length [OF v(1)] c by simp
  show ?case
  proof (cases "s = t")
    case True
    have "provided_value (pre @ concat vs @ post) t = v"
      using js_slice_append [of pre a "snd (seg_pos t)" v "concat vs' @ post"] c len Cons.prems(3) v(3)
      by (simp add: provided_value_def)
    with True v show ?thesis by simp
  next
    case False
    with Cons.prems Cons.IH [OF v(2) c(3), of "pre @ v"] len v(3) show ?thesis by simp
  qed
qed simp

definition clock_within :: "TSKConfig \<Rightarrow> int \<Rightarrow> int \<Rightarrow> SegmentConfig \<Rightarrow> bool" where
  "clock_within cfg t_client t_server s \<longleftrightarrow>
     (seg_type s = Totp \<longrightarrow>
       list_ex (\<lambda>d. window_index t_client (nullish (seg_window s) 60) =
                    num_add (window_index t_server (nullish (seg_window s) 60)) d)
         [- cfg_totpToleranceWindows cfg .. cfg_totpToleranceWindows cfg])"

definition counter_within :: "TSKConfig \<Rightarrow> (string \<times> int) list \<Rightarrow> SegmentConfig \<Rightarrow> bool" where
  "counter_within cfg counters s \<longleftrightarrow>
     (seg_type s = Hotp \<longrightarrow>
       (let c = nullish (map_of counters (seg_id s)) (stored_counter s)
        in 0 \<le> stored_counter s \<and> stored_counter s \<le> c \<and> c < TSK_MAX_HOTP_COUNTER \<and>
           c \<le> stored_counter s + num_floor (cfg_hotpLookahead cfg)))"

definition config_fits :: "TSKConfig \<Rightarrow> TumblerMap \<Rightarrow> bool" where
  "config_fits cfg m \<longleftrightarrow>
     Number_isSafeInteger (cfg_hotpLookahead cfg) \<and> \<not> num_lt (cfg_hotpLookahead cfg) 0 \<and>
     cfg_minKeyLength cfg \<le> tm_keyLength m \<and> tm_keyLength m \<le> cfg_maxKeyLength cfg"

lemma find_upto_Some: "P c \<Longrightarrow> a \<le> c \<Longrightarrow> c \<le> b \<Longrightarrow> \<exists>d. find P [a..b] = Some d \<and> d \<le> c"
proof -
  assume c: "P c" "a \<le> c" "c \<le> b"
  then have "find P [a..b] \<noteq> None" by (auto simp: find_None_iff)
  then obtain d where d: "find P [a..b] = Some d" by blast
  with find_upto_least [OF d] c show ?thesis by (metis linorder_not_less)
qed

lemma derived_segment_matches:
  assumes sec: "secret_ok secret"
    and v: "deriveSegmentValue H secret (with_counters counters s) t_client = Inr (provided_value key s)"
    and cl: "clock_within cfg t_client t_server s" and co: "counter_within cfg counters s"
  shows "counter_fault s = None \<and> segment_matches H secret key (NInt t_server) cfg s \<and>
    (seg_type s = Hotp \<longrightarrow> (\<exists>c. hotp_match H secret key cfg s = Some c \<and>
       c \<le> nullish (map_of counters (seg_id s)) (stored_counter s)))"
proof (cases "seg_type s")
  case Static
  then show ?thesis
    using v sec by (simp add: deriveSegmentValue_static segment_matches_def counter_fault_def)
next
  case Totp
  then show ?thesis
    using v sec cl
    by (auto simp: deriveSegmentValue_totp deriveSegmentForWindow_eq segment_matches_def counter_fault_def
        clock_within_def now_window_def list_ex_iff) force
next
  case Hotp
  define c where "c = nullish (map_of counters (seg_id s)) (stored_counter s)"
  have b: "0 \<le> stored_counter s" "stored_counter s \<le> c" "c < TSK_MAX_HOTP_COUNTER"
    "c \<le> stored_counter s + num_floor (cfg_hotpLookahead cfg)"
    using co Hotp by (auto simp: counter_within_def c_def Let_def)
  have "stored_counter (with_counters counters s) = c" using Hotp by (simp add: with_counters_def c_def)
  with v sec Hotp b have "provided_value key s = seg_value H secret (hotp_input (seg_id s) c) (seg_len s)"
    by (simp add: deriveSegmentValue_hotp deriveSegmentForCounter_eq)
  moreover have "c \<le> stored_counter s + max_lookahead cfg s"
    using b by (simp add: max_lookahead_def)
  ultimately obtain d where "hotp_match H secret key cfg s = Some d" "d \<le> c"
    using find_upto_Some [of "\<lambda>c. provided_value key s = seg_value H secret (hotp_input (seg_id s) c) (seg_len s)"
        c "stored_counter s" "stored_counter s + max_lookahead cfg s"] b(2)
    unfolding hotp_match_def tried_counters_def by blast
  with Hotp b show ?thesis
    by (auto simp: segment_matches_def counter_fault_def c_def)
qed

lemma generated_key_acceptable:
  assumes wf: "wf_layout m" and sec: "secret_ok (tm_sharedSecret m)" and cfg: "config_fits cfg m"
    and cl: "list_all (clock_within cfg t_client t_server) (tm_segments m)"
    and co: "list_all (counter_within cfg counters) (tm_segments m)"
  obtains key where
    "generateKeyFromClientPayload H (tm_sharedSecret m) (toProvisionPayload m) counters t_client = Inr key"
    "key_acceptable H key m (NInt t_server) cfg"
    "\<And>s. s \<in> set (hotp_segments m) \<Longrightarrow> \<exists>c. hotp_match H (tm_sharedSecret m) key cfg s = Some c \<and>
       c \<le> nullish (map_of counters (seg_id s)) (stored_counter s)"
proof -
  let ?sec = "tm_sharedSecret m" and ?ss = "map (with_counters counters) (tm_segments m)"
  let ?b = "fst (tm_checksum m)"
  have c: "contiguous 0 ?ss ?b" and b: "?b + 12 = tm_keyLength m" "snd (tm_checksum m) = tm_keyLength m" "0 \<le> ?b"
    using wf contiguous_le [of 0 "tm_segments m" ?b] by (auto simp: wf_layout_def tumbler_consts)
  have "\<exists>v. deriveSegmentValue H ?sec (with_counters counters s) t_client = Inr v" if "s \<in> set (tm_segments m)" for s
    using that co sec
    by (cases "seg_type s")
      (auto simp: list_all_iff counter_within_def deriveSegmentValue_static deriveSegmentValue_totp
        deriveSegmentForWindow_eq deriveSegmentValue_hotp deriveSegmentForCounter_eq with_counters_def Let_def)
  then obtain vs where vs: "derive_all H ?sec t_client ?ss = Inr vs"
    using derive_all_total [of ?ss H ?sec t_client] by auto
  define key where "key = sealed H ?sec (concat vs)"
  have len: "int (length (concat vs)) = ?b" using derive_all_length [OF vs c] by simp
  have klen: "int (length key) = tm_keyLength m" using len b by (simp add: key_def sealed_def)
  define ck where "ck = take 12 (hmacRaw H (hex_decode ?sec) (''checksum:'' @ concat vs))"
  have key: "key = concat vs @ ck" by (simp add: key_def sealed_def ck_def)
  have body: "js_slice key 0 ?b = concat vs"
    using js_slice_append [of "[]" 0 ?b "concat vs" ck] len by (simp add: key)
  have "js_slice key ?b (snd (tm_checksum m)) = ck"
    using js_slice_append [of "concat vs" ?b "snd (tm_checksum m)" ck "[]"] len b
    by (simp add: key ck_def)
  then have ck: "checksum_correct H key m"
    unfolding checksum_correct_def body by (simp add: ck_def)
  have match: "counter_fault s = None \<and> segment_matches H ?sec key (NInt t_server) cfg s \<and>
    (seg_type s = Hotp \<longrightarrow> (\<exists>c. hotp_match H ?sec key cfg s = Some c \<and>
       c \<le> nullish (map_of counters (seg_id s)) (stored_counter s)))" if s: "s \<in> set (tm_segments m)" for s
  proof (rule derived_segment_matches [OF sec])
    have "deriveSegmentValue H ?sec (with_counters counters s) t_client =
        Inr (provided_value ([] @ concat vs @ ck) (with_counters counters s))"
      by (rule derive_all_slices [OF vs c]) (use s in auto)
    then show "deriveSegmentValue H ?sec (with_counters counters s) t_client = Inr (provided_value key s)"
      by (simp add: key provided_value_def)
  qed (use cl co s in \<open>auto simp: list_all_iff\<close>)
  have "0 < seg_len s" if "s \<in> set (tm_segments m)" for s
    using contiguous_starts [of 0 "tm_segments m" ?b s] c that by simp
  then have "request_well_formed key m (NInt t_server) cfg"
    using cfg klen wf by (simp add: request_well_formed_def config_fits_def wf_layout_def)
  then have "key_acceptable H key m (NInt t_server) cfg"
    using ck match by (simp add: key_acceptable_def)
  moreover have "generateKeyFromClientPayload H ?sec (toProvisionPayload m) counters t_client = Inr key"
    using vs by (simp add: generateKeyFromClientPayload_eq [OF wf sec] key_def)
  ultimately show ?thesis using that match by auto
qed

text \<open>C36: legitimate keys are accepted. For a well-formed map, a client whose clock is within the
  window tolerance and whose counters are at or ahead of the stored ones, by at most the look-ahead and
  below the exhausted sentinel, generates a key, and the validator accepts that key with a matched
  counter no greater than the client's.\<close>

theorem generated_keys_accepted:
  assumes "wf_layout m" and "secret_ok (tm_sharedSecret m)" and "config_fits cfg m"
    and "list_all (clock_within cfg t_client t_server) (tm_segments m)"
    and "list_all (counter_within cfg counters) (tm_segments m)"
  shows "\<exists>key r us.
    generateKeyFromClientPayload H (tm_sharedSecret m) (toProvisionPayload m) counters t_client = Inr key \<and>
    validateTSKKey H key m (NInt t_server) cfg = Inr r \<and> vr_ok r \<and> vr_counterUpdates r = Some us \<and>
    (\<forall>s \<in> set (hotp_segments m). distinct (map seg_id (tm_segments m)) \<longrightarrow>
       (\<exists>u. map_of us (seg_id s) = Some u \<and>
          cu_matchedCounter u \<le> nullish (map_of counters (seg_id s)) (stored_counter s)))"
proof -
  obtain key where gen: "generateKeyFromClientPayload H (tm_sharedSecret m) (toProvisionPayload m) counters t_client = Inr key"
    and acc: "key_acceptable H key m (NInt t_server) cfg"
    and match: "\<And>s. s \<in> set (hotp_segments m) \<Longrightarrow> \<exists>c. hotp_match H (tm_sharedSecret m) key cfg s = Some c \<and>
       c \<le> nullish (map_of counters (seg_id s)) (stored_counter s)"
    by (rule generated_key_acceptable [OF assms, of H], rule that)
  define us where "us = fold (note_match H (tm_sharedSecret m) key cfg) (tm_segments m) []"
  have each: "\<exists>u. map_of us (seg_id s) = Some u \<and>
      cu_matchedCounter u \<le> nullish (map_of counters (seg_id s)) (stored_counter s)"
    if s: "s \<in> set (hotp_segments m)" and dist: "distinct (map seg_id (tm_segments m))" for s
  proof -
    have "omap_has (seg_id s) us"
      unfolding us_def using s match [OF s] by (intro fold_note_match_complete) auto
    then obtain u where u: "map_of us (seg_id s) = Some u" by blast
    with fold_note_match_sound [of H "tm_sharedSecret m" key cfg "tm_segments m" "[]" "seg_id s" u]
    obtain s' where "s' \<in> set (tm_segments m)" "seg_id s' = seg_id s"
      "hotp_match H (tm_sharedSecret m) key cfg s' = Some (cu_matchedCounter u)" by (auto simp: us_def)
    moreover from this have "s' = s" using s dist by (auto simp: distinct_map dest: inj_onD)
    ultimately show ?thesis using u match [OF s] by auto
  qed
  obtain s0 where "s0 \<in> set (hotp_segments m)"
    using acc by (fastforce simp: key_acceptable_def request_well_formed_def filter_empty_conv)
  then have "us \<noteq> []"
    using fold_note_match_complete [of s0 "tm_segments m" H "tm_sharedSecret m" key cfg "[]"] match [of s0]
    by (auto simp: us_def)
  then show ?thesis
    using gen validateTSKKey_accept [OF assms(2) acc, folded us_def] each by auto
qed

section \<open>Examples\<close>

text \<open>A keyed hash that is constant makes every derived value a run of \<open>A\<close>s.\<close>

abbreviation zero_hmac :: hmac_fn where
  "zero_hmac \<equiv> \<lambda>k d. 0"

lemma example_checks:
  "config_fits DEFAULT_TSK_CONFIG example_map"
  "list_all (clock_within DEFAULT_TSK_CONFIG 1700000000000 1700000050000) (tm_segments example_map)"
  "list_all (counter_within DEFAULT_TSK_CONFIG [(''seg_3'', 6)]) (tm_segments example_map)"
  by (simp_all add: config_fits_def DEFAULT_TSK_CONFIG_def example_map_def MAX_SAFE_INTEGER_def
      example_segments_def clock_within_def counter_within_def TSK_MAX_HOTP_COUNTER_def window_index_def
      list_ex_iff upto.simps)

lemma example_acceptable:
  obtains key where "key_acceptable H key example_map (NInt 1700000050000) DEFAULT_TSK_CONFIG"
  using generated_key_acceptable [of example_map DEFAULT_TSK_CONFIG 1700000000000 1700000050000
      "[(''seg_3'', 6)]" H] example_checks by auto

theorem generated_keys_accepted_witness:
  "\<exists>key r.
    generateKeyFromClientPayload zero_hmac example_secret (toProvisionPayload example_map) [(''seg_3'', 6)]
      1700000000000 = Inr key \<and>
    validateTSKKey zero_hmac key example_map (NInt 1700000050000) DEFAULT_TSK_CONFIG = Inr r \<and> vr_ok r"
  using generated_keys_accepted [of example_map DEFAULT_TSK_CONFIG 1700000000000 1700000050000
      "[(''seg_3'', 6)]" zero_hmac] example_checks by auto

theorem validateTSKKey_accepts_iff_witness:
  "secret_ok (tm_sharedSecret example_map) \<and>
   (\<exists>key r. validateTSKKey zero_hmac key example_map (NInt 1700000050000) DEFAULT_TSK_CONFIG = Inr r \<and> vr_ok r)"
proof -
  obtain key where "key_acceptable zero_hmac key example_map (NInt 1700000050000) DEFAULT_TSK_CONFIG"
    by (rule example_acceptable)
  then show ?thesis
    using validateTSKKey_accepts_iff [of example_map zero_hmac key "NInt 1700000050000" DEFAULT_TSK_CONFIG]
    by (auto simp: key_acceptable_def)
qed

theorem accepted_counter_updates_witness:
  "\<exists>key r us. validateTSKKey zero_hmac key example_map (NInt 1700000050000) DEFAULT_TSK_CONFIG = Inr r \<and>
     vr_counterUpdates r = Some us \<and> omap_has ''seg_3'' us"
proof -
  obtain key where "key_acceptable zero_hmac key example_map (NInt 1700000050000) DEFAULT_TSK_CONFIG"
    by (rule example_acceptable)
  from validateTSKKey_accept [OF _ this] obtain r where
    r: "validateTSKKey zero_hmac key example_map (NInt 1700000050000) DEFAULT_TSK_CONFIG = Inr r" "vr_ok r"
    by auto
  with accepted_counter_updates [OF _ r] show ?thesis by (auto simp: example_segments_def)
qed

theorem rejections_indistinguishable_witness:
  "\<exists>r. validateTSKKey zero_hmac (replicate 36 (CHR ''x'')) example_map (NInt 0) DEFAULT_TSK_CONFIG = Inr r \<and>
     request_well_formed (replicate 36 (CHR ''x'')) example_map (NInt 0) DEFAULT_TSK_CONFIG \<and>
     \<not> vr_ok r \<and> vr_error r = Some INVALID_KEY \<and> vr_internalError r = Some CHECKSUM_INVALID"
proof -
  let ?k = "replicate 36 (CHR ''x'')"
  have wf: "request_well_formed ?k example_map (NInt 0) DEFAULT_TSK_CONFIG"
    by (simp add: request_well_formed_def DEFAULT_TSK_CONFIG_def MAX_SAFE_INTEGER_def example_map_def
        example_segments_def)
  have g: "b64url_group 0 i = 0" for i
    by (simp add: b64url_group_def)
  have hm: "hmacRaw zero_hmac k d = replicate 43 (CHR ''A'')" for k d
    unfolding hmacRaw_def digest_b64url_def g by (simp add: map_replicate_const b64url_alphabet_def)
  have no: "\<not> checksum_correct zero_hmac ?k example_map"
    by (simp add: checksum_correct_def hm js_slice_in_range example_map_def)
  have sec: "secret_ok (tm_sharedSecret example_map)" by simp
  have rej: "\<not> key_acceptable zero_hmac ?k example_map (NInt 0) DEFAULT_TSK_CONFIG"
    using no by (simp add: key_acceptable_def)
  obtain r where r: "validateTSKKey zero_hmac ?k example_map (NInt 0) DEFAULT_TSK_CONFIG = Inr r"
    using validateTSKKey_total [OF sec] by blast
  have nok: "\<not> vr_ok r" using validateTSKKey_reject [OF sec rej r] by blast
  show ?thesis
    using rejections_indistinguishable [OF sec wf r nok] wf no r nok by blast
qed

end
