(* ===== verification/Counter_Ledger.thy ===== *)
theory Counter_Ledger
  imports TSK_Prelude
begin

text \<open>
  The contract between a store of counters and the request handling on top of it, as a locale: every
  operation keeps the invariant, no counter level goes down, and an operation that consumes a counter
  value finds the level at or below the value and leaves it above. Its consequence is that no counter
  value is ever consumed twice, whatever sequence of operations runs.
\<close>

text \<open>The state after a sequence of operations, and what each of them consumed.\<close>

fun run_ops :: "('op \<Rightarrow> 's \<Rightarrow> 's) \<Rightarrow> 'op list \<Rightarrow> 's \<Rightarrow> 's" where
  "run_ops exec [] s = s"
| "run_ops exec (p # ps) s = run_ops exec ps (exec p s)"

fun consumption :: "('op \<Rightarrow> 's \<Rightarrow> 's) \<Rightarrow> ('op \<Rightarrow> 's \<Rightarrow> 'c list) \<Rightarrow> 'op list \<Rightarrow> 's \<Rightarrow> 'c list list" where
  "consumption exec consumed [] s = []"
| "consumption exec consumed (p # ps) s = consumed p s # consumption exec consumed ps (exec p s)"

lemma length_consumption [simp]: "length (consumption exec consumed ps s) = length ps"
  by (induction ps arbitrary: s) auto

locale counter_ledger =
  fixes exec :: "'op \<Rightarrow> 's \<Rightarrow> 's"
    and consumed :: "'op \<Rightarrow> 's \<Rightarrow> ('k \<times> int) list"
    and level :: "'s \<Rightarrow> 'k \<Rightarrow> int"
    and inv :: "'s \<Rightarrow> bool"
  assumes inv_exec: "inv s \<Longrightarrow> inv (exec p s)"
    and level_mono: "inv s \<Longrightarrow> level s k \<le> level (exec p s) k"
    and consumed_level: "inv s \<Longrightarrow> (k, c) \<in> set (consumed p s) \<Longrightarrow> level s k \<le> c \<and> c < level (exec p s) k"
    and consumed_distinct: "inv s \<Longrightarrow> distinct (consumed p s)"
begin

lemma inv_run: "inv s \<Longrightarrow> inv (run_ops exec ps s)"
  by (induction ps arbitrary: s) (auto intro: inv_exec)

lemma level_run: "inv s \<Longrightarrow> level s k \<le> level (run_ops exec ps s) k"
proof (induction ps arbitrary: s)
  case (Cons p ps)
  then show ?case using order_trans [OF level_mono Cons.IH [OF inv_exec]] by simp
qed simp

lemma consumption_level:
  "inv s \<Longrightarrow> (k, c) \<in> set (concat (consumption exec consumed ps s)) \<Longrightarrow> level s k \<le> c"
proof (induction ps arbitrary: s)
  case (Cons p ps)
  then show ?case
    using consumed_level [of s k c p] level_mono [of s k p] inv_exec [of s p]
    by (auto intro: order_trans)
qed simp

lemma consumed_once: "inv s \<Longrightarrow> distinct (concat (consumption exec consumed ps s))"
proof (induction ps arbitrary: s)
  case (Cons p ps)
  have inv': "inv (exec p s)" using Cons.prems by (rule inv_exec)
  have "(k, c) \<notin> set (concat (consumption exec consumed ps (exec p s)))" if "(k, c) \<in> set (consumed p s)" for k c
    using consumed_level [OF Cons.prems that] consumption_level [OF inv', of k c ps] by force
  with Cons.IH [OF inv'] consumed_distinct [OF Cons.prems] show ?case by auto
qed simp

end

end
