(* ===== verification/Store.thy ===== *)
theory Store
  imports Validate Counter_Ledger
begin

text \<open>
  \<^verbatim>\<open>packages/server/src/store.ts\<close>: the counter state rules of a stored map, the commit of one
  validated request, and the in-memory store. An object that the code mutates in place is passed
  and returned; \<^verbatim>\<open>structuredClone\<close> on every \<^verbatim>\<open>set\<close> and \<^verbatim>\<open>get\<close> makes the stored maps private to the
  store, so value semantics is exact. \<^verbatim>\<open>Date.now()\<close> is an argument. \<^verbatim>\<open>Math.ceil(max * 0.1)\<close> is
  \<open>(max + 9) div 10\<close>, which agrees with the floating-point value for caps below \<open>2^48\<close>.
\<close>

section \<open>Counter state of a map\<close>

record ValidationCommitInput =
  ci_counterMatches :: "(string \<times> int) list"
  ci_usedAt :: int

datatype CommitError =
    TSK_KEY_REVOKED
  | TSK_KEY_EXPIRED
  | TSK_KEY_USAGE_CAP_EXCEEDED
  | TSK_HOTP_REPLAY_DETECTED
  | TSK_HOTP_COUNTER_INVALID
  | TSK_HOTP_COUNTER_EXHAUSTED

record ValidationCommitResult =
  cr_ok :: bool
  cr_error :: "CommitError option"
  cr_requestCount :: "int option"
  cr_requestsRemaining :: "int option"
  cr_hotpCountersRemaining :: "int option"
  cr_rotationRequired :: "bool option"

definition commit_fail :: "CommitError \<Rightarrow> ValidationCommitResult" where
  "commit_fail e =
     \<lparr>cr_ok = False, cr_error = Some e, cr_requestCount = None, cr_requestsRemaining = None,
      cr_hotpCountersRemaining = None, cr_rotationRequired = None\<rparr>"

definition assertTumblerMapCounterState :: "TumblerMap \<Rightarrow> unit res" where
  "assertTumblerMapCounterState m =
     bind_res (check_all (\<lambda>s. if seg_type s = Hotp
                              then assertValidHOTPStoredCounter (int_val (nullish (seg_counter s) 0))
                              else Inr ()) (tm_segments m)) (\<lambda>_.
     let hotpCount = length (filter (\<lambda>s. seg_type s = Hotp) (tm_segments m)) in
     if hotpCount = 0 then Inl ''TSK_MAP_INVALID_NO_HOTP''
     else if (case tm_hotpRotationWarningCounters m of
                None \<Rightarrow> False
              | Some w \<Rightarrow> \<not> Number_isSafeInteger (NInt w) \<or> w < 1 \<or> TSK_MAX_HOTP_COUNTER < w)
     then Inl ''TSK_HOTP_ROTATION_WARNING_INVALID''
     else bind_res (minimumHOTPUsesRemaining (tm_segments m)) (\<lambda>remaining.
       if remaining = Some 0 \<and> tm_status m \<noteq> Some Expired \<and> tm_status m \<noteq> Some Revoked
       then Inl ''TSK_HOTP_COUNTER_STATUS_INVALID'' else Inr ()))"

definition hotpWarningWindow :: "TumblerMap \<Rightarrow> int" where
  "hotpWarningWindow m = nullish (tm_hotpRotationWarningCounters m) DEFAULT_HOTP_ROTATION_WARNING_COUNTERS"

definition reconcileTumblerMapCounterStatus :: "TumblerMap \<Rightarrow> int \<Rightarrow> TumblerMap \<times> bool" where
  "reconcileTumblerMapCounterStatus m hotpCountersRemaining =
     (let rotationRequired = hotpCountersRemaining \<le> hotpWarningWindow m;
          m' = (if tm_status m \<noteq> Some Revoked \<and> tm_status m \<noteq> Some Expired
                then if hotpCountersRemaining = 0 then m\<lparr>tm_status := Some Expired\<rparr>
                     else if rotationRequired then m\<lparr>tm_status := Some Expiring\<rparr>
                     else m
                else m)
      in (m', rotationRequired))"

section \<open>Committing a validation\<close>

text \<open>\<^verbatim>\<open>new Map(map.segments.map(s => [s.segmentId, s]))\<close>: a repeated identifier denotes its last
  segment, both for \<^verbatim>\<open>get\<close> and for the assignment through the reference it returns.\<close>

definition segment_ref :: "SegmentConfig list \<Rightarrow> string \<Rightarrow> SegmentConfig option" where
  "segment_ref ss sid = find (\<lambda>s. seg_id s = sid) (rev ss)"

fun set_counter_ref :: "string \<Rightarrow> int \<Rightarrow> SegmentConfig list \<Rightarrow> SegmentConfig list" where
  "set_counter_ref sid c [] = []"
| "set_counter_ref sid c (s # ss) =
     (if seg_id s = sid \<and> sid \<notin> seg_id ` set ss then s\<lparr>seg_counter := Some c\<rparr> # ss
      else s # set_counter_ref sid c ss)"

text \<open>The loop over the matches, all checks before any write.\<close>

fun commit_checks :: "SegmentConfig list \<Rightarrow> string list \<Rightarrow> (string \<times> int) list \<Rightarrow> CommitError option" where
  "commit_checks ss seen [] = None"
| "commit_checks ss seen ((sid, matched) # us) =
     (case segment_ref ss sid of
        None \<Rightarrow> Some TSK_HOTP_REPLAY_DETECTED
      | Some seg \<Rightarrow>
          if seg_type seg \<noteq> Hotp \<or> sid \<in> set seen then Some TSK_HOTP_REPLAY_DETECTED
          else
            let storedCounter = nullish (seg_counter seg) 0 in
            if TSK_MAX_HOTP_COUNTER \<le> storedCounter then Some TSK_HOTP_COUNTER_EXHAUSTED
            else if \<not> isUsableHOTPDerivationCounter (int_val matched) then Some TSK_HOTP_COUNTER_INVALID
            else if matched < storedCounter then Some TSK_HOTP_REPLAY_DETECTED
            else commit_checks ss (sid # seen) us)"

definition apply_matches :: "(string \<times> int) list \<Rightarrow> SegmentConfig list \<Rightarrow> SegmentConfig list" where
  "apply_matches us ss = fold (\<lambda>(sid, matched). set_counter_ref sid (matched + 1)) us ss"

definition usage_window :: "TumblerMap \<Rightarrow> int \<Rightarrow> int" where
  "usage_window m mx =
     (let configuredWindow = nullish (tm_rotationWarningRequests m) (max 1 ((mx + 9) div 10))
      in min mx (max 1 configuredWindow))"

definition commitValidationToMap ::
  "TumblerMap \<Rightarrow> ValidationCommitInput \<Rightarrow> TumblerMap \<times> ValidationCommitResult res" where
  "commitValidationToMap m input =
     (case assertTumblerMapCounterState m of
        Inl _ \<Rightarrow> (m, Inr (commit_fail TSK_HOTP_COUNTER_INVALID))
      | Inr _ \<Rightarrow>
        if tm_status m = Some Revoked then (m, Inr (commit_fail TSK_KEY_REVOKED))
        else if tm_status m = Some Expired then (m, Inr (commit_fail TSK_KEY_EXPIRED))
        else if (case tm_expiresAt m of None \<Rightarrow> False | Some e \<Rightarrow> e < ci_usedAt input)
        then (m\<lparr>tm_status := Some Expired\<rparr>, Inr (commit_fail TSK_KEY_EXPIRED))
        else
          let currentCount = nullish (tm_requestCount m) 0 in
          if (case tm_maxRequests m of None \<Rightarrow> False | Some mx \<Rightarrow> 0 < mx \<and> mx \<le> currentCount)
          then (m\<lparr>tm_status := Some Expired\<rparr>, Inr (commit_fail TSK_KEY_USAGE_CAP_EXCEEDED))
          else if length (ci_counterMatches input) \<noteq> length (filter (\<lambda>s. seg_type s = Hotp) (tm_segments m))
          then (m, Inr (commit_fail TSK_HOTP_COUNTER_INVALID))
          else case commit_checks (tm_segments m) [] (ci_counterMatches input) of
            Some e \<Rightarrow>
              (if e = TSK_HOTP_COUNTER_EXHAUSTED then m\<lparr>tm_status := Some Expired\<rparr> else m,
               Inr (commit_fail e))
          | None \<Rightarrow>
              let requestCount = currentCount + 1;
                  m1 = m\<lparr>tm_segments := apply_matches (ci_counterMatches input) (tm_segments m),
                         tm_requestCount := Some requestCount, tm_lastUsedAt := Some (ci_usedAt input)\<rparr>
              in case minimumHOTPUsesRemaining (tm_segments m1) of
                Inl e \<Rightarrow> (m1, Inl e)
              | Inr None \<Rightarrow> (m1, Inr (commit_fail TSK_HOTP_COUNTER_INVALID))
              | Inr (Some hotpCountersRemaining) \<Rightarrow>
                  let (m2, hotpRotationRequired) = reconcileTumblerMapCounterStatus m1 hotpCountersRemaining;
                      (m3, requestsRemaining, usageRotationRequired) =
                        (case tm_maxRequests m2 of
                           None \<Rightarrow> (m2, None, False)
                         | Some mx \<Rightarrow>
                             if 0 < mx
                             then let rem = max 0 (mx - requestCount);
                                      req = (rem \<le> usage_window m2 mx)
                                  in (if req \<and> 0 < hotpCountersRemaining
                                      then m2\<lparr>tm_status := Some Expiring\<rparr> else m2, Some rem, req)
                             else (m2, None, False))
                  in (m3, Inr \<lparr>cr_ok = True, cr_error = None, cr_requestCount = Some requestCount,
                               cr_requestsRemaining = requestsRemaining,
                               cr_hotpCountersRemaining = Some hotpCountersRemaining,
                               cr_rotationRequired = Some (usageRotationRequired \<or> hotpRotationRequired)\<rparr>))"

section \<open>The in-memory store\<close>

record MemoryTumblerStore =
  ms_maps :: "(string \<times> TumblerMap) list"
  ms_accessOrder :: "string list"
  ms_maxEntries :: int
  ms_maxAgeMs :: int

definition new_MemoryTumblerStore :: "int option \<Rightarrow> int option \<Rightarrow> MemoryTumblerStore" where
  "new_MemoryTumblerStore maxEntries maxAgeSec =
     \<lparr>ms_maps = [], ms_accessOrder = [], ms_maxEntries = nullish maxEntries 100000,
      ms_maxAgeMs = nullish maxAgeSec (90 * 24 * 3600) * 1000\<rparr>"

text \<open>\<^verbatim>\<open>indexOf\<close> and \<^verbatim>\<open>splice\<close>: the first occurrence goes.\<close>

definition removeLRU :: "string \<Rightarrow> MemoryTumblerStore \<Rightarrow> MemoryTumblerStore" where
  "removeLRU cid st = st\<lparr>ms_accessOrder := remove1 cid (ms_accessOrder st)\<rparr>"

definition touchLRU :: "string \<Rightarrow> MemoryTumblerStore \<Rightarrow> MemoryTumblerStore" where
  "touchLRU cid st = st\<lparr>ms_accessOrder := remove1 cid (ms_accessOrder st) @ [cid]\<rparr>"

definition ms_set :: "string \<Rightarrow> TumblerMap \<Rightarrow> MemoryTumblerStore \<Rightarrow> MemoryTumblerStore \<times> unit res" where
  "ms_set cid m st =
     (if \<not> omap_has cid (ms_maps st) \<and> ms_maxEntries st \<le> int (length (ms_maps st))
      then (st, Inl ''TSK_STORE_CAPACITY_REACHED'')
      else case assertTumblerMapCounterState m of
        Inl e \<Rightarrow> (st, Inl e)
      | Inr _ \<Rightarrow> (touchLRU cid (st\<lparr>ms_maps := omap_set cid m (ms_maps st)\<rparr>), Inr ()))"

definition ms_delete :: "string \<Rightarrow> MemoryTumblerStore \<Rightarrow> MemoryTumblerStore" where
  "ms_delete cid st = removeLRU cid (st\<lparr>ms_maps := omap_delete cid (ms_maps st)\<rparr>)"

definition ms_get :: "string \<Rightarrow> int \<Rightarrow> MemoryTumblerStore \<Rightarrow> MemoryTumblerStore \<times> TumblerMap option" where
  "ms_get cid now st =
     (case map_of (ms_maps st) cid of
        None \<Rightarrow> (st, None)
      | Some m \<Rightarrow>
          if 0 < ms_maxAgeMs st \<and> ms_maxAgeMs st < now - tm_createdAt m
          then (removeLRU cid (st\<lparr>ms_maps := omap_delete cid (ms_maps st)\<rparr>), None)
          else (touchLRU cid st, Some m))"

definition ms_list :: "MemoryTumblerStore \<Rightarrow> string list" where
  "ms_list st = omap_keys (ms_maps st)"

definition trackedClients :: "MemoryTumblerStore \<Rightarrow> nat" where
  "trackedClients st = length (ms_maps st)"

text \<open>\<^verbatim>\<open>segments.find(s => s.segmentId === id)\<close> denotes the first segment with the identifier.\<close>

definition segment_find :: "SegmentConfig list \<Rightarrow> string \<Rightarrow> SegmentConfig option" where
  "segment_find ss sid = find (\<lambda>s. seg_id s = sid) ss"

fun set_counter_first :: "string \<Rightarrow> int \<Rightarrow> SegmentConfig list \<Rightarrow> SegmentConfig list" where
  "set_counter_first sid c [] = []"
| "set_counter_first sid c (s # ss) =
     (if seg_id s = sid then s\<lparr>seg_counter := Some c\<rparr> # ss else s # set_counter_first sid c ss)"

definition update_check :: "SegmentConfig list \<Rightarrow> string \<times> int \<Rightarrow> unit res" where
  "update_check ss u =
     (case segment_find ss (fst u) of
        None \<Rightarrow> Inl ''TSK_HOTP_COUNTER_INVALID''
      | Some seg \<Rightarrow>
          if seg_type seg \<noteq> Hotp then Inl ''TSK_HOTP_COUNTER_INVALID''
          else bind_res (assertValidHOTPStoredCounter (int_val (snd u))) (\<lambda>_.
            if snd u < nullish (seg_counter seg) 0 then Inl ''TSK_HOTP_COUNTER_ROLLBACK'' else Inr ()))"

definition apply_update :: "(string \<times> int) list \<Rightarrow> SegmentConfig \<Rightarrow> SegmentConfig" where
  "apply_update us seg =
     (case map_of us (seg_id seg) of
        Some c \<Rightarrow> if seg_type seg = Hotp then seg\<lparr>seg_counter := Some c\<rparr> else seg
      | None \<Rightarrow> seg)"

text \<open>The tail shared by \<^verbatim>\<open>updateCounters\<close> and \<^verbatim>\<open>consumeCounter\<close>: recompute the remaining uses and
  reconcile the status.\<close>

definition reconcile_remaining :: "TumblerMap \<Rightarrow> TumblerMap \<times> unit res" where
  "reconcile_remaining m =
     (case minimumHOTPUsesRemaining (tm_segments m) of
        Inl e \<Rightarrow> (m, Inl e)
      | Inr None \<Rightarrow> (m, Inr ())
      | Inr (Some remaining) \<Rightarrow> (fst (reconcileTumblerMapCounterStatus m remaining), Inr ()))"

definition update_map_counters :: "TumblerMap \<Rightarrow> (string \<times> int) list \<Rightarrow> TumblerMap \<times> unit res" where
  "update_map_counters m updates =
     (case check_all (update_check (tm_segments m)) updates of
        Inl e \<Rightarrow> (m, Inl e)
      | Inr _ \<Rightarrow> reconcile_remaining (m\<lparr>tm_segments := map (apply_update updates) (tm_segments m)\<rparr>))"

definition consume_map_counter :: "TumblerMap \<Rightarrow> string \<Rightarrow> int \<Rightarrow> TumblerMap \<times> bool res" where
  "consume_map_counter m sid matchedCounter =
     (case segment_find (tm_segments m) sid of
        None \<Rightarrow> (m, Inr False)
      | Some seg \<Rightarrow>
          if seg_type seg \<noteq> Hotp then (m, Inr False)
          else
            let storedCounter = nullish (seg_counter seg) 0 in
            if \<not> isUsableHOTPDerivationCounter (int_val storedCounter) \<or>
               \<not> isUsableHOTPDerivationCounter (int_val matchedCounter)
            then (if storedCounter = TSK_MAX_HOTP_COUNTER then m\<lparr>tm_status := Some Expired\<rparr> else m, Inr False)
            else if matchedCounter < storedCounter then (m, Inr False)
            else let (m', r) = reconcile_remaining
                       (m\<lparr>tm_segments := set_counter_first sid (matchedCounter + 1) (tm_segments m)\<rparr>)
                 in (m', bind_res r (\<lambda>_. Inr True)))"

text \<open>In-place mutation of the stored object of a client.\<close>

definition ms_mutate :: "string \<Rightarrow> TumblerMap \<Rightarrow> MemoryTumblerStore \<Rightarrow> MemoryTumblerStore" where
  "ms_mutate cid m st = st\<lparr>ms_maps := omap_set cid m (ms_maps st)\<rparr>"

definition ms_updateCounters ::
  "string \<Rightarrow> (string \<times> int) list \<Rightarrow> MemoryTumblerStore \<Rightarrow> MemoryTumblerStore \<times> unit res" where
  "ms_updateCounters cid updates st =
     (case map_of (ms_maps st) cid of
        None \<Rightarrow> (st, Inr ())
      | Some m \<Rightarrow> (let (m', r) = update_map_counters m updates in (ms_mutate cid m' st, r)))"

definition ms_consumeCounter ::
  "string \<Rightarrow> string \<Rightarrow> int \<Rightarrow> MemoryTumblerStore \<Rightarrow> MemoryTumblerStore \<times> bool res" where
  "ms_consumeCounter cid sid matchedCounter st =
     (case map_of (ms_maps st) cid of
        None \<Rightarrow> (st, Inr False)
      | Some m \<Rightarrow> (let (m', r) = consume_map_counter m sid matchedCounter in (ms_mutate cid m' st, r)))"

definition ms_commitValidation ::
  "string \<Rightarrow> ValidationCommitInput \<Rightarrow> MemoryTumblerStore \<Rightarrow> MemoryTumblerStore \<times> ValidationCommitResult res" where
  "ms_commitValidation cid input st =
     (case map_of (ms_maps st) cid of
        None \<Rightarrow> (st, Inr (commit_fail TSK_KEY_EXPIRED))
      | Some m \<Rightarrow> (let (m', r) = commitValidationToMap m input in (ms_mutate cid m' st, r)))"

definition ms_replaceCredential ::
  "string \<Rightarrow> TumblerMap \<Rightarrow> MemoryTumblerStore \<Rightarrow> MemoryTumblerStore \<times> bool res" where
  "ms_replaceCredential oldClientId replacement st =
     (case assertTumblerMapCounterState replacement of
        Inl e \<Rightarrow> (st, Inl e)
      | Inr _ \<Rightarrow>
        case map_of (ms_maps st) oldClientId of
          None \<Rightarrow> (st, Inr False)
        | Some current \<Rightarrow>
            if tm_status current \<noteq> None \<and> tm_status current \<noteq> Some Active \<and> tm_status current \<noteq> Some Expiring
            then (st, Inr False)
            else if omap_has (tm_clientId replacement) (ms_maps st) then (st, Inr False)
            else
              let st1 = ms_mutate oldClientId (current\<lparr>tm_status := Some Revoked\<rparr>) st;
                  st2 = (if ms_maxEntries st1 \<le> int (length (ms_maps st1))
                         then removeLRU oldClientId (st1\<lparr>ms_maps := omap_delete oldClientId (ms_maps st1)\<rparr>)
                         else st1);
                  (st3, r) = ms_set (tm_clientId replacement) replacement st2
              in (st3, bind_res r (\<lambda>_. Inr True)))"

section \<open>Laws of the counter state\<close>

lemma remaining_uses_nonneg: "counters_valid ss \<Longrightarrow> r \<in> remaining_uses ss \<Longrightarrow> 0 \<le> r"
  by (auto simp: remaining_uses_def counters_valid_def)

lemma remaining_uses_empty_iff: "remaining_uses ss = {} \<longleftrightarrow> filter (\<lambda>s. seg_type s = Hotp) ss = []"
  by (auto simp: remaining_uses_def filter_empty_conv)

lemma Min_remaining_zero:
  "counters_valid ss \<Longrightarrow> remaining_uses ss \<noteq> {} \<Longrightarrow> Min (remaining_uses ss) = 0 \<longleftrightarrow> 0 \<in> remaining_uses ss"
  by (metis Min_in Min_le antisym finite_remaining_uses remaining_uses_nonneg)

definition warning_ok :: "TumblerMap \<Rightarrow> bool" where
  "warning_ok m = (case tm_hotpRotationWarningCounters m of None \<Rightarrow> True | Some w \<Rightarrow> 1 \<le> w \<and> w \<le> TSK_MAX_HOTP_COUNTER)"

definition terminal :: "TumblerMap \<Rightarrow> bool" where
  "terminal m \<longleftrightarrow> tm_status m = Some Expired \<or> tm_status m = Some Revoked"

definition counter_state_ok :: "TumblerMap \<Rightarrow> bool" where
  "counter_state_ok m \<longleftrightarrow>
     counters_valid (tm_segments m) \<and> hotp_segments m \<noteq> [] \<and> warning_ok m \<and>
     (0 \<in> remaining_uses (tm_segments m) \<longrightarrow> terminal m)"

lemma assertTumblerMapCounterState_iff:
  "assertTumblerMapCounterState m = Inr u \<longleftrightarrow> counter_state_ok m"
proof -
  have loop: "check_all (\<lambda>s. if seg_type s = Hotp then assertValidHOTPStoredCounter (int_val (stored_counter s))
      else Inr ()) (tm_segments m) = Inr () \<longleftrightarrow> counters_valid (tm_segments m)"
    by (auto simp: check_all_Inr_iff counters_valid_def)
  have warn: "(case tm_hotpRotationWarningCounters m of None \<Rightarrow> False
      | Some w \<Rightarrow> \<not> Number_isSafeInteger (NInt w) \<or> w < 1 \<or> TSK_MAX_HOTP_COUNTER < w) \<longleftrightarrow> \<not> warning_ok m"
    by (auto simp: warning_ok_def TSK_MAX_HOTP_COUNTER_def MAX_SAFE_INTEGER_def split: option.splits)
  show ?thesis
    unfolding assertTumblerMapCounterState_def warn bind_res_Inr_iff
    using loop Min_remaining_zero [of "tm_segments m"] remaining_uses_empty_iff [of "tm_segments m"]
    by (auto simp: Let_def bind_res_Inr_iff minimumHOTPUsesRemaining_iff counter_state_ok_def terminal_def)
qed

lemma assertTumblerMapCounterState_cases:
  obtains "counter_state_ok m" "assertTumblerMapCounterState m = Inr ()"
  | e where "\<not> counter_state_ok m" "assertTumblerMapCounterState m = Inl e"
  using assertTumblerMapCounterState_iff [of m] by (cases "assertTumblerMapCounterState m") auto

section \<open>Laws of the segment references\<close>

definition counter_level :: "SegmentConfig list \<Rightarrow> string \<Rightarrow> int" where
  "counter_level ss sid =
     (case segment_ref ss sid of
        Some s \<Rightarrow> if seg_type s = Hotp then stored_counter s else TSK_MAX_HOTP_COUNTER
      | None \<Rightarrow> TSK_MAX_HOTP_COUNTER)"

lemma find_append: "find P (xs @ ys) = (case find P xs of None \<Rightarrow> find P ys | Some x \<Rightarrow> Some x)"
  by (induction xs) auto

lemma segment_ref_Cons:
  "segment_ref (s # ss) sid = (case segment_ref ss sid of None \<Rightarrow> if seg_id s = sid then Some s else None | Some t \<Rightarrow> Some t)"
  by (simp add: segment_ref_def find_append split: option.splits)

lemma segment_ref_Nil [simp]: "segment_ref [] sid = None"
  by (simp add: segment_ref_def)

lemma segment_ref_None_iff: "segment_ref ss sid = None \<longleftrightarrow> sid \<notin> seg_id ` set ss"
  by (auto simp: segment_ref_def find_None_iff)

lemma segment_ref_SomeD: "segment_ref ss sid = Some s \<Longrightarrow> s \<in> set ss \<and> seg_id s = sid"
  by (induction ss) (auto simp: segment_ref_Cons split: option.splits if_splits)

lemma set_counter_ref_ids [simp]: "map seg_id (set_counter_ref sid c ss) = map seg_id ss"
  by (induction ss) auto

lemma set_counter_ref_types [simp]: "map seg_type (set_counter_ref sid c ss) = map seg_type ss"
  by (induction ss) auto

lemma set_counter_ref_id_set [simp]: "seg_id ` set (set_counter_ref sid c ss) = seg_id ` set ss"
  by (metis list.set_map set_counter_ref_ids)

lemma segment_ref_set_counter_ref:
  "segment_ref (set_counter_ref sid c ss) sid' =
     (if sid' = sid then map_option (\<lambda>s. s\<lparr>seg_counter := Some c\<rparr>) (segment_ref ss sid) else segment_ref ss sid')"
proof (induction ss)
  case (Cons s ss)
  then show ?case
    using segment_ref_None_iff [of ss sid]
    by (auto simp: segment_ref_Cons split: option.splits)
qed simp

lemma counters_valid_set_counter_ref:
  "counters_valid ss \<Longrightarrow> 0 \<le> c \<Longrightarrow> c \<le> TSK_MAX_HOTP_COUNTER \<Longrightarrow> counters_valid (set_counter_ref sid c ss)"
  by (induction ss) auto

lemma commit_checks_None_iff:
  "commit_checks ss seen us = None \<longleftrightarrow>
     distinct (map fst us) \<and> fst ` set us \<inter> set seen = {} \<and>
     (\<forall>(sid, c) \<in> set us. counter_level ss sid \<le> c \<and> 0 \<le> c \<and> c < TSK_MAX_HOTP_COUNTER)"
proof (induction ss seen us rule: commit_checks.induct)
  case (2 ss seen sid matched us)
  show ?case
  proof (cases "segment_ref ss sid")
    case None
    then show ?thesis by (auto simp: counter_level_def)
  next
    case (Some seg)
    show ?thesis
    proof (cases "seg_type seg = Hotp \<and> sid \<notin> set seen \<and> stored_counter seg < TSK_MAX_HOTP_COUNTER \<and>
        0 \<le> matched \<and> matched < TSK_MAX_HOTP_COUNTER \<and> stored_counter seg \<le> matched")
      case True
      then have "commit_checks ss seen ((sid, matched) # us) = commit_checks ss (sid # seen) us"
        using Some by (auto simp: Let_def)
      moreover have "counter_level ss sid \<le> matched" using Some True by (simp add: counter_level_def)
      ultimately show ?thesis using "2.IH" [OF Some _ refl] True by auto
    next
      case False
      then have "commit_checks ss seen ((sid, matched) # us) \<noteq> None"
        using Some by (auto simp: Let_def)
      moreover have "sid \<in> set seen \<or> \<not> (counter_level ss sid \<le> matched \<and> 0 \<le> matched \<and> matched < TSK_MAX_HOTP_COUNTER)"
        using Some False by (auto simp: counter_level_def)
      ultimately show ?thesis by auto
    qed
  qed
qed simp

lemma segment_ref_apply_matches:
  "distinct (map fst us) \<Longrightarrow>
   segment_ref (apply_matches us ss) sid =
     (case map_of us sid of
        None \<Rightarrow> segment_ref ss sid
      | Some c \<Rightarrow> map_option (\<lambda>s. s\<lparr>seg_counter := Some (c + 1)\<rparr>) (segment_ref ss sid))"
proof (induction us arbitrary: ss)
  case (Cons u us)
  have "map_of us (fst u) = None" using Cons.prems by (simp add: map_of_eq_None_iff)
  with Cons.IH [of "set_counter_ref (fst u) (snd u + 1) ss"] Cons.prems show ?case
    by (auto simp: apply_matches_def case_prod_beta segment_ref_set_counter_ref split: option.splits)
qed (simp add: apply_matches_def)

lemma apply_matches_types [simp]: "map seg_type (apply_matches us ss) = map seg_type ss"
  by (induction us arbitrary: ss) (auto simp: apply_matches_def case_prod_beta)

lemma apply_matches_ids [simp]: "map seg_id (apply_matches us ss) = map seg_id ss"
  by (induction us arbitrary: ss) (auto simp: apply_matches_def case_prod_beta)

lemma counters_valid_apply_matches:
  "counters_valid ss \<Longrightarrow> \<forall>(sid, c) \<in> set us. 0 \<le> c \<and> c < TSK_MAX_HOTP_COUNTER \<Longrightarrow> counters_valid (apply_matches us ss)"
  by (induction us arbitrary: ss)
    (auto simp: apply_matches_def case_prod_beta counters_valid_set_counter_ref)

lemma counter_level_apply_matches:
  "distinct (map fst us) \<Longrightarrow> \<forall>(sid, c) \<in> set us. counter_level ss sid \<le> c \<and> c < TSK_MAX_HOTP_COUNTER \<Longrightarrow>
   counter_level (apply_matches us ss) sid = (case map_of us sid of None \<Rightarrow> counter_level ss sid | Some c \<Rightarrow> c + 1)"
  by (auto simp: counter_level_def segment_ref_apply_matches split: option.splits dest!: map_of_SomeD)

lemma hotp_filter_types:
  "map seg_type ss = map seg_type ts \<Longrightarrow>
   length (filter (\<lambda>s. seg_type s = Hotp) ss) = length (filter (\<lambda>s. seg_type s = Hotp) ts)"
  by (metis (mono_tags, lifting) comp_apply filter_cong length_map filter_map)

section \<open>Correctness of the commit\<close>

text \<open>The condition under which a commit goes through, and the map it leaves.\<close>

definition commit_admissible :: "TumblerMap \<Rightarrow> ValidationCommitInput \<Rightarrow> bool" where
  "commit_admissible m input \<longleftrightarrow>
     counter_state_ok m \<and> \<not> terminal m \<and>
     (case tm_expiresAt m of None \<Rightarrow> True | Some e \<Rightarrow> ci_usedAt input \<le> e) \<and>
     (case tm_maxRequests m of None \<Rightarrow> True | Some mx \<Rightarrow> 0 < mx \<longrightarrow> nullish (tm_requestCount m) 0 < mx) \<and>
     length (ci_counterMatches input) = length (hotp_segments m) \<and>
     distinct (map fst (ci_counterMatches input)) \<and>
     (\<forall>(sid, c) \<in> set (ci_counterMatches input).
        counter_level (tm_segments m) sid \<le> c \<and> 0 \<le> c \<and> c < TSK_MAX_HOTP_COUNTER)"

lemma reconcile_simps [simp]:
  "tm_segments (fst (reconcileTumblerMapCounterStatus m r)) = tm_segments m"
  "tm_requestCount (fst (reconcileTumblerMapCounterStatus m r)) = tm_requestCount m"
  "tm_maxRequests (fst (reconcileTumblerMapCounterStatus m r)) = tm_maxRequests m"
  "tm_hotpRotationWarningCounters (fst (reconcileTumblerMapCounterStatus m r)) = tm_hotpRotationWarningCounters m"
  "terminal (fst (reconcileTumblerMapCounterStatus m r)) \<longleftrightarrow> terminal m \<or> r = 0"
  by (auto simp: reconcileTumblerMapCounterStatus_def terminal_def Let_def)

text \<open>Everything a commit may change besides counters and usage is the status.\<close>

definition same_but_usage :: "TumblerMap \<Rightarrow> TumblerMap \<Rightarrow> bool" where
  "same_but_usage m m' \<longleftrightarrow>
     m' = m\<lparr>tm_segments := tm_segments m', tm_requestCount := tm_requestCount m',
            tm_lastUsedAt := tm_lastUsedAt m', tm_status := tm_status m'\<rparr>"

lemma same_but_usage_status: "same_but_usage m (m\<lparr>tm_status := x\<rparr>)"
  by (simp add: same_but_usage_def)

lemma same_but_usage_simps:
  "same_but_usage m m' \<Longrightarrow> tm_clientId m' = tm_clientId m"
  "same_but_usage m m' \<Longrightarrow> tm_createdAt m' = tm_createdAt m"
  "same_but_usage m m' \<Longrightarrow> tm_maxRequests m' = tm_maxRequests m"
  "same_but_usage m m' \<Longrightarrow> tm_sharedSecret m' = tm_sharedSecret m"
  by (cases m; cases m'; simp add: same_but_usage_def)+

lemma same_but_usage_trans: "same_but_usage a b \<Longrightarrow> same_but_usage b c \<Longrightarrow> same_but_usage a c"
  by (cases a; cases b; cases c) (simp add: same_but_usage_def)

lemma commit_ok:
  assumes "commit_admissible m input"
  obtains m' r where "commitValidationToMap m input = (m', Inr r)" "cr_ok r"
    "cr_requestCount r = Some (nullish (tm_requestCount m) 0 + 1)"
    "tm_segments m' = apply_matches (ci_counterMatches input) (tm_segments m)"
    "tm_requestCount m' = Some (nullish (tm_requestCount m) 0 + 1)"
    "tm_lastUsedAt m' = Some (ci_usedAt input)" "tm_maxRequests m' = tm_maxRequests m"
    "counter_state_ok m'" "same_but_usage m m'"
    "cr_hotpCountersRemaining r = Some (Min (remaining_uses (tm_segments m')))"
    "terminal m' \<longleftrightarrow> 0 \<in> remaining_uses (tm_segments m')"
proof -
  let ?us = "ci_counterMatches input" and ?n = "nullish (tm_requestCount m) 0"
  define ss where "ss = apply_matches ?us (tm_segments m)"
  have ok: "counter_state_ok m" "\<not> terminal m" and us: "distinct (map fst ?us)"
    "\<forall>(sid, c) \<in> set ?us. counter_level (tm_segments m) sid \<le> c \<and> 0 \<le> c \<and> c < TSK_MAX_HOTP_COUNTER"
    and len: "length ?us = length (hotp_segments m)"
    and ex: "case tm_expiresAt m of None \<Rightarrow> True | Some e \<Rightarrow> ci_usedAt input \<le> e"
    and mx: "case tm_maxRequests m of None \<Rightarrow> True | Some mx \<Rightarrow> 0 < mx \<longrightarrow> ?n < mx"
    using assms by (auto simp: commit_admissible_def)
  have chk: "commit_checks (tm_segments m) [] ?us = None"
    using us by (simp add: commit_checks_None_iff)
  have val: "counters_valid ss"
    unfolding ss_def using ok us by (intro counters_valid_apply_matches) (auto simp: counter_state_ok_def)
  have "length (filter (\<lambda>s. seg_type s = Hotp) ss) = length (hotp_segments m)"
    unfolding ss_def by (rule hotp_filter_types) simp
  with ok have h: "filter (\<lambda>s. seg_type s = Hotp) ss \<noteq> []" by (auto simp: counter_state_ok_def)
  then have ne: "remaining_uses ss \<noteq> {}" by (simp add: remaining_uses_empty_iff)
  define R where "R = Min (remaining_uses ss)"
  have R: "0 \<le> R" "R = 0 \<longleftrightarrow> 0 \<in> remaining_uses ss"
    using Min_in [OF finite_remaining_uses ne] remaining_uses_nonneg [OF val] Min_remaining_zero [OF val ne]
    by (auto simp: R_def)
  define m1 where "m1 = m\<lparr>tm_segments := ss, tm_requestCount := Some (?n + 1), tm_lastUsedAt := Some (ci_usedAt input)\<rparr>"
  have mn: "minimumHOTPUsesRemaining ss = Inr (Some R)"
    using minimumHOTPUsesRemaining_valid [OF val] ne by (simp add: R_def)
  obtain m2 rr where m2: "reconcileTumblerMapCounterStatus m1 R = (m2, rr)" by force
  have m2s: "tm_segments m2 = ss" "tm_requestCount m2 = Some (?n + 1)" "tm_maxRequests m2 = tm_maxRequests m"
    "tm_lastUsedAt m2 = Some (ci_usedAt input)"
    "terminal m2 \<longleftrightarrow> R = 0" "warning_ok m2" "same_but_usage m m2"
    using m2 ok
    by (auto simp: reconcileTumblerMapCounterStatus_def m1_def terminal_def counter_state_ok_def warning_ok_def
        same_but_usage_def Let_def split: if_splits)
  define fin where "fin = (case tm_maxRequests m of
       None \<Rightarrow> (m2, None, False)
     | Some mx \<Rightarrow>
         if 0 < mx
         then let rem = max 0 (mx - (?n + 1)); req = (rem \<le> usage_window m2 mx)
              in (if req \<and> 0 < R then m2\<lparr>tm_status := Some Expiring\<rparr> else m2, Some rem, req)
         else (m2, None, False))"
  obtain m3 rq ur where fin3: "fin = (m3, rq, ur)" by (cases fin) auto
  have m3s: "tm_segments m3 = ss" "tm_requestCount m3 = Some (?n + 1)" "tm_maxRequests m3 = tm_maxRequests m"
    "tm_lastUsedAt m3 = Some (ci_usedAt input)" "terminal m3 \<longleftrightarrow> R = 0" "warning_ok m3" "same_but_usage m m3"
    using fin3 m2s R
    by (auto simp: fin_def terminal_def warning_ok_def Let_def split: option.splits if_splits
        intro: same_but_usage_trans same_but_usage_status)
  have eq: "commitValidationToMap m input = (m3, Inr \<lparr>cr_ok = True, cr_error = None, cr_requestCount = Some (?n + 1),
      cr_requestsRemaining = rq, cr_hotpCountersRemaining = Some R, cr_rotationRequired = Some (ur \<or> rr)\<rparr>)"
  proof -
    have "assertTumblerMapCounterState m = Inr ()" using ok by (simp add: assertTumblerMapCounterState_iff)
    moreover have "\<not> (case tm_expiresAt m of None \<Rightarrow> False | Some e \<Rightarrow> e < ci_usedAt input)"
      using ex by (auto split: option.splits)
    moreover have "\<not> (case tm_maxRequests m of None \<Rightarrow> False | Some mx \<Rightarrow> 0 < mx \<and> mx \<le> ?n)"
      using mx by (auto split: option.splits)
    ultimately show ?thesis
      using ok(2) chk len mn m2 fin3 m2s(3)
      by (simp add: commitValidationToMap_def Let_def terminal_def flip: ss_def m1_def fin_def)
  qed
  show ?thesis
    by (rule that [OF eq]) (use m3s val h R in \<open>auto simp: ss_def counter_state_ok_def R_def\<close>)
qed

lemma commit_fail_ok [simp]: "\<not> cr_ok (commit_fail e)" "cr_error (commit_fail e) = Some e"
  by (simp_all add: commit_fail_def)

lemma commit_rejected:
  assumes "\<not> commit_admissible m input"
  obtains e where
    "commitValidationToMap m input = (m, Inr (commit_fail e))"
  | e where "counter_state_ok m" "\<not> terminal m"
    "commitValidationToMap m input = (m\<lparr>tm_status := Some Expired\<rparr>, Inr (commit_fail e))"
proof -
  let ?late = "case tm_expiresAt m of None \<Rightarrow> False | Some e \<Rightarrow> e < ci_usedAt input"
  let ?cap = "case tm_maxRequests m of None \<Rightarrow> False | Some mx \<Rightarrow> 0 < mx \<and> mx \<le> nullish (tm_requestCount m) 0"
  let ?us = "ci_counterMatches input"
  consider (bad) e where "assertTumblerMapCounterState m = Inl e"
    | (ok) "counter_state_ok m" "assertTumblerMapCounterState m = Inr ()"
    by (cases rule: assertTumblerMapCounterState_cases [of m]) auto
  then show thesis
  proof cases
    case bad
    then show thesis by (intro that(1)) (simp add: commitValidationToMap_def)
  next
    case ok
    note unfold = commitValidationToMap_def ok(2) terminal_def Let_def
    show thesis
    proof (cases "terminal m")
      case True
      then consider "tm_status m = Some Expired" | "tm_status m = Some Revoked" by (auto simp: terminal_def)
      then show thesis by cases (rule that(1), simp add: unfold)+
    next
      case live: False
      then have st: "tm_status m \<noteq> Some Revoked" "tm_status m \<noteq> Some Expired" by (auto simp: terminal_def)
      show thesis
      proof (cases "?late \<or> ?cap")
        case True
        then show thesis
          by (cases ?late) (rule that(2) [OF ok(1) live], simp add: unfold st)+
      next
        case False
        then have no: "\<not> ?late" "\<not> ?cap" by simp_all
        have "case tm_expiresAt m of None \<Rightarrow> True | Some e \<Rightarrow> ci_usedAt input \<le> e"
          "case tm_maxRequests m of None \<Rightarrow> True | Some mx \<Rightarrow> 0 < mx \<longrightarrow> nullish (tm_requestCount m) 0 < mx"
          using no by (auto split: option.splits)
        then have adm: "length ?us = length (hotp_segments m) \<Longrightarrow> commit_checks (tm_segments m) [] ?us \<noteq> None"
          using assms ok(1) live unfolding commit_admissible_def commit_checks_None_iff by simp
        show thesis
        proof (cases "length ?us = length (hotp_segments m)")
          case True
          with adm obtain e where "commit_checks (tm_segments m) [] ?us = Some e" by blast
          with True show thesis
            by (cases "e = TSK_HOTP_COUNTER_EXHAUSTED")
              (rule that(2) [OF ok(1) live] that(1), simp add: unfold st no)+
        qed (rule that(1), simp add: unfold st no)
      qed
    qed
  qed
qed


lemma commit_never_throws: "\<exists>m' r. commitValidationToMap m input = (m', Inr r)"
proof (cases "commit_admissible m input")
  case True
  then show ?thesis by (elim commit_ok) blast
next
  case False
  then show ?thesis by (cases rule: commit_rejected [OF False]) auto
qed

lemma commit_success_iff:
  assumes "commitValidationToMap m input = (m', Inr r)"
  shows "cr_ok r \<longleftrightarrow> commit_admissible m input"
proof (cases "commit_admissible m input")
  case True
  with assms show ?thesis by (auto elim: commit_ok)
next
  case False
  then show ?thesis using assms by (cases rule: commit_rejected [OF False]) auto
qed

lemma commit_levels:
  assumes "commit_admissible m input"
  shows "counter_level (tm_segments m) sid \<le> counter_level (apply_matches (ci_counterMatches input) (tm_segments m)) sid"
    and "(sid, c) \<in> set (ci_counterMatches input) \<Longrightarrow>
      counter_level (tm_segments m) sid \<le> c \<and>
      counter_level (apply_matches (ci_counterMatches input) (tm_segments m)) sid = c + 1"
proof -
  have us: "distinct (map fst (ci_counterMatches input))"
    "\<forall>(sid, c) \<in> set (ci_counterMatches input). counter_level (tm_segments m) sid \<le> c \<and> c < TSK_MAX_HOTP_COUNTER"
    using assms by (auto simp: commit_admissible_def)
  note eq = counter_level_apply_matches [OF us]
  show "counter_level (tm_segments m) sid \<le> counter_level (apply_matches (ci_counterMatches input) (tm_segments m)) sid"
    using us(2) unfolding eq by (auto split: option.splits dest!: map_of_SomeD)
  show "(sid, c) \<in> set (ci_counterMatches input) \<Longrightarrow> counter_level (tm_segments m) sid \<le> c \<and>
      counter_level (apply_matches (ci_counterMatches input) (tm_segments m)) sid = c + 1"
    using us unfolding eq by auto
qed

lemma counter_state_ok_status: "counter_state_ok m \<Longrightarrow> counter_state_ok (m\<lparr>tm_status := Some Expired\<rparr>)"
  by (auto simp: counter_state_ok_def warning_ok_def terminal_def)

text \<open>What every operation on one map keeps: the counter state, the segments' identities, and that
  no counter goes down.\<close>

definition evolves :: "TumblerMap \<Rightarrow> TumblerMap \<Rightarrow> bool" where
  "evolves m m' \<longleftrightarrow>
     (counter_state_ok m \<longrightarrow> counter_state_ok m') \<and>
     map seg_id (tm_segments m') = map seg_id (tm_segments m) \<and>
     map seg_type (tm_segments m') = map seg_type (tm_segments m) \<and>
     tm_clientId m' = tm_clientId m \<and> tm_createdAt m' = tm_createdAt m \<and>
     (terminal m \<longrightarrow> terminal m') \<and>
     (counter_state_ok m \<longrightarrow> distinct (map seg_id (tm_segments m)) \<longrightarrow>
        (\<forall>sid. counter_level (tm_segments m) sid \<le> counter_level (tm_segments m') sid))"

lemma evolves_refl [simp]: "evolves m m"
  by (simp add: evolves_def)

lemma evolves_expired [simp]: "evolves m (m\<lparr>tm_status := Some Expired\<rparr>)"
  by (auto simp: evolves_def counter_state_ok_status terminal_def)

lemma commit_evolves:
  assumes "commitValidationToMap m input = (m', r)"
  shows "evolves m m'"
proof (cases "commit_admissible m input")
  case True
  then obtain m'' r' where m'': "commitValidationToMap m input = (m'', Inr r')"
    "tm_segments m'' = apply_matches (ci_counterMatches input) (tm_segments m)"
    "counter_state_ok m''" "same_but_usage m m''" by (rule commit_ok)
  have "counter_level (tm_segments m) sid \<le> counter_level (tm_segments m'') sid" for sid
    using commit_levels(1) [OF True] by (simp add: m''(2))
  moreover have "\<not> terminal m" using True by (simp add: commit_admissible_def)
  moreover have "tm_clientId m'' = tm_clientId m" "tm_createdAt m'' = tm_createdAt m"
    using same_but_usage_simps [OF m''(4)] by simp_all
  ultimately show ?thesis
    using assms m'' by (simp add: evolves_def)
next
  case False
  then show ?thesis using assms by (cases rule: commit_rejected [OF False]) auto
qed

section \<open>The other counter operations\<close>

lemma segment_find_ref: "distinct (map seg_id ss) \<Longrightarrow> segment_find ss sid = segment_ref ss sid"
proof (induction ss)
  case (Cons s ss)
  then show ?case
    using segment_ref_None_iff [of ss sid] by (auto simp: segment_find_def segment_ref_Cons split: option.splits)
qed (simp add: segment_find_def)

lemma set_counter_first_ref: "distinct (map seg_id ss) \<Longrightarrow> set_counter_first sid c ss = set_counter_ref sid c ss"
proof (induction ss)
  case (Cons s ss)
  then have "sid \<notin> seg_id ` set ss" if "seg_id s = sid" using that by auto
  with Cons show ?case by auto
qed simp

lemma set_counter_first_ids [simp]:
  "map seg_id (set_counter_first sid c ss) = map seg_id ss"
  "map seg_type (set_counter_first sid c ss) = map seg_type ss"
  by (induction ss) auto

lemma counters_valid_set_counter_first:
  "counters_valid ss \<Longrightarrow> 0 \<le> c \<Longrightarrow> c \<le> TSK_MAX_HOTP_COUNTER \<Longrightarrow> counters_valid (set_counter_first sid c ss)"
  by (induction ss) auto

lemma segment_ref_map:
  "(\<And>s. seg_id (f s) = seg_id s) \<Longrightarrow> segment_ref (map f ss) sid = map_option f (segment_ref ss sid)"
  by (induction ss) (auto simp: segment_ref_Cons split: option.splits)

lemma apply_update_simps [simp]:
  "seg_id (apply_update us s) = seg_id s" "seg_type (apply_update us s) = seg_type s"
  by (simp_all add: apply_update_def split: option.splits)

lemma update_check_Inr_iff:
  "distinct (map seg_id ss) \<Longrightarrow>
   update_check ss (sid, c) = Inr u \<longleftrightarrow>
     (\<exists>s. segment_ref ss sid = Some s \<and> seg_type s = Hotp \<and> stored_counter s \<le> c \<and> 0 \<le> c \<and> c \<le> TSK_MAX_HOTP_COUNTER)"
  by (auto simp: update_check_def segment_find_ref bind_res_Inr_iff split: option.splits)

lemma reconcile_remaining_ok:
  assumes val: "counters_valid (tm_segments m)" and h: "hotp_segments m \<noteq> []" and w: "warning_ok m"
  obtains m' where "reconcile_remaining m = (m', Inr ())" "counter_state_ok m'" "tm_segments m' = tm_segments m"
    "same_but_usage m m'" "terminal m \<Longrightarrow> terminal m'"
proof -
  define R where "R = Min (remaining_uses (tm_segments m))"
  have ne: "remaining_uses (tm_segments m) \<noteq> {}" using h by (simp add: remaining_uses_empty_iff)
  have eq: "minimumHOTPUsesRemaining (tm_segments m) = Inr (Some R)"
    using minimumHOTPUsesRemaining_valid [OF val] ne by (simp add: R_def)
  let ?m = "fst (reconcileTumblerMapCounterStatus m R)"
  have "warning_ok ?m" using w by (simp add: warning_ok_def)
  moreover have "0 \<in> remaining_uses (tm_segments m) \<Longrightarrow> R = 0"
    using Min_remaining_zero [OF val ne] by (simp add: R_def)
  ultimately have "counter_state_ok ?m" using val h by (auto simp: counter_state_ok_def)
  moreover have "same_but_usage m ?m"
    by (auto simp: reconcileTumblerMapCounterStatus_def same_but_usage_def Let_def)
  ultimately show ?thesis using that [of ?m] by (auto simp: reconcile_remaining_def eq)
qed

lemma warning_ok_segments [simp]: "warning_ok (m\<lparr>tm_segments := ss\<rparr>) = warning_ok m"
  by (simp add: warning_ok_def)

lemma hotp_nonempty_types:
  "map seg_type ss = map seg_type ts \<Longrightarrow> filter (\<lambda>s. seg_type s = Hotp) ss = [] \<longleftrightarrow> filter (\<lambda>s. seg_type s = Hotp) ts = []"
  using hotp_filter_types [of ss ts] by (metis length_0_conv)

text \<open>Writing new segments with valid, not lower counters and reconciling the status.\<close>

lemma write_segments_evolves:
  assumes r: "reconcile_remaining (m\<lparr>tm_segments := ss\<rparr>) = (m', r)"
    and ok: "counter_state_ok m" and ids: "map seg_id ss = map seg_id (tm_segments m)"
    and types: "map seg_type ss = map seg_type (tm_segments m)" and val: "counters_valid ss"
    and up: "\<And>sid. counter_level (tm_segments m) sid \<le> counter_level ss sid"
  shows "evolves m m' \<and> tm_segments m' = ss \<and> r = Inr ()"
proof -
  have "hotp_segments (m\<lparr>tm_segments := ss\<rparr>) \<noteq> []"
    using hotp_nonempty_types [OF types] ok by (simp add: counter_state_ok_def)
  with val ok obtain m'' where "reconcile_remaining (m\<lparr>tm_segments := ss\<rparr>) = (m'', Inr ())" "counter_state_ok m''"
    "tm_segments m'' = ss" "same_but_usage (m\<lparr>tm_segments := ss\<rparr>) m''"
    "terminal (m\<lparr>tm_segments := ss\<rparr>) \<Longrightarrow> terminal m''"
    using reconcile_remaining_ok [of "m\<lparr>tm_segments := ss\<rparr>"] by (auto simp: counter_state_ok_def)
  with r show ?thesis
    using ids types up same_but_usage_simps [of "m\<lparr>tm_segments := ss\<rparr>" m'']
    by (auto simp: evolves_def terminal_def)
qed

lemma update_map_evolves:
  assumes eq: "update_map_counters m us = (m', r)" and ok: "counter_state_ok m" and dist: "distinct (map seg_id (tm_segments m))"
  shows "evolves m m'"
proof (cases "check_all (update_check (tm_segments m)) us")
  case (Inr u)
  let ?ss = "map (apply_update us) (tm_segments m)"
  have chk: "\<exists>s. segment_ref (tm_segments m) sid = Some s \<and> seg_type s = Hotp \<and> stored_counter s \<le> c \<and> 0 \<le> c \<and> c \<le> TSK_MAX_HOTP_COUNTER"
    if "map_of us sid = Some c" for sid c
    using Inr map_of_SomeD [OF that] update_check_Inr_iff [OF dist, of sid c] by (auto simp: check_all_Inr_iff)
  have val: "counters_valid ?ss"
    using ok chk by (fastforce simp: counters_valid_def counter_state_ok_def apply_update_def split: option.splits)
  have "counter_level (tm_segments m) sid \<le> counter_level ?ss sid" for sid
    using chk [of sid] segment_ref_SomeD [of "tm_segments m" sid]
    by (auto simp: counter_level_def segment_ref_map apply_update_def split: option.splits)
  then show ?thesis
    using write_segments_evolves [where ss = ?ss, OF _ ok _ _ val] eq Inr by (simp add: update_map_counters_def comp_def)
qed (use eq in \<open>simp add: update_map_counters_def\<close>)

lemma consume_map_evolves:
  assumes eq: "consume_map_counter m sid c = (m', r)" and ok: "counter_state_ok m" and dist: "distinct (map seg_id (tm_segments m))"
  shows "evolves m m'"
    and "r = Inr True \<Longrightarrow> counter_level (tm_segments m) sid \<le> c \<and> c < counter_level (tm_segments m') sid"
    and "\<exists>b. r = Inr b"
proof -
  let ?ss = "set_counter_first sid (c + 1) (tm_segments m)"
  consider (no) "m' = m \<or> m' = m\<lparr>tm_status := Some Expired\<rparr>" "r = Inr False"
    | (yes) s r1 where "segment_ref (tm_segments m) sid = Some s" "seg_type s = Hotp" "stored_counter s \<le> c"
      "0 \<le> c" "c < TSK_MAX_HOTP_COUNTER" "reconcile_remaining (m\<lparr>tm_segments := ?ss\<rparr>) = (m', r1)"
      "r = bind_res r1 (\<lambda>_. Inr True)"
  proof (cases "segment_ref (tm_segments m) sid")
    case None
    then show thesis using eq no by (simp add: consume_map_counter_def segment_find_ref [OF dist])
  next
    case (Some s)
    show thesis
    proof (cases "seg_type s = Hotp \<and> isUsableHOTPDerivationCounter (int_val (stored_counter s)) \<and>
        isUsableHOTPDerivationCounter (int_val c) \<and> stored_counter s \<le> c")
      case True
      obtain m1 r1 where m1: "reconcile_remaining (m\<lparr>tm_segments := ?ss\<rparr>) = (m1, r1)" by force
      then show thesis
        using eq Some True yes by (simp add: consume_map_counter_def segment_find_ref [OF dist] Let_def)
    next
      case False
      then show thesis
        using eq Some no
        by (auto simp: consume_map_counter_def segment_find_ref [OF dist] Let_def
            simp del: isUsableHOTPDerivationCounter_int split: if_splits)
    qed
  qed
  then have "evolves m m' \<and> (r = Inr True \<longrightarrow> counter_level (tm_segments m) sid \<le> c \<and> c < counter_level (tm_segments m') sid) \<and> (\<exists>b. r = Inr b)"
  proof cases
    case yes
    have lev: "counter_level ?ss k = (if k = sid then c + 1 else counter_level (tm_segments m) k)" for k
      using yes by (simp add: counter_level_def set_counter_first_ref [OF dist] segment_ref_set_counter_ref)
    have c: "counter_level (tm_segments m) sid \<le> c" using yes by (simp add: counter_level_def)
    have val: "counters_valid ?ss"
      using yes ok by (intro counters_valid_set_counter_first) (auto simp: counter_state_ok_def)
    have up: "counter_level (tm_segments m) k \<le> counter_level ?ss k" for k using lev c by simp
    have "evolves m m' \<and> tm_segments m' = ?ss \<and> r1 = Inr ()"
      by (rule write_segments_evolves [OF yes(6) ok _ _ val up]) simp_all
    then show ?thesis using lev c yes(7) by auto
  qed auto
  then show "evolves m m'" "\<exists>b. r = Inr b"
    "r = Inr True \<Longrightarrow> counter_level (tm_segments m) sid \<le> c \<and> c < counter_level (tm_segments m') sid" by auto
qed

section \<open>The store as a counter ledger\<close>

text \<open>The operations that requests, readers and operators run on a store of issued credentials.
  (\<^verbatim>\<open>set\<close> and \<^verbatim>\<open>replaceCredential\<close> introduce whole maps, and their counters, from outside.)\<close>

datatype StoreOp =
    Op_commit string ValidationCommitInput
  | Op_consume string string int
  | Op_update string "(string \<times> int) list"
  | Op_get string int
  | Op_delete string

fun ms_exec :: "StoreOp \<Rightarrow> MemoryTumblerStore \<Rightarrow> MemoryTumblerStore" where
  "ms_exec (Op_commit cid input) st = fst (ms_commitValidation cid input st)"
| "ms_exec (Op_consume cid sid c) st = fst (ms_consumeCounter cid sid c st)"
| "ms_exec (Op_update cid us) st = fst (ms_updateCounters cid us st)"
| "ms_exec (Op_get cid now) st = fst (ms_get cid now st)"
| "ms_exec (Op_delete cid) st = ms_delete cid st"

text \<open>The counter values an operation reports as accepted: those of a successful commit, and the
  one of a successful compare-and-swap.\<close>

fun ms_consumed :: "StoreOp \<Rightarrow> MemoryTumblerStore \<Rightarrow> ((string \<times> string) \<times> int) list" where
  "ms_consumed (Op_commit cid input) st =
     (case snd (ms_commitValidation cid input st) of
        Inr r \<Rightarrow> if cr_ok r then map (\<lambda>(sid, c). ((cid, sid), c)) (ci_counterMatches input) else []
      | Inl _ \<Rightarrow> [])"
| "ms_consumed (Op_consume cid sid c) st =
     (if snd (ms_consumeCounter cid sid c st) = Inr True then [((cid, sid), c)] else [])"
| "ms_consumed _ st = []"

definition ms_level :: "MemoryTumblerStore \<Rightarrow> string \<times> string \<Rightarrow> int" where
  "ms_level st k =
     (case map_of (ms_maps st) (fst k) of
        None \<Rightarrow> TSK_MAX_HOTP_COUNTER
      | Some m \<Rightarrow> counter_level (tm_segments m) (snd k))"

definition maps_ok :: "MemoryTumblerStore \<Rightarrow> bool" where
  "maps_ok st \<longleftrightarrow>
     (\<forall>cid m. map_of (ms_maps st) cid = Some m \<longrightarrow> counter_state_ok m \<and> distinct (map seg_id (tm_segments m)))"

lemma counter_level_le: "counters_valid ss \<Longrightarrow> counter_level ss sid \<le> TSK_MAX_HOTP_COUNTER"
  by (auto simp: counter_level_def counters_valid_def split: option.splits dest!: segment_ref_SomeD)

lemma ms_lru_maps [simp]: "ms_maps (touchLRU cid st) = ms_maps st" "ms_maps (removeLRU cid st) = ms_maps st"
  by (simp_all add: touchLRU_def removeLRU_def)

text \<open>Replacing a stored map by one it evolves to, and removing a map, both keep the contract.\<close>

lemma ms_mutate_ledger:
  assumes "maps_ok st" and "map_of (ms_maps st) cid = Some m" and "evolves m m'"
  shows "maps_ok (ms_mutate cid m' st)" and "ms_level st k \<le> ms_level (ms_mutate cid m' st) k"
proof -
  have m: "counter_state_ok m" "distinct (map seg_id (tm_segments m))" using assms by (auto simp: maps_ok_def)
  with assms show "maps_ok (ms_mutate cid m' st)"
    by (auto simp: maps_ok_def ms_mutate_def evolves_def)
  show "ms_level st k \<le> ms_level (ms_mutate cid m' st) k"
    using assms m by (auto simp: ms_level_def ms_mutate_def evolves_def)
qed

lemma ms_remove_ledger:
  assumes "maps_ok st" and "ms_maps st' = omap_delete cid (ms_maps st)"
  shows "maps_ok st'" and "ms_level st k \<le> ms_level st' k"
  using assms counter_level_le
  by (auto simp: maps_ok_def ms_level_def counter_state_ok_def split: option.splits)

lemma ms_exec_ledger:
  assumes ok: "maps_ok st"
  shows "maps_ok (ms_exec p st) \<and> ms_level st k \<le> ms_level (ms_exec p st) k"
proof (cases p)
  case (Op_commit cid input)
  show ?thesis
  proof (cases "map_of (ms_maps st) cid")
    case (Some m)
    obtain m' r where eq: "commitValidationToMap m input = (m', r)" by force
    show ?thesis
      using ms_mutate_ledger [OF ok Some commit_evolves [OF eq]] Op_commit Some eq by (simp add: ms_commitValidation_def)
  qed (use Op_commit ok in \<open>simp add: ms_commitValidation_def\<close>)
next
  case (Op_consume cid sid c)
  show ?thesis
  proof (cases "map_of (ms_maps st) cid")
    case (Some m)
    obtain m' r where eq: "consume_map_counter m sid c = (m', r)" by force
    have "evolves m m'" by (rule consume_map_evolves(1) [OF eq]) (use ok Some in \<open>auto simp: maps_ok_def\<close>)
    from ms_mutate_ledger [OF ok Some this] show ?thesis using Op_consume Some eq by (simp add: ms_consumeCounter_def)
  qed (use Op_consume ok in \<open>simp add: ms_consumeCounter_def\<close>)
next
  case (Op_update cid us)
  show ?thesis
  proof (cases "map_of (ms_maps st) cid")
    case (Some m)
    obtain m' r where eq: "update_map_counters m us = (m', r)" by force
    have "evolves m m'" by (rule update_map_evolves [OF eq]) (use ok Some in \<open>auto simp: maps_ok_def\<close>)
    from ms_mutate_ledger [OF ok Some this] show ?thesis using Op_update Some eq by (simp add: ms_updateCounters_def)
  qed (use Op_update ok in \<open>simp add: ms_updateCounters_def\<close>)
next
  case (Op_get cid now)
  have "maps_ok (touchLRU cid st)" "ms_level (touchLRU cid st) k = ms_level st k"
    using ok by (simp_all add: maps_ok_def ms_level_def)
  then show ?thesis
    using Op_get ok ms_remove_ledger [OF ok, of "removeLRU cid (st\<lparr>ms_maps := omap_delete cid (ms_maps st)\<rparr>)" cid]
    by (auto simp: ms_get_def split: option.splits)
next
  case (Op_delete cid)
  then show ?thesis
    using ms_remove_ledger [OF ok, of "ms_delete cid st" cid] by (simp add: ms_delete_def)
qed

lemma ms_consumed_level:
  assumes ok: "maps_ok st" and c: "((cid, sid), c) \<in> set (ms_consumed p st)"
  shows "ms_level st (cid, sid) \<le> c \<and> c < ms_level (ms_exec p st) (cid, sid)"
proof -
  consider (commit) input where "p = Op_commit cid input"
    | (consume) "p = Op_consume cid sid c" "snd (ms_consumeCounter cid sid c st) = Inr True"
    using c by (cases p) (auto split: sum.splits if_splits)
  then show ?thesis
  proof cases
    case commit
    then obtain r where r: "snd (ms_commitValidation cid input st) = Inr r" "cr_ok r" "(sid, c) \<in> set (ci_counterMatches input)"
      using c by (cases "snd (ms_commitValidation cid input st)") (auto split: if_splits)
    then obtain m m' where m: "map_of (ms_maps st) cid = Some m" and m': "commitValidationToMap m input = (m', Inr r)"
      by (auto simp: ms_commitValidation_def split: option.splits prod.splits)
    have adm: "commit_admissible m input" using commit_success_iff [OF m'] r by simp
    have "tm_segments m' = apply_matches (ci_counterMatches input) (tm_segments m)"
      using m' by (auto intro: commit_ok [OF adm])
    with commit_levels(2) [OF adm r(3)] show ?thesis
      using commit m m' by (simp add: ms_level_def ms_commitValidation_def ms_mutate_def)
  next
    case consume
    then obtain m m' where m: "map_of (ms_maps st) cid = Some m" and m': "consume_map_counter m sid c = (m', Inr True)"
      by (auto simp: ms_consumeCounter_def split: option.splits prod.splits)
    with ok consume_map_evolves(2) [OF m'] consume(1) show ?thesis
      by (auto simp: maps_ok_def ms_level_def ms_consumeCounter_def ms_mutate_def)
  qed
qed

lemma ms_consumed_distinct:
  assumes "maps_ok st"
  shows "distinct (ms_consumed p st)"
proof (cases p)
  case (Op_commit cid input)
  show ?thesis
  proof (cases "ms_consumed p st = []")
    case False
    with Op_commit obtain r where r: "snd (ms_commitValidation cid input st) = Inr r" "cr_ok r"
      and eq: "ms_consumed p st = map (\<lambda>(sid, c). ((cid, sid), c)) (ci_counterMatches input)"
      by (cases "snd (ms_commitValidation cid input st)") (auto split: if_splits)
    then obtain m m' where "commitValidationToMap m input = (m', Inr r)"
      by (auto simp: ms_commitValidation_def split: option.splits prod.splits)
    with r have "distinct (map fst (ci_counterMatches input))"
      using commit_success_iff by (fastforce simp: commit_admissible_def)
    then have "distinct (ci_counterMatches input)" by (simp add: distinct_map)
    then show ?thesis unfolding eq by (auto simp: distinct_map inj_on_def)
  qed simp
qed auto

interpretation mem: counter_ledger ms_exec ms_consumed ms_level maps_ok
  by unfold_locales (use ms_exec_ledger ms_consumed_level ms_consumed_distinct in auto)

text \<open>C20: no counter value is accepted twice. Whatever sequence of commits, compare-and-swaps, counter
  updates, reads and deletions runs on a store of well-formed maps, in whatever order the
  requests interleave, all the (client, segment, counter) triples accepted along the way are different.\<close>

theorem no_counter_consumed_twice:
  assumes "maps_ok st"
  shows "distinct (concat (consumption ms_exec ms_consumed ops st))"
  using assms by (rule mem.consumed_once)

text \<open>Along every such sequence the well-formedness of the stored maps is kept and no stored counter
  ever decreases.\<close>

theorem counters_never_decrease:
  assumes "maps_ok st"
  shows "maps_ok (run_ops ms_exec ops st) \<and> ms_level st k \<le> ms_level (run_ops ms_exec ops st) k"
  using mem.inv_run [OF assms] mem.level_run [OF assms] by blast

section \<open>Bounds of the in-memory store\<close>

definition store_inv :: "MemoryTumblerStore \<Rightarrow> bool" where
  "store_inv st \<longleftrightarrow>
     distinct (omap_keys (ms_maps st)) \<and> distinct (ms_accessOrder st) \<and>
     set (ms_accessOrder st) = set (omap_keys (ms_maps st)) \<and>
     int (length (ms_maps st)) \<le> max 0 (ms_maxEntries st)"

lemma map_of_keys: "map_of xs k = Some v \<Longrightarrow> k \<in> set (omap_keys xs)"
  by (metis omap_has_keys option.distinct(1))

lemma store_inv_touch: "map_of (ms_maps st) cid = Some m \<Longrightarrow> store_inv st \<Longrightarrow> store_inv (touchLRU cid st)"
  by (drule map_of_keys) (auto simp: store_inv_def touchLRU_def)

lemma store_inv_remove: "store_inv st \<Longrightarrow> store_inv (removeLRU cid (st\<lparr>ms_maps := omap_delete cid (ms_maps st)\<rparr>))"
  using length_omap_delete_le [of cid "ms_maps st"]
  by (auto simp: store_inv_def removeLRU_def omap_keys_delete)

lemma store_inv_mutate:
  "map_of (ms_maps st) cid = Some m \<Longrightarrow> store_inv st \<Longrightarrow> store_inv (ms_mutate cid m' st)"
  by (drule map_of_keys) (auto simp: store_inv_def ms_mutate_def omap_keys_set length_omap_set)

lemma store_inv_insert:
  assumes "store_inv st" and "omap_has cid (ms_maps st) \<or> int (length (ms_maps st)) < ms_maxEntries st"
  shows "store_inv (touchLRU cid (st\<lparr>ms_maps := omap_set cid m (ms_maps st)\<rparr>))"
  using assms omap_has_keys [of "ms_maps st" cid]
  by (auto simp: store_inv_def touchLRU_def omap_keys_set length_omap_set)

lemma store_inv_set: "store_inv st \<Longrightarrow> store_inv (fst (ms_set cid m st))"
proof -
  assume inv: "store_inv st"
  show ?thesis
  proof (cases "\<not> omap_has cid (ms_maps st) \<and> ms_maxEntries st \<le> int (length (ms_maps st))")
    case False
    then have "omap_has cid (ms_maps st) \<or> int (length (ms_maps st)) < ms_maxEntries st" by linarith
    from store_inv_insert [OF inv this] inv False show ?thesis
      by (cases "assertTumblerMapCounterState m") (simp_all add: ms_set_def)
  qed (use inv in \<open>simp add: ms_set_def\<close>)
qed

lemma store_inv_exec: "store_inv st \<Longrightarrow> store_inv (ms_exec p st)"
  by (cases p)
    (auto simp: ms_commitValidation_def ms_consumeCounter_def ms_updateCounters_def ms_get_def ms_delete_def
      store_inv_remove store_inv_touch store_inv_mutate split: option.splits prod.splits)

lemma store_inv_replace: "store_inv st \<Longrightarrow> store_inv (fst (ms_replaceCredential old m st))"
proof -
  assume inv: "store_inv st"
  define st1 where "st1 = (\<lambda>current. ms_mutate old (current\<lparr>tm_status := Some Revoked\<rparr>) st)"
  define st2 where "st2 = (\<lambda>current. if ms_maxEntries (st1 current) \<le> int (length (ms_maps (st1 current)))
    then removeLRU old ((st1 current)\<lparr>ms_maps := omap_delete old (ms_maps (st1 current))\<rparr>) else st1 current)"
  have "store_inv (st2 current)" if "map_of (ms_maps st) old = Some current" for current
    using store_inv_remove [of "st1 current" old] store_inv_mutate [OF that inv] by (simp add: st1_def st2_def)
  then have "store_inv (fst (ms_set (tm_clientId m) m (st2 current)))" if "map_of (ms_maps st) old = Some current" for current
    using that store_inv_set by blast
  moreover have "fst (ms_replaceCredential old m st) = st \<or>
      (\<exists>current. map_of (ms_maps st) old = Some current \<and>
         fst (ms_replaceCredential old m st) = fst (ms_set (tm_clientId m) m (st2 current)))"
    unfolding st1_def [symmetric] ms_replaceCredential_def Let_def
    by (cases "assertTumblerMapCounterState m"; cases "map_of (ms_maps st) old")
      (simp_all add: case_prod_beta st2_def st1_def)
  ultimately show ?thesis using inv by auto
qed

text \<open>The in-memory store stays bounded and consistent. No operation lets it exceed its configured
  number of entries, stores a client twice, or lets the access-order list differ from the set
  of stored clients.\<close>

theorem store_invariant_preserved:
  assumes "store_inv st"
  shows "store_inv (fst (ms_set cid m st)) \<and> store_inv (fst (ms_replaceCredential cid m st)) \<and>
    store_inv (ms_exec p st)"
  using assms store_inv_set store_inv_replace store_inv_exec by blast

text \<open>Storing never evicts. A \<^verbatim>\<open>set\<close> leaves every other client's map untouched, whatever its
  outcome; it fails exactly when a new client meets a full store or the counter state is invalid, and
  then changes nothing; after a success a read within the maximum age returns the stored map.\<close>

lemma set_never_evicts:
  "(\<forall>cid'. cid' \<noteq> cid \<longrightarrow> map_of (ms_maps (fst (ms_set cid m st))) cid' = map_of (ms_maps st) cid') \<and>
   ((\<exists>e. snd (ms_set cid m st) = Inl e) \<longleftrightarrow>
      (\<not> omap_has cid (ms_maps st) \<and> ms_maxEntries st \<le> int (length (ms_maps st))) \<or> \<not> counter_state_ok m) \<and>
   (if snd (ms_set cid m st) = Inr ()
    then ms_maxAgeMs st \<le> 0 \<or> now - tm_createdAt m \<le> ms_maxAgeMs st \<longrightarrow>
         snd (ms_get cid now (fst (ms_set cid m st))) = Some m
    else fst (ms_set cid m st) = st)"
proof (cases "\<not> omap_has cid (ms_maps st) \<and> ms_maxEntries st \<le> int (length (ms_maps st))")
  case True
  then show ?thesis by (simp add: ms_set_def)
next
  case False
  then show ?thesis
    by (cases rule: assertTumblerMapCounterState_cases [of m])
      (auto simp: ms_set_def ms_get_def touchLRU_def)
qed

section \<open>The usage cap\<close>

text \<open>A run of commits on one map, with the number of successes.\<close>

fun commit_run :: "TumblerMap \<Rightarrow> ValidationCommitInput list \<Rightarrow> TumblerMap \<times> nat" where
  "commit_run m [] = (m, 0)"
| "commit_run m (i # is) =
     (let (m1, r) = commitValidationToMap m i;
          (m2, n) = commit_run m1 is
      in (m2, (case r of Inr cr \<Rightarrow> if cr_ok cr then Suc n else n | Inl _ \<Rightarrow> n)))"

text \<open>The usage cap holds exactly. Of any sequence of commits on a capped map, at most as many
  succeed as the cap leaves, and the request count reports them.\<close>

theorem usage_cap_respected:
  assumes "tm_maxRequests m = Some mx" and "0 < mx" and "commit_run m is = (m', n)"
  shows "int n \<le> max 0 (mx - nullish (tm_requestCount m) 0) \<and>
    nullish (tm_requestCount m') 0 = nullish (tm_requestCount m) 0 + int n"
  using assms
proof (induction "is" arbitrary: m n)
  case (Cons i "is")
  obtain m1 n1 where run: "commit_run (fst (commitValidationToMap m i)) is = (m1, n1)" by force
  show ?case
  proof (cases "commit_admissible m i")
    case True
    then have lt: "nullish (tm_requestCount m) 0 < mx"
      using Cons.prems(1,2) by (simp add: commit_admissible_def)
    obtain m2 r where c: "commitValidationToMap m i = (m2, Inr r)" "cr_ok r"
      "tm_requestCount m2 = Some (nullish (tm_requestCount m) 0 + 1)" "tm_maxRequests m2 = tm_maxRequests m"
      using commit_ok [OF True] by metis
    have "int n1 \<le> max 0 (mx - (nullish (tm_requestCount m) 0 + 1)) \<and>
        nullish (tm_requestCount m1) 0 = nullish (tm_requestCount m) 0 + 1 + int n1"
      using Cons.IH [of m2 n1] Cons.prems c run by (auto simp: Let_def case_prod_beta)
    then show ?thesis using Cons.prems(3) c run lt by (auto simp: Let_def case_prod_beta)
  next
    case False
    obtain m2 e where c: "commitValidationToMap m i = (m2, Inr (commit_fail e))"
      "tm_requestCount m2 = tm_requestCount m" "tm_maxRequests m2 = tm_maxRequests m"
      by (cases rule: commit_rejected [OF False]) auto
    then show ?thesis
      using Cons.IH [of m2 n1] Cons.prems run by (auto simp: Let_def case_prod_beta)
  qed
qed simp

section \<open>Examples\<close>

definition example_store :: MemoryTumblerStore where
  "example_store = fst (ms_set ''tsk_0'' example_map (new_MemoryTumblerStore None None))"

definition example_commit :: "int \<Rightarrow> ValidationCommitInput" where
  "example_commit c = \<lparr>ci_counterMatches = [(''seg_3'', c)], ci_usedAt = 1000\<rparr>"

lemma example_map_state: "counter_state_ok example_map" "distinct (map seg_id (tm_segments example_map))"
  by (simp_all add: counter_state_ok_def example_map_def example_segments_def warning_ok_def TSK_MAX_HOTP_COUNTER_def)

lemma example_store_maps: "ms_maps example_store = [(''tsk_0'', example_map)]"
proof -
  have "assertTumblerMapCounterState example_map = Inr ()"
    using example_map_state by (simp add: assertTumblerMapCounterState_iff)
  then show ?thesis by (simp add: example_store_def ms_set_def new_MemoryTumblerStore_def)
qed

lemma example_store_ok: "maps_ok example_store"
  using example_map_state by (simp add: maps_ok_def example_store_maps)

lemma new_store_inv: "store_inv (new_MemoryTumblerStore a b)"
  by (simp add: store_inv_def new_MemoryTumblerStore_def)

theorem no_counter_consumed_twice_witness:
  "maps_ok example_store \<and>
   distinct (concat (consumption ms_exec ms_consumed
     [Op_commit ''tsk_0'' (example_commit 4), Op_commit ''tsk_0'' (example_commit 4)] example_store)) \<and>
   consumption ms_exec ms_consumed
     [Op_commit ''tsk_0'' (example_commit 4), Op_commit ''tsk_0'' (example_commit 4)] example_store =
     [[((''tsk_0'', ''seg_3''), 4)], []]"
proof -
  have "consumption ms_exec ms_consumed
     [Op_commit ''tsk_0'' (example_commit 4), Op_commit ''tsk_0'' (example_commit 4)] example_store =
     [[((''tsk_0'', ''seg_3''), 4)], []]"
    by code_simp
  then show ?thesis using example_store_ok no_counter_consumed_twice [OF example_store_ok] by blast
qed

theorem counters_never_decrease_witness:
  "maps_ok example_store \<and>
   ms_level example_store (''tsk_0'', ''seg_3'') = 4 \<and>
   4 \<le> ms_level (run_ops ms_exec [Op_commit ''tsk_0'' (example_commit 6)] example_store) (''tsk_0'', ''seg_3'')"
proof -
  have "ms_level example_store (''tsk_0'', ''seg_3'') = 4"
    by (simp add: ms_level_def example_store_maps counter_level_def example_segments_def segment_ref_def)
  then show ?thesis
    using example_store_ok counters_never_decrease [OF example_store_ok, where k = "(''tsk_0'', ''seg_3'')"] by metis
qed

theorem store_invariant_preserved_witness:
  "store_inv (new_MemoryTumblerStore (Some 1) None) \<and>
   store_inv (fst (ms_set ''tsk_0'' example_map (new_MemoryTumblerStore (Some 1) None)))"
  using new_store_inv store_invariant_preserved [OF new_store_inv] by blast

lemma set_never_evicts_witness:
  "snd (ms_set ''tsk_0'' example_map (new_MemoryTumblerStore None None)) = Inr () \<and>
   snd (ms_get ''tsk_0'' 1000 (fst (ms_set ''tsk_0'' example_map (new_MemoryTumblerStore None None)))) = Some example_map"
proof -
  have "snd (ms_set ''tsk_0'' example_map (new_MemoryTumblerStore None None)) = Inr ()"
    by code_simp
  then show ?thesis
    using set_never_evicts [where cid = "''tsk_0''" and m = example_map and
        st = "new_MemoryTumblerStore None None" and now = 1000]
    by (simp add: new_MemoryTumblerStore_def example_map_def)
qed

theorem usage_cap_respected_witness:
  "\<exists>m' n. commit_run (example_map\<lparr>tm_maxRequests := Some 1\<rparr>) [example_commit 4, example_commit 5] = (m', n) \<and>
     n \<le> 1 \<and> nullish (tm_requestCount m') 0 = int n"
proof -
  obtain m' n where run: "commit_run (example_map\<lparr>tm_maxRequests := Some 1\<rparr>) [example_commit 4, example_commit 5] = (m', n)"
    by force
  show ?thesis
    using run usage_cap_respected [OF _ _ run, of 1] by (simp add: example_map_def)
qed

end
