(* ===== verification/Anomaly.thy ===== *)
theory Anomaly
  imports Validate
begin

text \<open>
  \<^verbatim>\<open>packages/server/src/anomaly.ts\<close>: the in-memory anomaly engine. A \<^verbatim>\<open>Set\<close> is a list without
  repetition in insertion order; an empty string is falsy wherever the code tests a string.
\<close>

section \<open>The engine\<close>

datatype FailureKind = Checksum_invalid | Segment_validation_failed

record SegmentFailureEvent =
  ev_clientId :: string
  ev_timestamp :: int
  ev_segmentResults :: "SegmentResult list"
  ev_failureKind :: "FailureKind option"
  ev_ipAddress :: "string option"

datatype AnomalyVerdict = Clean | Suspicious | Attack

record AnomalyScore =
  as_score :: int
  as_verdict :: AnomalyVerdict
  as_reasons :: "string list"

record AnomalyConfig =
  ac_windowMs :: int
  ac_maxEntries :: int
  ac_maxEventsPerClient :: int
  ac_highRateThreshold :: int
  ac_mediumRateThreshold :: int
  ac_highRateScore :: int
  ac_mediumRateScore :: int
  ac_stolenKeyScore :: int
  ac_stolenKeySingleScore :: int
  ac_totalFailureScore :: int
  ac_attackThreshold :: int
  ac_suspiciousThreshold :: int

definition default_anomaly_config :: AnomalyConfig where
  "default_anomaly_config =
     \<lparr>ac_windowMs = 5 * 60 * 1000, ac_maxEntries = 10000, ac_maxEventsPerClient = 1000,
      ac_highRateThreshold = 10, ac_mediumRateThreshold = 3, ac_highRateScore = 40,
      ac_mediumRateScore = 15, ac_stolenKeyScore = 50, ac_stolenKeySingleScore = 20,
      ac_totalFailureScore = 30, ac_attackThreshold = 70, ac_suspiciousThreshold = 30\<rparr>"

record MemoryAnomalyEngine =
  ae_failures :: "(string \<times> SegmentFailureEvent list) list"
  ae_ipFailures :: "(string \<times> string list) list"
  ae_accessOrder :: "string list"
  ae_config :: AnomalyConfig

definition new_MemoryAnomalyEngine :: "AnomalyConfig \<Rightarrow> MemoryAnomalyEngine" where
  "new_MemoryAnomalyEngine cfg = \<lparr>ae_failures = [], ae_ipFailures = [], ae_accessOrder = [], ae_config = cfg\<rparr>"

definition truthy :: "string option \<Rightarrow> bool" where
  "truthy s = (case s of None \<Rightarrow> False | Some t \<Rightarrow> t \<noteq> [])"

definition oset_add :: "'a \<Rightarrow> 'a list \<Rightarrow> 'a list" where
  "oset_add x xs = (if x \<in> set xs then xs else xs @ [x])"

text \<open>\<^verbatim>\<open>for (const [ip, clients] of ipFailures) { clients.delete(id); if (clients.size === 0) ... }\<close>.\<close>

definition ip_forget :: "string \<Rightarrow> (string \<times> string list) list \<Rightarrow> (string \<times> string list) list" where
  "ip_forget cid ips =
     filter (\<lambda>(ip, clients). clients \<noteq> []) (map (\<lambda>(ip, clients). (ip, filter (\<lambda>x. x \<noteq> cid) clients)) ips)"

definition evict_lru :: "MemoryAnomalyEngine \<Rightarrow> MemoryAnomalyEngine" where
  "evict_lru en =
     (case ae_accessOrder en of
        [] \<Rightarrow> en
      | lruKey # rest \<Rightarrow>
          (let en' = en\<lparr>ae_accessOrder := rest\<rparr>
           in if truthy (Some lruKey)
              then en'\<lparr>ae_failures := omap_delete lruKey (ae_failures en),
                       ae_ipFailures := ip_forget lruKey (ae_ipFailures en)\<rparr>
              else en'))"

definition anomaly_record :: "SegmentFailureEvent \<Rightarrow> int \<Rightarrow> MemoryAnomalyEngine \<Rightarrow> MemoryAnomalyEngine" where
  "anomaly_record event now en0 =
     (let cfg = ae_config en0;
          cutoff = now - ac_windowMs cfg;
          cid = ev_clientId event;
          en1 = (if \<not> omap_has cid (ae_failures en0) \<and> ac_maxEntries cfg \<le> int (length (ae_failures en0))
                 then evict_lru en0 else en0);
          order = remove1 cid (ae_accessOrder en1) @ [cid];
          events0 = nullish (map_of (ae_failures en1) cid) [] @ [event];
          events1 = filter (\<lambda>e. cutoff < ev_timestamp e) events0;
          events = (if ac_maxEventsPerClient cfg < int (length events1)
                    then js_slice events1 (int (length events1) - ac_maxEventsPerClient cfg) (int (length events1))
                    else events1);
          ips = (case ev_ipAddress event of
                   Some ip \<Rightarrow>
                     if ip \<noteq> []
                     then omap_set ip (oset_add cid (nullish (map_of (ae_ipFailures en1) ip) [])) (ae_ipFailures en1)
                     else ae_ipFailures en1
                 | None \<Rightarrow> ae_ipFailures en1)
      in en1\<lparr>ae_accessOrder := order, ae_failures := omap_set cid events (ae_failures en1), ae_ipFailures := ips\<rparr>)"

definition stolen_key_event :: "SegmentFailureEvent \<Rightarrow> bool" where
  "stolen_key_event e \<longleftrightarrow>
     list_ex (\<lambda>sr. sr_type sr = Static \<and> sr_valid sr) (ev_segmentResults e) \<and>
     list_ex (\<lambda>sr. (sr_type sr = Totp \<or> sr_type sr = Hotp) \<and> \<not> sr_valid sr) (ev_segmentResults e)"

definition total_failure_event :: "SegmentFailureEvent \<Rightarrow> bool" where
  "total_failure_event e \<longleftrightarrow>
     ev_failureKind e = Some Checksum_invalid \<or>
     (0 < length (ev_segmentResults e) \<and> list_all (\<lambda>sr. \<not> sr_valid sr) (ev_segmentResults e))"

definition rate_part :: "AnomalyConfig \<Rightarrow> SegmentFailureEvent list \<Rightarrow> int \<times> string list" where
  "rate_part cfg events =
     (let n = length events in
      if ac_highRateThreshold cfg \<le> int n
      then (ac_highRateScore cfg,
            [show_nat n @ '' failures in rolling window (threshold: '' @ show_int (ac_highRateThreshold cfg) @ '')''])
      else if ac_mediumRateThreshold cfg \<le> int n
      then (ac_mediumRateScore cfg, [show_nat n @ '' failures in rolling window''])
      else (0, []))"

definition stolen_part :: "AnomalyConfig \<Rightarrow> SegmentFailureEvent list \<Rightarrow> int \<times> string list" where
  "stolen_part cfg events =
     (let n = length (filter stolen_key_event events) in
      if 2 \<le> n
      then (ac_stolenKeyScore cfg,
            [''Stolen key pattern: '' @ show_nat n @ '' events with static match + rotating failure''])
      else if n = 1 then (ac_stolenKeySingleScore cfg, [''Possible stolen key pattern detected''])
      else (0, []))"

definition total_part :: "AnomalyConfig \<Rightarrow> SegmentFailureEvent list \<Rightarrow> int \<times> string list" where
  "total_part cfg events =
     (let n = length (filter total_failure_event events) in
      if 3 \<le> n
      then (ac_totalFailureScore cfg, [''Repeated integrity/segment failures ('' @ show_nat n @ '')''])
      else (0, []))"

definition ip_part :: "MemoryAnomalyEngine \<Rightarrow> SegmentFailureEvent list \<Rightarrow> int \<times> string list" where
  "ip_part en events =
     (let ips = fold (\<lambda>e acc. case ev_ipAddress e of
                        Some ip \<Rightarrow> if ip \<noteq> [] then oset_add ip acc else acc
                      | None \<Rightarrow> acc) events []
      in case find (\<lambda>ip. case map_of (ae_ipFailures en) ip of None \<Rightarrow> False | Some cs \<Rightarrow> 5 \<le> length cs) ips of
           None \<Rightarrow> (0, [])
         | Some ip \<Rightarrow>
             (25, [''Distributed attack pattern: IP '' @ ip @ '' has failures across '' @
                   show_nat (length (nullish (map_of (ae_ipFailures en) ip) [])) @ '' clients'']))"

definition anomaly_score :: "string \<Rightarrow> int \<Rightarrow> MemoryAnomalyEngine \<Rightarrow> AnomalyScore" where
  "anomaly_score cid now en =
     (let cfg = ae_config en;
          cutoff = now - ac_windowMs cfg;
          events = filter (\<lambda>e. cutoff < ev_timestamp e) (nullish (map_of (ae_failures en) cid) [])
      in if length events = 0 then \<lparr>as_score = 0, as_verdict = Clean, as_reasons = []\<rparr>
         else
           let (s1, r1) = rate_part cfg events;
               (s2, r2) = stolen_part cfg events;
               (s3, r3) = total_part cfg events;
               (s4, r4) = ip_part en events;
               score = s1 + s2 + s3 + s4;
               verdict = (if ac_attackThreshold cfg \<le> score then Attack
                          else if ac_suspiciousThreshold cfg \<le> score then Suspicious else Clean)
           in \<lparr>as_score = min score 100, as_verdict = verdict, as_reasons = r1 @ r2 @ r3 @ r4\<rparr>)"

definition anomaly_reset :: "string \<Rightarrow> MemoryAnomalyEngine \<Rightarrow> MemoryAnomalyEngine" where
  "anomaly_reset cid en =
     en\<lparr>ae_failures := omap_delete cid (ae_failures en),
        ae_accessOrder := remove1 cid (ae_accessOrder en),
        ae_ipFailures := ip_forget cid (ae_ipFailures en)\<rparr>"

definition anomaly_trackedClients :: "MemoryAnomalyEngine \<Rightarrow> nat" where
  "anomaly_trackedClients en = length (ae_failures en)"

definition anomaly_trackedIPs :: "MemoryAnomalyEngine \<Rightarrow> nat" where
  "anomaly_trackedIPs en = length (ae_ipFailures en)"

section \<open>Bounds\<close>

definition engine_inv :: "MemoryAnomalyEngine \<Rightarrow> bool" where
  "engine_inv en \<longleftrightarrow>
     distinct (omap_keys (ae_failures en)) \<and> distinct (ae_accessOrder en) \<and>
     set (ae_accessOrder en) = set (omap_keys (ae_failures en)) \<and>
     [] \<notin> set (omap_keys (ae_failures en)) \<and>
     int (length (ae_failures en)) \<le> ac_maxEntries (ae_config en) \<and> 1 \<le> ac_maxEntries (ae_config en) \<and>
     0 \<le> ac_maxEventsPerClient (ae_config en) \<and>
     (\<forall>cid es. map_of (ae_failures en) cid = Some es \<longrightarrow>
        int (length es) \<le> ac_maxEventsPerClient (ae_config en) \<and> (\<forall>e \<in> set es. ev_clientId e = cid))"

lemma evict_lru_inv:
  assumes inv: "engine_inv en" and full: "ac_maxEntries (ae_config en) \<le> int (length (ae_failures en))"
  shows "engine_inv (evict_lru en) \<and> Suc (length (ae_failures (evict_lru en))) = length (ae_failures en) \<and>
    ae_config (evict_lru en) = ae_config en"
proof -
  have "ae_failures en \<noteq> []" using inv full by (auto simp: engine_inv_def)
  then obtain k ks where ks: "ae_accessOrder en = k # ks" using inv by (cases "ae_accessOrder en") (auto simp: engine_inv_def)
  then have k: "k \<in> set (omap_keys (ae_failures en))" "k \<noteq> []" using inv by (auto simp: engine_inv_def)
  have "Suc (length (omap_delete k (ae_failures en))) = length (ae_failures en)"
    using inv k(1) by (intro length_omap_delete) (auto simp: engine_inv_def)
  with inv ks k show ?thesis
    by (auto simp: engine_inv_def evict_lru_def truthy_def omap_keys_delete)
qed

lemma js_slice_suffix_length: "0 \<le> n \<Longrightarrow> n < int (length xs) \<Longrightarrow> int (length (js_slice xs (int (length xs) - n) (int (length xs)))) = n"
  by (subst js_slice_in_range) auto

lemma js_slice_subset: "set (js_slice xs a b) \<subseteq> set xs"
  by (auto simp: js_slice_def Let_def dest!: in_set_takeD in_set_dropD)

lemma engine_inv_put:
  assumes "engine_inv en" and "cid \<noteq> []" and "int (length es) \<le> ac_maxEventsPerClient (ae_config en)"
    and "\<forall>e \<in> set es. ev_clientId e = cid"
    and "omap_has cid (ae_failures en) \<or> int (length (ae_failures en)) < ac_maxEntries (ae_config en)"
  shows "engine_inv (en\<lparr>ae_accessOrder := remove1 cid (ae_accessOrder en) @ [cid],
    ae_failures := omap_set cid es (ae_failures en), ae_ipFailures := ips\<rparr>)"
  using assms omap_has_keys [of "ae_failures en" cid]
  by (auto simp: engine_inv_def omap_keys_set length_omap_set)

lemma anomaly_record_inv:
  assumes inv: "engine_inv en" and cid: "ev_clientId event \<noteq> []"
  shows "engine_inv (anomaly_record event now en)"
proof -
  let ?cid = "ev_clientId event" and ?cfg = "ae_config en"
  define en1 where "en1 = (if \<not> omap_has ?cid (ae_failures en) \<and> ac_maxEntries ?cfg \<le> int (length (ae_failures en))
                 then evict_lru en else en)"
  have en1: "engine_inv en1" "ae_config en1 = ?cfg"
    "omap_has ?cid (ae_failures en1) \<or> int (length (ae_failures en1)) < ac_maxEntries ?cfg"
    using inv evict_lru_inv [OF inv] by (auto simp: en1_def engine_inv_def)
  define es1 where "es1 = filter (\<lambda>e. now - ac_windowMs ?cfg < ev_timestamp e) (nullish (map_of (ae_failures en1) ?cid) [] @ [event])"
  define es where "es = (if ac_maxEventsPerClient ?cfg < int (length es1)
      then js_slice es1 (int (length es1) - ac_maxEventsPerClient ?cfg) (int (length es1)) else es1)"
  have "\<forall>e \<in> set es1. ev_clientId e = ?cid"
    using en1(1) by (auto simp: es1_def engine_inv_def nullish_def split: option.splits)
  then have own: "\<forall>e \<in> set es. ev_clientId e = ?cid"
    by (auto simp: es_def dest: subsetD [OF js_slice_subset])
  have "int (length es) \<le> ac_maxEventsPerClient ?cfg"
    using inv js_slice_suffix_length [of "ac_maxEventsPerClient ?cfg" es1] by (auto simp: es_def engine_inv_def)
  with own en1 cid show ?thesis
    unfolding anomaly_record_def Let_def en1_def [symmetric] es1_def [symmetric] es_def [symmetric]
    by (intro engine_inv_put) auto
qed

text \<open>The failure log is bounded. Recording and resetting keep the engine within its configured
  number of clients and of events per client, with the eviction order listing exactly the tracked
  clients and every event filed under its own client.\<close>

theorem anomaly_log_bounded:
  assumes "engine_inv en" and "ev_clientId event \<noteq> []"
  shows "engine_inv (anomaly_record event now en) \<and> engine_inv (anomaly_reset cid en)"
proof -
  have "length (omap_delete cid (ae_failures en)) \<le> length (ae_failures en)" by (rule length_omap_delete_le)
  then have "engine_inv (anomaly_reset cid en)"
    using assms(1) by (auto simp: engine_inv_def anomaly_reset_def omap_keys_delete)
  with anomaly_record_inv [OF assms] show ?thesis by blast
qed

text \<open>The reported score lies between 0 and 100, a client without events in the window is
  clean, and, for thresholds of at most 100, the verdict is the one the reported score calls for.\<close>

lemma anomaly_score_sound:
  assumes cfg: "cfg = ae_config en" and nonneg: "0 \<le> ac_highRateScore cfg" "0 \<le> ac_mediumRateScore cfg" "0 \<le> ac_stolenKeyScore cfg"
    "0 \<le> ac_stolenKeySingleScore cfg" "0 \<le> ac_totalFailureScore cfg"
    and thr: "0 < ac_suspiciousThreshold cfg" "ac_suspiciousThreshold cfg \<le> ac_attackThreshold cfg" "ac_attackThreshold cfg \<le> 100"
    and r: "r = anomaly_score cid now en"
  shows "0 \<le> as_score r \<and> as_score r \<le> 100 \<and>
    (as_verdict r = Attack \<longleftrightarrow> ac_attackThreshold cfg \<le> as_score r) \<and>
    (as_verdict r = Clean \<longleftrightarrow> as_score r < ac_suspiciousThreshold cfg)"
proof -
  have p: "0 \<le> fst (rate_part cfg es)" "0 \<le> fst (stolen_part cfg es)" "0 \<le> fst (total_part cfg es)" "0 \<le> fst (ip_part en es)" for es
    using nonneg by (auto simp: rate_part_def stolen_part_def total_part_def ip_part_def Let_def split: option.splits)
  define es where "es = filter (\<lambda>e. now - ac_windowMs cfg < ev_timestamp e) (nullish (map_of (ae_failures en) cid) [])"
  show ?thesis
  proof (cases "es = []")
    case True
    then show ?thesis using thr by (simp add: r anomaly_score_def Let_def es_def cfg)
  next
    case False
    define t where "t = fst (rate_part cfg es) + fst (stolen_part cfg es) + fst (total_part cfg es) + fst (ip_part en es)"
    have "as_score r = min t 100" "as_verdict r = (if ac_attackThreshold cfg \<le> t then Attack
        else if ac_suspiciousThreshold cfg \<le> t then Suspicious else Clean)"
      using False unfolding r anomaly_score_def Let_def cfg [symmetric] es_def [symmetric] t_def
      by (simp_all add: case_prod_beta)
    then show ?thesis using p [of es] thr by (auto simp: t_def)
  qed
qed

section \<open>IP tracking is not bounded\<close>

definition ip_event :: "string \<Rightarrow> nat \<Rightarrow> SegmentFailureEvent" where
  "ip_event cid n =
     \<lparr>ev_clientId = cid, ev_timestamp = int n, ev_segmentResults = [], ev_failureKind = None,
      ev_ipAddress = Some (show_nat n)\<rparr>"

definition ip_flood :: "string \<Rightarrow> nat \<Rightarrow> MemoryAnomalyEngine \<Rightarrow> MemoryAnomalyEngine" where
  "ip_flood cid n en = fold (\<lambda>i. anomaly_record (ip_event cid i) (int i)) [0..<n] en"

lemma anomaly_record_tracked:
  assumes "omap_has (ev_clientId event) (ae_failures en)"
  shows "ae_ipFailures (anomaly_record event now en) =
      (case ev_ipAddress event of
         Some ip \<Rightarrow> if ip \<noteq> [] then omap_set ip (oset_add (ev_clientId event) (nullish (map_of (ae_ipFailures en) ip) [])) (ae_ipFailures en)
                   else ae_ipFailures en
       | None \<Rightarrow> ae_ipFailures en)"
    and "omap_keys (ae_failures (anomaly_record event now en)) = omap_keys (ae_failures en)"
  using assms omap_has_keys [of "ae_failures en" "ev_clientId event"]
  by (auto simp: anomaly_record_def Let_def omap_keys_set split: option.splits)

lemma ip_flood_tracked:
  assumes "omap_has cid (ae_failures en)" and "ae_ipFailures en = []"
  shows "omap_keys (ae_ipFailures (ip_flood cid n en)) = map show_nat [0..<n] \<and>
    omap_keys (ae_failures (ip_flood cid n en)) = omap_keys (ae_failures en)"
proof (induction n)
  case (Suc n)
  let ?en = "ip_flood cid n en"
  have has: "omap_has (ev_clientId (ip_event cid n)) (ae_failures ?en)"
    using Suc assms(1) omap_has_keys [of "ae_failures ?en" cid] omap_has_keys [of "ae_failures en" cid]
    by (simp add: ip_event_def)
  have "ip_flood cid (Suc n) en = anomaly_record (ip_event cid n) (int n) ?en" by (simp add: ip_flood_def)
  with anomaly_record_tracked [OF has, of "int n"] Suc show ?case
    by (auto simp: ip_event_def omap_keys_set)
qed (use assms in \<open>simp add: ip_flood_def\<close>)

text \<open>One client is enough to grow the IP table without limit: an engine that tracks the single
  client keeps tracking just that client while failures from \<open>n\<close> addresses make it hold \<open>n\<close> address
  entries, whatever its configured bounds.\<close>

theorem ip_tracking_unbounded:
  assumes "omap_keys (ae_failures en) = [cid]" and "ae_ipFailures en = []"
  shows "anomaly_trackedIPs (ip_flood cid n en) = n \<and> anomaly_trackedClients (ip_flood cid n en) = 1"
proof -
  have "omap_has cid (ae_failures en)" using assms(1) omap_has_keys [of "ae_failures en" cid] by simp
  from ip_flood_tracked [OF this assms(2), of n] assms(1) show ?thesis
    unfolding anomaly_trackedIPs_def anomaly_trackedClients_def
    by (metis diff_zero length_Cons length_map length_upt list.size(3) One_nat_def)
qed

section \<open>Examples\<close>

definition example_event :: "string \<Rightarrow> SegmentFailureEvent" where
  "example_event cid =
     \<lparr>ev_clientId = cid, ev_timestamp = 10,
      ev_segmentResults = [\<lparr>sr_id = ''id_1'', sr_type = Static, sr_valid = True\<rparr>,
                           \<lparr>sr_id = ''seg_3'', sr_type = Hotp, sr_valid = False\<rparr>],
      ev_failureKind = Some Segment_validation_failed, ev_ipAddress = None\<rparr>"

lemma new_engine_inv: "engine_inv (new_MemoryAnomalyEngine default_anomaly_config)"
  by (simp add: engine_inv_def new_MemoryAnomalyEngine_def default_anomaly_config_def)

definition example_engine :: MemoryAnomalyEngine where
  "example_engine = anomaly_record (example_event ''a'') 10 (new_MemoryAnomalyEngine default_anomaly_config)"

theorem anomaly_log_bounded_witness:
  "engine_inv (anomaly_record (example_event ''a'') 10 (new_MemoryAnomalyEngine default_anomaly_config))"
  using anomaly_log_bounded [OF new_engine_inv, of "example_event ''a''"] by (simp add: example_event_def)

lemma anomaly_score_sound_witness:
  "as_score (anomaly_score ''a'' 20 example_engine) = 20 \<and> as_verdict (anomaly_score ''a'' 20 example_engine) = Clean"
proof -
  have c: "ae_config example_engine = default_anomaly_config"
    by (simp add: example_engine_def anomaly_record_def new_MemoryAnomalyEngine_def default_anomaly_config_def Let_def)
  have s: "as_score (anomaly_score ''a'' 20 example_engine) = 20" by code_simp
  show ?thesis
    using s anomaly_score_sound [OF c [symmetric] _ _ _ _ _ _ _ _ refl, of "''a''" 20]
    by (simp add: default_anomaly_config_def)
qed

theorem ip_tracking_unbounded_witness:
  "omap_keys (ae_failures example_engine) = [''a''] \<and> ae_ipFailures example_engine = [] \<and>
   anomaly_trackedIPs (ip_flood ''a'' 20000 example_engine) = 20000 \<and>
   anomaly_trackedClients (ip_flood ''a'' 20000 example_engine) = 1"
proof -
  have e: "omap_keys (ae_failures example_engine) = [''a'']" "ae_ipFailures example_engine = []"
    by (simp_all add: example_engine_def anomaly_record_def new_MemoryAnomalyEngine_def default_anomaly_config_def
        example_event_def Let_def)
  show ?thesis using e ip_tracking_unbounded [OF e] by blast
qed

end
