(* ===== verification/Middleware.thy ===== *)
theory Middleware
  imports Store Anomaly
begin

text \<open>
  \<^verbatim>\<open>packages/server/src/middleware.ts\<close>: request verification on top of a tumbler map store. The store
  is a record of its operations with explicit state; every \<^verbatim>\<open>await\<close> on it is one atomic step, and
  each reading of the clock is a separate input. The handler is cut at its two store accesses, so that
  the same pieces give the sequential handler and the interleaving of concurrent requests.
\<close>

section \<open>Requests and results\<close>

datatype header_value = HString string | HList "string list"

record TSKRequestData =
  req_headers :: "(string \<times> header_value) list"

record TSKVerifyResult =
  tv_ok :: bool
  tv_clientId :: "string option"
  tv_error :: "string option"
  tv_rotationRequired :: "bool option"
  tv_requestsRemaining :: "int option"
  tv_hotpCountersRemaining :: "int option"

definition HEADER_CLIENT_ID :: string where "HEADER_CLIENT_ID = ''x-tsk-client-id''"
definition HEADER_KEY :: string where "HEADER_KEY = ''x-tsk-key''"
definition HEADER_VERSION :: string where "HEADER_VERSION = ''x-tsk-version''"
definition TSK_PROTOCOL_VERSION :: string where "TSK_PROTOCOL_VERSION = ''1''"
definition TSK_MAX_KEY_HEADER_BYTES :: nat where "TSK_MAX_KEY_HEADER_BYTES = 1024"

definition getHeader :: "TSKRequestData \<Rightarrow> string \<Rightarrow> string option" where
  "getHeader req name =
     (case map_of (req_headers req) name of
        Some (HString s) \<Rightarrow> Some s
      | Some (HList [s]) \<Rightarrow> Some s
      | _ \<Rightarrow> None)"

definition verify_fail :: "string \<Rightarrow> string option \<Rightarrow> TSKVerifyResult" where
  "verify_fail e cid =
     \<lparr>tv_ok = False, tv_clientId = cid, tv_error = Some e, tv_rotationRequired = None,
      tv_requestsRemaining = None, tv_hotpCountersRemaining = None\<rparr>"

definition buildTSKResponseHeaders :: "TSKVerifyResult \<Rightarrow> (string \<times> string) list" where
  "buildTSKResponseHeaders result =
     (if \<not> tv_ok result then []
      else [(''x-tsk-authenticated'', ''1'')] @
        (if tv_rotationRequired result = Some True then [(''x-tsk-rotation-required'', ''1'')] else []) @
        (case tv_requestsRemaining result of None \<Rightarrow> [] | Some n \<Rightarrow> [(''x-tsk-requests-remaining'', show_int n)]) @
        (case tv_hotpCountersRemaining result of None \<Rightarrow> []
         | Some n \<Rightarrow> [(''x-tsk-hotp-counters-remaining'', show_int n)]))"

fun commit_error_code :: "CommitError \<Rightarrow> string" where
  "commit_error_code TSK_KEY_REVOKED = ''TSK_KEY_REVOKED''"
| "commit_error_code TSK_KEY_EXPIRED = ''TSK_KEY_EXPIRED''"
| "commit_error_code TSK_KEY_USAGE_CAP_EXCEEDED = ''TSK_KEY_USAGE_CAP_EXCEEDED''"
| "commit_error_code TSK_HOTP_REPLAY_DETECTED = ''TSK_HOTP_REPLAY_DETECTED''"
| "commit_error_code TSK_HOTP_COUNTER_INVALID = ''TSK_HOTP_COUNTER_INVALID''"
| "commit_error_code TSK_HOTP_COUNTER_EXHAUSTED = ''TSK_HOTP_COUNTER_EXHAUSTED''"

fun tsk_error_code :: "TSKError \<Rightarrow> string" where
  "tsk_error_code CLIENT_NOT_FOUND = ''CLIENT_NOT_FOUND''"
| "tsk_error_code KEY_LENGTH_MISMATCH = ''KEY_LENGTH_MISMATCH''"
| "tsk_error_code MAP_INVALID_NO_SEGMENTS = ''MAP_INVALID_NO_SEGMENTS''"
| "tsk_error_code MAP_INVALID_NO_HOTP = ''MAP_INVALID_NO_HOTP''"
| "tsk_error_code MAP_INVALID_ZERO_LENGTH_SEGMENT = ''MAP_INVALID_ZERO_LENGTH_SEGMENT''"
| "tsk_error_code INVALID_KEY = ''INVALID_KEY''"

section \<open>The handler\<close>

text \<open>Steps 1 to 3: headers, version and size.\<close>

definition verify_parse :: "TSKRequestData \<Rightarrow> TSKVerifyResult + (string \<times> string)" where
  "verify_parse req =
     (let clientIdRaw = getHeader req HEADER_CLIENT_ID;
          keyRaw = getHeader req HEADER_KEY;
          versionRaw = getHeader req HEADER_VERSION
      in if \<not> truthy clientIdRaw \<or> \<not> truthy keyRaw then Inl (verify_fail ''TSK_HEADERS_MISSING'' None)
         else if \<not> truthy versionRaw then Inl (verify_fail ''TSK_VERSION_MISSING'' None)
         else if versionRaw \<noteq> Some TSK_PROTOCOL_VERSION then Inl (verify_fail ''TSK_VERSION_UNSUPPORTED'' None)
         else if TSK_MAX_KEY_HEADER_BYTES < length (the keyRaw) then Inl (verify_fail ''TSK_KEY_TOO_LARGE'' None)
         else Inr (the clientIdRaw, the keyRaw))"

text \<open>The clock readings of one request, in the order the code takes them.\<close>

record verify_times =
  vt_get :: int
  vt_expiry :: int
  vt_validate :: int
  vt_anomaly :: int
  vt_record :: int
  vt_commit :: int

text \<open>What the handler does next, once it has the snapshot of the map: reply (after reporting an
  anomaly), write the snapshot back as expired and reply, or commit.\<close>

datatype verify_next =
    Reply TSKVerifyResult "SegmentFailureEvent option"
  | Expire_and_reply TumblerMap TSKVerifyResult
  | Commit ValidationCommitInput "string option"

definition commit_input :: "ValidationResult \<Rightarrow> int \<Rightarrow> ValidationCommitInput" where
  "commit_input result usedAt =
     \<lparr>ci_counterMatches = map (\<lambda>(sid, u). (sid, cu_matchedCounter u)) (nullish (vr_counterUpdates result) []),
      ci_usedAt = usedAt\<rparr>"

lemma commit_input_usedAt [simp]: "ci_usedAt (commit_input r u) = u"
  by (simp add: commit_input_def)

definition verify_decide ::
  "hmac_fn \<Rightarrow> TSKConfig \<Rightarrow> string option \<Rightarrow> verify_times \<Rightarrow> string \<Rightarrow> string \<Rightarrow> TumblerMap option \<Rightarrow> verify_next res" where
  "verify_decide H cfg ipAddress clk clientIdRaw keyRaw got =
     (case got of
        None \<Rightarrow> Inr (Reply (verify_fail ''TSK_CLIENT_NOT_FOUND'' None) None)
      | Some m \<Rightarrow>
        if tm_status m = Some Revoked then Inr (Reply (verify_fail ''TSK_KEY_REVOKED'' (Some clientIdRaw)) None)
        else if tm_status m = Some Expired then Inr (Reply (verify_fail ''TSK_KEY_EXPIRED'' (Some clientIdRaw)) None)
        else if (case tm_expiresAt m of None \<Rightarrow> False | Some e \<Rightarrow> e < vt_expiry clk)
        then Inr (Expire_and_reply (m\<lparr>tm_status := Some Expired\<rparr>) (verify_fail ''TSK_KEY_EXPIRED'' (Some clientIdRaw)))
        else if (case tm_maxRequests m of None \<Rightarrow> False | Some mx \<Rightarrow> 0 < mx \<and> mx \<le> nullish (tm_requestCount m) 0)
        then Inr (Expire_and_reply (m\<lparr>tm_status := Some Expired\<rparr>)
               (verify_fail ''TSK_KEY_USAGE_CAP_EXCEEDED'' (Some clientIdRaw)))
        else
          bind_res (validateTSKKey H keyRaw m (NInt (vt_validate clk)) cfg) (\<lambda>result.
            if \<not> vr_ok result
            then Inr (Reply (verify_fail (case vr_error result of Some e \<Rightarrow> tsk_error_code e
                                          | None \<Rightarrow> ''TSK_VALIDATION_FAILED'') (Some clientIdRaw))
                   (Some \<lparr>ev_clientId = clientIdRaw, ev_timestamp = vt_anomaly clk,
                          ev_segmentResults = nullish (vr_segmentResults result) [],
                          ev_failureKind = Some (if vr_internalError result = Some CHECKSUM_INVALID
                                                 then Checksum_invalid else Segment_validation_failed),
                          ev_ipAddress = ipAddress\<rparr>))
            else Inr (Commit (commit_input result (vt_commit clk)) (vr_clientId result))))"

definition verify_committed :: "string \<Rightarrow> string option \<Rightarrow> ValidationCommitResult \<Rightarrow> TSKVerifyResult" where
  "verify_committed clientIdRaw resultClientId committed =
     (if \<not> cr_ok committed
      then \<lparr>tv_ok = False, tv_clientId = Some clientIdRaw, tv_error = map_option commit_error_code (cr_error committed),
            tv_rotationRequired = None, tv_requestsRemaining = None, tv_hotpCountersRemaining = None\<rparr>
      else \<lparr>tv_ok = True, tv_clientId = resultClientId, tv_error = None,
            tv_rotationRequired = cr_rotationRequired committed,
            tv_requestsRemaining = cr_requestsRemaining committed,
            tv_hotpCountersRemaining = cr_hotpCountersRemaining committed\<rparr>)"

text \<open>The part of \<^verbatim>\<open>TumblerMapStore\<close> the handler calls.\<close>

record 's store_api =
  api_get :: "string \<Rightarrow> int \<Rightarrow> 's \<Rightarrow> 's \<times> TumblerMap option res"
  api_set :: "string \<Rightarrow> TumblerMap \<Rightarrow> 's \<Rightarrow> 's \<times> unit res"
  api_commit :: "string \<Rightarrow> ValidationCommitInput \<Rightarrow> 's \<Rightarrow> 's \<times> ValidationCommitResult res"

definition verify_finish ::
  "'s store_api \<Rightarrow> string \<Rightarrow> verify_next \<Rightarrow> 's \<Rightarrow> 's \<times> TSKVerifyResult res" where
  "verify_finish api cid next st =
     (case next of
        Reply r ev \<Rightarrow> (st, Inr r)
      | Expire_and_reply m r \<Rightarrow> (let (st', u) = api_set api cid m st in (st', bind_res u (\<lambda>_. Inr r)))
      | Commit input rcid \<Rightarrow>
          (let (st', c) = api_commit api cid input st in (st', bind_res c (\<lambda>cr. Inr (verify_committed cid rcid cr)))))"

definition note_anomaly :: "verify_times \<Rightarrow> verify_next \<Rightarrow> MemoryAnomalyEngine option \<Rightarrow> MemoryAnomalyEngine option" where
  "note_anomaly clk next anomaly =
     (case (next, anomaly) of
        (Reply r (Some ev), Some en) \<Rightarrow> Some (anomaly_record ev (vt_record clk) en)
      | _ \<Rightarrow> anomaly)"

definition verifyTSKRequest ::
  "'s store_api \<Rightarrow> hmac_fn \<Rightarrow> TSKConfig \<Rightarrow> string option \<Rightarrow> verify_times \<Rightarrow> TSKRequestData \<Rightarrow>
   's \<Rightarrow> MemoryAnomalyEngine option \<Rightarrow> 's \<times> MemoryAnomalyEngine option \<times> TSKVerifyResult res" where
  "verifyTSKRequest api H cfg ipAddress clk req st anomaly =
     (case verify_parse req of
        Inl r \<Rightarrow> (st, anomaly, Inr r)
      | Inr (cid, key) \<Rightarrow>
          (case api_get api cid (vt_get clk) st of
             (st1, Inl e) \<Rightarrow> (st1, anomaly, Inl e)
           | (st1, Inr got) \<Rightarrow>
               (case verify_decide H cfg ipAddress clk cid key got of
                  Inl e \<Rightarrow> (st1, anomaly, Inl e)
                | Inr next \<Rightarrow>
                    (let (st2, r) = verify_finish api cid next st1 in (st2, note_anomaly clk next anomaly, r)))))"

definition memory_api :: "MemoryTumblerStore store_api" where
  "memory_api =
     \<lparr>api_get = (\<lambda>cid now st. let (st', m) = ms_get cid now st in (st', Inr m)),
      api_set = ms_set, api_commit = ms_commitValidation\<rparr>"

section \<open>What a store promises\<close>

text \<open>The contract of a \<^verbatim>\<open>TumblerMapStore\<close> towards the handler: a read returns the stored map and changes
  no map, and a successful commit is the commit of one map applied to the stored one.\<close>

locale tumbler_store =
  fixes api :: "'s store_api"
    and lookup :: "'s \<Rightarrow> string \<Rightarrow> TumblerMap option"
  assumes get_Some: "api_get api cid now s = (s', Inr (Some m)) \<Longrightarrow> lookup s cid = Some m \<and> lookup s' = lookup s"
    and commit_Some: "api_commit api cid input s = (s', Inr r) \<Longrightarrow> cr_ok r \<Longrightarrow>
      \<exists>m m'. lookup s cid = Some m \<and> commitValidationToMap m input = (m', Inr r) \<and> lookup s' = (lookup s)(cid \<mapsto> m')"
begin

text \<open>An accepted request was found acceptable on the stored map, and that map was committed.\<close>

lemma verify_ok:
  assumes v: "verifyTSKRequest api H cfg ip t req s an = (s', an', Inr r)" and ok: "tv_ok r"
  obtains cid key m m' vr where
    "verify_parse req = Inr (cid, key)" "lookup s cid = Some m" "lookup s' = (lookup s)(cid \<mapsto> m')"
    "validateTSKKey H key m (NInt (vt_validate t)) cfg = Inr vr" "vr_ok vr" "tv_clientId r = vr_clientId vr"
    "commit_admissible m (commit_input vr (vt_commit t))"
    "fst (commitValidationToMap m (commit_input vr (vt_commit t))) = m'"
proof -
  have vf: "\<not> tv_ok (verify_fail e c)" for e c by (simp add: verify_fail_def)
  obtain cid key where p: "verify_parse req = Inr (cid, key)"
    using v ok by (cases "verify_parse req")
      (auto simp: verifyTSKRequest_def verify_parse_def vf Let_def split: if_splits)
  obtain s1 got where g: "api_get api cid (vt_get t) s = (s1, Inr got)"
    using v p by (cases "api_get api cid (vt_get t) s"; cases "snd (api_get api cid (vt_get t) s)")
      (auto simp: verifyTSKRequest_def)
  obtain nx where d: "verify_decide H cfg ip t cid key got = Inr nx" and f: "verify_finish api cid nx s1 = (s', Inr r)"
    using v p g by (cases "verify_decide H cfg ip t cid key got") (auto simp: verifyTSKRequest_def split: prod.splits)
  obtain m where m: "got = Some m" using d f ok vf by (cases got) (auto simp: verify_decide_def verify_finish_def)
  obtain input rcid where nx: "nx = Commit input rcid"
    using d f ok vf by (cases nx)
      (auto simp: verify_finish_def verify_decide_def m bind_res_Inr_iff split: if_splits prod.splits)
  then obtain cr where c: "api_commit api cid input s1 = (s', Inr cr)" and r: "r = verify_committed cid rcid cr" "cr_ok cr"
    using f ok by (auto simp: verify_finish_def verify_committed_def bind_res_Inr_iff split: prod.splits if_splits)
  have l: "lookup s cid = Some m" "lookup s1 = lookup s" using get_Some [OF g [unfolded m]] by auto
  obtain m' where m': "commitValidationToMap m input = (m', Inr cr)" "lookup s' = (lookup s)(cid \<mapsto> m')"
    using commit_Some [OF c r(2)] l by auto
  obtain vr where vr: "validateTSKKey H key m (NInt (vt_validate t)) cfg = Inr vr" "vr_ok vr" "rcid = vr_clientId vr"
    "input = commit_input vr (vt_commit t)"
    using d unfolding nx m by (auto simp: verify_decide_def bind_res_Inr_iff split: if_splits)
  have adm: "commit_admissible m input" using commit_success_iff [OF m'(1)] r by simp
  have "tv_clientId r = vr_clientId vr" using r vr by (simp add: verify_committed_def)
  then show ?thesis using that [OF p l(1) m'(2) vr(1,2)] adm m'(1) vr(4) by auto
qed

lemma verify_ok_at:
  assumes v: "verifyTSKRequest api H cfg ip t req s an = (s', an', Inr r)" and ok: "tv_ok r"
    and p: "verify_parse req = Inr (cid, key)" and m: "lookup s cid = Some m"
  shows "\<exists>vr. validateTSKKey H key m (NInt (vt_validate t)) cfg = Inr vr \<and> vr_ok vr \<and>
    commit_admissible m (commit_input vr (vt_commit t)) \<and>
    lookup s' cid = Some (fst (commitValidationToMap m (commit_input vr (vt_commit t))))"
  by (rule verify_ok [OF v ok]) (use p m in auto)

end

lemma ms_get_lookup: "ms_get cid now st = (st', Some m) \<Longrightarrow> map_of (ms_maps st) cid = Some m \<and> map_of (ms_maps st') = map_of (ms_maps st)"
  by (auto simp: ms_get_def split: option.splits if_splits)

interpretation memst: tumbler_store memory_api "\<lambda>st. map_of (ms_maps st)"
proof
  show "api_get memory_api cid now s = (s', Inr (Some m)) \<Longrightarrow> map_of (ms_maps s) cid = Some m \<and> map_of (ms_maps s') = map_of (ms_maps s)"
    for cid now s s' m
    using ms_get_lookup [of cid now s s' m] by (auto simp: memory_api_def Let_def split: prod.splits)
  show "api_commit memory_api cid input s = (s', Inr r) \<Longrightarrow> cr_ok r \<Longrightarrow>
      \<exists>m m'. map_of (ms_maps s) cid = Some m \<and> commitValidationToMap m input = (m', Inr r) \<and> map_of (ms_maps s') = (map_of (ms_maps s))(cid \<mapsto> m')"
    for cid input s s' r
    by (auto simp: memory_api_def ms_commitValidation_def ms_mutate_def split: option.splits prod.splits)
qed

section \<open>Accepted requests\<close>

lemma validateTSKKey_ok_secret:
  assumes "validateTSKKey H key m now cfg = Inr r" and "vr_ok r"
  shows "secret_ok (tm_sharedSecret m)"
proof (rule ccontr)
  assume "\<not> secret_ok (tm_sharedSecret m)"
  then obtain e where "validateHexSecret (tm_sharedSecret m) = Inl e"
    by (cases "validateHexSecret (tm_sharedSecret m)") auto
  then have "computeChecksum H (tm_sharedSecret m) b = Inl e" for b
    by (simp add: computeChecksum_def hmac_def)
  with assms show False by (auto simp: validateTSKKey_def Let_def split: if_splits)
qed

lemma validateTSKKey_ok_acceptable:
  assumes "validateTSKKey H key m now cfg = Inr r" and "vr_ok r"
  shows "key_acceptable H key m now cfg"
  using assms validateTSKKey_ok_secret [OF assms] validateTSKKey_reject by blast

text \<open>C3: an accepted request is backed by the store. The request carried the required headers; the
  client has a stored map that is neither revoked nor expired nor past its time or cap; the key
  is acceptable for it; the commit counted the request, advanced the counters past the matched
  ones, and left the maps of all other clients alone.\<close>

theorem verify_accepts_only_valid:
  assumes v: "verifyTSKRequest memory_api H cfg ip t req st an = (st', an', Inr r)" and ok: "tv_ok r"
  shows "\<exists>cid key m m'. verify_parse req = Inr (cid, key) \<and> tv_clientId r = Some (tm_clientId m) \<and>
    map_of (ms_maps st) cid = Some m \<and> map_of (ms_maps st') = (map_of (ms_maps st))(cid \<mapsto> m') \<and>
    \<not> terminal m \<and> key_acceptable H key m (NInt (vt_validate t)) cfg \<and>
    tm_requestCount m' = Some (nullish (tm_requestCount m) 0 + 1) \<and>
    (case tm_expiresAt m of None \<Rightarrow> True | Some e \<Rightarrow> vt_commit t \<le> e) \<and>
    (case tm_maxRequests m of None \<Rightarrow> True | Some mx \<Rightarrow> 0 < mx \<longrightarrow> nullish (tm_requestCount m) 0 < mx) \<and>
    (\<forall>s \<in> set (hotp_segments m). counter_level (tm_segments m) (seg_id s) < counter_level (tm_segments m') (seg_id s))"
proof (rule memst.verify_ok [OF v ok])
  fix cid key :: string and m m' :: TumblerMap and vr :: ValidationResult
  let ?us = "nullish (vr_counterUpdates vr) []"
  let ?input = "commit_input vr (vt_commit t)"
  assume p: "verify_parse req = Inr (cid, key)" and m: "map_of (ms_maps st) cid = Some m"
    and m': "map_of (ms_maps st') = (map_of (ms_maps st))(cid \<mapsto> m')"
    and vr: "validateTSKKey H key m (NInt (vt_validate t)) cfg = Inr vr" "vr_ok vr" "tv_clientId r = vr_clientId vr"
    and adm: "commit_admissible m ?input" and c: "fst (commitValidationToMap m ?input) = m'"
  have sec: "secret_ok (tm_sharedSecret m)" and acc: "key_acceptable H key m (NInt (vt_validate t)) cfg"
    using validateTSKKey_ok_secret [OF vr(1,2)] validateTSKKey_ok_acceptable [OF vr(1,2)] by auto
  have vr_eq: "vr = loop_result m (map (segment_result H (tm_sharedSecret m) key (NInt (vt_validate t)) cfg) (tm_segments m))
      (fold (note_match H (tm_sharedSecret m) key cfg) (tm_segments m) []) True"
    using validateTSKKey_accept [OF sec acc] vr(1) by simp
  have id: "vr_clientId vr = Some (tm_clientId m)" by (simp add: vr_eq loop_result_def)
  have us: "?us = fold (note_match H (tm_sharedSecret m) key cfg) (tm_segments m) []"
    by (simp add: vr_eq)
  have lev: "counter_level (tm_segments m) (seg_id s) < counter_level (tm_segments m') (seg_id s)"
    if "s \<in> set (hotp_segments m)" for s
  proof -
    have "omap_has (seg_id s) ?us"
      unfolding us using that acc by (intro fold_note_match_complete) (auto simp: key_acceptable_def segment_matches_def)
    then obtain u where "(seg_id s, u) \<in> set ?us" by (auto dest: map_of_SomeD)
    then have "(seg_id s, cu_matchedCounter u) \<in> set (ci_counterMatches ?input)" by (force simp: commit_input_def)
    from commit_levels(2) [OF adm this] show ?thesis using c by (auto intro: commit_ok [OF adm])
  qed
  have "tm_requestCount m' = Some (nullish (tm_requestCount m) 0 + 1)" using c by (auto intro: commit_ok [OF adm])
  moreover have "\<not> terminal m" "case tm_expiresAt m of None \<Rightarrow> True | Some e \<Rightarrow> vt_commit t \<le> e"
    "case tm_maxRequests m of None \<Rightarrow> True | Some mx \<Rightarrow> 0 < mx \<longrightarrow> nullish (tm_requestCount m) 0 < mx"
    using adm by (auto simp: commit_admissible_def commit_input_def split: option.splits)
  ultimately show ?thesis
    using p m m' vr(3) id acc lev by (intro exI [of _ cid] exI [of _ key] exI [of _ m] exI [of _ m']) simp
qed

section \<open>Replay of a key\<close>

text \<open>Some counter-based part of the key does not match two different counters less than a look-ahead
  plus two apart.\<close>

definition unambiguous :: "hmac_fn \<Rightarrow> TSKConfig \<Rightarrow> string \<Rightarrow> TumblerMap \<Rightarrow> bool" where
  "unambiguous H cfg key m \<longleftrightarrow>
     (\<exists>s \<in> set (hotp_segments m). \<forall>c c'. c < c' \<longrightarrow> c' \<le> c + 1 + num_floor (cfg_hotpLookahead cfg) \<longrightarrow>
        provided_value key s = seg_value H (tm_sharedSecret m) (hotp_input (seg_id s) c) (seg_len s) \<longrightarrow>
        provided_value key s \<noteq> seg_value H (tm_sharedSecret m) (hotp_input (seg_id s) c') (seg_len s))"

lemma segment_ref_member: "distinct (map seg_id ss) \<Longrightarrow> s \<in> set ss \<Longrightarrow> segment_ref ss (seg_id s) = Some s"
proof (induction ss)
  case (Cons t ss)
  then show ?case
    using segment_ref_None_iff [of ss "seg_id s"] by (auto simp: segment_ref_Cons split: option.splits)
qed simp

text \<open>The state a replay meets: the segment of an accepted key holds a counter one past the match.\<close>

lemma replay_segment:
  assumes dist: "distinct (map seg_id (tm_segments m))" and adm: "commit_admissible m input"
    and s: "s \<in> set (hotp_segments m)" and c: "(seg_id s, c) \<in> set (ci_counterMatches input)"
    and m': "tm_segments m' = apply_matches (ci_counterMatches input) (tm_segments m)"
  shows "s\<lparr>seg_counter := Some (c + 1)\<rparr> \<in> set (tm_segments m')"
proof -
  have "distinct (map fst (ci_counterMatches input))" using adm by (simp add: commit_admissible_def)
  moreover from this c have "map_of (ci_counterMatches input) (seg_id s) = Some c" by simp
  ultimately have "segment_ref (tm_segments m') (seg_id s) = Some (s\<lparr>seg_counter := Some (c + 1)\<rparr>)"
    using s dist by (simp add: m' segment_ref_apply_matches segment_ref_member)
  then show ?thesis using segment_ref_SomeD by blast
qed

lemma replay_not_acceptable:
  assumes acc: "key_acceptable H key m now cfg" and dist: "distinct (map seg_id (tm_segments m))"
    and un: "unambiguous H cfg key m" and sec: "tm_sharedSecret m' = tm_sharedSecret m"
    and adm: "commit_admissible m input" and m': "tm_segments m' = apply_matches (ci_counterMatches input) (tm_segments m)"
    and us: "\<And>s. s \<in> set (hotp_segments m) \<Longrightarrow> \<exists>c. hotp_match H (tm_sharedSecret m) key cfg s = Some c \<and>
      (seg_id s, c) \<in> set (ci_counterMatches input)"
  shows "\<not> key_acceptable H key m' now' cfg"
proof
  assume acc': "key_acceptable H key m' now' cfg"
  obtain s where s: "s \<in> set (hotp_segments m)" and inj: "\<And>c c'. c < c' \<Longrightarrow> c' \<le> c + 1 + num_floor (cfg_hotpLookahead cfg) \<Longrightarrow>
        provided_value key s = seg_value H (tm_sharedSecret m) (hotp_input (seg_id s) c) (seg_len s) \<Longrightarrow>
        provided_value key s \<noteq> seg_value H (tm_sharedSecret m) (hotp_input (seg_id s) c') (seg_len s)"
    using un unfolding unambiguous_def by blast
  obtain c where c: "hotp_match H (tm_sharedSecret m) key cfg s = Some c" "(seg_id s, c) \<in> set (ci_counterMatches input)"
    using us [OF s] by blast
  let ?s = "s\<lparr>seg_counter := Some (c + 1)\<rparr>"
  have "?s \<in> set (tm_segments m')" by (rule replay_segment [OF dist adm s c(2) m'])
  with acc' s have "hotp_match H (tm_sharedSecret m) key cfg ?s \<noteq> None"
    by (fastforce simp: key_acceptable_def segment_matches_def sec)
  then obtain c' where c': "hotp_match H (tm_sharedSecret m) key cfg ?s = Some c'" by blast
  have pv: "provided_value key ?s = provided_value key s" by (simp add: provided_value_def)
  have "c < c'" "c' \<le> c + 1 + num_floor (cfg_hotpLookahead cfg)" using hotp_match_Some(1,2) [OF c'] by auto
  from inj [OF this hotp_match_Some(4) [OF c(1)]] hotp_match_Some(4) [OF c'] show False by (simp add: pv)
qed

text \<open>The matches of a validated key, for distinct segment identifiers.\<close>

lemma accepted_matches:
  assumes sec: "secret_ok (tm_sharedSecret m)" and acc: "key_acceptable H key m now cfg"
    and vr: "validateTSKKey H key m now cfg = Inr vr" and dist: "distinct (map seg_id (tm_segments m))"
    and s: "s \<in> set (hotp_segments m)"
  shows "\<exists>c. hotp_match H (tm_sharedSecret m) key cfg s = Some c \<and>
    (seg_id s, c) \<in> set (ci_counterMatches (commit_input vr usedAt))"
proof -
  let ?us = "fold (note_match H (tm_sharedSecret m) key cfg) (tm_segments m) []"
  have us: "nullish (vr_counterUpdates vr) [] = ?us" using vr validateTSKKey_accept [OF sec acc] by auto
  have "omap_has (seg_id s) ?us"
    using s acc by (intro fold_note_match_complete) (auto simp: key_acceptable_def segment_matches_def)
  then obtain u where u: "map_of ?us (seg_id s) = Some u" by blast
  from fold_note_match_sound [OF this] obtain s' where "s' \<in> set (tm_segments m)" "seg_id s' = seg_id s"
    "hotp_match H (tm_sharedSecret m) key cfg s' = Some (cu_matchedCounter u)" by auto
  moreover from this have "s' = s" using s dist by (auto simp: distinct_map dest: inj_onD)
  ultimately show ?thesis using map_of_SomeD [OF u] unfolding commit_input_def us by force
qed

text \<open>C4: a key works once. After a request with some key was accepted, a second request of the same
  client with the same key is rejected, whatever the clocks say, as long as a counter-based part of
  the key does not collide with a nearby later counter.\<close>

theorem replayed_key_rejected:
  assumes v1: "verifyTSKRequest memory_api H cfg ip t req st an = (st1, an1, Inr r1)" "tv_ok r1"
    and v2: "verifyTSKRequest memory_api H cfg ip' t' req' st1 an' = (st2, an2, Inr r2)"
    and same: "verify_parse req = Inr (cid, key)" "verify_parse req' = Inr (cid, key)"
    and m: "map_of (ms_maps st) cid = Some m" "distinct (map seg_id (tm_segments m))" "unambiguous H cfg key m"
  shows "\<not> tv_ok r2"
proof
  assume ok2: "tv_ok r2"
  obtain m' vr where m': "map_of (ms_maps st1) cid = Some m'"
    and vr: "validateTSKKey H key m (NInt (vt_validate t)) cfg = Inr vr" "vr_ok vr"
    and adm: "commit_admissible m (commit_input vr (vt_commit t))"
    and c: "fst (commitValidationToMap m (commit_input vr (vt_commit t))) = m'"
    using memst.verify_ok_at [OF v1 same(1) m(1)] by blast
  have sec: "secret_ok (tm_sharedSecret m)" and acc: "key_acceptable H key m (NInt (vt_validate t)) cfg"
    using validateTSKKey_ok_secret [OF vr] validateTSKKey_ok_acceptable [OF vr] by auto
  have segs: "tm_segments m' = apply_matches (ci_counterMatches (commit_input vr (vt_commit t))) (tm_segments m)" "same_but_usage m m'"
    using c by (auto intro: commit_ok [OF adm])
  have "\<not> key_acceptable H key m' (NInt (vt_validate t')) cfg"
    by (rule replay_not_acceptable [OF acc m(2,3) same_but_usage_simps(4) [OF segs(2)] adm segs(1)])
      (use accepted_matches [OF sec acc vr(1) m(2)] in simp)
  moreover obtain vr' where "validateTSKKey H key m' (NInt (vt_validate t')) cfg = Inr vr'" "vr_ok vr'"
    using memst.verify_ok_at [OF v2 ok2 same(2) m'] by blast
  ultimately show False using validateTSKKey_ok_acceptable by blast
qed

section \<open>Concurrent requests\<close>

text \<open>Requests run on one event loop and interleave at the store accesses. A request between its
  read and its write is pending with the decision it took on its snapshot.\<close>

record pending =
  pd_clientId :: string
  pd_next :: verify_next

record server_state =
  sv_store :: MemoryTumblerStore
  sv_pending :: "(nat \<times> pending) list"

datatype server_op =
    Start nat TSKRequestData verify_times "string option"
  | Finish nat
  | Remove string

fun server_exec :: "hmac_fn \<Rightarrow> TSKConfig \<Rightarrow> server_op \<Rightarrow> server_state \<Rightarrow> server_state" where
  "server_exec H cfg (Start rid req clk ip) sv =
     (case verify_parse req of
        Inl r \<Rightarrow> sv
      | Inr (cid, key) \<Rightarrow>
          (let (st1, got) = ms_get cid (vt_get clk) (sv_store sv) in
           case verify_decide H cfg ip clk cid key got of
             Inl e \<Rightarrow> sv\<lparr>sv_store := st1\<rparr>
           | Inr next \<Rightarrow> sv\<lparr>sv_store := st1,
                             sv_pending := omap_set rid \<lparr>pd_clientId = cid, pd_next = next\<rparr> (sv_pending sv)\<rparr>))"
| "server_exec H cfg (Finish rid) sv =
     (case map_of (sv_pending sv) rid of
        None \<Rightarrow> sv
      | Some p \<Rightarrow>
          sv\<lparr>sv_store := fst (verify_finish memory_api (pd_clientId p) (pd_next p) (sv_store sv)),
             sv_pending := omap_delete rid (sv_pending sv)\<rparr>)"
| "server_exec H cfg (Remove cid) sv = sv\<lparr>sv_store := ms_delete cid (sv_store sv)\<rparr>"

text \<open>The counters for which a request is told that it is authenticated.\<close>

fun server_accepted :: "server_op \<Rightarrow> server_state \<Rightarrow> ((string \<times> string) \<times> int) list" where
  "server_accepted (Finish rid) sv =
     (case map_of (sv_pending sv) rid of
        None \<Rightarrow> []
      | Some p \<Rightarrow>
          (case (pd_next p, snd (verify_finish memory_api (pd_clientId p) (pd_next p) (sv_store sv))) of
             (Commit input rcid, Inr r) \<Rightarrow>
               if tv_ok r then map (\<lambda>(sid, c). ((pd_clientId p, sid), c)) (ci_counterMatches input) else []
           | _ \<Rightarrow> []))"
| "server_accepted _ sv = []"

definition live_level :: "TumblerMap \<Rightarrow> string \<Rightarrow> int" where
  "live_level m sid = (if terminal m then TSK_MAX_HOTP_COUNTER else counter_level (tm_segments m) sid)"

definition server_level :: "server_state \<Rightarrow> string \<times> string \<Rightarrow> int" where
  "server_level sv k =
     (case map_of (ms_maps (sv_store sv)) (fst k) of
        None \<Rightarrow> TSK_MAX_HOTP_COUNTER
      | Some m \<Rightarrow> live_level m (snd k))"

fun next_ok :: "verify_next \<Rightarrow> bool" where
  "next_ok (Expire_and_reply m r) \<longleftrightarrow> terminal m \<and> counter_state_ok m \<and> distinct (map seg_id (tm_segments m))"
| "next_ok _ \<longleftrightarrow> True"

definition server_inv :: "server_state \<Rightarrow> bool" where
  "server_inv sv \<longleftrightarrow> maps_ok (sv_store sv) \<and> (\<forall>rid p. map_of (sv_pending sv) rid = Some p \<longrightarrow> next_ok (pd_next p))"

lemma live_level_le: "counter_state_ok m \<Longrightarrow> live_level m sid \<le> TSK_MAX_HOTP_COUNTER"
  using counter_level_le by (auto simp: live_level_def counter_state_ok_def)

lemma live_level_mono:
  "evolves m m' \<Longrightarrow> counter_state_ok m \<Longrightarrow> distinct (map seg_id (tm_segments m)) \<Longrightarrow> live_level m sid \<le> live_level m' sid"
  using live_level_le [of m sid] by (auto simp: live_level_def evolves_def)

lemma verify_decide_next_ok:
  assumes "verify_decide H cfg ip clk cid key got = Inr next"
    and "\<And>m. got = Some m \<Longrightarrow> counter_state_ok m \<and> distinct (map seg_id (tm_segments m))"
  shows "next_ok next"
  using assms
  by (auto simp: verify_decide_def bind_res_Inr_iff counter_state_ok_status terminal_def split: option.splits if_splits)

text \<open>The effects of the single store operations on the invariant and on the live levels.\<close>

lemma maps_okD: "maps_ok st \<Longrightarrow> map_of (ms_maps st) cid = Some m \<Longrightarrow> counter_state_ok m \<and> distinct (map seg_id (tm_segments m))"
  by (simp add: maps_ok_def)

definition store_level :: "MemoryTumblerStore \<Rightarrow> string \<times> string \<Rightarrow> int" where
  "store_level st k =
     (case map_of (ms_maps st) (fst k) of None \<Rightarrow> TSK_MAX_HOTP_COUNTER | Some m \<Rightarrow> live_level m (snd k))"

lemma server_level_store: "server_level sv k = store_level (sv_store sv) k"
  by (simp add: server_level_def store_level_def)

lemma store_level_le: "maps_ok st \<Longrightarrow> store_level st k \<le> TSK_MAX_HOTP_COUNTER"
  using live_level_le by (auto simp: store_level_def maps_ok_def split: option.splits)

lemma store_level_put:
  assumes "maps_ok st" and "map_of (ms_maps st') = (map_of (ms_maps st))(cid \<mapsto> m')"
    and "counter_state_ok m'" "distinct (map seg_id (tm_segments m'))"
    and "terminal m' \<or> (\<exists>m. map_of (ms_maps st) cid = Some m \<and> evolves m m')"
  shows "maps_ok st' \<and> store_level st k \<le> store_level st' k"
proof -
  have "store_level st k \<le> store_level st' k" if "fst k = cid"
    using assms(5)
  proof
    assume "terminal m'"
    then show ?thesis using that assms(2) store_level_le [OF assms(1), of k] by (simp add: store_level_def live_level_def)
  next
    assume "\<exists>m. map_of (ms_maps st) cid = Some m \<and> evolves m m'"
    then obtain m where m: "map_of (ms_maps st) cid = Some m" "evolves m m'" by blast
    then show ?thesis
      using that assms(2) live_level_mono [OF m(2), of "snd k"] maps_okD [OF assms(1) m(1)] by (simp add: store_level_def)
  qed
  moreover have "store_level st k = store_level st' k" if "fst k \<noteq> cid"
    using that assms(2) by (simp add: store_level_def)
  ultimately show ?thesis using assms by (force simp: maps_ok_def)
qed

lemma store_level_drop:
  assumes "maps_ok st" and "map_of (ms_maps st') = (map_of (ms_maps st))(cid := None)"
  shows "maps_ok st' \<and> store_level st k \<le> store_level st' k"
  using assms store_level_le [OF assms(1), of k] by (auto simp: maps_ok_def store_level_def)

lemma ms_get_level:
  assumes "maps_ok st" and "ms_get cid now st = (st', got)"
  shows "maps_ok st' \<and> store_level st k \<le> store_level st' k \<and>
    (\<forall>m. got = Some m \<longrightarrow> counter_state_ok m \<and> distinct (map seg_id (tm_segments m)))"
proof -
  have "maps_ok st' \<and> store_level st k \<le> store_level st' k"
    if "map_of (ms_maps st') = (map_of (ms_maps st))(cid := None)"
    using store_level_drop [OF assms(1) that] .
  moreover have "maps_ok st' \<and> store_level st k = store_level st' k" if "ms_maps st' = ms_maps st"
    using assms(1) that by (simp add: maps_ok_def store_level_def)
  moreover have "ms_maps st' = ms_maps st \<or> got = None \<and> map_of (ms_maps st') = (map_of (ms_maps st))(cid := None)"
    using assms(2) by (auto simp: ms_get_def split: option.splits if_splits)
  moreover have "got = Some m \<Longrightarrow> map_of (ms_maps st) cid = Some m" for m
    using assms(2) ms_get_lookup [of cid now st st' m] by auto
  ultimately show ?thesis using maps_okD [OF assms(1)] by fastforce
qed

lemma commit_keeps: "evolves m m' \<Longrightarrow> counter_state_ok m \<and> distinct (map seg_id (tm_segments m)) \<Longrightarrow>
   counter_state_ok m' \<and> distinct (map seg_id (tm_segments m'))"
  by (simp add: evolves_def)

lemma verify_finish_level:
  assumes ok: "maps_ok st" and nx: "next_ok next"
  shows "maps_ok (fst (verify_finish memory_api cid next st)) \<and>
    store_level st k \<le> store_level (fst (verify_finish memory_api cid next st)) k"
proof (cases "next")
  case (Reply r ev)
  then show ?thesis using ok by (simp add: verify_finish_def)
next
  case (Expire_and_reply m r)
  have "fst (ms_set cid m st) = st \<or> map_of (ms_maps (fst (ms_set cid m st))) = (map_of (ms_maps st))(cid \<mapsto> m)"
    by (auto simp: ms_set_def split: sum.splits)
  then show ?thesis
    using store_level_put [OF ok, of "fst (ms_set cid m st)" cid m k] ok nx Expire_and_reply
    by (auto simp: verify_finish_def memory_api_def case_prod_beta)
next
  case (Commit input rcid)
  show ?thesis
  proof (cases "map_of (ms_maps st) cid")
    case (Some m)
    obtain m' r where c: "commitValidationToMap m input = (m', r)" by force
    have "fst (verify_finish memory_api cid next st) = ms_mutate cid m' st"
      using Commit Some c by (simp add: verify_finish_def memory_api_def ms_commitValidation_def)
    then show ?thesis
      using store_level_put [OF ok, of "ms_mutate cid m' st" cid m' k] commit_evolves [OF c]
        commit_keeps [OF commit_evolves [OF c] maps_okD [OF ok Some]] Some
      by (simp add: ms_mutate_def)
  qed (use Commit ok in \<open>simp add: verify_finish_def memory_api_def ms_commitValidation_def\<close>)
qed

lemma server_exec_ledger:
  assumes inv: "server_inv sv"
  shows "server_inv (server_exec H cfg p sv) \<and> server_level sv k \<le> server_level (server_exec H cfg p sv) k"
proof (cases p)
  case (Start rid req clk ip)
  show ?thesis
  proof (cases "verify_parse req")
    case (Inr ck)
    obtain cid key where ck: "ck = (cid, key)" by force
    obtain st1 got where g: "ms_get cid (vt_get clk) (sv_store sv) = (st1, got)" by force
    have l: "maps_ok st1" "store_level (sv_store sv) k \<le> store_level st1 k"
      "\<And>m. got = Some m \<Longrightarrow> counter_state_ok m \<and> distinct (map seg_id (tm_segments m))"
      using ms_get_level [OF _ g, of k] inv by (auto simp: server_inv_def)
    show ?thesis
      using Start Inr ck g l inv verify_decide_next_ok [of H cfg ip clk cid key got]
      by (cases "verify_decide H cfg ip clk cid key got") (auto simp: server_inv_def server_level_store)
  qed (use Start inv in simp)
next
  case (Finish rid)
  show ?thesis
  proof (cases "map_of (sv_pending sv) rid")
    case (Some pd)
    have "maps_ok (sv_store sv)" "next_ok (pd_next pd)" using inv Some by (auto simp: server_inv_def)
    from verify_finish_level [OF this, of "pd_clientId pd" k] show ?thesis
      using Finish Some inv by (auto simp: server_inv_def server_level_store)
  qed (use Finish inv in simp)
next
  case (Remove cid)
  then show ?thesis
    using inv store_level_drop [of "sv_store sv" "ms_delete cid (sv_store sv)" cid k]
    by (auto simp: server_inv_def server_level_store ms_delete_def)
qed

lemma server_accepted_Finish:
  assumes "x \<in> set (server_accepted p sv)"
  obtains rid pd input rcid m m' r where "p = Finish rid" "map_of (sv_pending sv) rid = Some pd" "pd_next pd = Commit input rcid"
    "map_of (ms_maps (sv_store sv)) (pd_clientId pd) = Some m" "commitValidationToMap m input = (m', Inr r)" "cr_ok r"
    "server_accepted p sv = map (\<lambda>(sid, c). ((pd_clientId pd, sid), c)) (ci_counterMatches input)"
    "map_of (ms_maps (sv_store (server_exec H cfg p sv))) (pd_clientId pd) = Some m'"
proof -
  obtain rid where rid: "p = Finish rid" using assms by (cases p) simp_all
  then obtain pd where "map_of (sv_pending sv) rid = Some pd"
    using assms by (cases "map_of (sv_pending sv) rid") simp_all
  note p = rid this
  obtain input rcid where nx: "pd_next pd = Commit input rcid"
    using assms p by (cases "pd_next pd") auto
  obtain m where m: "map_of (ms_maps (sv_store sv)) (pd_clientId pd) = Some m"
    using assms p nx
    by (cases "map_of (ms_maps (sv_store sv)) (pd_clientId pd)")
      (auto simp: verify_finish_def memory_api_def ms_commitValidation_def verify_committed_def)
  obtain m' r where c: "commitValidationToMap m input = (m', Inr r)" using commit_never_throws by blast
  have f: "verify_finish memory_api (pd_clientId pd) (pd_next pd) (sv_store sv) =
      (ms_mutate (pd_clientId pd) m' (sv_store sv), Inr (verify_committed (pd_clientId pd) rcid r))"
    using nx m c by (simp add: verify_finish_def memory_api_def ms_commitValidation_def)
  have r: "cr_ok r" using assms p nx f by (auto simp: verify_committed_def split: if_splits)
  then have "server_accepted p sv = map (\<lambda>(sid, c). ((pd_clientId pd, sid), c)) (ci_counterMatches input)"
    using p nx f by (simp add: verify_committed_def)
  then show ?thesis using that [OF p nx m c r] p f by (simp add: ms_mutate_def)
qed

lemma server_accepted_level:
  assumes inv: "server_inv sv" and acc: "(k, c) \<in> set (server_accepted p sv)"
  shows "server_level sv k \<le> c \<and> c < server_level (server_exec H cfg p sv) k"
proof (rule server_accepted_Finish [OF acc, of H cfg])
  fix rid pd input rcid m m' r
  assume m: "map_of (ms_maps (sv_store sv)) (pd_clientId pd) = Some m" and c: "commitValidationToMap m input = (m', Inr r)" "cr_ok r"
    and eq: "server_accepted p sv = map (\<lambda>(sid, c). ((pd_clientId pd, sid), c)) (ci_counterMatches input)"
    and m': "map_of (ms_maps (sv_store (server_exec H cfg p sv))) (pd_clientId pd) = Some m'"
  have adm: "commit_admissible m input" using commit_success_iff [OF c(1)] c(2) by simp
  obtain sid where k: "k = (pd_clientId pd, sid)" "(sid, c) \<in> set (ci_counterMatches input)" using acc eq by auto
  have "c < TSK_MAX_HOTP_COUNTER" "\<not> terminal m" using adm k by (auto simp: commit_admissible_def)
  moreover have "tm_segments m' = apply_matches (ci_counterMatches input) (tm_segments m)"
    using c(1) by (auto intro: commit_ok [OF adm])
  ultimately show ?thesis
    using commit_levels(2) [OF adm k(2)] m m' k(1) by (simp add: server_level_def live_level_def)
qed

lemma server_accepted_distinct: "distinct (server_accepted p sv)"
proof (cases "server_accepted p sv")
  case (Cons x xs)
  then have "x \<in> set (server_accepted p sv)" by simp
  then show ?thesis
  proof (rule server_accepted_Finish)
    fix pd input m m' r
    assume "commitValidationToMap m input = (m', Inr r)" "cr_ok r"
      and eq: "server_accepted p sv = map (\<lambda>(sid, c). ((pd_clientId pd, sid), c)) (ci_counterMatches input)"
    then have "distinct (ci_counterMatches input)"
      using commit_success_iff by (fastforce simp: commit_admissible_def distinct_map)
    then show ?thesis unfolding eq by (auto simp: distinct_map inj_on_def)
  qed
qed simp

interpretation srv: counter_ledger "server_exec H cfg" server_accepted server_level server_inv for H cfg
  by unfold_locales (use server_exec_ledger server_accepted_level server_accepted_distinct in auto)

text \<open>C2: no counter is accepted twice under concurrency. However the reads and writes of any number
  of requests interleave, with maps being removed or marked expired from stale snapshots in
  between, the (client, segment, counter) triples of all accepted requests are different.\<close>

theorem concurrent_requests_never_reuse:
  assumes "server_inv sv"
  shows "distinct (concat (consumption (server_exec H cfg) server_accepted ops sv))"
  using assms by (rule srv.consumed_once)

section \<open>Honest requests are accepted\<close>

lemma fold_note_match_keys:
  assumes "\<forall>s \<in> set ss. seg_type s = Hotp \<longrightarrow> hotp_match H sec key cfg s \<noteq> None"
    and "distinct (map seg_id ss)" and "set (omap_keys us) \<inter> seg_id ` set ss = {}"
  shows "omap_keys (fold (note_match H sec key cfg) ss us) = omap_keys us @ map seg_id (filter (\<lambda>s. seg_type s = Hotp) ss)"
  using assms
proof (induction ss arbitrary: us)
  case (Cons s ss)
  show ?case
  proof (cases "seg_type s = Hotp")
    case True
    then obtain c where c: "hotp_match H sec key cfg s = Some c" using Cons.prems by auto
    have k: "omap_keys (note_match H sec key cfg s us) = omap_keys us @ [seg_id s]"
      using True c Cons.prems(3) by (simp add: note_match_def omap_keys_set)
    have "omap_keys (fold (note_match H sec key cfg) ss (note_match H sec key cfg s us)) =
        omap_keys (note_match H sec key cfg s us) @ map seg_id (filter (\<lambda>s. seg_type s = Hotp) ss)"
    proof (rule Cons.IH)
      show "set (omap_keys (note_match H sec key cfg s us)) \<inter> seg_id ` set ss = {}"
        unfolding k using Cons.prems by auto
    qed (use Cons.prems in auto)
    with True k show ?thesis by simp
  next
    case False
    then have "note_match H sec key cfg s us = us" by (simp add: note_match_def)
    with Cons False show ?thesis by auto
  qed
qed simp

lemma key_acceptable_hotp:
  "key_acceptable H key m now cfg \<Longrightarrow> \<forall>s \<in> set (tm_segments m). seg_type s = Hotp \<longrightarrow> hotp_match H (tm_sharedSecret m) key cfg s \<noteq> None"
  by (auto simp: key_acceptable_def segment_matches_def split: SegmentType.splits)

text \<open>The commit that follows a successful validation of a usable map goes through.\<close>

lemma validated_commit_admissible:
  assumes acc: "key_acceptable H key m now cfg" and vr: "validateTSKKey H key m now cfg = Inr vr" "vr_ok vr"
    and ok: "counter_state_ok m" "distinct (map seg_id (tm_segments m))" "\<not> terminal m"
    and ex: "case tm_expiresAt m of None \<Rightarrow> True | Some e \<Rightarrow> usedAt \<le> e"
    and mx: "case tm_maxRequests m of None \<Rightarrow> True | Some mx \<Rightarrow> 0 < mx \<longrightarrow> nullish (tm_requestCount m) 0 < mx"
  shows "commit_admissible m (commit_input vr usedAt)"
proof -
  have sec: "secret_ok (tm_sharedSecret m)" using vr by (rule validateTSKKey_ok_secret)
  define us where "us = fold (note_match H (tm_sharedSecret m) key cfg) (tm_segments m) []"
  have us: "nullish (vr_counterUpdates vr) [] = us"
    using vr(1) validateTSKKey_accept [OF sec acc] by (auto simp: us_def)
  have keys: "omap_keys us = map seg_id (hotp_segments m)"
    using fold_note_match_keys [OF _ ok(2), of H "tm_sharedSecret m" key cfg "[]"] key_acceptable_hotp [OF acc]
    by (simp add: us_def)
  have cm: "ci_counterMatches (commit_input vr usedAt) = map (\<lambda>(sid, u). (sid, cu_matchedCounter u)) us"
    by (simp add: commit_input_def us)
  have fst_eq: "map fst (ci_counterMatches (commit_input vr usedAt)) = map seg_id (hotp_segments m)"
    unfolding cm keys [symmetric] by (simp add: comp_def case_prod_beta)
  then have "length (ci_counterMatches (commit_input vr usedAt)) = length (hotp_segments m)" by (metis length_map)
  moreover have "distinct (map fst (ci_counterMatches (commit_input vr usedAt)))"
    unfolding fst_eq using ok(2) by (rule distinct_map_filter)
  moreover have "counter_level (tm_segments m) sid \<le> c \<and> 0 \<le> c \<and> c < TSK_MAX_HOTP_COUNTER"
    if "(sid, c) \<in> set (ci_counterMatches (commit_input vr usedAt))" for sid c
  proof -
    from that obtain u where u: "(sid, u) \<in> set us" "c = cu_matchedCounter u" unfolding cm by auto
    have "distinct (omap_keys us)" unfolding keys using ok(2) by (rule distinct_map_filter)
    with u have "map_of us sid = Some u" by simp
    from fold_note_match_sound [OF this [unfolded us_def]] obtain s where s: "s \<in> set (tm_segments m)" "seg_type s = Hotp"
      "seg_id s = sid" "hotp_match H (tm_sharedSecret m) key cfg s = Some c" using u(2) by auto
    have "segment_ref (tm_segments m) sid = Some s" using segment_ref_member [OF ok(2) s(1)] s(3) by simp
    moreover have "0 \<le> stored_counter s" using ok(1) s by (auto simp: counter_state_ok_def counters_valid_def)
    ultimately show ?thesis using hotp_match_Some [OF s(4)] s(2) by (simp add: counter_level_def)
  qed
  ultimately show ?thesis
    using ok ex mx unfolding commit_admissible_def commit_input_usedAt by blast
qed

lemma verify_acceptable:
  assumes p: "verify_parse req = Inr (cid, key)" and m: "ms_get cid (vt_get t) st = (st1, Some m)"
    and acc: "key_acceptable H key m (NInt (vt_validate t)) cfg" and sec: "secret_ok (tm_sharedSecret m)"
    and ok: "counter_state_ok m" "distinct (map seg_id (tm_segments m))" "\<not> terminal m"
    and ex: "case tm_expiresAt m of None \<Rightarrow> True | Some e \<Rightarrow> vt_expiry t \<le> e \<and> vt_commit t \<le> e"
    and mx: "case tm_maxRequests m of None \<Rightarrow> True | Some mx \<Rightarrow> 0 < mx \<longrightarrow> nullish (tm_requestCount m) 0 < mx"
  shows "\<exists>st' r. verifyTSKRequest memory_api H cfg ip t req st an = (st', an, Inr r) \<and> tv_ok r"
proof -
  obtain vr where vr: "validateTSKKey H key m (NInt (vt_validate t)) cfg = Inr vr" "vr_ok vr"
    using validateTSKKey_accept [OF sec acc] by auto
  have adm: "commit_admissible m (commit_input vr (vt_commit t))"
    using ex by (intro validated_commit_admissible [OF acc vr ok _ mx]) (auto split: option.splits)
  obtain m' r where c: "commitValidationToMap m (commit_input vr (vt_commit t)) = (m', Inr r)" "cr_ok r"
    using adm by (rule commit_ok)
  have "\<not> (case tm_expiresAt m of None \<Rightarrow> False | Some e \<Rightarrow> e < vt_expiry t)"
    "\<not> (case tm_maxRequests m of None \<Rightarrow> False | Some mx \<Rightarrow> 0 < mx \<and> mx \<le> nullish (tm_requestCount m) 0)"
    using ex mx by (auto split: option.splits)
  with ok(3) vr have d: "verify_decide H cfg ip t cid key (Some m) = Inr (Commit (commit_input vr (vt_commit t)) (vr_clientId vr))"
    by (simp add: verify_decide_def terminal_def)
  have "map_of (ms_maps st1) cid = Some m" using ms_get_lookup [OF m] by simp
  with c have "verify_finish memory_api cid (Commit (commit_input vr (vt_commit t)) (vr_clientId vr)) st1 =
      (ms_mutate cid m' st1, Inr (verify_committed cid (vr_clientId vr) r))"
    by (simp add: verify_finish_def memory_api_def ms_commitValidation_def)
  then show ?thesis
    using p m d c(2)
    by (simp add: verifyTSKRequest_def memory_api_def [THEN arg_cong [where f = api_get]] note_anomaly_def verify_committed_def)
qed

definition tsk_request :: "string \<Rightarrow> string \<Rightarrow> TSKRequestData" where
  "tsk_request cid key =
     \<lparr>req_headers = [(HEADER_CLIENT_ID, HString cid), (HEADER_KEY, HString key),
                     (HEADER_VERSION, HString TSK_PROTOCOL_VERSION)]\<rparr>"

lemma tsk_request_parse:
  "cid \<noteq> [] \<Longrightarrow> key \<noteq> [] \<Longrightarrow> length key \<le> 1024 \<Longrightarrow> verify_parse (tsk_request cid key) = Inr (cid, key)"
  by (simp add: verify_parse_def tsk_request_def getHeader_def HEADER_CLIENT_ID_def HEADER_KEY_def HEADER_VERSION_def
      TSK_PROTOCOL_VERSION_def TSK_MAX_KEY_HEADER_BYTES_def truthy_def)

text \<open>C5: honest requests are accepted. When the store returns a well-formed, usable map for a client
  whose clock and counters are within the tolerances, the client's generated key, sent with the
  three headers, is accepted.\<close>

theorem honest_request_accepted:
  assumes wf: "wf_layout m" "secret_ok (tm_sharedSecret m)" "config_fits cfg m"
    "list_all (clock_within cfg t_client (vt_validate t)) (tm_segments m)"
    "list_all (counter_within cfg counters) (tm_segments m)"
    and m: "ms_get cid (vt_get t) st = (stg, Some m)" and cid: "cid \<noteq> []"
    and ok: "counter_state_ok m" "distinct (map seg_id (tm_segments m))" "\<not> terminal m"
    and ex: "case tm_expiresAt m of None \<Rightarrow> True | Some e \<Rightarrow> vt_expiry t \<le> e \<and> vt_commit t \<le> e"
    and mx: "case tm_maxRequests m of None \<Rightarrow> True | Some mx \<Rightarrow> 0 < mx \<longrightarrow> nullish (tm_requestCount m) 0 < mx"
  shows "\<exists>key st' r.
    generateKeyFromClientPayload H (tm_sharedSecret m) (toProvisionPayload m) counters t_client = Inr key \<and>
    verifyTSKRequest memory_api H cfg ip t (tsk_request cid key) st an = (st', an, Inr r) \<and> tv_ok r"
proof (rule generated_key_acceptable [OF wf, of H])
  fix key
  assume gen: "generateKeyFromClientPayload H (tm_sharedSecret m) (toProvisionPayload m) counters t_client = Inr key"
    and acc: "key_acceptable H key m (NInt (vt_validate t)) cfg"
  have len: "int (length key) = tm_keyLength m" using acc by (simp add: key_acceptable_def request_well_formed_def)
  have "20 \<le> tm_keyLength m" "tm_keyLength m \<le> 512" using wf(1) by (auto simp: wf_layout_def tumbler_consts)
  with len have "key \<noteq> []" "length key \<le> 1024" by auto
  then have "verify_parse (tsk_request cid key) = Inr (cid, key)" using cid by (simp add: tsk_request_parse)
  from verify_acceptable [OF this m acc wf(2) ok ex mx] gen show ?thesis by blast
qed

section \<open>Examples\<close>

text \<open>A keyed hash that singles out one counter of the example map.\<close>

definition spike_hmac :: hmac_fn where
  "spike_hmac k d = (if d = utf8 (hotp_input ''seg_3'' 4) then -1 else 0)"

definition example_times :: "int \<Rightarrow> verify_times" where
  "example_times now = \<lparr>vt_get = now, vt_expiry = now, vt_validate = now, vt_anomaly = now, vt_record = now, vt_commit = now\<rparr>"

lemma example_store_get: "ms_get ''tsk_0'' 1000 example_store = (touchLRU ''tsk_0'' example_store, Some example_map)"
proof -
  have "tm_createdAt example_map = 0" by (simp add: example_map_def)
  moreover have "ms_maxAgeMs example_store = 7776000000" by code_simp
  ultimately show ?thesis by (simp add: ms_get_def example_store_maps)
qed

lemma example_request_conditions:
  "config_fits DEFAULT_TSK_CONFIG example_map"
  "list_all (clock_within DEFAULT_TSK_CONFIG 1000 (vt_validate (example_times 1000))) (tm_segments example_map)"
  "list_all (counter_within DEFAULT_TSK_CONFIG []) (tm_segments example_map)"
  "\<not> terminal example_map" "tm_expiresAt example_map = None" "tm_maxRequests example_map = None"
  by (simp_all add: config_fits_def DEFAULT_TSK_CONFIG_def example_map_def MAX_SAFE_INTEGER_def terminal_def
      example_segments_def clock_within_def counter_within_def TSK_MAX_HOTP_COUNTER_def window_index_def
      example_times_def list_ex_iff upto.simps)

theorem honest_request_accepted_witness:
  "\<exists>key st' r.
    generateKeyFromClientPayload spike_hmac (tm_sharedSecret example_map) (toProvisionPayload example_map) [] 1000 = Inr key \<and>
    verifyTSKRequest memory_api spike_hmac DEFAULT_TSK_CONFIG None (example_times 1000) (tsk_request ''tsk_0'' key) example_store None =
      (st', None, Inr r) \<and> tv_ok r"
  by (rule honest_request_accepted [where m = example_map and stg = "touchLRU ''tsk_0'' example_store"])
    (use example_request_conditions example_store_get example_map_state in \<open>simp_all add: example_times_def\<close>)

lemma spike_digest_ne: "take 8 (digest_b64url (-1)) \<noteq> take 8 (digest_b64url 0)"
proof
  assume eq: "take 8 (digest_b64url (-1)) = take 8 (digest_b64url 0)"
  have "digest_b64url (-1) ! 0 = digest_b64url 0 ! 0"
    using arg_cong [OF eq, of "\<lambda>xs. xs ! 0"] by simp
  moreover have "b64url_group (-1) 0 = 63" "b64url_group 0 0 = 0"
    by (simp_all add: b64url_group_def unsigned_drop_bit_eq unsigned_minus_1_eq_mask take_bit_eq_mod drop_bit_eq_div
        mask_eq_exp_minus_1)
  ultimately show False by (simp add: digest_b64url_def b64url_alphabet_def)
qed

lemma example_accepted:
  obtains key st' r where
    "verifyTSKRequest memory_api spike_hmac DEFAULT_TSK_CONFIG None (example_times 1000) (tsk_request ''tsk_0'' key) example_store None =
      (st', None, Inr r)" "tv_ok r" "verify_parse (tsk_request ''tsk_0'' key) = Inr (''tsk_0'', key)"
    "unambiguous spike_hmac DEFAULT_TSK_CONFIG key example_map"
proof (rule generated_key_acceptable [OF example_map_wf(1) _ example_request_conditions(1-3), of spike_hmac])
  let ?s = "example_segments ! 2"
  fix key
  assume acc: "key_acceptable spike_hmac key example_map (NInt (vt_validate (example_times 1000))) DEFAULT_TSK_CONFIG"
    and match: "\<And>s. s \<in> set (hotp_segments example_map) \<Longrightarrow> \<exists>c. hotp_match spike_hmac (tm_sharedSecret example_map) key DEFAULT_TSK_CONFIG s = Some c \<and>
       c \<le> nullish (map_of [] (seg_id s)) (stored_counter s)"
  have s: "?s \<in> set (hotp_segments example_map)" "stored_counter ?s = 4" "seg_id ?s = ''seg_3''" "seg_len ?s = 8"
    by (simp_all add: example_segments_def)
  obtain c where c: "hotp_match spike_hmac example_secret key DEFAULT_TSK_CONFIG ?s = Some c" "c \<le> 4"
    using match [OF s(1)] s(2) by auto
  then have c4: "c = 4" using hotp_match_Some(1) [OF c(1)] s(2) by simp
  have val: "seg_value spike_hmac example_secret (hotp_input ''seg_3'' n) 8 = take 8 (digest_b64url (if n = 4 then -1 else 0))" for n
    by (simp add: seg_value_def padOrTruncate_def js_slice_prefix hmacRaw_def spike_hmac_def hotp_input_def)
  note ne = spike_digest_ne
  have pv: "provided_value key ?s = take 8 (digest_b64url (-1))"
    using hotp_match_Some(4) [OF c(1)] c4 s val by simp
  have un: "unambiguous spike_hmac DEFAULT_TSK_CONFIG key example_map"
    unfolding unambiguous_def by (intro bexI [of _ ?s]) (use s pv val ne in auto)
  have "length key = 36" using acc by (simp add: key_acceptable_def request_well_formed_def example_map_def)
  then have p: "verify_parse (tsk_request ''tsk_0'' key) = Inr (''tsk_0'', key)" by (intro tsk_request_parse) auto
  obtain st' r where "verifyTSKRequest memory_api spike_hmac DEFAULT_TSK_CONFIG None (example_times 1000) (tsk_request ''tsk_0'' key) example_store None = (st', None, Inr r)" "tv_ok r"
    using verify_acceptable [OF p, of "example_times 1000" example_store "touchLRU ''tsk_0'' example_store" example_map spike_hmac
        DEFAULT_TSK_CONFIG None None] acc example_request_conditions(4-6) example_store_get example_map_state
    by (auto simp: example_times_def)
  then show ?thesis using that p un by blast
qed simp

theorem verify_accepts_only_valid_witness:
  "\<exists>key st' r. verifyTSKRequest memory_api spike_hmac DEFAULT_TSK_CONFIG None (example_times 1000) (tsk_request ''tsk_0'' key) example_store None =
      (st', None, Inr r) \<and> tv_ok r \<and>
     (\<exists>m'. map_of (ms_maps st') ''tsk_0'' = Some m' \<and> tm_requestCount m' = Some 1)"
proof (rule example_accepted)
  fix key st' r
  assume v: "verifyTSKRequest memory_api spike_hmac DEFAULT_TSK_CONFIG None (example_times 1000) (tsk_request ''tsk_0'' key) example_store None =
      (st', None, Inr r)" "tv_ok r" and p: "verify_parse (tsk_request ''tsk_0'' key) = Inr (''tsk_0'', key)"
  have rc: "tm_requestCount example_map = None" by (simp add: example_map_def)
  have "\<exists>m'. map_of (ms_maps st') ''tsk_0'' = Some m' \<and> tm_requestCount m' = Some 1"
    using verify_accepts_only_valid [OF v] p rc by (auto simp: example_store_maps)
  with v show ?thesis by blast
qed

theorem replayed_key_rejected_witness:
  "\<exists>key st' r st'' an r2.
     verifyTSKRequest memory_api spike_hmac DEFAULT_TSK_CONFIG None (example_times 1000) (tsk_request ''tsk_0'' key) example_store None =
       (st', None, Inr r) \<and> tv_ok r \<and>
     verifyTSKRequest memory_api spike_hmac DEFAULT_TSK_CONFIG None (example_times 1001) (tsk_request ''tsk_0'' key) st' None =
       (st'', an, r2) \<and> (case r2 of Inr r' \<Rightarrow> \<not> tv_ok r' | Inl e \<Rightarrow> True)"
proof (rule example_accepted)
  fix key st' r
  assume v: "verifyTSKRequest memory_api spike_hmac DEFAULT_TSK_CONFIG None (example_times 1000) (tsk_request ''tsk_0'' key) example_store None =
      (st', None, Inr r)" "tv_ok r" and p: "verify_parse (tsk_request ''tsk_0'' key) = Inr (''tsk_0'', key)"
    and un: "unambiguous spike_hmac DEFAULT_TSK_CONFIG key example_map"
  obtain st'' an r2 where v2: "verifyTSKRequest memory_api spike_hmac DEFAULT_TSK_CONFIG None (example_times 1001) (tsk_request ''tsk_0'' key) st' None = (st'', an, r2)"
    by (metis prod_cases3)
  have "case r2 of Inr r' \<Rightarrow> \<not> tv_ok r' | Inl e \<Rightarrow> True"
    using replayed_key_rejected [OF v _ p p _ example_map_state(2) un, of None "example_times 1001" None st'' an] v2
    by (auto simp: example_store_maps split: sum.splits)
  with v v2 show ?thesis by blast
qed

theorem concurrent_requests_never_reuse_witness:
  "server_inv \<lparr>sv_store = example_store, sv_pending = []\<rparr> \<and>
   distinct (concat (consumption (server_exec spike_hmac DEFAULT_TSK_CONFIG) server_accepted
     [Start 0 (tsk_request ''tsk_0'' ''k'') (example_times 1000) None, Start 1 (tsk_request ''tsk_0'' ''k'') (example_times 1000) None,
      Finish 1, Finish 0] \<lparr>sv_store = example_store, sv_pending = []\<rparr>))"
proof -
  have i: "server_inv \<lparr>sv_store = example_store, sv_pending = []\<rparr>"
    using example_store_ok by (simp add: server_inv_def)
  show ?thesis using i concurrent_requests_never_reuse [OF i] by blast
qed

end
