(* ===== verification/Provisioner.thy ===== *)
theory Provisioner
  imports Middleware
begin

text \<open>
  \<^verbatim>\<open>packages/server/src/provisioner.ts\<close>: the rate limiter, provisioning, revocation, replacement and
  metadata updates. The external authorizers are function arguments, the audit logger is the list of
  events it received, the store is a record of its operations. A refill is computed as
  \<open>elapsed * max div 60000\<close>, which is what \<^verbatim>\<open>Math.floor(elapsed / (60000 / max))\<close> gives when the rate
  divides 60000. Random bytes are an explicit stock; \<open>None\<close> means that the stock ran out.
\<close>

section \<open>Rate limiter\<close>

record bucket =
  bk_tokens :: int
  bk_lastRefill :: int

record MemoryProvisionRateLimiter =
  rl_buckets :: "(string \<times> bucket) list"
  rl_maxTokens :: int

definition new_MemoryProvisionRateLimiter :: "int \<Rightarrow> MemoryProvisionRateLimiter" where
  "new_MemoryProvisionRateLimiter maxPerMinute = \<lparr>rl_buckets = [], rl_maxTokens = maxPerMinute\<rparr>"

definition bucket_refill :: "int \<Rightarrow> int \<Rightarrow> bucket \<Rightarrow> bucket" where
  "bucket_refill maxTokens now b =
     (let elapsed = now - bk_lastRefill b;
          newTokens = elapsed * maxTokens div 60000
      in if 0 < newTokens
         then b\<lparr>bk_tokens := min maxTokens (bk_tokens b + newTokens), bk_lastRefill := now\<rparr>
         else b)"

definition rl_allow :: "string \<Rightarrow> int \<Rightarrow> MemoryProvisionRateLimiter \<Rightarrow> MemoryProvisionRateLimiter \<times> bool" where
  "rl_allow key now rl =
     (case map_of (rl_buckets rl) key of
        None \<Rightarrow>
          (rl\<lparr>rl_buckets := omap_set key \<lparr>bk_tokens = rl_maxTokens rl - 1, bk_lastRefill = now\<rparr> (rl_buckets rl)\<rparr>, True)
      | Some b \<Rightarrow>
          (let b' = bucket_refill (rl_maxTokens rl) now b in
           if bk_tokens b' \<le> 0
           then (rl\<lparr>rl_buckets := omap_set key b' (rl_buckets rl)\<rparr>, False)
           else (rl\<lparr>rl_buckets := omap_set key (b'\<lparr>bk_tokens := bk_tokens b' - 1\<rparr>) (rl_buckets rl)\<rparr>, True)))"

section \<open>Options\<close>

definition validateProvisionOptions :: "TumblerMapOptions \<Rightarrow> string option" where
  "validateProvisionOptions options =
     (if (case opt_keyLength options of None \<Rightarrow> False
          | Some k \<Rightarrow> \<not> Number_isInteger k \<or> num_lt k MIN_KEY_LENGTH \<or> num_gt k MAX_KEY_LENGTH)
      then Some ''INVALID_KEY_LENGTH: must be integer in [20, 512]''
      else if (case opt_minTumblers options of None \<Rightarrow> False | Some k \<Rightarrow> \<not> Number_isInteger k \<or> num_lt k MIN_TUMBLERS)
      then Some ''INVALID_MIN_TUMBLERS: must be integer >= 1''
      else if (case opt_maxTumblers options of None \<Rightarrow> False | Some k \<Rightarrow> \<not> Number_isInteger k \<or> num_gt k MAX_TUMBLERS)
      then Some ''INVALID_MAX_TUMBLERS: must be integer <= 8''
      else if (case (opt_minTumblers options, opt_maxTumblers options) of
                 (Some a, Some b) \<Rightarrow> num_floor b < num_floor a
               | _ \<Rightarrow> False)
      then Some ''INVALID_TUMBLER_RANGE: minTumblers must be <= maxTumblers''
      else case opt_allowedWindows options of
        None \<Rightarrow> None
      | Some ws \<Rightarrow>
          if ws = [] then Some ''INVALID_ALLOWED_WINDOWS: must be non-empty array''
          else if list_ex bad_window ws then Some ''INVALID_WINDOW_SEC''
          else None)"

definition isValidHOTPWarning :: "jsnum \<Rightarrow> bool" where
  "isValidHOTPWarning value \<longleftrightarrow>
     Number_isSafeInteger value \<and> num_ge value 1 \<and> num_le value TSK_MAX_HOTP_COUNTER"

record Lifecycle =
  lc_label :: "string option"
  lc_expiresAt :: "int option"
  lc_maxRequests :: "int option"
  lc_rotationWarningRequests :: "jsnum option"
  lc_hotpRotationWarningCounters :: "jsnum option"

text \<open>The part of the lifecycle block that \<^verbatim>\<open>provision\<close> and \<^verbatim>\<open>replaceKey\<close> write alike: cap and warning
  windows, with the early returns on invalid ones.\<close>

definition apply_limits :: "Lifecycle \<Rightarrow> TumblerMap \<Rightarrow> TumblerMap res" where
  "apply_limits lc m =
     (let m1 = (case lc_maxRequests lc of
                  Some mx \<Rightarrow> if 0 < mx then m\<lparr>tm_maxRequests := Some mx\<rparr> else m
                | None \<Rightarrow> m) in
      bind_res
        (case lc_rotationWarningRequests lc of
           None \<Rightarrow> Inr m1
         | Some w \<Rightarrow>
             if \<not> Number_isInteger w \<or> num_lt w 1 \<or>
                (case tm_maxRequests m1 of None \<Rightarrow> False | Some mx \<Rightarrow> num_gt w mx)
             then Inl ''INVALID_ROTATION_WARNING_REQUESTS''
             else Inr (m1\<lparr>tm_rotationWarningRequests := Some (num_floor w)\<rparr>)) (\<lambda>m2.
        case lc_hotpRotationWarningCounters lc of
           None \<Rightarrow> Inr m2
         | Some w \<Rightarrow>
             if \<not> isValidHOTPWarning w then Inl ''INVALID_HOTP_ROTATION_WARNING_COUNTERS''
             else Inr (m2\<lparr>tm_hotpRotationWarningCounters := Some (num_floor w)\<rparr>)))"

definition provision_map :: "Lifecycle option \<Rightarrow> TumblerMap \<Rightarrow> TumblerMap res" where
  "provision_map lifecycle m =
     bind_res
       (case lifecycle of
          None \<Rightarrow> Inr m
        | Some lc \<Rightarrow>
            (let m1 = (case lc_label lc of Some l \<Rightarrow> m\<lparr>tm_label := Some l\<rparr> | None \<Rightarrow> m);
                 m2 = (case lc_expiresAt lc of Some e \<Rightarrow> m1\<lparr>tm_expiresAt := Some e\<rparr> | None \<Rightarrow> m1)
             in apply_limits lc m2)) (\<lambda>m'.
       Inr (m'\<lparr>tm_status := Some Active, tm_requestCount := Some 0, tm_lastUsedAt := None\<rparr>))"

definition replacement_map :: "Lifecycle \<Rightarrow> TumblerMap \<Rightarrow> TumblerMap res" where
  "replacement_map lc m =
     apply_limits lc
       (m\<lparr>tm_status := Some Active, tm_requestCount := Some 0, tm_lastUsedAt := None,
          tm_label := lc_label lc, tm_expiresAt := lc_expiresAt lc\<rparr>)"

section \<open>The provisioner\<close>

record 's full_store_api = "'s store_api" +
  api_delete :: "string \<Rightarrow> 's \<Rightarrow> 's \<times> unit res"
  api_list :: "'s \<Rightarrow> 's \<times> string list res"
  api_replace :: "string \<Rightarrow> TumblerMap \<Rightarrow> 's \<Rightarrow> 's \<times> bool res"

datatype audit_event =
    Log_provision string "string option"
  | Log_revocation string string
  | Log_rateLimitExceeded string
  | Log_update string string string
  | Log_replacement string string string string

record ProvisionResult =
  pr_ok :: bool
  pr_clientId :: "string option"
  pr_payload :: "TSKProvisionPayload option"
  pr_tumblerMap :: "TumblerMap option"
  pr_error :: "string option"

definition provision_error :: "string \<Rightarrow> ProvisionResult" where
  "provision_error e =
     \<lparr>pr_ok = False, pr_clientId = None, pr_payload = None, pr_tumblerMap = None, pr_error = Some e\<rparr>"

definition provision_done :: "TumblerMap \<Rightarrow> ProvisionResult" where
  "provision_done m =
     \<lparr>pr_ok = True, pr_clientId = Some (tm_clientId m), pr_payload = Some (toProvisionPayload m),
      pr_tumblerMap = Some m, pr_error = None\<rparr>"

record 's TSKProvisioner =
  pv_store :: 's
  pv_limiter :: "MemoryProvisionRateLimiter option"
  pv_audit :: "audit_event list"
  pv_maxClients :: "int option"

text \<open>Rate limit and client limit.\<close>

definition provision_limited ::
  "'s full_store_api \<Rightarrow> string option \<Rightarrow> int \<Rightarrow> 's TSKProvisioner \<Rightarrow> 's TSKProvisioner \<times> string option res" where
  "provision_limited api requestorId now pv =
     (let (pv1, limited) =
        (case (pv_limiter pv, requestorId) of
           (Some rl, Some r) \<Rightarrow>
             if r \<noteq> []
             then (let (rl', ok) = rl_allow r now rl in
                   (pv\<lparr>pv_limiter := Some rl',
                       pv_audit := (if ok then pv_audit pv else pv_audit pv @ [Log_rateLimitExceeded r])\<rparr>, \<not> ok))
             else (pv, False)
         | _ \<Rightarrow> (pv, False))
      in if limited then (pv1, Inr (Some ''PROVISION_RATE_LIMIT_EXCEEDED''))
         else case pv_maxClients pv1 of
           None \<Rightarrow> (pv1, Inr None)
         | Some mx \<Rightarrow>
             (let (st, r) = api_list api (pv_store pv1) in
              (pv1\<lparr>pv_store := st\<rparr>,
               bind_res r (\<lambda>ids. Inr (if mx \<le> int (length ids) then Some ''PROVISION_CLIENT_LIMIT_REACHED'' else None)))))"

definition provision ::
  "'s full_store_api \<Rightarrow> TumblerMapOptions \<Rightarrow> string option \<Rightarrow> Lifecycle option \<Rightarrow> int \<Rightarrow> byte list \<Rightarrow>
   's TSKProvisioner \<Rightarrow> ('s TSKProvisioner \<times> ProvisionResult res) option" where
  "provision api options requestorId lifecycle now bs pv =
     (case provision_limited api requestorId now pv of
        (pv1, Inl e) \<Rightarrow> Some (pv1, Inl e)
      | (pv1, Inr (Some e)) \<Rightarrow> Some (pv1, Inr (provision_error e))
      | (pv1, Inr None) \<Rightarrow>
          (case validateProvisionOptions options of
             Some e \<Rightarrow> Some (pv1, Inr (provision_error e))
           | None \<Rightarrow>
               (case generateTumblerMap options now bs of
                  Starved \<Rightarrow> None
                | Thrown e \<Rightarrow> Some (pv1, Inr (provision_error e))
                | Drawn m0 _ \<Rightarrow>
                    (case provision_map lifecycle m0 of
                       Inl e \<Rightarrow> Some (pv1, Inr (provision_error e))
                     | Inr m \<Rightarrow>
                         (case api_set api (tm_clientId m) m (pv_store pv1) of
                            (st, Inl e) \<Rightarrow> Some (pv1\<lparr>pv_store := st\<rparr>, Inr (provision_error e))
                          | (st, Inr _) \<Rightarrow>
                              Some (pv1\<lparr>pv_store := st, pv_audit := pv_audit pv1 @ [Log_provision (tm_clientId m) requestorId]\<rparr>,
                                    Inr (provision_done m)))))))"

datatype lifecycle_action = Act_revoke | Act_update

type_synonym lifecycle_authorizer = "string \<Rightarrow> string \<Rightarrow> string \<Rightarrow> lifecycle_action \<Rightarrow> bool"

definition revoke ::
  "'s full_store_api \<Rightarrow> lifecycle_authorizer option \<Rightarrow> string \<Rightarrow> string \<Rightarrow> string \<Rightarrow> int \<Rightarrow>
   's TSKProvisioner \<Rightarrow> 's TSKProvisioner \<times> bool res" where
  "revoke api authorizer clientId requestorId reason now pv =
     (case authorizer of
        None \<Rightarrow> (pv, Inr False)
      | Some auth \<Rightarrow>
          if requestorId = [] \<or> reason = [] then (pv, Inr False)
          else if \<not> auth clientId requestorId reason Act_revoke then (pv, Inr False)
          else case api_get api clientId now (pv_store pv) of
            (st, Inl e) \<Rightarrow> (pv\<lparr>pv_store := st\<rparr>, Inl e)
          | (st, Inr None) \<Rightarrow> (pv\<lparr>pv_store := st\<rparr>, Inr False)
          | (st, Inr (Some _)) \<Rightarrow>
              (case api_delete api clientId st of
                 (st', Inl e) \<Rightarrow> (pv\<lparr>pv_store := st'\<rparr>, Inl e)
               | (st', Inr _) \<Rightarrow>
                   (pv\<lparr>pv_store := st', pv_audit := pv_audit pv @ [Log_revocation clientId requestorId]\<rparr>, Inr True)))"

definition replaceable :: "TumblerMap \<Rightarrow> bool" where
  "replaceable m \<longleftrightarrow> \<not> (tm_status m \<noteq> None \<and> tm_status m \<noteq> Some Active \<and> tm_status m \<noteq> Some Expiring)"

definition replaceKey ::
  "'s full_store_api \<Rightarrow> (string \<Rightarrow> string \<Rightarrow> string \<Rightarrow> bool) option \<Rightarrow> string \<Rightarrow> TumblerMapOptions \<Rightarrow> Lifecycle \<Rightarrow>
   string \<Rightarrow> string \<Rightarrow> int \<Rightarrow> byte list \<Rightarrow> 's TSKProvisioner \<Rightarrow> ('s TSKProvisioner \<times> ProvisionResult res) option" where
  "replaceKey api authorizer oldClientId options lifecycle requestorId reason now bs pv =
     (if authorizer = None \<or> requestorId = [] \<or> reason = [] \<or> \<not> the authorizer oldClientId requestorId reason
      then Some (pv, Inr (provision_error ''REPLACEMENT_NOT_AUTHORIZED''))
      else case api_get api oldClientId now (pv_store pv) of
        (st, Inl e) \<Rightarrow> Some (pv\<lparr>pv_store := st\<rparr>, Inl e)
      | (st, Inr old) \<Rightarrow>
          (let pv1 = pv\<lparr>pv_store := st\<rparr> in
           if (case old of None \<Rightarrow> True | Some m \<Rightarrow> \<not> replaceable m)
           then Some (pv1, Inr (provision_error ''REPLACEMENT_NOT_AVAILABLE''))
           else case validateProvisionOptions options of
             Some e \<Rightarrow> Some (pv1, Inr (provision_error e))
           | None \<Rightarrow>
               (case generateTumblerMap options now bs of
                  Starved \<Rightarrow> None
                | Thrown e \<Rightarrow> Some (pv1, Inr (provision_error e))
                | Drawn m0 _ \<Rightarrow>
                    (case replacement_map lifecycle m0 of
                       Inl e \<Rightarrow> Some (pv1, Inr (provision_error e))
                     | Inr m \<Rightarrow>
                         (case api_replace api oldClientId m st of
                            (st', Inl e) \<Rightarrow> Some (pv1\<lparr>pv_store := st'\<rparr>, Inr (provision_error e))
                          | (st', Inr False) \<Rightarrow>
                              Some (pv1\<lparr>pv_store := st'\<rparr>, Inr (provision_error ''REPLACEMENT_COMMIT_FAILED''))
                          | (st', Inr True) \<Rightarrow>
                              Some (pv1\<lparr>pv_store := st',
                                        pv_audit := pv_audit pv1 @ [Log_replacement oldClientId (tm_clientId m) requestorId reason]\<rparr>,
                                    Inr (provision_done m)))))))"

text \<open>A key of the update object that is present has an outer \<open>Some\<close>; \<^verbatim>\<open>null\<close> and \<^verbatim>\<open>undefined\<close> are the
  inner \<open>None\<close>.\<close>

record KeyUpdates =
  up_label :: "string option option"
  up_expiresAt :: "int option option"
  up_maxRequests :: "int option option"
  up_rotationWarningRequests :: "jsnum option option"
  up_hotpRotationWarningCounters :: "jsnum option option"
  up_status :: "KeyStatus option"

text \<open>Lines 385 to 414: the new map, or a refusal.\<close>

definition updated_map :: "KeyUpdates \<Rightarrow> TumblerMap \<Rightarrow> TumblerMap option" where
  "updated_map u existing =
     (if tm_status existing = Some Revoked \<or> tm_status existing = Some Expired then None
      else
        let m1 = (case up_label u of None \<Rightarrow> existing | Some l \<Rightarrow> existing\<lparr>tm_label := l\<rparr>);
            m2 = (case up_expiresAt u of None \<Rightarrow> m1 | Some e \<Rightarrow> m1\<lparr>tm_expiresAt := e\<rparr>);
            m3 = (case up_maxRequests u of None \<Rightarrow> m2 | Some x \<Rightarrow> m2\<lparr>tm_maxRequests := x\<rparr>) in
        if (case up_rotationWarningRequests u of
              Some (Some w) \<Rightarrow> \<not> Number_isInteger w \<or> num_lt w 1 \<or>
                (case tm_maxRequests m3 of None \<Rightarrow> False | Some mx \<Rightarrow> num_gt w mx)
            | _ \<Rightarrow> False)
        then None
        else
          let m4 = (case up_rotationWarningRequests u of
                      None \<Rightarrow> m3
                    | Some w \<Rightarrow> m3\<lparr>tm_rotationWarningRequests := map_option num_floor w\<rparr>) in
          if (case up_hotpRotationWarningCounters u of Some (Some w) \<Rightarrow> \<not> isValidHOTPWarning w | _ \<Rightarrow> False) then None
          else
            let m5 = (case up_hotpRotationWarningCounters u of
                        None \<Rightarrow> m4
                      | Some w \<Rightarrow> m4\<lparr>tm_hotpRotationWarningCounters := map_option num_floor w\<rparr>) in
            if up_status u = Some Revoked \<or> up_status u = Some Expired then Some (m5\<lparr>tm_status := up_status u\<rparr>)
            else if up_status u \<noteq> None \<and> up_status u \<noteq> tm_status existing then None
            else Some m5)"

definition updateKey ::
  "'s full_store_api \<Rightarrow> lifecycle_authorizer option \<Rightarrow> string \<Rightarrow> KeyUpdates \<Rightarrow> string \<Rightarrow> string \<Rightarrow> int \<Rightarrow>
   's TSKProvisioner \<Rightarrow> 's TSKProvisioner \<times> bool res" where
  "updateKey api authorizer clientId updates requestorId reason now pv =
     (case authorizer of
        None \<Rightarrow> (pv, Inr False)
      | Some auth \<Rightarrow>
          if requestorId = [] \<or> reason = [] then (pv, Inr False)
          else if \<not> auth clientId requestorId reason Act_update then (pv, Inr False)
          else case api_get api clientId now (pv_store pv) of
            (st, Inl e) \<Rightarrow> (pv\<lparr>pv_store := st\<rparr>, Inl e)
          | (st, Inr None) \<Rightarrow> (pv\<lparr>pv_store := st\<rparr>, Inr False)
          | (st, Inr (Some existing)) \<Rightarrow>
              (case updated_map updates existing of
                 None \<Rightarrow> (pv\<lparr>pv_store := st\<rparr>, Inr False)
               | Some updated \<Rightarrow>
                   (case api_set api clientId updated st of
                      (st', Inl e) \<Rightarrow> (pv\<lparr>pv_store := st'\<rparr>, Inl e)
                    | (st', Inr _) \<Rightarrow>
                        (pv\<lparr>pv_store := st', pv_audit := pv_audit pv @ [Log_update clientId requestorId reason]\<rparr>, Inr True))))"

record KeyView =
  kv_clientId :: string
  kv_label :: "string option"
  kv_status :: KeyStatus
  kv_createdAt :: int
  kv_expiresAt :: "int option"
  kv_maxRequests :: "int option"
  kv_rotationWarningRequests :: "int option"
  kv_hotpRotationWarningCounters :: "int option"
  kv_requestCount :: int
  kv_lastUsedAt :: "int option"
  kv_keyLength :: int
  kv_segmentCount :: nat

definition key_view :: "TumblerMap \<Rightarrow> KeyView" where
  "key_view m =
     \<lparr>kv_clientId = tm_clientId m, kv_label = tm_label m, kv_status = nullish (tm_status m) Active,
      kv_createdAt = tm_createdAt m, kv_expiresAt = tm_expiresAt m, kv_maxRequests = tm_maxRequests m,
      kv_rotationWarningRequests = tm_rotationWarningRequests m,
      kv_hotpRotationWarningCounters = tm_hotpRotationWarningCounters m,
      kv_requestCount = nullish (tm_requestCount m) 0, kv_lastUsedAt = tm_lastUsedAt m,
      kv_keyLength = tm_keyLength m, kv_segmentCount = length (tm_segments m)\<rparr>"

fun get_all :: "'s full_store_api \<Rightarrow> int \<Rightarrow> string list \<Rightarrow> 's \<Rightarrow> 's \<times> TumblerMap option list res" where
  "get_all api now [] st = (st, Inr [])"
| "get_all api now (cid # cids) st =
     (case api_get api cid now st of
        (st1, r) \<Rightarrow> (case get_all api now cids st1 of
                      (st2, rs) \<Rightarrow> (st2, bind_res r (\<lambda>m. bind_res rs (\<lambda>ms. Inr (m # ms))))))"

definition listKeys :: "'s full_store_api \<Rightarrow> int \<Rightarrow> 's TSKProvisioner \<Rightarrow> 's TSKProvisioner \<times> KeyView list res" where
  "listKeys api now pv =
     (case api_list api (pv_store pv) of
        (st, Inl e) \<Rightarrow> (pv\<lparr>pv_store := st\<rparr>, Inl e)
      | (st, Inr ids) \<Rightarrow>
          (case get_all api now ids st of
             (st', r) \<Rightarrow> (pv\<lparr>pv_store := st'\<rparr>, bind_res r (\<lambda>ms. Inr (map key_view (List.map_filter (\<lambda>x. x) ms))))))"

definition getKey :: "'s full_store_api \<Rightarrow> string \<Rightarrow> int \<Rightarrow> 's TSKProvisioner \<Rightarrow> 's TSKProvisioner \<times> KeyView option res" where
  "getKey api clientId now pv =
     (case api_get api clientId now (pv_store pv) of
        (st, r) \<Rightarrow> (pv\<lparr>pv_store := st\<rparr>, bind_res r (\<lambda>m. Inr (map_option key_view m))))"

definition memory_full_api :: "MemoryTumblerStore full_store_api" where
  "memory_full_api =
     \<lparr>api_get = (\<lambda>cid now st. let (st', m) = ms_get cid now st in (st', Inr m)),
      api_set = ms_set, api_commit = ms_commitValidation,
      api_delete = (\<lambda>cid st. (ms_delete cid st, Inr ())),
      api_list = (\<lambda>st. (st, Inr (ms_list st))), api_replace = ms_replaceCredential\<rparr>"

section \<open>The rate limit\<close>

text \<open>The number of allowed requests of one key at the given times.\<close>

fun allowed_count :: "string \<Rightarrow> int list \<Rightarrow> MemoryProvisionRateLimiter \<Rightarrow> int" where
  "allowed_count key [] rl = 0"
| "allowed_count key (t # ts) rl =
     (let (rl', ok) = rl_allow key t rl in (if ok then 1 else 0) + allowed_count key ts rl')"

lemma div_add_le: "a div 60000 + b div 60000 \<le> (a + b) div (60000 :: int)"
  by (simp add: div_add1_eq [of a b] pos_imp_zdiv_nonneg_iff)

lemma rl_allow_known:
  assumes "map_of (rl_buckets rl) key = Some b"
  shows "\<exists>b'. map_of (rl_buckets (fst (rl_allow key now rl))) key = Some b' \<and>
    bk_lastRefill b' = bk_lastRefill (bucket_refill (rl_maxTokens rl) now b) \<and>
    bk_tokens b' = bk_tokens (bucket_refill (rl_maxTokens rl) now b) - (if snd (rl_allow key now rl) then 1 else 0) \<and>
    (snd (rl_allow key now rl) \<longrightarrow> 0 < bk_tokens (bucket_refill (rl_maxTokens rl) now b)) \<and>
    rl_maxTokens (fst (rl_allow key now rl)) = rl_maxTokens rl"
  using assms by (auto simp: rl_allow_def Let_def)

lemma bucket_refill_bound:
  assumes "bk_lastRefill b \<le> now" and "0 < mx" and "now \<le> T"
  shows "bk_tokens (bucket_refill mx now b) + (T - bk_lastRefill (bucket_refill mx now b)) * mx div 60000 \<le>
      bk_tokens b + (T - bk_lastRefill b) * mx div 60000"
    and "bk_lastRefill (bucket_refill mx now b) \<le> now" and "0 \<le> bk_tokens b \<Longrightarrow> 0 \<le> bk_tokens (bucket_refill mx now b)"
proof -
  have "(now - bk_lastRefill b) * mx + (T - now) * mx = (T - bk_lastRefill b) * mx" by (simp add: algebra_simps)
  then have "(now - bk_lastRefill b) * mx div 60000 + (T - now) * mx div 60000 \<le> (T - bk_lastRefill b) * mx div 60000"
    using div_add_le [of "(now - bk_lastRefill b) * mx" "(T - now) * mx"] by simp
  note sum = this
  show "bk_tokens (bucket_refill mx now b) + (T - bk_lastRefill (bucket_refill mx now b)) * mx div 60000 \<le>
      bk_tokens b + (T - bk_lastRefill b) * mx div 60000"
  proof (cases "0 < (now - bk_lastRefill b) * mx div 60000")
    case True
    then have "bucket_refill mx now b =
        b\<lparr>bk_tokens := min mx (bk_tokens b + (now - bk_lastRefill b) * mx div 60000), bk_lastRefill := now\<rparr>"
      unfolding bucket_refill_def Let_def by (rule if_P)
    with sum show ?thesis by simp
  next
    case False
    then have "bucket_refill mx now b = b" unfolding bucket_refill_def Let_def by (rule if_not_P)
    then show ?thesis by simp
  qed
qed (use assms in \<open>auto simp: bucket_refill_def Let_def\<close>)

lemma allowed_count_bound:
  assumes "map_of (rl_buckets rl) key = Some b" and "0 \<le> bk_tokens b" and "0 < rl_maxTokens rl"
    and "sorted ts" and "\<forall>t \<in> set ts. bk_lastRefill b \<le> t \<and> t \<le> T" and "bk_lastRefill b \<le> T"
  shows "allowed_count key ts rl \<le> bk_tokens b + (T - bk_lastRefill b) * rl_maxTokens rl div 60000"
  using assms
proof (induction ts arbitrary: rl b)
  case Nil
  have "0 \<le> (T - bk_lastRefill b) * rl_maxTokens rl"
    using Nil.prems by (intro mult_nonneg_nonneg) auto
  then have "0 \<le> (T - bk_lastRefill b) * rl_maxTokens rl div 60000" by (simp add: pos_imp_zdiv_nonneg_iff)
  with Nil.prems show ?case by simp
next
  case (Cons t ts)
  let ?mx = "rl_maxTokens rl" and ?rl = "fst (rl_allow key t rl)" and ?b = "bucket_refill (rl_maxTokens rl) t b"
  obtain b' where b': "map_of (rl_buckets ?rl) key = Some b'" "bk_lastRefill b' = bk_lastRefill ?b"
    "bk_tokens b' = bk_tokens ?b - (if snd (rl_allow key t rl) then 1 else 0)"
    "snd (rl_allow key t rl) \<longrightarrow> 0 < bk_tokens ?b" "rl_maxTokens ?rl = ?mx"
    using rl_allow_known [OF Cons.prems(1)] by blast
  note r = bucket_refill_bound [of b t ?mx T]
  have t: "bk_lastRefill b \<le> t" "t \<le> T" "0 < ?mx" using Cons.prems by auto
  have "allowed_count key ts ?rl \<le> bk_tokens b' + (T - bk_lastRefill b') * rl_maxTokens ?rl div 60000"
  proof (rule Cons.IH [OF b'(1)])
    show "0 \<le> bk_tokens b'" using b'(3,4) r(3) t Cons.prems(2) by auto
    show "\<forall>u \<in> set ts. bk_lastRefill b' \<le> u \<and> u \<le> T" using b'(2) r(2) t Cons.prems(4,5) by fastforce
    show "bk_lastRefill b' \<le> T" using b'(2) r(2) t by simp
  qed (use b'(5) Cons.prems in auto)
  moreover have "allowed_count key (t # ts) rl = (if snd (rl_allow key t rl) then 1 else 0) + allowed_count key ts ?rl"
    by (simp add: case_prod_beta)
  ultimately show ?case using r(1) t b'(2,3,5) by (auto split: if_splits)
qed



section \<open>Provisioning\<close>

text \<open>A map whose credential (identity, secret, layout, counters) is that of another.\<close>

definition same_credential :: "TumblerMap \<Rightarrow> TumblerMap \<Rightarrow> bool" where
  "same_credential m m' \<longleftrightarrow>
     tm_clientId m' = tm_clientId m \<and> tm_sharedSecret m' = tm_sharedSecret m \<and> tm_keyLength m' = tm_keyLength m \<and>
     tm_segments m' = tm_segments m \<and> tm_checksum m' = tm_checksum m \<and> tm_createdAt m' = tm_createdAt m \<and>
     tm_version m' = tm_version m"

definition unused_like :: "TumblerMap \<Rightarrow> TumblerMap \<Rightarrow> bool" where
  "unused_like m m' \<longleftrightarrow> same_credential m m' \<and> tm_status m' = tm_status m \<and> tm_requestCount m' = tm_requestCount m \<and>
    tm_lastUsedAt m' = tm_lastUsedAt m"

lemma unused_like_trans: "unused_like a b \<Longrightarrow> unused_like b c \<Longrightarrow> unused_like a c"
  by (simp add: unused_like_def same_credential_def)

lemma unused_like_updates [simp]:
  "unused_like m (m\<lparr>tm_maxRequests := x\<rparr>)" "unused_like m (m\<lparr>tm_rotationWarningRequests := y\<rparr>)"
  "unused_like m (m\<lparr>tm_hotpRotationWarningCounters := y\<rparr>)" "unused_like m (m\<lparr>tm_label := z\<rparr>)"
  "unused_like m (m\<lparr>tm_expiresAt := x\<rparr>)" "unused_like m m"
  by (simp_all add: unused_like_def same_credential_def)

lemma isValidHOTPWarning_bounds: "isValidHOTPWarning x \<Longrightarrow> 1 \<le> num_floor x \<and> num_floor x \<le> TSK_MAX_HOTP_COUNTER"
  by (auto simp: isValidHOTPWarning_def isSafeInteger_iff)

lemma apply_limits_credential:
  assumes "apply_limits lc m = Inr m'"
  shows "unused_like m m' \<and> (warning_ok m \<longrightarrow> warning_ok m')"
proof -
  define m1 where "m1 = (case lc_maxRequests lc of Some mx \<Rightarrow> if 0 < mx then m\<lparr>tm_maxRequests := Some mx\<rparr> else m | None \<Rightarrow> m)"
  define r2 where "r2 = (case lc_rotationWarningRequests lc of
           None \<Rightarrow> Inr m1
         | Some w \<Rightarrow>
             if \<not> Number_isInteger w \<or> num_lt w 1 \<or>
                (case tm_maxRequests m1 of None \<Rightarrow> False | Some mx \<Rightarrow> num_gt w mx)
             then Inl ''INVALID_ROTATION_WARNING_REQUESTS''
             else Inr (m1\<lparr>tm_rotationWarningRequests := Some (num_floor w)\<rparr>))"
  have m1: "unused_like m m1" "warning_ok m \<longrightarrow> warning_ok m1"
    by (auto simp: m1_def warning_ok_def split: option.splits)
  obtain m2 where m2: "r2 = Inr m2"
    and m': "(case lc_hotpRotationWarningCounters lc of None \<Rightarrow> Inr m2
         | Some w \<Rightarrow> if \<not> isValidHOTPWarning w then Inl ''INVALID_HOTP_ROTATION_WARNING_COUNTERS''
             else Inr (m2\<lparr>tm_hotpRotationWarningCounters := Some (num_floor w)\<rparr>)) = Inr m'"
    using assms unfolding apply_limits_def Let_def m1_def [symmetric] r2_def [symmetric] bind_res_Inr_iff by blast
  have "unused_like m1 m2" "warning_ok m1 \<longrightarrow> warning_ok m2"
    using m2 by (auto simp: r2_def warning_ok_def split: option.splits if_splits)
  moreover have "unused_like m2 m'" "warning_ok m2 \<longrightarrow> warning_ok m'"
    using m' by (auto simp: warning_ok_def dest: isValidHOTPWarning_bounds split: option.splits if_splits)
  ultimately show ?thesis using m1 unused_like_trans by blast
qed

lemma provision_map_credential:
  assumes "provision_map lc m = Inr m'"
  shows "same_credential m m' \<and> tm_status m' = Some Active \<and> tm_requestCount m' = Some 0 \<and> (warning_ok m \<longrightarrow> warning_ok m')"
proof (cases lc)
  case None
  then show ?thesis using assms by (auto simp: provision_map_def same_credential_def warning_ok_def)
next
  case (Some l)
  then obtain m1 where m1: "apply_limits l (case lc_expiresAt l of Some e \<Rightarrow> (case lc_label l of Some l \<Rightarrow> m\<lparr>tm_label := Some l\<rparr> | None \<Rightarrow> m)\<lparr>tm_expiresAt := Some e\<rparr>
      | None \<Rightarrow> (case lc_label l of Some l \<Rightarrow> m\<lparr>tm_label := Some l\<rparr> | None \<Rightarrow> m)) = Inr m1"
    and m': "m' = m1\<lparr>tm_status := Some Active, tm_requestCount := Some 0, tm_lastUsedAt := None\<rparr>"
    using assms by (auto simp: provision_map_def bind_res_Inr_iff Let_def)
  have "unused_like m (case lc_expiresAt l of Some e \<Rightarrow> (case lc_label l of Some l \<Rightarrow> m\<lparr>tm_label := Some l\<rparr> | None \<Rightarrow> m)\<lparr>tm_expiresAt := Some e\<rparr>
      | None \<Rightarrow> (case lc_label l of Some l \<Rightarrow> m\<lparr>tm_label := Some l\<rparr> | None \<Rightarrow> m)) \<and> (warning_ok m \<longrightarrow> warning_ok (case lc_expiresAt l of Some e \<Rightarrow> (case lc_label l of Some l \<Rightarrow> m\<lparr>tm_label := Some l\<rparr> | None \<Rightarrow> m)\<lparr>tm_expiresAt := Some e\<rparr>
      | None \<Rightarrow> (case lc_label l of Some l \<Rightarrow> m\<lparr>tm_label := Some l\<rparr> | None \<Rightarrow> m)))" (is "unused_like m ?m \<and> _")
    by (auto simp: unused_like_def same_credential_def warning_ok_def split: option.splits)
  with apply_limits_credential [OF m1] have "unused_like m m1" "warning_ok m \<longrightarrow> warning_ok m1"
    using unused_like_trans [of m ?m m1] by auto
  then show ?thesis by (simp add: m' unused_like_def same_credential_def warning_ok_def)
qed

lemma generated_map_facts:
  assumes "generateTumblerMap opts now bs = Drawn m bs'"
  shows "tm_hotpRotationWarningCounters m = None" and "tm_createdAt m = now"
  using assms by (auto simp: generateTumblerMap_def rbind_Drawn_iff rlift_Drawn_iff Let_def)

lemma wf_layout_credential: "same_credential m m' \<Longrightarrow> wf_layout m \<Longrightarrow> wf_layout m'"
  by (simp add: same_credential_def wf_layout_def)

lemma fresh_counter_state:
  assumes "generateTumblerMap opts now bs = Drawn m bs'" and "same_credential m m'" and "warning_ok m'"
  shows "counter_state_ok m' \<and> wf_layout m' \<and> secret_ok (tm_sharedSecret m')"
proof -
  note g = generated_map_wf [OF assms(1)]
  have "stored_counter s = 0" if "s \<in> set (tm_segments m)" "seg_type s = Hotp" for s using g that by auto
  then have "counters_valid (tm_segments m)" "0 \<notin> remaining_uses (tm_segments m)"
    by (auto simp: counters_valid_def remaining_uses_def TSK_MAX_HOTP_COUNTER_def)
  moreover have "hotp_segments m \<noteq> []" using g by (simp add: wf_layout_def)
  ultimately show ?thesis
    using assms(2,3) g wf_layout_credential [OF assms(2)] by (simp add: counter_state_ok_def same_credential_def)
qed

lemma provision_limited_memory:
  assumes "provision_limited memory_full_api rid now pv = (pv1, r)"
  shows "pv_store pv1 = pv_store pv \<and> (\<exists>x. r = Inr x)"
  using assms
  by (auto simp: provision_limited_def memory_full_api_def Let_def case_prod_beta split: option.splits if_splits)

lemma ms_set_Inr:
  "ms_set cid m st = (st', Inr u) \<Longrightarrow> map_of (ms_maps st') = (map_of (ms_maps st))(cid \<mapsto> m) \<and> counter_state_ok m"
  using assertTumblerMapCounterState_iff [of m]
  by (auto simp: ms_set_def touchLRU_def split: if_splits sum.splits)

lemma ms_set_Inl: "ms_set cid m st = (st', Inl e) \<Longrightarrow> st' = st"
  by (auto simp: ms_set_def split: if_splits sum.splits)

text \<open>C23: provisioning is all or nothing. It never lets an exception escape; a success stores exactly
  the returned map, well formed, active, unused and with a valid secret, under its own client
  identifier, hands out the payload of that map and leaves every other client alone; a failure
  names an error and leaves the stored maps as they were.\<close>

theorem provision_all_or_nothing:
  assumes "provision memory_full_api options rid lc now bs pv = Some (pv', out)"
  shows "\<exists>r. out = Inr r \<and>
    (if pr_ok r
     then \<exists>m. r = provision_done m \<and> wf_layout m \<and> secret_ok (tm_sharedSecret m) \<and> counter_state_ok m \<and>
       tm_status m = Some Active \<and> tm_requestCount m = Some 0 \<and>
       map_of (ms_maps (pv_store pv')) = (map_of (ms_maps (pv_store pv)))(tm_clientId m \<mapsto> m)
     else pr_error r \<noteq> None \<and> ms_maps (pv_store pv') = ms_maps (pv_store pv))"
proof -
  obtain pv1 lim where l: "provision_limited memory_full_api rid now pv = (pv1, Inr lim)" and st: "pv_store pv1 = pv_store pv"
    using provision_limited_memory by (metis surj_pair)
  have err: "pr_ok (provision_error e) = False" "pr_error (provision_error e) = Some e" for e
    by (simp_all add: provision_error_def)
  show ?thesis
  proof (cases "lim \<noteq> None \<or> validateProvisionOptions options \<noteq> None")
    case True
    then show ?thesis using assms l st err by (auto simp: provision_def split: option.splits)
  next
    case False
    then have nl: "lim = None" "validateProvisionOptions options = None" by auto
    show ?thesis
    proof (cases "generateTumblerMap options now bs")
      case (Drawn m0 bs')
      show ?thesis
      proof (cases "provision_map lc m0")
        case (Inr m)
        obtain st' u where set: "ms_set (tm_clientId m) m (pv_store pv1) = (st', u)" by force
        have c: "same_credential m0 m" "tm_status m = Some Active" "tm_requestCount m = Some 0" "warning_ok m"
          using provision_map_credential [OF Inr] generated_map_facts(1) [OF Drawn] by (auto simp: warning_ok_def)
        have eq: "provision memory_full_api options rid lc now bs pv =
            (case (st', u) of (st, Inl e) \<Rightarrow> Some (pv1\<lparr>pv_store := st\<rparr>, Inr (provision_error e))
             | (st, Inr _) \<Rightarrow> Some (pv1\<lparr>pv_store := st, pv_audit := pv_audit pv1 @ [Log_provision (tm_clientId m) rid]\<rparr>,
                                    Inr (provision_done m)))"
          using l nl Drawn Inr set by (simp add: provision_def memory_full_api_def)
        show ?thesis
        proof (cases u)
          case (Inl e)
          then show ?thesis using assms eq err st ms_set_Inl [OF set [unfolded Inl]] by auto
        next
          case ok: (Inr x)
          then show ?thesis
            using assms eq c fresh_counter_state [OF Drawn c(1,4)] ms_set_Inr [OF set [unfolded ok]] st
            by (auto simp: provision_done_def)
        qed
      qed (use assms l nl Drawn st err in \<open>auto simp: provision_def\<close>)
    qed (use assms l nl st err in \<open>auto simp: provision_def\<close>)
  qed
qed

section \<open>Metadata updates\<close>

lemma updated_map_cases:
  assumes "updated_map u m = Some m'"
  shows "\<not> terminal m \<and> same_credential m m' \<and> tm_requestCount m' = tm_requestCount m \<and> tm_lastUsedAt m' = tm_lastUsedAt m \<and>
    (tm_status m' = tm_status m \<or> terminal m') \<and> (warning_ok m \<longrightarrow> warning_ok m') \<and>
    (up_expiresAt u = None \<longrightarrow> tm_expiresAt m' = tm_expiresAt m) \<and>
    (up_maxRequests u = None \<longrightarrow> tm_maxRequests m' = tm_maxRequests m) \<and>
    (up_status u = None \<longrightarrow> tm_status m' = tm_status m)"
proof -
  define m1 where "m1 = (case up_label u of None \<Rightarrow> m | Some l \<Rightarrow> m\<lparr>tm_label := l\<rparr>)"
  define m2 where "m2 = (case up_expiresAt u of None \<Rightarrow> m1 | Some e \<Rightarrow> m1\<lparr>tm_expiresAt := e\<rparr>)"
  define m3 where "m3 = (case up_maxRequests u of None \<Rightarrow> m2 | Some x \<Rightarrow> m2\<lparr>tm_maxRequests := x\<rparr>)"
  define m4 where "m4 = (case up_rotationWarningRequests u of None \<Rightarrow> m3 | Some w \<Rightarrow> m3\<lparr>tm_rotationWarningRequests := map_option num_floor w\<rparr>)"
  define m5 where "m5 = (case up_hotpRotationWarningCounters u of None \<Rightarrow> m4 | Some w \<Rightarrow> m4\<lparr>tm_hotpRotationWarningCounters := map_option num_floor w\<rparr>)"
  have c: "\<not> (case up_hotpRotationWarningCounters u of Some (Some w) \<Rightarrow> \<not> isValidHOTPWarning w | _ \<Rightarrow> False)"
    "\<not> terminal m" "m' = m5\<lparr>tm_status := up_status u\<rparr> \<and> (up_status u = Some Revoked \<or> up_status u = Some Expired) \<or>
      m' = m5 \<and> up_status u \<noteq> Some Revoked \<and> up_status u \<noteq> Some Expired"
    using assms unfolding updated_map_def Let_def m1_def [symmetric] m2_def [symmetric] m3_def [symmetric] m4_def [symmetric] m5_def [symmetric]
    by (auto simp: terminal_def split: if_splits)
  have "unused_like m m1" "unused_like m1 m2" "unused_like m2 m3" "unused_like m3 m4" "unused_like m4 m5"
    by (simp_all add: m1_def m2_def m3_def m4_def m5_def split: option.splits)
  then have l: "unused_like m m5" by (meson unused_like_trans)
  have "tm_hotpRotationWarningCounters m4 = tm_hotpRotationWarningCounters m"
    by (simp add: m1_def m2_def m3_def m4_def split: option.splits)
  then have w: "warning_ok m \<longrightarrow> warning_ok m5"
    using c(1) by (auto simp: m5_def warning_ok_def dest: isValidHOTPWarning_bounds split: option.splits)
  have e: "up_expiresAt u = None \<longrightarrow> tm_expiresAt m5 = tm_expiresAt m" "up_maxRequests u = None \<longrightarrow> tm_maxRequests m5 = tm_maxRequests m"
    by (simp_all add: m1_def m2_def m3_def m4_def m5_def split: option.splits)
  show ?thesis
    using c(2,3) l w e by (auto simp: unused_like_def same_credential_def terminal_def warning_ok_def)
qed

text \<open>A metadata update never reactivates or alters a credential. It is refused on a revoked or
  expired one; otherwise identity, secret, layout, counters and usage stay, and the status either
  stays or becomes revoked or expired.\<close>

theorem update_never_reactivates:
  assumes "updated_map u m = Some m'"
  shows "\<not> terminal m \<and> same_credential m m' \<and> tm_requestCount m' = tm_requestCount m \<and>
    (tm_status m' = tm_status m \<or> tm_status m' = Some Revoked \<or> tm_status m' = Some Expired)"
  using updated_map_cases [OF assms] by (auto simp: terminal_def)

text \<open>An update that straddles a request loses the request's commit. \<^verbatim>\<open>updateKey\<close> reads the map and later
  writes the whole of it back: when a request commits in between, the write restores the consumed
  counters, and the very same matches are accepted a second time.\<close>

theorem stale_update_reopens_counters:
  assumes m: "map_of (ms_maps st) cid = Some m" and u: "updated_map u m = Some m'"
    and keep: "up_status u = None" "up_expiresAt u = None" "up_maxRequests u = None"
    and adm: "commit_admissible m input"
  shows "\<exists>st1 r1 st2 st3 r2.
    ms_commitValidation cid input st = (st1, Inr r1) \<and> cr_ok r1 \<and>
    ms_set cid m' st1 = (st2, Inr ()) \<and>
    ms_commitValidation cid input st2 = (st3, Inr r2) \<and> cr_ok r2"
proof -
  note c = updated_map_cases [OF u]
  have ok: "counter_state_ok m'"
    using c adm by (auto simp: counter_state_ok_def commit_admissible_def same_credential_def terminal_def)
  have adm': "commit_admissible m' input"
    using c adm ok keep by (simp add: commit_admissible_def same_credential_def terminal_def split: option.splits)
  obtain m1 r1 where c1: "commitValidationToMap m input = (m1, Inr r1)" "cr_ok r1" using adm by (rule commit_ok)
  obtain m2 r2 where c2: "commitValidationToMap m' input = (m2, Inr r2)" "cr_ok r2" using adm' by (rule commit_ok)
  define st1 where "st1 = ms_mutate cid m1 st"
  have s1: "ms_commitValidation cid input st = (st1, Inr r1)" using m c1 by (simp add: ms_commitValidation_def st1_def)
  have "omap_has cid (ms_maps st1)" by (simp add: st1_def ms_mutate_def)
  moreover have "assertTumblerMapCounterState m' = Inr ()" using ok by (simp add: assertTumblerMapCounterState_iff)
  ultimately obtain st2 where s2: "ms_set cid m' st1 = (st2, Inr ())" by (simp add: ms_set_def)
  have "map_of (ms_maps st2) cid = Some m'" using ms_set_Inr [OF s2] by simp
  then have "ms_commitValidation cid input st2 = (ms_mutate cid m2 st2, Inr r2)" using c2 by (simp add: ms_commitValidation_def)
  with s1 s2 c1 c2 show ?thesis by blast
qed

section \<open>Replacement\<close>

lemma replacement_map_credential:
  assumes "replacement_map lc m = Inr m'"
  shows "same_credential m m' \<and> tm_status m' = Some Active \<and> tm_requestCount m' = Some 0 \<and> (warning_ok m \<longrightarrow> warning_ok m')"
  using apply_limits_credential [OF assms [unfolded replacement_map_def]]
  by (simp add: unused_like_def same_credential_def warning_ok_def)

lemma ms_replaceCredential_True:
  assumes "ms_replaceCredential old m st = (st', Inr True)"
  shows "\<not> omap_has (tm_clientId m) (ms_maps st) \<and> map_of (ms_maps st') (tm_clientId m) = Some m \<and>
    (\<forall>x. map_of (ms_maps st') old = Some x \<longrightarrow> tm_status x = Some Revoked) \<and>
    (\<forall>cid. cid \<noteq> old \<longrightarrow> cid \<noteq> tm_clientId m \<longrightarrow> map_of (ms_maps st') cid = map_of (ms_maps st) cid)"
proof -
  obtain cur where cur: "map_of (ms_maps st) old = Some cur" and fresh: "\<not> omap_has (tm_clientId m) (ms_maps st)"
    using assms by (auto simp: ms_replaceCredential_def split: sum.splits option.splits if_splits)
  define st1 where "st1 = ms_mutate old (cur\<lparr>tm_status := Some Revoked\<rparr>) st"
  define st2 where "st2 = (if ms_maxEntries st1 \<le> int (length (ms_maps st1))
    then removeLRU old (st1\<lparr>ms_maps := omap_delete old (ms_maps st1)\<rparr>) else st1)"
  have ne: "old \<noteq> tm_clientId m" using cur fresh by auto
  obtain u where set: "ms_set (tm_clientId m) m st2 = (st', Inr u)"
    using assms cur fresh
    by (auto simp: ms_replaceCredential_def Let_def bind_res_Inr_iff simp flip: st1_def st2_def
        split: sum.splits if_splits prod.splits)
  have "map_of (ms_maps st2) old = None \<or> map_of (ms_maps st2) old = Some (cur\<lparr>tm_status := Some Revoked\<rparr>)"
    "\<forall>cid. cid \<noteq> old \<longrightarrow> map_of (ms_maps st2) cid = map_of (ms_maps st) cid"
    by (auto simp: st2_def st1_def ms_mutate_def)
  with ms_set_Inr [OF set] ne fresh show ?thesis by auto
qed

text \<open>C24: a replacement retires the old key. After a successful replacement, which needs the external
  authorization, the new map is stored active, well formed and under an identifier that was free,
  the old map is gone or revoked, and no other client is affected.\<close>

theorem replacement_retires_old_key:
  assumes "replaceKey memory_full_api auth old options lc rid reason now bs pv = Some (pv', Inr r)" and "pr_ok r"
  shows "\<exists>m a. r = provision_done m \<and> auth = Some a \<and> a old rid reason \<and>
    wf_layout m \<and> counter_state_ok m \<and> tm_status m = Some Active \<and>
    map_of (ms_maps (pv_store pv')) (tm_clientId m) = Some m \<and> \<not> omap_has (tm_clientId m) (ms_maps (pv_store pv)) \<and>
    (\<forall>x. map_of (ms_maps (pv_store pv')) old = Some x \<longrightarrow> tm_status x = Some Revoked) \<and>
    (\<forall>cid. cid \<noteq> old \<longrightarrow> cid \<noteq> tm_clientId m \<longrightarrow>
       map_of (ms_maps (pv_store pv')) cid = map_of (ms_maps (pv_store pv)) cid)"
proof -
  have err: "\<not> pr_ok (provision_error e)" for e by (simp add: provision_error_def)
  obtain a where a: "auth = Some a" "a old rid reason" "rid \<noteq> []" "reason \<noteq> []"
    using assms err by (cases auth) (auto simp: replaceKey_def split: if_splits)
  obtain st m0 where g: "ms_get old now (pv_store pv) = (st, Some m0)"
    using assms a err
    by (cases "ms_get old now (pv_store pv)"; cases "snd (ms_get old now (pv_store pv))")
      (auto simp: replaceKey_def memory_full_api_def split: if_splits)
  obtain m1 bs' m st' where gen: "generateTumblerMap options now bs = Drawn m1 bs'" and m: "replacement_map lc m1 = Inr m"
    and rep: "ms_replaceCredential old m st = (st', Inr True)" and out: "pv_store pv' = st'" "r = provision_done m"
    using assms a g err
    by (auto simp: replaceKey_def memory_full_api_def Let_def split: if_splits option.splits drawn.splits sum.splits prod.splits bool.splits)
  have c: "same_credential m1 m" "tm_status m = Some Active" "warning_ok m"
    using replacement_map_credential [OF m] generated_map_facts(1) [OF gen] by (auto simp: warning_ok_def)
  have "map_of (ms_maps st) = map_of (ms_maps (pv_store pv))" using ms_get_lookup [OF g] by simp
  then show ?thesis
    using ms_replaceCredential_True [OF rep] fresh_counter_state [OF gen c(1,3)] c(2) out a by metis
qed

section \<open>Examples\<close>

definition example_provisioner :: "MemoryTumblerStore TSKProvisioner" where
  "example_provisioner = \<lparr>pv_store = example_store, pv_limiter = None, pv_audit = [], pv_maxClients = None\<rparr>"

definition provision_ok :: "('s TSKProvisioner \<times> ProvisionResult res) option \<Rightarrow> bool" where
  "provision_ok x = (case x of Some (_, Inr r) \<Rightarrow> pr_ok r | _ \<Rightarrow> False)"

lemma provision_okE:
  assumes "provision_ok x"
  obtains pv r where "x = Some (pv, Inr r)" and "pr_ok r"
proof (cases x)
  case (Some p)
  show ?thesis
  proof (cases p)
    case (Pair pv e)
    then show ?thesis using assms that Some by (cases e) (auto simp: provision_ok_def)
  qed
qed (use assms in \<open>simp add: provision_ok_def\<close>)

definition example_lifecycle :: Lifecycle where
  "example_lifecycle = \<lparr>lc_label = Some ''ci'', lc_expiresAt = None, lc_maxRequests = Some 100,
     lc_rotationWarningRequests = Some (NInt 10), lc_hotpRotationWarningCounters = None\<rparr>"

theorem provision_all_or_nothing_witness:
  "\<exists>pv' r m. provision memory_full_api default_options (Some ''op'') (Some example_lifecycle) 0 (replicate 120 0) example_provisioner = Some (pv', Inr r) \<and>
     r = provision_done m \<and> wf_layout m \<and> tm_status m = Some Active"
proof -
  have ok: "provision_ok (provision memory_full_api default_options (Some ''op'') (Some example_lifecycle) 0 (replicate 120 0) example_provisioner)"
    by code_simp
  then obtain pv' r where e: "provision memory_full_api default_options (Some ''op'') (Some example_lifecycle) 0 (replicate 120 0) example_provisioner = Some (pv', Inr r)" "pr_ok r"
    by (rule provision_okE)
  from provision_all_or_nothing [OF e(1)] e show ?thesis by auto
qed

definition label_update :: KeyUpdates where
  "label_update = \<lparr>up_label = Some (Some ''new''), up_expiresAt = None, up_maxRequests = None,
     up_rotationWarningRequests = None, up_hotpRotationWarningCounters = None, up_status = None\<rparr>"

lemma label_update_example: "updated_map label_update example_map = Some (example_map\<lparr>tm_label := Some ''new''\<rparr>)"
  by (simp add: updated_map_def label_update_def example_map_def)

theorem update_never_reactivates_witness:
  "updated_map label_update example_map = Some (example_map\<lparr>tm_label := Some ''new''\<rparr>) \<and>
   same_credential example_map (example_map\<lparr>tm_label := Some ''new''\<rparr>)"
  using label_update_example update_never_reactivates [OF label_update_example] by blast

lemma example_commit_admissible: "commit_admissible example_map (example_commit 4)"
  using example_map_state
  by (simp add: commit_admissible_def example_commit_def example_map_def terminal_def counter_level_def
      example_segments_def segment_ref_def TSK_MAX_HOTP_COUNTER_def)

theorem stale_update_reopens_counters_witness:
  "\<exists>st1 r1 st2 st3 r2.
    ms_commitValidation ''tsk_0'' (example_commit 4) example_store = (st1, Inr r1) \<and> cr_ok r1 \<and>
    ms_set ''tsk_0'' (example_map\<lparr>tm_label := Some ''new''\<rparr>) st1 = (st2, Inr ()) \<and>
    ms_commitValidation ''tsk_0'' (example_commit 4) st2 = (st3, Inr r2) \<and> cr_ok r2"
proof -
  show ?thesis
    using example_commit_admissible stale_update_reopens_counters [OF _ label_update_example, of example_store "''tsk_0''" "example_commit 4"]
    by (simp add: example_store_maps label_update_def)
qed

theorem replacement_retires_old_key_witness:
  "\<exists>pv' r m. replaceKey memory_full_api (Some (\<lambda>_ _ _. True)) ''tsk_0'' default_options example_lifecycle ''op'' ''lost'' 0 (replicate 120 0) example_provisioner = Some (pv', Inr r) \<and>
     r = provision_done m \<and> map_of (ms_maps (pv_store pv')) (tm_clientId m) = Some m"
proof -
  have ok: "provision_ok (replaceKey memory_full_api (Some (\<lambda>_ _ _. True)) ''tsk_0'' default_options example_lifecycle ''op'' ''lost'' 0 (replicate 120 0) example_provisioner)"
    by code_simp
  then obtain pv' r where e: "replaceKey memory_full_api (Some (\<lambda>_ _ _. True)) ''tsk_0'' default_options example_lifecycle ''op'' ''lost'' 0 (replicate 120 0) example_provisioner = Some (pv', Inr r)" "pr_ok r"
    by (rule provision_okE)
  from replacement_retires_old_key [OF e] e show ?thesis by blast
qed

end
