(* ===== verification/Store_Api.thy ===== *)
theory Store_Api
  imports Provisioner
begin

text \<open>
  The whole \<^verbatim>\<open>TumblerMapStore\<close> interface of \<^verbatim>\<open>packages/server/src/store.ts\<close> as a record of operations,
  and its contract as a locale: what each operation does to the map of stored credentials. The
  replication and fencing wrappers are verified against the contract; the in-memory store is
  shown to meet it.
\<close>

record 's tumbler_store_api = "'s full_store_api" +
  api_update :: "string \<Rightarrow> (string \<times> int) list \<Rightarrow> 's \<Rightarrow> 's \<times> unit res"
  api_consume :: "(string \<Rightarrow> string \<Rightarrow> int \<Rightarrow> 's \<Rightarrow> 's \<times> bool res) option"

definition memory_tumbler_api :: "MemoryTumblerStore tumbler_store_api" where
  "memory_tumbler_api =
     \<lparr>api_get = (\<lambda>cid now st. let (st', m) = ms_get cid now st in (st', Inr m)),
      api_set = ms_set, api_commit = ms_commitValidation,
      api_delete = (\<lambda>cid st. (ms_delete cid st, Inr ())),
      api_list = (\<lambda>st. (st, Inr (ms_list st))), api_replace = ms_replaceCredential,
      api_update = ms_updateCounters, api_consume = Some ms_consumeCounter\<rparr>"

text \<open>In-place change of the map of one client.\<close>

definition lk_upd :: "('k \<rightharpoonup> 'v) \<Rightarrow> 'k \<Rightarrow> ('v \<Rightarrow> 'v) \<Rightarrow> ('k \<rightharpoonup> 'v)" where
  "lk_upd L k f = (case L k of None \<Rightarrow> L | Some v \<Rightarrow> L(k \<mapsto> f v))"

lemma lk_upd_apply: "lk_upd L k f x = (if x = k then map_option f (L k) else L x)"
  by (auto simp: lk_upd_def split: option.splits)

text \<open>The contract. \<open>inv\<close> is what the store needs of its own state, for instance that it does not
  expire maps by age.\<close>

locale map_store =
  fixes api :: "'s tumbler_store_api"
    and lookup :: "'s \<Rightarrow> string \<Rightarrow> TumblerMap option"
    and inv :: "'s \<Rightarrow> bool"
  assumes get_law: "inv s \<Longrightarrow> api_get api cid now s = (s', rg) \<Longrightarrow> inv s' \<and> lookup s' = lookup s \<and> rg = Inr (lookup s cid)"
    and set_law: "inv s \<Longrightarrow> api_set api cid m s = (s', rs) \<Longrightarrow>
      inv s' \<and> lookup s' = (case rs of Inl _ \<Rightarrow> lookup s | Inr _ \<Rightarrow> (lookup s)(cid \<mapsto> m))"
    and delete_law: "inv s \<Longrightarrow> api_delete api cid s = (s', rd) \<Longrightarrow> inv s' \<and> rd = Inr () \<and> lookup s' = (lookup s)(cid := None)"
    and commit_law: "inv s \<Longrightarrow> api_commit api cid input s = (s', rc) \<Longrightarrow>
      inv s' \<and> lookup s' = lk_upd (lookup s) cid (\<lambda>m. fst (commitValidationToMap m input)) \<and>
      rc = (case lookup s cid of None \<Rightarrow> Inr (commit_fail TSK_KEY_EXPIRED) | Some m \<Rightarrow> snd (commitValidationToMap m input))"
    and update_law: "inv s \<Longrightarrow> api_update api cid us s = (s', ru) \<Longrightarrow>
      inv s' \<and> lookup s' = lk_upd (lookup s) cid (\<lambda>m. fst (update_map_counters m us)) \<and>
      ru = (case lookup s cid of None \<Rightarrow> Inr () | Some m \<Rightarrow> snd (update_map_counters m us))"
    and consume_law: "inv s \<Longrightarrow> api_consume api = Some f \<Longrightarrow> f cid sid c s = (s', rb) \<Longrightarrow>
      inv s' \<and> lookup s' = lk_upd (lookup s) cid (\<lambda>m. fst (consume_map_counter m sid c)) \<and>
      rb = (case lookup s cid of None \<Rightarrow> Inr False | Some m \<Rightarrow> snd (consume_map_counter m sid c))"
    and replace_law: "inv s \<Longrightarrow> api_replace api old m s = (s', rp) \<Longrightarrow>
      inv s' \<and> (rp = Inr False \<longrightarrow> lookup s' = lookup s) \<and>
      (rp = Inr True \<longrightarrow> (\<forall>cid. cid \<noteq> old \<longrightarrow> cid \<noteq> tm_clientId m \<longrightarrow> lookup s' cid = lookup s cid))"
begin

text \<open>Such a store gives the request handler what it relies on, as long as its invariant holds.\<close>

lemma commit_lookup_Some:
  assumes "inv s" and "api_commit api cid input s = (s', Inr r)" and "cr_ok r"
  shows "\<exists>m m'. lookup s cid = Some m \<and> commitValidationToMap m input = (m', Inr r) \<and> lookup s' = (lookup s)(cid \<mapsto> m')"
proof (cases "lookup s cid")
  case None
  then show ?thesis using commit_law [OF assms(1,2)] assms(3) by (simp add: commit_fail_def)
next
  case (Some m)
  obtain m' r' where "commitValidationToMap m input = (m', r')" by force
  with commit_law [OF assms(1,2)] Some show ?thesis by (simp add: lk_upd_def)
qed

end

text \<open>The in-memory store meets the contract when its expiry by age is switched off.\<close>

definition keeps_maps :: "MemoryTumblerStore \<Rightarrow> bool" where
  "keeps_maps st \<longleftrightarrow> ms_maxAgeMs st \<le> 0"

lemma keeps_maps_simps [simp]:
  "keeps_maps (touchLRU cid st) = keeps_maps st" "keeps_maps (removeLRU cid st) = keeps_maps st"
  "keeps_maps (ms_mutate cid m st) = keeps_maps st" "keeps_maps (st\<lparr>ms_maps := ms\<rparr>) = keeps_maps st"
  by (simp_all add: keeps_maps_def touchLRU_def removeLRU_def ms_mutate_def)

lemma ms_get_kept:
  "keeps_maps st \<Longrightarrow> ms_get cid now st = (st', r) \<Longrightarrow> keeps_maps st' \<and> map_of (ms_maps st') = map_of (ms_maps st) \<and> r = map_of (ms_maps st) cid"
  by (auto simp: ms_get_def split: option.splits if_splits) (simp add: keeps_maps_def)+

lemma ms_set_kept:
  "keeps_maps st \<Longrightarrow> ms_set cid m st = (st', r) \<Longrightarrow> keeps_maps st' \<and> (\<forall>x. x \<noteq> cid \<longrightarrow> map_of (ms_maps st') x = map_of (ms_maps st) x)"
  by (auto simp: ms_set_def split: if_splits sum.splits)

lemma ms_replace_kept:
  assumes "keeps_maps st" and "ms_replaceCredential old m st = (st', r)"
  shows "keeps_maps st' \<and> (r = Inr False \<longrightarrow> map_of (ms_maps st') = map_of (ms_maps st)) \<and>
      (r = Inr True \<longrightarrow> (\<forall>x. x \<noteq> old \<longrightarrow> x \<noteq> tm_clientId m \<longrightarrow> map_of (ms_maps st') x = map_of (ms_maps st) x))"
proof -
  have bf: "bind_res u (\<lambda>_. Inr True) \<noteq> Inr False" for u :: "unit res" by (cases u) auto
  define st1 where "st1 c = ms_mutate old (c\<lparr>tm_status := Some Revoked\<rparr>) st" for c
  define st2 where "st2 c = (if ms_maxEntries (st1 c) \<le> int (length (ms_maps (st1 c)))
      then removeLRU old (st1 c\<lparr>ms_maps := omap_delete old (ms_maps (st1 c))\<rparr>) else st1 c)" for c
  have s2: "keeps_maps (st2 c)" "x \<noteq> old \<Longrightarrow> map_of (ms_maps (st2 c)) x = map_of (ms_maps st) x" for c x
    using assms(1) by (auto simp: st2_def st1_def) (simp_all add: ms_mutate_def)
  consider "r \<noteq> Inr True" "st' = st" | c u where "ms_set (tm_clientId m) m (st2 c) = (st', u)" "r = bind_res u (\<lambda>_. Inr True)"
    using assms(2) unfolding ms_replaceCredential_def Let_def st1_def [symmetric] st2_def [symmetric]
    by (auto split: sum.splits option.splits if_splits prod.splits)
  then show ?thesis
  proof cases
    case 1
    then show ?thesis using assms(1) by simp
  next
    case 2
    then show ?thesis using ms_set_kept [OF s2(1) 2(1)] s2(2) bf by auto
  qed
qed

interpretation mem_map: map_store memory_tumbler_api "\<lambda>st. map_of (ms_maps st)" keeps_maps
proof
  fix st st' :: MemoryTumblerStore and cid now m us input sid c f
  show "keeps_maps st \<Longrightarrow> api_get memory_tumbler_api cid now st = (st', r) \<Longrightarrow>
      keeps_maps st' \<and> map_of (ms_maps st') = map_of (ms_maps st) \<and> r = Inr (map_of (ms_maps st) cid)" for r
    using ms_get_kept [of st cid now] by (auto simp: memory_tumbler_api_def split: prod.splits)
  show "keeps_maps st \<Longrightarrow> api_set memory_tumbler_api cid m st = (st', r) \<Longrightarrow>
      keeps_maps st' \<and> map_of (ms_maps st') = (case r of Inl _ \<Rightarrow> map_of (ms_maps st) | Inr _ \<Rightarrow> (map_of (ms_maps st))(cid \<mapsto> m))" for r
    by (auto simp: memory_tumbler_api_def ms_set_def split: if_splits sum.splits)
  show "keeps_maps st \<Longrightarrow> api_delete memory_tumbler_api cid st = (st', r) \<Longrightarrow>
      keeps_maps st' \<and> r = Inr () \<and> map_of (ms_maps st') = (map_of (ms_maps st))(cid := None)" for r
    by (auto simp: memory_tumbler_api_def ms_delete_def)
  show "keeps_maps st \<Longrightarrow> api_commit memory_tumbler_api cid input st = (st', r) \<Longrightarrow>
      keeps_maps st' \<and> map_of (ms_maps st') = lk_upd (map_of (ms_maps st)) cid (\<lambda>m. fst (commitValidationToMap m input)) \<and>
      r = (case map_of (ms_maps st) cid of None \<Rightarrow> Inr (commit_fail TSK_KEY_EXPIRED) | Some m \<Rightarrow> snd (commitValidationToMap m input))" for r
    by (auto simp: memory_tumbler_api_def ms_commitValidation_def lk_upd_def ms_mutate_def keeps_maps_def split: option.splits prod.splits)
  show "keeps_maps st \<Longrightarrow> api_update memory_tumbler_api cid us st = (st', r) \<Longrightarrow>
      keeps_maps st' \<and> map_of (ms_maps st') = lk_upd (map_of (ms_maps st)) cid (\<lambda>m. fst (update_map_counters m us)) \<and>
      r = (case map_of (ms_maps st) cid of None \<Rightarrow> Inr () | Some m \<Rightarrow> snd (update_map_counters m us))" for r
    by (auto simp: memory_tumbler_api_def ms_updateCounters_def lk_upd_def ms_mutate_def keeps_maps_def split: option.splits prod.splits)
  show "keeps_maps st \<Longrightarrow> api_consume memory_tumbler_api = Some f \<Longrightarrow> f cid sid c st = (st', r) \<Longrightarrow>
      keeps_maps st' \<and> map_of (ms_maps st') = lk_upd (map_of (ms_maps st)) cid (\<lambda>m. fst (consume_map_counter m sid c)) \<and>
      r = (case map_of (ms_maps st) cid of None \<Rightarrow> Inr False | Some m \<Rightarrow> snd (consume_map_counter m sid c))" for r
    by (auto simp: memory_tumbler_api_def ms_consumeCounter_def lk_upd_def ms_mutate_def keeps_maps_def split: option.splits prod.splits)
  show "keeps_maps st \<Longrightarrow> api_replace memory_tumbler_api cid m st = (st', r) \<Longrightarrow>
      keeps_maps st' \<and> (r = Inr False \<longrightarrow> map_of (ms_maps st') = map_of (ms_maps st)) \<and>
      (r = Inr True \<longrightarrow> (\<forall>x. x \<noteq> cid \<longrightarrow> x \<noteq> tm_clientId m \<longrightarrow> map_of (ms_maps st') x = map_of (ms_maps st) x))" for r
    using ms_replace_kept by (simp add: memory_tumbler_api_def)
qed

end
