(* ===== verification/Canonical_Json.thy ===== *)
theory Canonical_Json
  imports TSK_Prelude "HOL-Library.List_Lexorder" "HOL-Library.Char_ord" "HOL-Library.Multiset"
begin

text \<open>
  The canonical JSON text that the signed control and replication messages are hashed and signed
  over: the function \<^verbatim>\<open>canonical\<close> that \<^verbatim>\<open>packages/server/src/promotion.ts\<close> and
  \<^verbatim>\<open>packages/server/src/replicating-tumbler-store.ts\<close> both define. Scalars are rendered by
  \<^verbatim>\<open>JSON.stringify\<close>; object keys are sorted and undefined properties dropped, so that the text
  depends only on the content of a value. The main result is the converse: the text determines
  the content, hence a signature over it binds every field.
\<close>

section \<open>Rendering\<close>

text \<open>\<^verbatim>\<open>JSON.stringify\<close> of a string: seven short escapes, \<^verbatim>\<open>\u00xx\<close> for the other control characters.\<close>

definition json_escapes :: "(char \<times> char) list" where
  "json_escapes =
     [(CHR 0x22, CHR 0x22), (CHR 0x5C, CHR 0x5C), (CHR 0x08, CHR ''b''), (CHR 0x0C, CHR ''f''),
      (CHR 0x0A, CHR ''n''), (CHR 0x0D, CHR ''r''), (CHR 0x09, CHR ''t'')]"

definition json_char :: "char \<Rightarrow> string" where
  "json_char c =
     (case map_of json_escapes c of
        Some e \<Rightarrow> [CHR 0x5C, e]
      | None \<Rightarrow>
          let n = (of_char c :: nat) in
          if n < 32 then [CHR 0x5C, CHR ''u'', CHR ''0'', CHR ''0'', hex_digits ! (n div 16), hex_digits ! (n mod 16)]
          else [c])"

definition json_string :: "string \<Rightarrow> string" where
  "json_string s = CHR 0x22 # concat (map json_char s) @ [CHR 0x22]"

text \<open>Numbers without a finite value render as \<^verbatim>\<open>null\<close>; integral ones in decimal (the exponent form
  starts at \<^verbatim>\<open>1e21\<close>, past every number these messages carry).\<close>

fun json_num :: "jsnum \<Rightarrow> string" where
  "json_num (NInt n) = show_int n"
| "json_num (NFrac f) = show_num (NFrac f)"
| "json_num _ = ''null''"

fun json_join :: "string list \<Rightarrow> string" where
  "json_join [] = []"
| "json_join [x] = x"
| "json_join (x # xs) = x @ CHR '','' # json_join xs"

text \<open>The top-level call is never on \<^verbatim>\<open>undefined\<close>; inside an array it stands for \<^verbatim>\<open>null\<close>, inside an
  object the property is dropped.\<close>

function canonical :: "jsval \<Rightarrow> string" where
  "canonical JUndefined = ''undefined''"
| "canonical JNull = ''null''"
| "canonical (JBool b) = (if b then ''true'' else ''false'')"
| "canonical (JNum n) = json_num n"
| "canonical (JString s) = json_string s"
| "canonical (JArray vs) =
     CHR ''['' # json_join (map (\<lambda>v. canonical (if v = JUndefined then JNull else v)) vs) @ '']''"
| "canonical (JObject ps) =
     CHR ''{'' # json_join (map (\<lambda>p. json_string (fst p) @ CHR '':'' # canonical (snd p))
        (sort_key fst (filter (\<lambda>p. snd p \<noteq> JUndefined) ps))) @ ''}''"
  by pat_completeness auto

lemma size_snd_mem: "p \<in> set ps \<Longrightarrow> size (snd p) < size (JObject ps)"
  by (induction ps) (auto simp: size_prod_simp)

lemma size_mem_array: "v \<in> set vs \<Longrightarrow> size (if v = JUndefined then JNull else v) < size (JArray vs)"
  by (induction vs) auto

termination canonical
  by (relation "measure size") (use size_snd_mem size_mem_array in \<open>auto\<close>)

text \<open>\<^verbatim>\<open>JSON.stringify\<close> itself keeps the order of the properties.\<close>

function json_text :: "jsval \<Rightarrow> string" where
  "json_text JUndefined = ''undefined''"
| "json_text JNull = ''null''"
| "json_text (JBool b) = (if b then ''true'' else ''false'')"
| "json_text (JNum n) = json_num n"
| "json_text (JString s) = json_string s"
| "json_text (JArray vs) =
     CHR ''['' # json_join (map (\<lambda>v. json_text (if v = JUndefined then JNull else v)) vs) @ '']''"
| "json_text (JObject ps) =
     CHR ''{'' # json_join (map (\<lambda>p. json_string (fst p) @ CHR '':'' # json_text (snd p))
        (filter (\<lambda>p. snd p \<noteq> JUndefined) ps)) @ ''}''"
  by pat_completeness auto

termination json_text
  by (relation "measure size") (use size_snd_mem size_mem_array in \<open>auto\<close>)

section \<open>The content of a value\<close>

text \<open>What the text is meant to depend on: objects with sorted keys and without undefined properties,
  arrays without undefined elements, \<^verbatim>\<open>null\<close> for numbers that have no JSON form.\<close>

function content :: "jsval \<Rightarrow> jsval" where
  "content JUndefined = JUndefined"
| "content JNull = JNull"
| "content (JBool b) = JBool b"
| "content (JNum n) = (if Number_isFinite n then JNum n else JNull)"
| "content (JString s) = JString s"
| "content (JArray vs) = JArray (map (\<lambda>v. content (if v = JUndefined then JNull else v)) vs)"
| "content (JObject ps) =
     JObject (map (\<lambda>p. (fst p, content (snd p))) (sort_key fst (filter (\<lambda>p. snd p \<noteq> JUndefined) ps)))"
  by pat_completeness auto

termination content
  by (relation "measure size") (use size_snd_mem size_mem_array in \<open>auto\<close>)

text \<open>Values without fractional numbers, whose digits the model does not keep.\<close>

fun integral :: "jsval \<Rightarrow> bool" where
  "integral (JNum (NFrac _)) = False"
| "integral (JArray vs) = (\<forall>v \<in> set vs. integral v)"
| "integral (JObject ps) = (\<forall>p \<in> set ps. integral (snd p))"
| "integral _ = True"

section \<open>The text determines the content\<close>

text \<open>The characters that may follow a value inside a larger text.\<close>

definition closes :: "string \<Rightarrow> bool" where
  "closes r = (case r of [] \<Rightarrow> True | c # _ \<Rightarrow> c = CHR '','' \<or> c = CHR '']'' \<or> c = CHR ''}'')"

lemma closes_simps [simp]:
  "closes []" "closes (c # r) \<longleftrightarrow> c = CHR '','' \<or> c = CHR '']'' \<or> c = CHR ''}''"
  by (simp_all add: closes_def)

lemma json_escapes_cases:
  "map_of json_escapes c = Some e \<Longrightarrow> (c, e) \<in> set json_escapes"
  by (rule map_of_SomeD)

lemma json_escape_inject:
  "map_of json_escapes c = Some e \<Longrightarrow> map_of json_escapes d = Some e \<Longrightarrow> c = d"
  by (drule json_escapes_cases)+ (auto simp: json_escapes_def)

lemma json_escape_not_u [simp]: "map_of json_escapes c \<noteq> Some CHR ''u''"
  by (auto dest!: json_escapes_cases simp: json_escapes_def)

lemma json_plain_char: "map_of json_escapes c = None \<Longrightarrow> c \<noteq> CHR 0x22 \<and> c \<noteq> CHR 0x5C"
  by (auto simp: json_escapes_def split: if_splits)

lemma hex_digits_inject: "i < 16 \<Longrightarrow> j < 16 \<Longrightarrow> hex_digits ! i = hex_digits ! j \<longleftrightarrow> i = j"
proof -
  have "distinct hex_digits" "length hex_digits = 16" by (simp_all add: hex_digits_def)
  then show "i < 16 \<Longrightarrow> j < 16 \<Longrightarrow> hex_digits ! i = hex_digits ! j \<longleftrightarrow> i = j"
    by (simp add: nth_eq_iff_index_eq)
qed

text \<open>The character codes form a prefix code, and none of them starts with a quotation mark.\<close>

lemma json_char_prefix:
  assumes "json_char c @ r = json_char d @ s"
  shows "c = d \<and> r = s"
proof (cases "map_of json_escapes c"; cases "map_of json_escapes d")
  assume n: "map_of json_escapes c = None" "map_of json_escapes d = None"
  note p = json_plain_char [OF n(1)] json_plain_char [OF n(2)]
  show ?thesis
  proof (cases "(of_char c :: nat) < 32 \<and> (of_char d :: nat) < 32")
    case True
    let ?m = "of_char c :: nat" and ?n = "of_char d :: nat"
    have "?m div 16 = ?n div 16" "?m mod 16 = ?n mod 16" "r = s"
      using assms n True by (auto simp: json_char_def Let_def hex_digits_inject)
    then have "?m = ?n" by (metis div_mult_mod_eq)
    with \<open>r = s\<close> show ?thesis by (simp add: of_char_nat_inject)
  next
    case False
    with assms n p show ?thesis by (auto simp: json_char_def Let_def split: if_splits)
  qed
qed (use assms json_plain_char json_escape_inject in
     \<open>auto simp: json_char_def Let_def split: if_splits\<close>)

lemma json_char_start: "\<exists>x xs. json_char c = x # xs \<and> x \<noteq> CHR 0x22"
  using json_plain_char by (auto simp: json_char_def Let_def split: option.splits)

lemma json_string_prefix:
  assumes "json_string s @ r = json_string t @ u"
  shows "s = t \<and> r = u"
proof -
  have "concat (map json_char s) @ CHR 0x22 # r = concat (map json_char t) @ CHR 0x22 # u \<Longrightarrow> s = t \<and> r = u"
  proof (induction s arbitrary: t)
    case Nil
    then show ?case using json_char_start by (cases t) (auto, metis append_Cons list.inject)
  next
    case (Cons c s)
    show ?case
    proof (cases t)
      case Nil
      with Cons.prems show ?thesis using json_char_start [of c] by auto
    next
      case (Cons d t')
      with Cons.prems have "json_char c @ (concat (map json_char s) @ CHR 0x22 # r) =
          json_char d @ (concat (map json_char t') @ CHR 0x22 # u)" by simp
      from json_char_prefix [OF this] Cons.IH Cons show ?thesis by simp
    qed
  qed
  with assms show ?thesis by (simp add: json_string_def)
qed

text \<open>A decimal numeral ends at the first character that is neither a digit nor a sign.\<close>

definition num_char :: "char \<Rightarrow> bool" where
  "num_char c \<longleftrightarrow> c = CHR ''-'' \<or> 48 \<le> (of_char c :: nat) \<and> (of_char c :: nat) < 58"

lemma takeWhile_num: "closes r \<Longrightarrow> takeWhile num_char (show_int i @ r) = show_int i"
  using show_int_chars [of _ i]
  by (cases r) (auto simp: takeWhile_append num_char_def takeWhile_eq_all_conv)

lemma show_int_prefix:
  assumes "show_int i @ r = show_int j @ s" and "closes r" and "closes s"
  shows "i = j \<and> r = s"
proof -
  have "show_int i = show_int j" using takeWhile_num assms by metis
  with assms show ?thesis by simp
qed

text \<open>Sequences of values in brackets. \<open>f\<close> renders an element, \<open>g\<close> is what the text determines of it.\<close>

definition json_tail :: "string list \<Rightarrow> string" where
  "json_tail xs = concat (map (\<lambda>x. CHR '','' # x) xs)"

lemma json_join_Cons: "json_join (x # xs) = x @ json_tail xs"
  by (induction xs arbitrary: x) (auto simp: json_tail_def)

lemma closes_tail: "closes (c # r) \<Longrightarrow> closes (json_tail xs @ c # r)"
  by (cases xs) (auto simp: json_tail_def)

lemma json_tail_prefix:
  assumes "\<And>x y r s. x \<in> set xs \<Longrightarrow> y \<in> set ys \<Longrightarrow> f x @ r = f y @ s \<Longrightarrow> closes r \<Longrightarrow> closes s \<Longrightarrow> g x = g y \<and> r = s"
    and "json_tail (map f xs) @ c # r = json_tail (map f ys) @ c # s" and "c = CHR '']'' \<or> c = CHR ''}''"
  shows "map g xs = map g ys \<and> r = s"
  using assms(1,2)
proof (induction xs arbitrary: ys)
  case Nil
  then show ?case using assms(3) by (cases ys) (auto simp: json_tail_def)
next
  case (Cons x xs)
  show ?case
  proof (cases ys)
    case Nil
    with Cons.prems assms(3) show ?thesis by (auto simp: json_tail_def)
  next
    case (Cons y ys')
    have eq: "f x @ (json_tail (map f xs) @ c # r) = f y @ (json_tail (map f ys') @ c # s)"
      using Cons.prems(2) Cons by (simp add: json_tail_def)
    have "g x = g y \<and> json_tail (map f xs) @ c # r = json_tail (map f ys') @ c # s"
      by (rule Cons.prems(1) [OF _ _ eq]) (use Cons assms(3) closes_tail in auto)
    with Cons.IH [of ys'] Cons.prems(1) Cons show ?thesis by auto
  qed
qed

lemma json_join_prefix:
  assumes el: "\<And>x y r s. x \<in> set xs \<Longrightarrow> y \<in> set ys \<Longrightarrow> f x @ r = f y @ s \<Longrightarrow> closes r \<Longrightarrow> closes s \<Longrightarrow> g x = g y \<and> r = s"
    and start: "\<And>x. x \<in> set xs \<union> set ys \<Longrightarrow> \<exists>a u. f x = a # u \<and> a \<noteq> c"
    and eq: "json_join (map f xs) @ c # r = json_join (map f ys) @ c # s" and c: "c = CHR '']'' \<or> c = CHR ''}''"
  shows "map g xs = map g ys \<and> r = s"
proof (cases xs; cases ys)
  fix x xs' y ys'
  assume xy: "xs = x # xs'" "ys = y # ys'"
  have eq': "f x @ (json_tail (map f xs') @ c # r) = f y @ (json_tail (map f ys') @ c # s)"
    using eq xy by (simp add: json_join_Cons)
  have h: "g x = g y" "json_tail (map f xs') @ c # r = json_tail (map f ys') @ c # s"
    using el [OF _ _ eq'] xy c closes_tail by auto
  have "map g xs' = map g ys' \<and> r = s"
    by (rule json_tail_prefix [OF _ h(2) c]) (use el xy in auto)
  with h xy show ?thesis by simp
qed (use eq start [of "hd xs"] start [of "hd ys"] in \<open>auto simp: json_join_Cons\<close>)

text \<open>The first character of a text tells the kind of the value.\<close>

fun kind_char :: "jsval \<Rightarrow> char \<Rightarrow> bool" where
  "kind_char JNull c = (c = CHR ''n'')"
| "kind_char (JBool b) c = (c = (if b then CHR ''t'' else CHR ''f''))"
| "kind_char (JNum _) c = num_char c"
| "kind_char (JString _) c = (c = CHR 0x22)"
| "kind_char (JArray _) c = (c = CHR ''['')"
| "kind_char (JObject _) c = (c = CHR ''{'')"
| "kind_char JUndefined c = False"

lemma show_int_start: "\<exists>x xs. show_int i = x # xs \<and> num_char x"
proof -
  obtain x xs where e: "show_int i = x # xs"
    by (cases "show_int i") (auto simp: show_int_def split: if_splits)
  then show ?thesis using show_int_chars [of x i] by (auto simp: num_char_def)
qed

lemma canonical_start:
  "integral v \<Longrightarrow> v \<noteq> JUndefined \<Longrightarrow> \<exists>x xs. canonical v = x # xs \<and> kind_char (content v) x"
proof (cases v)
  case (JNum n)
  then show "integral v \<Longrightarrow> \<exists>x xs. canonical v = x # xs \<and> kind_char (content v) x"
    using show_int_start by (cases n) auto
qed (auto simp: json_string_def)

lemma num_char_simps [simp]:
  "\<not> num_char CHR ''n''" "\<not> num_char CHR ''t''" "\<not> num_char CHR ''f''" "\<not> num_char CHR 0x22"
  "\<not> num_char CHR ''[''" "\<not> num_char CHR ''{''" "\<not> num_char CHR '']''" "\<not> num_char CHR ''}''"
  by (simp_all add: num_char_def)

lemma kind_char_not_close: "kind_char v c \<Longrightarrow> c \<noteq> CHR '']'' \<and> c \<noteq> CHR ''}''"
  by (cases v) (auto split: if_splits)

text \<open>Values whose texts start alike are of the same kind.\<close>

definition same_kind :: "jsval \<Rightarrow> jsval \<Rightarrow> bool" where
  "same_kind v w =
     (case (v, w) of
        (JNull, JNull) \<Rightarrow> True | (JBool a, JBool b) \<Rightarrow> a = b | (JNum _, JNum _) \<Rightarrow> True
      | (JString _, JString _) \<Rightarrow> True | (JArray _, JArray _) \<Rightarrow> True | (JObject _, JObject _) \<Rightarrow> True | _ \<Rightarrow> False)"

lemma kind_char_same: "kind_char v c \<Longrightarrow> kind_char w c \<Longrightarrow> same_kind v w"
  by (cases v; cases w) (auto simp: same_kind_def split: if_splits)

lemma canonical_same_kind:
  assumes "canonical v @ r = canonical w @ s" "integral v" "integral w" "v \<noteq> JUndefined" "w \<noteq> JUndefined"
  shows "same_kind (content v) (content w)"
  using canonical_start [of v] canonical_start [of w] assms kind_char_same by fastforce

lemma same_kind_simps [simp]:
  "same_kind JNull w \<longleftrightarrow> w = JNull" "same_kind (JBool b) w \<longleftrightarrow> w = JBool b"
  "same_kind (JNum n) w \<longleftrightarrow> (\<exists>m. w = JNum m)" "same_kind (JString t) w \<longleftrightarrow> (\<exists>u. w = JString u)"
  "same_kind (JArray vs) w \<longleftrightarrow> (\<exists>ws. w = JArray ws)" "same_kind (JObject ps) w \<longleftrightarrow> (\<exists>qs. w = JObject qs)"
  by (cases w; auto simp: same_kind_def)+

lemma content_eq_simps:
  "content w = JString u \<longleftrightarrow> w = JString u" "content w = JBool b \<longleftrightarrow> w = JBool b"
  "(\<exists>ws. content w = JArray ws) \<longleftrightarrow> (\<exists>ws. w = JArray ws)" "(\<exists>qs. content w = JObject qs) \<longleftrightarrow> (\<exists>qs. w = JObject qs)"
  "content w = JNum m \<longleftrightarrow> w = JNum m \<and> Number_isFinite m"
  by (cases w; auto)+

lemma content_null_iff: "integral v \<Longrightarrow> content v = JNull \<Longrightarrow> canonical v = ''null''"
proof (cases v)
  case (JNum n)
  then show "integral v \<Longrightarrow> content v = JNull \<Longrightarrow> canonical v = ''null''" by (cases n) auto
qed auto

text \<open>A value can be read off the text in front of it, up to its content.\<close>

lemma canonical_prefix:
  assumes "canonical v @ r = canonical w @ s" "integral v" "integral w" "v \<noteq> JUndefined" "w \<noteq> JUndefined"
    "closes r" "closes s"
  shows "content v = content w \<and> r = s"
  using assms
proof (induction v arbitrary: w r s rule: canonical.induct)
  case (6 vs)
  note k = canonical_same_kind [OF 6(2-6)]
  then obtain ws where w: "w = JArray ws" by (auto simp: content_eq_simps)
  let ?u = "\<lambda>v. if v = JUndefined then JNull else v"
  have e: "json_join (map (\<lambda>v. canonical (?u v)) vs) @ CHR '']'' # r = json_join (map (\<lambda>v. canonical (?u v)) ws) @ CHR '']'' # s"
    using 6(2) w by simp
  have "map (\<lambda>v. content (?u v)) vs = map (\<lambda>v. content (?u v)) ws \<and> r = s"
  proof (rule json_join_prefix [OF _ _ e])
    fix x y q p
    assume xy: "x \<in> set vs" "y \<in> set ws" and eq: "canonical (?u x) @ q = canonical (?u y) @ p" "closes q" "closes p"
    show "content (?u x) = content (?u y) \<and> q = p"
      by (rule 6(1) [OF xy(1) eq(1)]) (use 6(3,4) w xy eq in auto)
  next
    fix x
    assume "x \<in> set vs \<union> set ws"
    then have "integral (?u x)" "?u x \<noteq> JUndefined" using 6(3,4) w by auto
    from canonical_start [OF this] show "\<exists>a u. canonical (?u x) = a # u \<and> a \<noteq> CHR '']''"
      using kind_char_not_close by blast
  qed simp
  with w show ?case by simp
next
  case (7 ps)
  note k = canonical_same_kind [OF 7(2-6)]
  then obtain qs where w: "w = JObject qs" by (auto simp: content_eq_simps)
  let ?f = "\<lambda>p. json_string (fst p) @ CHR '':'' # canonical (snd p)"
  let ?ps = "sort_key fst (filter (\<lambda>p. snd p \<noteq> JUndefined) ps)" and ?qs = "sort_key fst (filter (\<lambda>p. snd p \<noteq> JUndefined) qs)"
  have e: "json_join (map ?f ?ps) @ CHR ''}'' # r = json_join (map ?f ?qs) @ CHR ''}'' # s"
    using 7(2) w by simp
  have "map (\<lambda>p. (fst p, content (snd p))) ?ps = map (\<lambda>p. (fst p, content (snd p))) ?qs \<and> r = s"
  proof (rule json_join_prefix [OF _ _ e])
    fix x y q p
    assume xy: "x \<in> set ?ps" "y \<in> set ?qs" and eq: "?f x @ q = ?f y @ p" "closes q" "closes p"
    have kx: "fst x = fst y" "canonical (snd x) @ q = canonical (snd y) @ p"
      using json_string_prefix [of "fst x" "CHR '':'' # canonical (snd x) @ q" "fst y"] eq(1) by auto
    have "content (snd x) = content (snd y) \<and> q = p"
      by (rule 7(1) [OF xy(1) kx(2)]) (use 7(3,4) w xy eq in auto)
    with kx show "(fst x, content (snd x)) = (fst y, content (snd y)) \<and> q = p" by simp
  next
    show "\<exists>a u. ?f x = a # u \<and> a \<noteq> CHR ''}''" for x by (simp add: json_string_def)
  qed simp
  with w show ?case by simp
next
  case (5 t)
  then obtain u where w: "w = JString u"
    using canonical_same_kind [OF 5(1-5)] by (auto simp: content_eq_simps)
  with 5 json_string_prefix [of t r u s] show ?case by simp
next
  case (4 n)
  note k = canonical_same_kind [OF 4(1-5)]
  show ?case
  proof (cases "Number_isFinite n")
    case True
    with 4(2) obtain i where n: "n = NInt i" by (cases n) auto
    with k obtain j where w: "w = JNum (NInt j)"
      using 4(3) by (auto simp: content_eq_simps elim!: Number_isFinite.elims(2))
    with 4 n show_int_prefix [of i r j s] show ?thesis by simp
  next
    case False
    with k have "content w = JNull" by simp
    with content_null_iff [OF 4(3)] 4(1,2) False show ?thesis by (cases n) auto
  qed
next
  case 2
  then have "content w = JNull" using canonical_same_kind [OF 2(1-5)] by simp
  with content_null_iff [OF 2(3)] 2(1) show ?case by simp
next
  case (3 b)
  then have "w = JBool b" using canonical_same_kind [OF 3(1-5)] by (simp add: content_eq_simps)
  with 3(1) show ?case by simp
qed simp

text \<open>Conversely the text depends on the content alone.\<close>

lemma content_not_undefined: "v \<noteq> JUndefined \<Longrightarrow> content v \<noteq> JUndefined"
  by (cases v) auto

lemma sorted_content: "sort_key fst (map (\<lambda>p. (fst p, g (snd p))) (sort_key fst xs)) = map (\<lambda>p. (fst p, g (snd p))) (sort_key fst xs)"
  by (rule sort_key_id_if_sorted) (simp add: comp_def)

lemma canonical_content: "canonical (content v) = canonical v"
proof (induction v rule: canonical.induct)
  case (4 n)
  then show ?case by (cases n) auto
next
  case (6 vs)
  have "canonical (if content u = JUndefined then JNull else content u) = canonical u" if "u = (if v = JUndefined then JNull else v)" "v \<in> set vs" for u v
    using 6 [OF that(2)] that content_not_undefined [of u] by (auto split: if_splits)
  then show ?case by (auto simp: comp_def cong: map_cong)
next
  case (7 ps)
  let ?ps = "sort_key fst (filter (\<lambda>p. snd p \<noteq> JUndefined) ps)"
  have f: "filter (\<lambda>p. snd p \<noteq> JUndefined) (map (\<lambda>p. (fst p, content (snd p))) ?ps) = map (\<lambda>p. (fst p, content (snd p))) ?ps"
    by (rule filter_True) (auto dest: content_not_undefined)
  have m: "map (\<lambda>p. json_string (fst p) @ CHR '':'' # canonical (content (snd p))) ?ps =
      map (\<lambda>p. json_string (fst p) @ CHR '':'' # canonical (snd p)) ?ps"
    using 7 by (intro map_cong) auto
  have "canonical (content (JObject ps)) =
      CHR ''{'' # json_join (map (\<lambda>p. json_string (fst p) @ CHR '':'' # canonical (content (snd p))) ?ps) @ ''}''"
    by (simp add: f sorted_content comp_def)
  then show ?case unfolding m by simp
qed auto

text \<open>The content of an object determines the content of each of its properties.\<close>

lemma distinct_sorted_members:
  "distinct (map fst ps) \<Longrightarrow> distinct (map fst (sort_key fst (filter P ps)))"
proof -
  assume "distinct (map fst ps)"
  then have "distinct (map fst (filter P ps))" by (rule distinct_map_filter)
  moreover have "mset (map fst (sort_key fst (filter P ps))) = mset (map fst (filter P ps))" by (simp only: mset_map mset_sort)
  ultimately show ?thesis using mset_eq_imp_distinct_iff by blast
qed

lemma map_of_map_snd: "map_of (map (\<lambda>p. (fst p, g (snd p))) qs) k = map_option g (map_of qs k)"
  by (induction qs) auto

lemma js_get_content:
  assumes "distinct (map fst ps)"
  shows "js_get (content (JObject ps)) k = content (js_get (JObject ps) k)"
proof -
  let ?qs = "sort_key fst (filter (\<lambda>p. snd p \<noteq> JUndefined) ps)"
  have d: "distinct (map fst ?qs)" using assms by (rule distinct_sorted_members)
  have "map_of ?qs k = (case map_of ps k of None \<Rightarrow> None | Some v \<Rightarrow> if v = JUndefined then None else Some v)"
  proof (cases "map_of ps k")
    case None
    then have "k \<notin> fst ` set ?qs" by (auto simp: map_of_eq_None_iff)
    then have "map_of ?qs k = None" by (simp only: map_of_eq_None_iff) simp
    with None show ?thesis by simp
  next
    case (Some v)
    show ?thesis
    proof (cases "v = JUndefined")
      case True
      have "k \<notin> fst ` set ?qs"
        using Some True assms by (auto dest!: map_of_SomeD dest: eq_key_imp_eq_value)
      then have "map_of ?qs k = None" by (simp only: map_of_eq_None_iff) simp
      with Some True show ?thesis by simp
    next
      case False
      with Some have "(k, v) \<in> set ?qs" by (auto dest: map_of_SomeD)
      with d Some False show ?thesis by (auto intro: map_of_is_SomeI)
    qed
  qed
  moreover have "map_of (map (\<lambda>p. (fst p, content (snd p))) ?qs) k = map_option content (map_of ?qs k)"
    by (rule map_of_map_snd)
  ultimately show ?thesis by (auto split: option.splits)
qed

lemma canonical_js_get:
  assumes "canonical (JObject ps) = canonical (JObject qs)" "integral (JObject ps)" "integral (JObject qs)"
    "distinct (map fst ps)" "distinct (map fst qs)"
  shows "content (js_get (JObject ps) k) = content (js_get (JObject qs) k)"
proof -
  have "content (JObject ps) = content (JObject qs)"
    using canonical_prefix [of "JObject ps" "[]" "JObject qs" "[]"] assms(1-3) by simp
  then show ?thesis using js_get_content assms(4,5) by metis
qed

text \<open>The canonical text of a message is a faithful identifier of its content: two values without
  fractional numbers have the same text exactly when they agree up to the order of object keys and
  undefined properties. A hash or a signature over the text therefore covers every field.\<close>

theorem canonical_binds:
  assumes "integral v" and "integral w" and "v \<noteq> JUndefined" and "w \<noteq> JUndefined"
  shows "canonical v = canonical w \<longleftrightarrow> content v = content w"
  using canonical_prefix [of v "[]" w "[]"] canonical_content [of v] canonical_content [of w] assms by auto

theorem canonical_binds_witness:
  "canonical (JObject [(''b'', JNum (NInt 12)), (''a'', JArray [JUndefined, JString ''x,]'']), (''c'', JUndefined)]) =
     canonical (JObject [(''a'', JArray [JNull, JString ''x,]'']), (''b'', JNum (NInt 12))]) \<and>
   canonical (JArray [JNum (NInt 1), JNum (NInt 2)]) \<noteq> canonical (JArray [JNum (NInt 12)])"
  using canonical_binds [of "JObject [(''b'', JNum (NInt 12)), (''a'', JArray [JUndefined, JString ''x,]'']), (''c'', JUndefined)]"
      "JObject [(''a'', JArray [JNull, JString ''x,]'']), (''b'', JNum (NInt 12))]"]
    canonical_binds [of "JArray [JNum (NInt 1), JNum (NInt 2)]" "JArray [JNum (NInt 12)]"]
  by simp

end
