(* ===== verification/Replication.thy ===== *)
theory Replication
  imports Store_Api Canonical_Json
begin

text \<open>
  The replicating store of \<^verbatim>\<open>packages/server/src/replicating-tumbler-store.ts\<close>: every mutation of the
  primary is appended to a hash-linked, sequenced queue, and one drain loop pushes the queue in
  order to the replica as signed envelopes. HMAC, SHA-256 and the random stream identifier are
  parameters. A message is a \<open>jsval\<close>; \<open>map_js\<close> and \<open>js_map\<close> are the wire form of a tumbler map. The
  sealing of secrets and the primary store may throw.
\<close>

section \<open>Checkpoints, mutations and their wire form\<close>

definition REPLICATION_GENESIS_HASH :: string where
  "REPLICATION_GENESIS_HASH = replicate 64 CHR ''0''"

definition MIN_REPLICATION_TOKEN_BYTES :: nat where
  "MIN_REPLICATION_TOKEN_BYTES = 32"

record ReplicationCheckpoint =
  rc_streamId :: string
  rc_epoch :: int
  rc_sequence :: int
  rc_headHash :: string

text \<open>The map of a \<^verbatim>\<open>set\<close> is kept in its wire form, since its hash covers every property it has.\<close>

datatype TumblerReplicaMutation =
    M_set string jsval bool
  | M_delete string
  | M_updateCounters string "(string \<times> int) list"
  | M_consumeCounter string string int

abbreviation jint :: "int \<Rightarrow> jsval" where
  "jint n \<equiv> JNum (NInt n)"

definition opt_prop :: "string \<Rightarrow> ('a \<Rightarrow> jsval) \<Rightarrow> 'a option \<Rightarrow> (string \<times> jsval) list" where
  "opt_prop k f v = (case v of None \<Rightarrow> [] | Some x \<Rightarrow> [(k, f x)])"

definition pair_js :: "int \<times> int \<Rightarrow> jsval" where
  "pair_js p = JArray [jint (fst p), jint (snd p)]"

fun segment_type_js :: "SegmentType \<Rightarrow> jsval" where
  "segment_type_js Static = JString ''static''"
| "segment_type_js Totp = JString ''totp''"
| "segment_type_js Hotp = JString ''hotp''"

fun status_js :: "KeyStatus \<Rightarrow> jsval" where
  "status_js Active = JString ''active''"
| "status_js Expiring = JString ''expiring''"
| "status_js Revoked = JString ''revoked''"
| "status_js Expired = JString ''expired''"

definition segment_js :: "SegmentConfig \<Rightarrow> jsval" where
  "segment_js s = JObject (
     [(''segmentId'', JString (seg_id s)), (''position'', pair_js (seg_pos s)), (''type'', segment_type_js (seg_type s))] @
     opt_prop ''windowSec'' jint (seg_window s) @ opt_prop ''counter'' jint (seg_counter s))"

definition map_js :: "TumblerMap \<Rightarrow> jsval" where
  "map_js m = JObject (
     [(''clientId'', JString (tm_clientId m)), (''sharedSecret'', JString (tm_sharedSecret m)),
      (''keyLength'', jint (tm_keyLength m)), (''segments'', JArray (map segment_js (tm_segments m))),
      (''checksum'', JObject [(''position'', pair_js (tm_checksum m))]),
      (''createdAt'', jint (tm_createdAt m)), (''version'', JString (tm_version m))] @
     opt_prop ''label'' JString (tm_label m) @ opt_prop ''expiresAt'' jint (tm_expiresAt m) @
     opt_prop ''maxRequests'' jint (tm_maxRequests m) @
     opt_prop ''rotationWarningRequests'' jint (tm_rotationWarningRequests m) @
     opt_prop ''hotpRotationWarningCounters'' jint (tm_hotpRotationWarningCounters m) @
     opt_prop ''requestCount'' jint (tm_requestCount m) @
     [(''lastUsedAt'', case tm_lastUsedAt m of None \<Rightarrow> JNull | Some t \<Rightarrow> jint t)] @
     opt_prop ''status'' status_js (tm_status m))"

text \<open>The reading of a wire map at the declared types. A property of another type reads as absent; the
  receiver's validation leaves this possible only for properties it does not check.\<close>

definition js_int :: "jsval \<Rightarrow> int option" where
  "js_int v = (case v of JNum n \<Rightarrow> num_int n | _ \<Rightarrow> None)"

definition js_str :: "jsval \<Rightarrow> string option" where
  "js_str v = (case v of JString s \<Rightarrow> Some s | _ \<Rightarrow> None)"

definition js_pair :: "jsval \<Rightarrow> int \<times> int" where
  "js_pair v = (case v of JArray [a, b] \<Rightarrow> (nullish (js_int a) 0, nullish (js_int b) 0) | _ \<Rightarrow> (0, 0))"

definition js_list :: "jsval \<Rightarrow> jsval list" where
  "js_list v = (case v of JArray vs \<Rightarrow> vs | _ \<Rightarrow> [])"

definition js_segment_type :: "jsval \<Rightarrow> SegmentType" where
  "js_segment_type v =
     (if v = JString ''hotp'' then Hotp else if v = JString ''totp'' then Totp else Static)"

definition js_status :: "jsval \<Rightarrow> KeyStatus option" where
  "js_status v =
     (if v = JString ''active'' then Some Active else if v = JString ''expiring'' then Some Expiring
      else if v = JString ''revoked'' then Some Revoked else if v = JString ''expired'' then Some Expired
      else None)"

definition js_segment :: "jsval \<Rightarrow> SegmentConfig" where
  "js_segment v =
     \<lparr>seg_id = nullish (js_str (js_get v ''segmentId'')) [], seg_pos = js_pair (js_get v ''position''),
      seg_type = js_segment_type (js_get v ''type''),
      seg_window = js_int (js_get v ''windowSec''), seg_counter = js_int (js_get v ''counter'')\<rparr>"

definition js_map :: "jsval \<Rightarrow> TumblerMap" where
  "js_map v =
     \<lparr>tm_clientId = nullish (js_str (js_get v ''clientId'')) [],
      tm_sharedSecret = nullish (js_str (js_get v ''sharedSecret'')) [],
      tm_keyLength = nullish (js_int (js_get v ''keyLength'')) 0,
      tm_segments = map js_segment (js_list (js_get v ''segments'')),
      tm_checksum = js_pair (js_get (js_get v ''checksum'') ''position''),
      tm_createdAt = nullish (js_int (js_get v ''createdAt'')) 0,
      tm_version = nullish (js_str (js_get v ''version'')) [],
      tm_label = js_str (js_get v ''label''), tm_expiresAt = js_int (js_get v ''expiresAt''),
      tm_maxRequests = js_int (js_get v ''maxRequests''),
      tm_rotationWarningRequests = js_int (js_get v ''rotationWarningRequests''),
      tm_hotpRotationWarningCounters = js_int (js_get v ''hotpRotationWarningCounters''),
      tm_requestCount = js_int (js_get v ''requestCount''), tm_lastUsedAt = js_int (js_get v ''lastUsedAt''),
      tm_status = js_status (js_get v ''status'')\<rparr>"

definition mutation_js :: "TumblerReplicaMutation \<Rightarrow> jsval" where
  "mutation_js mu =
     (case mu of
        M_set cid m secretSealed \<Rightarrow>
          JObject [(''op'', JString ''set''), (''clientId'', JString cid), (''map'', m), (''secretSealed'', JBool secretSealed)]
      | M_delete cid \<Rightarrow> JObject [(''op'', JString ''delete''), (''clientId'', JString cid)]
      | M_updateCounters cid us \<Rightarrow>
          JObject [(''op'', JString ''updateCounters''), (''clientId'', JString cid),
                   (''updates'', JArray (map (\<lambda>(sid, c). JArray [JString sid, jint c]) us))]
      | M_consumeCounter cid sid c \<Rightarrow>
          JObject [(''op'', JString ''consumeCounter''), (''clientId'', JString cid),
                   (''segmentId'', JString sid), (''matchedCounter'', jint c)])"

section \<open>Hashes and signatures\<close>

definition assertStrongSecret :: "string \<Rightarrow> string \<Rightarrow> unit res" where
  "assertStrongSecret secret name =
     (if length (utf8 secret) < MIN_REPLICATION_TOKEN_BYTES
      then Inl (name @ '' must contain at least 32 bytes'') else Inr ())"

definition computeReplicationHash ::
  "sha_fn \<Rightarrow> string \<Rightarrow> int \<Rightarrow> int \<Rightarrow> string \<Rightarrow> TumblerReplicaMutation \<Rightarrow> string" where
  "computeReplicationHash S streamId epoch sequence previousHash mutation =
     digest_hex (S (utf8 (canonical (JObject
       [(''streamId'', JString streamId), (''epoch'', jint epoch), (''sequence'', jint sequence),
        (''previousHash'', JString previousHash), (''mutation'', mutation_js mutation)]))))"

definition js_remove :: "string \<Rightarrow> jsval \<Rightarrow> jsval" where
  "js_remove k v = (case v of JObject ps \<Rightarrow> JObject (filter (\<lambda>p. fst p \<noteq> k) ps) | _ \<Rightarrow> v)"

definition js_put :: "string \<Rightarrow> jsval \<Rightarrow> jsval \<Rightarrow> jsval" where
  "js_put k x v = (case v of JObject ps \<Rightarrow> JObject (omap_set k x ps) | _ \<Rightarrow> v)"

definition unsignedEnvelope :: "jsval \<Rightarrow> jsval" where
  "unsignedEnvelope v = js_remove ''signature'' v"

definition signReplicaEnvelope :: "hmac_fn \<Rightarrow> jsval \<Rightarrow> string \<Rightarrow> jsval res" where
  "signReplicaEnvelope H input token =
     bind_res (assertStrongSecret token ''replica token'') (\<lambda>_.
       Inr (js_put ''signature'' (JString (digest_b64url (H (utf8 token) (utf8 (canonical input))))) input))"

text \<open>Decoding the presented signature, re-encoding it to itself and comparing the bytes in constant
  time accepts exactly the base64url text of the expected digest.\<close>

definition verifyReplicaEnvelopeSignature :: "hmac_fn \<Rightarrow> jsval \<Rightarrow> string \<Rightarrow> bool" where
  "verifyReplicaEnvelopeSignature H env token =
     (case assertStrongSecret token ''replica token'' of
        Inl _ \<Rightarrow> False
      | Inr _ \<Rightarrow> js_get env ''signature'' =
          JString (digest_b64url (H (utf8 token) (utf8 (canonical (unsignedEnvelope env))))))"

section \<open>The replicating store\<close>

record PendingReplicaOp =
  po_checkpoint :: ReplicationCheckpoint
  po_previousHash :: string
  po_mutation :: TumblerReplicaMutation

text \<open>\<open>rs_inflight\<close> is the operation whose push the drain loop is waiting for; while the loop sleeps
  between two attempts it is empty. \<open>rs_secretPolicy\<close> is empty for \<^verbatim>\<open>'strip'\<close>.\<close>

record 's ReplicatingTumblerStore =
  rs_primary :: 's
  rs_token :: string
  rs_queue :: "PendingReplicaOp list"
  rs_draining :: bool
  rs_inflight :: "PendingReplicaOp option"
  rs_attempt :: int
  rs_integrityLost :: bool
  rs_secretPolicy :: "(string \<Rightarrow> string \<Rightarrow> string res) option"
  rs_maxQueue :: int
  rs_backoffBaseMs :: int
  rs_backoffMaxMs :: int
  rs_promotionDurability :: "(ReplicationCheckpoint \<Rightarrow> bool res) option"
  rs_checkpoint :: ReplicationCheckpoint

record ReplicatingTumblerOptions =
  rt_secretPolicy :: "(string \<Rightarrow> string \<Rightarrow> string res) option"
  rt_maxQueue :: "jsnum option"
  rt_backoffBaseMs :: "int option"
  rt_backoffMaxMs :: "int option"
  rt_streamId :: "string option"
  rt_epoch :: "jsnum option"
  rt_initialCheckpoint :: "ReplicationCheckpoint option"
  rt_promotionDurability :: "(ReplicationCheckpoint \<Rightarrow> bool res) option"

definition initial_checkpoint :: "string \<Rightarrow> ReplicatingTumblerOptions \<Rightarrow> ReplicationCheckpoint res" where
  "initial_checkpoint uuid options =
     (case rt_initialCheckpoint options of
        Some cp \<Rightarrow> Inr cp
      | None \<Rightarrow>
          let epoch = nullish (rt_epoch options) (NInt 1) in
          if \<not> Number_isSafeInteger epoch \<or> num_lt epoch 1
          then Inl ''replication epoch must be a positive safe integer''
          else Inr \<lparr>rc_streamId = nullish (rt_streamId options) uuid, rc_epoch = num_floor epoch,
                     rc_sequence = 0, rc_headHash = REPLICATION_GENESIS_HASH\<rparr>)"

definition new_ReplicatingTumblerStore ::
  "'s \<Rightarrow> string \<Rightarrow> string \<Rightarrow> ReplicatingTumblerOptions \<Rightarrow> 's ReplicatingTumblerStore res" where
  "new_ReplicatingTumblerStore primary token uuid options =
     bind_res (assertStrongSecret token ''replica token'') (\<lambda>_.
       let maxQueue = nullish (rt_maxQueue options) (NInt 5000) in
       if \<not> Number_isInteger maxQueue \<or> num_lt maxQueue 1 then Inl ''maxQueue must be a positive integer''
       else bind_res (initial_checkpoint uuid options) (\<lambda>cp.
         Inr \<lparr>rs_primary = primary, rs_token = token, rs_queue = [], rs_draining = False, rs_inflight = None,
              rs_attempt = 0, rs_integrityLost = False, rs_secretPolicy = rt_secretPolicy options,
              rs_maxQueue = num_floor maxQueue, rs_backoffBaseMs = nullish (rt_backoffBaseMs options) 1000,
              rs_backoffMaxMs = nullish (rt_backoffMaxMs options) 30000,
              rs_promotionDurability = rt_promotionDurability options, rs_checkpoint = cp\<rparr>))"

text \<open>One turn of the drain loop up to the next suspension.\<close>

definition drain_next :: "'s ReplicatingTumblerStore \<Rightarrow> 's ReplicatingTumblerStore" where
  "drain_next s =
     (case rs_queue s of
        [] \<Rightarrow> s\<lparr>rs_draining := False, rs_inflight := None\<rparr>
      | p # _ \<Rightarrow> s\<lparr>rs_inflight := Some p\<rparr>)"

definition drain :: "'s ReplicatingTumblerStore \<Rightarrow> 's ReplicatingTumblerStore" where
  "drain s = (if rs_draining s then s else drain_next (s\<lparr>rs_draining := True\<rparr>))"

text \<open>The push of the operation in flight has been answered: remove exactly that operation, or go to
  sleep for the back-off.\<close>

definition drain_answered :: "bool \<Rightarrow> 's ReplicatingTumblerStore \<Rightarrow> 's ReplicatingTumblerStore" where
  "drain_answered ok s =
     (case rs_inflight s of
        None \<Rightarrow> s
      | Some p \<Rightarrow>
          if ok
          then (case rs_queue s of
                  q # qs \<Rightarrow>
                    if q = p then drain_next (s\<lparr>rs_queue := qs, rs_attempt := 0\<rparr>)
                    else s\<lparr>rs_integrityLost := True, rs_draining := False, rs_inflight := None\<rparr>
                | [] \<Rightarrow> s\<lparr>rs_integrityLost := True, rs_draining := False, rs_inflight := None\<rparr>)
          else s\<lparr>rs_attempt := rs_attempt s + 1, rs_inflight := None\<rparr>)"

definition backoff :: "'s ReplicatingTumblerStore \<Rightarrow> int" where
  "backoff s = min (rs_backoffBaseMs s * 2 ^ nat (min (rs_attempt s - 1) 10)) (rs_backoffMaxMs s)"

definition drain_awake :: "'s ReplicatingTumblerStore \<Rightarrow> 's ReplicatingTumblerStore" where
  "drain_awake s = (if rs_draining s \<and> rs_inflight s = None then drain_next s else s)"

definition enqueueMutation :: "sha_fn \<Rightarrow> TumblerReplicaMutation \<Rightarrow> 's ReplicatingTumblerStore \<Rightarrow> 's ReplicatingTumblerStore" where
  "enqueueMutation S mutation s =
     (let cp = rs_checkpoint s;
          previousHash = rc_headHash cp;
          sequence = rc_sequence cp + 1;
          headHash = computeReplicationHash S (rc_streamId cp) (rc_epoch cp) sequence previousHash mutation;
          pending = \<lparr>po_checkpoint = \<lparr>rc_streamId = rc_streamId cp, rc_epoch = rc_epoch cp,
                                     rc_sequence = sequence, rc_headHash = headHash\<rparr>,
                     po_previousHash = previousHash, po_mutation = mutation\<rparr>;
          s1 = s\<lparr>rs_checkpoint := po_checkpoint pending\<rparr>
      in if rs_maxQueue s1 \<le> int (length (rs_queue s1))
         then s1\<lparr>rs_integrityLost := True\<rparr>
         else drain (s1\<lparr>rs_queue := rs_queue s1 @ [pending]\<rparr>))"

definition sealMap :: "'s ReplicatingTumblerStore \<Rightarrow> TumblerMap \<Rightarrow> (TumblerMap \<times> bool) res" where
  "sealMap s m =
     (case rs_secretPolicy s of
        None \<Rightarrow> Inr (m\<lparr>tm_sharedSecret := []\<rparr>, False)
      | Some f \<Rightarrow> bind_res (f (tm_clientId m) (tm_sharedSecret m)) (\<lambda>x. Inr (m\<lparr>tm_sharedSecret := x\<rparr>, True)))"

definition enqueue_sealed :: "sha_fn \<Rightarrow> string \<Rightarrow> TumblerMap \<Rightarrow> 's ReplicatingTumblerStore \<Rightarrow> 's ReplicatingTumblerStore \<times> unit res" where
  "enqueue_sealed S cid m s =
     (case sealMap s m of
        Inl e \<Rightarrow> (s, Inl e)
      | Inr (wire, secretSealed) \<Rightarrow> (enqueueMutation S (M_set cid (map_js wire) secretSealed) s, Inr ()))"

definition rs_get :: "'s tumbler_store_api \<Rightarrow> string \<Rightarrow> int \<Rightarrow> 's ReplicatingTumblerStore \<Rightarrow> 's ReplicatingTumblerStore \<times> TumblerMap option res" where
  "rs_get api cid now s = (let (p, r) = api_get api cid now (rs_primary s) in (s\<lparr>rs_primary := p\<rparr>, r))"

definition rs_list :: "'s tumbler_store_api \<Rightarrow> 's ReplicatingTumblerStore \<Rightarrow> 's ReplicatingTumblerStore \<times> string list res" where
  "rs_list api s = (let (p, r) = api_list api (rs_primary s) in (s\<lparr>rs_primary := p\<rparr>, r))"

definition rs_set :: "sha_fn \<Rightarrow> 's tumbler_store_api \<Rightarrow> string \<Rightarrow> TumblerMap \<Rightarrow> 's ReplicatingTumblerStore \<Rightarrow> 's ReplicatingTumblerStore \<times> unit res" where
  "rs_set S api cid m s =
     (case api_set api cid m (rs_primary s) of
        (p, Inl e) \<Rightarrow> (s\<lparr>rs_primary := p\<rparr>, Inl e)
      | (p, Inr _) \<Rightarrow> enqueue_sealed S cid m (s\<lparr>rs_primary := p\<rparr>))"

definition rs_delete :: "sha_fn \<Rightarrow> 's tumbler_store_api \<Rightarrow> string \<Rightarrow> 's ReplicatingTumblerStore \<Rightarrow> 's ReplicatingTumblerStore \<times> unit res" where
  "rs_delete S api cid s =
     (case api_delete api cid (rs_primary s) of
        (p, Inl e) \<Rightarrow> (s\<lparr>rs_primary := p\<rparr>, Inl e)
      | (p, Inr _) \<Rightarrow> (enqueueMutation S (M_delete cid) (s\<lparr>rs_primary := p\<rparr>), Inr ()))"

definition rs_updateCounters :: "sha_fn \<Rightarrow> 's tumbler_store_api \<Rightarrow> string \<Rightarrow> (string \<times> int) list \<Rightarrow> 's ReplicatingTumblerStore \<Rightarrow> 's ReplicatingTumblerStore \<times> unit res" where
  "rs_updateCounters S api cid us s =
     (case api_update api cid us (rs_primary s) of
        (p, Inl e) \<Rightarrow> (s\<lparr>rs_primary := p\<rparr>, Inl e)
      | (p, Inr _) \<Rightarrow> (enqueueMutation S (M_updateCounters cid us) (s\<lparr>rs_primary := p\<rparr>), Inr ()))"

definition rs_consumeCounter :: "sha_fn \<Rightarrow> 's tumbler_store_api \<Rightarrow> string \<Rightarrow> string \<Rightarrow> int \<Rightarrow> 's ReplicatingTumblerStore \<Rightarrow> 's ReplicatingTumblerStore \<times> bool res" where
  "rs_consumeCounter S api cid sid c s =
     (case api_consume api of
        None \<Rightarrow> (s, Inr False)
      | Some f \<Rightarrow>
          case f cid sid c (rs_primary s) of
            (p, Inl e) \<Rightarrow> (s\<lparr>rs_primary := p\<rparr>, Inl e)
          | (p, Inr ok) \<Rightarrow>
              (if ok then enqueueMutation S (M_consumeCounter cid sid c) (s\<lparr>rs_primary := p\<rparr>)
               else s\<lparr>rs_primary := p\<rparr>, Inr ok))"

text \<open>Re-read a client after a compound mutation and mirror its whole map.\<close>

definition mirror_current :: "sha_fn \<Rightarrow> 's tumbler_store_api \<Rightarrow> string \<Rightarrow> int \<Rightarrow> 's ReplicatingTumblerStore \<Rightarrow> 's ReplicatingTumblerStore \<times> unit res" where
  "mirror_current S api cid now s =
     (case rs_get api cid now s of
        (s1, Inl e) \<Rightarrow> (s1, Inl e)
      | (s1, Inr None) \<Rightarrow> (s1, Inr ())
      | (s1, Inr (Some m)) \<Rightarrow> enqueue_sealed S cid m s1)"

definition rs_commitValidation :: "sha_fn \<Rightarrow> 's tumbler_store_api \<Rightarrow> string \<Rightarrow> ValidationCommitInput \<Rightarrow> int \<Rightarrow> 's ReplicatingTumblerStore \<Rightarrow> 's ReplicatingTumblerStore \<times> ValidationCommitResult res" where
  "rs_commitValidation S api cid input now s =
     (case api_commit api cid input (rs_primary s) of
        (p, Inl e) \<Rightarrow> (s\<lparr>rs_primary := p\<rparr>, Inl e)
      | (p, Inr r) \<Rightarrow>
          (let (s1, u) = mirror_current S api cid now (s\<lparr>rs_primary := p\<rparr>) in (s1, bind_res u (\<lambda>_. Inr r))))"

definition rs_replaceCredential :: "sha_fn \<Rightarrow> 's tumbler_store_api \<Rightarrow> string \<Rightarrow> TumblerMap \<Rightarrow> int \<Rightarrow> int \<Rightarrow> 's ReplicatingTumblerStore \<Rightarrow> 's ReplicatingTumblerStore \<times> bool res" where
  "rs_replaceCredential S api old m now_old now_new s =
     (case api_replace api old m (rs_primary s) of
        (p, Inl e) \<Rightarrow> (s\<lparr>rs_primary := p\<rparr>, Inl e)
      | (p, Inr False) \<Rightarrow> (s\<lparr>rs_primary := p\<rparr>, Inr False)
      | (p, Inr True) \<Rightarrow>
          (case mirror_current S api old now_old (s\<lparr>rs_primary := p\<rparr>) of
             (s1, Inl e) \<Rightarrow> (s1, Inl e)
           | (s1, Inr _) \<Rightarrow>
               (let (s2, u) = mirror_current S api (tm_clientId m) now_new s1 in (s2, bind_res u (\<lambda>_. Inr True)))))"

definition queueDepth :: "'s ReplicatingTumblerStore \<Rightarrow> nat" where
  "queueDepth s = length (rs_queue s)"

definition rs_promotionCheckpoint :: "'s ReplicatingTumblerStore \<Rightarrow> ReplicationCheckpoint option" where
  "rs_promotionCheckpoint s =
     (if rs_integrityLost s \<or> rs_draining s \<or> rs_queue s \<noteq> [] then None
      else case rs_promotionDurability s of
        None \<Rightarrow> None
      | Some f \<Rightarrow> if f (rs_checkpoint s) = Inr True then Some (rs_checkpoint s) else None)"

text \<open>The signed envelope of one push.\<close>

definition envelope_body :: "PendingReplicaOp \<Rightarrow> int \<Rightarrow> jsval" where
  "envelope_body p sentAt = JObject
     [(''streamId'', JString (rc_streamId (po_checkpoint p))), (''epoch'', jint (rc_epoch (po_checkpoint p))),
      (''sequence'', jint (rc_sequence (po_checkpoint p))), (''headHash'', JString (rc_headHash (po_checkpoint p))),
      (''previousHash'', JString (po_previousHash p)), (''sentAt'', jint sentAt),
      (''mutation'', mutation_js (po_mutation p))]"

definition push :: "hmac_fn \<Rightarrow> string \<Rightarrow> PendingReplicaOp \<Rightarrow> int \<Rightarrow> jsval res" where
  "push H token p now = signReplicaEnvelope H (envelope_body p now) token"

text \<open>One poll of \<^verbatim>\<open>flush\<close>: a result, or nothing when it has to sleep and poll again.\<close>

definition flush_poll :: "int \<Rightarrow> int \<Rightarrow> int \<Rightarrow> 's ReplicatingTumblerStore \<Rightarrow> bool option" where
  "flush_poll timeoutMs start now s =
     (if rs_draining s \<or> rs_queue s \<noteq> []
      then if timeoutMs < now - start then Some False else None
      else Some (\<not> rs_integrityLost s))"

section \<open>The wire form is faithful\<close>

lemma map_of_opt_prop [simp]: "map_of (opt_prop k f v) x = (if x = k then map_option f v else None)"
  by (auto simp: opt_prop_def split: option.splits)

lemma distinct_opt_prop [simp]: "distinct (map fst (opt_prop k f v))"
  by (auto simp: opt_prop_def split: option.splits)

lemma js_read_simps [simp]:
  "js_int (jint n) = Some n" "js_int JNull = None" "js_int JUndefined = None" "js_str (JString t) = Some t" "js_str JUndefined = None"
  "js_list (JArray vs) = vs" "js_pair (pair_js p) = p" "js_pair (content (pair_js p)) = p"
  "js_segment_type (segment_type_js ty) = ty" "content (segment_type_js ty) = segment_type_js ty"
  "js_status (status_js sta) = Some sta" "js_status JUndefined = None" "content (status_js sta) = status_js sta"
  by (simp_all add: js_int_def js_str_def js_list_def js_pair_def pair_js_def js_segment_type_def js_status_def)
    (cases ty; simp; fail | cases sta; simp; fail)+

text \<open>Reading the properties of an object literal one after the other; an absent one is \<^verbatim>\<open>undefined\<close>.\<close>

lemma js_get_literal [simp]:
  "js_get (JObject []) x = JUndefined"
  "js_get (JObject ((k, v) # ps)) x = (if x = k then v else js_get (JObject ps) x)"
  "js_get (JObject (opt_prop k f w @ ps)) x =
     (if x = k then (case w of None \<Rightarrow> js_get (JObject ps) x | Some y \<Rightarrow> f y) else js_get (JObject ps) x)"
  "js_get (JObject (opt_prop k f w)) x = (if x = k then (case w of None \<Rightarrow> JUndefined | Some y \<Rightarrow> f y) else JUndefined)"
  by (auto simp: opt_prop_def split: option.splits)

lemma js_read_option [simp]:
  "js_int (content (case v of None \<Rightarrow> JUndefined | Some x \<Rightarrow> jint x)) = v"
  "js_int (case v of None \<Rightarrow> JUndefined | Some x \<Rightarrow> jint x) = v"
  "js_int (content (case v of None \<Rightarrow> JNull | Some x \<Rightarrow> jint x)) = v"
  "js_int (case v of None \<Rightarrow> JNull | Some x \<Rightarrow> jint x) = v"
  "js_str (content (case w of None \<Rightarrow> JUndefined | Some x \<Rightarrow> JString x)) = w"
  "js_str (case w of None \<Rightarrow> JUndefined | Some x \<Rightarrow> JString x) = w"
  "js_status (content (case sta of None \<Rightarrow> JUndefined | Some x \<Rightarrow> status_js x)) = sta"
  "js_status (case sta of None \<Rightarrow> JUndefined | Some x \<Rightarrow> status_js x) = sta"
  by (cases v; simp; fail | cases w; simp; fail | cases sta; simp; fail)+

declare js_get.simps(1) [simp del]

lemma js_segment_js [simp]: "js_segment (segment_js s) = s"
  by (simp add: js_segment_def segment_js_def cong: option.case_cong)

lemma js_segment_content [simp]: "js_segment (content (segment_js s)) = s"
proof -
  have g: "js_get (content (segment_js s)) k = content (js_get (segment_js s) k)" for k
    unfolding segment_js_def by (rule js_get_content) (auto simp: opt_prop_def split: option.splits)
  show ?thesis unfolding js_segment_def g by (simp add: segment_js_def cong: option.case_cong)
qed

lemma segment_js_defined [simp]: "segment_js s \<noteq> JUndefined"
  by (simp add: segment_js_def)

lemma js_map_js [simp]: "js_map (map_js m) = m"
  by (simp add: js_map_def map_js_def comp_def cong: option.case_cong)

lemma distinct_opt_propI:
  "k \<notin> fst ` set ps \<Longrightarrow> distinct (map fst ps) \<Longrightarrow> distinct (map fst (opt_prop k f v @ ps))"
  by (simp add: opt_prop_def split: option.split)

lemma opt_prop_keys [simp]: "x \<in> fst ` set (opt_prop k f v) \<longleftrightarrow> v \<noteq> None \<and> x = k"
  by (cases v) (auto simp: opt_prop_def)

lemma distinct_map_js: "map_js m = JObject ps \<Longrightarrow> distinct (map fst ps)"
proof -
  assume "map_js m = JObject ps"
  moreover have "distinct (map fst
     (opt_prop ''label'' JString (tm_label m) @ opt_prop ''expiresAt'' jint (tm_expiresAt m) @
      opt_prop ''maxRequests'' jint (tm_maxRequests m) @
      opt_prop ''rotationWarningRequests'' jint (tm_rotationWarningRequests m) @
      opt_prop ''hotpRotationWarningCounters'' jint (tm_hotpRotationWarningCounters m) @
      opt_prop ''requestCount'' jint (tm_requestCount m) @
      [(''lastUsedAt'', case tm_lastUsedAt m of None \<Rightarrow> JNull | Some t \<Rightarrow> jint t)] @
      opt_prop ''status'' status_js (tm_status m)))"
    by (intro distinct_opt_propI) (simp_all add: image_Un)
  ultimately show ?thesis by (auto simp: map_js_def image_Un)
qed

lemma js_get_map_content: "js_get (content (map_js m)) k = content (js_get (map_js m) k)"
proof (cases "map_js m")
  case (JObject ps)
  show ?thesis unfolding JObject by (rule js_get_content) (rule distinct_map_js [OF JObject])
qed (simp_all add: map_js_def)

lemma js_get_checksum_content: "js_get (content (JObject [(''position'', v)])) ''position'' = content v"
  by (subst js_get_content) simp_all

lemma js_map_content [simp]: "js_map (content (map_js m)) = m"
proof -
  have c: "js_get (content (js_get (map_js m) ''checksum'')) ''position'' = content (pair_js (tm_checksum m))"
    unfolding map_js_def by (simp add: js_get_checksum_content del: content.simps)
  show ?thesis
    unfolding js_map_def js_get_map_content c by (simp add: map_js_def comp_def cong: option.case_cong)
qed

end
