(* ===== verification/Replica_Receiver.thy ===== *)
theory Replica_Receiver
  imports Replication
begin

text \<open>
  The receiver of a replication stream, \<^verbatim>\<open>packages/server/src/replica-receiver.ts\<close>: structural validation
  of an untyped envelope, signature, freshness, order and hash-chain checks, the unsealing of
  secrets, and the application of one mutation with its rollback checks. The sealing service is a
  parameter that may throw.
\<close>

section \<open>Validation of an envelope\<close>

definition MAX_CLIENT_ID_LEN :: nat where "MAX_CLIENT_ID_LEN = 128"
definition MAX_SEGMENT_ID_LEN :: nat where "MAX_SEGMENT_ID_LEN = 128"
definition MAX_SEGMENTS :: nat where "MAX_SEGMENTS = 32"
definition MAX_SEALED_SECRET_CHARS :: int where "MAX_SEALED_SECRET_CHARS = 8192"
definition MAX_ENVELOPE_BYTES :: int where "MAX_ENVELOPE_BYTES = 256 * 1024"

definition hash_pattern :: "string \<Rightarrow> bool" where
  "hash_pattern s \<longleftrightarrow> length s = 64 \<and> list_all is_lower_hex_char s"

definition signature_pattern :: "string \<Rightarrow> bool" where
  "signature_pattern s \<longleftrightarrow> length s = 43 \<and> list_all (\<lambda>c. c \<in> set b64url_alphabet) s"

definition authorizeReplica :: "(string \<times> header_value) list \<Rightarrow> string \<Rightarrow> bool" where
  "authorizeReplica headers expectedToken =
     (let presented = (case map_of headers ''x-replica-token'' of
            None \<Rightarrow> None | Some (HString s) \<Rightarrow> Some s
          | Some (HList xs) \<Rightarrow> (case xs of [] \<Rightarrow> None | x # _ \<Rightarrow> Some x))
      in case presented of
           None \<Rightarrow> False
         | Some p \<Rightarrow> p \<noteq> [] \<and> MIN_REPLICATION_TOKEN_BYTES \<le> length (utf8 expectedToken) \<and> utf8 p = utf8 expectedToken)"

definition isValidId :: "jsval \<Rightarrow> nat \<Rightarrow> bool" where
  "isValidId v mx = (case v of JString s \<Rightarrow> s \<noteq> [] \<and> length s \<le> mx | _ \<Rightarrow> False)"

definition isSafeInt :: "jsval \<Rightarrow> bool" where
  "isSafeInt v = (case v of JNum n \<Rightarrow> Number_isSafeInteger n | _ \<Rightarrow> False)"

definition int_of :: "jsval \<Rightarrow> int" where
  "int_of v = nullish (js_int v) 0"

definition isSafeNonNegativeInteger :: "jsval \<Rightarrow> bool" where
  "isSafeNonNegativeInteger v \<longleftrightarrow> isSafeInt v \<and> 0 \<le> int_of v"

definition isValidReceivedCounter :: "jsval \<Rightarrow> bool" where
  "isValidReceivedCounter v \<longleftrightarrow> isSafeNonNegativeInteger v \<and> int_of v \<le> TSK_MAX_HOTP_COUNTER"

definition or_zero :: "jsval \<Rightarrow> jsval" where
  "or_zero v = (if v = JUndefined \<or> v = JNull then jint 0 else v)"

text \<open>One iteration of the segment loop of \<^verbatim>\<open>validateMap\<close>: the identifiers seen, the cursor and the two
  flags, or a rejection.\<close>

record segment_scan =
  sc_ids :: "string list"
  sc_cursor :: int
  sc_hasHotp :: bool
  sc_exhausted :: bool

definition is_object :: "jsval \<Rightarrow> bool" where
  "is_object v = (case v of JObject _ \<Rightarrow> True | JArray _ \<Rightarrow> True | _ \<Rightarrow> False)"

definition safe_pair :: "jsval \<Rightarrow> (int \<times> int) option" where
  "safe_pair v =
     (case v of JArray [a, b] \<Rightarrow> if isSafeInt a \<and> isSafeInt b then Some (int_of a, int_of b) else None | _ \<Rightarrow> None)"

definition scan_segment :: "int \<Rightarrow> jsval \<Rightarrow> segment_scan \<Rightarrow> segment_scan option" where
  "scan_segment keyLength v sc =
     (let sid = js_get v ''segmentId''; ty = js_get v ''type''; counter = or_zero (js_get v ''counter'') in
      if \<not> isValidId sid MAX_SEGMENT_ID_LEN \<or> the (js_str sid) \<in> set (sc_ids sc) then None
      else case safe_pair (js_get v ''position'') of
        None \<Rightarrow> None
      | Some (start, stop) \<Rightarrow>
          if start \<noteq> sc_cursor sc \<or> stop \<le> start \<or> keyLength < stop then None
          else if ty \<noteq> JString ''static'' \<and> ty \<noteq> JString ''totp'' \<and> ty \<noteq> JString ''hotp'' then None
          else if ty = JString ''hotp'' \<and> \<not> isValidReceivedCounter counter then None
          else if ty = JString ''totp'' \<and> (\<not> isSafeInt (js_get v ''windowSec'') \<or> int_of (js_get v ''windowSec'') < 1) then None
          else Some \<lparr>sc_ids = the (js_str sid) # sc_ids sc, sc_cursor = stop,
                     sc_hasHotp = (sc_hasHotp sc \<or> ty = JString ''hotp''),
                     sc_exhausted = (sc_exhausted sc \<or> (ty = JString ''hotp'' \<and> int_of counter = TSK_MAX_HOTP_COUNTER))\<rparr>)"

fun scan_segments :: "int \<Rightarrow> jsval list \<Rightarrow> segment_scan \<Rightarrow> segment_scan option" where
  "scan_segments keyLength [] sc = Some sc"
| "scan_segments keyLength (v # vs) sc =
     (case scan_segment keyLength v sc of None \<Rightarrow> None | Some sc' \<Rightarrow> scan_segments keyLength vs sc')"

definition optional_ok :: "(jsval \<Rightarrow> bool) \<Rightarrow> jsval \<Rightarrow> bool" where
  "optional_ok P v \<longleftrightarrow> v = JUndefined \<or> P v"

definition terminal_status :: "jsval \<Rightarrow> bool" where
  "terminal_status v \<longleftrightarrow> v = JString ''revoked'' \<or> v = JString ''expired''"

text \<open>The tests after the segment loop.\<close>

definition validate_tail :: "jsval \<Rightarrow> segment_scan \<Rightarrow> bool" where
  "validate_tail v sc \<longleftrightarrow>
     safe_pair (js_get (js_get v ''checksum'') ''position'') = Some (sc_cursor sc, int_of (js_get v ''keyLength'')) \<and>
     sc_hasHotp sc \<and>
     optional_ok isSafeNonNegativeInteger (js_get v ''requestCount'') \<and>
     optional_ok (\<lambda>x. isSafeInt x \<and> 1 \<le> int_of x) (js_get v ''maxRequests'') \<and>
     optional_ok (\<lambda>x. isSafeInt x \<and> 1 \<le> int_of x \<and> int_of x \<le> TSK_MAX_HOTP_COUNTER) (js_get v ''hotpRotationWarningCounters'') \<and>
     optional_ok isSafeNonNegativeInteger (js_get v ''expiresAt'') \<and>
     optional_ok (\<lambda>x. x \<in> status_js ` {Active, Expiring, Revoked, Expired}) (js_get v ''status'') \<and>
     (sc_exhausted sc \<longrightarrow> terminal_status (js_get v ''status''))"

definition validateMap :: "jsval \<Rightarrow> string \<Rightarrow> bool \<Rightarrow> bool" where
  "validateMap v cid secretSealed \<longleftrightarrow>
     is_object v \<and> js_get v ''clientId'' = JString cid \<and> js_get v ''version'' = JString ''1'' \<and>
     isSafeInt (js_get v ''keyLength'') \<and> 20 \<le> int_of (js_get v ''keyLength'') \<and> int_of (js_get v ''keyLength'') \<le> 512 \<and>
     isSafeNonNegativeInteger (js_get v ''createdAt'') \<and>
     (case js_get v ''segments'' of JArray vs \<Rightarrow> 2 \<le> length vs \<and> length vs \<le> MAX_SEGMENTS | _ \<Rightarrow> False) \<and>
     (case js_get (js_get v ''checksum'') ''position'' of JArray vs \<Rightarrow> length vs = 2 | _ \<Rightarrow> False) \<and>
     (case js_get v ''sharedSecret'' of
        JString s \<Rightarrow> if secretSealed then s \<noteq> [] \<and> int (length s) \<le> MAX_SEALED_SECRET_CHARS else s = []
      | _ \<Rightarrow> False) \<and>
     (case scan_segments (int_of (js_get v ''keyLength'')) (js_list (js_get v ''segments''))
             \<lparr>sc_ids = [], sc_cursor = 0, sc_hasHotp = False, sc_exhausted = False\<rparr> of
        None \<Rightarrow> False
      | Some sc \<Rightarrow> validate_tail v sc)"

definition valid_update_entry :: "jsval \<Rightarrow> bool" where
  "valid_update_entry e =
     (case e of JArray [a, b] \<Rightarrow> isValidId a MAX_SEGMENT_ID_LEN \<and> isValidReceivedCounter b | _ \<Rightarrow> False)"

definition js_update_entry :: "jsval \<Rightarrow> string \<times> int" where
  "js_update_entry e = (case e of JArray [a, b] \<Rightarrow> (nullish (js_str a) [], int_of b) | _ \<Rightarrow> ([], 0))"

definition the_str :: "jsval \<Rightarrow> string" where
  "the_str v = nullish (js_str v) []"

definition validateMutation :: "jsval \<Rightarrow> TumblerReplicaMutation res" where
  "validateMutation v =
     (let cid = js_get v ''clientId'' in
      if \<not> is_object v then Inl ''invalid_mutation''
      else if js_get v ''op'' = JString ''set'' then
        if \<not> isValidId cid MAX_CLIENT_ID_LEN then Inl ''invalid_set_clientId''
        else (case js_get v ''secretSealed'' of
          JBool b \<Rightarrow> if validateMap (js_get v ''map'') (the_str cid) b then Inr (M_set (the_str cid) (js_get v ''map'') b)
                     else Inl ''invalid_set_map''
        | _ \<Rightarrow> Inl ''invalid_set_map'')
      else if js_get v ''op'' = JString ''delete'' then
        if \<not> isValidId cid MAX_CLIENT_ID_LEN then Inl ''invalid_delete'' else Inr (M_delete (the_str cid))
      else if js_get v ''op'' = JString ''updateCounters'' then
        if \<not> isValidId cid MAX_CLIENT_ID_LEN then Inl ''invalid_update_clientId''
        else (case js_get v ''updates'' of
          JArray es \<Rightarrow> if length es \<le> MAX_SEGMENTS \<and> list_all valid_update_entry es
                       then Inr (M_updateCounters (the_str cid) (map js_update_entry es))
                       else Inl ''invalid_update_entries''
        | _ \<Rightarrow> Inl ''invalid_update_entries'')
      else if js_get v ''op'' = JString ''consumeCounter'' then
        if \<not> isValidId cid MAX_CLIENT_ID_LEN \<or> \<not> isValidId (js_get v ''segmentId'') MAX_SEGMENT_ID_LEN \<or>
           \<not> isValidReceivedCounter (js_get v ''matchedCounter'') \<or> TSK_MAX_HOTP_COUNTER \<le> int_of (js_get v ''matchedCounter'')
        then Inl ''invalid_consume''
        else Inr (M_consumeCounter (the_str cid) (the_str (js_get v ''segmentId'')) (int_of (js_get v ''matchedCounter'')))
      else Inl ''unknown_op'')"

record validated_op =
  vo_op :: jsval
  vo_checkpoint :: ReplicationCheckpoint
  vo_previousHash :: string
  vo_sentAt :: int
  vo_mutation :: TumblerReplicaMutation

definition str_sat :: "(string \<Rightarrow> bool) \<Rightarrow> jsval \<Rightarrow> bool" where
  "str_sat P v = (case v of JString s \<Rightarrow> P s | _ \<Rightarrow> False)"

text \<open>The size test precedes the test for an object: \<^verbatim>\<open>undefined\<close> has no JSON text, and
  \<^verbatim>\<open>Buffer.byteLength\<close> throws on it.\<close>

definition validateTumblerOp :: "jsval \<Rightarrow> (validated_op res) res" where
  "validateTumblerOp body =
     (if body = JUndefined then Inl ''ERR_INVALID_ARG_TYPE''
      else Inr (
      if MAX_ENVELOPE_BYTES < int (length (utf8 (json_text body))) then Inl ''envelope_too_large''
      else if \<not> is_object body then Inl ''invalid_body''
      else if \<not> isValidId (js_get body ''streamId'') 128 then Inl ''invalid_stream''
      else if \<not> isSafeInt (js_get body ''epoch'') \<or> int_of (js_get body ''epoch'') < 1 then Inl ''invalid_epoch''
      else if \<not> isSafeInt (js_get body ''sequence'') \<or> int_of (js_get body ''sequence'') < 1 then Inl ''invalid_sequence''
      else if \<not> isSafeNonNegativeInteger (js_get body ''sentAt'') then Inl ''invalid_sentAt''
      else if \<not> str_sat hash_pattern (js_get body ''previousHash'') then Inl ''invalid_previous_hash''
      else if \<not> str_sat hash_pattern (js_get body ''headHash'') then Inl ''invalid_head_hash''
      else if \<not> str_sat signature_pattern (js_get body ''signature'') then Inl ''invalid_signature''
      else bind_res (validateMutation (js_get body ''mutation'')) (\<lambda>mu.
        Inr \<lparr>vo_op = js_put ''mutation'' (mutation_js mu) body,
             vo_checkpoint = \<lparr>rc_streamId = the_str (js_get body ''streamId''), rc_epoch = int_of (js_get body ''epoch''),
                rc_sequence = int_of (js_get body ''sequence''), rc_headHash = the_str (js_get body ''headHash'')\<rparr>,
             vo_previousHash = the_str (js_get body ''previousHash''), vo_sentAt = int_of (js_get body ''sentAt''),
             vo_mutation = mu\<rparr>)))"

section \<open>Applying a mutation\<close>

definition isTerminal :: "KeyStatus option \<Rightarrow> bool" where
  "isTerminal st \<longleftrightarrow> st = Some Revoked \<or> st = Some Expired"

text \<open>The loop over the HOTP segments of the current map.\<close>

fun counters_kept :: "SegmentConfig list \<Rightarrow> SegmentConfig list \<Rightarrow> bool" where
  "counters_kept next [] = True"
| "counters_kept next (s # ss) =
     (if seg_type s \<noteq> Hotp then counters_kept next ss
      else case segment_ref next (seg_id s) of
        None \<Rightarrow> False
      | Some n \<Rightarrow> if seg_type n \<noteq> Hotp \<or> stored_counter n < stored_counter s then False else counters_kept next ss)"

definition set_rollback :: "TumblerMap \<Rightarrow> TumblerMap \<Rightarrow> string option" where
  "set_rollback current next =
     (if isTerminal (tm_status current) \<and> \<not> isTerminal (tm_status next) then Some ''lifecycle_rollback''
      else if nullish (tm_requestCount next) 0 < nullish (tm_requestCount current) 0 then Some ''usage_rollback''
      else if \<not> counters_kept (tm_segments next) (tm_segments current) then Some ''counter_rollback''
      else None)"

definition update_rollback :: "TumblerMap \<Rightarrow> (string \<times> int) list \<Rightarrow> bool" where
  "update_rollback current updates \<longleftrightarrow>
     (\<exists>u \<in> set updates. case segment_ref (tm_segments current) (fst u) of
        None \<Rightarrow> True
      | Some seg \<Rightarrow> seg_type seg \<noteq> Hotp \<or> snd u < stored_counter seg)"

text \<open>\<^verbatim>\<open>new Map(updates)\<close>: a later entry of the same key replaces the value of the first one in place.\<close>

definition new_Map :: "('k \<times> 'v) list \<Rightarrow> ('k \<times> 'v) list" where
  "new_Map us = foldl (\<lambda>m u. omap_set (fst u) (snd u) m) [] us"

definition applyTumblerOp ::
  "'s tumbler_store_api \<Rightarrow> int \<Rightarrow> TumblerReplicaMutation \<Rightarrow> 's \<Rightarrow> 's \<times> unit res" where
  "applyTumblerOp api now mutation st =
     (case mutation of
        M_set cid m _ \<Rightarrow>
          (case api_get api cid now st of
             (st1, Inl e) \<Rightarrow> (st1, Inl e)
           | (st1, Inr None) \<Rightarrow> api_set api cid (js_map m) st1
           | (st1, Inr (Some current)) \<Rightarrow>
               (case set_rollback current (js_map m) of
                  Some e \<Rightarrow> (st1, Inl e)
                | None \<Rightarrow> api_set api cid (js_map m) st1))
      | M_delete cid \<Rightarrow> api_delete api cid st
      | M_updateCounters cid updates \<Rightarrow>
          (case api_get api cid now st of
             (st1, Inl e) \<Rightarrow> (st1, Inl e)
           | (st1, Inr None) \<Rightarrow> (st1, Inl ''client_not_found'')
           | (st1, Inr (Some current)) \<Rightarrow>
               if update_rollback current updates then (st1, Inl ''counter_rollback'')
               else api_update api cid (new_Map updates) st1)
      | M_consumeCounter cid sid c \<Rightarrow>
          (case api_consume api of
             None \<Rightarrow> (st, Inl ''consume_unsupported'')
           | Some f \<Rightarrow>
               (let (st1, r) = f cid sid c st
                in (st1, bind_res r (\<lambda>ok. if ok then Inr () else Inl ''counter_replay_or_gap'')))))"

section \<open>The receiver\<close>

record 's TumblerReplicaReceiver =
  rr_store :: 's
  rr_expectedToken :: string
  rr_streamId :: string
  rr_epoch :: int
  rr_maxClockSkewMs :: int
  rr_secretUnsealer :: "(string \<Rightarrow> string \<Rightarrow> string res) option"
  rr_promotionDurability :: "(ReplicationCheckpoint \<Rightarrow> bool res) option"
  rr_checkpoint :: ReplicationCheckpoint
  rr_integrityLost :: bool
  rr_validationReady :: bool

record ReplicaReceiverOptions =
  ro_streamId :: string
  ro_epoch :: jsnum
  ro_initialCheckpoint :: "ReplicationCheckpoint option"
  ro_maxClockSkewMs :: "int option"
  ro_secretUnsealer :: "(string \<Rightarrow> string \<Rightarrow> string res) option"
  ro_promotionDurability :: "(ReplicationCheckpoint \<Rightarrow> bool res) option"

definition new_TumblerReplicaReceiver ::
  "'s \<Rightarrow> string \<Rightarrow> ReplicaReceiverOptions \<Rightarrow> 's TumblerReplicaReceiver res" where
  "new_TumblerReplicaReceiver store expectedToken options =
     (if length (utf8 expectedToken) < MIN_REPLICATION_TOKEN_BYTES then Inl ''replica token is too short''
      else if \<not> isValidId (JString (ro_streamId options)) 128 then Inl ''invalid receiver streamId''
      else if \<not> Number_isSafeInteger (ro_epoch options) \<or> num_lt (ro_epoch options) 1 then Inl ''invalid receiver epoch''
      else
        let epoch = num_floor (ro_epoch options);
            cp = nullish (ro_initialCheckpoint options)
                   \<lparr>rc_streamId = ro_streamId options, rc_epoch = epoch, rc_sequence = 0, rc_headHash = REPLICATION_GENESIS_HASH\<rparr>
        in if rc_streamId cp \<noteq> ro_streamId options \<or> rc_epoch cp \<noteq> epoch
           then Inl ''initial checkpoint does not match configured stream''
           else Inr \<lparr>rr_store = store, rr_expectedToken = expectedToken, rr_streamId = ro_streamId options, rr_epoch = epoch,
                     rr_maxClockSkewMs = nullish (ro_maxClockSkewMs options) 60000,
                     rr_secretUnsealer = ro_secretUnsealer options, rr_promotionDurability = ro_promotionDurability options,
                     rr_checkpoint = cp, rr_integrityLost = False, rr_validationReady = True\<rparr>)"

definition rr_promotionCheckpoint :: "'s TumblerReplicaReceiver \<Rightarrow> ReplicationCheckpoint option" where
  "rr_promotionCheckpoint r =
     (if rr_integrityLost r \<or> \<not> rr_validationReady r \<or> rc_sequence (rr_checkpoint r) < 1 then None
      else case rr_promotionDurability r of
        None \<Rightarrow> None
      | Some f \<Rightarrow> if f (rr_checkpoint r) = Inr True then Some (rr_checkpoint r) else None)"

text \<open>The checks before the mutation is looked at: status and error, with the receiver afterwards.\<close>

definition ingest_checks ::
  "sha_fn \<Rightarrow> hmac_fn \<Rightarrow> int \<Rightarrow> validated_op \<Rightarrow> 's TumblerReplicaReceiver \<Rightarrow> 's TumblerReplicaReceiver \<times> (nat \<times> string) option" where
  "ingest_checks S H now v r =
     (let cp = vo_checkpoint v; expectedSequence = rc_sequence (rr_checkpoint r) + 1; lost = r\<lparr>rr_integrityLost := True\<rparr> in
      if \<not> verifyReplicaEnvelopeSignature H (vo_op v) (rr_expectedToken r) then (r, Some (401, ''signature_invalid''))
      else if rr_maxClockSkewMs r < \<bar>now - vo_sentAt v\<bar> then (r, Some (401, ''envelope_stale''))
      else if rc_streamId cp \<noteq> rr_streamId r \<or> rc_epoch cp \<noteq> rr_epoch r then (r, Some (409, ''stream_or_epoch_mismatch''))
      else if rc_sequence cp < expectedSequence then (r, Some (409, ''envelope_replay''))
      else if expectedSequence < rc_sequence cp then (lost, Some (409, ''sequence_gap''))
      else if vo_previousHash v \<noteq> rc_headHash (rr_checkpoint r) then (lost, Some (409, ''hash_chain_mismatch''))
      else if rc_headHash cp \<noteq> computeReplicationHash S (rc_streamId cp) (rc_epoch cp) (rc_sequence cp) (vo_previousHash v) (vo_mutation v)
      then (lost, Some (409, ''operation_hash_mismatch''))
      else (r, None))"

text \<open>The unsealing of the secret of a \<^verbatim>\<open>set\<close>.\<close>

definition ingest_unseal ::
  "TumblerReplicaMutation \<Rightarrow> 's TumblerReplicaReceiver \<Rightarrow> 's TumblerReplicaReceiver \<times> TumblerReplicaMutation res" where
  "ingest_unseal mutation r =
     (case mutation of
        M_set cid m secretSealed \<Rightarrow>
          (if \<not> secretSealed then (r\<lparr>rr_validationReady := False\<rparr>, Inr mutation)
           else case rr_secretUnsealer r of
             None \<Rightarrow> (r\<lparr>rr_validationReady := False\<rparr>, Inr mutation)
           | Some f \<Rightarrow>
               (case f cid (the_str (js_get m ''sharedSecret'')) of
                  Inl _ \<Rightarrow> (r\<lparr>rr_integrityLost := True\<rparr>, Inl ''secret_unseal_failed'')
                | Inr raw \<Rightarrow>
                    if \<not> hash_pattern raw then (r\<lparr>rr_integrityLost := True\<rparr>, Inl ''unsealed_secret_invalid'')
                    else (r, Inr (M_set cid (js_put ''sharedSecret'' (JString raw) m) False))))
      | _ \<Rightarrow> (r, Inr mutation))"

definition ingest ::
  "sha_fn \<Rightarrow> hmac_fn \<Rightarrow> 's tumbler_store_api \<Rightarrow> int \<Rightarrow> jsval \<Rightarrow> 's TumblerReplicaReceiver \<Rightarrow>
   's TumblerReplicaReceiver \<times> (nat \<times> unit res) res" where
  "ingest S H api now body r =
     (case validateTumblerOp body of
        Inl e \<Rightarrow> (r, Inl e)
      | Inr (Inl e) \<Rightarrow> (r, Inr (400, Inl e))
      | Inr (Inr v) \<Rightarrow>
          (case ingest_checks S H now v r of
             (r1, Some (status, e)) \<Rightarrow> (r1, Inr (status, Inl e))
           | (r1, None) \<Rightarrow>
               (case ingest_unseal (vo_mutation v) r1 of
                  (r2, Inl e) \<Rightarrow> (r2, Inr (409, Inl e))
                | (r2, Inr mutation) \<Rightarrow>
                    (case applyTumblerOp api now mutation (rr_store r2) of
                       (st, Inl e) \<Rightarrow> (r2\<lparr>rr_store := st, rr_integrityLost := True\<rparr>, Inr (409, Inl e))
                     | (st, Inr _) \<Rightarrow> (r2\<lparr>rr_store := st, rr_checkpoint := vo_checkpoint v\<rparr>, Inr (200, Inr ()))))))"

text \<open>The framework adapter \<^verbatim>\<open>handleTumblerIngest\<close> is \<open>ingest\<close> itself.\<close>

section \<open>What validation guarantees\<close>

lemma isSafeInt_int: "isSafeInt v \<Longrightarrow> js_int v = Some (int_of v)"
  by (auto simp: isSafeInt_def int_of_def js_int_def jsnum_simps split: jsval.splits)

lemma int_of_jint [simp]: "int_of (jint n) = n"
  by (simp add: int_of_def)

lemma safe_pair_js: "safe_pair v = Some p \<Longrightarrow> js_pair v = p"
  by (auto simp: safe_pair_def js_pair_def isSafeInt_int split: jsval.splits list.splits if_splits)

lemma or_zero_int: "nullish (js_int v) 0 = int_of (or_zero v)"
  by (auto simp: or_zero_def int_of_def)

lemma js_segment_type_hotp: "js_segment_type v = Hotp \<longleftrightarrow> v = JString ''hotp''"
  by (auto simp: js_segment_type_def)

lemma js_segment_type_totp: "js_segment_type v = Totp \<longleftrightarrow> v = JString ''totp''"
  by (auto simp: js_segment_type_def)

definition window_ok :: "SegmentConfig \<Rightarrow> bool" where
  "window_ok s \<longleftrightarrow> (seg_type s = Totp \<longrightarrow> (\<exists>w. seg_window s = Some w \<and> 1 \<le> w))"

lemma scan_segment_sound:
  assumes "scan_segment L v sc = Some sc'"
  defines "s \<equiv> js_segment v"
  shows "fst (seg_pos s) = sc_cursor sc" "fst (seg_pos s) < snd (seg_pos s)" "sc_cursor sc' = snd (seg_pos s)" "sc_cursor sc' \<le> L"
    "seg_id s \<notin> set (sc_ids sc)" "sc_ids sc' = seg_id s # sc_ids sc"
    "seg_type s = Hotp \<Longrightarrow> 0 \<le> stored_counter s \<and> stored_counter s \<le> TSK_MAX_HOTP_COUNTER"
    "sc_hasHotp sc' \<longleftrightarrow> sc_hasHotp sc \<or> seg_type s = Hotp"
    "sc_exhausted sc' \<longleftrightarrow> sc_exhausted sc \<or> (seg_type s = Hotp \<and> stored_counter s = TSK_MAX_HOTP_COUNTER)"
    "window_ok s"
proof -
  let ?sid = "js_get v ''segmentId''" and ?c = "or_zero (js_get v ''counter'')" and ?ty = "js_get v ''type''"
  from assms obtain a b where h: "isValidId ?sid MAX_SEGMENT_ID_LEN" "the (js_str ?sid) \<notin> set (sc_ids sc)"
    "safe_pair (js_get v ''position'') = Some (a, b)" "a = sc_cursor sc" "a < b" "b \<le> L"
    "?ty = JString ''hotp'' \<longrightarrow> isValidReceivedCounter ?c"
    "?ty = JString ''totp'' \<longrightarrow> isSafeInt (js_get v ''windowSec'') \<and> 1 \<le> int_of (js_get v ''windowSec'')"
    and sc': "sc' = \<lparr>sc_ids = the (js_str ?sid) # sc_ids sc, sc_cursor = b, sc_hasHotp = (sc_hasHotp sc \<or> ?ty = JString ''hotp''),
       sc_exhausted = (sc_exhausted sc \<or> (?ty = JString ''hotp'' \<and> int_of ?c = TSK_MAX_HOTP_COUNTER))\<rparr>"
    by (auto simp: scan_segment_def Let_def not_le not_less split: if_splits option.splits prod.splits)
  have id: "the (js_str ?sid) = seg_id s"
    using h(1) by (auto simp: s_def js_segment_def isValidId_def js_str_def split: jsval.splits)
  have pos: "seg_pos s = (a, b)" using safe_pair_js [OF h(3)] by (simp add: s_def js_segment_def)
  have ty: "seg_type s = Hotp \<longleftrightarrow> ?ty = JString ''hotp''" "seg_type s = Totp \<longleftrightarrow> ?ty = JString ''totp''"
    by (simp_all add: s_def js_segment_def js_segment_type_hotp js_segment_type_totp)
  have c: "?ty = JString ''hotp'' \<Longrightarrow> stored_counter s = int_of ?c \<and> 0 \<le> int_of ?c \<and> int_of ?c \<le> TSK_MAX_HOTP_COUNTER"
    using h(7) or_zero_int by (auto simp: s_def js_segment_def isValidReceivedCounter_def isSafeNonNegativeInteger_def)
  show "fst (seg_pos s) = sc_cursor sc" "fst (seg_pos s) < snd (seg_pos s)" "sc_cursor sc' = snd (seg_pos s)" "sc_cursor sc' \<le> L"
    using pos h(4-6) sc' by simp_all
  show "seg_id s \<notin> set (sc_ids sc)" "sc_ids sc' = seg_id s # sc_ids sc" using id h(2) sc' by simp_all
  show "seg_type s = Hotp \<Longrightarrow> 0 \<le> stored_counter s \<and> stored_counter s \<le> TSK_MAX_HOTP_COUNTER" using c ty by simp
  show "sc_hasHotp sc' \<longleftrightarrow> sc_hasHotp sc \<or> seg_type s = Hotp" using sc' ty by simp
  show "sc_exhausted sc' \<longleftrightarrow> sc_exhausted sc \<or> (seg_type s = Hotp \<and> stored_counter s = TSK_MAX_HOTP_COUNTER)"
    using sc' ty c by auto
  show "window_ok s" using h(8) ty isSafeInt_int by (auto simp: window_ok_def s_def js_segment_def)
qed

lemma scan_segments_sound:
  assumes "scan_segments L vs sc = Some sc'" and "distinct (sc_ids sc)"
  defines "ss \<equiv> map js_segment vs"
  shows "contiguous (sc_cursor sc) ss (sc_cursor sc') \<and> distinct (map seg_id ss) \<and> counters_valid ss \<and>
    seg_id ` set ss \<inter> set (sc_ids sc) = {} \<and> (sc_cursor sc \<le> L \<longrightarrow> sc_cursor sc' \<le> L) \<and>
    (sc_hasHotp sc' \<longleftrightarrow> sc_hasHotp sc \<or> filter (\<lambda>s. seg_type s = Hotp) ss \<noteq> []) \<and>
    (sc_exhausted sc' \<longleftrightarrow> sc_exhausted sc \<or> 0 \<in> remaining_uses ss) \<and> (\<forall>s \<in> set ss. window_ok s)"
  using assms(1,2) unfolding ss_def
proof (induction vs arbitrary: sc)
  case Nil
  then show ?case by simp
next
  case (Cons v vs)
  then obtain sc1 where sc1: "scan_segment L v sc = Some sc1" "scan_segments L vs sc1 = Some sc'"
    by (auto split: option.splits)
  note h = scan_segment_sound [OF sc1(1)]
  have "distinct (sc_ids sc1)" using h(5,6) Cons.prems(2) by simp
  note ih = Cons.IH [OF sc1(2) this]
  show ?case using ih h by auto
qed

text \<open>The decoded map of an accepted \<^verbatim>\<open>set\<close>.\<close>

definition received_map_ok :: "string \<Rightarrow> TumblerMap \<Rightarrow> bool" where
  "received_map_ok cid m \<longleftrightarrow>
     tm_clientId m = cid \<and> tm_version m = ''1'' \<and> 20 \<le> tm_keyLength m \<and> tm_keyLength m \<le> 512 \<and> 0 \<le> tm_createdAt m \<and>
     2 \<le> length (tm_segments m) \<and> length (tm_segments m) \<le> MAX_SEGMENTS \<and>
     contiguous 0 (tm_segments m) (fst (tm_checksum m)) \<and> fst (tm_checksum m) \<le> tm_keyLength m \<and> snd (tm_checksum m) = tm_keyLength m \<and>
     distinct (map seg_id (tm_segments m)) \<and> (\<forall>s \<in> set (tm_segments m). window_ok s) \<and> counter_state_ok m"

lemma js_int_optional:
  "optional_ok (\<lambda>x. isSafeInt x \<and> P (int_of x)) v \<Longrightarrow> js_int v = Some w \<Longrightarrow> P w"
  by (auto simp: optional_ok_def isSafeInt_int)

lemma terminal_js: "terminal_status (js_get v ''status'') \<Longrightarrow> terminal (js_map v)"
  by (auto simp: terminal_status_def terminal_def js_map_def js_status_def)

lemma validateMap_received_ok:
  assumes "validateMap v cid secretSealed"
  shows "received_map_ok cid (js_map v)"
proof -
  let ?kl = "js_get v ''keyLength''" and ?m = "js_map v"
  have id: "js_get v ''clientId'' = JString cid" and ver: "js_get v ''version'' = JString ''1''"
    and kl: "isSafeInt ?kl" "20 \<le> int_of ?kl" "int_of ?kl \<le> 512" and cr: "isSafeNonNegativeInteger (js_get v ''createdAt'')"
    using assms unfolding validateMap_def by blast+
  have "case js_get v ''segments'' of JArray vs \<Rightarrow> 2 \<le> length vs \<and> length vs \<le> MAX_SEGMENTS | _ \<Rightarrow> False"
    using assms unfolding validateMap_def by blast
  then obtain vs where vs: "js_get v ''segments'' = JArray vs" "2 \<le> length vs" "length vs \<le> MAX_SEGMENTS"
    by (cases "js_get v ''segments''") auto
  obtain sc where sc: "scan_segments (int_of ?kl) vs \<lparr>sc_ids = [], sc_cursor = 0, sc_hasHotp = False, sc_exhausted = False\<rparr> = Some sc"
    and tl: "validate_tail v sc"
  proof -
    have "case scan_segments (int_of ?kl) vs \<lparr>sc_ids = [], sc_cursor = 0, sc_hasHotp = False, sc_exhausted = False\<rparr> of
        None \<Rightarrow> False | Some sc \<Rightarrow> validate_tail v sc"
      using assms unfolding validateMap_def vs(1) js_read_simps by blast
    then show thesis using that by (auto split: option.splits)
  qed
  have scan: "contiguous 0 (map js_segment vs) (sc_cursor sc) \<and> distinct (map seg_id (map js_segment vs)) \<and> counters_valid (map js_segment vs) \<and>
      sc_cursor sc \<le> int_of ?kl \<and> (sc_hasHotp sc \<longleftrightarrow> filter (\<lambda>s. seg_type s = Hotp) (map js_segment vs) \<noteq> []) \<and>
      (sc_exhausted sc \<longleftrightarrow> 0 \<in> remaining_uses (map js_segment vs)) \<and> (\<forall>s \<in> set (map js_segment vs). window_ok s)"
    using scan_segments_sound [OF sc] kl by simp
  have m: "tm_segments ?m = map js_segment vs" "tm_keyLength ?m = int_of ?kl" "tm_clientId ?m = cid" "tm_version ?m = ''1''"
    "0 \<le> tm_createdAt ?m"
    using vs kl id ver cr by (simp_all add: js_map_def isSafeInt_int isSafeNonNegativeInteger_def js_list_def)
  have cs: "tm_checksum ?m = (sc_cursor sc, int_of ?kl)"
    using tl safe_pair_js by (auto simp: validate_tail_def js_map_def)
  have "optional_ok (\<lambda>x. isSafeInt x \<and> 1 \<le> int_of x \<and> int_of x \<le> TSK_MAX_HOTP_COUNTER) (js_get v ''hotpRotationWarningCounters'')"
    using tl unfolding validate_tail_def by blast
  from js_int_optional [OF this] have "warning_ok ?m"
    by (simp add: warning_ok_def js_map_def split: option.splits)
  then have "counter_state_ok ?m"
    using tl scan m(1) terminal_js [of v] unfolding counter_state_ok_def validate_tail_def by metis
  with scan m cs vs(2,3) kl show ?thesis by (simp add: received_map_ok_def)
qed

text \<open>C26: an untyped map that passes the receiver's validation decodes to a well-typed tumbler map for
  the client of the envelope: its segments tile the key up to the checksum, have different
  identifiers and usable windows, and its counters are in range and consistent with its status.\<close>

theorem accepted_map_well_typed:
  assumes "validateMap v cid secretSealed"
  shows "received_map_ok cid (js_map v)"
  using assms by (rule validateMap_received_ok)

section \<open>A replica never rolls back\<close>

definition not_rolled_back :: "TumblerMap \<Rightarrow> TumblerMap \<Rightarrow> bool" where
  "not_rolled_back m m' \<longleftrightarrow>
     (terminal m \<longrightarrow> terminal m') \<and> nullish (tm_requestCount m) 0 \<le> nullish (tm_requestCount m') 0 \<and>
     (\<forall>s \<in> set (tm_segments m). seg_type s = Hotp \<longrightarrow>
        (\<exists>n. segment_ref (tm_segments m') (seg_id s) = Some n \<and> seg_type n = Hotp \<and> stored_counter s \<le> stored_counter n))"

lemma counters_kept_iff:
  "counters_kept next ss \<longleftrightarrow>
     (\<forall>s \<in> set ss. seg_type s = Hotp \<longrightarrow>
        (\<exists>n. segment_ref next (seg_id s) = Some n \<and> seg_type n = Hotp \<and> stored_counter s \<le> stored_counter n))"
  by (induction ss) (auto split: option.splits)

lemma set_rollback_None: "set_rollback m m' = None \<Longrightarrow> not_rolled_back m m'"
  by (auto simp: set_rollback_def not_rolled_back_def counters_kept_iff isTerminal_def terminal_def split: if_splits)

lemma segment_ref_types:
  "map seg_id ss = map seg_id ss' \<Longrightarrow> map seg_type ss = map seg_type ss' \<Longrightarrow>
   map_option seg_type (segment_ref ss sid) = map_option seg_type (segment_ref ss' sid)"
proof (induction ss arbitrary: ss')
  case (Cons s ss)
  then obtain t ts where ss': "ss' = t # ts" "seg_id s = seg_id t" "seg_type s = seg_type t"
    "map seg_id ss = map seg_id ts" "map seg_type ss = map seg_type ts" by auto
  from Cons.IH [OF ss'(4,5)] ss'(1-3) show ?case by (auto simp: segment_ref_Cons split: option.splits)
qed simp

lemma evolves_not_rolled_back:
  assumes "evolves m m'" and ok: "counter_state_ok m" and d: "distinct (map seg_id (tm_segments m))"
    and "tm_requestCount m' = tm_requestCount m"
  shows "not_rolled_back m m'"
proof -
  have "\<exists>n. segment_ref (tm_segments m') (seg_id s) = Some n \<and> seg_type n = Hotp \<and> stored_counter s \<le> stored_counter n"
    if s: "s \<in> set (tm_segments m)" "seg_type s = Hotp" for s
  proof -
    have r: "segment_ref (tm_segments m) (seg_id s) = Some s" by (rule segment_ref_member [OF d s(1)])
    have "map_option seg_type (segment_ref (tm_segments m') (seg_id s)) = Some Hotp"
      using segment_ref_types [of "tm_segments m'" "tm_segments m" "seg_id s"] assms(1) r s by (simp add: evolves_def)
    then obtain n where n: "segment_ref (tm_segments m') (seg_id s) = Some n" "seg_type n = Hotp" by auto
    have "counter_level (tm_segments m) (seg_id s) \<le> counter_level (tm_segments m') (seg_id s)"
      using assms(1) ok d by (simp add: evolves_def)
    with r n s show ?thesis by (simp add: counter_level_def)
  qed
  with assms show ?thesis by (auto simp: not_rolled_back_def evolves_def)
qed

lemma not_rolled_back_refl: "distinct (map seg_id (tm_segments m)) \<Longrightarrow> not_rolled_back m m"
  by (auto simp: not_rolled_back_def segment_ref_member)

text \<open>What a mutation does to the map of stored credentials when it is applied.\<close>

definition mutation_effect :: "TumblerReplicaMutation \<Rightarrow> (string \<rightharpoonup> TumblerMap) \<Rightarrow> (string \<rightharpoonup> TumblerMap)" where
  "mutation_effect mu L =
     (case mu of
        M_set cid v _ \<Rightarrow> L(cid \<mapsto> js_map v)
      | M_delete cid \<Rightarrow> L(cid := None)
      | M_updateCounters cid us \<Rightarrow> lk_upd L cid (\<lambda>m. fst (update_map_counters m (new_Map us)))
      | M_consumeCounter cid sid c \<Rightarrow> lk_upd L cid (\<lambda>m. fst (consume_map_counter m sid c)))"

definition good_maps :: "(string \<rightharpoonup> TumblerMap) \<Rightarrow> bool" where
  "good_maps L \<longleftrightarrow> (\<forall>cid m. L cid = Some m \<longrightarrow> counter_state_ok m \<and> distinct (map seg_id (tm_segments m)))"

definition no_rollback :: "(string \<rightharpoonup> TumblerMap) \<Rightarrow> (string \<rightharpoonup> TumblerMap) \<Rightarrow> bool" where
  "no_rollback L L' \<longleftrightarrow> (\<forall>cid m m'. L cid = Some m \<longrightarrow> L' cid = Some m' \<longrightarrow> not_rolled_back m m')"

lemma no_rollback_refl: "good_maps L \<Longrightarrow> no_rollback L L"
  by (auto simp: good_maps_def no_rollback_def intro: not_rolled_back_refl)

lemma reconcile_remaining_requestCount: "reconcile_remaining m = (m', r) \<Longrightarrow> tm_requestCount m' = tm_requestCount m"
  by (auto simp: reconcile_remaining_def split: sum.splits option.splits)

lemma update_map_requestCount: "update_map_counters m us = (m', r) \<Longrightarrow> tm_requestCount m' = tm_requestCount m"
  by (auto simp: update_map_counters_def dest!: reconcile_remaining_requestCount split: sum.splits)

lemma consume_map_requestCount: "consume_map_counter m sid c = (m', r) \<Longrightarrow> tm_requestCount m' = tm_requestCount m"
  by (auto simp: consume_map_counter_def Let_def dest!: reconcile_remaining_requestCount split: option.splits if_splits prod.splits)

lemma lk_upd_evolves:
  assumes g: "good_maps L" and e: "\<And>m. L cid = Some m \<Longrightarrow> evolves m (f m) \<and> tm_requestCount (f m) = tm_requestCount m"
  shows "good_maps (lk_upd L cid f) \<and> no_rollback L (lk_upd L cid f)"
proof (cases "L cid")
  case None
  then have "lk_upd L cid f = L" by (simp add: lk_upd_def)
  then show ?thesis using g no_rollback_refl by simp
next
  case (Some m)
  have m: "counter_state_ok m" "distinct (map seg_id (tm_segments m))" using g Some by (auto simp: good_maps_def)
  then have "counter_state_ok (f m)" "distinct (map seg_id (tm_segments (f m)))" "not_rolled_back m (f m)"
    using e [OF Some] evolves_not_rolled_back [of m "f m"] by (auto simp: evolves_def)
  with g Some show ?thesis
    by (auto simp: good_maps_def no_rollback_def lk_upd_def intro: not_rolled_back_refl)
qed

text \<open>A mutation as the receiver hands it to the store: the map of a \<^verbatim>\<open>set\<close> has been validated.\<close>

definition received_ok :: "TumblerReplicaMutation \<Rightarrow> bool" where
  "received_ok mu = (case mu of M_set cid v _ \<Rightarrow> received_map_ok cid (js_map v) | _ \<Rightarrow> True)"

lemma update_effect:
  assumes "good_maps L"
  shows "good_maps (lk_upd L cid (\<lambda>m. fst (update_map_counters m us))) \<and> no_rollback L (lk_upd L cid (\<lambda>m. fst (update_map_counters m us)))"
proof (rule lk_upd_evolves [OF assms])
  fix m
  assume "L cid = Some m"
  with assms have m: "counter_state_ok m" "distinct (map seg_id (tm_segments m))" by (auto simp: good_maps_def)
  obtain m' r where eq: "update_map_counters m us = (m', r)" by force
  show "evolves m (fst (update_map_counters m us)) \<and> tm_requestCount (fst (update_map_counters m us)) = tm_requestCount m"
    using update_map_evolves [OF eq m] update_map_requestCount [OF eq] by (simp add: eq)
qed

lemma consume_effect:
  assumes "good_maps L"
  shows "good_maps (lk_upd L cid (\<lambda>m. fst (consume_map_counter m sid c))) \<and> no_rollback L (lk_upd L cid (\<lambda>m. fst (consume_map_counter m sid c)))"
proof (rule lk_upd_evolves [OF assms])
  fix m
  assume "L cid = Some m"
  with assms have m: "counter_state_ok m" "distinct (map seg_id (tm_segments m))" by (auto simp: good_maps_def)
  obtain m' r where eq: "consume_map_counter m sid c = (m', r)" by force
  show "evolves m (fst (consume_map_counter m sid c)) \<and> tm_requestCount (fst (consume_map_counter m sid c)) = tm_requestCount m"
    using consume_map_evolves(1) [OF eq m] consume_map_requestCount [OF eq] by (simp add: eq)
qed

context map_store
begin

lemma apply_effect:
  assumes "inv s" and "applyTumblerOp api now mu s = (s', r)"
  shows "inv s' \<and> (lookup s' = mutation_effect mu (lookup s) \<or> r \<noteq> Inr () \<and> lookup s' = lookup s)"
proof (cases mu)
  case (M_set cid v b)
  obtain s1 g where g: "api_get api cid now s = (s1, g)" by force
  have s1: "inv s1" "lookup s1 = lookup s" "g = Inr (lookup s cid)" using get_law [OF assms(1) g] by auto
  show ?thesis
    using assms(2) set_law [OF s1(1)] s1 g M_set
    by (auto simp: applyTumblerOp_def mutation_effect_def split: option.splits sum.splits)
next
  case (M_delete cid)
  then show ?thesis using assms delete_law by (auto simp: applyTumblerOp_def mutation_effect_def)
next
  case (M_updateCounters cid us)
  obtain s1 g where g: "api_get api cid now s = (s1, g)" by force
  have s1: "inv s1" "lookup s1 = lookup s" "g = Inr (lookup s cid)" using get_law [OF assms(1) g] by auto
  show ?thesis
    using assms(2) update_law [OF s1(1)] s1 g M_updateCounters
    by (auto simp: applyTumblerOp_def mutation_effect_def split: option.splits if_splits)
next
  case (M_consumeCounter cid sid c)
  show ?thesis
  proof (cases "api_consume api")
    case None
    then show ?thesis using assms M_consumeCounter by (auto simp: applyTumblerOp_def)
  next
    case (Some f)
    then show ?thesis using assms M_consumeCounter consume_law [OF assms(1) Some]
      by (auto simp: applyTumblerOp_def mutation_effect_def split: prod.splits)
  qed
qed

lemma apply_set_checked:
  assumes "inv s" and "applyTumblerOp api now (M_set cid v b) s = (s', r)" and "lookup s cid = Some m"
  shows "lookup s' = lookup s \<or> set_rollback m (js_map v) = None"
proof -
  obtain s1 g where g: "api_get api cid now s = (s1, g)" by force
  have s1: "lookup s1 = lookup s" "g = Inr (lookup s cid)" using get_law [OF assms(1) g] by auto
  show ?thesis using assms(2,3) s1 g by (auto simp: applyTumblerOp_def split: option.splits)
qed

lemma apply_no_rollback:
  assumes "inv s" and "good_maps (lookup s)" and "applyTumblerOp api now mu s = (s', r)" and "received_ok mu"
  shows "good_maps (lookup s') \<and> no_rollback (lookup s) (lookup s')"
proof (cases "lookup s' = lookup s")
  case True
  then show ?thesis using assms(2) no_rollback_refl by simp
next
  case False
  then have eff: "lookup s' = mutation_effect mu (lookup s)" using apply_effect [OF assms(1,3)] by auto
  show ?thesis
  proof (cases mu)
    case (M_set cid v b)
    have "counter_state_ok (js_map v)" "distinct (map seg_id (tm_segments (js_map v)))"
      using assms(4) M_set by (simp_all add: received_ok_def received_map_ok_def)
    moreover have "lookup s cid = Some m \<Longrightarrow> not_rolled_back m (js_map v)" for m
      using apply_set_checked [OF assms(1)] assms(3) M_set False set_rollback_None by blast
    ultimately show ?thesis
      using assms(2) eff M_set by (auto simp: mutation_effect_def good_maps_def no_rollback_def not_rolled_back_refl)
  next
    case (M_delete cid)
    then show ?thesis using assms(2) eff by (auto simp: mutation_effect_def good_maps_def no_rollback_def not_rolled_back_refl)
  next
    case (M_updateCounters cid us)
    then show ?thesis using update_effect [OF assms(2)] eff by (simp add: mutation_effect_def)
  next
    case (M_consumeCounter cid sid c)
    then show ?thesis using consume_effect [OF assms(2)] eff by (simp add: mutation_effect_def)
  qed
qed

end

section \<open>What an ingest does\<close>

lemma ingest_checks_None:
  assumes "ingest_checks S H now v r = (r1, None)"
  shows "r1 = r" "verifyReplicaEnvelopeSignature H (vo_op v) (rr_expectedToken r)" "\<bar>now - vo_sentAt v\<bar> \<le> rr_maxClockSkewMs r"
    "rc_streamId (vo_checkpoint v) = rr_streamId r" "rc_epoch (vo_checkpoint v) = rr_epoch r"
    "rc_sequence (vo_checkpoint v) = rc_sequence (rr_checkpoint r) + 1" "vo_previousHash v = rc_headHash (rr_checkpoint r)"
    "rc_headHash (vo_checkpoint v) = computeReplicationHash S (rc_streamId (vo_checkpoint v)) (rc_epoch (vo_checkpoint v))
       (rc_sequence (vo_checkpoint v)) (vo_previousHash v) (vo_mutation v)"
  using assms by (auto simp: ingest_checks_def Let_def split: if_splits)

lemma ingest_checks_Some:
  assumes "ingest_checks S H now v r = (r1, Some (status, e))"
  shows "rr_store r1 = rr_store r \<and> rr_checkpoint r1 = rr_checkpoint r \<and> status \<noteq> 200"
  using assms by (auto simp: ingest_checks_def Let_def split: if_splits)

lemma ingest_unseal_kept:
  "ingest_unseal mu r = (r1, x) \<Longrightarrow> rr_store r1 = rr_store r \<and> rr_checkpoint r1 = rr_checkpoint r"
  by (auto simp: ingest_unseal_def split: TumblerReplicaMutation.splits if_splits option.splits sum.splits)

lemma ingest_cases:
  assumes "ingest S H api now body r = (r', out)"
  obtains (kept) "rr_store r' = rr_store r" "rr_checkpoint r' = rr_checkpoint r" "\<And>u. out \<noteq> Inr (200, u)"
  | (applied) v r2 mu u where "validateTumblerOp body = Inr (Inr v)" "ingest_checks S H now v r = (r, None)"
      "ingest_unseal (vo_mutation v) r = (r2, Inr mu)" "applyTumblerOp api now mu (rr_store r) = (rr_store r', u)"
      "out = Inr (if u = Inr () then 200 else 409, u)"
      "rr_checkpoint r' = (if u = Inr () then vo_checkpoint v else rr_checkpoint r)" "u = Inr () \<or> rr_integrityLost r'"
proof (cases "validateTumblerOp body")
  case (Inl e)
  show ?thesis by (rule kept) (use Inl assms in \<open>auto simp: ingest_def\<close>)
next
  case (Inr w)
  show ?thesis
  proof (cases w)
    case (Inl e)
    show ?thesis by (rule kept) (use Inl Inr assms in \<open>auto simp: ingest_def\<close>)
  next
    case w: (Inr v)
    obtain r1 c where c: "ingest_checks S H now v r = (r1, c)" by force
    show ?thesis
    proof (cases c)
      case (Some p)
      then show ?thesis
        using assms Inr w c ingest_checks_Some [of S H now v r r1 "fst p" "snd p"] kept by (cases p) (auto simp: ingest_def)
    next
      case None
      have r1: "r1 = r" using ingest_checks_None(1) c None by blast
      obtain r2 x where x: "ingest_unseal (vo_mutation v) r = (r2, x)" by force
      note k = ingest_unseal_kept [OF x]
      show ?thesis
      proof (cases x)
        case (Inl e)
        then show ?thesis using assms Inr w c None r1 x k kept by (auto simp: ingest_def)
      next
        case mu: (Inr mu)
        obtain st u where a: "applyTumblerOp api now mu (rr_store r) = (st, u)" by force
        have "rr_store r' = st \<and> out = Inr (if u = Inr () then 200 else 409, u) \<and>
            rr_checkpoint r' = (if u = Inr () then vo_checkpoint v else rr_checkpoint r) \<and> (u = Inr () \<or> rr_integrityLost r')"
          using assms Inr w c None r1 x mu k a by (cases u) (auto simp: ingest_def)
        then show ?thesis using applied [of v r2 mu u] Inr w c None r1 x mu a by simp
      qed
    qed
  qed
qed

lemma ingest_config:
  assumes "ingest S H api now body r = (r', out)"
  shows "rr_secretUnsealer r' = rr_secretUnsealer r" "rr_streamId r' = rr_streamId r" "rr_epoch r' = rr_epoch r"
    "rr_expectedToken r' = rr_expectedToken r" "rr_integrityLost r \<Longrightarrow> rr_integrityLost r'"
proof -
  have c: "ingest_checks S H now v r = (r1, x) \<Longrightarrow> rr_secretUnsealer r1 = rr_secretUnsealer r \<and> rr_streamId r1 = rr_streamId r \<and>
      rr_epoch r1 = rr_epoch r \<and> rr_expectedToken r1 = rr_expectedToken r \<and> (rr_integrityLost r \<longrightarrow> rr_integrityLost r1)" for v r1 x
    by (auto simp: ingest_checks_def Let_def split: if_splits)
  have u: "ingest_unseal mu r1 = (r2, x) \<Longrightarrow> rr_secretUnsealer r2 = rr_secretUnsealer r1 \<and> rr_streamId r2 = rr_streamId r1 \<and>
      rr_epoch r2 = rr_epoch r1 \<and> rr_expectedToken r2 = rr_expectedToken r1 \<and> (rr_integrityLost r1 \<longrightarrow> rr_integrityLost r2)" for mu r1 r2 x
    by (auto simp: ingest_unseal_def split: TumblerReplicaMutation.splits if_splits option.splits sum.splits)
  show "rr_secretUnsealer r' = rr_secretUnsealer r" "rr_streamId r' = rr_streamId r" "rr_epoch r' = rr_epoch r"
    "rr_expectedToken r' = rr_expectedToken r" "rr_integrityLost r \<Longrightarrow> rr_integrityLost r'"
    using assms by (auto simp: ingest_def split: sum.splits prod.splits option.splits dest!: c u)
qed

text \<open>The mutation that reaches the store has been validated.\<close>

lemma js_get_put [simp]: "is_object v \<Longrightarrow> js_get v k0 \<noteq> JUndefined \<Longrightarrow> js_get (js_put k x v) y = (if y = k then x else js_get v y)"
  by (auto simp: is_object_def js_put_def js_get.simps(1) split: jsval.splits)

lemma js_map_put_secret:
  assumes "is_object v" and "js_get v k0 \<noteq> JUndefined"
  shows "js_map (js_put ''sharedSecret'' (JString raw) v) = (js_map v)\<lparr>tm_sharedSecret := raw\<rparr>"
  using js_get_put [OF assms, of "''sharedSecret''" "JString raw"] by (simp add: js_map_def)

lemma received_map_ok_secret [simp]: "received_map_ok cid (m\<lparr>tm_sharedSecret := x\<rparr>) = received_map_ok cid m"
  by (simp add: received_map_ok_def counter_state_ok_def warning_ok_def terminal_def)

lemma validateMutation_set:
  assumes "validateMutation v = Inr (M_set cid m b)"
  shows "validateMap m cid b"
  using assms by (auto simp: validateMutation_def Let_def split: if_splits jsval.splits)

lemma validated_mutation:
  assumes "validateTumblerOp body = Inr (Inr v)"
  shows "validateMutation (js_get body ''mutation'') = Inr (vo_mutation v)"
  using assms by (auto simp: validateTumblerOp_def bind_res_Inr_iff split: if_splits)

lemma unsealed_received_ok:
  assumes "validateTumblerOp body = Inr (Inr v)" and "ingest_unseal (vo_mutation v) r = (r2, Inr mu)"
  shows "received_ok mu"
proof (cases "vo_mutation v")
  case (M_set cid m b)
  have val: "validateMap m cid b" using validateMutation_set validated_mutation [OF assms(1)] M_set by metis
  then have o: "is_object m" "js_get m ''clientId'' \<noteq> JUndefined" by (simp_all add: validateMap_def)
  show ?thesis
    using assms(2) validateMap_received_ok [OF val] js_map_put_secret [OF o] unfolding M_set
    by (auto simp: ingest_unseal_def received_ok_def split: if_splits option.splits sum.splits)
qed (use assms(2) in \<open>auto simp: ingest_unseal_def received_ok_def split: TumblerReplicaMutation.splits\<close>)

context map_store
begin

lemma ingest_no_rollback:
  assumes "inv (rr_store r)" and "good_maps (lookup (rr_store r))" and "ingest S H api now body r = (r', out)"
  shows "inv (rr_store r') \<and> good_maps (lookup (rr_store r')) \<and> no_rollback (lookup (rr_store r)) (lookup (rr_store r'))"
  using assms(3)
proof (cases rule: ingest_cases)
  case kept
  then show ?thesis using assms no_rollback_refl by simp
next
  case (applied v r2 mu u)
  have "received_ok mu" by (rule unsealed_received_ok [OF applied(1,3)])
  then show ?thesis using apply_no_rollback [OF assms(1,2) applied(4)] apply_effect [OF assms(1) applied(4)] by simp
qed

end

text \<open>C15: a replica never rolls back. Whatever envelope arrives, the stored maps stay well formed, and a
  credential that is stored before and after keeps its terminal status, its usage count does not
  fall, and every HOTP counter it had is still there at the same or a higher value.\<close>

theorem replica_never_rolls_back:
  assumes "keeps_maps (rr_store r)" and "good_maps (map_of (ms_maps (rr_store r)))"
    and "ingest S H memory_tumbler_api now body r = (r', out)"
  shows "good_maps (map_of (ms_maps (rr_store r'))) \<and>
    no_rollback (map_of (ms_maps (rr_store r))) (map_of (ms_maps (rr_store r')))"
  using mem_map.ingest_no_rollback [OF assms] by blast

text \<open>The receiver accepts an envelope only when it carries the signature of the shared token, is
  fresh, belongs to the stream and is the next link of the hash chain; the checkpoint then moves
  to it. Any other answer leaves the checkpoint where it was.\<close>

theorem ingest_accepts_only_next_link:
  assumes "ingest S H api now body r = (r', out)"
  shows "if out = Inr (200, Inr ())
    then \<exists>v. validateTumblerOp body = Inr (Inr v) \<and> verifyReplicaEnvelopeSignature H (vo_op v) (rr_expectedToken r) \<and>
      \<bar>now - vo_sentAt v\<bar> \<le> rr_maxClockSkewMs r \<and> rr_checkpoint r' = vo_checkpoint v \<and>
      rc_streamId (vo_checkpoint v) = rr_streamId r \<and> rc_epoch (vo_checkpoint v) = rr_epoch r \<and>
      rc_sequence (vo_checkpoint v) = rc_sequence (rr_checkpoint r) + 1 \<and> vo_previousHash v = rc_headHash (rr_checkpoint r) \<and>
      rc_headHash (vo_checkpoint v) = computeReplicationHash S (rr_streamId r) (rr_epoch r)
        (rc_sequence (rr_checkpoint r) + 1) (rc_headHash (rr_checkpoint r)) (vo_mutation v)
    else rr_checkpoint r' = rr_checkpoint r"
  using assms
proof (cases rule: ingest_cases)
  case kept
  then show ?thesis by simp
next
  case (applied v r2 mu u)
  then show ?thesis using ingest_checks_None [OF applied(2)] by simp
qed

section \<open>Witnesses\<close>

definition null_sha :: sha_fn where
  "null_sha bs = 0"

definition plain_seal :: "string \<Rightarrow> string \<Rightarrow> string res" where
  "plain_seal cid x = Inr x"

definition example_checkpoint :: ReplicationCheckpoint where
  "example_checkpoint = \<lparr>rc_streamId = ''s'', rc_epoch = 1, rc_sequence = 0, rc_headHash = REPLICATION_GENESIS_HASH\<rparr>"

definition example_unaged :: MemoryTumblerStore where
  "example_unaged = \<lparr>ms_maps = [(''tsk_0'', example_map)], ms_accessOrder = [''tsk_0''], ms_maxEntries = 1, ms_maxAgeMs = 0\<rparr>"

definition example_source :: "MemoryTumblerStore ReplicatingTumblerStore" where
  "example_source =
     \<lparr>rs_primary = example_unaged, rs_token = replicate 32 CHR ''t'', rs_queue = [], rs_draining = False,
      rs_inflight = None, rs_attempt = 0, rs_integrityLost = False, rs_secretPolicy = Some plain_seal, rs_maxQueue = 10,
      rs_backoffBaseMs = 1000, rs_backoffMaxMs = 30000, rs_promotionDurability = Some (\<lambda>_. Inr True), rs_checkpoint = example_checkpoint\<rparr>"

definition example_receiver :: "MemoryTumblerStore TumblerReplicaReceiver" where
  "example_receiver =
     \<lparr>rr_store = example_unaged, rr_expectedToken = replicate 32 CHR ''t'', rr_streamId = ''s'', rr_epoch = 1,
      rr_maxClockSkewMs = 60000, rr_secretUnsealer = Some plain_seal, rr_promotionDurability = Some (\<lambda>_. Inr True),
      rr_checkpoint = example_checkpoint, rr_integrityLost = False, rr_validationReady = True\<rparr>"

text \<open>The pair after one consumed counter, and the envelope its drain loop has in flight.\<close>

definition example_written :: "MemoryTumblerStore ReplicatingTumblerStore" where
  "example_written = fst (rs_consumeCounter null_sha memory_tumbler_api ''tsk_0'' ''seg_3'' 4 example_source)"

definition example_op :: PendingReplicaOp where
  "example_op = hd (rs_queue example_written)"

definition example_envelope :: jsval where
  "example_envelope = (case push zero_hmac (replicate 32 CHR ''t'') example_op 0 of Inr v \<Rightarrow> v | Inl _ \<Rightarrow> JNull)"

definition example_ingested :: "MemoryTumblerStore TumblerReplicaReceiver" where
  "example_ingested = fst (ingest null_sha zero_hmac memory_tumbler_api 0 example_envelope example_receiver)"

lemma example_write: "rs_consumeCounter null_sha memory_tumbler_api ''tsk_0'' ''seg_3'' 4 example_source = (example_written, Inr True)"
proof -
  have "snd (rs_consumeCounter null_sha memory_tumbler_api ''tsk_0'' ''seg_3'' 4 example_source) = Inr True" by code_simp
  then show ?thesis by (simp add: example_written_def prod_eq_iff)
qed

lemma example_inflight: "rs_inflight example_written = Some example_op" "rs_queue example_written = [example_op]"
  by code_simp+

lemma example_push: "push zero_hmac (rs_token example_written) example_op 0 = Inr example_envelope"
  by code_simp

lemma example_ingest: "ingest null_sha zero_hmac memory_tumbler_api 0 example_envelope example_receiver = (example_ingested, Inr (200, Inr ()))"
proof -
  have "snd (ingest null_sha zero_hmac memory_tumbler_api 0 example_envelope example_receiver) = Inr (200, Inr ())" by code_simp
  then show ?thesis by (simp add: example_ingested_def prod_eq_iff)
qed

lemma example_ingested_cp: "map_option rc_sequence (rr_promotionCheckpoint example_ingested) = Some 1"
  by code_simp

lemma example_good: "keeps_maps example_unaged" "good_maps (map_of (ms_maps example_unaged))"
  using example_map_state by (auto simp: keeps_maps_def good_maps_def example_unaged_def)

theorem accepted_map_well_typed_witness:
  "validateMap (map_js example_map) ''tsk_0'' True \<and> received_map_ok ''tsk_0'' example_map"
proof -
  have v: "validateMap (map_js example_map) ''tsk_0'' True" by code_simp
  with accepted_map_well_typed [OF v] show ?thesis by simp
qed

theorem replica_never_rolls_back_witness:
  "\<exists>r'. ingest null_sha zero_hmac memory_tumbler_api 0 example_envelope example_receiver = (r', Inr (200, Inr ())) \<and>
     no_rollback (map_of (ms_maps (rr_store example_receiver))) (map_of (ms_maps (rr_store r')))"
proof -
  have "keeps_maps (rr_store example_receiver)" "good_maps (map_of (ms_maps (rr_store example_receiver)))"
    using example_good by (simp_all add: example_receiver_def)
  from replica_never_rolls_back [OF this example_ingest] example_ingest show ?thesis by blast
qed

theorem ingest_accepts_only_next_link_witness:
  "rc_sequence (rr_checkpoint example_ingested) = 1 \<and>
   (\<exists>v. validateTumblerOp example_envelope = Inr (Inr v) \<and> rr_checkpoint example_ingested = vo_checkpoint v)"
  using ingest_accepts_only_next_link [OF example_ingest] by (auto simp: example_receiver_def example_checkpoint_def)

end
