(* ===== verification/Replicated_Pair.thy ===== *)
theory Replicated_Pair
  imports Replica_Receiver
begin

text \<open>
  A primary with its replicating store and a replica with its receiver, connected by a network that
  may lose requests and answers. The step relation interleaves writes on the primary, turns of the
  drain loop and deliveries. Its invariant is a simulation: the replica, after the queue still
  to be sent, holds the image of the primary. The consequences are that both sides offer a
  promotion checkpoint only when the replica is current, and, on the other side, that one lost
  answer stops the stream for good.
\<close>

section \<open>The hash-linked queue\<close>

definition next_checkpoint :: "sha_fn \<Rightarrow> ReplicationCheckpoint \<Rightarrow> TumblerReplicaMutation \<Rightarrow> ReplicationCheckpoint" where
  "next_checkpoint S cp mu =
     cp\<lparr>rc_sequence := rc_sequence cp + 1,
        rc_headHash := computeReplicationHash S (rc_streamId cp) (rc_epoch cp) (rc_sequence cp + 1) (rc_headHash cp) mu\<rparr>"

fun chained :: "sha_fn \<Rightarrow> ReplicationCheckpoint \<Rightarrow> PendingReplicaOp list \<Rightarrow> bool" where
  "chained S cp [] = True"
| "chained S cp (p # ps) =
     (po_checkpoint p = next_checkpoint S cp (po_mutation p) \<and> po_previousHash p = rc_headHash cp \<and> chained S (po_checkpoint p) ps)"

fun end_checkpoint :: "ReplicationCheckpoint \<Rightarrow> PendingReplicaOp list \<Rightarrow> ReplicationCheckpoint" where
  "end_checkpoint cp [] = cp"
| "end_checkpoint cp (p # ps) = end_checkpoint (po_checkpoint p) ps"

lemma end_checkpoint_append [simp]: "end_checkpoint cp (ps @ qs) = end_checkpoint (end_checkpoint cp ps) qs"
  by (induction ps arbitrary: cp) auto

lemma chained_append: "chained S cp (ps @ qs) \<longleftrightarrow> chained S cp ps \<and> chained S (end_checkpoint cp ps) qs"
  by (induction ps arbitrary: cp) auto

text \<open>The drain loop runs whenever something is queued, and what is in flight is the head.\<close>

definition drain_inv :: "'s ReplicatingTumblerStore \<Rightarrow> bool" where
  "drain_inv s \<longleftrightarrow>
     (rs_draining s \<longleftrightarrow> rs_queue s \<noteq> []) \<and> (\<forall>p. rs_inflight s = Some p \<longrightarrow> rs_queue s \<noteq> [] \<and> hd (rs_queue s) = p)"

text \<open>Enqueueing either drops the mutation and marks the stream, or appends the next link.\<close>

lemma enqueue_cases:
  assumes "drain_inv s"
  obtains (dropped) "rs_integrityLost (enqueueMutation S mu s)" "drain_inv (enqueueMutation S mu s)"
      "rs_primary (enqueueMutation S mu s) = rs_primary s"
  | (queued) "rs_integrityLost (enqueueMutation S mu s) = rs_integrityLost s" "drain_inv (enqueueMutation S mu s)"
      "rs_primary (enqueueMutation S mu s) = rs_primary s"
      "rs_checkpoint (enqueueMutation S mu s) = next_checkpoint S (rs_checkpoint s) mu"
      "rs_queue (enqueueMutation S mu s) = rs_queue s @
         [\<lparr>po_checkpoint = next_checkpoint S (rs_checkpoint s) mu, po_previousHash = rc_headHash (rs_checkpoint s), po_mutation = mu\<rparr>]"
proof (cases "rs_maxQueue s \<le> int (length (rs_queue s))")
  case True
  show ?thesis by (rule dropped) (use True assms in \<open>simp_all add: enqueueMutation_def Let_def drain_inv_def\<close>)
next
  case False
  show ?thesis
    by (rule queued)
      (use False assms in \<open>auto simp: enqueueMutation_def Let_def drain_inv_def drain_def drain_next_def next_checkpoint_def
         hd_append split: list.splits\<close>)
qed

lemma enqueue_config [simp]:
  "rs_secretPolicy (enqueueMutation S mu s) = rs_secretPolicy s" "rs_token (enqueueMutation S mu s) = rs_token s"
  by (auto simp: enqueueMutation_def Let_def drain_def drain_next_def split: list.splits)

lemma drain_awake_kept:
  assumes "drain_inv s"
  shows "drain_inv (drain_awake s)" "rs_queue (drain_awake s) = rs_queue s" "rs_primary (drain_awake s) = rs_primary s"
    "rs_checkpoint (drain_awake s) = rs_checkpoint s" "rs_integrityLost (drain_awake s) = rs_integrityLost s"
    "rs_secretPolicy (drain_awake s) = rs_secretPolicy s" "rs_token (drain_awake s) = rs_token s"
  using assms by (auto simp: drain_awake_def drain_next_def drain_inv_def split: list.splits)

lemma drain_answered_kept:
  assumes "drain_inv s"
  shows "drain_inv (drain_answered ok s)" "rs_primary (drain_answered ok s) = rs_primary s"
    "rs_checkpoint (drain_answered ok s) = rs_checkpoint s" "rs_integrityLost (drain_answered ok s) = rs_integrityLost s"
    "rs_secretPolicy (drain_answered ok s) = rs_secretPolicy s" "rs_token (drain_answered ok s) = rs_token s"
    "\<not> ok \<Longrightarrow> rs_queue (drain_answered ok s) = rs_queue s"
    "rs_inflight s = Some p \<Longrightarrow> rs_queue s = p # tl (rs_queue s)"
    "rs_inflight s = Some p \<Longrightarrow> rs_queue (drain_answered True s) = tl (rs_queue s)"
  using assms by (auto simp: drain_answered_def drain_next_def drain_inv_def split: option.splits list.splits if_splits)

section \<open>The image of the primary\<close>

definition replica_secret ::
  "(string \<Rightarrow> string \<Rightarrow> string res) option \<Rightarrow> (string \<Rightarrow> string \<Rightarrow> string res) option \<Rightarrow> string \<Rightarrow> TumblerMap \<Rightarrow> string" where
  "replica_secret policy unsealer cid m =
     (case policy of
        None \<Rightarrow> []
      | Some f \<Rightarrow>
          case f (tm_clientId m) (tm_sharedSecret m) of
            Inl _ \<Rightarrow> []
          | Inr x \<Rightarrow> (case unsealer of None \<Rightarrow> x | Some g \<Rightarrow> (case g cid x of Inl _ \<Rightarrow> x | Inr y \<Rightarrow> if hash_pattern y then y else x)))"

definition map_image where
  "map_image policy unsealer cid m = m\<lparr>tm_sharedSecret := replica_secret policy unsealer cid m\<rparr>"

definition replica_image where
  "replica_image policy unsealer L = (\<lambda>cid. map_option (map_image policy unsealer cid) (L cid))"

lemma replica_image_upd: "replica_image pol un (L(cid \<mapsto> m)) = (replica_image pol un L)(cid \<mapsto> map_image pol un cid m)"
  "replica_image pol un (L(cid := None)) = (replica_image pol un L)(cid := None)"
  by (auto simp: replica_image_def)

text \<open>The mutation the receiver applies for a queued one.\<close>

definition unsealed :: "(string \<Rightarrow> string \<Rightarrow> string res) option \<Rightarrow> TumblerReplicaMutation \<Rightarrow> TumblerReplicaMutation" where
  "unsealed unsealer mu =
     (case mu of
        M_set cid v True \<Rightarrow>
          (case unsealer of
             None \<Rightarrow> mu
           | Some g \<Rightarrow>
               (case g cid (the_str (js_get v ''sharedSecret'')) of
                  Inl _ \<Rightarrow> mu
                | Inr y \<Rightarrow> if hash_pattern y then M_set cid (js_put ''sharedSecret'' (JString y) v) False else mu))
      | _ \<Rightarrow> mu)"

lemma ingest_unseal_unsealed: "ingest_unseal mu r = (r2, Inr mu') \<Longrightarrow> mu' = unsealed (rr_secretUnsealer r) mu"
  by (auto simp: ingest_unseal_def unsealed_def split: TumblerReplicaMutation.splits if_splits option.splits sum.splits bool.splits)

definition effect where
  "effect unsealer p L = mutation_effect (unsealed unsealer (po_mutation p)) L"

lemma map_js_object [simp]: "is_object (map_js m)" "js_get (map_js m) ''clientId'' = JString (tm_clientId m)"
  "the_str (js_get (map_js m) ''sharedSecret'') = tm_sharedSecret m"
  by (simp_all add: map_js_def is_object_def the_str_def)

lemma js_map_put_secret_map_js [simp]: "js_map (js_put ''sharedSecret'' (JString y) (map_js m)) = m\<lparr>tm_sharedSecret := y\<rparr>"
  using js_map_put_secret [of "map_js m" "''clientId''" y] by simp

text \<open>The mutation queued for a map has the image of the map as its effect.\<close>

lemma sealed_effect:
  assumes "sealMap s m = Inr (wire, b)"
  shows "mutation_effect (unsealed un (M_set cid (map_js wire) b)) L = L(cid \<mapsto> map_image (rs_secretPolicy s) un cid m)"
  using assms
  by (auto simp: sealMap_def unsealed_def mutation_effect_def map_image_def replica_secret_def bind_res_Inr_iff
      split: option.splits sum.splits)

text \<open>In-place changes that do not look at the secret commute with the image.\<close>

lemma replica_image_lk_upd:
  assumes "\<And>m x. f (m\<lparr>tm_sharedSecret := x\<rparr>) = (f m)\<lparr>tm_sharedSecret := x\<rparr>"
    and "\<And>m. tm_clientId (f m) = tm_clientId m \<and> tm_sharedSecret (f m) = tm_sharedSecret m"
  shows "replica_image pol un (lk_upd L cid f) = lk_upd (replica_image pol un L) cid f"
  using assms by (auto simp: replica_image_def lk_upd_def map_image_def replica_secret_def fun_eq_iff split: option.splits)

lemma reconcile_secret:
  "reconcile_remaining (m\<lparr>tm_sharedSecret := x\<rparr>) = (let (m', r) = reconcile_remaining m in (m'\<lparr>tm_sharedSecret := x\<rparr>, r))"
  by (auto simp: reconcile_remaining_def reconcileTumblerMapCounterStatus_def hotpWarningWindow_def Let_def split: sum.splits option.splits)

lemma reconcile_identity:
  "reconcile_remaining m = (m', r) \<Longrightarrow> tm_clientId m' = tm_clientId m \<and> tm_sharedSecret m' = tm_sharedSecret m"
  by (auto simp: reconcile_remaining_def reconcileTumblerMapCounterStatus_def Let_def split: sum.splits option.splits)

lemma reconcile_secret_segments:
  "reconcile_remaining (m\<lparr>tm_sharedSecret := x, tm_segments := ss\<rparr>) =
     (let (m', r) = reconcile_remaining (m\<lparr>tm_segments := ss\<rparr>) in (m'\<lparr>tm_sharedSecret := x\<rparr>, r))"
proof -
  have eq: "m\<lparr>tm_sharedSecret := x, tm_segments := ss\<rparr> = (m\<lparr>tm_segments := ss\<rparr>)\<lparr>tm_sharedSecret := x\<rparr>" by simp
  show ?thesis unfolding eq by (rule reconcile_secret)
qed

lemma replica_image_update:
  "replica_image pol un (lk_upd L cid (\<lambda>m. fst (update_map_counters m us))) = lk_upd (replica_image pol un L) cid (\<lambda>m. fst (update_map_counters m us))"
proof (rule replica_image_lk_upd)
  show "fst (update_map_counters (m\<lparr>tm_sharedSecret := x\<rparr>) us) = (fst (update_map_counters m us))\<lparr>tm_sharedSecret := x\<rparr>" for m x
    by (auto simp: update_map_counters_def reconcile_secret_segments split: sum.splits prod.splits)
  show "tm_clientId (fst (update_map_counters m us)) = tm_clientId m \<and> tm_sharedSecret (fst (update_map_counters m us)) = tm_sharedSecret m" for m
    using reconcile_identity [of "m\<lparr>tm_segments := map (apply_update us) (tm_segments m)\<rparr>"]
    by (cases "reconcile_remaining (m\<lparr>tm_segments := map (apply_update us) (tm_segments m)\<rparr>)") (auto simp: update_map_counters_def split: sum.splits)
qed

lemma replica_image_consume:
  "replica_image pol un (lk_upd L cid (\<lambda>m. fst (consume_map_counter m sid c))) = lk_upd (replica_image pol un L) cid (\<lambda>m. fst (consume_map_counter m sid c))"
proof (rule replica_image_lk_upd)
  show "fst (consume_map_counter (m\<lparr>tm_sharedSecret := x\<rparr>) sid c) = (fst (consume_map_counter m sid c))\<lparr>tm_sharedSecret := x\<rparr>" for m x
    by (auto simp: consume_map_counter_def reconcile_secret_segments Let_def split: option.splits prod.splits)
  show "tm_clientId (fst (consume_map_counter m sid c)) = tm_clientId m \<and> tm_sharedSecret (fst (consume_map_counter m sid c)) = tm_sharedSecret m" for m
    using reconcile_identity by (fastforce simp: consume_map_counter_def Let_def split: option.splits prod.splits)
qed

lemma new_Map_distinct: "distinct (map fst us) \<Longrightarrow> new_Map us = us"
proof -
  have set_end: "k \<notin> fst ` set m \<Longrightarrow> omap_set k v m = m @ [(k, v)]" for k :: 'a and v :: 'b and m
    by (induction m) auto
  have "distinct (map fst (m @ us)) \<Longrightarrow> foldl (\<lambda>m u. omap_set (fst u) (snd u) m) m us = m @ us" for m
    by (induction us arbitrary: m) (auto simp: set_end)
  from this [of "[]"] show "distinct (map fst us) \<Longrightarrow> new_Map us = us" by (simp add: new_Map_def)
qed

section \<open>The pair\<close>

record ('s, 'r) replicated_pair =
  pr_source :: "'s ReplicatingTumblerStore"
  pr_receiver :: "'r TumblerReplicaReceiver"

text \<open>A write on the primary that returns without an exception. Two cases are left out because the
  primary then changes without a queued mutation: a refused compare-and-swap that expires an
  exhausted map, and a replacement that evicts the old credential.\<close>

inductive source_write ::
  "sha_fn \<Rightarrow> 's tumbler_store_api \<Rightarrow> ('s \<Rightarrow> string \<Rightarrow> TumblerMap option) \<Rightarrow>
   's ReplicatingTumblerStore \<Rightarrow> 's ReplicatingTumblerStore \<Rightarrow> bool"
  for S api lookup where
  W_set: "rs_set S api cid m s = (s', Inr ()) \<Longrightarrow> source_write S api lookup s s'"
| W_delete: "rs_delete S api cid s = (s', Inr ()) \<Longrightarrow> source_write S api lookup s s'"
| W_update: "rs_updateCounters S api cid us s = (s', Inr ()) \<Longrightarrow> distinct (map fst us) \<Longrightarrow> source_write S api lookup s s'"
| W_consume: "rs_consumeCounter S api cid sid c s = (s', Inr b) \<Longrightarrow>
    b \<or> lookup (rs_primary s') = lookup (rs_primary s) \<Longrightarrow> source_write S api lookup s s'"
| W_commit: "rs_commitValidation S api cid input now s = (s', Inr r) \<Longrightarrow> source_write S api lookup s s'"
| W_replace: "rs_replaceCredential S api old m now now' s = (s', Inr b) \<Longrightarrow>
    b \<longrightarrow> lookup (rs_primary s') old \<noteq> None \<and> lookup (rs_primary s') (tm_clientId m) \<noteq> None \<Longrightarrow> source_write S api lookup s s'"
| W_get: "rs_get api cid now s = (s', Inr got) \<Longrightarrow> source_write S api lookup s s'"

definition accepted :: "(nat \<times> unit res) res \<Rightarrow> bool" where
  "accepted out \<longleftrightarrow> out = Inr (200, Inr ())"

inductive pair_step ::
  "sha_fn \<Rightarrow> hmac_fn \<Rightarrow> 's tumbler_store_api \<Rightarrow> ('s \<Rightarrow> string \<Rightarrow> TumblerMap option) \<Rightarrow> 'r tumbler_store_api \<Rightarrow>
   ('s, 'r) replicated_pair \<Rightarrow> ('s, 'r) replicated_pair \<Rightarrow> bool"
  for S H papi plook rapi where
  Write: "source_write S papi plook (pr_source x) s' \<Longrightarrow> pair_step S H papi plook rapi x (x\<lparr>pr_source := s'\<rparr>)"
| Awake: "pair_step S H papi plook rapi x (x\<lparr>pr_source := drain_awake (pr_source x)\<rparr>)"
| Answered: "rs_inflight (pr_source x) = Some p \<Longrightarrow> push H (rs_token (pr_source x)) p sentAt = Inr env \<Longrightarrow>
    ingest S H rapi now env (pr_receiver x) = (r', out) \<Longrightarrow>
    pair_step S H papi plook rapi x (x\<lparr>pr_source := drain_answered (accepted out) (pr_source x), pr_receiver := r'\<rparr>)"
| Answer_lost: "rs_inflight (pr_source x) = Some p \<Longrightarrow> push H (rs_token (pr_source x)) p sentAt = Inr env \<Longrightarrow>
    ingest S H rapi now env (pr_receiver x) = (r', out) \<Longrightarrow>
    pair_step S H papi plook rapi x (x\<lparr>pr_source := drain_answered False (pr_source x), pr_receiver := r'\<rparr>)"
| Request_lost: "pair_step S H papi plook rapi x (x\<lparr>pr_source := drain_answered False (pr_source x)\<rparr>)"
| Foreign: "ingest S H rapi now body (pr_receiver x) = (r', out) \<Longrightarrow> \<not> accepted out \<Longrightarrow>
    pair_step S H papi plook rapi x (x\<lparr>pr_receiver := r'\<rparr>)"

text \<open>The simulation: a prefix of at most one operation has been applied without the source knowing;
  the rest of the queue continues the receiver's chain up to the source's checkpoint, and leads
  from the replica's maps to the image of the primary's.\<close>

definition in_sync ::
  "sha_fn \<Rightarrow> ('s \<Rightarrow> string \<Rightarrow> TumblerMap option) \<Rightarrow> ('r \<Rightarrow> string \<Rightarrow> TumblerMap option) \<Rightarrow> ('s, 'r) replicated_pair \<Rightarrow> bool" where
  "in_sync S plook rlook x \<longleftrightarrow>
     (let s = pr_source x; r = pr_receiver x in
      rs_integrityLost s \<or> rr_integrityLost r \<or>
      (\<exists>known rest. rs_queue s = known @ rest \<and> (known = [] \<or> (\<exists>d. known = [d] \<and> po_checkpoint d = rr_checkpoint r)) \<and>
         chained S (rr_checkpoint r) rest \<and> end_checkpoint (rr_checkpoint r) rest = rs_checkpoint s \<and>
         fold (effect (rr_secretUnsealer r)) rest (rlook (rr_store r)) =
           replica_image (rs_secretPolicy s) (rr_secretUnsealer r) (plook (rs_primary s))))"

section \<open>Envelopes arrive as they were sent\<close>

lemma validateMutation_js: "validateMutation (mutation_js mu) = Inr mu' \<Longrightarrow> mu' = mu"
  by (cases mu) (auto simp: validateMutation_def mutation_js_def Let_def the_str_def int_of_def comp_def js_update_entry_def
      case_prod_unfold split: if_splits)

lemma pushed_envelope:
  assumes "push H token p sentAt = Inr env" and "validateTumblerOp env = Inr (Inr v)"
  shows "vo_checkpoint v = po_checkpoint p \<and> vo_previousHash v = po_previousHash p \<and> vo_mutation v = po_mutation p"
proof -
  obtain sig where env: "env = js_put ''signature'' (JString sig) (envelope_body p sentAt)"
    using assms(1) by (auto simp: push_def signReplicaEnvelope_def bind_res_Inr_iff)
  have g: "js_get env k = (if k = ''signature'' then JString sig else js_get (envelope_body p sentAt) k)" for k
    using js_get_put [of "envelope_body p sentAt" "''epoch''" "''signature''" "JString sig" k]
    unfolding env by (simp add: envelope_body_def is_object_def)
  have "vo_mutation v = po_mutation p"
    using validated_mutation [OF assms(2)] validateMutation_js unfolding g by (simp add: envelope_body_def)
  moreover have "vo_checkpoint v = \<lparr>rc_streamId = the_str (js_get env ''streamId''), rc_epoch = int_of (js_get env ''epoch''),
      rc_sequence = int_of (js_get env ''sequence''), rc_headHash = the_str (js_get env ''headHash'')\<rparr> \<and>
      vo_previousHash v = the_str (js_get env ''previousHash'')"
    using assms(2) by (auto simp: validateTumblerOp_def bind_res_Inr_iff split: if_splits)
  ultimately show ?thesis unfolding g by (simp add: envelope_body_def the_str_def)
qed

section \<open>The simulation is kept\<close>

text \<open>The state of a synchronised pair with respect to a new source state that has the same primary image.\<close>

definition sync_with ::
  "sha_fn \<Rightarrow> (string \<rightharpoonup> TumblerMap) \<Rightarrow> 's ReplicatingTumblerStore \<Rightarrow> ReplicationCheckpoint \<Rightarrow>
   (string \<Rightarrow> string \<Rightarrow> string res) option \<Rightarrow> (string \<rightharpoonup> TumblerMap) \<Rightarrow> bool" where
  "sync_with S L s cp un R \<longleftrightarrow>
     (\<exists>known rest. rs_queue s = known @ rest \<and> (known = [] \<or> (\<exists>d. known = [d] \<and> po_checkpoint d = cp)) \<and>
        chained S cp rest \<and> end_checkpoint cp rest = rs_checkpoint s \<and>
        fold (effect un) rest R = replica_image (rs_secretPolicy s) un L)"

lemma in_sync_iff:
  "in_sync S plook rlook x \<longleftrightarrow>
     rs_integrityLost (pr_source x) \<or> rr_integrityLost (pr_receiver x) \<or>
     sync_with S (plook (rs_primary (pr_source x))) (pr_source x) (rr_checkpoint (pr_receiver x))
       (rr_secretUnsealer (pr_receiver x)) (rlook (rr_store (pr_receiver x)))"
  by (simp add: in_sync_def sync_with_def Let_def)

text \<open>What a write does to the source: the stream is marked, or the queue has grown by mutations whose
  effect is the change of the primary's image.\<close>

definition write_ok where
  "write_ok S L s L' s' \<longleftrightarrow>
     drain_inv s' \<and> rs_secretPolicy s' = rs_secretPolicy s \<and> rs_token s' = rs_token s \<and> (rs_integrityLost s \<longrightarrow> rs_integrityLost s') \<and>
     (rs_integrityLost s' \<or>
      (\<exists>new. rs_queue s' = rs_queue s @ new \<and> chained S (rs_checkpoint s) new \<and> end_checkpoint (rs_checkpoint s) new = rs_checkpoint s' \<and>
         (\<forall>un. fold (effect un) new (replica_image (rs_secretPolicy s) un L) = replica_image (rs_secretPolicy s) un L')))"

lemma write_ok_sync:
  assumes "write_ok S L s L' s'" and "rs_integrityLost s \<or> sync_with S L s cp un R"
  shows "rs_integrityLost s' \<or> sync_with S L' s' cp un R"
proof (cases "rs_integrityLost s'")
  case False
  then obtain new where
    n: "rs_queue s' = rs_queue s @ new" "chained S (rs_checkpoint s) new" "end_checkpoint (rs_checkpoint s) new = rs_checkpoint s'"
      "fold (effect un) new (replica_image (rs_secretPolicy s) un L) = replica_image (rs_secretPolicy s) un L'" "rs_secretPolicy s' = rs_secretPolicy s"
    using assms(1) unfolding write_ok_def by blast
  obtain known rest where k: "rs_queue s = known @ rest" "known = [] \<or> (\<exists>d. known = [d] \<and> po_checkpoint d = cp)" "chained S cp rest"
      "end_checkpoint cp rest = rs_checkpoint s" "fold (effect un) rest R = replica_image (rs_secretPolicy s) un L"
    using assms False unfolding write_ok_def sync_with_def by blast
  have "sync_with S L' s' cp un R"
    unfolding sync_with_def by (intro exI [of _ known] exI [of _ "rest @ new"]) (use n k in \<open>auto simp: chained_append\<close>)
  then show ?thesis by simp
qed simp

lemma write_ok_refl: "drain_inv s' \<Longrightarrow> rs_queue s' = rs_queue s \<Longrightarrow> rs_checkpoint s' = rs_checkpoint s \<Longrightarrow>
  rs_secretPolicy s' = rs_secretPolicy s \<Longrightarrow> rs_token s' = rs_token s \<Longrightarrow> rs_integrityLost s' = rs_integrityLost s \<Longrightarrow> write_ok S L s L s'"
  unfolding write_ok_def by (intro conjI disjI2 exI [of _ "[]"]) auto

lemma write_ok_trans:
  assumes "write_ok S L s L' s'" and "write_ok S L' s' L'' s''"
  shows "write_ok S L s L'' s''"
proof (cases "rs_integrityLost s''")
  case True
  then show ?thesis using assms by (simp add: write_ok_def)
next
  case False
  then obtain n n' where
    "rs_queue s' = rs_queue s @ n" "chained S (rs_checkpoint s) n" "end_checkpoint (rs_checkpoint s) n = rs_checkpoint s'"
    "\<forall>un. fold (effect un) n (replica_image (rs_secretPolicy s) un L) = replica_image (rs_secretPolicy s) un L'"
    "rs_queue s'' = rs_queue s' @ n'" "chained S (rs_checkpoint s') n'" "end_checkpoint (rs_checkpoint s') n' = rs_checkpoint s''"
    "\<forall>un. fold (effect un) n' (replica_image (rs_secretPolicy s') un L') = replica_image (rs_secretPolicy s') un L''"
    using assms by (auto simp: write_ok_def)
  then have "\<exists>new. rs_queue s'' = rs_queue s @ new \<and> chained S (rs_checkpoint s) new \<and> end_checkpoint (rs_checkpoint s) new = rs_checkpoint s'' \<and>
         (\<forall>un. fold (effect un) new (replica_image (rs_secretPolicy s) un L) = replica_image (rs_secretPolicy s) un L'')"
    using assms by (intro exI [of _ "n @ n'"]) (simp add: chained_append write_ok_def)
  then show ?thesis using assms by (simp add: write_ok_def)
qed

lemma enqueue_write_ok:
  assumes "drain_inv s"
    and "\<And>un. mutation_effect (unsealed un mu) (replica_image (rs_secretPolicy s) un L) = replica_image (rs_secretPolicy s) un L'"
  shows "write_ok S L s L' (enqueueMutation S mu s)"
  using assms(1)
proof (cases rule: enqueue_cases [where S = S and mu = mu])
  case dropped
  then show ?thesis by (simp add: write_ok_def)
next
  case queued
  let ?p = "\<lparr>po_checkpoint = next_checkpoint S (rs_checkpoint s) mu, po_previousHash = rc_headHash (rs_checkpoint s), po_mutation = mu\<rparr>"
  have "rs_queue (enqueueMutation S mu s) = rs_queue s @ [?p] \<and> chained S (rs_checkpoint s) [?p] \<and>
      end_checkpoint (rs_checkpoint s) [?p] = rs_checkpoint (enqueueMutation S mu s) \<and>
      (\<forall>un. fold (effect un) [?p] (replica_image (rs_secretPolicy s) un L) = replica_image (rs_secretPolicy s) un L')"
    using queued assms(2) by (simp add: effect_def)
  then show ?thesis unfolding write_ok_def using queued by (intro conjI disjI2 exI [of _ "[?p]"]) auto
qed

lemma enqueue_sealed_write_ok:
  assumes "drain_inv s" and "enqueue_sealed S cid m s = (s', Inr u)"
    and "\<And>un. replica_image (rs_secretPolicy s) un L' = (replica_image (rs_secretPolicy s) un L)(cid \<mapsto> map_image (rs_secretPolicy s) un cid m)"
  shows "write_ok S L s L' s' \<and> rs_primary s' = rs_primary s"
proof -
  obtain wire b where w: "sealMap s m = Inr (wire, b)" "s' = enqueueMutation S (M_set cid (map_js wire) b) s"
    using assms(2) by (auto simp: enqueue_sealed_def split: sum.splits)
  have "write_ok S L s L' s'"
    unfolding w(2) by (rule enqueue_write_ok [OF assms(1)]) (simp add: sealed_effect [OF w(1)] assms(3))
  moreover have "rs_primary s' = rs_primary s"
    unfolding w(2) using assms(1) by (cases rule: enqueue_cases [where S = S and mu = "M_set cid (map_js wire) b"])
  ultimately show ?thesis ..
qed

lemma drain_inv_primary [simp]: "drain_inv (s\<lparr>rs_primary := p\<rparr>) = drain_inv s"
  by (simp add: drain_inv_def)

lemma write_ok_primary: "write_ok S L (s\<lparr>rs_primary := p\<rparr>) L' s' = write_ok S L s L' s'"
  by (simp add: write_ok_def)

context map_store
begin

lemma mirror_current_ok:
  assumes "inv (rs_primary s)" and "drain_inv s" and "mirror_current S api cid now s = (s', Inr u)"
    and "lookup (rs_primary s) cid \<noteq> None \<or> L cid = None"
  shows "inv (rs_primary s') \<and> lookup (rs_primary s') = lookup (rs_primary s) \<and>
    write_ok S L s (L(cid := lookup (rs_primary s) cid)) s'"
proof -
  obtain p g where g: "api_get api cid now (rs_primary s) = (p, g)" by force
  have p: "inv p" "lookup p = lookup (rs_primary s)" "g = Inr (lookup (rs_primary s) cid)"
    using get_law [OF assms(1) g] by auto
  show ?thesis
  proof (cases "lookup (rs_primary s) cid")
    case None
    then have "s' = s\<lparr>rs_primary := p\<rparr>" "L(cid := None) = L"
      using assms(3,4) g p by (auto simp: mirror_current_def rs_get_def)
    then show ?thesis using None p assms(2) write_ok_refl [of s' s] by simp
  next
    case (Some m)
    then have e: "enqueue_sealed S cid m (s\<lparr>rs_primary := p\<rparr>) = (s', Inr u)"
      using assms(3) g p by (auto simp: mirror_current_def rs_get_def)
    have "write_ok S L (s\<lparr>rs_primary := p\<rparr>) (L(cid \<mapsto> m)) s' \<and> rs_primary s' = rs_primary (s\<lparr>rs_primary := p\<rparr>)"
      by (rule enqueue_sealed_write_ok [OF _ e]) (use assms(2) in \<open>simp_all add: replica_image_upd\<close>)
    then show ?thesis using Some p by (simp add: write_ok_primary)
  qed
qed

lemma enqueue_plain_ok:
  assumes "drain_inv s" and "inv p"
    and "\<And>un. mutation_effect (unsealed un mu) (replica_image (rs_secretPolicy s) un L) = replica_image (rs_secretPolicy s) un (lookup p)"
    and s'_def: "s' = enqueueMutation S mu (s\<lparr>rs_primary := p\<rparr>)"
  shows "inv (rs_primary s') \<and> write_ok S L s (lookup (rs_primary s')) s'"
proof -
  have d: "drain_inv (s\<lparr>rs_primary := p\<rparr>)" using assms(1) by simp
  have "rs_primary s' = p"
    unfolding s'_def using d by (cases rule: enqueue_cases [where S = S and mu = mu]) auto
  moreover have "write_ok S L (s\<lparr>rs_primary := p\<rparr>) (lookup p) s'"
    unfolding s'_def by (rule enqueue_write_ok [OF d]) (use assms(3) in simp)
  ultimately show ?thesis using assms(2) by (simp add: write_ok_primary)
qed

lemma replace_write_ok:
  assumes r: "rs_replaceCredential S api old m now now' s = (s', Inr b)" and i: "inv (rs_primary s)" and d: "drain_inv s"
    and k: "b \<longrightarrow> lookup (rs_primary s') old \<noteq> None \<and> lookup (rs_primary s') (tm_clientId m) \<noteq> None"
  shows "inv (rs_primary s') \<and> write_ok S (lookup (rs_primary s)) s (lookup (rs_primary s')) s'"
proof -
  obtain p rp where p: "api_replace api old m (rs_primary s) = (p, rp)" by force
  note law = replace_law [OF i p]
  show ?thesis
  proof (cases "rp = Inr True")
    case False
    then have "rp = Inr False" "s' = s\<lparr>rs_primary := p\<rparr>"
      using r p by (auto simp: rs_replaceCredential_def split: sum.splits bool.splits)
    then show ?thesis using law d write_ok_refl [of s' s] by simp
  next
    case True
    obtain s1 u u' where m1: "mirror_current S api old now (s\<lparr>rs_primary := p\<rparr>) = (s1, Inr u)"
      and m2: "mirror_current S api (tm_clientId m) now' s1 = (s', Inr u')" and b: b
      using r p True by (auto simp: rs_replaceCredential_def bind_res_Inr_iff split: prod.splits sum.splits)
    let ?L = "lookup (rs_primary s)"
    have i1: "inv (rs_primary (s\<lparr>rs_primary := p\<rparr>))" "drain_inv (s\<lparr>rs_primary := p\<rparr>)" using law d by simp_all
    obtain p1 g where p1: "api_get api old now p = (p1, g)" by force
    have l1: "inv (rs_primary s1) \<and> lookup (rs_primary s1) = lookup p"
      using mirror_current_ok [OF i1 m1, of "\<lambda>_. None"] by simp
    have d1: "drain_inv s1" using mirror_current_ok [OF i1 m1, of "\<lambda>_. None"] by (simp add: write_ok_def)
    have l2: "inv (rs_primary s') \<and> lookup (rs_primary s') = lookup p"
      using mirror_current_ok [OF _ d1 m2, of "\<lambda>_. None"] l1 by simp
    have w1: "write_ok S ?L (s\<lparr>rs_primary := p\<rparr>) (?L(old := lookup p old)) s1"
      using mirror_current_ok [OF i1 m1, of ?L] k b l2 by simp
    have w2: "write_ok S (?L(old := lookup p old)) s1 (?L(old := lookup p old, tm_clientId m := lookup p (tm_clientId m))) s'"
      using mirror_current_ok [OF _ d1 m2, of "?L(old := lookup p old)"] l1 l2 k b by simp
    have "?L(old := lookup p old, tm_clientId m := lookup p (tm_clientId m)) = lookup p"
      using law True by (auto simp: fun_eq_iff)
    then show ?thesis using write_ok_trans [OF w1 w2] l2 by (simp add: write_ok_primary)
  qed
qed

lemma source_write_ok:
  assumes "source_write S api lookup s s'" and i: "inv (rs_primary s)" and d: "drain_inv s"
  shows "inv (rs_primary s') \<and> write_ok S (lookup (rs_primary s)) s (lookup (rs_primary s')) s'"
  using assms(1)
proof cases
  case (W_set cid m)
  then obtain p where p: "api_set api cid m (rs_primary s) = (p, Inr ())" and e: "enqueue_sealed S cid m (s\<lparr>rs_primary := p\<rparr>) = (s', Inr ())"
    by (auto simp: rs_set_def split: prod.splits sum.splits)
  have "write_ok S (lookup (rs_primary s)) (s\<lparr>rs_primary := p\<rparr>) (lookup p) s' \<and> rs_primary s' = rs_primary (s\<lparr>rs_primary := p\<rparr>)"
    by (rule enqueue_sealed_write_ok [OF _ e]) (use set_law [OF i p] d in \<open>simp_all add: replica_image_upd\<close>)
  then show ?thesis using set_law [OF i p] by (simp add: write_ok_primary)
next
  case (W_delete cid)
  then obtain p where p: "api_delete api cid (rs_primary s) = (p, Inr ())" and s': "s' = enqueueMutation S (M_delete cid) (s\<lparr>rs_primary := p\<rparr>)"
    by (auto simp: rs_delete_def split: prod.splits sum.splits)
  show ?thesis unfolding s'
    by (rule enqueue_plain_ok [OF d _ _ refl]) (use delete_law [OF i p] in \<open>simp_all add: unsealed_def mutation_effect_def replica_image_upd\<close>)
next
  case (W_update cid us)
  then obtain p where p: "api_update api cid us (rs_primary s) = (p, Inr ())" and s': "s' = enqueueMutation S (M_updateCounters cid us) (s\<lparr>rs_primary := p\<rparr>)"
    by (auto simp: rs_updateCounters_def split: prod.splits sum.splits)
  show ?thesis unfolding s'
    by (rule enqueue_plain_ok [OF d _ _ refl])
      (use update_law [OF i p] W_update in \<open>simp_all add: unsealed_def mutation_effect_def new_Map_distinct replica_image_update\<close>)
next
  case (W_consume cid sid c b)
  show ?thesis
  proof (cases "api_consume api")
    case None
    then have "s' = s" using W_consume by (simp add: rs_consumeCounter_def)
    then show ?thesis using i d write_ok_refl [of s s] by simp
  next
    case (Some f)
    obtain p where p: "f cid sid c (rs_primary s) = (p, Inr b)" and
      s': "s' = (if b then enqueueMutation S (M_consumeCounter cid sid c) (s\<lparr>rs_primary := p\<rparr>) else s\<lparr>rs_primary := p\<rparr>)"
      using W_consume Some by (auto simp: rs_consumeCounter_def split: prod.splits sum.splits)
    note law = consume_law [OF i Some p]
    show ?thesis
    proof (cases b)
      case True
      show ?thesis unfolding s' if_P [OF True]
        by (rule enqueue_plain_ok [OF d _ _ refl]) (use law in \<open>simp_all add: unsealed_def mutation_effect_def replica_image_consume\<close>)
    next
      case False
      then show ?thesis using s' law W_consume(2) d write_ok_refl [of s' s] by simp
    qed
  qed
next
  case (W_commit cid input now r)
  then obtain p u where p: "api_commit api cid input (rs_primary s) = (p, Inr r)" and e: "mirror_current S api cid now (s\<lparr>rs_primary := p\<rparr>) = (s', Inr u)"
    by (auto simp: rs_commitValidation_def bind_res_Inr_iff split: prod.splits sum.splits)
  note law = commit_law [OF i p]
  have "inv (rs_primary s') \<and> lookup (rs_primary s') = lookup p \<and>
      write_ok S (lookup (rs_primary s)) (s\<lparr>rs_primary := p\<rparr>) ((lookup (rs_primary s))(cid := lookup p cid)) s'"
    using mirror_current_ok [OF _ _ e, of "lookup (rs_primary s)"] law d by (auto simp: lk_upd_apply)
  moreover have "(lookup (rs_primary s))(cid := lookup p cid) = lookup p" using law by (auto simp: fun_eq_iff lk_upd_apply)
  ultimately show ?thesis by (simp add: write_ok_primary)
next
  case (W_replace old m now now' b)
  then show ?thesis using replace_write_ok i d by blast
next
  case (W_get cid now got)
  obtain p g where p: "api_get api cid now (rs_primary s) = (p, g)" by force
  then have "s' = s\<lparr>rs_primary := p\<rparr>" using W_get by (simp add: rs_get_def)
  then show ?thesis using get_law [OF i p] d write_ok_refl [of s' s] by simp
qed

end

locale replica_pair =
  src: map_store papi plook pinv + rcv: map_store rapi rlook rinv
  for papi :: "'s tumbler_store_api" and plook pinv
    and rapi :: "'r tumbler_store_api" and rlook rinv
begin

definition pair_inv :: "sha_fn \<Rightarrow> ('s, 'r) replicated_pair \<Rightarrow> bool" where
  "pair_inv S x \<longleftrightarrow>
     pinv (rs_primary (pr_source x)) \<and> rinv (rr_store (pr_receiver x)) \<and> drain_inv (pr_source x) \<and> in_sync S plook rlook x"

text \<open>An ingest of the head of the queue applies it, and only it.\<close>

lemma deliver_head:
  assumes inv: "rinv (rr_store r)" and env: "push H token p sentAt = Inr env" and g: "ingest S H rapi now env r = (r', out)"
    and q: "rs_queue s = p # ps" and sync: "rs_integrityLost s \<or> rr_integrityLost r \<or>
      sync_with S L s (rr_checkpoint r) (rr_secretUnsealer r) (rlook (rr_store r))"
  shows "rs_integrityLost s \<or> rr_integrityLost r' \<or>
    (\<not> accepted out \<and> rr_checkpoint r' = rr_checkpoint r \<and> rlook (rr_store r') = rlook (rr_store r)) \<or>
    (accepted out \<and> rr_checkpoint r' = po_checkpoint p \<and> chained S (po_checkpoint p) ps \<and> end_checkpoint (po_checkpoint p) ps = rs_checkpoint s \<and>
     fold (effect (rr_secretUnsealer r)) ps (rlook (rr_store r')) = replica_image (rs_secretPolicy s) (rr_secretUnsealer r) L)"
proof (cases "rs_integrityLost s \<or> rr_integrityLost r'")
  case False
  then have ok: "\<not> rr_integrityLost r" using ingest_config(5) [OF g] by blast
  from g show ?thesis
  proof (cases rule: ingest_cases)
    case kept
    then show ?thesis by (simp add: accepted_def)
  next
    case (applied v r2 mu u)
    then have u: "u = Inr ()" using False by blast
    have v: "vo_checkpoint v = po_checkpoint p" "vo_mutation v = po_mutation p" using pushed_envelope [OF env applied(1)] by auto
    have mu: "mu = unsealed (rr_secretUnsealer r) (po_mutation p)" using ingest_unseal_unsealed [OF applied(3)] v by simp
    have lk: "rlook (rr_store r') = effect (rr_secretUnsealer r) p (rlook (rr_store r))"
      using rcv.apply_effect [OF inv applied(4)] u mu by (simp add: effect_def)
    have seq: "po_checkpoint p \<noteq> rr_checkpoint r" using ingest_checks_None(6) [OF applied(2)] v by auto
    obtain known rest where k: "p # ps = known @ rest" "known = [] \<or> (\<exists>d. known = [d] \<and> po_checkpoint d = rr_checkpoint r)"
      "chained S (rr_checkpoint r) rest" "end_checkpoint (rr_checkpoint r) rest = rs_checkpoint s"
      "fold (effect (rr_secretUnsealer r)) rest (rlook (rr_store r)) = replica_image (rs_secretPolicy s) (rr_secretUnsealer r) L"
      using sync False ok q unfolding sync_with_def by auto
    then have "known = []" using seq by auto
    then have rest: "rest = p # ps" using k by simp
    show ?thesis using k(3-5) [unfolded rest] lk applied(5,6) u v by (auto simp: accepted_def)
  qed
qed blast

lemma in_sync_answer:
  assumes i: "pair_inv S x" and fl: "rs_inflight (pr_source x) = Some p" and env: "push H token p sentAt = Inr env"
    and g: "ingest S H rapi now env (pr_receiver x) = (r', out)" and ok: "ok \<Longrightarrow> accepted out"
  shows "pair_inv S (x\<lparr>pr_source := drain_answered ok (pr_source x), pr_receiver := r'\<rparr>)"
proof -
  let ?s = "pr_source x" and ?r = "pr_receiver x"
  have d: "drain_inv ?s" and inv: "pinv (rs_primary ?s)" "rinv (rr_store ?r)" and sync: "in_sync S plook rlook x"
    using i by (simp_all add: pair_inv_def)
  note da = drain_answered_kept [OF d]
  have q: "rs_queue ?s = p # tl (rs_queue ?s)" by (rule da(8) [OF fl])
  have inv': "rinv (rr_store r')"
    using g by (cases rule: ingest_cases) (use inv rcv.apply_effect in auto)
  note un = ingest_config(1) [OF g]
  consider "rs_integrityLost ?s \<or> rr_integrityLost r'"
    | (no) "\<not> accepted out" "rr_checkpoint r' = rr_checkpoint ?r" "rlook (rr_store r') = rlook (rr_store ?r)"
        "sync_with S (plook (rs_primary ?s)) ?s (rr_checkpoint ?r) (rr_secretUnsealer ?r) (rlook (rr_store ?r))"
    | (yes) "accepted out" "rr_checkpoint r' = po_checkpoint p" "chained S (po_checkpoint p) (tl (rs_queue ?s))"
        "end_checkpoint (po_checkpoint p) (tl (rs_queue ?s)) = rs_checkpoint ?s"
        "fold (effect (rr_secretUnsealer ?r)) (tl (rs_queue ?s)) (rlook (rr_store r')) =
          replica_image (rs_secretPolicy ?s) (rr_secretUnsealer ?r) (plook (rs_primary ?s))"
    using deliver_head [OF inv(2) env g q, of "plook (rs_primary ?s)"] sync ingest_config(5) [OF g] unfolding in_sync_iff by blast
  then have "in_sync S plook rlook (x\<lparr>pr_source := drain_answered ok ?s, pr_receiver := r'\<rparr>)"
  proof cases
    case 1
    then show ?thesis by (auto simp: in_sync_iff da(4))
  next
    case no
    then have "\<not> ok" using ok by blast
    with no show ?thesis by (simp add: in_sync_iff un sync_with_def da)
  next
    case yes
    let ?known = "if ok then [] else [p]"
    have "rs_queue (drain_answered ok ?s) = ?known @ tl (rs_queue ?s)"
      using q da(7,9) fl by (cases ok) auto
    then have "sync_with S (plook (rs_primary ?s)) (drain_answered ok ?s) (rr_checkpoint r') (rr_secretUnsealer r') (rlook (rr_store r'))"
      unfolding sync_with_def un da(3,5) by (intro exI [of _ ?known] exI [of _ "tl (rs_queue ?s)"]) (use yes in auto)
    then show ?thesis by (simp add: in_sync_iff da(2))
  qed
  then show ?thesis using inv inv' da(1,2) by (simp add: pair_inv_def)
qed

lemma pair_step_inv:
  assumes "pair_step S H papi plook rapi x y" and i: "pair_inv S x"
  shows "pair_inv S y"
  using assms(1)
proof cases
  case (Write s')
  have w: "pinv (rs_primary s')" "write_ok S (plook (rs_primary (pr_source x))) (pr_source x) (plook (rs_primary s')) s'"
    using src.source_write_ok [OF Write(2)] i by (simp_all add: pair_inv_def)
  have "drain_inv s'" using w(2) by (simp add: write_ok_def)
  moreover have "rs_integrityLost s' \<or> rr_integrityLost (pr_receiver x) \<or>
      sync_with S (plook (rs_primary s')) s' (rr_checkpoint (pr_receiver x)) (rr_secretUnsealer (pr_receiver x)) (rlook (rr_store (pr_receiver x)))"
    using write_ok_sync [OF w(2)] i unfolding pair_inv_def in_sync_iff by blast
  ultimately show ?thesis using Write(1) i w(1) by (simp add: pair_inv_def in_sync_iff)
next
  case Awake
  have d: "drain_inv (pr_source x)" using i by (simp add: pair_inv_def)
  show ?thesis
    using Awake i drain_awake_kept [OF d] by (simp add: pair_inv_def in_sync_iff sync_with_def)
next
  case (Answered p sentAt env now r' out)
  then show ?thesis using in_sync_answer [OF i Answered(2-4)] by simp
next
  case (Answer_lost p sentAt env now r' out)
  then show ?thesis using in_sync_answer [OF i Answer_lost(2-4), of False] by simp
next
  case Request_lost
  have d: "drain_inv (pr_source x)" using i by (simp add: pair_inv_def)
  show ?thesis
    using Request_lost i drain_answered_kept(1-7) [OF d, where ok = False] by (simp add: pair_inv_def in_sync_iff sync_with_def)
next
  case (Foreign now body r' out)
  have c: "rr_integrityLost r' \<or> rr_store r' = rr_store (pr_receiver x) \<and> rr_checkpoint r' = rr_checkpoint (pr_receiver x)"
    using Foreign(2) by (cases rule: ingest_cases) (use Foreign(3) in \<open>auto simp: accepted_def\<close>)
  have "rinv (rr_store r')"
    using Foreign(2) by (cases rule: ingest_cases) (use i rcv.apply_effect in \<open>auto simp: pair_inv_def\<close>)
  then show ?thesis
    using Foreign c i ingest_config(1,5) [OF Foreign(2)] by (auto simp: pair_inv_def in_sync_iff)
qed

lemma reachable_inv: "(pair_step S H papi plook rapi)\<^sup>*\<^sup>* x y \<Longrightarrow> pair_inv S x \<Longrightarrow> pair_inv S y"
  by (induction rule: rtranclp_induct) (auto intro: pair_step_inv)

lemma offered_current:
  assumes "pair_inv S x" and "rs_promotionCheckpoint (pr_source x) = Some cp" and "\<not> rr_integrityLost (pr_receiver x)"
  shows "rr_checkpoint (pr_receiver x) = cp \<and> rlook (rr_store (pr_receiver x)) =
    replica_image (rs_secretPolicy (pr_source x)) (rr_secretUnsealer (pr_receiver x)) (plook (rs_primary (pr_source x)))"
proof -
  have "\<not> rs_integrityLost (pr_source x)" "rs_queue (pr_source x) = []" "cp = rs_checkpoint (pr_source x)"
    using assms(2) by (auto simp: rs_promotionCheckpoint_def split: if_splits option.splits)
  with assms(1,3) show ?thesis by (auto simp: pair_inv_def in_sync_iff sync_with_def)
qed

lemma promotable_current:
  assumes "pair_inv S x" and "rs_promotionCheckpoint (pr_source x) = Some cp" and "rr_promotionCheckpoint (pr_receiver x) = Some cp'"
  shows "cp' = cp \<and> rlook (rr_store (pr_receiver x)) =
    replica_image (rs_secretPolicy (pr_source x)) (rr_secretUnsealer (pr_receiver x)) (plook (rs_primary (pr_source x)))"
proof -
  have "\<not> rr_integrityLost (pr_receiver x)" "cp' = rr_checkpoint (pr_receiver x)"
    using assms(3) by (auto simp: rr_promotionCheckpoint_def split: if_splits option.splits)
  with offered_current [OF assms(1,2)] show ?thesis by simp
qed

end

interpretation mem_pair: replica_pair memory_tumbler_api "\<lambda>st. map_of (ms_maps st)" keeps_maps
    memory_tumbler_api "\<lambda>st. map_of (ms_maps st)" keeps_maps
  by unfold_locales

section \<open>A promotable replica is current\<close>

abbreviation mem_lookup :: "MemoryTumblerStore \<Rightarrow> string \<Rightarrow> TumblerMap option" where
  "mem_lookup st \<equiv> map_of (ms_maps st)"

text \<open>A stream that starts: nothing queued, both sides at the same checkpoint, the replica an image of
  the primary (for instance both empty).\<close>

definition fresh_pair :: "(MemoryTumblerStore, MemoryTumblerStore) replicated_pair \<Rightarrow> bool" where
  "fresh_pair x \<longleftrightarrow>
     keeps_maps (rs_primary (pr_source x)) \<and> keeps_maps (rr_store (pr_receiver x)) \<and>
     rs_queue (pr_source x) = [] \<and> \<not> rs_draining (pr_source x) \<and> rs_inflight (pr_source x) = None \<and>
     rr_checkpoint (pr_receiver x) = rs_checkpoint (pr_source x) \<and>
     mem_lookup (rr_store (pr_receiver x)) =
       replica_image (rs_secretPolicy (pr_source x)) (rr_secretUnsealer (pr_receiver x)) (mem_lookup (rs_primary (pr_source x)))"

lemma fresh_pair_inv: "fresh_pair x \<Longrightarrow> mem_pair.pair_inv S x"
  by (auto simp: fresh_pair_def mem_pair.pair_inv_def drain_inv_def in_sync_iff sync_with_def)


section \<open>A lost answer stops the stream\<close>

lemma drain_queue [simp]: "rs_queue (drain s) = rs_queue s"
  by (simp add: drain_def drain_next_def split: list.split)

lemma enqueue_extends: "\<exists>new. rs_queue (enqueueMutation S mu s) = rs_queue s @ new"
  by (simp add: enqueueMutation_def Let_def)

lemma enqueue_drain_inv: "drain_inv s \<Longrightarrow> drain_inv (enqueueMutation S mu s)"
  by (erule enqueue_cases [where S = S and mu = mu])

definition extends :: "'s ReplicatingTumblerStore \<Rightarrow> 's ReplicatingTumblerStore \<Rightarrow> bool" where
  "extends s s' \<longleftrightarrow> (drain_inv s \<longrightarrow> drain_inv s') \<and> (\<exists>new. rs_queue s' = rs_queue s @ new)"

lemma extends_simps [simp]: "extends s s" "extends (s\<lparr>rs_primary := p\<rparr>) s' = extends s s'" "extends s (s'\<lparr>rs_primary := p\<rparr>) = extends s s'"
  "extends s (enqueueMutation S mu s)"
  using enqueue_extends enqueue_drain_inv by (auto simp: extends_def)

lemma extends_enqueue_primary [simp]: "extends s (enqueueMutation S mu (s\<lparr>rs_primary := p\<rparr>))"
  using extends_simps(4) [of "s\<lparr>rs_primary := p\<rparr>" S mu] by (simp del: extends_simps(4))

lemma extends_trans: "extends s s' \<Longrightarrow> extends s' s'' \<Longrightarrow> extends s s''"
  by (auto simp: extends_def)

lemma extends_sealed: "enqueue_sealed S cid m s = (s', r) \<Longrightarrow> extends s s'"
  by (auto simp: enqueue_sealed_def split: sum.splits)

lemma extends_mirror: "mirror_current S api cid now s = (s', r) \<Longrightarrow> extends s s'"
  by (auto simp: mirror_current_def rs_get_def split: prod.splits sum.splits option.splits dest!: extends_sealed)

lemma source_write_extends: "source_write S api lookup s s' \<Longrightarrow> extends s s'"
proof (induction rule: source_write.induct)
  case (W_set cid m s s')
  then show ?case by (auto simp: rs_set_def split: prod.splits sum.splits dest!: extends_sealed)
next
  case (W_commit cid input now s s' r)
  then show ?case by (auto simp: rs_commitValidation_def split: prod.splits sum.splits dest!: extends_mirror)
next
  case (W_replace old m now now' s s' b)
  then show ?case
    by (auto simp: rs_replaceCredential_def split: prod.splits sum.splits bool.splits dest!: extends_mirror intro: extends_trans)
qed (auto simp: rs_delete_def rs_updateCounters_def rs_consumeCounter_def rs_get_def split: prod.splits sum.splits option.splits if_splits)

text \<open>The head of the queue is an operation the receiver already has.\<close>

definition stalled :: "PendingReplicaOp \<Rightarrow> ('s, 'r) replicated_pair \<Rightarrow> bool" where
  "stalled p x \<longleftrightarrow>
     drain_inv (pr_source x) \<and> (\<exists>ps. rs_queue (pr_source x) = p # ps) \<and>
     rc_sequence (po_checkpoint p) \<le> rc_sequence (rr_checkpoint (pr_receiver x))"

lemma ingest_sequence:
  assumes "ingest S H api now body r = (r', out)"
  shows "rc_sequence (rr_checkpoint r) \<le> rc_sequence (rr_checkpoint r')"
  using assms
proof (cases rule: ingest_cases)
  case (applied v r2 mu u)
  then show ?thesis using ingest_checks_None(6) [OF applied(2)] by simp
qed simp

lemma known_not_accepted:
  assumes "push H token p sentAt = Inr env" and "ingest S H api now env r = (r', out)"
    and "rc_sequence (po_checkpoint p) \<le> rc_sequence (rr_checkpoint r)"
  shows "\<not> accepted out"
  using assms(2)
proof (cases rule: ingest_cases)
  case (applied v r2 mu u)
  then show ?thesis
    using ingest_checks_None(6) [OF applied(2)] pushed_envelope [OF assms(1) applied(1)] assms(3) by simp
qed (simp add: accepted_def)

lemma stalled_step:
  assumes "pair_step S H papi plook rapi x y" and st: "stalled p x"
  shows "stalled p y"
proof -
  obtain ps where d: "drain_inv (pr_source x)" and q: "rs_queue (pr_source x) = p # ps"
    and seq: "rc_sequence (po_checkpoint p) \<le> rc_sequence (rr_checkpoint (pr_receiver x))"
    using st by (auto simp: stalled_def)
  note da = drain_answered_kept(1,7) [OF d, where ok = False] and aw = drain_awake_kept [OF d]
  show ?thesis
    using assms(1)
  proof cases
    case (Write s')
    then show ?thesis using source_write_extends [OF Write(2)] st by (auto simp: stalled_def extends_def)
  next
    case Awake
    then show ?thesis using aw q seq by (simp add: stalled_def)
  next
    case (Answered p' sentAt env now r' out)
    have "p' = p" using drain_answered_kept(8) [OF d Answered(2)] q by simp
    then have "\<not> accepted out" using known_not_accepted [OF Answered(3,4)] seq by simp
    then show ?thesis using Answered da q seq ingest_sequence [OF Answered(4)] by (simp add: stalled_def)
  next
    case (Answer_lost p' sentAt env now r' out)
    then show ?thesis using da q seq ingest_sequence [OF Answer_lost(4)] by (simp add: stalled_def)
  next
    case Request_lost
    then show ?thesis using da q seq by (simp add: stalled_def)
  next
    case (Foreign now body r' out)
    then show ?thesis using d q seq ingest_sequence [OF Foreign(2)] by (simp add: stalled_def)
  qed
qed

text \<open>One lost answer stops replication for good. Once the receiver has applied the head of the
  queue and its answer did not reach the primary, every retry is refused as a replay, which the
  primary takes for a failure: the head stays, nothing behind it is ever sent, and the primary
  never again offers a promotion checkpoint.\<close>

theorem lost_answer_stops_stream:
  assumes "stalled p x" and "(pair_step S H papi plook rapi)\<^sup>*\<^sup>* x y"
  shows "(\<exists>ps. rs_queue (pr_source y) = p # ps) \<and> rs_promotionCheckpoint (pr_source y) = None"
proof -
  have "stalled p y" using assms(2,1) by (induction rule: rtranclp_induct) (auto intro: stalled_step)
  then show ?thesis by (auto simp: stalled_def rs_promotionCheckpoint_def)
qed

section \<open>Changes that are not mirrored\<close>

text \<open>A failing sealer hides a commit from the replica. When the secret cannot be sealed after a
  commit, the request fails, but the primary has consumed the counters; nothing is queued, the
  stream is not marked, and the promotion checkpoint is offered as before.\<close>

theorem seal_failure_unnoticed:
  assumes "keeps_maps (rs_primary s)" and "mem_lookup (rs_primary s) cid = Some m" and "commit_admissible m input"
    and "rs_secretPolicy s = Some f" and "f (tm_clientId m) (tm_sharedSecret m) = Inl e"
  shows "\<exists>s'. rs_commitValidation S memory_tumbler_api cid input now s = (s', Inl e) \<and>
    mem_lookup (rs_primary s') cid = Some (fst (commitValidationToMap m input)) \<and>
    rs_queue s' = rs_queue s \<and> rs_promotionCheckpoint s' = rs_promotionCheckpoint s"
proof -
  obtain m' r where c: "commitValidationToMap m input = (m', Inr r)" and same: "same_but_usage m m'"
    using commit_ok [OF assms(3)] by metis
  have seal: "f (tm_clientId m') (tm_sharedSecret m') = Inl e" 
    using assms(5) arg_cong [OF same [unfolded same_but_usage_def], of tm_clientId]
      arg_cong [OF same [unfolded same_but_usage_def], of tm_sharedSecret] by simp
  let ?p = "ms_mutate cid m' (rs_primary s)"
  have p: "ms_commitValidation cid input (rs_primary s) = (?p, Inr r)"
    using assms(2) c by (simp add: ms_commitValidation_def)
  obtain p2 g where g: "ms_get cid now ?p = (p2, g)" by force
  have p2: "mem_lookup p2 = mem_lookup ?p" "g = Some m'"
    using ms_get_kept [OF _ g] assms(1) by (auto simp: ms_mutate_def)
  have "rs_commitValidation S memory_tumbler_api cid input now s = (s\<lparr>rs_primary := p2\<rparr>, Inl e)"
    using p g p2 assms(4) seal
    by (simp add: rs_commitValidation_def memory_tumbler_api_def mirror_current_def rs_get_def enqueue_sealed_def sealMap_def)
  moreover have "mem_lookup p2 cid = Some m'" using p2 by (simp add: ms_mutate_def)
  moreover have "rs_promotionCheckpoint (s\<lparr>rs_primary := p2\<rparr>) = rs_promotionCheckpoint s"
    by (cases "rs_promotionDurability s") (simp_all add: rs_promotionCheckpoint_def)
  ultimately show ?thesis using c by simp
qed

lemma enqueue_one: "\<exists>new. rs_queue (enqueueMutation S mu s) = rs_queue s @ new \<and> (\<forall>p \<in> set new. po_mutation p = mu)"
  by (simp add: enqueueMutation_def Let_def)

lemma mirror_queue:
  assumes "mirror_current S api cid now s = (s', Inr u)"
  shows "\<exists>new. rs_queue s' = rs_queue s @ new \<and> (\<forall>p \<in> set new. \<exists>v b. po_mutation p = M_set cid v b)"
proof -
  obtain s1 g where g: "rs_get api cid now s = (s1, g)" by force
  have q: "rs_queue s1 = rs_queue s" using g by (auto simp: rs_get_def split: prod.splits)
  consider "s' = s1" | wire b where "s' = enqueueMutation S (M_set cid (map_js wire) b) s1"
    using assms g by (auto simp: mirror_current_def enqueue_sealed_def split: sum.splits option.splits)
  then show ?thesis
  proof cases
    case (2 wire b)
    from enqueue_one [of S "M_set cid (map_js wire) b" s1] q 2 show ?thesis by fastforce
  qed (use q in simp)
qed

context map_store
begin

lemma mirror_absent:
  assumes "inv (rs_primary s)" and "lookup (rs_primary s) cid = None" and "mirror_current S api cid now s = (s', r)"
  shows "r = Inr () \<and> rs_queue s' = rs_queue s \<and> inv (rs_primary s') \<and> lookup (rs_primary s') = lookup (rs_primary s)"
proof -
  obtain p g where g: "api_get api cid now (rs_primary s) = (p, g)" by force
  show ?thesis using get_law [OF assms(1) g] g assms(2,3) by (auto simp: mirror_current_def rs_get_def)
qed

lemma mirror_keeps:
  assumes "inv (rs_primary s)" and "mirror_current S api cid now s = (s', Inr u)"
  shows "lookup (rs_primary s') = lookup (rs_primary s)"
proof -
  obtain p g where g: "api_get api cid now (rs_primary s) = (p, g)" by force
  have "rs_primary (enqueueMutation S mu x) = rs_primary x" for mu and x :: "'s ReplicatingTumblerStore"
    by (auto simp: enqueueMutation_def Let_def drain_def drain_next_def split: list.splits)
  then show ?thesis using get_law [OF assms(1) g] g assms(2)
    by (auto simp: mirror_current_def rs_get_def enqueue_sealed_def split: option.splits sum.splits)
qed

lemma eviction_queue:
  assumes r: "rs_replaceCredential S api old m now now' s = (s', Inr True)" and i: "inv (rs_primary s)"
    and gone: "lookup (rs_primary s') old = None"
  shows "\<exists>new. rs_queue s' = rs_queue s @ new \<and> (\<forall>un R. fold (effect un) new R old = R old)"
proof -
  obtain p rp where p: "api_replace api old m (rs_primary s) = (p, rp)" by force
  then have "rp = Inr True" using r by (auto simp: rs_replaceCredential_def split: sum.splits bool.splits)
  then obtain s1 u u' where m1: "mirror_current S api old now (s\<lparr>rs_primary := p\<rparr>) = (s1, Inr u)"
    and m2: "mirror_current S api (tm_clientId m) now' s1 = (s', Inr u')"
    using r p by (auto simp: rs_replaceCredential_def bind_res_Inr_iff split: prod.splits sum.splits)
  have ip: "inv (rs_primary (s\<lparr>rs_primary := p\<rparr>))" using replace_law [OF i p] by simp
  obtain pg g where g: "api_get api old now p = (pg, g)" by force
  have l1: "lookup (rs_primary s1) = lookup p" using mirror_keeps [OF ip m1] by simp
  have i1: "inv (rs_primary s1)"
  proof (cases "lookup p old")
    case None
    then show ?thesis using mirror_absent [OF ip _ m1] by simp
  next
    case (Some x)
    have "rs_primary (enqueueMutation S mu y) = rs_primary y" for mu and y :: "'s ReplicatingTumblerStore"
      by (auto simp: enqueueMutation_def Let_def drain_def drain_next_def split: list.splits)
    then show ?thesis using get_law [OF _ g] ip m1 g
      by (auto simp: mirror_current_def rs_get_def enqueue_sealed_def split: option.splits sum.splits)
  qed
  have "lookup p old = None" using mirror_keeps [OF i1 m2] l1 gone by simp
  then have q1: "rs_queue s1 = rs_queue s" using mirror_absent [OF ip _ m1] by simp
  show ?thesis
  proof (cases "tm_clientId m = old")
    case True
    then have "rs_queue s' = rs_queue s1" using mirror_absent [OF i1 _ m2] l1 \<open>lookup p old = None\<close> by simp
    then show ?thesis using q1 by simp
  next
    case False
    obtain new where n: "rs_queue s' = rs_queue s1 @ new" "\<forall>p \<in> set new. \<exists>v b. po_mutation p = M_set (tm_clientId m) v b"
      using mirror_queue [OF m2] by blast
    have "effect un q R old = R old" if "q \<in> set new" for un q R
      using n(2) that False by (auto simp: effect_def unsealed_def mutation_effect_def split: option.splits sum.splits bool.splits)
    then have "fold (effect un) new R old = R old" for un R
      by (induction new arbitrary: R) auto
    then show ?thesis using n(1) q1 by auto
  qed
qed

end

text \<open>An evicted credential stays on the replica. When a full primary makes room for the replacement
  by deleting the old credential, nothing that is queued touches the old credential on the
  replica: it stays there as it was, active if it was active.\<close>

theorem eviction_not_mirrored:
  assumes "rs_replaceCredential S memory_tumbler_api old m now now' s = (s', Inr True)" and "keeps_maps (rs_primary s)"
    and "mem_lookup (rs_primary s') old = None"
  shows "\<exists>new. rs_queue s' = rs_queue s @ new \<and> (\<forall>un R. fold (effect un) new R old = R old)"
  using assms by (rule mem_map.eviction_queue)

section \<open>The drain loop ends\<close>

text \<open>The loop fed with the answers of successive pushes; between two of them it has slept.\<close>

fun drain_loop :: "bool list \<Rightarrow> 's ReplicatingTumblerStore \<Rightarrow> 's ReplicatingTumblerStore" where
  "drain_loop [] s = s"
| "drain_loop (ok # oks) s = drain_loop oks (drain_awake (drain_answered ok s))"

lemma drain_turn:
  assumes d: "drain_inv s" and fl: "rs_queue s \<noteq> [] \<Longrightarrow> rs_inflight s \<noteq> None"
  shows "drain_inv (drain_awake (drain_answered ok s))"
    "rs_queue (drain_awake (drain_answered ok s)) = (if ok then tl (rs_queue s) else rs_queue s)"
    "rs_queue (drain_awake (drain_answered ok s)) \<noteq> [] \<Longrightarrow> rs_inflight (drain_awake (drain_answered ok s)) \<noteq> None"
proof -
  have d1: "drain_inv (drain_answered ok s)" by (rule drain_answered_kept(1) [OF d])
  show "drain_inv (drain_awake (drain_answered ok s))" by (rule drain_awake_kept(1) [OF d1])
  show "rs_queue (drain_awake (drain_answered ok s)) = (if ok then tl (rs_queue s) else rs_queue s)"
  proof (cases "rs_inflight s")
    case None
    then have "rs_queue s = []" using fl by blast
    with None show ?thesis unfolding drain_awake_kept(2) [OF d1] by (simp add: drain_answered_def)
  next
    case (Some p)
    then show ?thesis
      unfolding drain_awake_kept(2) [OF d1] using drain_answered_kept(7) [OF d] drain_answered_kept(9) [OF d Some] by (cases ok) simp_all
  qed
  show "rs_queue (drain_awake (drain_answered ok s)) \<noteq> [] \<Longrightarrow> rs_inflight (drain_awake (drain_answered ok s)) \<noteq> None"
    using d1 by (auto simp: drain_awake_def drain_next_def drain_inv_def split: list.splits if_splits)
qed

lemma drain_loop_queue:
  assumes "drain_inv s" and "rs_queue s \<noteq> [] \<Longrightarrow> rs_inflight s \<noteq> None"
  shows "drain_inv (drain_loop oks s) \<and> rs_queue (drain_loop oks s) = drop (length (filter id oks)) (rs_queue s)"
  using assms
proof (induction oks arbitrary: s)
  case (Cons ok oks)
  note t = drain_turn [OF Cons.prems, where ok = ok]
  show ?case using Cons.IH [OF t(1) t(3)] t(2) by (simp add: drop_Suc)
qed simp

text \<open>C33: the drain loop ends. It makes progress exactly with the accepted pushes, in order, however many
  failures and retries lie between them; once as many pushes have been accepted as operations
  were queued, the queue is empty and the loop has stopped.\<close>

theorem drain_loop_terminates:
  assumes "drain_inv s" and "rs_queue s \<noteq> [] \<longrightarrow> rs_inflight s \<noteq> None"
  shows "rs_queue (drain_loop oks s) = drop (length (filter id oks)) (rs_queue s) \<and>
    (length (rs_queue s) \<le> length (filter id oks) \<longrightarrow> rs_queue (drain_loop oks s) = [] \<and> \<not> rs_draining (drain_loop oks s))"
  using drain_loop_queue [of s oks] assms by (auto simp: drain_inv_def)

section \<open>Witnesses\<close>

definition example_pair :: "(MemoryTumblerStore, MemoryTumblerStore) replicated_pair" where
  "example_pair = \<lparr>pr_source = example_source, pr_receiver = example_receiver\<rparr>"

lemma example_pair_fresh: "fresh_pair example_pair"
proof -
  have h: "hash_pattern example_secret" by code_simp
  have "map_image (Some plain_seal) (Some plain_seal) cid example_map = example_map" for cid
    using h by (simp add: map_image_def replica_secret_def plain_seal_def example_map_def)
  then show ?thesis
    by (simp add: fresh_pair_def example_pair_def example_source_def example_receiver_def example_unaged_def keeps_maps_def
        replica_image_def fun_eq_iff)
qed

lemma example_step: "pair_step null_sha zero_hmac memory_tumbler_api mem_lookup memory_tumbler_api
    example_pair (example_pair\<lparr>pr_source := example_written\<rparr>)"
proof (rule Write)
  show "source_write null_sha memory_tumbler_api mem_lookup (pr_source example_pair) example_written"
    using W_consume [OF example_write] by (simp add: example_pair_def)
qed

text \<open>The one operation is delivered; its answer arrives, or is lost.\<close>

definition example_end :: "bool \<Rightarrow> (MemoryTumblerStore, MemoryTumblerStore) replicated_pair" where
  "example_end ok = \<lparr>pr_source = drain_answered ok example_written, pr_receiver = example_ingested\<rparr>"

lemma example_delivered:
  "pair_step null_sha zero_hmac memory_tumbler_api mem_lookup memory_tumbler_api (example_pair\<lparr>pr_source := example_written\<rparr>) (example_end ok)"
proof (cases ok)
  case True
  show ?thesis
    using Answered [of "example_pair\<lparr>pr_source := example_written\<rparr>" example_op zero_hmac 0 example_envelope null_sha
        memory_tumbler_api 0 example_ingested "Inr (200, Inr ())" memory_tumbler_api mem_lookup] example_inflight(1) example_push example_ingest True
    by (simp add: example_pair_def example_end_def accepted_def)
next
  case False
  show ?thesis
    using Answer_lost [of "example_pair\<lparr>pr_source := example_written\<rparr>" example_op zero_hmac 0 example_envelope null_sha
        memory_tumbler_api 0 example_ingested "Inr (200, Inr ())" memory_tumbler_api mem_lookup] example_inflight(1) example_push example_ingest False
    by (simp add: example_pair_def example_end_def)
qed

lemma example_reachable:
  "(pair_step null_sha zero_hmac memory_tumbler_api mem_lookup memory_tumbler_api)\<^sup>*\<^sup>* example_pair (example_end ok)"
  using example_step example_delivered by (blast intro: rtranclp.intros)


lemma example_drain_inv: "drain_inv example_written"
proof -
  have "rs_draining example_written" by code_simp
  then show ?thesis using example_inflight by (simp add: drain_inv_def)
qed

theorem drain_loop_terminates_witness:
  "rs_queue (drain_loop [False, True] example_written) = [] \<and> \<not> rs_draining (drain_loop [False, True] example_written)"
  using drain_loop_terminates [OF example_drain_inv, of "[False, True]"] example_inflight by simp

lemma example_stalled: "stalled example_op (example_end False)"
proof -
  note k = drain_answered_kept(1,7) [OF example_drain_inv, where ok = False]
  have "rc_sequence (po_checkpoint example_op) \<le> 1" by code_simp
  moreover have "rc_sequence (rr_checkpoint example_ingested) = 1"
    using example_ingested_cp by (auto simp: rr_promotionCheckpoint_def split: if_splits option.splits)
  ultimately have "rc_sequence (po_checkpoint example_op) \<le> rc_sequence (rr_checkpoint example_ingested)" by simp
  then show ?thesis using k example_inflight(2) by (simp add: stalled_def example_end_def)
qed

theorem lost_answer_stops_stream_witness:
  "\<exists>y. (pair_step null_sha zero_hmac memory_tumbler_api mem_lookup memory_tumbler_api)\<^sup>*\<^sup>* example_pair y \<and>
     rs_promotionCheckpoint (pr_source y) = None \<and> rs_queue (pr_source y) \<noteq> []"
  using lost_answer_stops_stream [OF example_stalled rtranclp.rtrancl_refl] example_reachable [of False] by fastforce

theorem seal_failure_unnoticed_witness:
  "\<exists>s'. rs_commitValidation null_sha memory_tumbler_api ''tsk_0'' (example_commit 4) 0
       (example_source\<lparr>rs_secretPolicy := Some (\<lambda>_ _. Inl ''kms'')\<rparr>) = (s', Inl ''kms'') \<and> rs_promotionCheckpoint s' = Some example_checkpoint"
proof -
  let ?s = "example_source\<lparr>rs_secretPolicy := Some (\<lambda>_ _. Inl ''kms'')\<rparr>"
  note adm = example_commit_admissible
  have cp: "rs_promotionCheckpoint ?s = Some example_checkpoint" by (simp add: rs_promotionCheckpoint_def example_source_def)
  have k: "keeps_maps (rs_primary ?s)" "mem_lookup (rs_primary ?s) ''tsk_0'' = Some example_map"
    using example_good(1) by (simp_all add: example_source_def example_unaged_def)
  have f: "rs_secretPolicy ?s = Some (\<lambda>_ _. Inl ''kms'')" by simp
  from seal_failure_unnoticed [OF k adm f, of "''kms''" null_sha 0] cp show ?thesis by auto
qed

definition example_replaced :: "MemoryTumblerStore ReplicatingTumblerStore" where
  "example_replaced = fst (rs_replaceCredential null_sha memory_tumbler_api ''tsk_0'' (example_map\<lparr>tm_clientId := ''tsk_1''\<rparr>) 0 0 example_source)"

theorem eviction_not_mirrored_witness:
  "\<exists>new. rs_queue example_replaced = new \<and> length new = 1 \<and> (\<forall>R. fold (effect None) new R ''tsk_0'' = R ''tsk_0'')"
proof -
  have "snd (rs_replaceCredential null_sha memory_tumbler_api ''tsk_0'' (example_map\<lparr>tm_clientId := ''tsk_1''\<rparr>) 0 0 example_source) = Inr True"
    by code_simp
  then have r: "rs_replaceCredential null_sha memory_tumbler_api ''tsk_0'' (example_map\<lparr>tm_clientId := ''tsk_1''\<rparr>) 0 0 example_source = (example_replaced, Inr True)"
    by (simp add: example_replaced_def prod_eq_iff)
  have g: "mem_lookup (rs_primary example_replaced) ''tsk_0'' = None" by code_simp
  have l: "length (rs_queue example_replaced) = 1" by code_simp
  show ?thesis
    using eviction_not_mirrored [OF r _ g] example_good(1) l by (auto simp: example_source_def)
qed

end
