(* ===== verification/Promotion.thy ===== *)
theory Promotion
  imports Replica_Receiver
begin

text \<open>
  Leases and fencing epochs, \<^verbatim>\<open>packages/server/src/promotion.ts\<close>: the in-memory fencing store, the
  promotion controller of one node, the handling of a signed guard command, and the store wrapper
  that lets a mutation through only under a valid lease. Several nodes share one fencing store; the
  step relation lets any of them handle any message at any time. A command arrives as a \<open>jsval\<close>, since
  its signature covers every property it has; its numbers are checked to be safe integers before
  the controller uses them. The random command identifier and HMAC are parameters.
\<close>

section \<open>Commands and the fencing store\<close>

datatype NodeRole = Primary | Replica

datatype GuardCommandType = Activate | Promote | Demote

record 'n GuardCommand =
  gc_command :: GuardCommandType
  gc_commandId :: string
  gc_nodeId :: string
  gc_fenceEpoch :: 'n
  gc_issuedAt :: 'n
  gc_expiresAt :: 'n
  gc_by :: string
  gc_reason :: "string option"
  gc_requiredCheckpoint :: jsval

record FenceRecord =
  fr_nodeId :: string
  fr_fenceEpoch :: int
  fr_expiresAt :: int
  fr_commandId :: string
  fr_active :: bool

definition fence_claim :: "string \<Rightarrow> int \<Rightarrow> int \<Rightarrow> string \<Rightarrow> FenceRecord option \<Rightarrow> FenceRecord option \<times> bool" where
  "fence_claim nodeId fenceEpoch expiresAt commandId record =
     (case record of
        Some f \<Rightarrow> if fenceEpoch \<le> fr_fenceEpoch f then (record, False)
          else (Some \<lparr>fr_nodeId = nodeId, fr_fenceEpoch = fenceEpoch, fr_expiresAt = expiresAt, fr_commandId = commandId, fr_active = True\<rparr>, True)
      | None \<Rightarrow> (Some \<lparr>fr_nodeId = nodeId, fr_fenceEpoch = fenceEpoch, fr_expiresAt = expiresAt, fr_commandId = commandId, fr_active = True\<rparr>, True))"

definition fence_release :: "string \<Rightarrow> int \<Rightarrow> string \<Rightarrow> FenceRecord option \<Rightarrow> FenceRecord option \<times> bool" where
  "fence_release nodeId fenceEpoch commandId record =
     (case record of
        None \<Rightarrow> (record, False)
      | Some f \<Rightarrow>
          if \<not> fr_active f \<or> fr_nodeId f \<noteq> nodeId \<or> fr_fenceEpoch f \<noteq> fenceEpoch \<or> fr_commandId f \<noteq> commandId
          then (record, False) else (Some (f\<lparr>fr_active := False\<rparr>), True))"

section \<open>Signatures\<close>

definition MIN_GUARD_SECRET_BYTES :: nat where
  "MIN_GUARD_SECRET_BYTES = 32"

definition validSecret :: "string \<Rightarrow> bool" where
  "validSecret secret \<longleftrightarrow> MIN_GUARD_SECRET_BYTES \<le> length (utf8 secret)"

definition unsigned_command :: "jsval \<Rightarrow> jsval" where
  "unsigned_command v = js_remove ''signature'' v"

definition guard_signature :: "hmac_fn \<Rightarrow> string \<Rightarrow> jsval \<Rightarrow> string" where
  "guard_signature H secret v = digest_b64url (H (utf8 secret) (utf8 (canonical v)))"

definition signGuardCommand :: "hmac_fn \<Rightarrow> string \<Rightarrow> jsval \<Rightarrow> string \<Rightarrow> jsval res" where
  "signGuardCommand H uuid command guardSecret =
     (if \<not> validSecret guardSecret then Inl ''guard secret must contain at least 32 bytes''
      else let given = js_get command ''commandId'';
               withId = (if given = JUndefined \<or> given = JNull then js_put ''commandId'' (JString uuid) command else command)
           in Inr (js_put ''signature'' (JString (guard_signature H guardSecret withId)) withId))"

text \<open>Decoding, re-encoding and the constant-time comparison accept exactly the base64url text of the
  expected digest.\<close>

definition verifyGuardCommandSignature :: "hmac_fn \<Rightarrow> jsval \<Rightarrow> string \<Rightarrow> bool" where
  "verifyGuardCommandSignature H command guardSecret \<longleftrightarrow>
     validSecret guardSecret \<and> str_sat signature_pattern (js_get command ''signature'') \<and>
     js_get command ''signature'' = JString (guard_signature H guardSecret (unsigned_command command))"

text \<open>The shape test, and the command read off a value that passes it.\<close>

definition js_command_type :: "jsval \<Rightarrow> GuardCommandType option" where
  "js_command_type v =
     (if v = JString ''activate'' then Some Activate else if v = JString ''promote'' then Some Promote
      else if v = JString ''demote'' then Some Demote else None)"

definition is_string :: "jsval \<Rightarrow> bool" where
  "is_string v = (case v of JString _ \<Rightarrow> True | _ \<Rightarrow> False)"

definition is_number :: "jsval \<Rightarrow> bool" where
  "is_number v = (case v of JNum _ \<Rightarrow> True | _ \<Rightarrow> False)"

definition isGuardCommand :: "jsval \<Rightarrow> bool" where
  "isGuardCommand v \<longleftrightarrow>
     is_object v \<and> js_command_type (js_get v ''command'') \<noteq> None \<and>
     is_string (js_get v ''commandId'') \<and> is_string (js_get v ''nodeId'') \<and> is_string (js_get v ''by'') \<and>
     is_string (js_get v ''signature'') \<and> is_number (js_get v ''fenceEpoch'') \<and> is_number (js_get v ''issuedAt'') \<and>
     is_number (js_get v ''expiresAt'')"

definition the_num :: "jsval \<Rightarrow> jsnum" where
  "the_num v = (case v of JNum n \<Rightarrow> n | _ \<Rightarrow> NNaN)"

definition js_command :: "jsval \<Rightarrow> jsnum GuardCommand" where
  "js_command v =
     \<lparr>gc_command = the (js_command_type (js_get v ''command'')), gc_commandId = the_str (js_get v ''commandId''),
      gc_nodeId = the_str (js_get v ''nodeId''), gc_fenceEpoch = the_num (js_get v ''fenceEpoch''),
      gc_issuedAt = the_num (js_get v ''issuedAt''), gc_expiresAt = the_num (js_get v ''expiresAt''),
      gc_by = the_str (js_get v ''by''), gc_reason = js_str (js_get v ''reason''),
      gc_requiredCheckpoint = js_get v ''requiredCheckpoint''\<rparr>"

text \<open>The command with its numbers as integers, once they have been checked.\<close>

definition checked_command :: "jsnum GuardCommand \<Rightarrow> int GuardCommand" where
  "checked_command c =
     \<lparr>gc_command = gc_command c, gc_commandId = gc_commandId c, gc_nodeId = gc_nodeId c,
      gc_fenceEpoch = num_floor (gc_fenceEpoch c), gc_issuedAt = num_floor (gc_issuedAt c), gc_expiresAt = num_floor (gc_expiresAt c),
      gc_by = gc_by c, gc_reason = gc_reason c, gc_requiredCheckpoint = gc_requiredCheckpoint c\<rparr>"

section \<open>The controller\<close>

definition sameCheckpoint :: "ReplicationCheckpoint \<Rightarrow> jsval \<Rightarrow> bool" where
  "sameCheckpoint left right \<longleftrightarrow>
     js_get right ''streamId'' = JString (rc_streamId left) \<and> js_get right ''epoch'' = jint (rc_epoch left) \<and>
     js_get right ''sequence'' = jint (rc_sequence left) \<and> js_get right ''headHash'' = JString (rc_headHash left)"

record PromotionController =
  pc_role :: NodeRole
  pc_nodeId :: string
  pc_maxCommandAgeMs :: int
  pc_maxLeaseMs :: int
  pc_lease :: "int GuardCommand option"

definition new_PromotionController :: "NodeRole \<Rightarrow> string \<Rightarrow> int option \<Rightarrow> int option \<Rightarrow> PromotionController res" where
  "new_PromotionController role nodeId maxCommandAgeMs maxLeaseMs =
     (if nodeId = [] then Inl ''nodeId is required''
      else Inr \<lparr>pc_role = role, pc_nodeId = nodeId, pc_maxCommandAgeMs = nullish maxCommandAgeMs 60000,
                pc_maxLeaseMs = nullish maxLeaseMs (5 * 60000), pc_lease = None\<rparr>)"

definition js_truthy :: "jsval \<Rightarrow> bool" where
  "js_truthy v = (case v of JUndefined \<Rightarrow> False | JNull \<Rightarrow> False | JBool b \<Rightarrow> b | JNum n \<Rightarrow> n \<noteq> NInt 0 \<and> n \<noteq> NNaN | JString s \<Rightarrow> s \<noteq> [] | _ \<Rightarrow> True)"

text \<open>\<open>here\<close> is what \<^verbatim>\<open>replicaCheckpoint\<close> returns, empty also when no such function was given.\<close>

definition pc_activate ::
  "ReplicationCheckpoint option \<Rightarrow> int GuardCommand \<Rightarrow> PromotionController \<Rightarrow> FenceRecord option \<Rightarrow>
   PromotionController \<times> FenceRecord option \<times> unit res" where
  "pc_activate here command c fence =
     (if gc_nodeId command \<noteq> pc_nodeId c then (c, fence, Inl ''wrong_node'')
      else if pc_role c = Primary \<and> gc_command command \<noteq> Activate then (c, fence, Inl ''wrong_command_for_primary'')
      else if pc_role c = Replica \<and> gc_command command \<noteq> Promote then (c, fence, Inl ''wrong_command_for_replica'')
      else if pc_role c = Replica \<and>
        (case here of None \<Rightarrow> True
         | Some l \<Rightarrow> \<not> js_truthy (gc_requiredCheckpoint command) \<or> rc_sequence l < 1 \<or> \<not> sameCheckpoint l (gc_requiredCheckpoint command))
      then (c, fence, Inl ''replica_not_converged'')
      else (case fence_claim (pc_nodeId c) (gc_fenceEpoch command) (gc_expiresAt command) (gc_commandId command) fence of
         (fence', claimed) \<Rightarrow>
           if \<not> claimed then (c, fence', Inl ''fence_epoch_not_monotonic'')
           else (c\<lparr>pc_lease := Some command\<rparr>, fence', Inr ())))"

definition pc_demote ::
  "int GuardCommand \<Rightarrow> PromotionController \<Rightarrow> FenceRecord option \<Rightarrow> PromotionController \<times> FenceRecord option \<times> unit res" where
  "pc_demote command c fence =
     (if gc_command command \<noteq> Demote \<or> gc_nodeId command \<noteq> pc_nodeId c then (c, fence, Inl ''invalid_demotion'')
      else case pc_lease c of
        None \<Rightarrow> (c, fence, Inl ''lease_mismatch'')
      | Some l \<Rightarrow>
          if gc_fenceEpoch l \<noteq> gc_fenceEpoch command then (c, fence, Inl ''lease_mismatch'')
          else (case fence_release (pc_nodeId c) (gc_fenceEpoch l) (gc_commandId l) fence of
            (fence', released) \<Rightarrow>
              if \<not> released then (c, fence', Inl ''fence_release_failed'')
              else (c\<lparr>pc_lease := None\<rparr>, fence', Inr ())))"

text \<open>The clock is read before and after the fencing store answers; a failing store means no.\<close>

definition isWritable :: "int \<Rightarrow> int \<Rightarrow> FenceRecord option res \<Rightarrow> PromotionController \<Rightarrow> bool" where
  "isWritable now now' current c =
     (case pc_lease c of
        None \<Rightarrow> False
      | Some l \<Rightarrow>
          if gc_expiresAt l \<le> now then False
          else (case current of
             Inl _ \<Rightarrow> False
           | Inr None \<Rightarrow> False
           | Inr (Some f) \<Rightarrow>
               fr_active f \<and> fr_nodeId f = pc_nodeId c \<and> fr_fenceEpoch f = gc_fenceEpoch l \<and> fr_commandId f = gc_commandId l \<and>
               fr_expiresAt f = gc_expiresAt l \<and> now' < fr_expiresAt f))"

record PromotionSnapshot =
  ps_role :: NodeRole
  ps_nodeId :: string
  ps_writable :: bool
  ps_fenceEpoch :: "int option"
  ps_leaseExpiresAt :: "int option"
  ps_activatedBy :: "string option"
  ps_reason :: "string option"

definition snapshot :: "int \<Rightarrow> int \<Rightarrow> FenceRecord option res \<Rightarrow> PromotionController \<Rightarrow> PromotionSnapshot" where
  "snapshot now now' current c =
     \<lparr>ps_role = pc_role c, ps_nodeId = pc_nodeId c, ps_writable = isWritable now now' current c,
      ps_fenceEpoch = map_option gc_fenceEpoch (pc_lease c), ps_leaseExpiresAt = map_option gc_expiresAt (pc_lease c),
      ps_activatedBy = map_option gc_by (pc_lease c), ps_reason = Option.bind (pc_lease c) gc_reason\<rparr>"

definition validateFreshness :: "int \<Rightarrow> jsnum GuardCommand \<Rightarrow> PromotionController \<Rightarrow> string option" where
  "validateFreshness now command c =
     (let issuedAt = num_floor (gc_issuedAt command); expiresAt = num_floor (gc_expiresAt command) in
      if \<not> Number_isSafeInteger (gc_fenceEpoch command) \<or> num_lt (gc_fenceEpoch command) 1 then Some ''invalid_fence_epoch''
      else if \<not> Number_isSafeInteger (gc_issuedAt command) \<or> \<not> Number_isSafeInteger (gc_expiresAt command) then Some ''invalid_time''
      else if now < issuedAt \<or> pc_maxCommandAgeMs c < now - issuedAt then Some ''command_stale''
      else if expiresAt \<le> now \<or> pc_maxLeaseMs c < expiresAt - issuedAt then Some ''invalid_lease_window''
      else if gc_commandId command = [] \<or> gc_by command = [] \<or> gc_nodeId command = [] then Some ''invalid_identity''
      else None)"

definition assertWritable :: "int \<Rightarrow> int \<Rightarrow> FenceRecord option res \<Rightarrow> PromotionController \<Rightarrow> (nat \<times> string) + int" where
  "assertWritable now now' current c =
     (let s = snapshot now now' current c in
      case ps_fenceEpoch s of
        Some e \<Rightarrow> if ps_writable s then Inr e else Inl (503, ''writer_lease_missing_stale_or_fenced'')
      | None \<Rightarrow> Inl (503, ''writer_lease_missing_stale_or_fenced''))"

definition handlePromotionCommand ::
  "hmac_fn \<Rightarrow> string \<Rightarrow> ReplicationCheckpoint option \<Rightarrow> int \<Rightarrow> jsval \<Rightarrow> PromotionController \<Rightarrow> FenceRecord option \<Rightarrow>
   PromotionController \<times> FenceRecord option \<times> nat \<times> unit res" where
  "handlePromotionCommand H guardSecret here now body c fence =
     (if \<not> isGuardCommand body then (c, fence, 400, Inl ''invalid_body'')
      else if \<not> verifyGuardCommandSignature H body guardSecret then (c, fence, 401, Inl ''signature_invalid'')
      else case validateFreshness now (js_command body) c of
        Some e \<Rightarrow> (c, fence, 401, Inl e)
      | None \<Rightarrow>
          let command = checked_command (js_command body);
              (c', fence', result) = (if gc_command command = Demote then pc_demote command c fence else pc_activate here command c fence)
          in (c', fence', case result of Inl _ \<Rightarrow> 409 | Inr _ \<Rightarrow> 200, result))"

section \<open>The fenced store\<close>

definition WRITER_FENCED :: string where
  "WRITER_FENCED = ''TSK_WRITER_FENCED''"

text \<open>\<open>ok\<close> is the outcome of the lease check made immediately before the delegation.\<close>

definition requireWritable :: "bool \<Rightarrow> ('s \<Rightarrow> 's \<times> 'a res) \<Rightarrow> 's \<Rightarrow> 's \<times> 'a res" where
  "requireWritable ok f st = (if ok then f st else (st, Inl WRITER_FENCED))"

definition fenced_api :: "bool \<Rightarrow> 's tumbler_store_api \<Rightarrow> 's tumbler_store_api" where
  "fenced_api ok inner =
     \<lparr>api_get = api_get inner,
      api_set = (\<lambda>cid m. requireWritable ok (api_set inner cid m)),
      api_commit = (\<lambda>cid input. requireWritable ok (api_commit inner cid input)),
      api_delete = (\<lambda>cid. requireWritable ok (api_delete inner cid)),
      api_list = api_list inner,
      api_replace = (\<lambda>old m. requireWritable ok (api_replace inner old m)),
      api_update = (\<lambda>cid us. requireWritable ok (api_update inner cid us)),
      api_consume = Some (\<lambda>cid sid c. requireWritable ok
        (\<lambda>st. case api_consume inner of None \<Rightarrow> (st, Inr False) | Some f \<Rightarrow> f cid sid c st))\<rparr>"

section \<open>Signatures are accepted\<close>

lemma signature_pattern_b64url [simp]: "signature_pattern (digest_b64url d)"
  using b64url_group_lt by (auto simp: signature_pattern_def digest_b64url_def list_all_iff)

lemma omap_set_absent: "k \<notin> fst ` set m \<Longrightarrow> omap_set k v m = m @ [(k, v)]"
  by (induction m) auto

lemma js_sign:
  assumes "v = JObject ps" and "''signature'' \<notin> fst ` set ps"
  shows "unsigned_command (js_put ''signature'' x v) = v" "js_get (js_put ''signature'' x v) ''signature'' = x"
proof -
  have "filter (\<lambda>p. fst p \<noteq> ''signature'') ps = ps" using assms(2) by (intro filter_True) force
  then show "unsigned_command (js_put ''signature'' x v) = v"
    using assms by (simp add: unsigned_command_def js_remove_def js_put_def omap_set_absent)
  show "js_get (js_put ''signature'' x v) ''signature'' = x"
    using assms(1) by (simp add: js_put_def js_get.simps(1))
qed

text \<open>What the guard signs, the node accepts: a signed command object verifies under the same
  secret, whatever its properties, also when the command identifier was filled in.\<close>

theorem guard_command_roundtrip:
  assumes "signGuardCommand H uuid (JObject ps) secret = Inr v" and "''signature'' \<notin> fst ` set ps"
  shows "verifyGuardCommandSignature H v secret"
proof -
  obtain qs where v: "v = js_put ''signature'' (JString (guard_signature H secret (JObject qs))) (JObject qs)"
    and q: "''signature'' \<notin> fst ` set qs" and s: "validSecret secret"
  proof -
    define qs where "qs = (if js_get (JObject ps) ''commandId'' = JUndefined \<or> js_get (JObject ps) ''commandId'' = JNull
        then omap_set ''commandId'' (JString uuid) ps else ps)"
    have "fst ` set (omap_set ''commandId'' (JString uuid) ps) \<subseteq> insert ''commandId'' (fst ` set ps)"
      by (simp add: dom_map_of_conv_image_fst [symmetric])
    then have "''signature'' \<notin> fst ` set qs" using assms(2) by (auto simp: qs_def)
    moreover have "v = js_put ''signature'' (JString (guard_signature H secret (JObject qs))) (JObject qs)" "validSecret secret"
      using assms(1) by (auto simp: signGuardCommand_def qs_def js_put_def Let_def split: if_splits)
    ultimately show thesis using that by blast
  qed
  note j = js_sign [OF refl q]
  show ?thesis unfolding v verifyGuardCommandSignature_def j using s by (simp add: str_sat_def guard_signature_def)
qed

section \<open>Commands and the fence\<close>

lemma claim_cases:
  assumes "fence_claim n e x i f = (f', b)"
  shows "(b \<and> f' = Some \<lparr>fr_nodeId = n, fr_fenceEpoch = e, fr_expiresAt = x, fr_commandId = i, fr_active = True\<rparr> \<and>
      (\<forall>g. f = Some g \<longrightarrow> fr_fenceEpoch g < e)) \<or> (\<not> b \<and> f' = f)"
  using assms by (auto simp: fence_claim_def split: option.splits if_splits)

lemma release_cases:
  assumes "fence_release n e i f = (f', b)"
  shows "f' = f \<or> (\<exists>g. f = Some g \<and> f' = Some (g\<lparr>fr_active := False\<rparr>))"
  using assms by (auto simp: fence_release_def split: option.splits if_splits)

lemma activate_cases:
  assumes "pc_activate here cmd c f = (c', f', r)"
  shows "(r \<noteq> Inr () \<and> c' = c \<and> f' = f) \<or>
    (r = Inr () \<and> c' = c\<lparr>pc_lease := Some cmd\<rparr> \<and> gc_nodeId cmd = pc_nodeId c \<and>
     (pc_role c = Replica \<longrightarrow> (\<exists>l. here = Some l \<and> 1 \<le> rc_sequence l \<and> sameCheckpoint l (gc_requiredCheckpoint cmd))) \<and>
     f' = Some \<lparr>fr_nodeId = pc_nodeId c, fr_fenceEpoch = gc_fenceEpoch cmd, fr_expiresAt = gc_expiresAt cmd, fr_commandId = gc_commandId cmd, fr_active = True\<rparr> \<and>
     (\<forall>g. f = Some g \<longrightarrow> fr_fenceEpoch g < gc_fenceEpoch cmd))"
  using assms claim_cases [of "pc_nodeId c" "gc_fenceEpoch cmd" "gc_expiresAt cmd" "gc_commandId cmd" f]
  by (auto simp: pc_activate_def split: if_splits prod.splits option.splits)

lemma demote_cases:
  assumes "pc_demote cmd c f = (c', f', r)"
  shows "(c' = c \<or> c' = c\<lparr>pc_lease := None\<rparr>) \<and> (f' = f \<or> (\<exists>g. f = Some g \<and> f' = Some (g\<lparr>fr_active := False\<rparr>)))"
  using assms release_cases
  by (fastforce simp: pc_demote_def split: if_splits prod.splits option.splits)

lemma handle_cases:
  assumes "handlePromotionCommand H secret here now body c f = (c', f', status, r)"
  obtains (refused) "c' = c" "f' = f" "status \<noteq> 200"
  | (demoted) "c' = c \<or> c' = c\<lparr>pc_lease := None\<rparr>" "f' = f \<or> (\<exists>g. f = Some g \<and> f' = Some (g\<lparr>fr_active := False\<rparr>))"
      "gc_command (js_command body) = Demote"
  | (activated) "isGuardCommand body" "verifyGuardCommandSignature H body secret" "validateFreshness now (js_command body) c = None"
      "pc_activate here (checked_command (js_command body)) c f = (c', f', Inr ())" "gc_command (js_command body) \<noteq> Demote" "status = 200"
proof (cases "isGuardCommand body \<and> verifyGuardCommandSignature H body secret \<and> validateFreshness now (js_command body) c = None")
  case False
  show ?thesis
    by (rule refused) (use assms False in \<open>auto simp: handlePromotionCommand_def split: if_splits option.splits\<close>)
next
  case True
  let ?cmd = "checked_command (js_command body)"
  show ?thesis
  proof (cases "gc_command ?cmd = Demote")
    case demote: True
    then have "pc_demote ?cmd c f = (c', f', r)"
      using assms True by (auto simp: handlePromotionCommand_def Let_def split: prod.splits)
    from demoted demote_cases [OF this] demote show ?thesis by (simp add: checked_command_def)
  next
    case act: False
    then have a: "pc_activate here ?cmd c f = (c', f', r)" and st: "status = (case r of Inl _ \<Rightarrow> 409 | Inr _ \<Rightarrow> 200)"
      using assms True by (auto simp: handlePromotionCommand_def Let_def split: prod.splits)
    show ?thesis
    proof (cases "r = Inr ()")
      case ok: True
      show ?thesis by (rule activated) (use True a act st ok in \<open>simp_all add: checked_command_def\<close>)
    next
      case False
      show ?thesis by (rule refused) (use activate_cases [OF a] False st in \<open>auto split: sum.splits\<close>)
    qed
  qed
qed

text \<open>A replica is promoted only when it has converged. A replica that answers a command with success
  and holds a new lease had a signed and fresh command whose required checkpoint is its own,
  non-empty one, and the fence moved to a strictly higher epoch in its name.\<close>

lemma promotion_requires_convergence:
  assumes "handlePromotionCommand H secret here now body c f = (c', f', 200, r)" and "pc_role c = Replica"
    and "gc_command (js_command body) \<noteq> Demote"
  shows "verifyGuardCommandSignature H body secret \<and> validateFreshness now (js_command body) c = None \<and>
    (\<exists>l. here = Some l \<and> 1 \<le> rc_sequence l \<and> sameCheckpoint l (js_get body ''requiredCheckpoint'')) \<and>
    (\<exists>g. f' = Some g \<and> fr_active g \<and> fr_nodeId g = pc_nodeId c \<and> (\<forall>h. f = Some h \<longrightarrow> fr_fenceEpoch h < fr_fenceEpoch g))"
  using assms(1)
proof (cases rule: handle_cases)
  case activated
  then show ?thesis
    using activate_cases [OF activated(4)] assms(2) by (auto simp: checked_command_def js_command_def)
qed (use assms(3) in simp_all)

section \<open>One writer at a time\<close>

record fence_system =
  fs_fence :: "FenceRecord option"
  fs_nodes :: "string \<Rightarrow> PromotionController"

inductive guard_step :: "hmac_fn \<Rightarrow> string \<Rightarrow> fence_system \<Rightarrow> fence_system \<Rightarrow> bool" for H secret where
  Handle: "handlePromotionCommand H secret here now body (fs_nodes x n) (fs_fence x) = (c', f', status, r) \<Longrightarrow>
    guard_step H secret x \<lparr>fs_fence = f', fs_nodes = (fs_nodes x)(n := c')\<rparr>"

inductive_cases guard_stepE: "guard_step H secret x y"

definition fence_epoch :: "FenceRecord option \<Rightarrow> int" where
  "fence_epoch f = (case f of None \<Rightarrow> 0 | Some g \<Rightarrow> fr_fenceEpoch g)"

lemma validateFreshness_epoch: "validateFreshness now cmd c = None \<Longrightarrow> 1 \<le> num_floor (gc_fenceEpoch cmd)"
  by (auto simp: validateFreshness_def Let_def jsnum_simps split: if_splits)

lemma guard_step_epoch:
  assumes "guard_step H secret x y"
  shows "fence_epoch (fs_fence x) \<le> fence_epoch (fs_fence y)"
proof -
  obtain here now body n c' f' status r where h: "handlePromotionCommand H secret here now body (fs_nodes x n) (fs_fence x) = (c', f', status, r)"
    and y: "y = \<lparr>fs_fence = f', fs_nodes = (fs_nodes x)(n := c')\<rparr>"
    using assms by (rule guard_stepE)
  from h show ?thesis
  proof (cases rule: handle_cases)
    case activated
    then show ?thesis using activate_cases [OF activated(4)] validateFreshness_epoch [OF activated(3)] y
      by (auto simp: fence_epoch_def checked_command_def split: option.splits)
  qed (auto simp: y fence_epoch_def)
qed

lemma guard_steps_epoch: "(guard_step H secret)\<^sup>*\<^sup>* x y \<Longrightarrow> fence_epoch (fs_fence x) \<le> fence_epoch (fs_fence y)"
  by (induction rule: rtranclp_induct) (auto dest: guard_step_epoch)

text \<open>The nodes keep their identity and their configuration.\<close>

lemma guard_step_node: "guard_step H secret x y \<Longrightarrow> pc_nodeId (fs_nodes y n) = pc_nodeId (fs_nodes x n)"
proof -
  assume "guard_step H secret x y"
  then obtain here now body k c' f' status r where h: "handlePromotionCommand H secret here now body (fs_nodes x k) (fs_fence x) = (c', f', status, r)"
    and y: "y = \<lparr>fs_fence = f', fs_nodes = (fs_nodes x)(k := c')\<rparr>" by (rule guard_stepE)
  from h have "pc_nodeId c' = pc_nodeId (fs_nodes x k)"
    by (cases rule: handle_cases) (auto dest: activate_cases)
  then show ?thesis by (simp add: y)
qed

lemma isWritable_fence:
  assumes "isWritable now now' (Inr f) c" and "pc_lease c = Some l"
  shows "\<exists>g. f = Some g \<and> fr_active g \<and> fr_nodeId g = pc_nodeId c \<and> fr_fenceEpoch g = gc_fenceEpoch l \<and> now' < gc_expiresAt l"
  using assms by (auto simp: isWritable_def split: option.splits if_splits)

text \<open>C9: the fence admits one writer, and never an outdated one. Whatever commands the nodes handle after
  some state, a node that then passes the write check holds a lease at least as recent as every
  epoch granted before; a node fenced out by a later grant stays out. Two nodes that pass the
  check at the same fence are the same node.\<close>

theorem single_writer:
  assumes "(guard_step H secret)\<^sup>*\<^sup>* x y" and "isWritable now now' (Inr (fs_fence y)) (fs_nodes y n)"
    and "pc_lease (fs_nodes y n) = Some l"
  shows "fence_epoch (fs_fence x) \<le> gc_fenceEpoch l \<and>
    (\<forall>k t t'. isWritable t t' (Inr (fs_fence y)) (fs_nodes y k) \<longrightarrow> pc_nodeId (fs_nodes y k) = pc_nodeId (fs_nodes y n))"
proof -
  obtain g where g: "fs_fence y = Some g" "fr_fenceEpoch g = gc_fenceEpoch l" "fr_nodeId g = pc_nodeId (fs_nodes y n)"
    using isWritable_fence [OF assms(2,3)] by blast
  have "pc_nodeId (fs_nodes y k) = pc_nodeId (fs_nodes y n)" if w: "isWritable t t' (Inr (fs_fence y)) (fs_nodes y k)" for k t t'
  proof -
    obtain l' where "pc_lease (fs_nodes y k) = Some l'" using w by (cases "pc_lease (fs_nodes y k)") (auto simp: isWritable_def)
    from isWritable_fence [OF w this] g show ?thesis by simp
  qed
  then show ?thesis using guard_steps_epoch [OF assms(1)] g by (simp add: fence_epoch_def)
qed

section \<open>A fenced node changes nothing\<close>

text \<open>The part of the wrapped store the request handler uses.\<close>

definition request_api :: "'s tumbler_store_api \<Rightarrow> 's store_api" where
  "request_api api = \<lparr>api_get = api_get api, api_set = api_set api, api_commit = api_commit api\<rparr>"

definition lease_ok :: "int \<Rightarrow> int \<Rightarrow> FenceRecord option res \<Rightarrow> PromotionController \<Rightarrow> bool" where
  "lease_ok now now' current c = (case assertWritable now now' current c of Inr _ \<Rightarrow> True | Inl _ \<Rightarrow> False)"

lemma lease_ok_iff: "lease_ok now now' current c = isWritable now now' current c"
  by (cases "pc_lease c") (auto simp: lease_ok_def assertWritable_def snapshot_def isWritable_def Let_def)

interpretation fenced: tumbler_store "request_api (fenced_api ok memory_tumbler_api)" "\<lambda>st. map_of (ms_maps st)" for ok
proof
  show "api_get (request_api (fenced_api ok memory_tumbler_api)) cid now s = (s', Inr (Some m)) \<Longrightarrow>
      map_of (ms_maps s) cid = Some m \<and> map_of (ms_maps s') = map_of (ms_maps s)" for cid now s s' m
    using memst.get_Some [of cid now s s' m] by (simp add: request_api_def fenced_api_def memory_tumbler_api_def memory_api_def)
  show "api_commit (request_api (fenced_api ok memory_tumbler_api)) cid input s = (s', Inr r) \<Longrightarrow> cr_ok r \<Longrightarrow>
      \<exists>m m'. map_of (ms_maps s) cid = Some m \<and> commitValidationToMap m input = (m', Inr r) \<and> map_of (ms_maps s') = (map_of (ms_maps s))(cid \<mapsto> m')"
    for cid input s s' r
    using memst.commit_Some [of cid input s s' r]
    by (auto simp: request_api_def fenced_api_def memory_tumbler_api_def memory_api_def requireWritable_def split: if_splits)
qed

lemma fenced_mutations:
  "api_set (fenced_api False inner) cid m s = (s, Inl WRITER_FENCED)"
  "api_commit (fenced_api False inner) cid input s = (s, Inl WRITER_FENCED)"
  "api_delete (fenced_api False inner) cid s = (s, Inl WRITER_FENCED)"
  "api_replace (fenced_api False inner) old m s = (s, Inl WRITER_FENCED)"
  "api_update (fenced_api False inner) cid us s = (s, Inl WRITER_FENCED)"
  "api_consume (fenced_api False inner) = Some f \<Longrightarrow> f cid sid c s = (s, Inl WRITER_FENCED)"
  by (auto simp: fenced_api_def requireWritable_def)

text \<open>C14: a node without a valid lease serves no request. When the write check fails, because the lease
  is missing or expired, the fence has moved on or cannot be read, no request is answered with
  success through the fenced store, and no stored credential is written.\<close>

theorem fenced_node_accepts_nothing:
  assumes "\<not> isWritable now now' current c"
    and "verifyTSKRequest (request_api (fenced_api (lease_ok now now' current c) memory_tumbler_api)) H cfg ip t req s an = (s', an', out)"
  shows "(\<forall>r. out = Inr r \<longrightarrow> \<not> tv_ok r) \<and> (\<forall>cid m. map_of (ms_maps s') cid = Some m \<longrightarrow> map_of (ms_maps s) cid = Some m)"
proof -
  let ?api = "request_api (fenced_api False memory_tumbler_api)"
  have v: "verifyTSKRequest ?api H cfg ip t req s an = (s', an', out)" using assms by (simp add: lease_ok_iff)
  have kept: "ms_get cid n s = (s1, g) \<Longrightarrow> map_of (ms_maps s1) x = Some m \<Longrightarrow> map_of (ms_maps s) x = Some m" for cid n s1 g x m
    by (auto simp: ms_get_def split: option.splits if_splits)
  have fin: "verify_finish ?api cid nx s1 = (s2, r) \<Longrightarrow> s2 = s1" for cid nx s1 s2 r
    by (auto simp: verify_finish_def request_api_def fenced_mutations split: verify_next.splits)
  have writes: "map_of (ms_maps s) x = Some m" if m: "map_of (ms_maps s') x = Some m" for x m
  proof (cases "verify_parse req")
    case (Inl r)
    then show ?thesis using v m by (simp add: verifyTSKRequest_def)
  next
    case (Inr ck)
    obtain s1 g where g: "ms_get (fst ck) (vt_get t) s = (s1, g)" by force
    have ag: "api_get ?api (fst ck) (vt_get t) s = (s1, Inr g)"
      using g by (simp add: request_api_def fenced_api_def memory_tumbler_api_def)
    have "s' = s1"
      using v Inr ag fin by (cases ck) (auto simp: verifyTSKRequest_def split: sum.splits prod.splits)
    then show ?thesis using kept [OF g] m by simp
  qed
  have "\<not> tv_ok r" if "out = Inr r" for r
  proof
    assume ok: "tv_ok r"
    have v': "verifyTSKRequest ?api H cfg ip t req s an = (s', an', Inr r)" using v that by simp
    obtain cid m m' inp where l: "map_of (ms_maps s') = (map_of (ms_maps s))(cid \<mapsto> m')" "map_of (ms_maps s) cid = Some m"
      and adm: "commit_admissible m inp" and m': "fst (commitValidationToMap m inp) = m'"
      by (rule fenced.verify_ok [OF v' ok])
    have "m' = m" using writes [of cid m'] l by simp
    moreover obtain m2 r2 where "commitValidationToMap m inp = (m2, Inr r2)" "tm_requestCount m2 = Some (nullish (tm_requestCount m) 0 + 1)"
      by (rule commit_ok [OF adm])
    ultimately show False using m' by (cases "tm_requestCount m") auto
  qed
  with writes show ?thesis by blast
qed

section \<open>Witnesses\<close>

definition example_guard_secret :: string where
  "example_guard_secret = replicate 32 CHR ''g''"

definition checkpoint_js :: "ReplicationCheckpoint \<Rightarrow> jsval" where
  "checkpoint_js cp = JObject [(''streamId'', JString (rc_streamId cp)), (''epoch'', jint (rc_epoch cp)),
     (''sequence'', jint (rc_sequence cp)), (''headHash'', JString (rc_headHash cp))]"

definition example_grant :: "(string \<times> jsval) list" where
  "example_grant =
     [(''command'', JString ''promote''), (''nodeId'', JString ''b''), (''fenceEpoch'', jint 2), (''issuedAt'', jint 0),
      (''expiresAt'', jint 1000), (''by'', JString ''op''), (''requiredCheckpoint'', checkpoint_js (example_checkpoint\<lparr>rc_sequence := 1\<rparr>))]"

definition example_command :: jsval where
  "example_command = (case signGuardCommand zero_hmac ''id'' (JObject example_grant) example_guard_secret of Inr v \<Rightarrow> v | Inl _ \<Rightarrow> JNull)"

definition example_node :: "NodeRole \<Rightarrow> string \<Rightarrow> PromotionController" where
  "example_node role n = \<lparr>pc_role = role, pc_nodeId = n, pc_maxCommandAgeMs = 60000, pc_maxLeaseMs = 300000, pc_lease = None\<rparr>"

lemma example_signed: "signGuardCommand zero_hmac ''id'' (JObject example_grant) example_guard_secret = Inr example_command"
  by code_simp

theorem guard_command_roundtrip_witness: "verifyGuardCommandSignature zero_hmac example_command example_guard_secret"
  by (rule guard_command_roundtrip [OF example_signed]) (simp add: example_grant_def)

definition example_handled :: "PromotionController \<times> FenceRecord option \<times> nat \<times> unit res" where
  "example_handled = handlePromotionCommand zero_hmac example_guard_secret (Some (example_checkpoint\<lparr>rc_sequence := 1\<rparr>)) 10 example_command
     (example_node Replica ''b'') None"

lemma example_status: "fst (snd (snd example_handled)) = 200"
  by code_simp

lemma example_handled_eq:
  "handlePromotionCommand zero_hmac example_guard_secret (Some (example_checkpoint\<lparr>rc_sequence := 1\<rparr>)) 10 example_command
     (example_node Replica ''b'') None = (fst example_handled, fst (snd example_handled), 200, snd (snd (snd example_handled)))"
  using example_status by (simp add: example_handled_def prod_eq_iff)

lemma promotion_requires_convergence_witness:
  "\<exists>g. fst (snd example_handled) = Some g \<and> fr_active g \<and> fr_nodeId g = ''b''"
proof -
  have "gc_command (js_command example_command) \<noteq> Demote" by code_simp
  from promotion_requires_convergence [OF example_handled_eq _ this] show ?thesis by (auto simp: example_node_def)
qed

theorem single_writer_witness:
  "\<exists>y l. (guard_step zero_hmac example_guard_secret)\<^sup>*\<^sup>* \<lparr>fs_fence = None, fs_nodes = example_node Replica\<rparr> y \<and>
     isWritable 20 21 (Inr (fs_fence y)) (fs_nodes y ''b'') \<and> pc_lease (fs_nodes y ''b'') = Some l \<and> 0 \<le> gc_fenceEpoch l"
proof -
  let ?x = "\<lparr>fs_fence = None, fs_nodes = example_node Replica\<rparr>"
  let ?y = "\<lparr>fs_fence = fst (snd example_handled), fs_nodes = (fs_nodes ?x)(''b'' := fst example_handled)\<rparr>"
  have "guard_step zero_hmac example_guard_secret ?x ?y"
    by (rule Handle [where x = ?x and n = "''b''"]) (use example_handled_eq in simp)
  then have s: "(guard_step zero_hmac example_guard_secret)\<^sup>*\<^sup>* ?x ?y" by blast
  have "isWritable 20 21 (Inr (fst (snd example_handled))) (fst example_handled)" by code_simp
  then have w: "isWritable 20 21 (Inr (fs_fence ?y)) (fs_nodes ?y ''b'')" by simp
  have "pc_lease (fst example_handled) \<noteq> None" by code_simp
  then obtain l where l: "pc_lease (fs_nodes ?y ''b'') = Some l" by auto
  from single_writer [OF s w l] have "0 \<le> gc_fenceEpoch l" by (simp add: fence_epoch_def)
  with s w l show ?thesis by blast
qed

theorem fenced_node_accepts_nothing_witness:
  "\<not> isWritable 0 0 (Inr None) (example_node Primary ''a'') \<and>
   (case snd (snd (verifyTSKRequest (request_api (fenced_api (lease_ok 0 0 (Inr None) (example_node Primary ''a'')) memory_tumbler_api))
       spike_hmac DEFAULT_TSK_CONFIG None (example_times 0) (tsk_request ''tsk_0'' ''k'') example_store None)) of
      Inl e \<Rightarrow> True
    | Inr r \<Rightarrow> \<not> tv_ok r)"
  using fenced_node_accepts_nothing [of 0 0 "Inr None" "example_node Primary ''a''" spike_hmac DEFAULT_TSK_CONFIG None "example_times 0"
      "tsk_request ''tsk_0'' ''k''" example_store None]
  by (auto simp: isWritable_def example_node_def prod_eq_iff split: sum.splits)

end
