(* ===== verification/Client.thy ===== *)
theory Client
  imports Middleware
begin

text \<open>
  The client SDK: the storages of \<^verbatim>\<open>packages/client-sdk/src/storage.ts\<close> and the client of
  \<^verbatim>\<open>packages/client-sdk/src/client.ts\<close>. A client loads its provision payload and counters, builds the
  request headers from a snapshot of the counters, and advances and persists the counters only when
  the server confirms the authentication. The server behind \<^verbatim>\<open>fetch\<close> is a parameter that acts on a
  world of its own. Of the file system, the file storage uses the atomic replacement of one file; its
  content is what \<^verbatim>\<open>JSON.parse\<close> makes of it.
\<close>

section \<open>Storage\<close>

definition assertValidPayload :: "TSKProvisionPayload \<Rightarrow> unit res" where
  "assertValidPayload payload = assertValidClientHOTPInitialCounters (pp_clientSegments payload)"

definition assertValidCounterVector :: "(string \<times> int) list \<Rightarrow> unit res" where
  "assertValidCounterVector counters = check_all (\<lambda>u. assertValidHOTPStoredCounter (int_val (snd u))) counters"

text \<open>The operations of \<^verbatim>\<open>TSKClientStorage\<close>.\<close>

record 's client_storage_api =
  sa_save :: "TSKProvisionPayload \<Rightarrow> 's \<Rightarrow> 's \<times> unit res"
  sa_load :: "string \<Rightarrow> 's \<Rightarrow> TSKProvisionPayload option res"
  sa_delete :: "string \<Rightarrow> 's \<Rightarrow> 's \<times> unit res"
  sa_saveCounter :: "string \<Rightarrow> string \<Rightarrow> int \<Rightarrow> 's \<Rightarrow> 's \<times> unit res"
  sa_saveCounters :: "string \<Rightarrow> (string \<times> int) list \<Rightarrow> 's \<Rightarrow> 's \<times> unit res"
  sa_loadCounter :: "string \<Rightarrow> string \<Rightarrow> 's \<Rightarrow> int option res"

text \<open>The key \<^verbatim>\<open>`${clientId}:${segmentId}`\<close> of a persisted counter.\<close>

definition counter_key :: "string \<Rightarrow> string \<Rightarrow> string" where
  "counter_key clientId segmentId = clientId @ CHR '':'' # segmentId"

definition startsWith :: "string \<Rightarrow> string \<Rightarrow> bool" where
  "startsWith s p \<longleftrightarrow> take (length p) s = p"

definition put_counters :: "string \<Rightarrow> (string \<times> int) list \<Rightarrow> (string \<times> int) list \<Rightarrow> (string \<times> int) list" where
  "put_counters clientId counters m = foldl (\<lambda>m u. omap_set (counter_key clientId (fst u)) (snd u) m) m counters"

definition drop_counters :: "string \<Rightarrow> (string \<times> int) list \<Rightarrow> (string \<times> int) list" where
  "drop_counters clientId m = filter (\<lambda>p. \<not> startsWith (fst p) (clientId @ '':'')) m"

record MemoryClientStorage =
  mc_store :: "(string \<times> TSKProvisionPayload) list"
  mc_counters :: "(string \<times> int) list"

definition mc_save :: "TSKProvisionPayload \<Rightarrow> MemoryClientStorage \<Rightarrow> MemoryClientStorage \<times> unit res" where
  "mc_save payload st =
     (case assertValidPayload payload of
        Inl e \<Rightarrow> (st, Inl e)
      | Inr _ \<Rightarrow> (st\<lparr>mc_store := omap_set (pp_clientId payload) payload (mc_store st)\<rparr>, Inr ()))"

definition mc_load :: "string \<Rightarrow> MemoryClientStorage \<Rightarrow> TSKProvisionPayload option res" where
  "mc_load clientId st =
     (case map_of (mc_store st) clientId of
        None \<Rightarrow> Inr None
      | Some payload \<Rightarrow> bind_res (assertValidPayload payload) (\<lambda>_. Inr (Some payload)))"

definition mc_delete :: "string \<Rightarrow> MemoryClientStorage \<Rightarrow> MemoryClientStorage \<times> unit res" where
  "mc_delete clientId st =
     (st\<lparr>mc_store := omap_delete clientId (mc_store st), mc_counters := drop_counters clientId (mc_counters st)\<rparr>, Inr ())"

definition mc_saveCounter :: "string \<Rightarrow> string \<Rightarrow> int \<Rightarrow> MemoryClientStorage \<Rightarrow> MemoryClientStorage \<times> unit res" where
  "mc_saveCounter clientId segmentId counter st =
     (case assertValidHOTPStoredCounter (int_val counter) of
        Inl e \<Rightarrow> (st, Inl e)
      | Inr _ \<Rightarrow> (st\<lparr>mc_counters := omap_set (counter_key clientId segmentId) counter (mc_counters st)\<rparr>, Inr ()))"

definition mc_saveCounters :: "string \<Rightarrow> (string \<times> int) list \<Rightarrow> MemoryClientStorage \<Rightarrow> MemoryClientStorage \<times> unit res" where
  "mc_saveCounters clientId counters st =
     (case assertValidCounterVector counters of
        Inl e \<Rightarrow> (st, Inl e)
      | Inr _ \<Rightarrow> (st\<lparr>mc_counters := put_counters clientId counters (mc_counters st)\<rparr>, Inr ()))"

definition mc_loadCounter :: "string \<Rightarrow> string \<Rightarrow> MemoryClientStorage \<Rightarrow> int option res" where
  "mc_loadCounter clientId segmentId st =
     (case map_of (mc_counters st) (counter_key clientId segmentId) of
        None \<Rightarrow> Inr None
      | Some counter \<Rightarrow> bind_res (assertValidHOTPStoredCounter (int_val counter)) (\<lambda>_. Inr (Some counter)))"

definition memory_storage_api :: "MemoryClientStorage client_storage_api" where
  "memory_storage_api =
     \<lparr>sa_save = mc_save, sa_load = mc_load, sa_delete = mc_delete, sa_saveCounter = mc_saveCounter,
      sa_saveCounters = mc_saveCounters, sa_loadCounter = mc_loadCounter\<rparr>"

text \<open>The file of \<^verbatim>\<open>FileClientStorage\<close>: absent, the versioned object, the original object of payloads only,
  or something that does not parse or cannot be read.\<close>

record client_data =
  cd_payloads :: "(string \<times> TSKProvisionPayload) list"
  cd_counters :: "(string \<times> int) list"

datatype client_file =
    No_file
  | Version1 client_data
  | Payloads_only "(string \<times> TSKProvisionPayload) list"
  | Unreadable string

definition corrupt :: "'a res \<Rightarrow> 'a res" where
  "corrupt r = (case r of Inl _ \<Rightarrow> Inl ''TSK_CLIENT_STORE_CORRUPT'' | Inr a \<Rightarrow> Inr a)"

definition readData :: "client_file \<Rightarrow> client_data res" where
  "readData file =
     (case file of
        No_file \<Rightarrow> Inr \<lparr>cd_payloads = [], cd_counters = []\<rparr>
      | Version1 d \<Rightarrow>
          corrupt (bind_res (check_all (\<lambda>p. assertValidPayload (snd p)) (cd_payloads d)) (\<lambda>_.
            bind_res (check_all (\<lambda>p. assertValidHOTPStoredCounter (int_val (snd p))) (cd_counters d)) (\<lambda>_. Inr d)))
      | Payloads_only ps \<Rightarrow>
          corrupt (bind_res (check_all (\<lambda>p. assertValidPayload (snd p)) ps) (\<lambda>_. Inr \<lparr>cd_payloads = ps, cd_counters = []\<rparr>))
      | Unreadable e \<Rightarrow> corrupt (Inl e))"

text \<open>The mutations are queued one after the other; each rewrites the whole file by a rename.\<close>

definition fc_mutate :: "(client_data \<Rightarrow> client_data) \<Rightarrow> client_file \<Rightarrow> client_file \<times> unit res" where
  "fc_mutate change file =
     (case readData file of Inl e \<Rightarrow> (file, Inl e) | Inr d \<Rightarrow> (Version1 (change d), Inr ()))"

definition fc_save :: "TSKProvisionPayload \<Rightarrow> client_file \<Rightarrow> client_file \<times> unit res" where
  "fc_save payload file =
     (case assertValidPayload payload of
        Inl e \<Rightarrow> (file, Inl e)
      | Inr _ \<Rightarrow> fc_mutate (\<lambda>d. d\<lparr>cd_payloads := omap_set (pp_clientId payload) payload (cd_payloads d)\<rparr>) file)"

definition fc_load :: "string \<Rightarrow> client_file \<Rightarrow> TSKProvisionPayload option res" where
  "fc_load clientId file = bind_res (readData file) (\<lambda>d. Inr (map_of (cd_payloads d) clientId))"

definition fc_delete :: "string \<Rightarrow> client_file \<Rightarrow> client_file \<times> unit res" where
  "fc_delete clientId file =
     fc_mutate (\<lambda>d. d\<lparr>cd_payloads := omap_delete clientId (cd_payloads d), cd_counters := drop_counters clientId (cd_counters d)\<rparr>) file"

definition fc_saveCounter :: "string \<Rightarrow> string \<Rightarrow> int \<Rightarrow> client_file \<Rightarrow> client_file \<times> unit res" where
  "fc_saveCounter clientId segmentId counter file =
     (case assertValidHOTPStoredCounter (int_val counter) of
        Inl e \<Rightarrow> (file, Inl e)
      | Inr _ \<Rightarrow> fc_mutate (\<lambda>d. d\<lparr>cd_counters := omap_set (counter_key clientId segmentId) counter (cd_counters d)\<rparr>) file)"

definition fc_saveCounters :: "string \<Rightarrow> (string \<times> int) list \<Rightarrow> client_file \<Rightarrow> client_file \<times> unit res" where
  "fc_saveCounters clientId counters file =
     (case assertValidCounterVector counters of
        Inl e \<Rightarrow> (file, Inl e)
      | Inr _ \<Rightarrow> fc_mutate (\<lambda>d. d\<lparr>cd_counters := put_counters clientId counters (cd_counters d)\<rparr>) file)"

definition fc_loadCounter :: "string \<Rightarrow> string \<Rightarrow> client_file \<Rightarrow> int option res" where
  "fc_loadCounter clientId segmentId file = bind_res (readData file) (\<lambda>d. Inr (map_of (cd_counters d) (counter_key clientId segmentId)))"

definition file_storage_api :: "client_file client_storage_api" where
  "file_storage_api =
     \<lparr>sa_save = fc_save, sa_load = fc_load, sa_delete = fc_delete, sa_saveCounter = fc_saveCounter,
      sa_saveCounters = fc_saveCounters, sa_loadCounter = fc_loadCounter\<rparr>"

section \<open>The client\<close>

record 's TSKClient =
  tc_clientId :: string
  tc_configSecret :: "string option"
  tc_storage :: 's
  tc_payload :: "TSKProvisionPayload option"
  tc_sharedSecret :: "string option"
  tc_counters :: "(string \<times> int) list"
  tc_initialized :: bool

definition new_TSKClient :: "string \<Rightarrow> string option \<Rightarrow> 's \<Rightarrow> 's TSKClient" where
  "new_TSKClient clientId secret storage =
     \<lparr>tc_clientId = clientId, tc_configSecret = secret, tc_storage = storage, tc_payload = None, tc_sharedSecret = None,
      tc_counters = [], tc_initialized = False\<rparr>"

text \<open>The loop of \<^verbatim>\<open>init\<close> over the HOTP segments; an exception leaves the counters set so far.\<close>

fun init_counters ::
  "'s client_storage_api \<Rightarrow> string \<Rightarrow> 's \<Rightarrow> ClientSegmentConfig list \<Rightarrow> (string \<times> int) list \<Rightarrow> (string \<times> int) list \<times> unit res" where
  "init_counters api cid st [] counters = (counters, Inr ())"
| "init_counters api cid st (seg # segs) counters =
     (if cs_type seg \<noteq> Hotp then init_counters api cid st segs counters
      else case sa_loadCounter api cid (cs_id seg) st of
        Inl e \<Rightarrow> (counters, Inl e)
      | Inr persisted \<Rightarrow>
          let counter = nullish persisted (nullish (cs_initialCounter seg) 0) in
          case assertValidHOTPStoredCounter (int_val counter) of
            Inl e \<Rightarrow> (counters, Inl e)
          | Inr _ \<Rightarrow> init_counters api cid st segs (omap_set (cs_id seg) counter counters))"

definition client_init :: "'s client_storage_api \<Rightarrow> 's TSKClient \<Rightarrow> 's TSKClient \<times> unit res" where
  "client_init api c =
     (case sa_load api (tc_clientId c) (tc_storage c) of
        Inl e \<Rightarrow> (c, Inl e)
      | Inr None \<Rightarrow> (c\<lparr>tc_payload := None\<rparr>, Inl ''TSKClient: No provision payload found'')
      | Inr (Some payload) \<Rightarrow>
          (let c1 = c\<lparr>tc_payload := Some payload\<rparr> in
           if tc_configSecret c1 = None \<or> tc_configSecret c1 = Some [] then (c1, Inl ''TSKClient: sharedSecret must be provided'')
           else
             let c2 = c1\<lparr>tc_sharedSecret := tc_configSecret c1\<rparr>;
                 (counters, r) = init_counters api (tc_clientId c) (tc_storage c) (pp_clientSegments payload) (tc_counters c2);
                 c3 = c2\<lparr>tc_counters := counters\<rparr>
             in case r of Inl e \<Rightarrow> (c3, Inl e) | Inr _ \<Rightarrow> (c3\<lparr>tc_initialized := True\<rparr>, Inr ())))"

definition assertInitialized :: "'s TSKClient \<Rightarrow> (TSKProvisionPayload \<times> string) res" where
  "assertInitialized c =
     (case (tc_payload c, tc_sharedSecret c) of
        (Some payload, Some secret) \<Rightarrow>
          if tc_initialized c \<and> secret \<noteq> [] then Inr (payload, secret) else Inl ''TSKClient: not initialized''
      | _ \<Rightarrow> Inl ''TSKClient: not initialized'')"

text \<open>The headers, and the snapshot of the counters the commit function closes over.\<close>

record generated_headers =
  gh_headers :: "(string \<times> string) list"
  gh_snapshot :: "(string \<times> int) list"
  gh_payload :: TSKProvisionPayload

definition generateHeaders :: "hmac_fn \<Rightarrow> int \<Rightarrow> 's TSKClient \<Rightarrow> generated_headers res" where
  "generateHeaders H nowMs c =
     bind_res (assertInitialized c) (\<lambda>(payload, sharedSecret).
     bind_res (check_all (\<lambda>seg. if cs_type seg \<noteq> Hotp then Inr ()
         else assertUsableHOTPDerivationCounter (int_val (nullish (map_of (tc_counters c) (cs_id seg)) (nullish (cs_initialCounter seg) 0))))
       (pp_clientSegments payload)) (\<lambda>_.
     bind_res (generateKeyFromClientPayload H sharedSecret payload (tc_counters c) nowMs) (\<lambda>key.
       Inr \<lparr>gh_headers = [(HEADER_CLIENT_ID, tc_clientId c), (HEADER_KEY, key), (HEADER_VERSION, TSK_PROTOCOL_VERSION)],
            gh_snapshot = tc_counters c, gh_payload = payload\<rparr>)))"

fun next_counters :: "(string \<times> int) list \<Rightarrow> ClientSegmentConfig list \<Rightarrow> (string \<times> int) list \<Rightarrow> (string \<times> int) list res" where
  "next_counters snap [] acc = Inr acc"
| "next_counters snap (seg # segs) acc =
     (if cs_type seg \<noteq> Hotp then next_counters snap segs acc
      else let current = nullish (map_of snap (cs_id seg)) 0 in
        bind_res (assertUsableHOTPDerivationCounter (int_val current)) (\<lambda>_.
        bind_res (assertValidHOTPStoredCounter (int_val (current + 1))) (\<lambda>_.
          next_counters snap segs (omap_set (cs_id seg) (current + 1) acc))))"

definition commitHOTPCounters :: "'s client_storage_api \<Rightarrow> generated_headers \<Rightarrow> 's TSKClient \<Rightarrow> 's TSKClient \<times> unit res" where
  "commitHOTPCounters api g c =
     (case next_counters (gh_snapshot g) (pp_clientSegments (gh_payload g)) [] of
        Inl e \<Rightarrow> (c, Inl e)
      | Inr nextCounters \<Rightarrow>
          (case sa_saveCounters api (tc_clientId c) nextCounters (tc_storage c) of
             (st, Inl e) \<Rightarrow> (c\<lparr>tc_storage := st\<rparr>, Inl e)
           | (st, Inr _) \<Rightarrow>
               (c\<lparr>tc_storage := st, tc_counters := foldl (\<lambda>m u. omap_set (fst u) (snd u) m) (tc_counters c) nextCounters\<rparr>, Inr ())))"

definition HEADER_AUTHENTICATED :: string where
  "HEADER_AUTHENTICATED = ''x-tsk-authenticated''"

text \<open>\<open>server\<close> answers a request with the headers of the response, or fails.\<close>

definition client_fetch ::
  "'s client_storage_api \<Rightarrow> hmac_fn \<Rightarrow> int \<Rightarrow> ((string \<times> string) list \<Rightarrow> 'w \<Rightarrow> 'w \<times> (string \<times> string) list res) \<Rightarrow>
   's TSKClient \<Rightarrow> 'w \<Rightarrow> 's TSKClient \<times> 'w \<times> (string \<times> string) list res" where
  "client_fetch api H nowMs server c w =
     (case generateHeaders H nowMs c of
        Inl e \<Rightarrow> (c, w, Inl e)
      | Inr g \<Rightarrow>
          (case server (gh_headers g) w of
             (w', Inl e) \<Rightarrow> (c, w', Inl e)
           | (w', Inr response) \<Rightarrow>
               if map_of response HEADER_AUTHENTICATED = Some ''1''
               then (let (c', r) = commitHOTPCounters api g c in (c', w', bind_res r (\<lambda>_. Inr response)))
               else (c, w', Inr response)))"

section \<open>What a client relies on\<close>

text \<open>The contract of a storage: reads return what is persisted, and saving a counter vector persists it.\<close>

locale client_storage =
  fixes api :: "'s client_storage_api"
    and payload_of :: "'s \<Rightarrow> string \<Rightarrow> TSKProvisionPayload option"
    and counter_of :: "'s \<Rightarrow> string \<Rightarrow> string \<Rightarrow> int option"
    and good :: "'s \<Rightarrow> bool"
  assumes load_law: "good s \<Longrightarrow> sa_load api cid s = Inr (payload_of s cid)"
    and loadCounter_law: "good s \<Longrightarrow> sa_loadCounter api cid sid s = Inr (counter_of s cid sid)"
    and counter_valid: "good s \<Longrightarrow> counter_of s cid sid = Some n \<Longrightarrow> 0 \<le> n \<and> n \<le> TSK_MAX_HOTP_COUNTER"
    and payload_valid: "good s \<Longrightarrow> payload_of s cid = Some p \<Longrightarrow> assertValidPayload p = Inr ()"
    and saveCounters_law: "good s \<Longrightarrow> assertValidCounterVector us = Inr () \<Longrightarrow> distinct (map fst us) \<Longrightarrow>
      \<exists>s'. sa_saveCounters api cid us s = (s', Inr ()) \<and> good s' \<and> payload_of s' = payload_of s \<and>
        (\<forall>sid. counter_of s' cid sid = (case map_of us sid of None \<Rightarrow> counter_of s cid sid | Some n \<Rightarrow> Some n))"

definition hotp_ids :: "ClientSegmentConfig list \<Rightarrow> string set" where
  "hotp_ids segs = cs_id ` {s \<in> set segs. cs_type s = Hotp}"

lemma hotp_ids_simps [simp]:
  "hotp_ids [] = {}" "hotp_ids (s # ss) = (if cs_type s = Hotp then insert (cs_id s) (hotp_ids ss) else hotp_ids ss)"
  by (auto simp: hotp_ids_def)

lemma next_counters_ok:
  assumes "\<forall>sid \<in> hotp_ids segs. 0 \<le> nullish (map_of snap sid) 0 \<and> nullish (map_of snap sid) 0 < TSK_MAX_HOTP_COUNTER"
    and "distinct (omap_keys acc)"
  shows "\<exists>us. next_counters snap segs acc = Inr us \<and> distinct (omap_keys us) \<and>
    map_of us = (\<lambda>sid. if sid \<in> hotp_ids segs then Some (nullish (map_of snap sid) 0 + 1) else map_of acc sid)"
  using assms
proof (induction segs arbitrary: acc)
  case (Cons s segs)
  show ?case
  proof (cases "cs_type s = Hotp")
    case True
    let ?n = "nullish (map_of snap (cs_id s)) 0" and ?acc = "omap_set (cs_id s) (nullish (map_of snap (cs_id s)) 0 + 1) acc"
    have eq: "next_counters snap (s # segs) acc = next_counters snap segs ?acc"
      using True Cons.prems(1) by (simp add: Let_def assertUsable_cases assertValidHOTPStoredCounter_def)
    obtain us where "next_counters snap segs ?acc = Inr us" "distinct (omap_keys us)"
      "map_of us = (\<lambda>sid. if sid \<in> hotp_ids segs then Some (nullish (map_of snap sid) 0 + 1) else map_of ?acc sid)"
      using Cons.IH [of ?acc] Cons.prems True distinct_omap_set by auto
    then show ?thesis unfolding eq using True by (auto simp: fun_eq_iff)
  next
    case False
    then show ?thesis using Cons by simp
  qed
qed simp

lemma map_of_foldl_set:
  "distinct (map fst us) \<Longrightarrow>
   map_of (foldl (\<lambda>m u. omap_set (fst u) (snd u) m) acc us) k = (case map_of us k of None \<Rightarrow> map_of acc k | Some n \<Rightarrow> Some n)"
proof (induction us arbitrary: acc)
  case (Cons u us)
  then have "map_of us (fst u) = None" by (simp add: map_of_eq_None_iff)
  with Cons show ?case by (cases u) (auto split: option.splits)
qed simp

text \<open>Successive requests of one client, at the given times.\<close>

fun client_session ::
  "'s client_storage_api \<Rightarrow> hmac_fn \<Rightarrow> ((string \<times> string) list \<Rightarrow> 'w \<Rightarrow> 'w \<times> (string \<times> string) list res) \<Rightarrow> int list \<Rightarrow>
   's TSKClient \<Rightarrow> 'w \<Rightarrow> 's TSKClient \<times> 'w \<times> (string \<times> string) list res list" where
  "client_session api H server [] c w = (c, w, [])"
| "client_session api H server (t # ts) c w =
     (let (c1, w1, r) = client_fetch api H t server c w;
          (c2, w2, rs) = client_session api H server ts c1 w1
      in (c2, w2, r # rs))"

definition authenticated_response :: "(string \<times> string) list res \<Rightarrow> bool" where
  "authenticated_response r = (case r of Inl _ \<Rightarrow> False | Inr response \<Rightarrow> map_of response HEADER_AUTHENTICATED = Some ''1'')"

text \<open>The value of a counter when a client starts on a storage.\<close>

definition start_counter :: "(string \<Rightarrow> int option) \<Rightarrow> ClientSegmentConfig \<Rightarrow> int" where
  "start_counter persisted seg = nullish (persisted (cs_id seg)) (nullish (cs_initialCounter seg) 0)"

context client_storage
begin

lemma init_counters_ok:
  assumes "good st" and "assertValidClientHOTPInitialCounters segs = Inr ()" and "distinct (map cs_id segs)"
  shows "\<exists>cs. init_counters api cid st segs acc = (cs, Inr ()) \<and>
    (\<forall>seg \<in> set segs. cs_type seg = Hotp \<longrightarrow> map_of cs (cs_id seg) = Some (start_counter (counter_of st cid) seg)) \<and>
    (\<forall>sid. sid \<notin> hotp_ids segs \<longrightarrow> map_of cs sid = map_of acc sid)"
  using assms(2,3)
proof (induction segs arbitrary: acc)
  case (Cons s segs)
  have v: "assertValidClientHOTPInitialCounters segs = Inr ()"
    using Cons.prems(1) by (simp add: assertValidClientHOTPInitialCounters_def bind_res_Inr_iff)
  show ?case
  proof (cases "cs_type s = Hotp")
    case True
    let ?n = "start_counter (counter_of st cid) s"
    have "0 \<le> ?n \<and> ?n \<le> TSK_MAX_HOTP_COUNTER"
      using Cons.prems(1) True counter_valid [OF assms(1)]
      by (cases "counter_of st cid (cs_id s)") (auto simp: start_counter_def assertValidClientHOTPInitialCounters_def bind_res_Inr_iff)
    then have eq: "init_counters api cid st (s # segs) acc = init_counters api cid st segs (omap_set (cs_id s) ?n acc)"
      using True loadCounter_law [OF assms(1)] by (simp add: start_counter_def assertValidHOTPStoredCounter_def)
    obtain cs where cs: "init_counters api cid st segs (omap_set (cs_id s) ?n acc) = (cs, Inr ())"
      "\<forall>seg \<in> set segs. cs_type seg = Hotp \<longrightarrow> map_of cs (cs_id seg) = Some (start_counter (counter_of st cid) seg)"
      "\<forall>sid. sid \<notin> hotp_ids segs \<longrightarrow> map_of cs sid = map_of (omap_set (cs_id s) ?n acc) sid"
      using Cons.IH [OF v] Cons.prems(2) by fastforce
    have "cs_id s \<notin> hotp_ids segs" using Cons.prems(2) by (auto simp: hotp_ids_def)
    with cs show ?thesis unfolding eq using True by auto
  next
    case False
    then show ?thesis using Cons.IH [OF v] Cons.prems(2) by fastforce
  qed
qed simp

text \<open>A client in step with its storage: a restart would give it the counters it has.\<close>

definition in_step :: "'s TSKClient \<Rightarrow> bool" where
  "in_step c \<longleftrightarrow>
     good (tc_storage c) \<and> tc_initialized c \<and> tc_sharedSecret c = tc_configSecret c \<and>
     (\<exists>p. tc_payload c = Some p \<and> payload_of (tc_storage c) (tc_clientId c) = Some p \<and> distinct (map cs_id (pp_clientSegments p)) \<and>
        (\<forall>seg \<in> set (pp_clientSegments p). cs_type seg = Hotp \<longrightarrow>
           map_of (tc_counters c) (cs_id seg) = Some (start_counter (counter_of (tc_storage c) (tc_clientId c)) seg)))"

lemma restart_ok:
  assumes "good st" and "payload_of st cid = Some p" and "distinct (map cs_id (pp_clientSegments p))" and "secret \<noteq> []"
  shows "\<exists>c. client_init api (new_TSKClient cid (Some secret) st) = (c, Inr ()) \<and> in_step c \<and>
    tc_storage c = st \<and> tc_clientId c = cid \<and> tc_configSecret c = Some secret"
proof -
  have "assertValidClientHOTPInitialCounters (pp_clientSegments p) = Inr ()"
    using payload_valid [OF assms(1,2)] by (simp add: assertValidPayload_def)
  from init_counters_ok [OF assms(1) this assms(3), of cid "[]"] obtain cs where
    cs: "init_counters api cid st (pp_clientSegments p) [] = (cs, Inr ())"
      "\<forall>seg \<in> set (pp_clientSegments p). cs_type seg = Hotp \<longrightarrow> map_of cs (cs_id seg) = Some (start_counter (counter_of st cid) seg)"
    by blast
  then show ?thesis
    using load_law [OF assms(1), of cid] assms by (simp add: client_init_def new_TSKClient_def in_step_def)
qed

lemma commit_in_step:
  assumes c: "in_step c" and g: "generateHeaders H now c = Inr g"
  shows "\<exists>c'. commitHOTPCounters api g c = (c', Inr ()) \<and> in_step c' \<and> tc_clientId c' = tc_clientId c \<and> tc_payload c' = tc_payload c \<and>
    tc_configSecret c' = tc_configSecret c \<and>
    (\<forall>p. tc_payload c = Some p \<longrightarrow> (\<forall>sid \<in> hotp_ids (pp_clientSegments p).
       map_of (tc_counters c') sid = map_option (\<lambda>n. n + 1) (map_of (tc_counters c) sid)))"
proof -
  obtain p where p: "tc_payload c = Some p" "payload_of (tc_storage c) (tc_clientId c) = Some p" "distinct (map cs_id (pp_clientSegments p))"
    "good (tc_storage c)" and cnt: "\<And>seg. seg \<in> set (pp_clientSegments p) \<Longrightarrow> cs_type seg = Hotp \<Longrightarrow>
      map_of (tc_counters c) (cs_id seg) = Some (start_counter (counter_of (tc_storage c) (tc_clientId c)) seg)"
    using c by (auto simp: in_step_def)
  have gp: "gh_payload g = p" "gh_snapshot g = tc_counters c"
    and chk: "\<forall>seg \<in> set (pp_clientSegments p). cs_type seg = Hotp \<longrightarrow>
      assertUsableHOTPDerivationCounter (int_val (nullish (map_of (tc_counters c) (cs_id seg)) (nullish (cs_initialCounter seg) 0))) = Inr ()"
    using g p(1) by (auto simp: generateHeaders_def bind_res_Inr_iff assertInitialized_def check_all_Inr_iff split: option.splits if_splits)
  let ?snap = "tc_counters c" and ?ids = "hotp_ids (pp_clientSegments p)"
  have us: "\<forall>sid \<in> ?ids. 0 \<le> nullish (map_of ?snap sid) 0 \<and> nullish (map_of ?snap sid) 0 < TSK_MAX_HOTP_COUNTER"
    using chk cnt by (auto simp: hotp_ids_def)
  obtain us where n: "next_counters ?snap (pp_clientSegments p) [] = Inr us" "distinct (map fst us)"
    and m: "\<And>sid. map_of us sid = (if sid \<in> ?ids then Some (nullish (map_of ?snap sid) 0 + 1) else None)"
    using next_counters_ok [OF us, of "[]"] by fastforce
  have "0 \<le> snd u \<and> snd u \<le> TSK_MAX_HOTP_COUNTER" if "u \<in> set us" for u
  proof -
    have "map_of us (fst u) = Some (snd u)" using that n(2) by (simp add: map_of_is_SomeI)
    then show ?thesis using us m by (auto split: if_splits)
  qed
  then have val: "assertValidCounterVector us = Inr ()"
    by (simp add: assertValidCounterVector_def check_all_Inr_iff)
  obtain st where st: "sa_saveCounters api (tc_clientId c) us (tc_storage c) = (st, Inr ())" "good st" "payload_of st = payload_of (tc_storage c)"
    "\<And>sid. counter_of st (tc_clientId c) sid = (case map_of us sid of None \<Rightarrow> counter_of (tc_storage c) (tc_clientId c) sid | Some n \<Rightarrow> Some n)"
    using saveCounters_law [OF p(4) val n(2)] by blast
  let ?cs = "foldl (\<lambda>m u. omap_set (fst u) (snd u) m) ?snap us"
  have cs: "map_of ?cs sid = (case map_of us sid of None \<Rightarrow> map_of ?snap sid | Some n \<Rightarrow> Some n)" for sid
    by (rule map_of_foldl_set [OF n(2)])
  have inc: "map_of ?cs sid = Some (nullish (map_of ?snap sid) 0 + 1)" if "sid \<in> ?ids" for sid
    using cs [of sid] m that by simp
  let ?c' = "c\<lparr>tc_storage := st, tc_counters := ?cs\<rparr>"
  have com: "commitHOTPCounters api g c = (?c', Inr ())"
    using n(1) st(1) gp by (simp add: commitHOTPCounters_def)
  have "in_step ?c'"
    using c p st inc m by (auto simp: in_step_def start_counter_def hotp_ids_def)
  moreover have "map_of ?cs sid = map_option (\<lambda>n. n + 1) (map_of ?snap sid)" if "sid \<in> ?ids" for sid
    using inc [OF that] that cnt by (auto simp: hotp_ids_def)
  ultimately show ?thesis using com p(1) by auto
qed

lemma fetch_in_step:
  assumes c: "in_step c" and p: "tc_payload c = Some p" and f: "client_fetch api H now server c w = (c', w', r)"
  shows "in_step c' \<and> tc_clientId c' = tc_clientId c \<and> tc_payload c' = Some p \<and> tc_configSecret c' = tc_configSecret c \<and>
    (\<forall>sid \<in> hotp_ids (pp_clientSegments p). map_of (tc_counters c') sid =
       map_option (\<lambda>n. n + of_bool (authenticated_response r)) (map_of (tc_counters c) sid))"
proof (cases "generateHeaders H now c")
  case (Inl e)
  then show ?thesis using f c p by (auto simp: client_fetch_def authenticated_response_def option.map_ident)
next
  case (Inr g)
  obtain c1 where c1: "commitHOTPCounters api g c = (c1, Inr ())" "in_step c1" "tc_clientId c1 = tc_clientId c"
    "tc_payload c1 = tc_payload c" "tc_configSecret c1 = tc_configSecret c"
    "\<forall>p. tc_payload c = Some p \<longrightarrow> (\<forall>sid \<in> hotp_ids (pp_clientSegments p).
       map_of (tc_counters c1) sid = map_option (\<lambda>n. n + 1) (map_of (tc_counters c) sid))"
    using commit_in_step [OF c Inr] by blast
  then show ?thesis
    using f c p Inr
    by (auto simp: client_fetch_def authenticated_response_def option.map_ident split: prod.splits sum.splits if_splits)
qed

lemma session_in_step:
  assumes "in_step c" and "tc_payload c = Some p" and "client_session api H server ts c w = (c', w', rs)"
  shows "in_step c' \<and> tc_clientId c' = tc_clientId c \<and> tc_payload c' = Some p \<and> tc_configSecret c' = tc_configSecret c \<and>
    (\<forall>sid \<in> hotp_ids (pp_clientSegments p). map_of (tc_counters c') sid =
       map_option (\<lambda>n. n + int (length (filter authenticated_response rs))) (map_of (tc_counters c) sid))"
  using assms
proof (induction ts arbitrary: c w rs)
  case Nil
  then show ?case by (auto simp: option.map_ident)
next
  case (Cons t ts)
  obtain c1 w1 r rs' where f: "client_fetch api H t server c w = (c1, w1, r)"
    and s: "client_session api H server ts c1 w1 = (c', w', rs')" and rs: "rs = r # rs'"
    using Cons.prems(3) by (auto simp: Let_def split: prod.splits)
  note one = fetch_in_step [OF Cons.prems(1,2) f]
  then have "in_step c1" "tc_payload c1 = Some p" by auto
  from Cons.IH [OF this s] one show ?case
    by (auto simp: rs option.map_comp comp_def add.commute add.left_commute intro!: option.map_cong0)
qed

lemma in_step_restart:
  assumes "in_step c" and "tc_payload c = Some p" and "tc_configSecret c = Some secret" and "secret \<noteq> []"
  shows "\<exists>c'. client_init api (new_TSKClient (tc_clientId c) (Some secret) (tc_storage c)) = (c', Inr ()) \<and> tc_payload c' = Some p \<and>
    (\<forall>sid \<in> hotp_ids (pp_clientSegments p). map_of (tc_counters c') sid = map_of (tc_counters c) sid)"
proof -
  have *: "good (tc_storage c)" "payload_of (tc_storage c) (tc_clientId c) = Some p" "distinct (map cs_id (pp_clientSegments p))"
    using assms(1,2) by (auto simp: in_step_def)
  from restart_ok [OF * assms(4)] obtain c' where c':
    "client_init api (new_TSKClient (tc_clientId c) (Some secret) (tc_storage c)) = (c', Inr ())" "in_step c'"
    "tc_storage c' = tc_storage c" "tc_clientId c' = tc_clientId c" by blast
  then show ?thesis using assms(1,2) * by (auto simp: in_step_def hotp_ids_def)
qed

end

section \<open>The two storages keep the contract\<close>

lemma counter_key_inject [simp]: "counter_key cid a = counter_key cid b \<longleftrightarrow> a = b"
  by (simp add: counter_key_def)

lemma map_of_put_counters:
  assumes "distinct (map fst us)"
  shows "map_of (put_counters cid us m) (counter_key cid sid) =
    (case map_of us sid of None \<Rightarrow> map_of m (counter_key cid sid) | Some n \<Rightarrow> Some n)"
  using assms
proof (induction us arbitrary: m)
  case (Cons u us)
  then have "map_of us (fst u) = None" by (simp add: map_of_eq_None_iff)
  with Cons show ?case by (cases u) (auto simp: put_counters_def split: option.splits)
qed (simp add: put_counters_def)

lemma set_omap_set: "set (omap_set k v m) \<subseteq> insert (k, v) (set m)"
  by (induction m) (auto split: if_splits)

lemma set_put_counters: "snd ` set (put_counters cid us m) \<subseteq> snd ` set m \<union> snd ` set us"
proof (induction us arbitrary: m)
  case (Cons u us)
  have "snd ` set (omap_set (counter_key cid (fst u)) (snd u) m) \<subseteq> insert (snd u) (snd ` set m)"
    using set_omap_set [of "counter_key cid (fst u)" "snd u" m] by force
  with Cons.IH [of "omap_set (counter_key cid (fst u)) (snd u) m"] show ?case by (auto simp: put_counters_def)
qed (simp add: put_counters_def)

definition valid_counters :: "(string \<times> int) list \<Rightarrow> bool" where
  "valid_counters m \<longleftrightarrow> (\<forall>n \<in> snd ` set m. 0 \<le> n \<and> n \<le> TSK_MAX_HOTP_COUNTER)"

definition valid_payloads :: "(string \<times> TSKProvisionPayload) list \<Rightarrow> bool" where
  "valid_payloads m \<longleftrightarrow> (\<forall>p \<in> snd ` set m. assertValidPayload p = Inr ())"

lemma assertValidCounterVector_iff: "assertValidCounterVector us = Inr () \<longleftrightarrow> valid_counters us"
  by (auto simp: assertValidCounterVector_def check_all_Inr_iff valid_counters_def)

lemma valid_put_counters: "valid_counters m \<Longrightarrow> valid_counters us \<Longrightarrow> valid_counters (put_counters cid us m)"
  unfolding valid_counters_def using set_put_counters [of cid us m] by (meson UnE subsetD)

lemma valid_lookup_counter:
  "valid_counters m \<Longrightarrow> map_of m k = Some n \<Longrightarrow> 0 \<le> n \<and> n \<le> TSK_MAX_HOTP_COUNTER"
  unfolding valid_counters_def using map_of_SomeD by fastforce

lemma valid_lookup_payload:
  "valid_payloads ps \<Longrightarrow> map_of ps cid = Some p \<Longrightarrow> assertValidPayload p = Inr ()"
  unfolding valid_payloads_def using map_of_SomeD by fastforce

lemmas valid_lookup = valid_lookup_counter valid_lookup_payload

lemma readData_Inr:
  "readData file = Inr d \<Longrightarrow> valid_counters (cd_counters d) \<and> valid_payloads (cd_payloads d)"
  by (auto simp: readData_def corrupt_def valid_counters_def valid_payloads_def bind_res_Inr_iff check_all_Inr_iff
    split: client_file.splits sum.splits)

lemma readData_Version1:
  assumes "valid_counters (cd_counters d)" and "valid_payloads (cd_payloads d)"
  shows "readData (Version1 d) = Inr d"
proof -
  have "check_all (\<lambda>p. assertValidPayload (snd p)) (cd_payloads d) = Inr ()"
    "check_all (\<lambda>p. assertValidHOTPStoredCounter (int_val (snd p))) (cd_counters d) = Inr ()"
    using assms by (auto simp: check_all_Inr_iff valid_counters_def valid_payloads_def)
  then show ?thesis by (simp add: readData_def corrupt_def)
qed

definition mc_good :: "MemoryClientStorage \<Rightarrow> bool" where
  "mc_good st \<longleftrightarrow> valid_counters (mc_counters st) \<and> valid_payloads (mc_store st)"

definition fc_data :: "client_file \<Rightarrow> client_data" where
  "fc_data file = (case readData file of Inl _ \<Rightarrow> \<lparr>cd_payloads = [], cd_counters = []\<rparr> | Inr d \<Rightarrow> d)"

definition fc_good :: "client_file \<Rightarrow> bool" where
  "fc_good file \<longleftrightarrow> readData file = Inr (fc_data file)"

lemma fc_goodD: "fc_good file \<Longrightarrow> valid_counters (cd_counters (fc_data file)) \<and> valid_payloads (cd_payloads (fc_data file))"
  by (simp add: fc_good_def readData_Inr)

lemma fc_good_Version1:
  "valid_counters (cd_counters d) \<Longrightarrow> valid_payloads (cd_payloads d) \<Longrightarrow> fc_good (Version1 d) \<and> fc_data (Version1 d) = d"
  by (simp add: fc_good_def fc_data_def readData_Version1)

interpretation memory_cl: client_storage memory_storage_api "\<lambda>st. map_of (mc_store st)"
  "\<lambda>st cid sid. map_of (mc_counters st) (counter_key cid sid)" mc_good
proof
  fix s :: MemoryClientStorage and cid us
  assume "mc_good s" "assertValidCounterVector us = Inr ()" "distinct (map fst us)"
  then show "\<exists>s'. sa_saveCounters memory_storage_api cid us s = (s', Inr ()) \<and> mc_good s' \<and> map_of (mc_store s') = map_of (mc_store s) \<and>
      (\<forall>sid. map_of (mc_counters s') (counter_key cid sid) =
        (case map_of us sid of None \<Rightarrow> map_of (mc_counters s) (counter_key cid sid) | Some n \<Rightarrow> Some n))"
    using valid_put_counters [of "mc_counters s" us cid]
    by (simp add: memory_storage_api_def mc_saveCounters_def mc_good_def map_of_put_counters
        assertValidCounterVector_iff [symmetric])
qed (auto simp: memory_storage_api_def mc_load_def mc_loadCounter_def mc_good_def assertValidHOTPStoredCounter_def
    split: option.splits dest: valid_lookup)

interpretation file_cl: client_storage file_storage_api "\<lambda>f. map_of (cd_payloads (fc_data f))"
  "\<lambda>f cid sid. map_of (cd_counters (fc_data f)) (counter_key cid sid)" fc_good
proof
  fix s :: client_file and cid us
  assume a: "fc_good s" "assertValidCounterVector us = Inr ()" "distinct (map fst us)"
  let ?d = "(fc_data s)\<lparr>cd_counters := put_counters cid us (cd_counters (fc_data s))\<rparr>"
  have "fc_good (Version1 ?d) \<and> fc_data (Version1 ?d) = ?d"
    using fc_goodD [OF a(1)] a(2) by (intro fc_good_Version1) (simp_all add: valid_put_counters assertValidCounterVector_iff)
  moreover have "sa_saveCounters file_storage_api cid us s = (Version1 ?d, Inr ())"
    using a by (simp add: file_storage_api_def fc_saveCounters_def fc_mutate_def fc_good_def)
  ultimately show "\<exists>s'. sa_saveCounters file_storage_api cid us s = (s', Inr ()) \<and> fc_good s' \<and>
      map_of (cd_payloads (fc_data s')) = map_of (cd_payloads (fc_data s)) \<and>
      (\<forall>sid. map_of (cd_counters (fc_data s')) (counter_key cid sid) =
        (case map_of us sid of None \<Rightarrow> map_of (cd_counters (fc_data s)) (counter_key cid sid) | Some n \<Rightarrow> Some n))"
    using a(3) by (auto simp: map_of_put_counters)
qed (auto simp: file_storage_api_def fc_load_def fc_loadCounter_def fc_good_def dest: readData_Inr valid_lookup)

text \<open>\<open>delete\<close> removes a payload and its counters, but also the counters of every client whose id
  continues this one after a colon.\<close>

lemma mc_delete_reaches_other_clients:
  "map_of (mc_counters (fst (mc_delete a st))) (counter_key (a @ CHR '':'' # b) sid) = None"
  by (auto simp: mc_delete_def drop_counters_def startsWith_def counter_key_def map_of_eq_None_iff)

lemma mc_delete_payload: "map_of (mc_store (fst (mc_delete a st))) = (map_of (mc_store st))(a := None)"
  by (simp add: mc_delete_def)

text \<open>A client that started on a file had a file that could be read.\<close>

lemma client_init_secret:
  "client_init api (new_TSKClient cid secret st) = (c, Inr ()) \<Longrightarrow> \<exists>s. secret = Some s \<and> s \<noteq> []"
  by (cases secret) (auto simp: client_init_def new_TSKClient_def Let_def split: sum.splits option.splits if_splits prod.splits)

lemma file_init_in_step:
  assumes i: "client_init file_storage_api (new_TSKClient cid (Some secret) file) = (c, Inr ())"
    and p: "tc_payload c = Some p" "distinct (map cs_id (pp_clientSegments p))" and "secret \<noteq> []"
  shows "file_cl.in_step c \<and> tc_clientId c = cid \<and> tc_configSecret c = Some secret"
proof -
  obtain d where d: "readData file = Inr d" and "map_of (cd_payloads d) cid = Some p"
    using i p(1) by (auto simp: client_init_def new_TSKClient_def Let_def file_storage_api_def fc_load_def bind_res_Inr_iff
      split: sum.splits option.splits if_splits prod.splits)
  then have "fc_good file" "map_of (cd_payloads (fc_data file)) cid = Some p" by (simp_all add: fc_good_def fc_data_def)
  from file_cl.restart_ok [OF this p(2) assms(4)] i show ?thesis by auto
qed

text \<open>C32: The counters of a client survive its restarts. A client that started on its file storage makes
  requests one after the other. Whatever the server and the network answer, each of its HOTP counters
  has advanced by exactly the number of responses that confirm the authentication; and a new client
  started on the file as it is then has the same payload and the same counters.\<close>

theorem client_counters_survive_restart:
  assumes "client_init file_storage_api (new_TSKClient cid secret file) = (c, Inr ())"
    and "tc_payload c = Some p" and "distinct (map cs_id (pp_clientSegments p))"
    and "client_session file_storage_api H server ts c w = (c', w', rs)"
  shows "(\<forall>sid \<in> hotp_ids (pp_clientSegments p). map_of (tc_counters c') sid =
       map_option (\<lambda>n. n + int (length (filter authenticated_response rs))) (map_of (tc_counters c) sid)) \<and>
    (\<exists>c''. client_init file_storage_api (new_TSKClient cid secret (tc_storage c')) = (c'', Inr ()) \<and> tc_payload c'' = Some p \<and>
      (\<forall>sid \<in> hotp_ids (pp_clientSegments p). map_of (tc_counters c'') sid = map_of (tc_counters c') sid))"
proof -
  obtain s where s: "secret = Some s" "s \<noteq> []" using client_init_secret [OF assms(1)] by blast
  have c: "file_cl.in_step c" "tc_clientId c = cid" "tc_configSecret c = Some s"
    using file_init_in_step [OF _ assms(2,3) s(2)] assms(1) s(1) by auto
  note s' = file_cl.session_in_step [OF c(1) assms(2,4)]
  then have "tc_clientId c' = cid" "tc_configSecret c' = Some s" "file_cl.in_step c'" "tc_payload c' = Some p" using c by auto
  from file_cl.in_step_restart [OF this(3,4,2) s(2)] this(1) s(1) s' show ?thesis by auto
qed

definition example_file :: client_file where
  "example_file = Version1 \<lparr>cd_payloads = [(''tsk_0'', toProvisionPayload example_map)], cd_counters = []\<rparr>"

definition example_server :: "(string \<times> string) list \<Rightarrow> unit \<Rightarrow> unit \<times> (string \<times> string) list res" where
  "example_server headers w = (w, Inr [(HEADER_AUTHENTICATED, ''1'')])"

definition example_client :: "client_file TSKClient" where
  "example_client =
     \<lparr>tc_clientId = ''tsk_0'', tc_configSecret = Some example_secret, tc_storage = example_file,
      tc_payload = Some (toProvisionPayload example_map), tc_sharedSecret = Some example_secret,
      tc_counters = [(''seg_3'', 4)], tc_initialized = True\<rparr>"

lemma example_client_init:
  "client_init file_storage_api (new_TSKClient ''tsk_0'' (Some example_secret) example_file) = (example_client, Inr ())"
  by code_simp

theorem client_counters_survive_restart_witness:
  "\<exists>c' w' rs. client_session file_storage_api (\<lambda>k d. of_nat (length d)) example_server [1000, 2000] example_client () = (c', w', rs) \<and>
     map_of (tc_counters c') ''seg_3'' = Some (4 + int (length (filter authenticated_response rs))) \<and>
     (\<exists>c''. client_init file_storage_api (new_TSKClient ''tsk_0'' (Some example_secret) (tc_storage c')) = (c'', Inr ()) \<and>
        map_of (tc_counters c'') ''seg_3'' = map_of (tc_counters c') ''seg_3'')"
proof -
  obtain c' w' rs where s:
    "client_session file_storage_api (\<lambda>k d. of_nat (length d)) example_server [1000, 2000] example_client () = (c', w', rs)"
    using prod_cases3 by blast
  have p: "tc_payload example_client = Some (toProvisionPayload example_map)" by (simp add: example_client_def)
  have d: "distinct (map cs_id (pp_clientSegments (toProvisionPayload example_map)))" by code_simp
  have h: "hotp_ids (pp_clientSegments (toProvisionPayload example_map)) = {''seg_3''}"
    by (simp add: toProvisionPayload_def toClientSegment_def example_map_def example_segments_def)
  have c: "map_of (tc_counters example_client) ''seg_3'' = Some 4" by (simp add: example_client_def)
  show ?thesis using client_counters_survive_restart [OF example_client_init p d s] s unfolding h by (auto simp: c)
qed

end
