(* ===== verification/Failover.thy ===== *)
theory Failover
  imports TSK_Types
begin

text \<open>
  The endpoint selection of \<^verbatim>\<open>packages/client-sdk/src/failover-transport.ts\<close>: reads go to the first healthy
  endpoint that answers, writes go to the primary only, and an endpoint is taken out of the chain
  after a run of consecutive misses. The injected \<^verbatim>\<open>fetch\<close> is a parameter: it acts on a world and answers
  with a response or fails, a timeout included; \<open>clock\<close> reads \<^verbatim>\<open>Date.now()\<close> from the world.
\<close>

section \<open>The transport\<close>

record EndpointState =
  ep_url :: string
  ep_healthy :: bool
  ep_streak :: int
  ep_streakStartedAt :: "int option"

record FailoverConfig =
  fo_primary :: string
  fo_replicas :: "string list option"
  fo_healthPath :: "string option"
  fo_missThreshold :: "int option"
  fo_windowMs :: "int option"

record FailoverTransport =
  ft_primary :: EndpointState
  ft_replicas :: "EndpointState list"
  ft_healthPath :: string
  ft_missThreshold :: int
  ft_windowMs :: int

record http_response =
  hr_status :: int
  hr_body :: string

definition hr_ok :: "http_response \<Rightarrow> bool" where
  "hr_ok res \<longleftrightarrow> 200 \<le> hr_status res \<and> hr_status res < 300"

text \<open>A request: method and URL.\<close>

type_synonym 'w http_fetch = "string \<Rightarrow> string \<Rightarrow> 'w \<Rightarrow> 'w \<times> http_response res"

definition fresh_endpoint :: "string \<Rightarrow> EndpointState" where
  "fresh_endpoint url = \<lparr>ep_url = url, ep_healthy = True, ep_streak = 0, ep_streakStartedAt = None\<rparr>"

definition new_FailoverTransport :: "FailoverConfig \<Rightarrow> FailoverTransport" where
  "new_FailoverTransport cfg =
     \<lparr>ft_primary = fresh_endpoint (fo_primary cfg), ft_replicas = map fresh_endpoint (nullish (fo_replicas cfg) []),
      ft_healthPath = nullish (fo_healthPath cfg) ''/health'', ft_missThreshold = nullish (fo_missThreshold cfg) 3,
      ft_windowMs = nullish (fo_windowMs cfg) 15000\<rparr>"

definition activeReadUrl :: "FailoverTransport \<Rightarrow> string" where
  "activeReadUrl t =
     (if ep_healthy (ft_primary t) then ep_url (ft_primary t)
      else ep_url (nullish (find ep_healthy (ft_replicas t)) (ft_primary t)))"

definition recordSuccess :: "EndpointState \<Rightarrow> EndpointState" where
  "recordSuccess ep = ep\<lparr>ep_streak := 0, ep_streakStartedAt := None, ep_healthy := True\<rparr>"

definition recordMiss :: "FailoverTransport \<Rightarrow> int \<Rightarrow> EndpointState \<Rightarrow> EndpointState" where
  "recordMiss t now ep =
     (let ep1 = (case ep_streakStartedAt ep of
            None \<Rightarrow> ep\<lparr>ep_streak := 1, ep_streakStartedAt := Some now\<rparr>
          | Some started \<Rightarrow>
              if now - started > ft_windowMs t then ep\<lparr>ep_streak := 1, ep_streakStartedAt := Some now\<rparr>
              else ep\<lparr>ep_streak := ep_streak ep + 1\<rparr>)
      in if ep_streak ep1 \<ge> ft_missThreshold t then ep1\<lparr>ep_healthy := False\<rparr> else ep1)"

section \<open>Reads\<close>

text \<open>The two loops of \<^verbatim>\<open>read\<close> over the chain: the healthy endpoints, with misses recorded, and then every
  endpoint once more. Each returns the chain as it leaves it and the response, or the last error.\<close>

fun read_healthy ::
  "'w http_fetch \<Rightarrow> ('w \<Rightarrow> int) \<Rightarrow> FailoverTransport \<Rightarrow> string \<Rightarrow> string \<Rightarrow> EndpointState list \<Rightarrow> string option \<Rightarrow> 'w \<Rightarrow>
   'w \<times> EndpointState list \<times> (string option + http_response)" where
  "read_healthy fetch clock t meth path [] lastErr w = (w, [], Inl lastErr)"
| "read_healthy fetch clock t meth path (ep # eps) lastErr w =
     (if \<not> ep_healthy ep
      then (let (w1, eps1, r) = read_healthy fetch clock t meth path eps lastErr w in (w1, ep # eps1, r))
      else case fetch meth (ep_url ep @ path) w of
        (w1, Inr res) \<Rightarrow> (w1, recordSuccess ep # eps, Inr res)
      | (w1, Inl e) \<Rightarrow>
          (let (w2, eps1, r) = read_healthy fetch clock t meth path eps (Some e) w1
           in (w2, recordMiss t (clock w1) ep # eps1, r)))"

fun read_any ::
  "'w http_fetch \<Rightarrow> string \<Rightarrow> string \<Rightarrow> EndpointState list \<Rightarrow> string option \<Rightarrow> 'w \<Rightarrow>
   'w \<times> EndpointState list \<times> (string option + http_response)" where
  "read_any fetch meth path [] lastErr w = (w, [], Inl lastErr)"
| "read_any fetch meth path (ep # eps) lastErr w =
     (case fetch meth (ep_url ep @ path) w of
        (w1, Inr res) \<Rightarrow> (w1, recordSuccess ep # eps, Inr res)
      | (w1, Inl e) \<Rightarrow> (let (w2, eps1, r) = read_any fetch meth path eps (Some e) w1 in (w2, ep # eps1, r)))"

definition chain :: "FailoverTransport \<Rightarrow> EndpointState list" where
  "chain t = ft_primary t # ft_replicas t"

definition with_chain :: "EndpointState list \<Rightarrow> FailoverTransport \<Rightarrow> FailoverTransport" where
  "with_chain eps t = (case eps of [] \<Rightarrow> t | p # rs \<Rightarrow> t\<lparr>ft_primary := p, ft_replicas := rs\<rparr>)"

definition ft_read ::
  "'w http_fetch \<Rightarrow> ('w \<Rightarrow> int) \<Rightarrow> string option \<Rightarrow> string \<Rightarrow> FailoverTransport \<Rightarrow> 'w \<Rightarrow> FailoverTransport \<times> 'w \<times> http_response res" where
  "ft_read fetch clock meth path t w =
     (case read_healthy fetch clock t (nullish meth ''GET'') path (chain t) None w of
        (w1, eps1, Inr res) \<Rightarrow> (with_chain eps1 t, w1, Inr res)
      | (w1, eps1, Inl lastErr) \<Rightarrow>
          (case read_any fetch (nullish meth ''GET'') path eps1 lastErr w1 of
             (w2, eps2, Inr res) \<Rightarrow> (with_chain eps2 t, w2, Inr res)
           | (w2, eps2, Inl lastErr') \<Rightarrow> (with_chain eps2 t, w2, Inl (nullish lastErr' ''all endpoints failed''))))"

section \<open>Writes and probes\<close>

definition ft_write ::
  "'w http_fetch \<Rightarrow> ('w \<Rightarrow> int) \<Rightarrow> string option \<Rightarrow> string \<Rightarrow> FailoverTransport \<Rightarrow> 'w \<Rightarrow> FailoverTransport \<times> 'w \<times> http_response res" where
  "ft_write fetch clock meth path t w =
     (if \<not> ep_healthy (ft_primary t) then (t, w, Inl ''PrimaryUnavailableError'')
      else case fetch (nullish meth ''POST'') (ep_url (ft_primary t) @ path) w of
        (w1, Inr res) \<Rightarrow> (t\<lparr>ft_primary := recordSuccess (ft_primary t)\<rparr>, w1, Inr res)
      | (w1, Inl e) \<Rightarrow> (t\<lparr>ft_primary := recordMiss t (clock w1) (ft_primary t)\<rparr>, w1, Inl e))"

text \<open>What a probe makes of its answer, which arrives at time \<open>now\<close>.\<close>

definition probe :: "FailoverTransport \<Rightarrow> http_response res \<times> int \<Rightarrow> EndpointState \<Rightarrow> EndpointState \<times> bool" where
  "probe t answer ep =
     (case answer of
        (Inr res, now) \<Rightarrow>
          if hr_ok res then (recordSuccess ep, True)
          else (let ep1 = recordMiss t now ep in (ep1, ep_healthy ep1))
      | (Inl _, now) \<Rightarrow> (let ep1 = recordMiss t now ep in (ep1, ep_healthy ep1)))"

definition probePrimary :: "'w http_fetch \<Rightarrow> ('w \<Rightarrow> int) \<Rightarrow> FailoverTransport \<Rightarrow> 'w \<Rightarrow> FailoverTransport \<times> 'w \<times> bool" where
  "probePrimary fetch clock t w =
     (let (w1, answer) = fetch ''GET'' (ep_url (ft_primary t) @ ft_healthPath t) w;
          (p, b) = probe t (answer, clock w1) (ft_primary t)
      in (t\<lparr>ft_primary := p\<rparr>, w1, b))"

text \<open>\<^verbatim>\<open>probeAll\<close> probes all endpoints at once; each answer concerns its own endpoint, so the answers are
  given one per endpoint, in whatever order they came. The result is the health map by URL.\<close>

definition probeAll :: "(http_response res \<times> int) list \<Rightarrow> FailoverTransport \<Rightarrow> FailoverTransport \<times> (string \<times> bool) list" where
  "probeAll answers t =
     (let eps = map2 (\<lambda>a ep. fst (probe t a ep)) answers (chain t)
      in (with_chain eps t, foldl (\<lambda>m ep. omap_set (ep_url ep) (ep_healthy ep) m) [] eps))"

section \<open>What the transport promises\<close>

lemma recordMiss_url [simp]: "ep_url (recordMiss t now ep) = ep_url ep"
  by (simp add: recordMiss_def Let_def split: option.splits)

lemma recordSuccess_url [simp]: "ep_url (recordSuccess ep) = ep_url ep"
  by (simp add: recordSuccess_def)

lemma read_healthy_urls:
  "read_healthy fetch clock t meth path eps err w = (w', eps', r) \<Longrightarrow> map ep_url eps' = map ep_url eps"
  by (induction eps arbitrary: err w eps') (auto simp: Let_def split: if_splits prod.splits sum.splits)

lemma read_any_urls: "read_any fetch meth path eps err w = (w', eps', r) \<Longrightarrow> map ep_url eps' = map ep_url eps"
  by (induction eps arbitrary: err w eps') (auto simp: Let_def split: prod.splits sum.splits)

lemma read_any_answers:
  assumes "ep \<in> set eps" and "\<And>w. \<exists>w' res. fetch meth (ep_url ep @ path) w = (w', Inr res)"
  shows "\<exists>w' eps' res. read_any fetch meth path eps err w = (w', eps', Inr res)"
  using assms(1)
proof (induction eps arbitrary: err w)
  case (Cons e eps)
  show ?case
  proof (cases "fetch meth (ep_url e @ path) w")
    case (Pair w1 r)
    show ?thesis
    proof (cases r)
      case (Inl x)
      with Pair assms(2) [of w] have "e \<noteq> ep" by auto
      with Cons.prems have "ep \<in> set eps" by auto
      from Cons.IH [OF this, of "Some x" w1] Pair Inl show ?thesis by auto
    next
      case (Inr res)
      with Pair show ?thesis by simp
    qed
  qed
qed simp

lemma chain_with_chain: "map ep_url eps = map ep_url (chain t) \<Longrightarrow> chain (with_chain eps t) = eps"
  by (auto simp: chain_def with_chain_def split: list.splits)

text \<open>A write reaches the primary and nothing else: it is the same for any two networks that agree on the
  primary, and it does nothing at all while the primary counts as unhealthy.\<close>

lemma ft_write_primary_only:
  assumes "\<And>m w. fetch m (ep_url (ft_primary t) @ path) w = fetch' m (ep_url (ft_primary t) @ path) w"
  shows "ft_write fetch clock meth path t w = ft_write fetch' clock meth path t w"
  using assms by (simp add: ft_write_def)

lemma ft_write_unhealthy:
  "\<not> ep_healthy (ft_primary t) \<Longrightarrow> ft_write fetch clock meth path t w = (t, w, Inl ''PrimaryUnavailableError'')"
  by (simp add: ft_write_def)

text \<open>Misses within the window of the first one, after an answer: the endpoint stays in the chain as long
  as there are fewer of them than the threshold.\<close>

lemma recordMiss_streak:
  assumes "ep_streakStartedAt ep = Some s" and "\<And>x. x \<in> set ts \<Longrightarrow> x - s \<le> ft_windowMs t" and "0 < ft_missThreshold t"
    and "ep_healthy ep \<longleftrightarrow> ep_streak ep < ft_missThreshold t"
  shows "ep_healthy (foldl (\<lambda>ep now. recordMiss t now ep) ep ts) \<longleftrightarrow> ep_streak ep + int (length ts) < ft_missThreshold t"
  using assms
proof (induction ts arbitrary: ep)
  case (Cons x ts)
  let ?ep = "recordMiss t x ep"
  have st: "ep_streakStartedAt ?ep = Some s" "ep_streak ?ep = ep_streak ep + 1"
    and h: "ep_healthy ?ep \<longleftrightarrow> ep_healthy ep \<and> ep_streak ep + 1 < ft_missThreshold t"
    using Cons.prems(1) Cons.prems(2) [of x] by (auto simp: recordMiss_def Let_def)
  have "ep_healthy ?ep \<longleftrightarrow> ep_streak ?ep < ft_missThreshold t" using h st(2) Cons.prems(4) by auto
  with Cons.IH [OF st(1)] Cons.prems(2,3) st(2) show ?case by (auto simp: algebra_simps)
qed simp

lemma misses_in_window:
  assumes "\<And>x. x \<in> set ts \<Longrightarrow> x - s \<le> ft_windowMs t" and "0 < ft_missThreshold t"
  shows "ep_healthy (foldl (\<lambda>ep now. recordMiss t now ep) (recordSuccess ep) (s # ts)) \<longleftrightarrow> 1 + int (length ts) < ft_missThreshold t"
proof -
  let ?ep = "recordMiss t s (recordSuccess ep)"
  have "ep_streakStartedAt ?ep = Some s" "ep_streak ?ep = 1" "ep_healthy ?ep \<longleftrightarrow> 1 < ft_missThreshold t"
    by (auto simp: recordMiss_def recordSuccess_def Let_def)
  with recordMiss_streak [of ?ep s ts t] assms show ?thesis by simp
qed

text \<open>Any response counts as a success of a read, whatever its status: a read that finds every endpoint
  unhealthy and is answered 503 by the primary puts the primary back, and with it the writes.\<close>

lemma error_response_restores_primary:
  assumes "list_all (\<lambda>ep. \<not> ep_healthy ep) (chain t)"
    and "fetch (nullish meth ''GET'') (ep_url (ft_primary t) @ path) w = (w', Inr \<lparr>hr_status = 503, hr_body = b\<rparr>)"
  shows "ep_healthy (ft_primary (fst (ft_read fetch clock meth path t w)))"
proof -
  have "read_healthy fetch clock t m path eps err w = (w, eps, Inl err)" if "list_all (\<lambda>ep. \<not> ep_healthy ep) eps" for m eps err
    using that by (induction eps) auto
  then show ?thesis using assms by (simp add: ft_read_def chain_def with_chain_def recordSuccess_def)
qed

text \<open>A read gets an answer whenever some endpoint answers. If the fetches to one endpoint of the chain,
  the primary or a replica, never fail, then \<^verbatim>\<open>read\<close> returns a response, whatever the other endpoints do
  and however the endpoints are marked; the endpoints and their order stay as configured.\<close>

theorem read_reaches_live_endpoint:
  assumes "ep \<in> set (chain t)"
    and "\<And>w. \<exists>w' res. fetch (nullish meth ''GET'') (ep_url ep @ path) w = (w', Inr res)"
  shows "\<exists>t' w' res. ft_read fetch clock meth path t w = (t', w', Inr res) \<and> map ep_url (chain t') = map ep_url (chain t)"
proof -
  obtain w1 eps1 r1 where h: "read_healthy fetch clock t (nullish meth ''GET'') path (chain t) None w = (w1, eps1, r1)"
    by (cases "read_healthy fetch clock t (nullish meth ''GET'') path (chain t) None w") auto
  note u1 = read_healthy_urls [OF h]
  show ?thesis
  proof (cases r1)
    case (Inr res)
    with h u1 show ?thesis by (simp add: ft_read_def chain_with_chain)
  next
    case (Inl err)
    obtain ep1 where ep1: "ep1 \<in> set eps1" "ep_url ep1 = ep_url ep"
      using assms(1) u1 by (metis imageE image_eqI list.set_map)
    obtain w2 eps2 res where a: "read_any fetch (nullish meth ''GET'') path eps1 err w1 = (w2, eps2, Inr res)"
      using read_any_answers [OF ep1(1), of fetch "nullish meth ''GET''" path err w1] assms(2) ep1(2) by auto
    from read_any_urls [OF a] u1 have "map ep_url eps2 = map ep_url (chain t)" by simp
    with h Inl a show ?thesis by (simp add: ft_read_def chain_with_chain)
  qed
qed

definition example_transport :: FailoverTransport where
  "example_transport =
     new_FailoverTransport \<lparr>fo_primary = ''http://a'', fo_replicas = Some [''http://b''], fo_healthPath = None,
       fo_missThreshold = Some 1, fo_windowMs = None\<rparr>"

text \<open>A network in which only the replica answers; the world is the clock.\<close>

definition example_net :: "int http_fetch" where
  "example_net meth url w =
     (w + 1, if url = ''http://b/x'' then Inr \<lparr>hr_status = 200, hr_body = ''ok''\<rparr> else Inl ''timeout'')"

theorem read_reaches_live_endpoint_witness:
  "fresh_endpoint ''http://b'' \<in> set (chain example_transport) \<and>
   (\<exists>t' w' res. ft_read example_net id None ''/x'' example_transport 0 = (t', w', Inr res) \<and>
      map ep_url (chain t') = map ep_url (chain example_transport)) \<and>
   \<not> ep_healthy (ft_primary (fst (ft_read example_net id None ''/x'' example_transport 0)))"
proof (intro conjI)
  show m: "fresh_endpoint ''http://b'' \<in> set (chain example_transport)"
    by (simp add: example_transport_def new_FailoverTransport_def chain_def)
  show "\<exists>t' w' res. ft_read example_net id None ''/x'' example_transport 0 = (t', w', Inr res) \<and>
      map ep_url (chain t') = map ep_url (chain example_transport)"
    by (rule read_reaches_live_endpoint [OF m]) (simp add: example_net_def fresh_endpoint_def)
  show "\<not> ep_healthy (ft_primary (fst (ft_read example_net id None ''/x'' example_transport 0)))"
    by code_simp
qed

end
