(* ===== verification/File_Store.thy ===== *)
theory File_Store
  imports Replica_Receiver
begin

text \<open>
  The file-backed store of \<^verbatim>\<open>packages/server/src/file-store.ts\<close>. Every operation is one transaction under an
  exclusive lock file: it reads and validates the file, computes a candidate and replaces the file
  by the candidate. The state is the file and its lock, shared by every instance and process; the
  \<^verbatim>\<open>data\<close> field of an instance is read only inside a transaction, after it was loaded, so it is not part of
  the state. What the file system and the clock do in a transaction is an argument of the operation.
  A process may be killed in the middle of a transaction.
\<close>

section \<open>The file and its validation\<close>

record FileTumblerData =
  fd_maps :: "(string \<times> TumblerMap) list"
  fd_lastAccess :: "(string \<times> int) list"

text \<open>The file is absent, has a JSON value, or is none (unparsable, a link, not a regular file).\<close>

datatype backing = Absent | Content jsval | Unsafe_file

record file_state =
  fs_disk :: backing
  fs_lock :: bool

definition data_js :: "FileTumblerData \<Rightarrow> jsval" where
  "data_js d = JObject
     [(''maps'', JObject (map (\<lambda>p. (fst p, map_js (snd p))) (fd_maps d))),
      (''lastAccess'', JObject (map (\<lambda>p. (fst p, jint (snd p))) (fd_lastAccess d)))]"

definition js_entries :: "jsval \<Rightarrow> (string \<times> jsval) list" where
  "js_entries v = (case v of JObject ps \<Rightarrow> ps | _ \<Rightarrow> [])"

definition js_data :: "jsval \<Rightarrow> FileTumblerData" where
  "js_data v =
     \<lparr>fd_maps = map (\<lambda>p. (fst p, js_map (snd p))) (js_entries (js_get v ''maps'')),
      fd_lastAccess = map (\<lambda>p. (fst p, int_of (snd p))) (js_entries (js_get v ''lastAccess''))\<rparr>"

definition is_record :: "jsval \<Rightarrow> bool" where
  "is_record v = (case v of JObject _ \<Rightarrow> True | _ \<Rightarrow> False)"

definition validClientId :: "string \<Rightarrow> bool" where
  "validClientId s \<longleftrightarrow> s \<noteq> [] \<and> length s \<le> 128 \<and> s \<notin> {''__proto__'', ''constructor'', ''prototype''}"

abbreviation natural :: "jsval \<Rightarrow> bool" where
  "natural \<equiv> isSafeNonNegativeInteger"

text \<open>\<^verbatim>\<open>assertTumblerMapCounterState\<close> on an untyped map. The counters of the wrong type that the reading as a
  map hides are rejected by the tests of the segments that follow.\<close>

definition raw_counter_state :: "jsval \<Rightarrow> unit res" where
  "raw_counter_state v =
     (if optional_ok isSafeInt (js_get v ''hotpRotationWarningCounters'') then assertTumblerMapCounterState (js_map v)
      else Inl ''TSK_HOTP_ROTATION_WARNING_INVALID'')"

fun file_segments :: "int \<Rightarrow> jsval list \<Rightarrow> int \<Rightarrow> string list \<Rightarrow> int res" where
  "file_segments keyLength [] cursor ids = Inr cursor"
| "file_segments keyLength (s # ss) cursor ids =
     (let sid = js_get s ''segmentId''; ty = js_get s ''type'' in
      case (sid, safe_pair (js_get s ''position'')) of
        (JString i, Some (start, stop)) \<Rightarrow>
          if \<not> is_record s \<or> i = [] \<or> i \<in> set ids \<or> start < 0 \<or> stop < 0 \<or> start \<noteq> cursor \<or> stop \<le> cursor \<or> keyLength < stop \<or>
             ty \<notin> {JString ''hotp'', JString ''totp'', JString ''static''} then Inl ''invalid segment''
          else if ty = JString ''hotp'' \<and> \<not> natural (js_get s ''counter'') then Inl ''invalid counter''
          else if ty = JString ''totp'' \<and> (\<not> natural (js_get s ''windowSec'') \<or> int_of (js_get s ''windowSec'') = 0) then Inl ''invalid window''
          else file_segments keyLength ss stop (i # ids)
      | _ \<Rightarrow> Inl ''invalid segment'')"

definition validate_entry :: "jsval \<Rightarrow> string \<Rightarrow> jsval \<Rightarrow> unit res" where
  "validate_entry access i m =
     (let keyLength = int_of (js_get m ''keyLength'') in
      if \<not> validClientId i \<or> \<not> is_record m \<or> js_get m ''clientId'' \<noteq> JString i \<or> js_get m ''version'' \<noteq> JString ''1'' \<or>
         (case js_get m ''sharedSecret'' of JString s \<Rightarrow> length s \<noteq> 64 \<or> \<not> list_all is_hex_char s | _ \<Rightarrow> True) \<or>
         \<not> natural (js_get m ''createdAt'') \<or> \<not> natural (js_get m ''keyLength'') \<or> keyLength < 20 \<or> 512 < keyLength \<or>
         (case js_get m ''segments'' of JArray ss \<Rightarrow> ss = [] | _ \<Rightarrow> True) \<or> \<not> is_record (js_get m ''checksum'')
      then Inl ''invalid map''
      else
        bind_res (raw_counter_state m) (\<lambda>_.
        bind_res (file_segments keyLength (js_list (js_get m ''segments'')) 0 []) (\<lambda>cursor.
          if safe_pair (js_get (js_get m ''checksum'') ''position'') \<noteq> Some (cursor, keyLength) \<or> keyLength \<le> cursor
          then Inl ''invalid checksum''
          else if \<not> list_all (\<lambda>k. optional_ok natural (js_get m k)) [''expiresAt'', ''requestCount'', ''maxRequests'', ''rotationWarningRequests'']
          then Inl ''invalid lifecycle number''
          else if js_get m ''lastUsedAt'' \<noteq> JNull \<and> \<not> optional_ok natural (js_get m ''lastUsedAt'') then Inl ''invalid last use''
          else if \<not> optional_ok (\<lambda>s. s \<in> status_js ` {Active, Expiring, Revoked, Expired}) (js_get m ''status'') then Inl ''invalid status''
          else if \<not> natural (js_get access i) then Inl ''invalid access time''
          else Inr ())))"

definition validateFileData :: "jsval \<Rightarrow> unit res" where
  "validateFileData v =
     (let maps = js_get v ''maps''; access = js_get v ''lastAccess'' in
      if \<not> is_record v \<or> \<not> is_record maps \<or> \<not> is_record access then Inl ''invalid store envelope''
      else
        bind_res (check_all (\<lambda>p. validate_entry access (fst p) (snd p)) (js_entries maps)) (\<lambda>_.
        check_all (\<lambda>p. if \<not> omap_has (fst p) (js_entries maps) \<or> \<not> natural (snd p) then Inl ''invalid access entry'' else Inr ())
          (js_entries access)))"

definition fs_load :: "backing \<Rightarrow> FileTumblerData res" where
  "fs_load disk =
     (case disk of
        Absent \<Rightarrow> Inr \<lparr>fd_maps = [], fd_lastAccess = []\<rparr>
      | Content v \<Rightarrow> (case validateFileData v of Inl _ \<Rightarrow> Inl ''TSK_FILE_STORE_CORRUPT'' | Inr _ \<Rightarrow> Inr (js_data v))
      | Unsafe_file \<Rightarrow> Inl ''TSK_FILE_STORE_CORRUPT'')"

section \<open>Transactions\<close>

text \<open>What the environment does in one transaction: the readings of the clock, and whether the lock file
  could be written, the candidate reached the file, and the lock is still ours at the end.\<close>

record fs_env =
  fe_now :: int
  fe_touch :: int
  fe_touch2 :: int
  fe_lock_written :: bool
  fe_write_ok :: bool
  fe_lock_ours :: bool

definition fs_flush :: "fs_env \<Rightarrow> FileTumblerData \<Rightarrow> backing \<Rightarrow> backing \<times> unit res" where
  "fs_flush env candidate disk =
     (case validateFileData (data_js candidate) of
        Inl e \<Rightarrow> (disk, Inl e)
      | Inr _ \<Rightarrow> if fe_write_ok env then (Content (data_js candidate), Inr ()) else (disk, Inl ''TSK_FILE_STORE_WRITE_FAILED''))"

text \<open>The work of a transaction: an error, or the candidate to flush, if any, and the value to return.\<close>

definition fs_transaction ::
  "fs_env \<Rightarrow> (FileTumblerData \<Rightarrow> (FileTumblerData option \<times> 'a) res) \<Rightarrow> file_state \<Rightarrow> file_state \<times> 'a res" where
  "fs_transaction env operation st =
     (if fs_lock st then (st, Inl ''TSK_FILE_STORE_LOCK_UNAVAILABLE'')
      else
        let (disk, r) =
          (if \<not> fe_lock_written env then (fs_disk st, Inl ''EIO'')
           else case fs_load (fs_disk st) of
             Inl e \<Rightarrow> (fs_disk st, Inl e)
           | Inr d \<Rightarrow>
               (case operation d of
                  Inl e \<Rightarrow> (fs_disk st, Inl e)
                | Inr (None, a) \<Rightarrow> (fs_disk st, Inr a)
                | Inr (Some candidate, a) \<Rightarrow>
                    (let (disk', u) = fs_flush env candidate (fs_disk st) in (disk', bind_res u (\<lambda>_. Inr a)))))
        in if fe_lock_ours env then (st\<lparr>fs_disk := disk\<rparr>, r)
           else (st\<lparr>fs_disk := disk, fs_lock := True\<rparr>, Inl ''TSK_FILE_STORE_LOCK_CHANGED''))"

section \<open>The operations\<close>

record FileTumblerStore =
  fs_maxEntries :: int
  fs_maxAgeMs :: int

definition new_FileTumblerStore :: "int option \<Rightarrow> int option \<Rightarrow> file_state \<Rightarrow> FileTumblerStore res" where
  "new_FileTumblerStore maxEntries maxAgeSec st =
     (let n = nullish maxEntries 100000; age = nullish maxAgeSec (90 * 24 * 3600) in
      if n > MAX_SAFE_INTEGER \<or> n < 1 \<or> age < 0 \<or> age * 1000 > MAX_SAFE_INTEGER then Inl ''TSK_FILE_STORE_CONFIG_INVALID''
      else bind_res (fs_load (fs_disk st)) (\<lambda>_. Inr \<lparr>fs_maxEntries = n, fs_maxAgeMs = age * 1000\<rparr>))"

definition fs_expired :: "FileTumblerStore \<Rightarrow> fs_env \<Rightarrow> TumblerMap \<Rightarrow> bool" where
  "fs_expired cfg env m \<longleftrightarrow> 0 < fs_maxAgeMs cfg \<and> fs_maxAgeMs cfg < fe_now env - tm_createdAt m"

definition requireClientId :: "string \<Rightarrow> (file_state \<Rightarrow> file_state \<times> 'a res) \<Rightarrow> file_state \<Rightarrow> file_state \<times> 'a res" where
  "requireClientId cid operation st = (if validClientId cid then operation st else (st, Inl ''TSK_FILE_STORE_CLIENT_ID_INVALID''))"

definition put_entry :: "string \<Rightarrow> TumblerMap \<Rightarrow> FileTumblerData \<Rightarrow> FileTumblerData" where
  "put_entry cid m d = d\<lparr>fd_maps := omap_set cid m (fd_maps d)\<rparr>"

definition touch_entry :: "string \<Rightarrow> int \<Rightarrow> FileTumblerData \<Rightarrow> FileTumblerData" where
  "touch_entry cid t d = d\<lparr>fd_lastAccess := omap_set cid t (fd_lastAccess d)\<rparr>"

definition drop_entry :: "string \<Rightarrow> FileTumblerData \<Rightarrow> FileTumblerData" where
  "drop_entry cid d = d\<lparr>fd_maps := omap_delete cid (fd_maps d), fd_lastAccess := omap_delete cid (fd_lastAccess d)\<rparr>"

definition fs_set :: "FileTumblerStore \<Rightarrow> fs_env \<Rightarrow> string \<Rightarrow> TumblerMap \<Rightarrow> file_state \<Rightarrow> file_state \<times> unit res" where
  "fs_set cfg env cid m =
     requireClientId cid (\<lambda>st.
       case assertTumblerMapCounterState m of
         Inl e \<Rightarrow> (st, Inl e)
       | Inr _ \<Rightarrow> fs_transaction env (\<lambda>d.
           if \<not> omap_has cid (fd_maps d) \<and> fs_maxEntries cfg \<le> int (length (fd_maps d)) then Inl ''TSK_STORE_CAPACITY_REACHED''
           else Inr (Some (touch_entry cid (fe_touch env) (put_entry cid m d)), ())) st)"

text \<open>A read records the access time only in the copy the transaction discards.\<close>

definition fs_get :: "FileTumblerStore \<Rightarrow> fs_env \<Rightarrow> string \<Rightarrow> file_state \<Rightarrow> file_state \<times> TumblerMap option res" where
  "fs_get cfg env cid =
     requireClientId cid (fs_transaction env (\<lambda>d.
       case map_of (fd_maps d) cid of
         None \<Rightarrow> Inr (None, None)
       | Some m \<Rightarrow> if fs_expired cfg env m then Inr (Some (drop_entry cid d), None) else Inr (None, Some m)))"

definition fs_delete :: "fs_env \<Rightarrow> string \<Rightarrow> file_state \<Rightarrow> file_state \<times> unit res" where
  "fs_delete env cid = requireClientId cid (fs_transaction env (\<lambda>d. Inr (Some (drop_entry cid d), ())))"

definition fs_list :: "FileTumblerStore \<Rightarrow> fs_env \<Rightarrow> file_state \<Rightarrow> file_state \<times> string list res" where
  "fs_list cfg env = fs_transaction env (\<lambda>d. Inr (None, map fst (filter (\<lambda>p. \<not> fs_expired cfg env (snd p)) (fd_maps d))))"

definition fs_updateCounters ::
  "FileTumblerStore \<Rightarrow> fs_env \<Rightarrow> string \<Rightarrow> (string \<times> int) list \<Rightarrow> file_state \<Rightarrow> file_state \<times> unit res" where
  "fs_updateCounters cfg env cid updates =
     requireClientId cid (fs_transaction env (\<lambda>d.
       case map_of (fd_maps d) cid of
         None \<Rightarrow> Inl ''TSK_FILE_STORE_CLIENT_MISSING''
       | Some m \<Rightarrow>
           if fs_expired cfg env m then Inl ''TSK_FILE_STORE_CLIENT_EXPIRED''
           else (let (m', r) = update_map_counters m updates in bind_res r (\<lambda>_. Inr (Some (put_entry cid m' d), ())))))"

text \<open>The work of \<^verbatim>\<open>consumeCounter\<close> on the map of the client; it flushes only where the source does.\<close>

definition consume_work :: "string \<Rightarrow> string \<Rightarrow> int \<Rightarrow> TumblerMap \<Rightarrow> FileTumblerData \<Rightarrow> (FileTumblerData option \<times> bool) res" where
  "consume_work cid sid matchedCounter m d =
     (case segment_find (tm_segments m) sid of
        None \<Rightarrow> Inr (None, False)
      | Some seg \<Rightarrow>
          if seg_type seg \<noteq> Hotp then Inr (None, False)
          else
            let stored = nullish (seg_counter seg) 0 in
            if \<not> isUsableHOTPDerivationCounter (int_val stored) \<or> \<not> isUsableHOTPDerivationCounter (int_val matchedCounter)
            then Inr (Some (put_entry cid (if stored = TSK_MAX_HOTP_COUNTER then m\<lparr>tm_status := Some Expired\<rparr> else m) d), False)
            else if stored > matchedCounter then Inr (None, False)
            else (let (m', r) = reconcile_remaining (m\<lparr>tm_segments := set_counter_first sid (matchedCounter + 1) (tm_segments m)\<rparr>)
                  in bind_res r (\<lambda>_. Inr (Some (put_entry cid m' d), True))))"

definition fs_consumeCounter ::
  "FileTumblerStore \<Rightarrow> fs_env \<Rightarrow> string \<Rightarrow> string \<Rightarrow> int \<Rightarrow> file_state \<Rightarrow> file_state \<times> bool res" where
  "fs_consumeCounter cfg env cid sid matchedCounter =
     requireClientId cid (fs_transaction env (\<lambda>d.
       case map_of (fd_maps d) cid of
         None \<Rightarrow> Inr (None, False)
       | Some m \<Rightarrow> if fs_expired cfg env m then Inr (None, False) else consume_work cid sid matchedCounter m d))"

definition fs_commitValidation ::
  "FileTumblerStore \<Rightarrow> fs_env \<Rightarrow> string \<Rightarrow> ValidationCommitInput \<Rightarrow> file_state \<Rightarrow> file_state \<times> ValidationCommitResult res" where
  "fs_commitValidation cfg env cid input =
     requireClientId cid (fs_transaction env (\<lambda>d.
       case map_of (fd_maps d) cid of
         None \<Rightarrow> Inr (None, commit_fail TSK_KEY_EXPIRED)
       | Some m \<Rightarrow>
           if fs_expired cfg env m then Inr (None, commit_fail TSK_KEY_EXPIRED)
           else (let (m', r) = commitValidationToMap m input in bind_res r (\<lambda>result. Inr (Some (put_entry cid m' d), result)))))"

definition fs_replaceCredential ::
  "FileTumblerStore \<Rightarrow> fs_env \<Rightarrow> string \<Rightarrow> TumblerMap \<Rightarrow> file_state \<Rightarrow> file_state \<times> bool res" where
  "fs_replaceCredential cfg env old replacement =
     requireClientId old (requireClientId (tm_clientId replacement) (\<lambda>st.
       case assertTumblerMapCounterState replacement of
         Inl e \<Rightarrow> (st, Inl e)
       | Inr _ \<Rightarrow> fs_transaction env (\<lambda>d.
           case map_of (fd_maps d) old of
             None \<Rightarrow> Inr (None, False)
           | Some current \<Rightarrow>
               if fs_expired cfg env current \<or>
                  (tm_status current \<noteq> None \<and> tm_status current \<noteq> Some Active \<and> tm_status current \<noteq> Some Expiring)
               then Inr (None, False)
               else if omap_has (tm_clientId replacement) (fd_maps d) then Inr (None, False)
               else
                 let d1 = put_entry old (current\<lparr>tm_status := Some Revoked\<rparr>) d;
                     d2 = (if fs_maxEntries cfg \<le> int (length (fd_maps d1)) then drop_entry old d1 else d1);
                     d3 = put_entry (tm_clientId replacement) replacement d2;
                     d4 = (if omap_has old (fd_maps d3) then touch_entry old (fe_touch env) d3 else d3)
                 in Inr (Some (touch_entry (tm_clientId replacement) (fe_touch2 env) d4), True)) st))"

definition fs_trackedClients :: "fs_env \<Rightarrow> file_state \<Rightarrow> file_state \<times> int res" where
  "fs_trackedClients env = fs_transaction env (\<lambda>d. Inr (None, int (length (fd_maps d))))"

section \<open>What is on the disk\<close>

lemma js_data_data_js [simp]: "js_data (data_js d) = d"
  by (simp add: js_data_def data_js_def js_entries_def comp_def int_of_jint)

definition file_lookup :: "file_state \<Rightarrow> string \<Rightarrow> TumblerMap option" where
  "file_lookup st = (case fs_load (fs_disk st) of Inl _ \<Rightarrow> Map.empty | Inr d \<Rightarrow> map_of (fd_maps d))"

lemma file_segments_ids:
  "file_segments kl ss cursor ids = Inr c \<Longrightarrow>
   distinct (map seg_id (map js_segment ss)) \<and> set (map seg_id (map js_segment ss)) \<inter> set ids = {}"
proof (induction ss arbitrary: cursor ids)
  case (Cons s ss)
  obtain i start stop where i: "js_get s ''segmentId'' = JString i" and p: "safe_pair (js_get s ''position'') = Some (start, stop)"
    using Cons.prems by (cases "js_get s ''segmentId''"; cases "safe_pair (js_get s ''position'')") auto
  have "i \<notin> set ids" and r: "file_segments kl ss stop (i # ids) = Inr c"
    using Cons.prems by (simp_all add: i p Let_def split: if_splits)
  have "seg_id (js_segment s) = i" by (simp add: js_segment_def i js_str_def)
  with Cons.IH [OF r] \<open>i \<notin> set ids\<close> show ?case by auto
qed simp

lemma validate_entry_ok:
  assumes "validate_entry access i m = Inr u"
  shows "counter_state_ok (js_map m) \<and> distinct (map seg_id (tm_segments (js_map m))) \<and> tm_clientId (js_map m) = i"
proof -
  obtain c where "assertTumblerMapCounterState (js_map m) = Inr ()" and c: "file_segments (int_of (js_get m ''keyLength'')) (js_list (js_get m ''segments'')) 0 [] = Inr c"
    and i: "js_get m ''clientId'' = JString i"
    using assms by (auto simp: validate_entry_def Let_def bind_res_Inr_iff raw_counter_state_def split: if_splits)
  moreover have "tm_segments (js_map m) = map js_segment (js_list (js_get m ''segments''))" by (simp add: js_map_def)
  moreover have "tm_clientId (js_map m) = i" using i by (simp add: js_map_def js_str_def)
  ultimately show ?thesis using file_segments_ids [OF c] by (simp add: assertTumblerMapCounterState_iff)
qed

text \<open>Whatever is on the disk, the maps a transaction works on are well formed: the load checks them.\<close>

lemma fs_load_ok:
  assumes "fs_load disk = Inr d" and "map_of (fd_maps d) cid = Some m"
  shows "counter_state_ok m" "distinct (map seg_id (tm_segments m))" "tm_clientId m = cid"
proof -
  obtain v where v: "validateFileData v = Inr ()" "d = js_data v"
    using assms by (auto simp: fs_load_def split: backing.splits sum.splits)
  obtain x where x: "(cid, x) \<in> set (js_entries (js_get v ''maps''))" "m = js_map x"
    using map_of_SomeD [OF assms(2)] by (auto simp: v(2) js_data_def)
  have "\<forall>p \<in> set (js_entries (js_get v ''maps'')). validate_entry (js_get v ''lastAccess'') (fst p) (snd p) = Inr ()"
    using v(1) unfolding validateFileData_def Let_def bind_res_Inr_iff check_all_Inr_iff by (simp add: bind_res_Inr_iff check_all_Inr_iff split: if_splits)
  with x(1) have "validate_entry (js_get v ''lastAccess'') cid x = Inr ()" by force
  then show "counter_state_ok m" "distinct (map seg_id (tm_segments m))" "tm_clientId m = cid"
    using validate_entry_ok x(2) by blast+
qed

lemma fs_flush_cases:
  assumes "fs_flush env candidate disk = (disk', r)"
  shows "(\<exists>e. disk' = disk \<and> r = Inl e) \<or> disk' = Content (data_js candidate) \<and> r = Inr () \<and> fs_load disk' = Inr candidate"
proof (cases "validateFileData (data_js candidate)")
  case (Inl e)
  with assms have "disk' = disk \<and> r = Inl e" by (simp add: fs_flush_def)
  then show ?thesis by blast
next
  case (Inr u)
  then have "fs_load (Content (data_js candidate)) = Inr candidate" by (simp add: fs_load_def)
  with Inr assms show ?thesis by (auto simp: fs_flush_def split: if_splits)
qed

text \<open>A transaction either leaves the disk as it was, or it replaced the loaded data by the candidate; and
  what it returns was computed on the loaded data.\<close>

lemma fs_transaction_cases:
  assumes "fs_transaction env operation st = (st', r)"
  obtains (same) "fs_disk st' = fs_disk st" "\<And>a. r = Inr a \<Longrightarrow> \<exists>d. fs_load (fs_disk st) = Inr d \<and> operation d = Inr (None, a)"
    | (written) d candidate a where "fs_load (fs_disk st) = Inr d" "operation d = Inr (Some candidate, a)"
      "fs_load (fs_disk st') = Inr candidate" "\<And>b. r = Inr b \<Longrightarrow> b = a"
proof (cases "fs_lock st \<or> \<not> fe_lock_written env")
  case True
  then show ?thesis using assms by (intro same) (auto simp: fs_transaction_def split: if_splits)
next
  case False
  show ?thesis
  proof (cases "fs_load (fs_disk st)")
    case (Inl e)
    with False show ?thesis using assms by (intro same) (auto simp: fs_transaction_def split: if_splits)
  next
    case (Inr d)
    show ?thesis
    proof (cases "\<exists>candidate a. operation d = Inr (Some candidate, a)")
      case True
      then obtain candidate a where o: "operation d = Inr (Some candidate, a)" by blast
      obtain disk' u where f: "fs_flush env candidate (fs_disk st) = (disk', u)" by force
      from fs_flush_cases [OF f] show ?thesis
      proof (elim disjE exE conjE)
        fix e assume "disk' = fs_disk st" "u = Inl e"
        then show ?thesis using assms False Inr o f
          by (intro same) (auto simp: fs_transaction_def split: if_splits)
      next
        assume "u = Inr ()" "fs_load disk' = Inr candidate"
        then show ?thesis using assms False Inr o f
          by (intro written [OF Inr o]) (auto simp: fs_transaction_def split: if_splits)
      qed
    next
      case no: False
      then show ?thesis using assms False Inr
        by (intro same) (auto simp: fs_transaction_def split: if_splits sum.splits prod.splits option.splits)
    qed
  qed
qed

lemma requireClientId_cases:
  assumes "requireClientId cid operation st = (st', r)"
  obtains "operation st = (st', r)" | e where "st' = st" "r = Inl e"
  using assms by (auto simp: requireClientId_def split: if_splits)

lemma file_lookup_load: "fs_load (fs_disk st) = Inr d \<Longrightarrow> file_lookup st = map_of (fd_maps d)"
  by (simp add: file_lookup_def)

lemma file_lookup_disk: "fs_disk st' = fs_disk st \<Longrightarrow> file_lookup st' = file_lookup st"
  by (simp add: file_lookup_def)

lemma entry_simps [simp]:
  "map_of (fd_maps (put_entry cid m d)) = (map_of (fd_maps d))(cid \<mapsto> m)" "fd_maps (touch_entry cid t d) = fd_maps d"
  "map_of (fd_maps (drop_entry cid d)) = (map_of (fd_maps d))(cid := None)"
  by (simp_all add: put_entry_def touch_entry_def drop_entry_def)

text \<open>The work of a compare-and-swap is the one of the memory store, on the loaded map.\<close>

lemma consume_work_eq:
  assumes "consume_work cid sid c m d = Inr (w, b)"
  shows "snd (consume_map_counter m sid c) = Inr b \<and>
    (case w of None \<Rightarrow> \<not> b | Some d' \<Rightarrow> d' = put_entry cid (fst (consume_map_counter m sid c)) d)"
  using assms
  by (auto simp: consume_work_def consume_map_counter_def Let_def bind_res_Inr_iff split: option.splits if_splits prod.splits)

section \<open>No counter is consumed twice\<close>

text \<open>A step on the shared file: an operation by some instance, an operation whose process is killed
  after it took the lock, before or after its rename, and the removal of an abandoned lock by an
  operator. As for the memory store, \<^verbatim>\<open>set\<close> and \<^verbatim>\<open>replaceCredential\<close> bring counters from outside and are left
  out.\<close>

datatype file_op =
    FOp_commit string ValidationCommitInput
  | FOp_consume string string int
  | FOp_update string "(string \<times> int) list"
  | FOp_get string
  | FOp_delete string
  | FOp_list

datatype file_step =
    Run FileTumblerStore fs_env file_op
  | Killed FileTumblerStore fs_env file_op bool
  | Clear_lock

fun file_op_exec :: "FileTumblerStore \<Rightarrow> fs_env \<Rightarrow> file_op \<Rightarrow> file_state \<Rightarrow> file_state" where
  "file_op_exec cfg env (FOp_commit cid input) st = fst (fs_commitValidation cfg env cid input st)"
| "file_op_exec cfg env (FOp_consume cid sid c) st = fst (fs_consumeCounter cfg env cid sid c st)"
| "file_op_exec cfg env (FOp_update cid us) st = fst (fs_updateCounters cfg env cid us st)"
| "file_op_exec cfg env (FOp_get cid) st = fst (fs_get cfg env cid st)"
| "file_op_exec cfg env (FOp_delete cid) st = fst (fs_delete env cid st)"
| "file_op_exec cfg env FOp_list st = fst (fs_list cfg env st)"

fun file_exec :: "file_step \<Rightarrow> file_state \<Rightarrow> file_state" where
  "file_exec (Run cfg env p) st = file_op_exec cfg env p st"
| "file_exec (Killed cfg env p renamed) st =
     (if fs_lock st then st
      else (if renamed then file_op_exec cfg env p st else st)\<lparr>fs_lock := True\<rparr>)"
| "file_exec Clear_lock st = st\<lparr>fs_lock := False\<rparr>"

fun file_consumed :: "file_step \<Rightarrow> file_state \<Rightarrow> ((string \<times> string) \<times> int) list" where
  "file_consumed (Run cfg env (FOp_commit cid input)) st =
     (case snd (fs_commitValidation cfg env cid input st) of
        Inr r \<Rightarrow> if cr_ok r then map (\<lambda>(sid, c). ((cid, sid), c)) (ci_counterMatches input) else []
      | Inl _ \<Rightarrow> [])"
| "file_consumed (Run cfg env (FOp_consume cid sid c)) st =
     (if snd (fs_consumeCounter cfg env cid sid c st) = Inr True then [((cid, sid), c)] else [])"
| "file_consumed _ st = []"

definition lookup_level :: "(string \<Rightarrow> TumblerMap option) \<Rightarrow> string \<times> string \<Rightarrow> int" where
  "lookup_level L k = (case L (fst k) of None \<Rightarrow> TSK_MAX_HOTP_COUNTER | Some m \<Rightarrow> counter_level (tm_segments m) (snd k))"

text \<open>What one transaction may do to the stored maps: nothing, drop one, or let one evolve.\<close>

inductive maps_step :: "(string \<Rightarrow> TumblerMap option) \<Rightarrow> (string \<Rightarrow> TumblerMap option) \<Rightarrow> bool" where
  keep: "maps_step L L"
| drop: "maps_step L (L(cid := None))"
| evolve: "L cid = Some m \<Longrightarrow> evolves m m' \<Longrightarrow> maps_step L (L(cid \<mapsto> m'))"

definition lookup_ok :: "(string \<Rightarrow> TumblerMap option) \<Rightarrow> bool" where
  "lookup_ok L \<longleftrightarrow> (\<forall>cid m. L cid = Some m \<longrightarrow> counter_state_ok m \<and> distinct (map seg_id (tm_segments m)))"

lemma file_lookup_ok: "lookup_ok (file_lookup st)"
  using fs_load_ok by (fastforce simp: lookup_ok_def file_lookup_def split: sum.splits)

lemma maps_step_level:
  assumes "maps_step L L'" and "lookup_ok L"
  shows "lookup_level L k \<le> lookup_level L' k"
  using assms
proof cases
  case (drop cid)
  have "lookup_level L k \<le> TSK_MAX_HOTP_COUNTER"
    using assms(2) counter_level_le by (simp add: lookup_level_def lookup_ok_def counter_state_ok_def split: option.splits)
  then show ?thesis by (auto simp: drop lookup_level_def)
next
  case (evolve cid m m')
  then show ?thesis using assms(2) by (auto simp: lookup_level_def lookup_ok_def evolves_def)
qed simp

lemma fs_transaction_step:
  assumes t: "fs_transaction env work st = (st', r)"
    and w: "\<And>d d' a. fs_load (fs_disk st) = Inr d \<Longrightarrow> work d = Inr (Some d', a) \<Longrightarrow> maps_step (map_of (fd_maps d)) (map_of (fd_maps d'))"
  shows "maps_step (file_lookup st) (file_lookup st')"
  using t
proof (cases rule: fs_transaction_cases)
  case same
  show ?thesis unfolding file_lookup_disk [OF same(1)] by (rule keep)
next
  case (written d candidate a)
  show ?thesis unfolding file_lookup_load [OF written(1)] file_lookup_load [OF written(3)] by (rule w [OF written(1,2)])
qed

lemma require_transaction_step:
  assumes "requireClientId cid (fs_transaction env work) st = (st', r)"
    and "\<And>d d' a. fs_load (fs_disk st) = Inr d \<Longrightarrow> work d = Inr (Some d', a) \<Longrightarrow> maps_step (map_of (fd_maps d)) (map_of (fd_maps d'))"
  shows "maps_step (file_lookup st) (file_lookup st')"
  using assms(1)
proof (cases rule: requireClientId_cases)
  case 1
  then show ?thesis using assms(2) by (rule fs_transaction_step)
next
  case 2
  then show ?thesis by (simp add: keep)
qed

lemma file_op_step: "maps_step (file_lookup st) (file_lookup (file_op_exec cfg env p st))"
proof (cases p)
  case (FOp_commit cid input)
  obtain st' r where e: "fs_commitValidation cfg env cid input st = (st', r)" by force
  have "maps_step (file_lookup st) (file_lookup st')"
    using e unfolding fs_commitValidation_def
    by (rule require_transaction_step)
      (auto simp: bind_res_Inr_iff split: option.splits if_splits prod.splits intro!: evolve commit_evolves)
  with FOp_commit e show ?thesis by simp
next
  case (FOp_consume cid sid c)
  obtain st' r where e: "fs_consumeCounter cfg env cid sid c st = (st', r)" by force
  have w: "maps_step (map_of (fd_maps d)) (map_of (fd_maps d'))"
    if d: "fs_load (fs_disk st) = Inr d" and m: "map_of (fd_maps d) cid = Some m" and c': "consume_work cid sid c m d = Inr (Some d', b)" for d d' m b
  proof -
    have "evolves m (fst (consume_map_counter m sid c))"
      by (rule consume_map_evolves(1) [OF _ fs_load_ok(1,2) [OF d m]]) (simp add: prod_eq_iff)
    then show ?thesis using m consume_work_eq [OF c'] by (simp add: evolve)
  qed
  have "maps_step (file_lookup st) (file_lookup st')"
    using e unfolding fs_consumeCounter_def
    by (rule require_transaction_step) (auto split: option.splits if_splits intro: w)
  with FOp_consume e show ?thesis by simp
next
  case (FOp_update cid us)
  obtain st' r where e: "fs_updateCounters cfg env cid us st = (st', r)" by force
  have w: "maps_step (map_of (fd_maps d)) ((map_of (fd_maps d))(cid \<mapsto> m'))"
    if d: "fs_load (fs_disk st) = Inr d" and m: "map_of (fd_maps d) cid = Some m" and u: "update_map_counters m us = (m', r)" for d m m' r
    by (rule evolve) (use m update_map_evolves [OF u fs_load_ok(1,2) [OF d m]] in auto)
  have "maps_step (file_lookup st) (file_lookup st')"
    using e unfolding fs_updateCounters_def
    by (rule require_transaction_step) (auto simp: bind_res_Inr_iff split: option.splits if_splits prod.splits intro: w)
  with FOp_update e show ?thesis by simp
next
  case (FOp_get cid)
  obtain st' r where e: "fs_get cfg env cid st = (st', r)" by force
  have "maps_step (file_lookup st) (file_lookup st')"
    using e unfolding fs_get_def
    by (rule require_transaction_step) (auto split: option.splits if_splits intro: drop)
  with FOp_get e show ?thesis by simp
next
  case (FOp_delete cid)
  obtain st' r where e: "fs_delete env cid st = (st', r)" by force
  have "maps_step (file_lookup st) (file_lookup st')"
    using e unfolding fs_delete_def by (rule require_transaction_step) (auto intro: drop)
  with FOp_delete e show ?thesis by simp
next
  case FOp_list
  obtain st' r where e: "fs_list cfg env st = (st', r)" by force
  have "maps_step (file_lookup st) (file_lookup st')"
    using e unfolding fs_list_def by (rule fs_transaction_step) auto
  with FOp_list e show ?thesis by simp
qed

lemma file_step_maps: "maps_step (file_lookup st) (file_lookup (file_exec p st))"
proof (cases p)
  case (Killed cfg env q renamed)
  have "file_lookup (s\<lparr>fs_lock := True\<rparr>) = file_lookup s" for s by (simp add: file_lookup_def)
  then show ?thesis using Killed file_op_step keep by simp
next
  case Clear_lock
  have "file_lookup (st\<lparr>fs_lock := False\<rparr>) = file_lookup st" by (simp add: file_lookup_def)
  then show ?thesis using Clear_lock keep by simp
qed (simp add: file_op_step)

text \<open>A commit or compare-and-swap that reports success was made on the stored map and is on the disk.\<close>

lemma fs_commit_ok:
  assumes "fs_commitValidation cfg env cid input st = (st', Inr r)" and "cr_ok r"
  shows "\<exists>m m'. file_lookup st cid = Some m \<and> commitValidationToMap m input = (m', Inr r) \<and> file_lookup st' = (file_lookup st)(cid \<mapsto> m')"
proof -
  from assms(1) obtain t where t: "fs_transaction env t st = (st', Inr r)"
    "t = (\<lambda>d. case map_of (fd_maps d) cid of
         None \<Rightarrow> Inr (None, commit_fail TSK_KEY_EXPIRED)
       | Some m \<Rightarrow>
           if fs_expired cfg env m then Inr (None, commit_fail TSK_KEY_EXPIRED)
           else (let (m', r) = commitValidationToMap m input in bind_res r (\<lambda>result. Inr (Some (put_entry cid m' d), result))))"
    by (auto simp: fs_commitValidation_def elim: requireClientId_cases)
  have f: "\<not> cr_ok (commit_fail e)" for e by (simp add: commit_fail_def)
  from t(1) show ?thesis
  proof (cases rule: fs_transaction_cases)
    case same
    then obtain d where "t d = Inr (None, r)" by blast
    then show ?thesis using assms(2) f by (auto simp: t(2) bind_res_Inr_iff split: option.splits if_splits prod.splits)
  next
    case (written d candidate a)
    then obtain m m' where "map_of (fd_maps d) cid = Some m" "commitValidationToMap m input = (m', Inr r)" "candidate = put_entry cid m' d"
      by (auto simp: t(2) bind_res_Inr_iff split: option.splits if_splits prod.splits)
    then show ?thesis by (simp add: file_lookup_load [OF written(1)] file_lookup_load [OF written(3)])
  qed
qed

lemma fs_consume_ok:
  assumes "fs_consumeCounter cfg env cid sid c st = (st', Inr True)"
  shows "\<exists>m m'. file_lookup st cid = Some m \<and> consume_map_counter m sid c = (m', Inr True) \<and> file_lookup st' = (file_lookup st)(cid \<mapsto> m')"
proof -
  from assms obtain t where t: "fs_transaction env t st = (st', Inr True)"
    "t = (\<lambda>d. case map_of (fd_maps d) cid of
         None \<Rightarrow> Inr (None, False)
       | Some m \<Rightarrow> if fs_expired cfg env m then Inr (None, False) else consume_work cid sid c m d)"
    by (auto simp: fs_consumeCounter_def elim: requireClientId_cases)
  from t(1) show ?thesis
  proof (cases rule: fs_transaction_cases)
    case same
    then obtain d where "t d = Inr (None, True)" by blast
    then show ?thesis by (auto simp: t(2) split: option.splits if_splits dest!: consume_work_eq)
  next
    case (written d candidate a)
    then obtain m where m: "map_of (fd_maps d) cid = Some m" "consume_work cid sid c m d = Inr (Some candidate, True)"
      by (auto simp: t(2) split: option.splits if_splits)
    with consume_work_eq [OF m(2)] show ?thesis
      by (simp add: file_lookup_load [OF written(1)] file_lookup_load [OF written(3)] prod_eq_iff)
  qed
qed

lemma file_consumed_level:
  assumes "((cid, sid), c) \<in> set (file_consumed p st)"
  shows "lookup_level (file_lookup st) (cid, sid) \<le> c \<and> c < lookup_level (file_lookup (file_exec p st)) (cid, sid)"
proof -
  consider (commit) cfg env input where "p = Run cfg env (FOp_commit cid input)"
    | (consume) cfg env where "p = Run cfg env (FOp_consume cid sid c)" "snd (fs_consumeCounter cfg env cid sid c st) = Inr True"
    using assms by (cases "(p, st)" rule: file_consumed.cases) (auto split: sum.splits if_splits)
  then show ?thesis
  proof cases
    case commit
    then obtain r where r: "snd (fs_commitValidation cfg env cid input st) = Inr r" "cr_ok r" "(sid, c) \<in> set (ci_counterMatches input)"
      using assms by (cases "snd (fs_commitValidation cfg env cid input st)") (auto split: if_splits)
    then have "fs_commitValidation cfg env cid input st = (file_exec p st, Inr r)" using commit by (simp add: prod_eq_iff)
    from fs_commit_ok [OF this r(2)] obtain m m' where m: "file_lookup st cid = Some m" "commitValidationToMap m input = (m', Inr r)"
      "file_lookup (file_exec p st) = (file_lookup st)(cid \<mapsto> m')" by blast
    have adm: "commit_admissible m input" using commit_success_iff [OF m(2)] r(2) by simp
    have "tm_segments m' = apply_matches (ci_counterMatches input) (tm_segments m)"
      using m(2) by (auto intro: commit_ok [OF adm])
    with commit_levels(2) [OF adm r(3)] show ?thesis using m by (simp add: lookup_level_def)
  next
    case consume
    then have "fs_consumeCounter cfg env cid sid c st = (file_exec p st, Inr True)" by (simp add: prod_eq_iff)
    from fs_consume_ok [OF this] obtain m m' where m: "file_lookup st cid = Some m" "consume_map_counter m sid c = (m', Inr True)"
      "file_lookup (file_exec p st) = (file_lookup st)(cid \<mapsto> m')" by blast
    have "counter_state_ok m \<and> distinct (map seg_id (tm_segments m))" using file_lookup_ok [of st] m(1) by (simp add: lookup_ok_def)
    with consume_map_evolves(2) [OF m(2)] show ?thesis using m by (simp add: lookup_level_def)
  qed
qed

lemma file_consumed_distinct: "distinct (file_consumed p st)"
proof (cases "file_consumed p st = []")
  case False
  then consider (commit) cfg env cid input where "p = Run cfg env (FOp_commit cid input)"
    | (consume) x where "file_consumed p st = [x]"
    by (cases "(p, st)" rule: file_consumed.cases) (auto split: sum.splits if_splits)
  then show ?thesis
  proof cases
    case commit
    with False obtain r where r: "snd (fs_commitValidation cfg env cid input st) = Inr r" "cr_ok r"
      and eq: "file_consumed p st = map (\<lambda>(sid, c). ((cid, sid), c)) (ci_counterMatches input)"
      by (cases "snd (fs_commitValidation cfg env cid input st)") (auto split: if_splits)
    then have "fs_commitValidation cfg env cid input st = (file_exec p st, Inr r)" using commit by (simp add: prod_eq_iff)
    from fs_commit_ok [OF this r(2)] obtain m m' where "commitValidationToMap m input = (m', Inr r)" by blast
    with r have "distinct (map fst (ci_counterMatches input))"
      using commit_success_iff by (fastforce simp: commit_admissible_def)
    then show ?thesis unfolding eq by (auto simp: distinct_map inj_on_def)
  qed simp
qed simp

interpretation filest: counter_ledger file_exec file_consumed "\<lambda>st. lookup_level (file_lookup st)" "\<lambda>_. True"
  by unfold_locales (use file_consumed_level file_consumed_distinct maps_step_level [OF file_step_maps file_lookup_ok] in auto)


section \<open>Serving requests from a file\<close>

text \<open>The file store as the request handler sees it. The readings of the clock and the outcomes of the file
  system are given for the read and for the write of a request.\<close>

definition file_api :: "FileTumblerStore \<Rightarrow> fs_env \<Rightarrow> fs_env \<Rightarrow> file_state store_api" where
  "file_api cfg eread ewrite =
     \<lparr>api_get = (\<lambda>cid now. fs_get cfg (eread\<lparr>fe_now := now\<rparr>) cid), api_set = fs_set cfg ewrite,
      api_commit = fs_commitValidation cfg ewrite\<rparr>"

lemma fs_get_Some:
  assumes "fs_get cfg env cid st = (st', Inr (Some m))"
  shows "file_lookup st cid = Some m \<and> file_lookup st' = file_lookup st"
proof -
  from assms obtain t where t: "fs_transaction env t st = (st', Inr (Some m))"
    "t = (\<lambda>d. case map_of (fd_maps d) cid of
         None \<Rightarrow> Inr (None, None)
       | Some m \<Rightarrow> if fs_expired cfg env m then Inr (Some (drop_entry cid d), None) else Inr (None, Some m))"
    by (auto simp: fs_get_def elim: requireClientId_cases)
  from t(1) show ?thesis
  proof (cases rule: fs_transaction_cases)
    case same
    then obtain d where "fs_load (fs_disk st) = Inr d" "t d = Inr (None, Some m)" by blast
    then show ?thesis using file_lookup_disk [OF same(1)]
      by (auto simp: t(2) file_lookup_load split: option.splits if_splits)
  next
    case (written d candidate a)
    then show ?thesis by (auto simp: t(2) split: option.splits if_splits)
  qed
qed

interpretation file_st: tumbler_store "file_api cfg eread ewrite" file_lookup for cfg eread ewrite
  by unfold_locales (use fs_get_Some fs_commit_ok in \<open>auto simp: file_api_def\<close>)

text \<open>A request accepted from the file was acceptable for the map on the disk, and the file then holds
  the committed map.\<close>

lemmas file_request_ok = file_st.verify_ok

text \<open>What one instance has set, every other instance reads, after any number of restarts, until it ages.\<close>

lemma fs_set_get:
  assumes "fs_set cfg env cid m st = (st', Inr ())"
    and "fe_lock_written env'" "fe_lock_ours env'" "\<not> fs_expired cfg' env' m"
  shows "fs_get cfg' env' cid st' = (st', Inr (Some m))"
proof -
  have v: "validClientId cid" using assms(1) by (auto simp: fs_set_def requireClientId_def split: if_splits)
  from assms(1) obtain t where t: "fs_transaction env t st = (st', Inr ())" "t = (\<lambda>d.
           if \<not> omap_has cid (fd_maps d) \<and> fs_maxEntries cfg \<le> int (length (fd_maps d)) then Inl ''TSK_STORE_CAPACITY_REACHED''
           else Inr (Some (touch_entry cid (fe_touch env) (put_entry cid m d)), ()))"
    by (auto simp: fs_set_def elim!: requireClientId_cases split: sum.splits)
  then have lk: "\<not> fs_lock st'" by (auto simp: fs_transaction_def Let_def split: if_splits prod.splits)
  from t(1) obtain d where "fs_load (fs_disk st') = Inr d" "map_of (fd_maps d) cid = Some m"
    by (cases rule: fs_transaction_cases) (auto simp: t(2) split: if_splits)
  then show ?thesis using v lk assms(2-4) by (simp add: fs_get_def requireClientId_def fs_transaction_def)
qed

definition example_env :: fs_env where
  "example_env = \<lparr>fe_now = 10, fe_touch = 10, fe_touch2 = 11, fe_lock_written = True, fe_write_ok = True, fe_lock_ours = True\<rparr>"

definition example_file_store :: FileTumblerStore where
  "example_file_store = \<lparr>fs_maxEntries = 2, fs_maxAgeMs = 0\<rparr>"

definition example_disk :: file_state where
  "example_disk = fst (fs_set example_file_store example_env ''tsk_0'' example_map \<lparr>fs_disk = Absent, fs_lock = False\<rparr>)"

text \<open>On a file that was absent before: the map is stored, a first commit of a counter is accepted, a second
  one and one during an abandoned lock are not.\<close>

lemma example_file_run:
  "map (map snd) (consumption file_exec file_consumed
     [Run example_file_store example_env (FOp_commit ''tsk_0'' (example_commit 4)),
      Run example_file_store example_env (FOp_commit ''tsk_0'' (example_commit 4)),
      Killed example_file_store example_env (FOp_commit ''tsk_0'' (example_commit 5)) False,
      Run example_file_store example_env (FOp_commit ''tsk_0'' (example_commit 5)),
      Clear_lock,
      Run example_file_store example_env (FOp_commit ''tsk_0'' (example_commit 5))] example_disk) =
   [[4], [], [], [], [], [5]]"
  by code_simp

end
