(* ===== verification/Bridge.thy ===== *)
theory Bridge
  imports Middleware
begin

text \<open>
  The composed authentication of \<^verbatim>\<open>packages/bpc-bridge/src/ultra-verify.ts\<close> and the HTTP authenticators of
  \<^verbatim>\<open>packages/node-http/src/adapter.ts\<close>. The BPC verifier and the identity resolver are callbacks of the
  deployment: parameters that act on a world of their own and return untrusted values. The bridge checks
  what they return before the TSK verifier may consume anything.
\<close>

section \<open>Untrusted objects\<close>

text \<open>A value returned by a callback: a primitive, or an object with its own properties (a data property
  has a value, an accessor has none), the names visible through its prototype, whether it is frozen and
  whether its prototype is that of plain objects. The inspection of a hostile object throws.\<close>

datatype js_any =
    Prim jsval
  | Obj "(string \<times> js_any option) list" "string list" bool bool
  | Hostile

abbreviation undef :: js_any where
  "undef \<equiv> Prim JUndefined"

fun ownDataValue :: "js_any \<Rightarrow> string \<Rightarrow> js_any" where
  "ownDataValue (Obj own inherited frozen plain) key = (case map_of own key of Some (Some v) \<Rightarrow> v | _ \<Rightarrow> undef)"
| "ownDataValue _ key = undef"

fun js_has :: "js_any \<Rightarrow> string \<Rightarrow> bool" where
  "js_has (Obj own inherited frozen plain) key \<longleftrightarrow> key \<in> fst ` set own \<or> key \<in> set inherited"
| "js_has _ key \<longleftrightarrow> False"

declare ownDataValue.simps [simp del] js_has.simps [simp del]

text \<open>A string, and a number that is a safe integer.\<close>

fun any_str :: "js_any \<Rightarrow> string option" where
  "any_str (Prim (JString s)) = Some s"
| "any_str _ = None"

fun any_safe_int :: "js_any \<Rightarrow> int option" where
  "any_safe_int (Prim (JNum n)) = (if Number_isSafeInteger n then num_int n else None)"
| "any_safe_int _ = None"

lemma any_str_Some: "any_str v = Some s \<longleftrightarrow> v = Prim (JString s)"
  by (cases v rule: any_str.cases) auto

datatype BPCScope = Scope_read | Scope_read_write | Scope_admin

fun bpc_scope :: "js_any \<Rightarrow> BPCScope option" where
  "bpc_scope (Prim (JString s)) =
     (if s = ''read'' then Some Scope_read else if s = ''read-write'' then Some Scope_read_write
      else if s = ''admin'' then Some Scope_admin else None)"
| "bpc_scope _ = None"

definition isBPCMode :: "js_any \<Rightarrow> bool" where
  "isBPCMode v \<longleftrightarrow> v = Prim (JString ''development'') \<or> v = Prim (JString ''production'')"

definition DEFAULT_BPC_SNAPSHOT_MAX_AGE_MS :: int where "DEFAULT_BPC_SNAPSHOT_MAX_AGE_MS = 60000"
definition MAX_BPC_SNAPSHOT_MAX_AGE_MS :: int where "MAX_BPC_SNAPSHOT_MAX_AGE_MS = 300000"

definition SAFE_ERROR_CODE :: "string \<Rightarrow> bool" where
  "SAFE_ERROR_CODE s \<longleftrightarrow> s \<noteq> [] \<and> length s \<le> 64 \<and> list_all (\<lambda>c. is_lower c \<or> is_digit c \<or> c = CHR ''_'') s"

definition safe_id :: "nat \<Rightarrow> string \<Rightarrow> bool" where
  "safe_id mx s \<longleftrightarrow> s \<noteq> [] \<and> length s \<le> mx \<and> list_all (\<lambda>c. is_lower c \<or> is_upper c \<or> is_digit c \<or> c = CHR ''_'' \<or> c = CHR ''-'') s"

definition SAFE_PAIR_ID :: "string \<Rightarrow> bool" where "SAFE_PAIR_ID = safe_id 64"
definition SAFE_CLIENT_ID :: "string \<Rightarrow> bool" where "SAFE_CLIENT_ID = safe_id 128"

section \<open>The BPC layer\<close>

text \<open>\<^verbatim>\<open>validSnapshot\<close> gives the scope of the snapshot it accepts; \<open>Inl\<close> is a throw.\<close>

definition validSnapshot :: "js_any \<Rightarrow> string \<Rightarrow> int \<Rightarrow> int \<Rightarrow> unit + BPCScope option" where
  "validSnapshot value pairId now maxAgeMs =
     (case value of
        Prim _ \<Rightarrow> Inr None
      | Hostile \<Rightarrow> Inl ()
      | Obj own inherited frozen plain \<Rightarrow> Inr (
          if \<not> frozen \<or> \<not> plain then None
          else if ownDataValue value ''pairId'' \<noteq> Prim (JString pairId) then None
          else if bpc_scope (ownDataValue value ''scope'') = None \<or> \<not> isBPCMode (ownDataValue value ''mode'') then None
          else if ownDataValue value ''kind'' \<noteq> Prim (JString ''legitimate'') then None
          else if ownDataValue value ''canaryClass'' \<noteq> undef then None
          else case any_safe_int (ownDataValue value ''verifiedAt'') of
            None \<Rightarrow> None
          | Some t \<Rightarrow> if \<bar>now - t\<bar> \<le> maxAgeMs then bpc_scope (ownDataValue value ''scope'') else None))"

definition safeBpcError :: "js_any \<Rightarrow> string" where
  "safeBpcError v = (case v of Prim (JString s) \<Rightarrow> if SAFE_ERROR_CODE s then s else ''VERIFICATION_FAILED'' | _ \<Rightarrow> ''VERIFICATION_FAILED'')"

datatype layer = Layer_bpc | Layer_tsk

record UltraVerifyResult =
  ur_ok :: bool
  ur_pairId :: "string option"
  ur_clientId :: "string option"
  ur_layers :: "layer list"
  ur_error :: "string option"
  ur_outcomeUnknown :: bool
  ur_scope :: "BPCScope option"

definition ultra_fail :: "string option \<Rightarrow> layer list \<Rightarrow> string \<Rightarrow> UltraVerifyResult" where
  "ultra_fail pairId layers e =
     \<lparr>ur_ok = False, ur_pairId = pairId, ur_clientId = None, ur_layers = layers, ur_error = Some e,
      ur_outcomeUnknown = False, ur_scope = None\<rparr>"

text \<open>What the bridge makes of the result of the BPC callback.\<close>

definition bpc_evidence :: "int option \<Rightarrow> int \<Rightarrow> js_any \<Rightarrow> UltraVerifyResult + (string \<times> BPCScope)" where
  "bpc_evidence maxAge nowMs result =
     (case result of
        Prim _ \<Rightarrow> Inl (ultra_fail None [] ''BPC: VERIFICATION_FAILED'')
      | Hostile \<Rightarrow> Inl (ultra_fail None [] ''BPC: INVALID_RESULT_OBJECT'')
      | Obj own inherited frozen plain \<Rightarrow>
          if ownDataValue result ''ok'' \<noteq> Prim (JBool True)
          then Inl (ultra_fail None [] (''BPC: '' @ safeBpcError (ownDataValue result ''error'')))
          else if ownDataValue result ''shadow'' = Prim (JBool True) then Inl (ultra_fail None [] ''BPC: SHADOW_DENIED'')
          else if js_has result ''pair'' \<or> js_has result ''scope'' then Inl (ultra_fail None [] ''BPC: LEGACY_MUTABLE_RESULT'')
          else (case any_str (ownDataValue result ''pairId'') of
             None \<Rightarrow> Inl (ultra_fail None [] ''BPC: MISSING_OR_INVALID_PAIR_ID'')
           | Some pairId \<Rightarrow>
               if \<not> SAFE_PAIR_ID pairId then Inl (ultra_fail None [] ''BPC: MISSING_OR_INVALID_PAIR_ID'')
               else
                 let configured = nullish maxAge DEFAULT_BPC_SNAPSHOT_MAX_AGE_MS in
                 if configured < 1 \<or> MAX_BPC_SNAPSHOT_MAX_AGE_MS < configured
                 then Inl (ultra_fail (Some pairId) [] ''BPC: INVALID_SNAPSHOT_MAX_AGE'')
                 else (case validSnapshot (ownDataValue result ''snapshot'') pairId nowMs configured of
                   Inl _ \<Rightarrow> Inl (ultra_fail None [] ''BPC: INVALID_RESULT_OBJECT'')
                 | Inr None \<Rightarrow> Inl (ultra_fail (Some pairId) [] ''BPC: INVALID_AUTH_SNAPSHOT'')
                 | Inr (Some scope) \<Rightarrow> Inr (pairId, scope))))"

section \<open>The bridge\<close>

text \<open>The copy of the request headers. Its input is untyped; a header that is undefined counts as absent, and
  the name \<^verbatim>\<open>__proto__\<close> does not become a property of the copy.\<close>

fun copy_header :: "jsval \<Rightarrow> header_value option res" where
  "copy_header (JString s) = Inr (Some (HString s))"
| "copy_header JUndefined = Inr None"
| "copy_header (JArray vs) =
     (if list_all (\<lambda>v. case v of JString _ \<Rightarrow> True | _ \<Rightarrow> False) vs then Inr (Some (HList (map (\<lambda>v. case v of JString s \<Rightarrow> s | _ \<Rightarrow> []) vs)))
      else Inl ''request header array must contain strings'')"
| "copy_header _ = Inl ''request header must be a string''"

fun copy_headers :: "(string \<times> jsval) list \<Rightarrow> (string \<times> header_value) list res" where
  "copy_headers [] = Inr []"
| "copy_headers ((name, v) # hs) =
     bind_res (copy_header v) (\<lambda>h. bind_res (copy_headers hs) (\<lambda>rest.
       Inr (case h of None \<Rightarrow> rest | Some x \<Rightarrow> if name = ''__proto__'' then rest else (name, x) # rest)))"

definition immutableRequest :: "jsval \<Rightarrow> TSKRequestData res" where
  "immutableRequest headers =
     (case headers of
        JObject hs \<Rightarrow> bind_res (copy_headers hs) (\<lambda>copied. Inr \<lparr>req_headers = copied\<rparr>)
      | _ \<Rightarrow> Inl ''request headers must be an object'')"

definition getSingleHeader :: "TSKRequestData \<Rightarrow> string \<Rightarrow> string option" where
  "getSingleHeader req name =
     (case map_of (req_headers req) name of
        Some (HString s) \<Rightarrow> Some s
      | Some (HList [s]) \<Rightarrow> Some s
      | _ \<Rightarrow> None)"

text \<open>The world in which the callbacks act, the store and the anomaly engine are the state.\<close>

record ('w, 's) ultra_state =
  us_world :: 'w
  us_store :: 's
  us_anomaly :: "MemoryAnomalyEngine option"

record 'w ultra_callbacks =
  uc_bpcVerify :: "TSKRequestData \<Rightarrow> 'w \<Rightarrow> 'w \<times> js_any res"
  uc_resolve :: "string \<Rightarrow> 'w \<Rightarrow> 'w \<times> js_any res"
  uc_maxAge :: "int option"
  uc_now :: "'w \<Rightarrow> int"

text \<open>The checks before the TSK verifier runs: the BPC evidence, the binding of its pair to a client, and the
  client the request claims to be.\<close>

definition ultra_preflight ::
  "'w ultra_callbacks \<Rightarrow> TSKRequestData \<Rightarrow> 'w \<Rightarrow> 'w \<times> (UltraVerifyResult + (string \<times> BPCScope \<times> string))" where
  "ultra_preflight cb req w =
     (case uc_bpcVerify cb req w of
        (w1, Inl _) \<Rightarrow> (w1, Inl ((ultra_fail None [] ''BPC: CALLBACK_EXCEPTION'')\<lparr>ur_outcomeUnknown := True\<rparr>))
      | (w1, Inr result) \<Rightarrow>
          (case bpc_evidence (uc_maxAge cb) (uc_now cb w1) result of
             Inl r \<Rightarrow> (w1, Inl r)
           | Inr (pairId, scope) \<Rightarrow>
               (case uc_resolve cb pairId w1 of
                  (w2, Inl _) \<Rightarrow>
                    (w2, Inl ((ultra_fail (Some pairId) [Layer_bpc] ''IDENTITY_BINDING_RESOLVER_EXCEPTION'')\<lparr>ur_outcomeUnknown := True\<rparr>))
                | (w2, Inr bound) \<Rightarrow>
                    (w2, case any_str bound of
                       None \<Rightarrow> Inl (ultra_fail (Some pairId) [Layer_bpc] ''IDENTITY_BINDING_NOT_FOUND'')
                     | Some expected \<Rightarrow>
                     if \<not> SAFE_CLIENT_ID expected then Inl (ultra_fail (Some pairId) [Layer_bpc] ''IDENTITY_BINDING_NOT_FOUND'')
                     else case getSingleHeader req HEADER_CLIENT_ID of
                       None \<Rightarrow> Inl (ultra_fail (Some pairId) [Layer_bpc] ''TSK: CLIENT_ID_MISSING_OR_AMBIGUOUS'')
                     | Some claimed \<Rightarrow>
                         if \<not> SAFE_CLIENT_ID claimed
                         then Inl (ultra_fail (Some pairId) [Layer_bpc] ''TSK: CLIENT_ID_MISSING_OR_AMBIGUOUS'')
                         else if claimed \<noteq> expected
                         then Inl ((ultra_fail (Some pairId) [Layer_bpc] ''IDENTITY_BINDING_MISMATCH'')\<lparr>ur_clientId := Some claimed\<rparr>)
                         else Inr (pairId, scope, expected)))))"

definition ultra_result :: "string \<Rightarrow> BPCScope \<Rightarrow> string \<Rightarrow> TSKVerifyResult res \<Rightarrow> UltraVerifyResult" where
  "ultra_result pairId scope expected tsk =
     (case tsk of
        Inl _ \<Rightarrow> (ultra_fail (Some pairId) [Layer_bpc] ''TSK: VERIFIER_EXCEPTION'')\<lparr>ur_outcomeUnknown := True\<rparr>
      | Inr t \<Rightarrow>
          if \<not> tv_ok t then ultra_fail (Some pairId) [Layer_bpc] (''TSK: '' @ nullish (tv_error t) ''VERIFICATION_FAILED'')
          else if tv_clientId t \<noteq> Some expected
          then (ultra_fail (Some pairId) [Layer_bpc, Layer_tsk] ''IDENTITY_BINDING_POSTCHECK_MISMATCH'')
                 \<lparr>ur_clientId := tv_clientId t, ur_outcomeUnknown := True\<rparr>
          else \<lparr>ur_ok = True, ur_pairId = Some pairId, ur_clientId = tv_clientId t, ur_layers = [Layer_bpc, Layer_tsk],
                ur_error = None, ur_outcomeUnknown = False, ur_scope = Some scope\<rparr>)"

definition verifyUltraRequest ::
  "'s store_api \<Rightarrow> hmac_fn \<Rightarrow> TSKConfig \<Rightarrow> string option \<Rightarrow> verify_times \<Rightarrow> 'w ultra_callbacks \<Rightarrow> jsval \<Rightarrow>
   ('w, 's) ultra_state \<Rightarrow> ('w, 's) ultra_state \<times> UltraVerifyResult" where
  "verifyUltraRequest api H cfg ip clk cb headers u =
     (case immutableRequest headers of
        Inl _ \<Rightarrow> (u, ultra_fail None [] ''BPC: REQUEST_INVALID'')
      | Inr req \<Rightarrow>
          (case ultra_preflight cb req (us_world u) of
             (w, Inl r) \<Rightarrow> (u\<lparr>us_world := w\<rparr>, r)
           | (w, Inr (pairId, scope, expected)) \<Rightarrow>
               (case verifyTSKRequest api H cfg ip clk req (us_store u) (us_anomaly u) of
                  (st, an, tsk) \<Rightarrow> (\<lparr>us_world = w, us_store = st, us_anomaly = an\<rparr>, ultra_result pairId scope expected tsk))))"

section \<open>The HTTP authenticators\<close>

text \<open>The part of a \<^verbatim>\<open>ServerResponse\<close> the adapter uses: headers by lower-case name, the status once the head is
  sent, and the body.\<close>

record http_reply =
  hx_headers :: "(string \<times> string) list"
  hx_status :: "int option"
  hx_body :: jsval

definition setHeader :: "string \<Rightarrow> string \<Rightarrow> http_reply \<Rightarrow> http_reply" where
  "setHeader name v r = r\<lparr>hx_headers := omap_set name v (hx_headers r)\<rparr>"

definition writeJson :: "int \<Rightarrow> jsval \<Rightarrow> http_reply \<Rightarrow> http_reply" where
  "writeJson status body r =
     (if hx_status r \<noteq> None then r
      else r\<lparr>hx_status := Some status, hx_body := body,
             hx_headers := omap_set ''cache-control'' ''no-store''
               (omap_set ''content-type'' ''application/json; charset=utf-8'' (hx_headers r))\<rparr>)"

definition error_body :: "string \<Rightarrow> string \<Rightarrow> string \<Rightarrow> jsval" where
  "error_body code message requestId =
     JObject [(''error'', JObject [(''code'', JString code), (''message'', JString message)]),
              (''meta'', JObject [(''requestId'', JString requestId)])]"

definition unknown_outcome_body :: "string \<Rightarrow> jsval" where
  "unknown_outcome_body requestId =
     JObject [(''error'', JObject [(''code'', JString ''BPC_TSK_OUTCOME_UNKNOWN''), (''message'', JString ''Authentication outcome is unknown'')]),
              (''meta'', JObject [(''requestId'', JString requestId), (''retryable'', JBool False)])]"

text \<open>The header object of an incoming request as the bridge sees it.\<close>

fun header_js :: "header_value \<Rightarrow> jsval" where
  "header_js (HString s) = JString s"
| "header_js (HList ss) = JArray (map JString ss)"

definition headers_js :: "TSKRequestData \<Rightarrow> jsval" where
  "headers_js req = JObject (map (\<lambda>p. (fst p, header_js (snd p))) (req_headers req))"

text \<open>\<^verbatim>\<open>x-request-id\<close> of the request, an array joined by commas, or a fresh identifier.\<close>

definition request_id :: "TSKRequestData \<Rightarrow> string \<Rightarrow> string" where
  "request_id req uuid =
     (let given = (case map_of (req_headers req) ''x-request-id'' of
                     None \<Rightarrow> [] | Some (HString s) \<Rightarrow> s
                   | Some (HList ss) \<Rightarrow> (case ss of [] \<Rightarrow> [] | x # xs \<Rightarrow> x @ concat (map (\<lambda>y. CHR '','' # y) xs)))
      in if given = [] then uuid else given)"

record TSKAuthentication =
  au_clientId :: string
  au_requestId :: string
  au_rotationRequired :: bool
  au_requestsRemaining :: "int option"

definition authenticateTSKHttpRequest ::
  "'s store_api \<Rightarrow> hmac_fn \<Rightarrow> TSKConfig \<Rightarrow> string option \<Rightarrow> string option \<Rightarrow> string option \<Rightarrow> string \<Rightarrow> verify_times \<Rightarrow> TSKRequestData \<Rightarrow>
   http_reply \<Rightarrow> 's \<Rightarrow> MemoryAnomalyEngine option \<Rightarrow> http_reply \<times> 's \<times> MemoryAnomalyEngine option \<times> TSKAuthentication option res" where
  "authenticateTSKHttpRequest api H cfg configIp resolvedIp remoteAddress uuid clk req reply st an =
     (let requestId = request_id req uuid;
          reply1 = setHeader ''x-request-id'' requestId reply;
          ip = (case configIp of Some i \<Rightarrow> Some i | None \<Rightarrow> (case resolvedIp of Some i \<Rightarrow> Some i | None \<Rightarrow> remoteAddress))
      in case verifyTSKRequest api H cfg ip clk req st an of
           (st', an', Inl e) \<Rightarrow> (reply1, st', an', Inl e)
         | (st', an', Inr result) \<Rightarrow>
             if \<not> tv_ok result \<or> tv_clientId result = None \<or> tv_clientId result = Some []
             then (writeJson 401 (error_body ''TSK_AUTHENTICATION_FAILED'' ''Authentication failed'' requestId) reply1, st', an', Inr None)
             else (fold (\<lambda>(n, v). setHeader n v) (buildTSKResponseHeaders result) reply1, st', an',
                   Inr (Some \<lparr>au_clientId = the (tv_clientId result), au_requestId = requestId,
                             au_rotationRequired = (tv_rotationRequired result = Some True),
                             au_requestsRemaining = tv_requestsRemaining result\<rparr>)))"

record BpcTskAuthentication = TSKAuthentication +
  au_pairId :: string
  au_scope :: BPCScope

definition authenticateBpcTskHttpRequest ::
  "'s store_api \<Rightarrow> hmac_fn \<Rightarrow> TSKConfig \<Rightarrow> string option \<Rightarrow> string \<Rightarrow> verify_times \<Rightarrow> 'w ultra_callbacks \<Rightarrow> TSKRequestData \<Rightarrow>
   http_reply \<Rightarrow> ('w, 's) ultra_state \<Rightarrow> http_reply \<times> ('w, 's) ultra_state \<times> BpcTskAuthentication option" where
  "authenticateBpcTskHttpRequest api H cfg ip uuid clk cb req reply u =
     (let requestId = request_id req uuid;
          reply1 = setHeader ''x-request-id'' requestId reply;
          (u', result) = verifyUltraRequest api H cfg ip clk cb (headers_js req) u
      in if \<not> ur_ok result \<or> ur_clientId result = None \<or> ur_clientId result = Some [] \<or> ur_pairId result = None \<or>
            ur_pairId result = Some [] \<or> ur_scope result = None
         then (writeJson (if ur_outcomeUnknown result then 409 else 401)
                 (if ur_outcomeUnknown result then unknown_outcome_body requestId
                  else error_body ''BPC_TSK_AUTHENTICATION_FAILED'' ''Authentication failed'' requestId) reply1, u', None)
         else (setHeader ''x-tsk-authenticated'' ''1'' reply1, u',
               Some \<lparr>au_clientId = the (ur_clientId result), au_requestId = requestId, au_rotationRequired = False,
                     au_requestsRemaining = None, au_pairId = the (ur_pairId result), au_scope = the (ur_scope result)\<rparr>))"

section \<open>What a rejection leaves alone\<close>

text \<open>No counter of a stored map is consumed: a map that is still stored has the segments it had.\<close>

definition segments_kept :: "MemoryTumblerStore \<Rightarrow> MemoryTumblerStore \<Rightarrow> bool" where
  "segments_kept st st' \<longleftrightarrow>
     (\<forall>cid m'. map_of (ms_maps st') cid = Some m' \<longrightarrow> (\<exists>m. map_of (ms_maps st) cid = Some m \<and> tm_segments m' = tm_segments m))"

lemma segments_kept_refl [simp]: "segments_kept st st"
  by (simp add: segments_kept_def)

lemma ms_get_kept_maps: "ms_get cid now st = (st1, got) \<Longrightarrow> map_of (ms_maps st1) x = Some m \<Longrightarrow> map_of (ms_maps st) x = Some m"
  by (auto simp: ms_get_def split: option.splits if_splits)

lemma verify_finish_rejected:
  assumes f: "verify_finish memory_api cid next st1 = (st', Inr r)" and r: "\<not> tv_ok r"
    and d: "verify_decide H cfg ip clk cid key got = Inr next"
    and got: "\<And>m. got = Some m \<Longrightarrow> map_of (ms_maps st1) cid = Some m"
  shows "segments_kept st1 st'"
proof (cases "next")
  case (Reply r' ev)
  then show ?thesis using f by (simp add: verify_finish_def)
next
  case (Expire_and_reply m' r')
  then obtain m where m: "got = Some m" "m' = m\<lparr>tm_status := Some Expired\<rparr>"
    using d by (auto simp: verify_decide_def bind_res_Inr_iff split: option.splits if_splits)
  have "ms_set cid m' st1 = (st', Inr ())"
    using f Expire_and_reply by (auto simp: verify_finish_def memory_api_def bind_res_Inr_iff split: prod.splits)
  then have "map_of (ms_maps st') = (map_of (ms_maps st1))(cid \<mapsto> m')" by (auto simp: ms_set_def split: if_splits sum.splits)
  then show ?thesis using got [OF m(1)] m(2) by (auto simp: segments_kept_def)
next
  case (Commit input rcid)
  then obtain cr where c: "ms_commitValidation cid input st1 = (st', Inr cr)" "\<not> cr_ok cr"
    using f r by (auto simp: verify_finish_def memory_api_def verify_committed_def bind_res_Inr_iff split: prod.splits if_splits)
  show ?thesis
  proof (cases "map_of (ms_maps st1) cid")
    case None
    then show ?thesis using c by (simp add: ms_commitValidation_def)
  next
    case (Some m)
    obtain m' r' where cm: "commitValidationToMap m input = (m', r')" by force
    then have st': "st' = ms_mutate cid m' st1" "r' = Inr cr" using c Some by (simp_all add: ms_commitValidation_def)
    with c(2) cm have "\<not> commit_admissible m input" using commit_success_iff [of m input m' cr] by simp
    then have "tm_segments m' = tm_segments m" by (rule commit_rejected) (use cm in auto)
    then show ?thesis using Some by (auto simp: segments_kept_def st' ms_mutate_def)
  qed
qed

lemma verify_rejected_keeps_counters:
  assumes v: "verifyTSKRequest memory_api H cfg ip clk req st an = (st', an', Inr r)" and r: "\<not> tv_ok r"
  shows "segments_kept st st'"
proof (cases "verify_parse req")
  case (Inl x)
  then show ?thesis using v by (simp add: verifyTSKRequest_def)
next
  case (Inr ck)
  obtain cid key where ck: "ck = (cid, key)" by force
  obtain st1 got where g: "ms_get cid (vt_get clk) st = (st1, got)" by force
  then have ag: "api_get memory_api cid (vt_get clk) st = (st1, Inr got)" by (simp add: memory_api_def)
  obtain nx where d: "verify_decide H cfg ip clk cid key got = Inr nx" and f: "verify_finish memory_api cid nx st1 = (st', Inr r)"
    using v Inr ag ck by (auto simp: verifyTSKRequest_def split: sum.splits prod.splits)
  have "map_of (ms_maps st1) cid = Some m" if "got = Some m" for m using ms_get_lookup [of cid "vt_get clk" st st1 m] g that by simp
  from verify_finish_rejected [OF f r d this] ms_get_kept_maps [OF g] show ?thesis
    unfolding segments_kept_def by blast
qed

section \<open>What the bridge promises\<close>

lemma validSnapshot_Some:
  assumes "validSnapshot v pairId now mx = Inr (Some scope)"
  obtains own inh t where "v = Obj own inh True True" "ownDataValue v ''pairId'' = Prim (JString pairId)"
    "ownDataValue v ''kind'' = Prim (JString ''legitimate'')" "bpc_scope (ownDataValue v ''scope'') = Some scope"
    "any_safe_int (ownDataValue v ''verifiedAt'') = Some t" "\<bar>now - t\<bar> \<le> mx"
proof -
  obtain own inh fz pl where v: "v = Obj own inh fz pl" using assms by (cases v) (auto simp: validSnapshot_def)
  then show ?thesis using assms that by (auto simp: validSnapshot_def split: if_splits option.splits)
qed

lemma bpc_evidence_Inr:
  assumes "bpc_evidence maxAge now result = Inr (pairId, scope)"
  shows "ownDataValue result ''ok'' = Prim (JBool True)" "ownDataValue result ''shadow'' \<noteq> Prim (JBool True)"
    "ownDataValue result ''pairId'' = Prim (JString pairId)"
    "\<exists>mx \<le> MAX_BPC_SNAPSHOT_MAX_AGE_MS. validSnapshot (ownDataValue result ''snapshot'') pairId now mx = Inr (Some scope)"
proof -
  obtain own inh fz pl where r: "result = Obj own inh fz pl" using assms by (cases result) (auto simp: bpc_evidence_def)
  then show "ownDataValue result ''ok'' = Prim (JBool True)" "ownDataValue result ''shadow'' \<noteq> Prim (JBool True)"
    "ownDataValue result ''pairId'' = Prim (JString pairId)"
    using assms by (auto simp: bpc_evidence_def Let_def any_str_Some split: if_splits option.splits sum.splits)
  show "\<exists>mx \<le> MAX_BPC_SNAPSHOT_MAX_AGE_MS. validSnapshot (ownDataValue result ''snapshot'') pairId now mx = Inr (Some scope)"
    using assms r
    by (intro exI [of _ "nullish maxAge DEFAULT_BPC_SNAPSHOT_MAX_AGE_MS"])
      (auto simp: bpc_evidence_def Let_def split: if_splits option.splits sum.splits)
qed

lemma ultra_preflight_Inr:
  assumes e: "ultra_preflight cb req w = (w2, Inr (pairId, scope, cid))"
  obtains w1 result where "uc_bpcVerify cb req w = (w1, Inr result)"
    "bpc_evidence (uc_maxAge cb) (uc_now cb w1) result = Inr (pairId, scope)"
    "uc_resolve cb pairId w1 = (w2, Inr (Prim (JString cid)))" "getSingleHeader req HEADER_CLIENT_ID = Some cid"
  using assms
  by (auto simp: ultra_preflight_def any_str_Some split: prod.splits sum.splits if_splits option.splits)

lemma ultra_fail_not_ok [simp]: "\<not> ur_ok (ultra_fail p l e)"
  by (simp add: ultra_fail_def)

lemma bpc_evidence_Inl: "bpc_evidence maxAge now result = Inl r \<Longrightarrow> \<not> ur_ok r"
  by (cases result) (auto simp: bpc_evidence_def Let_def split: if_splits option.splits sum.splits)

lemma ultra_preflight_Inl: "ultra_preflight cb req w = (w', Inl r) \<Longrightarrow> \<not> ur_ok r"
  by (auto simp: ultra_preflight_def dest: bpc_evidence_Inl split: prod.splits sum.splits if_splits option.splits)

lemma validateTSKKey_ok_clientId:
  assumes "validateTSKKey H key m now cfg = Inr r" and "vr_ok r"
  shows "vr_clientId r = Some (tm_clientId m)"
  using validateTSKKey_accept [OF validateTSKKey_ok_secret [OF assms] validateTSKKey_ok_acceptable [OF assms]] assms(1)
  by (auto simp: loop_result_def)

text \<open>C27: The bridge accepts a request only on both layers and for one identity. The BPC verifier answered
  \<^verbatim>\<open>ok\<close>, not as a shadow, with a frozen, legitimate snapshot for the pair that is at most five minutes old; the
  resolver binds this pair to the client the request claims to be; the TSK verifier accepted a request of this
  client; and in the store exactly the map of this client was committed.\<close>

theorem ultra_requires_both_layers:
  assumes v: "verifyUltraRequest memory_api H cfg ip clk cb headers u = (u', r)" and ok: "ur_ok r"
  shows "\<exists>req w1 result w2 pairId cid own inh t m m' input.
    immutableRequest headers = Inr req \<and> uc_bpcVerify cb req (us_world u) = (w1, Inr result) \<and>
    ownDataValue result ''ok'' = Prim (JBool True) \<and> ownDataValue result ''shadow'' \<noteq> Prim (JBool True) \<and>
    ownDataValue result ''snapshot'' = Obj own inh True True \<and>
    ownDataValue (Obj own inh True True) ''pairId'' = Prim (JString pairId) \<and>
    ownDataValue (Obj own inh True True) ''kind'' = Prim (JString ''legitimate'') \<and>
    any_safe_int (ownDataValue (Obj own inh True True) ''verifiedAt'') = Some t \<and> \<bar>uc_now cb w1 - t\<bar> \<le> 300000 \<and>
    bpc_scope (ownDataValue (Obj own inh True True) ''scope'') = ur_scope r \<and>
    uc_resolve cb pairId w1 = (w2, Inr (Prim (JString cid))) \<and> getHeader req HEADER_CLIENT_ID = Some cid \<and>
    ur_pairId r = Some pairId \<and> ur_clientId r = Some cid \<and>
    map_of (ms_maps (us_store u)) cid = Some m \<and> tm_clientId m = cid \<and> commit_admissible m input \<and>
    m' = fst (commitValidationToMap m input) \<and> map_of (ms_maps (us_store u')) = (map_of (ms_maps (us_store u)))(cid \<mapsto> m')"
proof -
  obtain req where req: "immutableRequest headers = Inr req"
    using v ok by (cases "immutableRequest headers") (auto simp: verifyUltraRequest_def ultra_fail_def)
  obtain w2 pairId scope cid where pf: "ultra_preflight cb req (us_world u) = (w2, Inr (pairId, scope, cid))"
    using v ok req by (auto simp: verifyUltraRequest_def dest: ultra_preflight_Inl split: prod.splits sum.splits)
  obtain st an tsk where t: "verifyTSKRequest memory_api H cfg ip clk req (us_store u) (us_anomaly u) = (st, an, tsk)"
    using prod_cases3 by blast
  have u': "us_store u' = st" "r = ultra_result pairId scope cid tsk" using v req pf t by (auto simp: verifyUltraRequest_def)
  obtain tr where tr: "tsk = Inr tr" "tv_ok tr" "tv_clientId tr = Some cid"
    using ok u'(2) by (auto simp: ultra_result_def ultra_fail_def split: sum.splits if_splits)
  then have res: "ur_pairId r = Some pairId" "ur_clientId r = Some cid" "ur_scope r = Some scope"
    using u'(2) by (auto simp: ultra_result_def)
  obtain w1 result where b: "uc_bpcVerify cb req (us_world u) = (w1, Inr result)"
    and ev: "bpc_evidence (uc_maxAge cb) (uc_now cb w1) result = Inr (pairId, scope)"
    and rs: "uc_resolve cb pairId w1 = (w2, Inr (Prim (JString cid)))" and hd: "getSingleHeader req HEADER_CLIENT_ID = Some cid"
    by (rule ultra_preflight_Inr [OF pf])
  obtain mx where mx: "mx \<le> MAX_BPC_SNAPSHOT_MAX_AGE_MS"
    and vs: "validSnapshot (ownDataValue result ''snapshot'') pairId (uc_now cb w1) mx = Inr (Some scope)"
    using bpc_evidence_Inr(4) [OF ev] by blast
  have hd': "getHeader req HEADER_CLIENT_ID = Some cid" using hd by (simp add: getHeader_def getSingleHeader_def)
  obtain cid' key m m' vr where vo: "verify_parse req = Inr (cid', key)" "map_of (ms_maps (us_store u)) cid' = Some m"
    "map_of (ms_maps st) = (map_of (ms_maps (us_store u)))(cid' \<mapsto> m')" "validateTSKKey H key m (NInt (vt_validate clk)) cfg = Inr vr"
    "vr_ok vr" "tv_clientId tr = vr_clientId vr" "commit_admissible m (commit_input vr (vt_commit clk))"
    "fst (commitValidationToMap m (commit_input vr (vt_commit clk))) = m'"
    by (rule memst.verify_ok [OF t [unfolded tr(1)] tr(2)])
  have c: "cid' = cid" using vo(1) hd' by (auto simp: verify_parse_def Let_def split: option.splits if_splits)
  have m: "tm_clientId m = cid"
    using validateTSKKey_ok_clientId [OF vo(4,5)] vo(6) tr(3) by simp
  show ?thesis
    by (rule validSnapshot_Some [OF vs])
      (use req b bpc_evidence_Inr(1,2) [OF ev] mx res rs hd' vo(2,3,7,8) c m u'(1) in \<open>auto simp: MAX_BPC_SNAPSHOT_MAX_AGE_MS_def\<close>)
qed

lemma ultra_preflight_safe:
  assumes e: "ultra_preflight cb req w = (w2, Inr (pairId, scope, cid))"
  shows "pairId \<noteq> [] \<and> cid \<noteq> []"
proof -
  have "SAFE_CLIENT_ID cid"
    using e by (auto simp: ultra_preflight_def split: prod.splits sum.splits if_splits option.splits)
  moreover obtain w1 result where "bpc_evidence (uc_maxAge cb) (uc_now cb w1) result = Inr (pairId, scope)"
    by (rule ultra_preflight_Inr [OF e])
  then have "SAFE_PAIR_ID pairId"
    by (auto simp: bpc_evidence_def Let_def split: js_any.splits if_splits option.splits sum.splits)
  ultimately show ?thesis by (auto simp: SAFE_CLIENT_ID_def SAFE_PAIR_ID_def safe_id_def)
qed

lemma ultra_denied:
  assumes v: "verifyUltraRequest memory_api H cfg ip clk cb headers u = (u', r)"
  shows "ur_ok r \<and> (\<exists>p c. ur_pairId r = Some p \<and> ur_clientId r = Some c \<and> p \<noteq> [] \<and> c \<noteq> []) \<and> ur_scope r \<noteq> None \<or>
    \<not> ur_ok r \<and> (ur_outcomeUnknown r \<or> segments_kept (us_store u) (us_store u'))"
proof (cases "immutableRequest headers")
  case (Inl e)
  then show ?thesis using v by (auto simp: verifyUltraRequest_def ultra_fail_def)
next
  case (Inr req)
  obtain w p where p: "ultra_preflight cb req (us_world u) = (w, p)" by force
  show ?thesis
  proof (cases p)
    case (Inl r')
    have "\<not> ur_ok r'" using p unfolding Inl by (rule ultra_preflight_Inl)
    moreover have e: "(u\<lparr>us_world := w\<rparr>, r') = (u', r)" using v by (simp only: verifyUltraRequest_def Inr p Inl sum.case prod.case)
    have "us_store u' = us_store u" using e by (metis prod.inject ultra_state.select_convs(2) ultra_state.surjective ultra_state.update_convs(1))
    ultimately show ?thesis using e by (metis prod.inject segments_kept_refl)
  next
    case x: (Inr x)
    obtain pairId scope cid where x': "x = (pairId, scope, cid)" using prod_cases3 by blast
    obtain st an tsk where t: "verifyTSKRequest memory_api H cfg ip clk req (us_store u) (us_anomaly u) = (st, an, tsk)"
      using prod_cases3 by blast
    have u': "us_store u' = st" "r = ultra_result pairId scope cid tsk"
      using v by (simp_all add: verifyUltraRequest_def Inr p x x' t) auto
    have ne: "pairId \<noteq> [] \<and> cid \<noteq> []" using ultra_preflight_safe [of cb req "us_world u" w pairId scope cid] by (simp add: p x x')
    show ?thesis
    proof (cases tsk)
      case (Inl e)
      then show ?thesis by (simp add: u'(2) ultra_result_def ultra_fail_def)
    next
      case (Inr tr)
      show ?thesis
      proof (cases "tv_ok tr")
        case True
        then show ?thesis using Inr ne by (simp add: u'(2) ultra_result_def ultra_fail_def)
      next
        case False
        have "segments_kept (us_store u) (us_store u')"
          unfolding u'(1) by (rule verify_rejected_keeps_counters [OF t [unfolded Inr] False])
        then show ?thesis using False Inr by (simp add: u'(2) ultra_result_def)
      qed
    qed
  qed
qed

text \<open>C28: A denied request is told apart from one whose outcome is unknown. A request that is not
  authenticated is answered 401 or 409, without the header that lets a client advance its counters; and
  when the answer is 401, no counter of any stored credential has been consumed, so that client and server
  stay in step.\<close>

theorem denied_request_consumes_nothing:
  assumes "authenticateBpcTskHttpRequest memory_api H cfg ip uuid clk cb req reply u = (reply', u', None)"
    and "hx_status reply = None"
  shows "(hx_status reply' = Some 401 \<and> segments_kept (us_store u) (us_store u') \<or> hx_status reply' = Some 409) \<and>
    map_of (hx_headers reply') ''x-tsk-authenticated'' = map_of (hx_headers reply) ''x-tsk-authenticated''"
proof -
  obtain r where v: "verifyUltraRequest memory_api H cfg ip clk cb (headers_js req) u = (u', r)"
    using assms(1) by (auto simp: authenticateBpcTskHttpRequest_def Let_def split: prod.splits if_splits)
  have h: "map_of (hx_headers (writeJson st b (setHeader ''x-request-id'' i reply))) ''x-tsk-authenticated'' =
      map_of (hx_headers reply) ''x-tsk-authenticated''" "hx_status (writeJson st b (setHeader ''x-request-id'' i reply)) = Some st" for st b i
    using assms(2) by (auto simp: writeJson_def setHeader_def)
  from ultra_denied [OF v] show ?thesis
    using assms(1) v h by (auto simp: authenticateBpcTskHttpRequest_def Let_def split: if_splits)
qed

section \<open>Witnesses\<close>

lemma copy_headers_js:
  "''__proto__'' \<notin> fst ` set hs \<Longrightarrow> copy_headers (map (\<lambda>p. (fst p, header_js (snd p))) hs) = Inr hs"
proof (induction hs)
  case (Cons h hs)
  have "list_all (\<lambda>v. case v of JString _ \<Rightarrow> True | _ \<Rightarrow> False) (map JString ss)" for ss by (induction ss) auto
  then have "copy_header (header_js (snd h)) = Inr (Some (snd h))" by (cases "snd h") (auto simp: comp_def)
  with Cons show ?case by (cases h) auto
qed simp

lemma immutableRequest_js: "''__proto__'' \<notin> fst ` set (req_headers req) \<Longrightarrow> immutableRequest (headers_js req) = Inr req"
  by (simp add: immutableRequest_def headers_js_def copy_headers_js)

text \<open>A deployment whose BPC verifier vouches for the pair of the client at the time 990.\<close>

definition example_snapshot :: js_any where
  "example_snapshot = Obj
     [(''pairId'', Some (Prim (JString ''pair_0''))), (''scope'', Some (Prim (JString ''read''))),
      (''mode'', Some (Prim (JString ''production''))), (''kind'', Some (Prim (JString ''legitimate''))),
      (''verifiedAt'', Some (Prim (JNum (NInt 990))))] [] True True"

definition example_callbacks :: "unit ultra_callbacks" where
  "example_callbacks =
     \<lparr>uc_bpcVerify = (\<lambda>req w. (w, Inr (Obj [(''ok'', Some (Prim (JBool True))), (''pairId'', Some (Prim (JString ''pair_0''))),
                                           (''snapshot'', Some example_snapshot)] [] False True))),
      uc_resolve = (\<lambda>pair w. (w, Inr (Prim (JString ''tsk_0'')))), uc_maxAge = None, uc_now = (\<lambda>w. 1000)\<rparr>"

lemma example_preflight:
  "ultra_preflight example_callbacks (tsk_request ''tsk_0'' key) () = ((), Inr (''pair_0'', Scope_read, ''tsk_0''))"
proof -
  have "bpc_evidence (uc_maxAge example_callbacks) (uc_now example_callbacks ()) (case snd (uc_bpcVerify example_callbacks (tsk_request ''tsk_0'' key) ()) of Inr r \<Rightarrow> r) =
      Inr (''pair_0'', Scope_read)" by code_simp
  moreover have "SAFE_CLIENT_ID ''tsk_0''" by code_simp
  moreover have "getSingleHeader (tsk_request ''tsk_0'' key) HEADER_CLIENT_ID = Some ''tsk_0''"
    by (simp add: getSingleHeader_def tsk_request_def)
  ultimately show ?thesis by (simp add: ultra_preflight_def example_callbacks_def)
qed

theorem ultra_requires_both_layers_witness:
  "\<exists>key u' r. verifyUltraRequest memory_api spike_hmac DEFAULT_TSK_CONFIG None (example_times 1000) example_callbacks
      (headers_js (tsk_request ''tsk_0'' key)) \<lparr>us_world = (), us_store = example_store, us_anomaly = None\<rparr> = (u', r) \<and> ur_ok r \<and>
     ur_clientId r = Some ''tsk_0'' \<and> (\<exists>m'. map_of (ms_maps (us_store u')) ''tsk_0'' = Some m')"
proof (rule example_accepted)
  fix key st' t
  assume v: "verifyTSKRequest memory_api spike_hmac DEFAULT_TSK_CONFIG None (example_times 1000) (tsk_request ''tsk_0'' key) example_store None =
      (st', None, Inr t)" "tv_ok t" and p: "verify_parse (tsk_request ''tsk_0'' key) = Inr (''tsk_0'', key)"
  let ?u = "\<lparr>us_world = (), us_store = example_store, us_anomaly = None\<rparr>"
  have req: "immutableRequest (headers_js (tsk_request ''tsk_0'' key)) = Inr (tsk_request ''tsk_0'' key)"
    by (rule immutableRequest_js) (simp add: tsk_request_def HEADER_CLIENT_ID_def HEADER_KEY_def HEADER_VERSION_def)
  obtain m vr where m: "map_of (ms_maps example_store) ''tsk_0'' = Some m"
    "validateTSKKey spike_hmac key m (NInt (vt_validate (example_times 1000))) DEFAULT_TSK_CONFIG = Inr vr" "vr_ok vr" "tv_clientId t = vr_clientId vr"
    by (rule memst.verify_ok [OF v]) (use p in auto)
  have "tv_clientId t = Some ''tsk_0''"
    using validateTSKKey_ok_clientId [OF m(2,3)] m(1,4) by (auto simp: example_store_maps example_map_def)
  then obtain u' r where r: "verifyUltraRequest memory_api spike_hmac DEFAULT_TSK_CONFIG None (example_times 1000) example_callbacks
      (headers_js (tsk_request ''tsk_0'' key)) ?u = (u', r)" "ur_ok r" "ur_clientId r = Some ''tsk_0''"
    using req example_preflight [of key] v by (simp add: verifyUltraRequest_def ultra_result_def)
  have "\<exists>m'. map_of (ms_maps (us_store u')) ''tsk_0'' = Some m'" using ultra_requires_both_layers [OF r(1,2)] r(3) by auto
  with r show ?thesis by blast
qed

definition shadow_callbacks :: "unit ultra_callbacks" where
  "shadow_callbacks =
     example_callbacks\<lparr>uc_bpcVerify := (\<lambda>req w. (w, Inr (Obj [(''ok'', Some (Prim (JBool True))), (''shadow'', Some (Prim (JBool True)))] [] False True)))\<rparr>"

theorem denied_request_consumes_nothing_witness:
  "\<exists>reply' u'. authenticateBpcTskHttpRequest memory_api spike_hmac DEFAULT_TSK_CONFIG None ''r1'' (example_times 1000) shadow_callbacks
      (tsk_request ''tsk_0'' ''k'') \<lparr>hx_headers = [], hx_status = None, hx_body = JUndefined\<rparr>
      \<lparr>us_world = (), us_store = example_store, us_anomaly = None\<rparr> = (reply', u', None) \<and>
     hx_status reply' = Some 401 \<and> map_of (hx_headers reply') ''x-tsk-authenticated'' = None"
proof -
  let ?req = "tsk_request ''tsk_0'' ''k''" and ?u = "\<lparr>us_world = (), us_store = example_store, us_anomaly = None\<rparr>"
    and ?reply = "\<lparr>hx_headers = [], hx_status = None, hx_body = JUndefined\<rparr>"
  have req: "immutableRequest (headers_js ?req) = Inr ?req" by code_simp
  have "snd (ultra_preflight shadow_callbacks ?req ()) = Inl (ultra_fail None [] ''BPC: SHADOW_DENIED'')" by code_simp
  then have "verifyUltraRequest memory_api spike_hmac DEFAULT_TSK_CONFIG None (example_times 1000) shadow_callbacks (headers_js ?req) ?u =
      (?u\<lparr>us_world := ()\<rparr>, ultra_fail None [] ''BPC: SHADOW_DENIED'')"
    using req by (auto simp: verifyUltraRequest_def split: prod.splits)
  then obtain reply' u' where a: "authenticateBpcTskHttpRequest memory_api spike_hmac DEFAULT_TSK_CONFIG None ''r1'' (example_times 1000)
      shadow_callbacks ?req ?reply ?u = (reply', u', None)" "hx_status reply' = Some 401"
    by (simp add: authenticateBpcTskHttpRequest_def Let_def ultra_fail_def writeJson_def setHeader_def)
  then show ?thesis using denied_request_consumes_nothing [OF a(1)] by auto
qed

end
