(* ===== verification/Outbox_Contract.thy ===== *)
theory Outbox_Contract
  imports Canonical_Json Crypto
begin

text \<open>
  The contract of the durable outbox, \<^verbatim>\<open>packages/server/src/ha-outbox-contract.ts\<close>: the canonical text of
  untrusted values within fixed budgets, the length-prefixed framing of the digests, the digests of
  operations, epoch transitions and stream heads, and the validation of headers and heads. The main
  result is that a digest binds every field that goes into it. Strings of the model have code units below
  256, so the surrogate check is stated on code units. Errors are the messages of
  \<^verbatim>\<open>ContractValidationError\<close>, without the pattern they quote.
\<close>

section \<open>Constants and patterns\<close>

definition HA_OUTBOX_CONTRACT_VERSION :: string where "HA_OUTBOX_CONTRACT_VERSION = ''1''"
definition HA_OUTBOX_DIGEST_DOMAIN :: string where "HA_OUTBOX_DIGEST_DOMAIN = ''selfconnect/ha-outbox/v1''"
definition CANON_MAX_DEPTH :: int where "CANON_MAX_DEPTH = 64"
definition CANON_MAX_NODES :: int where "CANON_MAX_NODES = 10000"
definition CANON_MAX_STRING_BYTES :: int where "CANON_MAX_STRING_BYTES = 65536"
definition CANON_MAX_TOTAL_BYTES :: int where "CANON_MAX_TOTAL_BYTES = 1048576"
definition U32_CEIL :: int where "U32_CEIL = 4294967296"

definition id_start :: "char \<Rightarrow> bool" where
  "id_start c \<longleftrightarrow> is_lower c \<or> is_upper c \<or> is_digit c"

fun ID_PATTERN :: "string \<Rightarrow> bool" where
  "ID_PATTERN [] \<longleftrightarrow> False"
| "ID_PATTERN (c # cs) \<longleftrightarrow> id_start c \<and> length cs \<le> 127 \<and> list_all (\<lambda>d. id_start d \<or> d \<in> set '':._/-'') cs"

fun FENCE_TOKEN_PATTERN :: "string \<Rightarrow> bool" where
  "FENCE_TOKEN_PATTERN [] \<longleftrightarrow> False"
| "FENCE_TOKEN_PATTERN (c # cs) \<longleftrightarrow>
     c = CHR ''0'' \<and> cs = [] \<or> is_digit c \<and> c \<noteq> CHR ''0'' \<and> length cs \<le> 38 \<and> list_all is_digit cs"

definition HEX64 :: "string \<Rightarrow> bool" where
  "HEX64 s \<longleftrightarrow> length s = 64 \<and> list_all is_lower_hex_char s"

declare ID_PATTERN.simps [simp del] FENCE_TOKEN_PATTERN.simps [simp del]

text \<open>Whether a thrown transport error, with its \<^verbatim>\<open>retriable\<close> property, is terminal.\<close>

definition isTerminalTransportError :: "jsval \<Rightarrow> bool" where
  "isTerminalTransportError err \<longleftrightarrow> (case err of JObject ps \<Rightarrow> js_get err ''retriable'' = JBool False | _ \<Rightarrow> False)"

definition assertId :: "string \<Rightarrow> string \<Rightarrow> unit res" where
  "assertId value label = (if ID_PATTERN value then Inr () else Inl (label @ '' must match ID_PATTERN (bounded, no separators)''))"

section \<open>Canonical text\<close>

text \<open>The surrogate check on UTF-16 code units.\<close>

fun assertNoLoneSurrogate :: "int list \<Rightarrow> unit res" where
  "assertNoLoneSurrogate [] = Inr ()"
| "assertNoLoneSurrogate (c # cs) =
     (if 0xd800 \<le> c \<and> c \<le> 0xdbff
      then (case cs of
              n # cs' \<Rightarrow> if 0xdc00 \<le> n \<and> n \<le> 0xdfff then assertNoLoneSurrogate cs' else Inl ''lone high surrogate is not canonicalizable''
            | [] \<Rightarrow> Inl ''lone high surrogate is not canonicalizable'')
      else if 0xdc00 \<le> c \<and> c \<le> 0xdfff then Inl ''lone low surrogate is not canonicalizable''
      else assertNoLoneSurrogate cs)"

definition code_units :: "string \<Rightarrow> int list" where
  "code_units s = map of_char s"

definition utf8Len :: "string \<Rightarrow> int" where
  "utf8Len s = int (length (utf8 s))"

definition jcsString :: "string \<Rightarrow> string res" where
  "jcsString s =
     bind_res (assertNoLoneSurrogate (code_units s)) (\<lambda>_.
       if CANON_MAX_STRING_BYTES < utf8Len s then Inl ''string exceeds CANON_MAX_STRING_BYTES''
       else Inr (CHR 0x22 # concat (map json_char s) @ [CHR 0x22]))"

definition jcsNumber :: "jsnum \<Rightarrow> string res" where
  "jcsNumber n =
     (if Number_isSafeInteger n then Inr (show_num n) else Inl ''only safe-integer numbers are canonicalizable'')"

text \<open>What \<^verbatim>\<open>canonicalize\<close> can be given. An own property has a name, a value unless it is an accessor, and
  may be enumerable. An array has a length, own properties apart from the length, and may have symbol
  properties; an object may have symbol keys, and may be plain.\<close>

datatype js_value =
    VUndefined
  | VNull
  | VBool bool
  | VNumber jsnum
  | VString string
  | VBigint
  | VFunction
  | VSymbol
  | VArray nat "(string \<times> js_value option \<times> bool) list" bool
  | VObject "(string \<times> js_value option \<times> bool) list" bool bool

type_synonym js_props = "(string \<times> js_value option \<times> bool) list"

definition js_item :: "js_props \<Rightarrow> string \<Rightarrow> js_value" where
  "js_item own k = (case map_of own k of Some (Some v, _) \<Rightarrow> v | _ \<Rightarrow> VUndefined)"

definition is_index :: "string \<Rightarrow> bool" where
  "is_index k \<longleftrightarrow> k \<noteq> [] \<and> list_all is_digit k \<and> show_nat (dec_value k) = k"

definition array_property :: "string \<times> js_value option \<times> bool \<Rightarrow> unit res" where
  "array_property p =
     (case p of (k, v, enumerable) \<Rightarrow>
        if \<not> is_index k then Inl (''array has non-index property '' @ k)
        else if v = None \<or> \<not> enumerable then Inl (''array index must be an enumerable data property: '' @ k)
        else Inr ())"

definition object_property :: "string \<times> js_value option \<times> bool \<Rightarrow> unit res" where
  "object_property p =
     (case p of (k, v, enumerable) \<Rightarrow>
        if v = None then Inl (''accessor property is not canonicalizable: '' @ k)
        else if \<not> enumerable then Inl (''non-enumerable property is not canonicalizable: '' @ k)
        else if k = ''__proto__'' then Inl ''__proto__ key is rejected''
        else Inr ())"

text \<open>The budgets spent and the pieces of text produced so far.\<close>

record canon =
  cn_nodes :: int
  cn_bytes :: int
  cn_parts :: "string list"

definition push_part :: "string \<Rightarrow> canon \<Rightarrow> canon res" where
  "push_part s c =
     (let bytes = cn_bytes c + utf8Len s in
      if CANON_MAX_TOTAL_BYTES < bytes then Inl ''canonical form exceeds CANON_MAX_TOTAL_BYTES''
      else Inr (c\<lparr>cn_bytes := bytes, cn_parts := cn_parts c @ [s]\<rparr>))"

definition separator :: "nat \<Rightarrow> canon \<Rightarrow> canon res" where
  "separator i c = (if i = 0 then Inr c else push_part '','' c)"

lemma size_prop: "(k, Some v, e) \<in> set own \<Longrightarrow> size v < Suc (size_list (size_prod (\<lambda>_. 0) (size_prod (size_option size) (\<lambda>_. 0))) own)"
  by (induction own) auto

lemma size_js_item:
  "size (js_item own k) < size (VArray n own s)" "size (js_item own k) < size (VObject own s pl)"
  by (auto simp: js_item_def split: option.splits prod.splits dest!: map_of_SomeD size_prop)

text \<open>The entry of every node: its depth and its place in the node budget.\<close>

definition node :: "int \<Rightarrow> canon \<Rightarrow> canon res" where
  "node depth c =
     (if CANON_MAX_DEPTH < depth then Inl ''max canonicalization depth exceeded''
      else if CANON_MAX_NODES < cn_nodes c + 1 then Inl ''max canonicalization node count exceeded''
      else Inr (c\<lparr>cn_nodes := cn_nodes c + 1\<rparr>))"

function walk :: "js_value \<Rightarrow> int \<Rightarrow> canon \<Rightarrow> canon res" where
  "walk VNull depth c = bind_res (node depth c) (push_part ''null'')"
| "walk (VBool b) depth c = bind_res (node depth c) (push_part (if b then ''true'' else ''false''))"
| "walk (VNumber n) depth c = bind_res (node depth c) (\<lambda>c. bind_res (jcsNumber n) (\<lambda>s. push_part s c))"
| "walk (VString s) depth c = bind_res (node depth c) (\<lambda>c. bind_res (jcsString s) (\<lambda>t. push_part t c))"
| "walk VUndefined depth c = bind_res (node depth c) (\<lambda>_. Inl ''undefined is not canonicalizable'')"
| "walk VBigint depth c = bind_res (node depth c) (\<lambda>_. Inl ''bigint is not canonicalizable'')"
| "walk VFunction depth c = bind_res (node depth c) (\<lambda>_. Inl ''function is not canonicalizable'')"
| "walk VSymbol depth c = bind_res (node depth c) (\<lambda>_. Inl ''symbol is not canonicalizable'')"
| "walk (VArray n own symbols) depth c =
     bind_res (node depth c) (\<lambda>c.
       if symbols then Inl ''array with symbol property is not canonicalizable''
       else bind_res (check_all array_property own) (\<lambda>_.
         if length own \<noteq> n then Inl ''array is sparse or has divergent index/length''
         else bind_res (push_part ''['' c) (\<lambda>c.
           bind_res (fold_res (\<lambda>(i, k) c. bind_res (separator i c) (walk (js_item own k) (depth + 1)))
                       (enumerate 0 (map show_nat [0..<n])) c) (push_part '']''))))"
| "walk (VObject own symbols plain) depth c =
     bind_res (node depth c) (\<lambda>c.
       if \<not> plain then Inl ''only plain objects are canonicalizable (no Date/Map/Set/class)''
       else if symbols then Inl ''symbol keys are not canonicalizable''
       else bind_res (check_all object_property own) (\<lambda>_.
         bind_res (push_part ''{'' c) (\<lambda>c.
           bind_res (fold_res (\<lambda>(i, k) c.
                         bind_res (separator i c) (\<lambda>c. bind_res (assertNoLoneSurrogate (code_units k)) (\<lambda>_.
                         bind_res (jcsString k) (\<lambda>t. bind_res (push_part (t @ '':'') c) (walk (js_item own k) (depth + 1))))))
                       (enumerate 0 (sort (map fst own))) c) (push_part ''}''))))"
  by pat_completeness auto

termination walk
  by (relation "measure (\<lambda>(v, _). size v)") (use size_js_item in auto)

declare walk.simps [simp del]

lemma node_Inr: "node d c = Inr c' \<Longrightarrow> c' = c\<lparr>cn_nodes := cn_nodes c + 1\<rparr>"
  by (auto simp: node_def split: if_splits)

definition canonicalize :: "js_value \<Rightarrow> string res" where
  "canonicalize value =
     bind_res (walk value 0 \<lparr>cn_nodes = 0, cn_bytes = 0, cn_parts = []\<rparr>) (\<lambda>c. Inr (concat (cn_parts c)))"

section \<open>The text is the canonical text of the data\<close>

text \<open>The JSON data of a value: what a reader of its text gets.\<close>

function plain_data :: "js_value \<Rightarrow> jsval" where
  "plain_data VNull = JNull"
| "plain_data (VBool b) = JBool b"
| "plain_data (VNumber n) = JNum n"
| "plain_data (VString s) = JString s"
| "plain_data (VArray n own symbols) = JArray (map (\<lambda>i. plain_data (js_item own (show_nat i))) [0..<n])"
| "plain_data (VObject own symbols plain) = JObject (map (\<lambda>k. (k, plain_data (js_item own k))) (map fst own))"
| "plain_data VUndefined = JUndefined"
| "plain_data VBigint = JUndefined"
| "plain_data VFunction = JUndefined"
| "plain_data VSymbol = JUndefined"
  by pat_completeness auto

termination plain_data
  by (relation "measure size") (use size_js_item in auto)

lemma jcsString_Inr: "jcsString s = Inr t \<Longrightarrow> t = json_string s"
  by (auto simp: jcsString_def json_string_def bind_res_Inr_iff split: if_splits)

lemma jcsNumber_Inr: "jcsNumber n = Inr t \<Longrightarrow> \<exists>i. n = NInt i \<and> t = show_int i"
  by (auto simp: jcsNumber_def isSafeInteger_iff split: if_splits)

text \<open>The text produced so far, and what a piece of the walk adds to it.\<close>

abbreviation written :: "canon \<Rightarrow> string" where
  "written c \<equiv> concat (cn_parts c)"

definition adds :: "canon \<Rightarrow> string \<Rightarrow> canon \<Rightarrow> bool" where
  "adds c t c' \<longleftrightarrow> written c' = written c @ t \<and> cn_bytes c' = cn_bytes c + utf8Len t"

lemma adds_trans: "adds c s d \<Longrightarrow> adds d t e \<Longrightarrow> adds c (s @ t) e"
  by (simp add: adds_def utf8Len_def)

lemma adds_refl [simp]: "adds c [] c"
  by (simp add: adds_def utf8Len_def)

lemma adds_nodes [simp]: "adds (c\<lparr>cn_nodes := n\<rparr>) t c' \<longleftrightarrow> adds c t c'"
  by (simp add: adds_def)

lemma push_Inr: "push_part s c = Inr c' \<Longrightarrow> adds c s c'"
  by (auto simp: push_part_def adds_def Let_def split: if_splits)

lemma fold_separated:
  assumes "fold_res (\<lambda>(i, x) c. bind_res (separator i c) (f x)) (enumerate n xs) c = Inr c'"
    and "\<And>x c c'. x \<in> set xs \<Longrightarrow> f x c = Inr c' \<Longrightarrow> adds c (g x) c'"
  shows "adds c (if n = 0 then json_join (map g xs) else json_tail (map g xs)) c'"
  using assms
proof (induction xs arbitrary: n c)
  case Nil
  then show ?case by (simp add: json_tail_def)
next
  case (Cons x xs)
  then obtain d e where de: "separator n c = Inr d" "f x d = Inr e"
    and rest: "fold_res (\<lambda>(i, x) c. bind_res (separator i c) (f x)) (enumerate (Suc n) xs) e = Inr c'"
    by (auto simp: bind_res_Inr_iff)
  have d: "adds c (if n = 0 then [] else '','') d"
    using de(1) push_Inr by (auto simp: separator_def split: if_splits)
  have "adds c ((if n = 0 then [] else '','') @ g x) e"
    by (rule adds_trans [OF d]) (use Cons.prems(2) de(2) in auto)
  from adds_trans [OF this] Cons.IH [OF rest Cons.prems(2)] show ?case
    by (auto simp: json_join_Cons) (simp_all add: json_tail_def)
qed

lemma fold_joined:
  assumes "fold_res (\<lambda>(i, x) c. bind_res (separator i c) (f x)) (enumerate 0 xs) c = Inr c'"
    and "\<And>x c c'. x \<in> set xs \<Longrightarrow> f x c = Inr c' \<Longrightarrow> adds c (g x) c'"
  shows "adds c (json_join (map g xs)) c'"
  using fold_separated [OF assms] by simp

lemma fold_separated_each:
  assumes "fold_res (\<lambda>(i, x) c. bind_res (separator i c) (f x)) (enumerate n xs) c = Inr c'" and "x \<in> set xs"
  shows "\<exists>d e. f x d = Inr e"
  using assms by (induction xs arbitrary: n c) (auto simp: bind_res_Inr_iff)

lemma sort_key_graph: "sort_key fst (map (\<lambda>k. (k, g k)) ks) = map (\<lambda>k. (k, g k)) (sort ks)"
proof (induction ks)
  case (Cons k ks)
  have "insort_key fst (k, g k) (map (\<lambda>k. (k, g k)) ys) = map (\<lambda>k. (k, g k)) (insort k ys)" for ys
    by (induction ys) auto
  with Cons show ?case by simp
qed simp


text \<open>What the walk of an element gives, for arrays and objects alike.\<close>

definition rendered :: "js_value \<Rightarrow> bool" where
  "rendered v \<longleftrightarrow> plain_data v \<noteq> JUndefined \<and> integral (plain_data v)"

lemma canonical_array:
  assumes "\<And>i. i < n \<Longrightarrow> rendered (js_item own (show_nat i))"
  shows "canonical (plain_data (VArray n own sy)) =
      ''['' @ json_join (map (\<lambda>k. canonical (plain_data (js_item own k))) (map show_nat [0..<n])) @ '']''"
proof -
  have "map (\<lambda>v. canonical (if v = JUndefined then JNull else v)) (map (\<lambda>i. plain_data (js_item own (show_nat i))) [0..<n]) =
      map (\<lambda>k. canonical (plain_data (js_item own k))) (map show_nat [0..<n])"
    using assms by (auto simp: rendered_def)
  then show ?thesis by (simp only: plain_data.simps canonical.simps) simp
qed

lemma canonical_object:
  assumes "\<And>k. k \<in> set (map fst own) \<Longrightarrow> rendered (js_item own k)"
  shows "canonical (plain_data (VObject own sy pl)) =
      ''{'' @ json_join (map (\<lambda>k. json_string k @ '':'' @ canonical (plain_data (js_item own k))) (sort (map fst own))) @ ''}''"
proof -
  have "filter (\<lambda>p. snd p \<noteq> JUndefined) (map (\<lambda>k. (k, plain_data (js_item own k))) (map fst own)) =
      map (\<lambda>k. (k, plain_data (js_item own k))) (map fst own)"
    by (rule filter_True) (use assms in \<open>auto simp: rendered_def\<close>)
  then show ?thesis by (simp only: plain_data.simps canonical.simps sort_key_graph) (simp add: comp_def)
qed

lemma walk_array:
  assumes w: "walk (VArray n own sy) d c = Inr c'"
    and el: "\<And>i c c'. i < n \<Longrightarrow> walk (js_item own (show_nat i)) (d + 1) c = Inr c' \<Longrightarrow>
      adds c (canonical (plain_data (js_item own (show_nat i)))) c' \<and> rendered (js_item own (show_nat i))"
  shows "adds c (canonical (plain_data (VArray n own sy))) c' \<and> rendered (VArray n own sy)"
proof -
  let ?ks = "map show_nat [0..<n]" and ?f = "\<lambda>k. walk (js_item own k) (d + 1)"
  obtain c2 c3 where c: "push_part ''['' (c\<lparr>cn_nodes := cn_nodes c + 1\<rparr>) = Inr c2" "push_part '']'' c3 = Inr c'"
    and f: "fold_res (\<lambda>(i, k) c. bind_res (separator i c) (?f k)) (enumerate 0 ?ks) c2 = Inr c3"
    using w by (auto simp: walk.simps bind_res_Inr_iff split: if_splits dest!: node_Inr)
  have r: "rendered (js_item own (show_nat i))" if "i < n" for i
    using fold_separated_each [OF f, of "show_nat i"] el that by auto
  have "adds c2 (json_join (map (\<lambda>k. canonical (plain_data (js_item own k))) ?ks)) c3"
    by (rule fold_joined [OF f]) (use el in auto)
  from adds_trans [OF adds_trans [OF push_Inr [OF c(1)] this] push_Inr [OF c(2)]]
  have "adds c (canonical (plain_data (VArray n own sy))) c'"
    unfolding adds_nodes using canonical_array [OF r] by simp
  then show ?thesis using r by (auto simp: rendered_def)
qed

lemma walk_object:
  assumes w: "walk (VObject own sy pl) d c = Inr c'"
    and el: "\<And>k c c'. k \<in> set (map fst own) \<Longrightarrow> walk (js_item own k) (d + 1) c = Inr c' \<Longrightarrow>
      adds c (canonical (plain_data (js_item own k))) c' \<and> rendered (js_item own k)"
  shows "adds c (canonical (plain_data (VObject own sy pl))) c' \<and> rendered (VObject own sy pl)"
proof -
  let ?ks = "sort (map fst own)"
  let ?f = "\<lambda>k c. bind_res (assertNoLoneSurrogate (code_units k)) (\<lambda>_.
              bind_res (jcsString k) (\<lambda>t. bind_res (push_part (t @ '':'') c) (walk (js_item own k) (d + 1))))"
  obtain c2 c3 where c: "push_part ''{'' (c\<lparr>cn_nodes := cn_nodes c + 1\<rparr>) = Inr c2" "push_part ''}'' c3 = Inr c'"
    and f: "fold_res (\<lambda>(i, k) c. bind_res (separator i c) (?f k)) (enumerate 0 ?ks) c2 = Inr c3"
    using w by (auto simp: walk.simps bind_res_Inr_iff split: if_splits dest!: node_Inr)
  have each: "adds c (json_string k @ '':'' @ canonical (plain_data (js_item own k))) c' \<and> rendered (js_item own k)"
    if k: "k \<in> set ?ks" and fk: "?f k c = Inr c'" for k c c'
  proof -
    obtain t d' where t: "jcsString k = Inr t" "push_part (t @ '':'') c = Inr d'" "walk (js_item own k) (d + 1) d' = Inr c'"
      using fk by (auto simp: bind_res_Inr_iff)
    with el [of k d' c'] k show ?thesis
      using adds_trans [OF push_Inr [OF t(2)]] jcsString_Inr [OF t(1)] by fastforce
  qed
  have r: "rendered (js_item own k)" if "k \<in> set (map fst own)" for k
    using fold_separated_each [OF f, of k] each that by auto
  have "adds c2 (json_join (map (\<lambda>k. json_string k @ '':'' @ canonical (plain_data (js_item own k))) ?ks)) c3"
    by (rule fold_joined [OF f]) (use each in auto)
  from adds_trans [OF adds_trans [OF push_Inr [OF c(1)] this] push_Inr [OF c(2)]]
  have "adds c (canonical (plain_data (VObject own sy pl))) c'"
    unfolding adds_nodes using canonical_object [OF r] by simp
  then show ?thesis using r by (auto simp: rendered_def)
qed

lemma walk_text: "walk v d c = Inr c' \<Longrightarrow> adds c (canonical (plain_data v)) c' \<and> rendered v"
proof (induction v arbitrary: d c c' rule: measure_induct_rule [where f = size])
  case (less v)
  show ?case
  proof (cases v)
    case (VArray n own sy)
    then show ?thesis using walk_array less size_js_item(1) by metis
  next
    case (VObject own sy pl)
    then show ?thesis using walk_object less size_js_item(2) by metis
  qed (use less.prems in \<open>auto simp: walk.simps rendered_def bind_res_Inr_iff
      dest!: jcsString_Inr jcsNumber_Inr node_Inr push_Inr split: if_splits\<close>)
qed

lemma walk_bytes: "walk v d c = Inr c' \<Longrightarrow> cn_bytes c \<le> CANON_MAX_TOTAL_BYTES \<Longrightarrow> cn_bytes c' \<le> CANON_MAX_TOTAL_BYTES"
  by (cases v) (auto simp: walk.simps push_part_def Let_def bind_res_Inr_iff split: if_splits)

text \<open>The budgeted walk computes the reference text, and never more than its budget.\<close>

lemma canonicalize_Inr:
  assumes "canonicalize v = Inr s"
  shows "s = canonical (plain_data v)" "rendered v" "utf8Len s \<le> CANON_MAX_TOTAL_BYTES"
proof -
  obtain c where c: "walk v 0 \<lparr>cn_nodes = 0, cn_bytes = 0, cn_parts = []\<rparr> = Inr c" "s = written c"
    using assms by (auto simp: canonicalize_def bind_res_Inr_iff)
  show "s = canonical (plain_data v)" "rendered v" "utf8Len s \<le> CANON_MAX_TOTAL_BYTES"
    using walk_text [OF c(1)] walk_bytes [OF c(1)] c(2) by (auto simp: adds_def CANON_MAX_TOTAL_BYTES_def)
qed

lemma canonicalize_content:
  "canonicalize v = Inr s \<Longrightarrow> canonicalize w = Inr t \<Longrightarrow> s = t \<longleftrightarrow> content (plain_data v) = content (plain_data w)"
  using canonicalize_Inr canonical_prefix [of "plain_data v" "[]" "plain_data w" "[]"] canonical_content
  by (metis append_Nil2 closes_simps(1) rendered_def)


section \<open>Framing\<close>

definition be32 :: "int \<Rightarrow> byte list" where
  "be32 n = [of_int (n div 2 ^ 24), of_int (n div 2 ^ 16), of_int (n div 2 ^ 8), of_int n]"

definition u32be :: "int \<Rightarrow> byte list res" where
  "u32be n =
     (if n < 0 \<or> U32_CEIL \<le> n then Inl ''field byte length exceeds the u32 framing ceiling''
      else Inr (be32 n))"

text \<open>The bytes that the loop over the fields feeds to the hash.\<close>

fun frame :: "string list \<Rightarrow> byte list res" where
  "frame [] = Inr []"
| "frame (f # fs) =
     bind_res (u32be (utf8Len f)) (\<lambda>n. bind_res (frame fs) (\<lambda>bs. Inr (n @ utf8 f @ bs)))"

definition framed_digest :: "sha_fn \<Rightarrow> string list \<Rightarrow> string res" where
  "framed_digest S fs = bind_res (frame fs) (\<lambda>bs. Inr (digest_hex (S bs)))"

definition assertFenceToken :: "string \<Rightarrow> unit res" where
  "assertFenceToken t =
     (if FENCE_TOKEN_PATTERN t then Inr () else Inl ''fenceToken must be canonical non-negative decimal (no leading zeros)'')"

lemma four_bytes:
  assumes "0 \<le> (n :: int)" and "n < 2 ^ 32"
  shows "n = ((n div 2 ^ 24 mod 256 * 256 + n div 2 ^ 16 mod 256) * 256 + n div 2 ^ 8 mod 256) * 256 + n mod 256"
proof -
  define a b c where "a = n div 256" and "b = a div 256" and "c = b div 256"
  have d: "n div 2 ^ 8 = a" "n div 2 ^ 16 = b" "n div 2 ^ 24 = c"
    by (simp_all add: a_def b_def c_def zdiv_zmult2_eq [symmetric])
  have "c mod 256 = c" using assms d(3) by auto
  moreover have "a * 256 + n mod 256 = n" "b * 256 + a mod 256 = a" "c * 256 + b mod 256 = b"
    by (simp_all only: a_def b_def c_def div_mult_mod_eq)
  ultimately show ?thesis by (simp only: d)
qed

lemma u32be_inject:
  assumes "u32be m = Inr x" and "u32be n = Inr x"
  shows "m = n"
proof -
  have lt: "0 \<le> m" "m < 2 ^ 32" "0 \<le> n" "n < 2 ^ 32" using assms by (auto simp: u32be_def U32_CEIL_def split: if_splits)
  have eq: "(of_int (m div 2 ^ 24) :: byte) = of_int (n div 2 ^ 24)" "(of_int (m div 2 ^ 16) :: byte) = of_int (n div 2 ^ 16)"
    "(of_int (m div 2 ^ 8) :: byte) = of_int (n div 2 ^ 8)" "(of_int m :: byte) = of_int n"
    using assms by (auto simp: u32be_def be32_def split: if_splits)
  have word: "(of_int i :: byte) = of_int j \<Longrightarrow> i mod 256 = j mod 256" for i j
    by (drule arg_cong [where f = uint]) (simp add: uint_word_of_int)
  show ?thesis
    by (subst four_bytes [OF lt(1,2)], subst four_bytes [OF lt(3,4)])
      (simp only: word [OF eq(1)] word [OF eq(2)] word [OF eq(3)] word [OF eq(4)])
qed

lemma length_be32 [simp]: "length (be32 n) = 4"
  by (simp add: be32_def)

lemma u32be_length: "u32be n = Inr x \<Longrightarrow> length x = 4"
  by (auto simp: u32be_def split: if_splits)

text \<open>The framing is a prefix code: the fields can be read off the bytes.\<close>

lemma frame_inject: "frame xs = Inr b \<Longrightarrow> frame ys = Inr b \<Longrightarrow> xs = ys"
proof (induction xs arbitrary: ys b)
  case Nil
  then show ?case by (cases ys) (auto simp: bind_res_Inr_iff dest: u32be_length)
next
  case (Cons x xs)
  obtain n bs where x: "u32be (utf8Len x) = Inr n" "frame xs = Inr bs" "b = n @ utf8 x @ bs"
    using Cons.prems(1) by (auto simp: bind_res_Inr_iff)
  then have "ys \<noteq> []" using Cons.prems(2) u32be_length [OF x(1)] by auto
  then obtain y ys' m cs where y: "ys = y # ys'" "u32be (utf8Len y) = Inr m" "frame ys' = Inr cs" "b = m @ utf8 y @ cs"
    using Cons.prems(2) by (cases ys) (auto simp: bind_res_Inr_iff)
  have "n = m" "utf8 x @ bs = utf8 y @ cs" using x(3) y(4) u32be_length [OF x(1)] u32be_length [OF y(2)] by simp_all
  moreover from this have "length (utf8 x) = length (utf8 y)" using u32be_inject [OF x(1), of "utf8Len y"] y(2) by (simp add: utf8Len_def)
  ultimately have "x = y" "bs = cs" by simp_all
  with Cons.IH [OF x(2)] y(1,3) show ?case by simp
qed

lemma framed_digest_Inr: "framed_digest S fs = Inr d \<longleftrightarrow> (\<exists>bs. frame fs = Inr bs \<and> d = digest_hex (S bs))"
  by (auto simp: framed_digest_def bind_res_Inr_iff)

section \<open>Digests\<close>

record op_input =
  oi_streamId :: string
  oi_sourceEpoch :: string
  oi_sequence :: int
  oi_fenceToken :: string
  oi_mutation :: js_value

definition safe_nat :: "int \<Rightarrow> int \<Rightarrow> bool" where
  "safe_nat lo n \<longleftrightarrow> Number_isSafeInteger (NInt n) \<and> lo \<le> n"

definition assert_id :: "string \<Rightarrow> string \<Rightarrow> unit res" where
  "assert_id value label = bind_res (assertId value label) (\<lambda>_. assertNoLoneSurrogate (code_units value))"

definition require :: "bool \<Rightarrow> string \<Rightarrow> unit res" where
  "require ok msg = (if ok then Inr () else Inl msg)"

definition op_fields :: "op_input \<Rightarrow> string list res" where
  "op_fields i =
     bind_res (assert_id (oi_streamId i) ''streamId'') (\<lambda>_.
     bind_res (assert_id (oi_sourceEpoch i) ''sourceEpoch'') (\<lambda>_.
     bind_res (require (safe_nat 1 (oi_sequence i)) ''mutation sequence must be a safe integer >= 1 (0 is genesis)'') (\<lambda>_.
     bind_res (assertFenceToken (oi_fenceToken i)) (\<lambda>_.
     bind_res (canonicalize (oi_mutation i)) (\<lambda>text.
       Inr [HA_OUTBOX_DIGEST_DOMAIN, HA_OUTBOX_CONTRACT_VERSION, oi_streamId i, oi_sourceEpoch i, show_int (oi_sequence i),
            oi_fenceToken i, text])))))"

definition canonicalOpDigest :: "sha_fn \<Rightarrow> op_input \<Rightarrow> string res" where
  "canonicalOpDigest S i = bind_res (op_fields i) (framed_digest S)"

record OutboxRecordHeader =
  oh_contractVersion :: string
  oh_streamId :: string
  oh_sourceEpoch :: string
  oh_sequence :: int
  oh_fenceToken :: string
  oh_opDigest :: string

record IdempotencyKey =
  ik_streamId :: string
  ik_sourceEpoch :: string
  ik_sequence :: int

definition idempotencyKeyOf :: "OutboxRecordHeader \<Rightarrow> IdempotencyKey" where
  "idempotencyKeyOf h = \<lparr>ik_streamId = oh_streamId h, ik_sourceEpoch = oh_sourceEpoch h, ik_sequence = oh_sequence h\<rparr>"

definition assertHeaderConformant :: "OutboxRecordHeader \<Rightarrow> unit res" where
  "assertHeaderConformant h =
     bind_res (require (oh_contractVersion h = HA_OUTBOX_CONTRACT_VERSION) (''unsupported contractVersion '' @ oh_contractVersion h)) (\<lambda>_.
     bind_res (assert_id (oh_streamId h) ''streamId'') (\<lambda>_.
     bind_res (assert_id (oh_sourceEpoch h) ''sourceEpoch'') (\<lambda>_.
     bind_res (require (safe_nat 1 (oh_sequence h)) ''mutation record sequence must be a safe integer >= 1 (0 is genesis)'') (\<lambda>_.
     bind_res (assertFenceToken (oh_fenceToken h)) (\<lambda>_.
       require (HEX64 (oh_opDigest h)) ''opDigest must be 64 lowercase hex'')))))"

record EpochTransitionRecord =
  et_contractVersion :: string
  et_streamId :: string
  et_fromEpoch :: string
  et_fromEpochIndex :: int
  et_toEpoch :: string
  et_toEpochIndex :: int
  et_snapshotSequence :: int
  et_snapshotDigest :: string
  et_fenceToken :: string
  et_transitionDigest :: string

definition epoch_fields :: "EpochTransitionRecord \<Rightarrow> string list res" where
  "epoch_fields i =
     bind_res (assert_id (et_streamId i) ''streamId'') (\<lambda>_.
     bind_res (assert_id (et_fromEpoch i) ''fromEpoch'') (\<lambda>_.
     bind_res (assert_id (et_toEpoch i) ''toEpoch'') (\<lambda>_.
     bind_res (require (et_fromEpoch i \<noteq> et_toEpoch i) ''epoch transition fromEpoch must differ from toEpoch'') (\<lambda>_.
     bind_res (require (safe_nat 0 (et_fromEpochIndex i)) ''fromEpochIndex must be a non-negative safe integer'') (\<lambda>_.
     bind_res (require (et_toEpochIndex i = et_fromEpochIndex i + 1) ''toEpochIndex must be exactly fromEpochIndex + 1 (no skipped epochs)'') (\<lambda>_.
     bind_res (require (safe_nat 0 (et_snapshotSequence i)) ''snapshotSequence must be a non-negative safe integer'') (\<lambda>_.
     bind_res (require (HEX64 (et_snapshotDigest i)) ''snapshotDigest must be 64 lowercase hex'') (\<lambda>_.
     bind_res (assertFenceToken (et_fenceToken i)) (\<lambda>_.
       Inr [HA_OUTBOX_DIGEST_DOMAIN @ ''/epoch-transition'', HA_OUTBOX_CONTRACT_VERSION, et_streamId i, et_fromEpoch i,
            show_int (et_fromEpochIndex i), et_toEpoch i, show_int (et_toEpochIndex i), show_int (et_snapshotSequence i),
            et_snapshotDigest i, et_fenceToken i])))))))))"

definition epochTransitionDigest :: "sha_fn \<Rightarrow> EpochTransitionRecord \<Rightarrow> string res" where
  "epochTransitionDigest S i = bind_res (epoch_fields i) (framed_digest S)"

definition assertEpochTransitionConformant :: "sha_fn \<Rightarrow> EpochTransitionRecord \<Rightarrow> unit res" where
  "assertEpochTransitionConformant S r =
     bind_res (require (et_contractVersion r = HA_OUTBOX_CONTRACT_VERSION) ''epoch transition contractVersion must be 1'') (\<lambda>_.
     bind_res (epochTransitionDigest S r) (\<lambda>d. require (et_transitionDigest r = d) ''epoch transitionDigest mismatch''))"

definition fenceTokenToDecimal :: "int \<Rightarrow> string res" where
  "fenceTokenToDecimal t = (if t < 0 then Inl ''fenceToken must be a non-negative bigint'' else Inr (show_int t))"

definition STREAM_HEAD_ALGS :: "string list" where
  "STREAM_HEAD_ALGS = [''ed25519'', ''ecdsa-p256-sha256'']"

definition KEY_ID_PATTERN :: "string \<Rightarrow> bool" where
  "KEY_ID_PATTERN = ID_PATTERN"

record SignedStreamHead =
  sh_streamId :: string
  sh_sequence :: int
  sh_prevHeadDigest :: string
  sh_opDigest :: string
  sh_keyId :: string
  sh_alg :: string
  sh_headDigest :: string
  sh_signature :: string

definition head_fields :: "SignedStreamHead \<Rightarrow> string list res" where
  "head_fields h =
     bind_res (assert_id (sh_streamId h) ''streamId'') (\<lambda>_.
     bind_res (require (safe_nat 1 (sh_sequence h)) ''mutation stream-head sequence must be a safe integer >= 1'') (\<lambda>_.
     bind_res (require (HEX64 (sh_prevHeadDigest h)) ''prevHeadDigest must be 64 lowercase hex'') (\<lambda>_.
     bind_res (require (HEX64 (sh_opDigest h)) ''opDigest must be 64 lowercase hex'') (\<lambda>_.
     bind_res (require (KEY_ID_PATTERN (sh_keyId h)) ''invalid keyId'') (\<lambda>_.
     bind_res (require (sh_alg h \<in> set STREAM_HEAD_ALGS) ''unknown alg'') (\<lambda>_.
       Inr [HA_OUTBOX_DIGEST_DOMAIN @ ''/tsk-stream-head'', HA_OUTBOX_CONTRACT_VERSION, sh_streamId h, show_int (sh_sequence h),
            sh_prevHeadDigest h, sh_opDigest h, sh_keyId h, sh_alg h]))))))"

definition streamHeadDigest :: "sha_fn \<Rightarrow> SignedStreamHead \<Rightarrow> string res" where
  "streamHeadDigest S h = bind_res (head_fields h) (framed_digest S)"

definition assertStreamHeadBinds :: "sha_fn \<Rightarrow> OutboxRecordHeader \<Rightarrow> SignedStreamHead \<Rightarrow> unit res" where
  "assertStreamHeadBinds S record head =
     bind_res (require (sh_streamId head = oh_streamId record) ''stream head streamId != record'') (\<lambda>_.
     bind_res (require (sh_sequence head = oh_sequence record) ''stream head sequence != record'') (\<lambda>_.
     bind_res (require (sh_opDigest head = oh_opDigest record) ''stream head opDigest != record'') (\<lambda>_.
     bind_res (require (sh_alg head \<in> set STREAM_HEAD_ALGS) ''unknown stream head alg'') (\<lambda>_.
     bind_res (require (KEY_ID_PATTERN (sh_keyId head)) ''invalid keyId'') (\<lambda>_.
     bind_res (streamHeadDigest S head) (\<lambda>d. require (sh_headDigest head = d) ''stream head digest mismatch''))))))"


section \<open>Digests bind their fields\<close>

datatype digest_input =
    Op_input op_input
  | Epoch_input EpochTransitionRecord
  | Head_input SignedStreamHead

fun digest_fields :: "digest_input \<Rightarrow> string list res" where
  "digest_fields (Op_input i) = op_fields i"
| "digest_fields (Epoch_input r) = epoch_fields r"
| "digest_fields (Head_input h) = head_fields h"

fun digest_of :: "sha_fn \<Rightarrow> digest_input \<Rightarrow> string res" where
  "digest_of S (Op_input i) = canonicalOpDigest S i"
| "digest_of S (Epoch_input r) = epochTransitionDigest S r"
| "digest_of S (Head_input h) = streamHeadDigest S h"

definition preimage :: "digest_input \<Rightarrow> byte list res" where
  "preimage x = bind_res (digest_fields x) frame"

text \<open>Inputs of the same kind that agree in every field the digest is meant to bind; mutations by their
  data.\<close>

fun same_input :: "digest_input \<Rightarrow> digest_input \<Rightarrow> bool" where
  "same_input (Op_input a) (Op_input b) \<longleftrightarrow>
     oi_streamId a = oi_streamId b \<and> oi_sourceEpoch a = oi_sourceEpoch b \<and> oi_sequence a = oi_sequence b \<and>
     oi_fenceToken a = oi_fenceToken b \<and> content (plain_data (oi_mutation a)) = content (plain_data (oi_mutation b))"
| "same_input (Epoch_input a) (Epoch_input b) \<longleftrightarrow>
     et_streamId a = et_streamId b \<and> et_fromEpoch a = et_fromEpoch b \<and> et_fromEpochIndex a = et_fromEpochIndex b \<and>
     et_toEpoch a = et_toEpoch b \<and> et_toEpochIndex a = et_toEpochIndex b \<and>
     et_snapshotSequence a = et_snapshotSequence b \<and> et_snapshotDigest a = et_snapshotDigest b \<and> et_fenceToken a = et_fenceToken b"
| "same_input (Head_input a) (Head_input b) \<longleftrightarrow>
     sh_streamId a = sh_streamId b \<and> sh_sequence a = sh_sequence b \<and> sh_prevHeadDigest a = sh_prevHeadDigest b \<and>
     sh_opDigest a = sh_opDigest b \<and> sh_keyId a = sh_keyId b \<and> sh_alg a = sh_alg b"
| "same_input _ _ \<longleftrightarrow> False"

lemma digest_of_Inr: "digest_of S x = Inr d \<longleftrightarrow> (\<exists>fs bs. digest_fields x = Inr fs \<and> frame fs = Inr bs \<and> d = digest_hex (S bs))"
  by (cases x) (auto simp: canonicalOpDigest_def epochTransitionDigest_def streamHeadDigest_def bind_res_Inr_iff framed_digest_Inr)

lemma digest_fields_same:
  assumes "digest_fields x = Inr fs" and "digest_fields y = Inr gs"
  shows "fs = gs \<longleftrightarrow> same_input x y"
proof -
  have dom: "HA_OUTBOX_DIGEST_DOMAIN \<noteq> HA_OUTBOX_DIGEST_DOMAIN @ t" if "t \<noteq> []" for t using that by simp
  show ?thesis
  proof (cases x; cases y)
    fix a b
    assume x: "x = Op_input a" "y = Op_input b"
    then obtain s t where "canonicalize (oi_mutation a) = Inr s" "canonicalize (oi_mutation b) = Inr t"
      "fs = [HA_OUTBOX_DIGEST_DOMAIN, HA_OUTBOX_CONTRACT_VERSION, oi_streamId a, oi_sourceEpoch a, show_int (oi_sequence a), oi_fenceToken a, s]"
      "gs = [HA_OUTBOX_DIGEST_DOMAIN, HA_OUTBOX_CONTRACT_VERSION, oi_streamId b, oi_sourceEpoch b, show_int (oi_sequence b), oi_fenceToken b, t]"
      using assms by (auto simp: op_fields_def bind_res_Inr_iff)
    then show ?thesis using canonicalize_content by (simp add: x)
  qed (use assms dom in \<open>auto simp: op_fields_def epoch_fields_def head_fields_def bind_res_Inr_iff\<close>)
qed

text \<open>C34: A digest binds everything that goes into it. Let the hash not collide on the two framed inputs. Then
  two digests, of operations, epoch transitions or stream heads, are equal exactly when they are of the same
  kind and agree in stream, epoch, sequence, fence token and mutation data (in the fields of a transition, in
  the fields of a head), whatever characters the fields contain.\<close>

theorem digests_bind_fields:
  assumes d: "digest_of S x = Inr d" and e: "digest_of S y = Inr e"
    and collision_free: "\<And>bs cs. preimage x = Inr bs \<Longrightarrow> preimage y = Inr cs \<Longrightarrow> S bs = S cs \<Longrightarrow> bs = cs"
  shows "d = e \<longleftrightarrow> same_input x y"
proof -
  obtain fs bs gs cs where f: "digest_fields x = Inr fs" "frame fs = Inr bs" "d = digest_hex (S bs)"
    "digest_fields y = Inr gs" "frame gs = Inr cs" "e = digest_hex (S cs)"
    using d e by (auto simp: digest_of_Inr)
  have "S bs = S cs \<longleftrightarrow> bs = cs" using collision_free f by (auto simp: preimage_def)
  moreover have "bs = cs \<longleftrightarrow> fs = gs" using frame_inject f(2,5) by auto
  ultimately show ?thesis using digest_fields_same [OF f(1,4)] f(3,6) by simp
qed

definition example_op_input :: "string \<Rightarrow> op_input" where
  "example_op_input stream = \<lparr>oi_streamId = stream, oi_sourceEpoch = ''e'', oi_sequence = 1, oi_fenceToken = ''0'',
     oi_mutation = VObject [(''counter'', Some (VNumber (NInt 1)), True)] False True\<rparr>"

definition length_sha :: sha_fn where
  "length_sha bs = of_nat (length bs)"

theorem digests_bind_fields_witness:
  "\<exists>d e. canonicalOpDigest length_sha (example_op_input ''a'') = Inr d \<and> canonicalOpDigest length_sha (example_op_input ''ab'') = Inr e \<and> d \<noteq> e"
proof -
  have "case preimage (Op_input (example_op_input ''a'')) of Inr bs \<Rightarrow> length bs = 70 | Inl _ \<Rightarrow> False"
    "case preimage (Op_input (example_op_input ''ab'')) of Inr bs \<Rightarrow> length bs = 71 | Inl _ \<Rightarrow> False" by code_simp+
  then obtain bs cs where b: "preimage (Op_input (example_op_input ''a'')) = Inr bs" "length bs = 70"
    "preimage (Op_input (example_op_input ''ab'')) = Inr cs" "length cs = 71"
    by (auto split: sum.splits)
  then obtain d e where d: "digest_of length_sha (Op_input (example_op_input ''a'')) = Inr d" "digest_of length_sha (Op_input (example_op_input ''ab'')) = Inr e"
    by (auto simp: preimage_def bind_res_Inr_iff canonicalOpDigest_def framed_digest_def)
  have free: "S bs' = S cs' \<Longrightarrow> bs' = cs'" if "preimage (Op_input (example_op_input ''a'')) = Inr bs'"
    "preimage (Op_input (example_op_input ''ab'')) = Inr cs'" "S = length_sha" for S bs' cs'
    using that b by (simp add: length_sha_def)
  have "d \<noteq> e" using digests_bind_fields [OF d free] by (simp add: example_op_input_def)
  with d show ?thesis by simp
qed

end
