(* ===== verification/Source_Lease.thy ===== *)
theory Source_Lease
  imports Outbox_Contract
begin

text \<open>
  The lease of the source of a stream, the first part of \<^verbatim>\<open>packages/server/src/tsk-source-fence.ts\<close>:
  guard-signed grants and revocations, their installation as an append-only signed chain, and the gate that
  every append passes in its own transaction. The tables \<^verbatim>\<open>tsk_source_lease\<close> and
  \<^verbatim>\<open>tsk_source_lease_history\<close> are the state. Ed25519 and the key resolver are parameters; a transaction is
  atomic and rolled back by a throw, as SERIALIZABLE transactions are. The results are that an epoch has one
  writer, and that a revoked epoch is never writable again.
\<close>

section \<open>Bounds and grammar\<close>

definition MAX_EPOCH :: int where "MAX_EPOCH = 2 ^ 40"
definition MAX_SEQ :: int where "MAX_SEQ = 2 ^ 40"
definition MAX_MS :: int where "MAX_MS = 8640000000000000"
definition MAX_SKEW_MS :: int where "MAX_SKEW_MS = 3600 * 1000"

definition over_class :: "(char \<Rightarrow> bool) \<Rightarrow> int \<Rightarrow> string \<Rightarrow> bool" where
  "over_class P n s \<longleftrightarrow> s \<noteq> [] \<and> int (length s) \<le> n \<and> list_all P s"

definition STREAM_ID_RE :: "string \<Rightarrow> bool" where
  "STREAM_ID_RE = over_class (\<lambda>c. id_start c \<or> c \<in> set '':._/-'') 512"
definition ID_RE :: "string \<Rightarrow> bool" where
  "ID_RE = over_class (\<lambda>c. id_start c \<or> c \<in> set '':._-'') 128"
definition KEY_ID_RE :: "string \<Rightarrow> bool" where
  "KEY_ID_RE = over_class (\<lambda>c. id_start c \<or> c \<in> set ''._-'') 64"
definition B64U_CANON :: "string \<Rightarrow> bool" where
  "B64U_CANON s \<longleftrightarrow> s \<noteq> [] \<and> list_all (\<lambda>c. id_start c \<or> c \<in> set ''_-'') s"

text \<open>\<^verbatim>\<open>DIGEST_RE\<close> is the pattern \<open>HEX64\<close> of the contract.\<close>

definition vInt :: "int \<Rightarrow> string \<Rightarrow> int \<Rightarrow> int \<Rightarrow> unit res" where
  "vInt n label lo hi = require (Number_isSafeInteger (NInt n) \<and> lo \<le> n \<and> n \<le> hi) (label @ '' must be a safe integer in range'')"

definition vId :: "string \<Rightarrow> (string \<Rightarrow> bool) \<Rightarrow> string \<Rightarrow> unit res" where
  "vId v re label = require (re v) (''invalid '' @ label)"

definition vNullableDigest :: "string option \<Rightarrow> string \<Rightarrow> unit res" where
  "vNullableDigest v label = (case v of None \<Rightarrow> Inr () | Some d \<Rightarrow> require (HEX64 d) (''invalid '' @ label))"

text \<open>A list of checks in order.\<close>

definition checks :: "unit res list \<Rightarrow> unit res" where
  "checks = check_all id"

lemma checks_Inr [simp]: "checks cs = Inr u \<longleftrightarrow> (\<forall>c \<in> set cs. c = Inr ())"
  by (simp add: checks_def check_all_Inr_iff)

lemma require_Inr [simp]: "require b m = Inr u \<longleftrightarrow> b"
  by (simp add: require_def)

section \<open>Signatures\<close>

text \<open>A verification key is usable only as a public Ed25519 key. The platform's Ed25519 is a pair of functions;
  verification takes the encoded signature.\<close>

datatype 'm verify_key = Ed25519_public 'm | Other_verify_key
datatype 'p signing_key = Ed25519_private 'p | Other_signing_key

type_synonym 'm resolver = "string \<Rightarrow> 'm verify_key option"

record ('m, 'p) ed25519 =
  edVerify :: "byte list \<Rightarrow> 'm \<Rightarrow> string \<Rightarrow> bool"
  edSign :: "byte list \<Rightarrow> 'p \<Rightarrow> string"

datatype frame_part = FNull | FText string | FInt int

text \<open>Tagged framing. No string of the platform reaches the length at which the prefix would not fit.\<close>

fun framed_part :: "frame_part \<Rightarrow> byte list" where
  "framed_part FNull = [0]"
| "framed_part (FText s) = 1 # be32 (utf8Len s) @ utf8 s"
| "framed_part (FInt n) = 1 # be32 (utf8Len (show_int n)) @ utf8 (show_int n)"

definition tagged_frame :: "frame_part list \<Rightarrow> byte list" where
  "tagged_frame parts = concat (map framed_part parts)"

definition sha256hex :: "sha_fn \<Rightarrow> byte list \<Rightarrow> string" where
  "sha256hex S b = digest_hex (S b)"

definition withKey :: "string \<Rightarrow> byte list \<Rightarrow> byte list" where
  "withKey keyId msg = tagged_frame [FText ''tsk_src_key'', FText keyId] @ msg"

definition edSignB64u :: "('m, 'p) ed25519 \<Rightarrow> string \<Rightarrow> 'p signing_key \<Rightarrow> byte list \<Rightarrow> string res" where
  "edSignB64u E keyId key msg =
     (if \<not> KEY_ID_RE keyId then Inl ''invalid keyId''
      else case key of
        Ed25519_private p \<Rightarrow> Inr (edSign E (withKey keyId msg) p)
      | Other_signing_key \<Rightarrow> Inl ''signing key must be an ed25519 private key'')"

definition verifySig :: "('m, 'p) ed25519 \<Rightarrow> 'm resolver \<Rightarrow> string \<Rightarrow> byte list \<Rightarrow> string \<Rightarrow> unit res" where
  "verifySig E resolver keyId msg signature =
     (if \<not> KEY_ID_RE keyId then Inl ''invalid keyId''
      else if \<not> B64U_CANON signature then Inl ''invalid signature encoding''
      else case resolver keyId of
        None \<Rightarrow> Inl ''unknown or revoked keyId''
      | Some Other_verify_key \<Rightarrow> Inl ''verify key must be a public ed25519 KeyObject (no PEM/DER/private material)''
      | Some (Ed25519_public k) \<Rightarrow> require (edVerify E (withKey keyId msg) k signature) ''invalid signature'')"

section \<open>Grants\<close>

text \<open>A grant or revocation; a row of either table has the same columns.\<close>

record LeaseGrant =
  lg_streamId :: string
  lg_leaseEpoch :: int
  lg_leaseStatus :: string
  lg_holderNodeId :: string
  lg_leaseId :: string
  lg_commandId :: string
  lg_leaseExpiresAtMs :: int
  lg_leaseGrantSeq :: int
  lg_prevGrantDigest :: "string option"
  lg_grantDigest :: string
  lg_guardKeyId :: string
  lg_guardSignature :: string

definition nullable :: "string option \<Rightarrow> frame_part" where
  "nullable v = (case v of None \<Rightarrow> FNull | Some d \<Rightarrow> FText d)"

definition leaseGrantMsg :: "LeaseGrant \<Rightarrow> string \<Rightarrow> byte list" where
  "leaseGrantMsg g digest = tagged_frame
     [FText ''tsk_source_lease/v1'', FText (lg_streamId g), FInt (lg_leaseEpoch g), FText (lg_leaseStatus g),
      FText (lg_holderNodeId g), FText (lg_leaseId g), FText (lg_commandId g), FInt (lg_leaseExpiresAtMs g),
      FInt (lg_leaseGrantSeq g), nullable (lg_prevGrantDigest g), FText digest]"

definition grant_checks :: "LeaseGrant \<Rightarrow> unit res" where
  "grant_checks g = checks
     [vId (lg_streamId g) STREAM_ID_RE ''streamId'', vId (lg_holderNodeId g) ID_RE ''holderNodeId'',
      vId (lg_leaseId g) ID_RE ''leaseId'', vId (lg_commandId g) ID_RE ''commandId'',
      vInt (lg_leaseEpoch g) ''leaseEpoch'' 0 MAX_EPOCH, vInt (lg_leaseGrantSeq g) ''leaseGrantSeq'' 1 MAX_SEQ,
      vInt (lg_leaseExpiresAtMs g) ''leaseExpiresAtMs'' 0 MAX_MS,
      require (lg_leaseStatus g = ''active'' \<or> lg_leaseStatus g = ''revoked'') ''invalid leaseStatus'',
      vNullableDigest (lg_prevGrantDigest g) ''prevGrantDigest'']"

definition signLeaseGrant :: "sha_fn \<Rightarrow> ('m, 'p) ed25519 \<Rightarrow> string \<Rightarrow> 'p signing_key \<Rightarrow> LeaseGrant \<Rightarrow> LeaseGrant res" where
  "signLeaseGrant S E guardKeyId key bare =
     bind_res (require (KEY_ID_RE guardKeyId) ''invalid guard keyId'') (\<lambda>_.
     bind_res (grant_checks bare) (\<lambda>_.
       let digest = sha256hex S (leaseGrantMsg bare []) in
       bind_res (edSignB64u E guardKeyId key (leaseGrantMsg bare digest)) (\<lambda>signature.
         Inr (bare\<lparr>lg_grantDigest := digest, lg_guardKeyId := guardKeyId, lg_guardSignature := signature\<rparr>))))"

definition verifyLeaseGrant :: "sha_fn \<Rightarrow> ('m, 'p) ed25519 \<Rightarrow> 'm resolver \<Rightarrow> LeaseGrant \<Rightarrow> unit res" where
  "verifyLeaseGrant S E resolver g =
     bind_res (grant_checks g) (\<lambda>_.
     bind_res (require (sha256hex S (leaseGrantMsg g []) = lg_grantDigest g) ''lease grant digest mismatch'') (\<lambda>_.
       verifySig E resolver (lg_guardKeyId g) (leaseGrantMsg g (lg_grantDigest g)) (lg_guardSignature g)))"

record LeaseState =
  ls_streamId :: string
  ls_leaseEpoch :: int
  ls_leaseStatus :: string
  ls_holderNodeId :: string
  ls_leaseId :: string
  ls_commandId :: string
  ls_leaseExpiresAtMs :: int
  ls_leaseGrantSeq :: int
  ls_grantDigest :: string

definition lease_state :: "LeaseGrant \<Rightarrow> LeaseState" where
  "lease_state g = \<lparr>ls_streamId = lg_streamId g, ls_leaseEpoch = lg_leaseEpoch g, ls_leaseStatus = lg_leaseStatus g,
     ls_holderNodeId = lg_holderNodeId g, ls_leaseId = lg_leaseId g, ls_commandId = lg_commandId g,
     ls_leaseExpiresAtMs = lg_leaseExpiresAtMs g, ls_leaseGrantSeq = lg_leaseGrantSeq g, ls_grantDigest = lg_grantDigest g\<rparr>"

section \<open>The tables\<close>

record lease_db =
  ld_lease :: "(string \<times> LeaseGrant) list"
  ld_history :: "LeaseGrant list"

definition lease_check :: "LeaseGrant \<Rightarrow> bool" where
  "lease_check r \<longleftrightarrow> 0 \<le> lg_leaseEpoch r \<and> lg_leaseStatus r \<in> {''active'', ''revoked''} \<and> 0 \<le> lg_leaseExpiresAtMs r \<and>
     1 \<le> lg_leaseGrantSeq r \<and> (case lg_prevGrantDigest r of None \<Rightarrow> True | Some d \<Rightarrow> HEX64 d) \<and> HEX64 (lg_grantDigest r)"

definition history_of :: "string \<Rightarrow> lease_db \<Rightarrow> LeaseGrant list" where
  "history_of s db = filter (\<lambda>r. lg_streamId r = s) (ld_history db)"

definition insert_history :: "LeaseGrant \<Rightarrow> lease_db \<Rightarrow> lease_db res" where
  "insert_history g db =
     (if \<not> lease_check g then Inl ''check constraint''
      else if list_ex (\<lambda>r. lg_leaseGrantSeq r = lg_leaseGrantSeq g \<or> lg_grantDigest r = lg_grantDigest g \<or> lg_commandId r = lg_commandId g)
                (history_of (lg_streamId g) db) then Inl ''unique constraint''
      else Inr (db\<lparr>ld_history := ld_history db @ [g]\<rparr>))"

definition insert_lease :: "LeaseGrant \<Rightarrow> lease_db \<Rightarrow> lease_db res" where
  "insert_lease g db =
     (if \<not> lease_check g then Inl ''check constraint''
      else if omap_has (lg_streamId g) (ld_lease db) then Inl ''unique constraint''
      else Inr (db\<lparr>ld_lease := omap_set (lg_streamId g) g (ld_lease db)\<rparr>))"

definition update_lease :: "LeaseGrant \<Rightarrow> string \<Rightarrow> lease_db \<Rightarrow> lease_db res" where
  "update_lease g expectedPrev db =
     (case map_of (ld_lease db) (lg_streamId g) of
        Some r \<Rightarrow> if lg_grantDigest r \<noteq> expectedPrev then Inl ''source lease forward-CAS: expected exactly 1 affected row''
                  else if \<not> lease_check g then Inl ''check constraint''
                  else Inr (db\<lparr>ld_lease := omap_set (lg_streamId g) g (ld_lease db)\<rparr>)
      | None \<Rightarrow> Inl ''source lease forward-CAS: expected exactly 1 affected row'')"

definition rowToLease :: "LeaseGrant \<Rightarrow> LeaseState res" where
  "rowToLease r = bind_res (checks
     [vInt (lg_leaseEpoch r) ''lease_epoch'' 0 MAX_EPOCH, vInt (lg_leaseExpiresAtMs r) ''lease_expires_at_ms'' 0 MAX_MS,
      vInt (lg_leaseGrantSeq r) ''lease_grant_seq'' 1 MAX_SEQ, vNullableDigest (lg_prevGrantDigest r) ''prev_grant_digest'',
      require (HEX64 (lg_grantDigest r)) ''invalid grant_digest'']) (\<lambda>_. Inr (lease_state r))"

definition verified_row :: "sha_fn \<Rightarrow> ('m, 'p) ed25519 \<Rightarrow> 'm resolver \<Rightarrow> string \<Rightarrow> LeaseGrant \<Rightarrow> LeaseState res" where
  "verified_row S E resolver msg r =
     bind_res (rowToLease r) (\<lambda>st.
     bind_res (require (sha256hex S (leaseGrantMsg r []) = lg_grantDigest r) msg) (\<lambda>_.
     bind_res (verifySig E resolver (lg_guardKeyId r) (leaseGrantMsg r (lg_grantDigest r)) (lg_guardSignature r)) (\<lambda>_. Inr st)))"

definition verifiedLeaseHead :: "sha_fn \<Rightarrow> ('m, 'p) ed25519 \<Rightarrow> 'm resolver \<Rightarrow> LeaseGrant \<Rightarrow> LeaseState res" where
  "verifiedLeaseHead S E resolver r = verified_row S E resolver ''lease head digest mismatch'' r"

text \<open>The loop over the history: position, digest of the row before, last state.\<close>

fun history_loop :: "sha_fn \<Rightarrow> ('m, 'p) ed25519 \<Rightarrow> 'm resolver \<Rightarrow> LeaseGrant list \<Rightarrow> int \<Rightarrow> string option \<Rightarrow> LeaseState option \<Rightarrow> LeaseState option res" where
  "history_loop S E resolver [] i prev latest = Inr latest"
| "history_loop S E resolver (r # rs) i prev latest =
     bind_res (verified_row S E resolver ''lease history digest mismatch'' r) (\<lambda>st.
     bind_res (require (ls_leaseGrantSeq st = i + 1) ''lease history seq is not contiguous from genesis -- quarantine'') (\<lambda>_.
     bind_res (require (lg_prevGrantDigest r = prev) ''lease history prev_grant_digest chain broken -- fork/relabel; quarantine'') (\<lambda>_.
       history_loop S E resolver rs (i + 1) (Some (lg_grantDigest r)) (Some st))))"

definition verifyLeaseHistoryChain ::
  "sha_fn \<Rightarrow> ('m, 'p) ed25519 \<Rightarrow> 'm resolver \<Rightarrow> string \<Rightarrow> LeaseState option \<Rightarrow> lease_db \<Rightarrow> unit res" where
  "verifyLeaseHistoryChain S E resolver s head db =
     (let rows = sort_key lg_leaseGrantSeq (history_of s db) in
      if rows = [] then require (head = None) ''lease head present with no history -- fork/relabel; quarantine''
      else bind_res (history_loop S E resolver rows 0 None None) (\<lambda>latest.
        case (head, latest) of
          (Some h, Some l) \<Rightarrow> require (ls_leaseGrantSeq h = ls_leaseGrantSeq l \<and> ls_grantDigest h = ls_grantDigest l)
            ''lease head is not the exact latest history row (fork/relabel/rollback) -- quarantine''
        | _ \<Rightarrow> Inl ''lease head is not the exact latest history row (fork/relabel/rollback) -- quarantine''))"

definition readSourceLease ::
  "sha_fn \<Rightarrow> ('m, 'p) ed25519 \<Rightarrow> 'm resolver \<Rightarrow> string \<Rightarrow> lease_db \<Rightarrow> LeaseState option res" where
  "readSourceLease S E resolver s db =
     bind_res (vId s STREAM_ID_RE ''streamId'') (\<lambda>_.
     bind_res (case map_of (ld_lease db) s of None \<Rightarrow> Inr None | Some r \<Rightarrow> bind_res (verifiedLeaseHead S E resolver r) (\<lambda>st. Inr (Some st))) (\<lambda>head.
     bind_res (verifyLeaseHistoryChain S E resolver s head db) (\<lambda>_. Inr head)))"

definition readSourceLeaseAtSeq ::
  "sha_fn \<Rightarrow> ('m, 'p) ed25519 \<Rightarrow> 'm resolver \<Rightarrow> string \<Rightarrow> int \<Rightarrow> lease_db \<Rightarrow> LeaseState option res" where
  "readSourceLeaseAtSeq S E resolver s n db =
     (case find (\<lambda>r. lg_leaseGrantSeq r = n) (history_of s db) of
        None \<Rightarrow> Inr None
      | Some r \<Rightarrow> bind_res (verified_row S E resolver ''lease history digest mismatch'' r) (\<lambda>st. Inr (Some st)))"

section \<open>Installing a grant\<close>

text \<open>The checks of a grant that is not installed yet against the current lease and the history.\<close>

definition grant_admission :: "LeaseState option \<Rightarrow> LeaseGrant \<Rightarrow> lease_db \<Rightarrow> unit res" where
  "grant_admission cur g db =
     (let hist = sort_key lg_leaseGrantSeq (history_of (lg_streamId g) db);
          at_epoch = filter (\<lambda>r. lg_leaseEpoch r = lg_leaseEpoch g) hist in
      checks
       [require (case cur of None \<Rightarrow> True | Some c \<Rightarrow> ls_leaseEpoch c \<le> lg_leaseEpoch g) ''lease epoch regresses the current -- quarantine'',
        require (case at_epoch of [] \<Rightarrow> True | r # _ \<Rightarrow> lg_holderNodeId r = lg_holderNodeId g \<and> lg_leaseId r = lg_leaseId g)
          ''lease holder/leaseId is immutable within an epoch -- advance the epoch to change the writer'',
        require (lg_leaseStatus g \<noteq> ''active'' \<or> \<not> list_ex (\<lambda>r. lg_leaseStatus r = ''revoked'') at_epoch)
          ''epoch is terminally revoked -- no same-epoch reactivation; advance the epoch'',
        require (lg_leaseGrantSeq g = (case cur of None \<Rightarrow> 0 | Some c \<Rightarrow> ls_leaseGrantSeq c) + 1) ''lease_grant_seq is not strictly-increasing'',
        require (lg_prevGrantDigest g = map_option ls_grantDigest cur) ''lease prev_grant_digest does not chain the current head''])"

text \<open>The rest of the installation once the grant is not the current head: a command seen before, or the two
  writes.\<close>

definition install_new ::
  "sha_fn \<Rightarrow> ('m, 'p) ed25519 \<Rightarrow> 'm resolver \<Rightarrow> LeaseState option \<Rightarrow> LeaseGrant \<Rightarrow> lease_db \<Rightarrow> (LeaseState option \<times> lease_db) res" where
  "install_new S E resolver cur g db =
     (case find (\<lambda>r. lg_commandId r = lg_commandId g) (history_of (lg_streamId g) db) of
        Some byCmd \<Rightarrow>
          if lg_grantDigest byCmd \<noteq> lg_grantDigest g then Inl ''lease command_id reused with a different grant tuple -- quarantine''
          else bind_res (vInt (lg_leaseGrantSeq byCmd) ''lease_grant_seq'' 1 MAX_SEQ) (\<lambda>_.
               bind_res (readSourceLeaseAtSeq S E resolver (lg_streamId g) (lg_leaseGrantSeq byCmd) db) (\<lambda>st. Inr (st, db)))
      | None \<Rightarrow>
          bind_res (grant_admission cur g db) (\<lambda>_.
          bind_res (insert_history g db) (\<lambda>db1.
          bind_res (case cur of None \<Rightarrow> insert_lease g db1 | Some c \<Rightarrow> update_lease g (ls_grantDigest c) db1) (\<lambda>db2.
            Inr (Some (lease_state g), db2)))))"

definition installLeaseGrant ::
  "sha_fn \<Rightarrow> ('m, 'p) ed25519 \<Rightarrow> 'm resolver \<Rightarrow> LeaseGrant \<Rightarrow> lease_db \<Rightarrow> (LeaseState option \<times> lease_db) res" where
  "installLeaseGrant S E resolver g db =
     bind_res (verifyLeaseGrant S E resolver g) (\<lambda>_.
     bind_res (readSourceLease S E resolver (lg_streamId g) db) (\<lambda>cur.
       case cur of
         Some c \<Rightarrow> if ls_leaseGrantSeq c = lg_leaseGrantSeq g \<and> ls_grantDigest c = lg_grantDigest g then Inr (cur, db)
                    else install_new S E resolver cur g db
       | None \<Rightarrow> install_new S E resolver cur g db))"

section \<open>The gate\<close>

record lease_bound =
  lb_holderNodeId :: string
  lb_leaseId :: string
  lb_grantDigest :: string

definition assertSourceLeaseWritable ::
  "sha_fn \<Rightarrow> ('m, 'p) ed25519 \<Rightarrow> 'm resolver \<Rightarrow> string \<Rightarrow> int \<Rightarrow> int \<Rightarrow> lease_bound \<Rightarrow> int \<Rightarrow> lease_db \<Rightarrow> LeaseState res" where
  "assertSourceLeaseWritable S E resolver s epoch skew bound nowMs db =
     bind_res (checks
       [vId s STREAM_ID_RE ''streamId'', vInt epoch ''expectedEpoch'' 0 MAX_EPOCH, vInt skew ''controlToASkewBoundMs'' 0 MAX_SKEW_MS,
        vId (lb_holderNodeId bound) ID_RE ''bound.holderNodeId'', vId (lb_leaseId bound) ID_RE ''bound.leaseId'',
        require (HEX64 (lb_grantDigest bound)) ''invalid bound.grantDigest'']) (\<lambda>_.
       case map_of (ld_lease db) s of
         None \<Rightarrow> Inl ''no source lease -- writer is not leased; fail closed''
       | Some r \<Rightarrow>
           bind_res (verifiedLeaseHead S E resolver r) (\<lambda>st.
           bind_res (checks
             [require (ls_leaseStatus st = ''active'') ''source lease is fenced; fail closed'',
              require (ls_leaseEpoch st = epoch) ''source lease epoch != expected -- stale writer; fail closed'',
              vInt nowMs ''A clock now'' 0 MAX_MS,
              require (nowMs < ls_leaseExpiresAtMs st - skew) ''source lease deadline elapsed on A clock (+skew) -- fail closed'',
              require (ls_holderNodeId st = lb_holderNodeId bound) ''source lease holder != authorized -- fail closed'',
              require (ls_leaseId st = lb_leaseId bound) ''source lease id != authorized -- fail closed'',
              require (ls_grantDigest st = lb_grantDigest bound) ''source lease grant digest != authorized grant -- fail closed'']) (\<lambda>_.
             Inr st)))"

section \<open>The chain of grants\<close>

text \<open>What an earlier grant of a stream imposes on a later one.\<close>

definition lease_order :: "LeaseGrant \<Rightarrow> LeaseGrant \<Rightarrow> bool" where
  "lease_order a b \<longleftrightarrow> lg_leaseEpoch a \<le> lg_leaseEpoch b \<and>
     (lg_leaseEpoch a = lg_leaseEpoch b \<longrightarrow>
        lg_holderNodeId a = lg_holderNodeId b \<and> lg_leaseId a = lg_leaseId b \<and>
        (lg_leaseStatus a = ''revoked'' \<longrightarrow> lg_leaseStatus b = ''revoked''))"

definition lease_inv :: "lease_db \<Rightarrow> bool" where
  "lease_inv db \<longleftrightarrow> (\<forall>s.
     map lg_leaseGrantSeq (history_of s db) = map (\<lambda>i. int i + 1) [0..<length (history_of s db)] \<and>
     map_of (ld_lease db) s = (if history_of s db = [] then None else Some (last (history_of s db))) \<and>
     sorted_wrt lease_order (history_of s db) \<and>
     (\<forall>r \<in> set (history_of s db). lg_leaseStatus r = ''active'' \<or> lg_leaseStatus r = ''revoked''))"

definition empty_lease_db :: lease_db where
  "empty_lease_db = \<lparr>ld_lease = [], ld_history = []\<rparr>"

lemma lease_inv_empty: "lease_inv empty_lease_db"
  by (simp add: lease_inv_def empty_lease_db_def history_of_def)

lemma verified_row_Inr: "verified_row S E resolver m r = Inr st \<Longrightarrow> st = lease_state r"
  by (auto simp: verified_row_def rowToLease_def bind_res_Inr_iff)

lemma readSourceLease_Inr:
  "readSourceLease S E resolver s db = Inr cur \<Longrightarrow> cur = map_option lease_state (map_of (ld_lease db) s)"
  by (auto simp: readSourceLease_def verifiedLeaseHead_def bind_res_Inr_iff dest: verified_row_Inr split: option.splits)

lemma verifyLeaseGrant_status:
  "verifyLeaseGrant S E resolver g = Inr () \<Longrightarrow> lg_leaseStatus g = ''active'' \<or> lg_leaseStatus g = ''revoked''"
  by (auto simp: verifyLeaseGrant_def grant_checks_def bind_res_Inr_iff)

lemma sorted_history: "lease_inv db \<Longrightarrow> sort_key lg_leaseGrantSeq (history_of s db) = history_of s db"
proof (rule sort_key_id_if_sorted)
  assume inv: "lease_inv db"
  have "sorted (map (\<lambda>i. int i + 1) [0..<length (history_of s db)])" by (simp add: sorted_iff_nth_mono)
  then show "sorted (map lg_leaseGrantSeq (history_of s db))" using inv by (auto simp: lease_inv_def)
qed

text \<open>A successful installation changes nothing, or appends an admitted grant and makes it the head.\<close>

lemma install_cases:
  assumes "installLeaseGrant S E resolver g db = Inr (st, db')"
  obtains (unchanged) "db' = db"
  | (appended) "lg_leaseStatus g = ''active'' \<or> lg_leaseStatus g = ''revoked''"
      "grant_admission (map_option lease_state (map_of (ld_lease db) (lg_streamId g))) g db = Inr ()"
      "ld_history db' = ld_history db @ [g]" "ld_lease db' = omap_set (lg_streamId g) g (ld_lease db)"
proof -
  obtain cur where v: "verifyLeaseGrant S E resolver g = Inr ()" and cur: "readSourceLease S E resolver (lg_streamId g) db = Inr cur"
    and rest: "db' = db \<or> install_new S E resolver cur g db = Inr (st, db')"
    using assms by (auto simp: installLeaseGrant_def bind_res_Inr_iff split: option.splits if_splits)
  note c = readSourceLease_Inr [OF cur]
  show thesis
  proof (cases "db' = db")
    case False
    with rest have new: "install_new S E resolver cur g db = Inr (st, db')" by simp
    then obtain db1 where adm: "grant_admission cur g db = Inr ()" and h: "insert_history g db = Inr db1"
      and l: "(case cur of None \<Rightarrow> insert_lease g db1 | Some c \<Rightarrow> update_lease g (ls_grantDigest c) db1) = Inr db'"
      using False by (auto simp: install_new_def bind_res_Inr_iff split: option.splits if_splits)
    have "ld_history db1 = ld_history db @ [g]" "ld_lease db1 = ld_lease db"
      using h by (auto simp: insert_history_def split: if_splits)
    then show thesis
      using appended verifyLeaseGrant_status [OF v] adm l c
      by (auto simp: insert_lease_def update_lease_def split: option.splits if_splits)
  qed (rule unchanged)
qed

lemma sorted_wrt_last: "sorted_wrt R xs \<Longrightarrow> a \<in> set xs \<Longrightarrow> a = last xs \<or> R a (last xs)"
  by (induction xs) (auto split: if_splits)

text \<open>An admitted grant is in order after everything installed before it.\<close>

lemma admission_order:
  assumes inv: "lease_inv db" and adm: "grant_admission (map_option lease_state (map_of (ld_lease db) (lg_streamId g))) g db = Inr ()"
    and st: "lg_leaseStatus g = ''active'' \<or> lg_leaseStatus g = ''revoked''" and a: "a \<in> set (history_of (lg_streamId g) db)"
  shows "lease_order a g"
proof -
  let ?h = "history_of (lg_streamId g) db" and ?at = "filter (\<lambda>r. lg_leaseEpoch r = lg_leaseEpoch g) (history_of (lg_streamId g) db)"
  have sw: "sorted_wrt lease_order ?h" and hd: "map_of (ld_lease db) (lg_streamId g) = Some (last ?h)"
    using inv a by (auto simp: lease_inv_def)
  have adm': "lg_leaseEpoch (last ?h) \<le> lg_leaseEpoch g"
    "case ?at of [] \<Rightarrow> True | r # _ \<Rightarrow> lg_holderNodeId r = lg_holderNodeId g \<and> lg_leaseId r = lg_leaseId g"
    "lg_leaseStatus g = ''active'' \<Longrightarrow> \<not> list_ex (\<lambda>r. lg_leaseStatus r = ''revoked'') ?at"
    using adm hd by (auto simp: grant_admission_def Let_def sorted_history [OF inv] lease_state_def)
  have le: "lg_leaseEpoch a \<le> lg_leaseEpoch g"
    using sorted_wrt_last [OF sw a] adm'(1) by (auto simp: lease_order_def)
  show ?thesis
  proof (cases "lg_leaseEpoch a = lg_leaseEpoch g")
    case True
    then have at: "a \<in> set ?at" using a by simp
    then obtain r rs where r: "?at = r # rs" by (cases ?at) auto
    have "sorted_wrt lease_order ?at" using sw by (rule sorted_wrt_filter)
    then have "a = r \<or> lease_order r a" using at r by auto
    moreover have "lg_leaseEpoch r = lg_leaseEpoch g" using r by (auto simp: filter_eq_Cons_iff)
    ultimately have "lg_holderNodeId a = lg_holderNodeId g \<and> lg_leaseId a = lg_leaseId g"
      using adm'(2) r True by (auto simp: lease_order_def)
    moreover have "lg_leaseStatus a = ''revoked'' \<Longrightarrow> lg_leaseStatus g = ''revoked''"
      using adm'(3) at st by (auto simp: list_ex_iff)
    ultimately show ?thesis using le by (simp add: lease_order_def)
  qed (use le in \<open>simp add: lease_order_def\<close>)
qed

lemma install_inv:
  assumes inv: "lease_inv db" and e: "installLeaseGrant S E resolver g db = Inr (st, db')"
  shows "lease_inv db' \<and> (\<exists>gs. history_of s db' = history_of s db @ gs)"
  using e
proof (cases rule: install_cases)
  case appended
  have h: "history_of t db' = (if t = lg_streamId g then history_of t db @ [g] else history_of t db)" for t
    using appended(3) by (simp add: history_of_def)
  have seq: "lg_leaseGrantSeq g = int (Suc (length (history_of (lg_streamId g) db)))"
  proof (cases "history_of (lg_streamId g) db = []")
    case False
    let ?h = "history_of (lg_streamId g) db"
    have "map lg_leaseGrantSeq ?h = map (\<lambda>i. int i + 1) [0..<length ?h]" using inv by (simp add: lease_inv_def)
    then have "last (map lg_leaseGrantSeq ?h) = int (length ?h)" using False by (cases "length ?h") (simp_all add: last_map)
    then have "lg_leaseGrantSeq (last ?h) = int (length ?h)" using False by (simp add: last_map)
    moreover have "map_of (ld_lease db) (lg_streamId g) = Some (last ?h)" using inv False by (simp add: lease_inv_def)
    ultimately show ?thesis using appended(2) by (simp add: grant_admission_def Let_def lease_state_def)
  next
    case True
    then have "map_of (ld_lease db) (lg_streamId g) = None" using inv by (simp add: lease_inv_def)
    then show ?thesis using appended(2) True by (simp add: grant_admission_def Let_def)
  qed
  have "lease_inv db'"
    unfolding lease_inv_def
  proof (intro allI)
    fix t
    show "map lg_leaseGrantSeq (history_of t db') = map (\<lambda>i. int i + 1) [0..<length (history_of t db')] \<and>
     map_of (ld_lease db') t = (if history_of t db' = [] then None else Some (last (history_of t db'))) \<and>
     sorted_wrt lease_order (history_of t db') \<and>
     (\<forall>r \<in> set (history_of t db'). lg_leaseStatus r = ''active'' \<or> lg_leaseStatus r = ''revoked'')"
      using inv seq admission_order [OF inv appended(2,1)] appended(1,4)
      by (auto simp: lease_inv_def h sorted_wrt_append)
  qed
  then show ?thesis by (simp add: h)
qed (use inv in auto)

text \<open>Installations by anyone, of any grants, whether they succeed or throw.\<close>

definition lease_exec :: "sha_fn \<Rightarrow> ('m, 'p) ed25519 \<Rightarrow> ('m resolver \<times> LeaseGrant) \<Rightarrow> lease_db \<Rightarrow> lease_db" where
  "lease_exec S E p db = (case installLeaseGrant S E (fst p) (snd p) db of Inr (_, db') \<Rightarrow> db' | Inl _ \<Rightarrow> db)"

lemma lease_exec_inv: "lease_inv db \<Longrightarrow> lease_inv (lease_exec S E p db) \<and> (\<exists>gs. history_of s (lease_exec S E p db) = history_of s db @ gs)"
  using install_inv [of db S E "fst p" "snd p"] by (cases "installLeaseGrant S E (fst p) (snd p) db") (auto simp: lease_exec_def)

lemma lease_run_inv: "lease_inv db \<Longrightarrow> lease_inv (fold (lease_exec S E) ps db) \<and> (\<exists>gs. history_of s (fold (lease_exec S E) ps db) = history_of s db @ gs)"
proof (induction ps arbitrary: db)
  case (Cons p ps)
  with lease_exec_inv [OF Cons.prems, of S E p s] show ?case by fastforce
qed simp

lemma gate_head:
  assumes inv: "lease_inv db" and gate: "assertSourceLeaseWritable S E resolver s epoch skew bound now db = Inr st"
  obtains r where "history_of s db \<noteq> []" "r = last (history_of s db)" "st = lease_state r" "lg_leaseStatus r = ''active''" "lg_leaseEpoch r = epoch"
    "lb_holderNodeId bound = lg_holderNodeId r" "lb_leaseId bound = lg_leaseId r" "now < lg_leaseExpiresAtMs r - skew" "lg_grantDigest r = lb_grantDigest bound"
proof -
  obtain r where r: "map_of (ld_lease db) s = Some r" "verifiedLeaseHead S E resolver r = Inr st"
    "ls_leaseStatus st = ''active''" "ls_leaseEpoch st = epoch" "now < ls_leaseExpiresAtMs st - skew"
    "ls_holderNodeId st = lb_holderNodeId bound" "ls_leaseId st = lb_leaseId bound" "ls_grantDigest st = lb_grantDigest bound"
    using gate by (auto simp: assertSourceLeaseWritable_def bind_res_Inr_iff split: option.splits)
  have "st = lease_state r" using r(2) verified_row_Inr by (auto simp: verifiedLeaseHead_def)
  moreover have "history_of s db \<noteq> []" "r = last (history_of s db)" using inv r(1) by (auto simp: lease_inv_def split: if_splits)
  ultimately show thesis using that r(3-8) by (auto simp: lease_state_def)
qed


section \<open>What the gate guarantees\<close>

text \<open>A revocation freezes its epoch and every earlier one for good.\<close>

lemma revoked_epoch_stays_closed:
  assumes inv: "lease_inv db" and r: "r \<in> set (history_of s db)" "lg_leaseStatus r = ''revoked''" and le: "epoch \<le> lg_leaseEpoch r"
  shows "\<exists>e. assertSourceLeaseWritable S E resolver s epoch skew bound now db = Inl e"
proof (rule ccontr)
  assume "\<not> ?thesis"
  then obtain st where "assertSourceLeaseWritable S E resolver s epoch skew bound now db = Inr st"
    by (cases "assertSourceLeaseWritable S E resolver s epoch skew bound now db") auto
  then obtain l where l: "l = last (history_of s db)" "lg_leaseStatus l = ''active''" "lg_leaseEpoch l = epoch"
    by (rule gate_head [OF inv])
  have "r = l \<or> lease_order r l" unfolding l(1) by (rule sorted_wrt_last [OF _ r(1)]) (use inv in \<open>simp add: lease_inv_def\<close>)
  then show False using l r(2) le by (auto simp: lease_order_def)
qed

lemma gate_later:
  assumes inv: "lease_inv db" and g: "assertSourceLeaseWritable S E resolver s epoch skew bound now db = Inr st"
    and h: "history_of s db' = history_of s db @ gs" and inv': "lease_inv db'"
    and g': "assertSourceLeaseWritable S E resolver' s epoch' skew' bound' now' db' = Inr st'"
  shows "epoch \<le> epoch' \<and> (epoch = epoch' \<longrightarrow> lb_holderNodeId bound = lb_holderNodeId bound' \<and> lb_leaseId bound = lb_leaseId bound')"
proof -
  obtain r where r: "history_of s db \<noteq> []" "r = last (history_of s db)" "lg_leaseEpoch r = epoch"
    "lb_holderNodeId bound = lg_holderNodeId r" "lb_leaseId bound = lg_leaseId r" by (rule gate_head [OF inv g])
  obtain r' where r': "r' = last (history_of s db')" "lg_leaseEpoch r' = epoch'"
    "lb_holderNodeId bound' = lg_holderNodeId r'" "lb_leaseId bound' = lg_leaseId r'" by (rule gate_head [OF inv' g'])
  have "r \<in> set (history_of s db')" using r(1,2) h by simp
  then have "r = r' \<or> lease_order r r'"
    unfolding r'(1) by (rule sorted_wrt_last [rotated]) (use inv' in \<open>simp add: lease_inv_def\<close>)
  then show ?thesis using r(3-5) r'(2-4) by (auto simp: lease_order_def)
qed

text \<open>C10: One writer per epoch. Whatever grants and revocations are installed, by anyone and in any order: when two
  writers pass the gate of a stream, possibly with installations in between, the later one does so at the
  same or a later epoch, and at the same epoch they are the same node under the same lease.\<close>

theorem one_writer_per_epoch:
  assumes "db = fold (lease_exec S E) ps empty_lease_db" and "db' = fold (lease_exec S E) qs db"
    and "assertSourceLeaseWritable S E resolver s epoch skew bound now db = Inr st"
    and "assertSourceLeaseWritable S E resolver' s epoch' skew' bound' now' db' = Inr st'"
  shows "epoch \<le> epoch' \<and> (epoch = epoch' \<longrightarrow> lb_holderNodeId bound = lb_holderNodeId bound' \<and> lb_leaseId bound = lb_leaseId bound')"
proof -
  have inv: "lease_inv db" using lease_run_inv [OF lease_inv_empty] assms(1) by blast
  then obtain gs where "lease_inv db'" "history_of s db' = history_of s db @ gs"
    using lease_run_inv [OF inv, of S E qs s] assms(2) by blast
  with gate_later [OF inv assms(3)] assms(4) show ?thesis by blast
qed

definition example_ed25519 :: "(unit, unit) ed25519" where
  "example_ed25519 = \<lparr>edVerify = (\<lambda>msg k sig. sig = ''sig''), edSign = (\<lambda>msg k. ''sig'')\<rparr>"

definition example_resolver :: "unit resolver" where
  "example_resolver keyId = Some (Ed25519_public ())"

definition zero_sha :: sha_fn where
  "zero_sha bs = 0"

definition example_lease_grant :: "string \<Rightarrow> LeaseGrant" where
  "example_lease_grant status =
     (let bare = \<lparr>lg_streamId = ''s'', lg_leaseEpoch = 1, lg_leaseStatus = status, lg_holderNodeId = ''a'', lg_leaseId = ''l'',
        lg_commandId = ''c1'', lg_leaseExpiresAtMs = 50, lg_leaseGrantSeq = 1, lg_prevGrantDigest = None,
        lg_grantDigest = [], lg_guardKeyId = [], lg_guardSignature = []\<rparr> in
      case signLeaseGrant zero_sha example_ed25519 ''k'' (Ed25519_private ()) bare of Inr g \<Rightarrow> g | Inl _ \<Rightarrow> bare)"

definition example_bound :: lease_bound where
  "example_bound = \<lparr>lb_holderNodeId = ''a'', lb_leaseId = ''l'', lb_grantDigest = replicate 64 CHR ''0''\<rparr>"

definition leased_db :: lease_db where
  "leased_db = \<lparr>ld_lease = [(''s'', example_lease_grant ''active'')], ld_history = [example_lease_grant ''active'']\<rparr>"

lemma example_installed:
  "fold (lease_exec zero_sha example_ed25519) [(example_resolver, example_lease_grant ''active'')] empty_lease_db = leased_db"
  by code_simp

theorem one_writer_per_epoch_witness:
  "(\<exists>st. assertSourceLeaseWritable zero_sha example_ed25519 example_resolver ''s'' 1 5 example_bound 10 leased_db = Inr st) \<and>
   (\<exists>st. assertSourceLeaseWritable zero_sha example_ed25519 example_resolver ''s'' 1 7 example_bound 20 leased_db = Inr st) \<and>
   (1 :: int) \<le> 1 \<and> lb_leaseId example_bound = ''l''"
proof -
  have "case assertSourceLeaseWritable zero_sha example_ed25519 example_resolver ''s'' 1 5 example_bound 10 leased_db of
      Inr st \<Rightarrow> True | Inl _ \<Rightarrow> False"
    "case assertSourceLeaseWritable zero_sha example_ed25519 example_resolver ''s'' 1 7 example_bound 20 leased_db of
      Inr st \<Rightarrow> True | Inl _ \<Rightarrow> False" by code_simp+
  then obtain st st' where
    g: "assertSourceLeaseWritable zero_sha example_ed25519 example_resolver ''s'' 1 5 example_bound 10 leased_db = Inr st"
      "assertSourceLeaseWritable zero_sha example_ed25519 example_resolver ''s'' 1 7 example_bound 20 leased_db = Inr st'"
    by (auto split: sum.splits)
  have "leased_db = fold (lease_exec zero_sha example_ed25519) [] leased_db" by simp
  from one_writer_per_epoch [OF example_installed [symmetric] this g] g show ?thesis by (simp add: example_bound_def)
qed

end
