(* ===== verification/Hotp_Outbox.thy ===== *)
theory Hotp_Outbox
  imports Source_Lease Counter_Ledger
begin

text \<open>
  The durable HOTP outbox on PostgreSQL, \<^verbatim>\<open>packages/server/src/tsk-hotp-outbox-pg.ts\<close>: the tables as a record,
  the append of a mutation with its signed head under the fence and the lease gate, the publisher with its
  lease, acknowledgements, quarantine and halt, and the receiver that verifies and applies. Each transaction
  is a function that gives a result and the new tables, or an error, after which the old tables stand, as
  SERIALIZABLE transactions do. The schema attestation, the pinned schema and deadlines are left out. The
  sanitizer, signer, verifiers, transport and applier of a deployment are parameters.
\<close>

section \<open>Tables\<close>

record TskHotpMutation =
  hm_tumblerId :: string
  hm_counter :: int

definition mutation_value :: "TskHotpMutation \<Rightarrow> js_value" where
  "mutation_value m = VObject
     [(''tumblerId'', Some (VString (hm_tumblerId m)), True), (''counter'', Some (VNumber (NInt (hm_counter m))), True)] False True"

record tsk_checkpoint =
  tc_sourceEpoch :: string
  tc_epochIndex :: int
  tc_sequence :: int
  tc_headDigest :: string

text \<open>A row of \<^verbatim>\<open>tsk_outbox_rows\<close>; the time stamps are null or not.\<close>

record outbox_row =
  or_streamId :: string
  or_sourceEpoch :: string
  or_sequence :: int
  or_fenceToken :: int
  or_opDigest :: string
  or_tumblerId :: string
  or_hotpCounter :: int
  or_mutation :: js_value
  or_headPrev :: string
  or_headDigest :: string
  or_headKeyId :: string
  or_headAlg :: string
  or_headSig :: string
  or_published :: bool
  or_acked :: bool
  or_quarantined :: bool

type_synonym row_key = "string \<times> string \<times> int"

definition row_key :: "outbox_row \<Rightarrow> row_key" where
  "row_key r = (or_streamId r, or_sourceEpoch r, or_sequence r)"

text \<open>All tables of one database, with the tables of the lease and what the applier keeps.\<close>

record 'a outbox_db =
  ob_fence :: "(string \<times> int) list"
  ob_source :: "(string \<times> tsk_checkpoint) list"
  ob_receiver :: "(string \<times> tsk_checkpoint) list"
  ob_rows :: "outbox_row list"
  ob_publisher :: "(string \<times> string option \<times> int option) list"
  ob_quarantine :: "(row_key \<times> string \<times> string) list"
  ob_applied :: "(row_key \<times> string) list"
  ob_consumed :: "((string \<times> string) \<times> int) list"
  ob_halted :: "(string \<times> row_key \<times> string \<times> string) list"
  ob_lease :: lease_db
  ob_app :: 'a

definition TSK_HOTP_MAX_COUNTER :: int where "TSK_HOTP_MAX_COUNTER = 2147483647"
definition GENESIS_HEAD :: string where "GENESIS_HEAD = replicate 64 CHR ''0''"

definition text_check :: "int \<Rightarrow> string \<Rightarrow> bool" where
  "text_check n s \<longleftrightarrow> 1 \<le> int (length s) \<and> int (length s) \<le> n"

definition sequence_check :: "int \<Rightarrow> int \<Rightarrow> bool" where
  "sequence_check lo n \<longleftrightarrow> lo \<le> n \<and> n \<le> MAX_SAFE_INTEGER"

definition counter_check :: "int \<Rightarrow> bool" where
  "counter_check c \<longleftrightarrow> 1 \<le> c \<and> c \<le> 2147483647"

definition checkpoint_check :: "tsk_checkpoint \<Rightarrow> bool" where
  "checkpoint_check c \<longleftrightarrow> text_check 512 (tc_sourceEpoch c) \<and> 0 \<le> tc_epochIndex c \<and> sequence_check 0 (tc_sequence c) \<and>
     (tc_headDigest c = [] \<or> HEX64 (tc_headDigest c))"

definition row_check :: "outbox_row \<Rightarrow> bool" where
  "row_check r \<longleftrightarrow>
     text_check 512 (or_streamId r) \<and> text_check 512 (or_sourceEpoch r) \<and> sequence_check 1 (or_sequence r) \<and>
     0 \<le> or_fenceToken r \<and> or_fenceToken r < 10 ^ 39 \<and> HEX64 (or_opDigest r) \<and> text_check 512 (or_tumblerId r) \<and>
     counter_check (or_hotpCounter r) \<and> HEX64 (or_headPrev r) \<and> HEX64 (or_headDigest r) \<and> text_check 128 (or_headKeyId r) \<and>
     or_headAlg r \<in> set STREAM_HEAD_ALGS \<and> text_check 4096 (or_headSig r)"

definition insert_row :: "outbox_row \<Rightarrow> 'a outbox_db \<Rightarrow> 'a outbox_db res" where
  "insert_row r db =
     (if \<not> row_check r then Inl ''check constraint''
      else if row_key r \<in> row_key ` set (ob_rows db) then Inl ''unique constraint''
      else Inr (db\<lparr>ob_rows := ob_rows db @ [r]\<rparr>))"

definition digestEquals :: "string \<Rightarrow> string \<Rightarrow> bool" where
  "digestEquals a b \<longleftrightarrow> length a = length b \<and> utf8 a = utf8 b"

definition safeSeq :: "int \<Rightarrow> string \<Rightarrow> unit res" where
  "safeSeq n label = require (0 \<le> n \<and> n \<le> MAX_SAFE_INTEGER) (label @ '' out of safe-integer range'')"

lemma digestEquals_iff [simp]: "digestEquals a b \<longleftrightarrow> a = b"
  by (auto simp: digestEquals_def)

section \<open>Snapshots of untrusted objects\<close>

definition assertPlainData :: "js_value \<Rightarrow> string list \<Rightarrow> string \<Rightarrow> unit res" where
  "assertPlainData v keys label =
     (case v of
        VObject own symbols plain \<Rightarrow> checks
          ([require plain (label @ '' must have a plain (Object) or null prototype''),
            require (\<not> symbols) (label @ '' must not have symbol keys''),
            require (length own = length keys) (label @ '' has an invalid key set'')] @
           map (\<lambda>k. require (case map_of own k of Some (Some _, enumerable) \<Rightarrow> enumerable | _ \<Rightarrow> False) (label @ ''.'' @ k @ '' must be an own enumerable data property'')) keys)
      | VArray n own symbols \<Rightarrow> Inl (label @ '' must have a plain (Object) or null prototype'')
      | VNull \<Rightarrow> Inl (label @ '' must be a plain object'')
      | _ \<Rightarrow> Inl (label @ '' must be a plain object''))"

fun own_props :: "js_value \<Rightarrow> js_props" where
  "own_props (VObject own symbols plain) = own"
| "own_props _ = []"

definition field :: "js_value \<Rightarrow> string \<Rightarrow> js_value" where
  "field v k = js_item (own_props v) k"

fun reqString :: "js_value \<Rightarrow> string \<Rightarrow> string res" where
  "reqString (VString s) label = Inr s"
| "reqString _ label = Inl (label @ '' must be a string'')"

fun reqInt :: "js_value \<Rightarrow> string \<Rightarrow> int res" where
  "reqInt (VNumber (NInt n)) label = Inr n"
| "reqInt _ label = Inl (label @ '' must be an integer'')"

definition RECORD_KEYS :: "string list" where
  "RECORD_KEYS = [''contractVersion'', ''streamId'', ''sourceEpoch'', ''sequence'', ''fenceToken'', ''opDigest'', ''mutation'']"
definition MUTATION_KEYS :: "string list" where
  "MUTATION_KEYS = [''tumblerId'', ''counter'']"
definition HEAD_KEYS :: "string list" where
  "HEAD_KEYS = [''streamId'', ''sequence'', ''prevHeadDigest'', ''opDigest'', ''keyId'', ''alg'', ''headDigest'', ''signature'']"
definition RECEIPT_KEYS :: "string list" where
  "RECEIPT_KEYS = [''streamId'', ''sourceEpoch'', ''sequence'', ''opDigest'', ''decision'', ''receiverId'', ''keyId'', ''issuedAt'', ''signature'']"

record OutboxRecord =
  rec_header :: OutboxRecordHeader
  rec_mutation :: TskHotpMutation

definition snapshotRecord :: "js_value \<Rightarrow> OutboxRecord res" where
  "snapshotRecord r =
     bind_res (assertPlainData r RECORD_KEYS ''record'') (\<lambda>_.
     bind_res (assertPlainData (field r ''mutation'') MUTATION_KEYS ''record.mutation'') (\<lambda>_.
     bind_res (reqString (field r ''contractVersion'') ''record.contractVersion'') (\<lambda>version.
     bind_res (reqString (field r ''streamId'') ''record.streamId'') (\<lambda>streamId.
     bind_res (reqString (field r ''sourceEpoch'') ''record.sourceEpoch'') (\<lambda>sourceEpoch.
     bind_res (reqInt (field r ''sequence'') ''record.sequence'') (\<lambda>sequence.
     bind_res (reqString (field r ''fenceToken'') ''record.fenceToken'') (\<lambda>fenceToken.
     bind_res (reqString (field r ''opDigest'') ''record.opDigest'') (\<lambda>opDigest.
     bind_res (reqString (field (field r ''mutation'') ''tumblerId'') ''record.mutation.tumblerId'') (\<lambda>tumblerId.
     bind_res (reqInt (field (field r ''mutation'') ''counter'') ''record.mutation.counter'') (\<lambda>counter.
       Inr \<lparr>rec_header = \<lparr>oh_contractVersion = version, oh_streamId = streamId, oh_sourceEpoch = sourceEpoch, oh_sequence = sequence,
                         oh_fenceToken = fenceToken, oh_opDigest = opDigest\<rparr>,
             rec_mutation = \<lparr>hm_tumblerId = tumblerId, hm_counter = counter\<rparr>\<rparr>))))))))))"

definition snapshotHead :: "js_value \<Rightarrow> SignedStreamHead res" where
  "snapshotHead h =
     bind_res (assertPlainData h HEAD_KEYS ''head'') (\<lambda>_.
     bind_res (reqString (field h ''streamId'') ''head.streamId'') (\<lambda>streamId.
     bind_res (reqInt (field h ''sequence'') ''head.sequence'') (\<lambda>sequence.
     bind_res (reqString (field h ''prevHeadDigest'') ''head.prevHeadDigest'') (\<lambda>prev.
     bind_res (reqString (field h ''opDigest'') ''head.opDigest'') (\<lambda>opDigest.
     bind_res (reqString (field h ''keyId'') ''head.keyId'') (\<lambda>keyId.
     bind_res (reqString (field h ''alg'') ''head.alg'') (\<lambda>alg.
     bind_res (reqString (field h ''headDigest'') ''head.headDigest'') (\<lambda>digest.
     bind_res (reqString (field h ''signature'') ''head.signature'') (\<lambda>signature.
       Inr \<lparr>sh_streamId = streamId, sh_sequence = sequence, sh_prevHeadDigest = prev, sh_opDigest = opDigest, sh_keyId = keyId,
            sh_alg = alg, sh_headDigest = digest, sh_signature = signature\<rparr>)))))))))"

record TskAckReceipt =
  ar_streamId :: string
  ar_sourceEpoch :: string
  ar_sequence :: int
  ar_opDigest :: string
  ar_decision :: string
  ar_receiverId :: string
  ar_keyId :: string
  ar_issuedAt :: string
  ar_signature :: string

definition snapshotAckReceipt :: "js_value \<Rightarrow> TskAckReceipt res" where
  "snapshotAckReceipt r =
     bind_res (assertPlainData r RECEIPT_KEYS ''ack receipt'') (\<lambda>_.
     bind_res (reqString (field r ''streamId'') ''receipt.streamId'') (\<lambda>streamId.
     bind_res (reqString (field r ''sourceEpoch'') ''receipt.sourceEpoch'') (\<lambda>sourceEpoch.
     bind_res (reqInt (field r ''sequence'') ''receipt.sequence'') (\<lambda>sequence.
     bind_res (reqString (field r ''opDigest'') ''receipt.opDigest'') (\<lambda>opDigest.
     bind_res (reqString (field r ''decision'') ''receipt.decision'') (\<lambda>decision.
     bind_res (reqString (field r ''receiverId'') ''receipt.receiverId'') (\<lambda>receiverId.
     bind_res (reqString (field r ''keyId'') ''receipt.keyId'') (\<lambda>keyId.
     bind_res (reqString (field r ''issuedAt'') ''receipt.issuedAt'') (\<lambda>issuedAt.
     bind_res (reqString (field r ''signature'') ''receipt.signature'') (\<lambda>signature.
       Inr \<lparr>ar_streamId = streamId, ar_sourceEpoch = sourceEpoch, ar_sequence = sequence, ar_opDigest = opDigest, ar_decision = decision,
            ar_receiverId = receiverId, ar_keyId = keyId, ar_issuedAt = issuedAt, ar_signature = signature\<rparr>))))))))))"

section \<open>The source\<close>

text \<open>The gate of a fenced outbox: the resolver of the guard keys, the skew and the writer it is bound to.\<close>

record 'm source_gate =
  sg_resolver :: "'m resolver"
  sg_skew :: int
  sg_bound :: lease_bound

record 'm source_options =
  so_streamId :: string
  so_sanitize :: "TskHotpMutation \<Rightarrow> TskHotpMutation res"
  so_keyId :: string
  so_alg :: string
  so_sign :: "string \<Rightarrow> string res"
  so_maxPendingRows :: int
  so_gate :: "'m source_gate option"

definition deliverable :: "string \<Rightarrow> outbox_row \<Rightarrow> bool" where
  "deliverable s r \<longleftrightarrow> or_streamId r = s \<and> \<not> or_acked r \<and> \<not> or_quarantined r"

definition source_gate_check :: "sha_fn \<Rightarrow> ('m, 'p) ed25519 \<Rightarrow> 'm source_options \<Rightarrow> int \<Rightarrow> int \<Rightarrow> 'a outbox_db \<Rightarrow> unit res" where
  "source_gate_check S E opts fence now db =
     (case so_gate opts of
        None \<Rightarrow> Inr ()
      | Some g \<Rightarrow> bind_res (assertSourceLeaseWritable S E (sg_resolver g) (so_streamId opts) fence (sg_skew g) (sg_bound g) now (ob_lease db)) (\<lambda>_. Inr ()))"

definition head_of :: "string \<Rightarrow> string" where
  "head_of d = (if d = [] then GENESIS_HEAD else d)"

definition next_head :: "sha_fn \<Rightarrow> 'm source_options \<Rightarrow> int \<Rightarrow> string \<Rightarrow> string \<Rightarrow> SignedStreamHead res" where
  "next_head S opts sequence prev opDigest =
     (let bare = \<lparr>sh_streamId = so_streamId opts, sh_sequence = sequence, sh_prevHeadDigest = prev, sh_opDigest = opDigest,
        sh_keyId = so_keyId opts, sh_alg = so_alg opts, sh_headDigest = [], sh_signature = []\<rparr> in
      bind_res (streamHeadDigest S bare) (\<lambda>d. bind_res (so_sign opts d) (\<lambda>sig. Inr (bare\<lparr>sh_headDigest := d, sh_signature := sig\<rparr>))))"

definition new_row :: "OutboxRecordHeader \<Rightarrow> SignedStreamHead \<Rightarrow> int \<Rightarrow> TskHotpMutation \<Rightarrow> outbox_row" where
  "new_row header head fence m =
     \<lparr>or_streamId = oh_streamId header, or_sourceEpoch = oh_sourceEpoch header, or_sequence = oh_sequence header, or_fenceToken = fence,
      or_opDigest = oh_opDigest header, or_tumblerId = hm_tumblerId m, or_hotpCounter = hm_counter m, or_mutation = mutation_value m,
      or_headPrev = sh_prevHeadDigest head, or_headDigest = sh_headDigest head, or_headKeyId = sh_keyId head, or_headAlg = sh_alg head,
      or_headSig = sh_signature head, or_published = False, or_acked = False, or_quarantined = False\<rparr>"

definition update_checkpoint :: "string \<Rightarrow> int \<Rightarrow> string \<Rightarrow> (string \<times> tsk_checkpoint) list \<Rightarrow> (string \<times> tsk_checkpoint) list res" where
  "update_checkpoint s sequence head cps =
     (case map_of cps s of
        None \<Rightarrow> Inl ''checkpoint advance: expected exactly 1 affected row, got 0''
      | Some c \<Rightarrow>
          let c' = c\<lparr>tc_sequence := sequence, tc_headDigest := head\<rparr> in
          if checkpoint_check c' then Inr (omap_set s c' cps) else Inl ''check constraint'')"

definition appendInTx ::
  "sha_fn \<Rightarrow> ('m, 'p) ed25519 \<Rightarrow> 'm source_options \<Rightarrow> int \<Rightarrow> string \<Rightarrow> TskHotpMutation \<Rightarrow> int \<Rightarrow> 'a outbox_db \<Rightarrow>
   ((OutboxRecordHeader \<times> SignedStreamHead) \<times> 'a outbox_db) res" where
  "appendInTx S E opts now streamId rawMutation fenceToken db =
     bind_res (require (streamId = so_streamId opts) ''streamId mismatch for this outbox'') (\<lambda>_.
     bind_res (fenceTokenToDecimal fenceToken) (\<lambda>fenceDecimal.
     case map_of (ob_fence db) streamId of
       None \<Rightarrow> Inl ''no authoritative fence row -- stream not provisioned (fail closed)''
     | Some persistedFence \<Rightarrow>
     bind_res (require (fenceToken = persistedFence) ''fence token is stale'') (\<lambda>_.
     bind_res (source_gate_check S E opts persistedFence now db) (\<lambda>_.
     bind_res (require (int (length (filter (deliverable streamId) (ob_rows db))) < so_maxPendingRows opts)
                ''outbox admission rejected under backpressure policy'') (\<lambda>_.
     case map_of (ob_source db) streamId of
       None \<Rightarrow> Inl ''stream not provisioned (no source checkpoint row)''
     | Some cp \<Rightarrow>
     bind_res (safeSeq (tc_sequence cp) ''source.checkpoint.sequence'') (\<lambda>_.
     bind_res (require (tc_sequence cp < MAX_SAFE_INTEGER) ''source sequence exhausted safe-integer range'') (\<lambda>_.
     bind_res (so_sanitize opts rawMutation) (\<lambda>m.
     bind_res (require (counter_check (hm_counter m)) ''HOTP counter out of range [1, 2^31-1]'') (\<lambda>_.
     bind_res (require (text_check 512 (hm_tumblerId m)) ''tumblerId invalid'') (\<lambda>_.
     bind_res (canonicalOpDigest S \<lparr>oi_streamId = streamId, oi_sourceEpoch = tc_sourceEpoch cp, oi_sequence = tc_sequence cp + 1,
                oi_fenceToken = fenceDecimal, oi_mutation = mutation_value m\<rparr>) (\<lambda>opDigest.
     bind_res (next_head S opts (tc_sequence cp + 1) (head_of (tc_headDigest cp)) opDigest) (\<lambda>head.
     let header = \<lparr>oh_contractVersion = ''1'', oh_streamId = streamId, oh_sourceEpoch = tc_sourceEpoch cp, oh_sequence = tc_sequence cp + 1,
        oh_fenceToken = fenceDecimal, oh_opDigest = opDigest\<rparr> in
     bind_res (assertHeaderConformant header) (\<lambda>_.
     bind_res (assertStreamHeadBinds S header head) (\<lambda>_.
     bind_res (insert_row (new_row header head fenceToken m) db) (\<lambda>db1.
     bind_res (update_checkpoint streamId (tc_sequence cp + 1) (sh_headDigest head) (ob_source db1)) (\<lambda>cps.
       Inr ((header, head), db1\<lparr>ob_source := cps\<rparr>)))))))))))))))))"

text \<open>A transaction of the outbox: what the caller does in it, then the lease once more before the commit.\<close>

definition withOutboxTx ::
  "sha_fn \<Rightarrow> ('m, 'p) ed25519 \<Rightarrow> 'm source_options \<Rightarrow> int \<Rightarrow> ('a outbox_db \<Rightarrow> ('r \<times> 'a outbox_db) res) \<Rightarrow> 'a outbox_db \<Rightarrow> ('r \<times> 'a outbox_db) res" where
  "withOutboxTx S E opts now fn db =
     bind_res (fn db) (\<lambda>(r, db').
       case so_gate opts of
         None \<Rightarrow> Inr (r, db')
       | Some g \<Rightarrow>
           (case map_of (ob_fence db') (so_streamId opts) of
              None \<Rightarrow> Inl ''no authoritative fence row at pre-commit re-check''
            | Some fence \<Rightarrow> bind_res (source_gate_check S E opts fence now db') (\<lambda>_. Inr (r, db'))))"

section \<open>The receiver\<close>

datatype ReceiverDecision =
    Applied | Duplicate_ok | Reject_gap | Reject_fork | Reject_stale | Reject_epoch | Reject_fence | Reject_unsanitized

datatype head_verdict = Head_verified | Head_unavailable | Head_invalid

record 'a receiver_options =
  ro_streamId :: string
  ro_assertSanitized :: "js_value \<Rightarrow> unit res"
  ro_verify :: "SignedStreamHead \<Rightarrow> head_verdict"
  ro_applyInTx :: "OutboxRecord \<Rightarrow> 'a \<Rightarrow> 'a res"

definition record_input :: "OutboxRecord \<Rightarrow> op_input" where
  "record_input r = \<lparr>oi_streamId = oh_streamId (rec_header r), oi_sourceEpoch = oh_sourceEpoch (rec_header r),
     oi_sequence = oh_sequence (rec_header r), oi_fenceToken = oh_fenceToken (rec_header r), oi_mutation = mutation_value (rec_mutation r)\<rparr>"

definition record_key :: "OutboxRecord \<Rightarrow> row_key" where
  "record_key r = (oh_streamId (rec_header r), oh_sourceEpoch (rec_header r), oh_sequence (rec_header r))"

definition consume :: "string \<times> string \<Rightarrow> int \<Rightarrow> ((string \<times> string) \<times> int) list \<Rightarrow> ((string \<times> string) \<times> int) list res" where
  "consume k c tab =
     (if \<not> text_check 512 (fst k) \<or> \<not> text_check 512 (snd k) \<or> \<not> counter_check c then Inl ''check constraint''
      else case map_of tab k of
        Some lst \<Rightarrow> if lst < c then Inr (omap_set k c tab) else Inl ''hotp consume: expected exactly 1 affected row, got 0''
      | None \<Rightarrow> Inr (omap_set k c tab))"

definition insert_applied :: "row_key \<Rightarrow> string \<Rightarrow> (row_key \<times> string) list \<Rightarrow> (row_key \<times> string) list res" where
  "insert_applied k d tab =
     (case k of (s, e, n) \<Rightarrow>
        if \<not> text_check 512 s \<or> \<not> text_check 512 e \<or> \<not> sequence_check 1 n \<or> \<not> HEX64 d then Inl ''check constraint''
        else if omap_has k tab then Inl ''unique constraint''
        else Inr (tab @ [(k, d)]))"

text \<open>The application of a record that is next in order: the applier, the counter, the history, the
  checkpoint.\<close>

definition apply_record :: "'a receiver_options \<Rightarrow> OutboxRecord \<Rightarrow> SignedStreamHead \<Rightarrow> 'a outbox_db \<Rightarrow> (ReceiverDecision \<times> 'a outbox_db) res" where
  "apply_record opts r head db =
     bind_res (ro_applyInTx opts r (ob_app db)) (\<lambda>app.
     bind_res (consume (oh_streamId (rec_header r), hm_tumblerId (rec_mutation r)) (hm_counter (rec_mutation r)) (ob_consumed db)) (\<lambda>consumed.
     bind_res (insert_applied (record_key r) (oh_opDigest (rec_header r)) (ob_applied db)) (\<lambda>applied.
     bind_res (update_checkpoint (oh_streamId (rec_header r)) (oh_sequence (rec_header r)) (sh_headDigest head) (ob_receiver db)) (\<lambda>cps.
       Inr (Applied, db\<lparr>ob_app := app, ob_consumed := consumed, ob_applied := applied, ob_receiver := cps\<rparr>)))))"

text \<open>The checks against the receiver's own tables.\<close>

definition receive_verified :: "'a receiver_options \<Rightarrow> OutboxRecord \<Rightarrow> SignedStreamHead \<Rightarrow> 'a outbox_db \<Rightarrow> (ReceiverDecision \<times> 'a outbox_db) res" where
  "receive_verified opts r head db =
     (case map_of (ob_fence db) (oh_streamId (rec_header r)) of
        None \<Rightarrow> Inr (Reject_fence, db)
      | Some fence \<Rightarrow>
      if int (dec_value (oh_fenceToken (rec_header r))) \<noteq> fence then Inr (Reject_fence, db)
      else case map_of (ob_receiver db) (oh_streamId (rec_header r)) of
        None \<Rightarrow> Inl ''receiver stream not provisioned''
      | Some cp \<Rightarrow>
      bind_res (safeSeq (tc_sequence cp) ''receiver.checkpoint.sequence'') (\<lambda>_.
      if oh_sourceEpoch (rec_header r) \<noteq> tc_sourceEpoch cp then Inr (Reject_epoch, db)
      else if oh_sequence (rec_header r) \<le> tc_sequence cp then
        (case map_of (ob_applied db) (record_key r) of
           Some prior \<Rightarrow> if digestEquals prior (oh_opDigest (rec_header r)) then Inr (Duplicate_ok, db) else Inr (Reject_fork, db)
         | None \<Rightarrow> Inr (Reject_stale, db))
      else if tc_sequence cp + 1 < oh_sequence (rec_header r) then Inr (Reject_gap, db)
      else if sh_prevHeadDigest head \<noteq> head_of (tc_headDigest cp) then Inr (Reject_fork, db)
      else (case map_of (ob_consumed db) (oh_streamId (rec_header r), hm_tumblerId (rec_mutation r)) of
              None \<Rightarrow> apply_record opts r head db
            | Some lst \<Rightarrow> bind_res (safeSeq lst ''hotp.last_counter'') (\<lambda>_.
                if hm_counter (rec_mutation r) \<le> lst then Inr (Reject_fork, db) else apply_record opts r head db))))"

definition verifyAndApplyTumblerInTx ::
  "sha_fn \<Rightarrow> 'a receiver_options \<Rightarrow> js_value \<Rightarrow> js_value \<Rightarrow> 'a outbox_db \<Rightarrow> (ReceiverDecision \<times> 'a outbox_db) res" where
  "verifyAndApplyTumblerInTx S opts recordUntrusted headUntrusted db =
     bind_res (snapshotRecord recordUntrusted) (\<lambda>r.
     bind_res (snapshotHead headUntrusted) (\<lambda>head.
     bind_res (require (oh_streamId (rec_header r) = ro_streamId opts) ''streamId mismatch for this receiver'') (\<lambda>_.
     bind_res (assertHeaderConformant (rec_header r)) (\<lambda>_.
     case ro_assertSanitized opts (mutation_value (rec_mutation r)) of
       Inl _ \<Rightarrow> Inr (Reject_unsanitized, db)
     | Inr _ \<Rightarrow>
     bind_res (canonicalOpDigest S (record_input r)) (\<lambda>recomputed.
     if \<not> digestEquals recomputed (oh_opDigest (rec_header r)) then Inr (Reject_fork, db)
     else case assertStreamHeadBinds S (rec_header r) head of
       Inl _ \<Rightarrow> Inr (Reject_fork, db)
     | Inr _ \<Rightarrow>
     (case ro_verify opts head of
        Head_unavailable \<Rightarrow> Inl ''stream-head verifier dependency unavailable''
      | Head_invalid \<Rightarrow> Inr (Reject_fork, db)
      | Head_verified \<Rightarrow> receive_verified opts r head db))))))"


section \<open>The publisher\<close>

fun decision_text :: "ReceiverDecision \<Rightarrow> string" where
  "decision_text Applied = ''applied''"
| "decision_text Duplicate_ok = ''duplicate-ok''"
| "decision_text Reject_gap = ''reject-gap''"
| "decision_text Reject_fork = ''reject-fork''"
| "decision_text Reject_stale = ''reject-stale''"
| "decision_text Reject_epoch = ''reject-epoch''"
| "decision_text Reject_fence = ''reject-fence''"
| "decision_text Reject_unsanitized = ''reject-unsanitized''"

definition ACK_DECISIONS :: "string list" where "ACK_DECISIONS = [''applied'', ''duplicate-ok'']"
definition TRANSIENT_DECISIONS :: "string list" where "TRANSIENT_DECISIONS = [''reject-gap'', ''reject-fence'']"
definition TERMINAL_DECISIONS :: "string list" where
  "TERMINAL_DECISIONS = [''reject-fork'', ''reject-stale'', ''reject-unsanitized'', ''reject-epoch'']"
definition KNOWN_DECISIONS :: "string list" where
  "KNOWN_DECISIONS = ACK_DECISIONS @ TRANSIENT_DECISIONS @ TERMINAL_DECISIONS"

text \<open>What goes over the wire.\<close>

definition data_object :: "(string \<times> js_value) list \<Rightarrow> js_value" where
  "data_object ps = VObject (map (\<lambda>p. (fst p, Some (snd p), True)) ps) False True"

definition record_value :: "OutboxRecordHeader \<Rightarrow> js_value \<Rightarrow> js_value" where
  "record_value h m = data_object
     [(''contractVersion'', VString (oh_contractVersion h)), (''streamId'', VString (oh_streamId h)), (''sourceEpoch'', VString (oh_sourceEpoch h)),
      (''sequence'', VNumber (NInt (oh_sequence h))), (''fenceToken'', VString (oh_fenceToken h)), (''opDigest'', VString (oh_opDigest h)),
      (''mutation'', m)]"

definition head_value :: "SignedStreamHead \<Rightarrow> js_value" where
  "head_value h = data_object
     [(''streamId'', VString (sh_streamId h)), (''sequence'', VNumber (NInt (sh_sequence h))), (''prevHeadDigest'', VString (sh_prevHeadDigest h)),
      (''opDigest'', VString (sh_opDigest h)), (''keyId'', VString (sh_keyId h)), (''alg'', VString (sh_alg h)),
      (''headDigest'', VString (sh_headDigest h)), (''signature'', VString (sh_signature h))]"

record 'w publisher_options =
  po_streamId :: string
  po_leaseMs :: int
  po_assertSanitized :: "js_value \<Rightarrow> unit res"
  po_deliver :: "js_value \<Rightarrow> js_value \<Rightarrow> 'w \<Rightarrow> 'w \<times> (jsval + js_value)"
  po_verifyAck :: "TskAckReceipt \<Rightarrow> js_value \<Rightarrow> unit res"

definition acquireLease :: "string \<Rightarrow> int \<Rightarrow> string \<Rightarrow> int \<Rightarrow> 'a outbox_db \<Rightarrow> bool \<times> 'a outbox_db" where
  "acquireLease s leaseMs token now db =
     (let taken = db\<lparr>ob_publisher := omap_set s (Some token, Some (now + leaseMs)) (ob_publisher db)\<rparr> in
      case map_of (ob_publisher db) s of
        Some (_, Some until) \<Rightarrow> if until < now then (True, taken) else (False, db)
      | _ \<Rightarrow> (True, taken))"

definition holds_lease :: "string \<Rightarrow> string \<Rightarrow> 'a outbox_db \<Rightarrow> bool" where
  "holds_lease s token db = (case map_of (ob_publisher db) s of Some (t, _) \<Rightarrow> t = Some token | None \<Rightarrow> False)"

definition releaseLease :: "string \<Rightarrow> string \<Rightarrow> 'a outbox_db \<Rightarrow> 'a outbox_db" where
  "releaseLease s token db =
     (if holds_lease s token db then db\<lparr>ob_publisher := omap_set s (None, None) (ob_publisher db)\<rparr> else db)"

definition nextDeliverable :: "string \<Rightarrow> string \<Rightarrow> 'a outbox_db \<Rightarrow> outbox_row option res" where
  "nextDeliverable s token db =
     (if \<not> holds_lease s token db then Inl ''publisher lease lost -- aborting drain''
      else Inr (case sort_key or_sequence (filter (deliverable s) (ob_rows db)) of [] \<Rightarrow> None | r # _ \<Rightarrow> Some r))"

definition isHalted :: "string \<Rightarrow> 'a outbox_db \<Rightarrow> bool" where
  "isHalted s db = omap_has s (ob_halted db)"

text \<open>The rows an update of one key touches; its key is primary.\<close>

definition update_rows :: "(outbox_row \<Rightarrow> bool) \<Rightarrow> (outbox_row \<Rightarrow> outbox_row) \<Rightarrow> string \<Rightarrow> 'a outbox_db \<Rightarrow> 'a outbox_db res" where
  "update_rows P f label db =
     (if length (filter P (ob_rows db)) \<noteq> 1 then Inl (label @ '': expected exactly 1 affected row'')
      else Inr (db\<lparr>ob_rows := map (\<lambda>r. if P r then f r else r) (ob_rows db)\<rparr>))"

definition ack_row :: "string \<Rightarrow> string \<Rightarrow> outbox_row \<Rightarrow> 'a outbox_db \<Rightarrow> 'a outbox_db res" where
  "ack_row s token r db =
     (if \<not> holds_lease s token db then Inl ''publisher lease lost -- not acking''
      else update_rows (\<lambda>x. row_key x = (s, or_sourceEpoch r, or_sequence r) \<and> \<not> or_acked x \<and> \<not> or_quarantined x \<and> or_opDigest x = or_opDigest r)
             (\<lambda>x. x\<lparr>or_published := True, or_acked := True\<rparr>) ''publisher ack'' db)"

definition insert_quarantine :: "row_key \<Rightarrow> string \<Rightarrow> string \<Rightarrow> 'a outbox_db \<Rightarrow> 'a outbox_db res" where
  "insert_quarantine key digest decision db =
     (case map_of (ob_quarantine db) key of
        None \<Rightarrow> Inr (db\<lparr>ob_quarantine := ob_quarantine db @ [(key, digest, decision)]\<rparr>)
      | Some (d, dec) \<Rightarrow>
          if \<not> digestEquals d digest \<or> dec \<noteq> decision
          then Inl ''quarantine record conflict: existing digest/decision differ from this record''
          else Inr db)"

definition insert_halted :: "string \<Rightarrow> row_key \<Rightarrow> string \<Rightarrow> string \<Rightarrow> 'a outbox_db \<Rightarrow> 'a outbox_db" where
  "insert_halted s key digest decision db =
     (if omap_has s (ob_halted db) then db else db\<lparr>ob_halted := omap_set s (key, digest, decision) (ob_halted db)\<rparr>)"

definition quarantineAndHalt :: "string \<Rightarrow> string \<Rightarrow> outbox_row \<Rightarrow> string \<Rightarrow> 'a outbox_db \<Rightarrow> 'a outbox_db res" where
  "quarantineAndHalt s token r decision db =
     (let key = (s, or_sourceEpoch r, or_sequence r) in
      bind_res (require (holds_lease s token db) ''publisher lease lost -- not quarantining'') (\<lambda>_.
      bind_res (insert_quarantine key (or_opDigest r) decision db) (\<lambda>db1.
      bind_res (update_rows (\<lambda>x. row_key x = key \<and> \<not> or_acked x \<and> \<not> or_quarantined x) (\<lambda>x. x\<lparr>or_quarantined := True\<rparr>) ''quarantine mark'' db1) (\<lambda>db2.
        Inr (insert_halted s key (or_opDigest r) decision db2)))))"

text \<open>The checks of a stored row before it is delivered, and what is delivered of it.\<close>

definition row_header :: "string \<Rightarrow> outbox_row \<Rightarrow> OutboxRecordHeader" where
  "row_header s r = \<lparr>oh_contractVersion = ''1'', oh_streamId = s, oh_sourceEpoch = or_sourceEpoch r, oh_sequence = or_sequence r,
     oh_fenceToken = show_int (or_fenceToken r), oh_opDigest = or_opDigest r\<rparr>"

definition row_head :: "string \<Rightarrow> outbox_row \<Rightarrow> SignedStreamHead" where
  "row_head s r = \<lparr>sh_streamId = s, sh_sequence = or_sequence r, sh_prevHeadDigest = or_headPrev r, sh_opDigest = or_opDigest r,
     sh_keyId = or_headKeyId r, sh_alg = or_headAlg r, sh_headDigest = or_headDigest r, sh_signature = or_headSig r\<rparr>"

definition prepare_row :: "sha_fn \<Rightarrow> 'w publisher_options \<Rightarrow> outbox_row \<Rightarrow> unit res" where
  "prepare_row S opts r =
     bind_res (safeSeq (or_sequence r) ''row.sequence'') (\<lambda>_.
     bind_res (po_assertSanitized opts (or_mutation r)) (\<lambda>_.
     bind_res (canonicalOpDigest S \<lparr>oi_streamId = po_streamId opts, oi_sourceEpoch = or_sourceEpoch r, oi_sequence = or_sequence r,
                oi_fenceToken = show_int (or_fenceToken r), oi_mutation = or_mutation r\<rparr>) (\<lambda>recomputed.
     bind_res (require (digestEquals recomputed (or_opDigest r)) ''corrupted outbox row: digest mismatch'') (\<lambda>_.
       assertStreamHeadBinds S (row_header (po_streamId opts) r) (row_head (po_streamId opts) r)))))"

definition accept_receipt :: "'w publisher_options \<Rightarrow> outbox_row \<Rightarrow> js_value \<Rightarrow> TskAckReceipt res" where
  "accept_receipt opts r raw =
     bind_res (snapshotAckReceipt raw) (\<lambda>receipt.
     bind_res (po_verifyAck opts receipt (record_value (row_header (po_streamId opts) r) (or_mutation r))) (\<lambda>_.
     bind_res (require (ar_streamId receipt = po_streamId opts \<and> ar_sourceEpoch receipt = or_sourceEpoch r \<and> ar_sequence receipt = or_sequence r \<and>
                  digestEquals (ar_opDigest receipt) (or_opDigest r)) ''ACK receipt does not match the delivered record -- not acking'') (\<lambda>_.
     bind_res (require (ar_decision receipt \<in> set KNOWN_DECISIONS) ''unknown receiver decision'') (\<lambda>_. Inr receipt))))"

record TskDrainResult =
  dr_published :: int
  dr_acked :: int
  dr_quarantined :: int
  dr_retriable :: bool
  dr_halted :: bool

lemma ack_row_decreases:
  assumes "ack_row s token r db = Inr db'"
  shows "length (filter (deliverable s) (ob_rows db')) < length (filter (deliverable s) (ob_rows db))"
proof -
  let ?P = "\<lambda>x. row_key x = (s, or_sourceEpoch r, or_sequence r) \<and> \<not> or_acked x \<and> \<not> or_quarantined x \<and> or_opDigest x = or_opDigest r"
  have rows: "ob_rows db' = map (\<lambda>x. if ?P x then x\<lparr>or_published := True, or_acked := True\<rparr> else x) (ob_rows db)"
    and one: "length (filter ?P (ob_rows db)) = 1"
    using assms by (auto simp: ack_row_def update_rows_def split: if_splits)
  have d: "deliverable s (if ?P x then x\<lparr>or_published := True, or_acked := True\<rparr> else x) \<longleftrightarrow> deliverable s x \<and> \<not> ?P x" for x
    by (simp add: deliverable_def)
  have "length (filter (deliverable s) (ob_rows db')) = length (filter (\<lambda>x. deliverable s x \<and> \<not> ?P x) (ob_rows db))"
    unfolding rows filter_map length_map comp_def d ..
  moreover have "length (filter (\<lambda>x. deliverable s x \<and> \<not> ?P x) (ob_rows db)) + length (filter ?P (ob_rows db)) = length (filter (deliverable s) (ob_rows db))"
  proof -
    have "filter ?P (ob_rows db) = filter (\<lambda>x. deliverable s x \<and> ?P x) (ob_rows db)"
      by (rule filter_cong) (auto simp: deliverable_def row_key_def)
    then show ?thesis using sum_length_filter_compl [of ?P "filter (deliverable s) (ob_rows db)"] by (simp add: conj_commute)
  qed
  ultimately show ?thesis using one by linarith
qed

text \<open>The loop of one drain: the world of the transport, the tables and the counts so far. An error leaves what
  the transactions before it committed.\<close>

function publish_loop ::
  "sha_fn \<Rightarrow> 'w publisher_options \<Rightarrow> string \<Rightarrow> 'w \<Rightarrow> 'a outbox_db \<Rightarrow> TskDrainResult \<Rightarrow> 'w \<times> 'a outbox_db \<times> TskDrainResult res" where
  "publish_loop S opts token w db n =
     (case nextDeliverable (po_streamId opts) token db of
        Inl e \<Rightarrow> (w, db, Inl e)
      | Inr None \<Rightarrow> (w, db, Inr n)
      | Inr (Some r) \<Rightarrow>
      (case prepare_row S opts r of
         Inl e \<Rightarrow> (w, db, Inl e)
       | Inr _ \<Rightarrow>
       (case po_deliver opts (record_value (row_header (po_streamId opts) r) (or_mutation r)) (head_value (row_head (po_streamId opts) r)) w of
          (w1, Inl err) \<Rightarrow>
            if isTerminalTransportError err
            then (case quarantineAndHalt (po_streamId opts) token r ''reject-transport-terminal'' db of
                    Inl e \<Rightarrow> (w1, db, Inl e)
                  | Inr db1 \<Rightarrow> (w1, db1, Inr (n\<lparr>dr_quarantined := dr_quarantined n + 1, dr_halted := True\<rparr>)))
            else (w1, db, Inl ''transport failure'')
        | (w1, Inr raw) \<Rightarrow>
            let n1 = n\<lparr>dr_published := dr_published n + 1\<rparr> in
            (case accept_receipt opts r raw of
               Inl e \<Rightarrow> (w1, db, Inl e)
             | Inr receipt \<Rightarrow>
                 if ar_decision receipt \<in> set ACK_DECISIONS
                 then (case ack_row (po_streamId opts) token r db of
                         Inl e \<Rightarrow> (w1, db, Inl e)
                       | Inr db1 \<Rightarrow> publish_loop S opts token w1 db1 (n1\<lparr>dr_acked := dr_acked n1 + 1\<rparr>))
                 else if ar_decision receipt \<in> set TRANSIENT_DECISIONS then (w1, db, Inr (n1\<lparr>dr_retriable := True\<rparr>))
                 else (case quarantineAndHalt (po_streamId opts) token r (ar_decision receipt) db of
                         Inl e \<Rightarrow> (w1, db, Inl e)
                       | Inr db1 \<Rightarrow> (w1, db1, Inr (n1\<lparr>dr_quarantined := dr_quarantined n1 + 1, dr_halted := True\<rparr>)))))))"
  by pat_completeness auto

termination publish_loop
  by (relation "measure (\<lambda>(S, opts, token, w, db, n). length (filter (deliverable (po_streamId opts)) (ob_rows db)))")
    (auto dest: ack_row_decreases)

declare publish_loop.simps [simp del]

definition no_drain :: TskDrainResult where
  "no_drain = \<lparr>dr_published = 0, dr_acked = 0, dr_quarantined = 0, dr_retriable = False, dr_halted = False\<rparr>"

definition drainOnce ::
  "sha_fn \<Rightarrow> 'w publisher_options \<Rightarrow> string \<Rightarrow> int \<Rightarrow> 'w \<Rightarrow> 'a outbox_db \<Rightarrow> 'w \<times> 'a outbox_db \<times> TskDrainResult res" where
  "drainOnce S opts uuid now w db =
     (if isHalted (po_streamId opts) db then (w, db, Inr (no_drain\<lparr>dr_halted := True\<rparr>))
      else (case acquireLease (po_streamId opts) (po_leaseMs opts) uuid now db of
         (False, _) \<Rightarrow> (w, db, Inr (no_drain\<lparr>dr_retriable := True\<rparr>))
       | (True, db1) \<Rightarrow>
           (case publish_loop S opts uuid w db1 no_drain of
              (w1, db2, result) \<Rightarrow> (w1, releaseLease (po_streamId opts) uuid db2, result))))"


section \<open>Counters are consumed once\<close>

lemma consume_Inr:
  assumes "consume k c tab = Inr tab'"
  shows "map_of tab' = (map_of tab)(k \<mapsto> c)" "1 \<le> c" "case map_of tab k of None \<Rightarrow> True | Some lst \<Rightarrow> lst < c"
  using assms by (auto simp: consume_def counter_check_def split: if_splits option.splits)

lemma apply_record_Inr:
  assumes "apply_record opts r head db = Inr (d, db')"
  obtains app consumed applied cps where
    "d = Applied" "consume (oh_streamId (rec_header r), hm_tumblerId (rec_mutation r)) (hm_counter (rec_mutation r)) (ob_consumed db) = Inr consumed"
    "insert_applied (record_key r) (oh_opDigest (rec_header r)) (ob_applied db) = Inr applied"
    "update_checkpoint (oh_streamId (rec_header r)) (oh_sequence (rec_header r)) (sh_headDigest head) (ob_receiver db) = Inr cps"
    "db' = db\<lparr>ob_app := app, ob_consumed := consumed, ob_applied := applied, ob_receiver := cps\<rparr>"
  using assms by (auto simp: apply_record_def bind_res_Inr_iff)

lemma receive_verified_cases:
  assumes "receive_verified opts r head db = Inr (d, db')"
  obtains (unchanged) "db' = db" "d \<noteq> Applied"
  | (applied) cp where "map_of (ob_receiver db) (oh_streamId (rec_header r)) = Some cp" "oh_sourceEpoch (rec_header r) = tc_sourceEpoch cp"
      "oh_sequence (rec_header r) = tc_sequence cp + 1" "sh_prevHeadDigest head = head_of (tc_headDigest cp)"
      "apply_record opts r head db = Inr (d, db')" "d = Applied"
proof -
  have ap: "apply_record opts r head db = Inr (d, db') \<Longrightarrow> d = Applied" by (erule apply_record_Inr)
  show thesis
    using assms that ap
    by (auto simp: receive_verified_def bind_res_Inr_iff split: option.splits if_splits)
qed

lemma receive_cases:
  assumes "verifyAndApplyTumblerInTx S opts ru hu db = Inr (d, db')"
  obtains (unchanged) "db' = db" "d \<noteq> Applied"
  | (applied) r head cp where "snapshotRecord ru = Inr r" "snapshotHead hu = Inr head" "oh_streamId (rec_header r) = ro_streamId opts"
      "canonicalOpDigest S (record_input r) = Inr (oh_opDigest (rec_header r))" "assertStreamHeadBinds S (rec_header r) head = Inr ()"
      "ro_verify opts head = Head_verified"
      "map_of (ob_receiver db) (oh_streamId (rec_header r)) = Some cp" "oh_sourceEpoch (rec_header r) = tc_sourceEpoch cp"
      "oh_sequence (rec_header r) = tc_sequence cp + 1" "sh_prevHeadDigest head = head_of (tc_headDigest cp)"
      "apply_record opts r head db = Inr (Applied, db')" "d = Applied"
proof -
  from assms consider "db' = db" "d \<noteq> Applied"
    | r head where "snapshotRecord ru = Inr r" "snapshotHead hu = Inr head" "oh_streamId (rec_header r) = ro_streamId opts"
      "canonicalOpDigest S (record_input r) = Inr (oh_opDigest (rec_header r))" "assertStreamHeadBinds S (rec_header r) head = Inr ()"
      "ro_verify opts head = Head_verified" "receive_verified opts r head db = Inr (d, db')"
  proof -
    obtain r head where r: "snapshotRecord ru = Inr r" "snapshotHead hu = Inr head" "oh_streamId (rec_header r) = ro_streamId opts"
      using assms by (auto simp: verifyAndApplyTumblerInTx_def bind_res_Inr_iff)
    show thesis
      using assms r that
      by (cases "ro_assertSanitized opts (mutation_value (rec_mutation r))"; cases "assertStreamHeadBinds S (rec_header r) head";
          cases "ro_verify opts head") (auto simp: verifyAndApplyTumblerInTx_def bind_res_Inr_iff split: if_splits)
  qed
  then show thesis
  proof cases
    case 2
    from 2(7) show ?thesis
    proof (cases rule: receive_verified_cases)
      case (applied cp)
      with 2 show ?thesis by (auto intro: that(2))
    qed (rule that(1))
  qed (rule that(1))
qed

text \<open>Receivers on one database, each with its own options, given any records and heads.\<close>

type_synonym 'a delivery = "'a receiver_options \<times> js_value \<times> js_value"

definition hotp_exec :: "sha_fn \<Rightarrow> 'a delivery \<Rightarrow> 'a outbox_db \<Rightarrow> 'a outbox_db" where
  "hotp_exec S p db = (case p of (opts, ru, hu) \<Rightarrow> case verifyAndApplyTumblerInTx S opts ru hu db of Inr (_, db') \<Rightarrow> db' | Inl _ \<Rightarrow> db)"

definition hotp_consumed :: "sha_fn \<Rightarrow> 'a delivery \<Rightarrow> 'a outbox_db \<Rightarrow> ((string \<times> string) \<times> int) list" where
  "hotp_consumed S p db = (case p of (opts, ru, hu) \<Rightarrow>
     case (verifyAndApplyTumblerInTx S opts ru hu db, snapshotRecord ru) of
       (Inr (Applied, _), Inr r) \<Rightarrow> [((oh_streamId (rec_header r), hm_tumblerId (rec_mutation r)), hm_counter (rec_mutation r))]
     | _ \<Rightarrow> [])"

definition hotp_level :: "'a outbox_db \<Rightarrow> string \<times> string \<Rightarrow> int" where
  "hotp_level db k = (case map_of (ob_consumed db) k of None \<Rightarrow> 1 | Some c \<Rightarrow> c + 1)"

lemma hotp_step:
  "hotp_exec S p db = db \<and> hotp_consumed S p db = [] \<or>
   (\<exists>k c. hotp_consumed S p db = [(k, c)] \<and> hotp_level db k \<le> c \<and> hotp_level (hotp_exec S p db) = (hotp_level db)(k := c + 1))"
proof -
  obtain opts ru hu where p: "p = (opts, ru, hu)" using prod_cases3 by blast
  show ?thesis
  proof (cases "verifyAndApplyTumblerInTx S opts ru hu db")
    case (Inl e)
    then show ?thesis by (simp add: p hotp_exec_def hotp_consumed_def)
  next
    case (Inr x)
    obtain d db' where x: "x = (d, db')" by force
    from Inr [unfolded x] show ?thesis
    proof (cases rule: receive_cases)
      case unchanged
      then show ?thesis using Inr x by (cases d) (auto simp: p hotp_exec_def hotp_consumed_def)
    next
      case (applied r head cp)
      from applied(11) obtain app consumed tab cps where
        c: "consume (oh_streamId (rec_header r), hm_tumblerId (rec_mutation r)) (hm_counter (rec_mutation r)) (ob_consumed db) = Inr consumed"
        and db': "db' = db\<lparr>ob_app := app, ob_consumed := consumed, ob_applied := tab, ob_receiver := cps\<rparr>"
        by (rule apply_record_Inr)
      have e: "hotp_exec S p db = db'" "hotp_consumed S p db = [((oh_streamId (rec_header r), hm_tumblerId (rec_mutation r)), hm_counter (rec_mutation r))]"
        using Inr x applied(1,12) by (simp_all add: p hotp_exec_def hotp_consumed_def)
      show ?thesis
        unfolding e using consume_Inr [OF c] by (auto simp: db' hotp_level_def fun_eq_iff split: option.splits)
    qed
  qed
qed

interpretation hotp: counter_ledger "hotp_exec S" "hotp_consumed S" hotp_level "\<lambda>_. True"
  for S
proof
  fix db p k
  show "hotp_level db k \<le> hotp_level (hotp_exec S p db) k"
    using hotp_step [of S p db] by (auto simp: fun_upd_def)
next
  fix db p k c
  assume "(k, c) \<in> set (hotp_consumed S p db)"
  then show "hotp_level db k \<le> c \<and> c < hotp_level (hotp_exec S p db) k"
    using hotp_step [of S p db] by auto
next
  fix db p
  show "distinct (hotp_consumed S p db)" using hotp_step [of S p db] by auto
qed simp

text \<open>C17: A receiver consumes a counter once. Whatever records and heads are delivered, by whomever and in whatever
  order, forged, repeated or reordered, no (stream, tumbler, counter) triple is applied twice, whatever the
  tables held before.\<close>

theorem hotp_counter_applied_once:
  "distinct (concat (consumption (hotp_exec S) (hotp_consumed S) ps db))"
  by (rule hotp.consumed_once) simp


end
