(* ===== verification/Outbox_Stream.thy ===== *)
theory Outbox_Stream
  imports Hotp_Outbox
begin

text \<open>
  The outbox of one stream from end to end: the transactions of the source, those of the receiver, and a network
  that delivers what it likes, as step relations. The source keeps a signed, hash-linked log; a revoked lease
  freezes it; the receiver's history is always a prefix of it, and only what the receiver has applied is
  acknowledged.
\<close>

section \<open>The source\<close>

text \<open>The transactions on the database of the source: appends of writers, the steps of publishers, installations
  of leases. With \<open>fenced\<close> every writer has the gate, as the class \<^verbatim>\<open>PgTskDurableOutbox\<close> demands; \<open>R\<close> says of
  which rows publishers hold an accepted receipt that acknowledges them.\<close>

inductive source_step :: "sha_fn \<Rightarrow> ('m, 'p) ed25519 \<Rightarrow> bool \<Rightarrow> (string \<Rightarrow> outbox_row \<Rightarrow> bool) \<Rightarrow> 'a outbox_db \<Rightarrow> 'a outbox_db \<Rightarrow> bool"
  for S :: sha_fn and E :: "('m, 'p) ed25519" and fenced :: bool and R :: "string \<Rightarrow> outbox_row \<Rightarrow> bool" where
  append: "source_step S E fenced R db db'"
    if "withOutboxTx S E opts now' (appendInTx S E opts now stream m fence) db = Inr (out, db')" "fenced \<Longrightarrow> so_gate opts \<noteq> None"
| acquire: "source_step S E fenced R db (snd (acquireLease stream ms token now db))"
| release: "source_step S E fenced R db (releaseLease stream token db)"
| ack: "source_step S E fenced R db db'" if "ack_row stream token r db = Inr db'" "R stream r"
| quarantine: "source_step S E fenced R db db'" if "quarantineAndHalt stream token r decision db = Inr db'"
| install: "source_step S E fenced R db (db\<lparr>ob_lease := l\<rparr>)" if "installLeaseGrant S E resolver g (ob_lease db) = Inr (st, l)"

lemma append_Inr:
  assumes "appendInTx S E opts now s m fence db = Inr (out, db')"
  obtains cp m' opDigest head header cps where
    "s = so_streamId opts" "map_of (ob_fence db) s = Some fence" "source_gate_check S E opts fence now db = Inr ()"
    "map_of (ob_source db) s = Some cp"
    "canonicalOpDigest S \<lparr>oi_streamId = s, oi_sourceEpoch = tc_sourceEpoch cp, oi_sequence = tc_sequence cp + 1,
        oi_fenceToken = show_int fence, oi_mutation = mutation_value m'\<rparr> = Inr opDigest"
    "next_head S opts (tc_sequence cp + 1) (head_of (tc_headDigest cp)) opDigest = Inr head"
    "header = \<lparr>oh_contractVersion = ''1'', oh_streamId = s, oh_sourceEpoch = tc_sourceEpoch cp, oh_sequence = tc_sequence cp + 1,
        oh_fenceToken = show_int fence, oh_opDigest = opDigest\<rparr>"
    "insert_row (new_row header head fence m') db = Inr (db\<lparr>ob_rows := ob_rows db @ [new_row header head fence m']\<rparr>)"
    "update_checkpoint s (tc_sequence cp + 1) (sh_headDigest head) (ob_source db) = Inr cps"
    "db' = db\<lparr>ob_rows := ob_rows db @ [new_row header head fence m'], ob_source := cps\<rparr>"
proof -
  obtain fence' where f: "map_of (ob_fence db) s = Some fence'"
    using assms by (cases "map_of (ob_fence db) s") (simp_all add: appendInTx_def bind_res_Inr_iff)
  obtain cp where cp: "map_of (ob_source db) s = Some cp"
    using assms by (cases "map_of (ob_source db) s") (simp_all add: appendInTx_def bind_res_Inr_iff f)
  let ?header = "\<lambda>opDigest. \<lparr>oh_contractVersion = ''1'', oh_streamId = s, oh_sourceEpoch = tc_sourceEpoch cp, oh_sequence = tc_sequence cp + 1,
        oh_fenceToken = show_int fence, oh_opDigest = opDigest\<rparr>"
  have "0 \<le> fence" by (rule ccontr) (use assms in \<open>simp add: appendInTx_def bind_res_Inr_iff fenceTokenToDecimal_def\<close>)
  then have dec: "fenceTokenToDecimal fence = Inr (show_int fence)" by (simp add: fenceTokenToDecimal_def)
  have ins: "insert_row r db = Inr db1 \<Longrightarrow> db1 = db\<lparr>ob_rows := ob_rows db @ [r]\<rparr>" for r db1
    by (auto simp: insert_row_def split: if_splits)
  from assms obtain m' opDigest head db1 cps where x: "s = so_streamId opts" "fence = fence'" "\<exists>u. source_gate_check S E opts fence' now db = Inr u"
    "canonicalOpDigest S \<lparr>oi_streamId = s, oi_sourceEpoch = tc_sourceEpoch cp, oi_sequence = tc_sequence cp + 1,
        oi_fenceToken = show_int fence, oi_mutation = mutation_value m'\<rparr> = Inr opDigest"
    "next_head S opts (tc_sequence cp + 1) (head_of (tc_headDigest cp)) opDigest = Inr head"
    "insert_row (new_row (?header opDigest) head fence m') db = Inr db1"
    "update_checkpoint s (tc_sequence cp + 1) (sh_headDigest head) (ob_source db1) = Inr cps" "db' = db1\<lparr>ob_source := cps\<rparr>"
    unfolding appendInTx_def dec f cp bind_res_Inr_iff option.case Let_def require_Inr prod.inject sum.inject
    by auto
  show thesis
    by (rule that [OF x(1) _ _ cp x(4,5) refl _ _ ]) (use x f ins [OF x(6)] in simp_all)
qed

definition rows_of :: "string \<Rightarrow> 'a outbox_db \<Rightarrow> outbox_row list" where
  "rows_of s db = filter (\<lambda>r. or_streamId r = s) (ob_rows db)"

text \<open>A row without the marks the publisher sets.\<close>

definition bare_row :: "outbox_row \<Rightarrow> outbox_row" where
  "bare_row r = r\<lparr>or_published := False, or_acked := False, or_quarantined := False\<rparr>"

lemma bare_row_fields [simp]:
  "or_streamId (bare_row r) = or_streamId r" "or_sourceEpoch (bare_row r) = or_sourceEpoch r" "or_sequence (bare_row r) = or_sequence r"
  "or_fenceToken (bare_row r) = or_fenceToken r" "or_opDigest (bare_row r) = or_opDigest r" "or_tumblerId (bare_row r) = or_tumblerId r"
  "or_hotpCounter (bare_row r) = or_hotpCounter r" "or_mutation (bare_row r) = or_mutation r" "or_headPrev (bare_row r) = or_headPrev r"
  "or_headDigest (bare_row r) = or_headDigest r" "or_headKeyId (bare_row r) = or_headKeyId r" "or_headAlg (bare_row r) = or_headAlg r"
  "or_headSig (bare_row r) = or_headSig r" "row_key (bare_row r) = row_key r"
  by (simp_all add: bare_row_def row_key_def)

definition log_of :: "string \<Rightarrow> 'a outbox_db \<Rightarrow> outbox_row list" where
  "log_of s db = map bare_row (rows_of s db)"

lemma update_rows_log:
  assumes "update_rows P f label db = Inr db'" and "\<And>r. bare_row (f r) = bare_row r"
  shows "log_of s db' = log_of s db" "db' = db\<lparr>ob_rows := ob_rows db'\<rparr>"
proof -
  have e: "ob_rows db' = map (\<lambda>r. if P r then f r else r) (ob_rows db)" "db' = db\<lparr>ob_rows := ob_rows db'\<rparr>"
    using assms(1) by (auto simp: update_rows_def split: if_splits)
  have st: "or_streamId (f r) = or_streamId r" for r by (metis assms(2) bare_row_fields(1))
  have "map bare_row (filter (\<lambda>r. or_streamId r = s) (map (\<lambda>r. if P r then f r else r) xs)) = map bare_row (filter (\<lambda>r. or_streamId r = s) xs)" for xs
    by (induction xs) (simp_all add: st assms(2))
  then show "log_of s db' = log_of s db" using e(1) by (simp add: log_of_def rows_of_def)
  show "db' = db\<lparr>ob_rows := ob_rows db'\<rparr>" by (rule e(2))
qed

lemma ack_row_log:
  assumes "ack_row t token r db = Inr db'"
  shows "log_of s db' = log_of s db" "db' = db\<lparr>ob_rows := ob_rows db'\<rparr>"
proof -
  obtain P where u: "update_rows P (\<lambda>x. x\<lparr>or_published := True, or_acked := True\<rparr>) ''publisher ack'' db = Inr db'"
    using assms by (auto simp: ack_row_def split: if_splits)
  show "log_of s db' = log_of s db" "db' = db\<lparr>ob_rows := ob_rows db'\<rparr>" using update_rows_log [OF u] by (simp_all add: bare_row_def)
qed

lemma quarantine_log:
  assumes "quarantineAndHalt t token r decision db = Inr db'"
  shows "log_of s db' = log_of s db \<and> ob_source db' = ob_source db \<and> ob_fence db' = ob_fence db \<and> ob_lease db' = ob_lease db"
proof -
  let ?key = "(t, or_sourceEpoch r, or_sequence r)"
  obtain db1 db2 where q: "insert_quarantine ?key (or_opDigest r) decision db = Inr db1"
    and u: "update_rows (\<lambda>x. row_key x = ?key \<and> \<not> or_acked x \<and> \<not> or_quarantined x) (\<lambda>x. x\<lparr>or_quarantined := True\<rparr>) ''quarantine mark'' db1 = Inr db2"
    and db': "db' = insert_halted t ?key (or_opDigest r) decision db2"
    using assms by (auto simp: quarantineAndHalt_def bind_res_Inr_iff Let_def)
  have "\<exists>q. db1 = db\<lparr>ob_quarantine := q\<rparr>" using q by (auto simp: insert_quarantine_def split: option.splits if_splits intro: exI [of _ "ob_quarantine db"])
  moreover have "log_of s db2 = log_of s db1" "db2 = db1\<lparr>ob_rows := ob_rows db2\<rparr>"
    using update_rows_log [OF u] by (simp_all add: bare_row_def)
  moreover have "ob_source db2 = ob_source db1" "ob_fence db2 = ob_fence db1" "ob_lease db2 = ob_lease db1"
    by (subst \<open>db2 = db1\<lparr>ob_rows := ob_rows db2\<rparr>\<close>, simp)+
  ultimately show ?thesis unfolding db' by (auto simp: insert_halted_def log_of_def rows_of_def)
qed

text \<open>A step of the source appends one row to the log of a stream, or keeps the log and the checkpoint.\<close>

definition log_kept :: "string \<Rightarrow> 'a outbox_db \<Rightarrow> 'a outbox_db \<Rightarrow> bool" where
  "log_kept s db db' \<longleftrightarrow> log_of s db' = log_of s db \<and> map_of (ob_source db') s = map_of (ob_source db) s"

lemma withOutboxTx_Inr: "withOutboxTx S E opts now fn db = Inr (r, db') \<Longrightarrow> fn db = Inr (r, db')"
  by (auto simp: withOutboxTx_def bind_res_Inr_iff split: option.splits)

lemma append_other:
  assumes "appendInTx S E opts now t m fence db = Inr (out, db')" and "s \<noteq> t"
  shows "log_kept s db db'"
  using assms(1)
proof (rule append_Inr)
  fix cp m' opDigest head header cps
  assume "header = \<lparr>oh_contractVersion = ''1'', oh_streamId = t, oh_sourceEpoch = tc_sourceEpoch cp, oh_sequence = tc_sequence cp + 1,
        oh_fenceToken = show_int fence, oh_opDigest = opDigest\<rparr>"
    and "update_checkpoint t (tc_sequence cp + 1) (sh_headDigest head) (ob_source db) = Inr cps"
    and "db' = db\<lparr>ob_rows := ob_rows db @ [new_row header head fence m'], ob_source := cps\<rparr>"
  then show ?thesis
    using assms(2) by (auto simp: log_kept_def log_of_def rows_of_def new_row_def update_checkpoint_def Let_def split: option.splits if_splits)
qed

lemma source_step_cases:
  assumes "source_step S E fenced R db db'"
  obtains (kept) "log_kept s db db'"
  | (append) opts now m fence out where "appendInTx S E opts now s m fence db = Inr (out, db')" "fenced \<longrightarrow> so_gate opts \<noteq> None"
  using assms
proof cases
  case (append opts now' now t m fence out)
  show ?thesis
  proof (cases "t = s")
    case True
    show ?thesis by (rule that(2) [OF withOutboxTx_Inr [OF append(1) [unfolded True]]]) (use append(2) in blast)
  next
    case False
    show ?thesis by (rule that(1) [OF append_other [OF withOutboxTx_Inr [OF append(1)]]]) (use False in simp)
  qed
next
  case (ack t token r)
  have "ob_source db' = ob_source db" by (subst ack_row_log(2) [OF ack(1)]) simp
  then show ?thesis using ack_row_log(1) [OF ack(1)] that(1) by (simp add: log_kept_def)
next
  case (quarantine t token r decision)
  then show ?thesis using quarantine_log that(1) unfolding log_kept_def by metis
qed (auto intro!: that(1) simp: log_kept_def log_of_def rows_of_def acquireLease_def releaseLease_def Let_def split: option.splits prod.splits)

lemma source_step_lease:
  assumes "source_step S E fenced R db db'" and inv: "lease_inv (ob_lease db)"
  shows "lease_inv (ob_lease db') \<and> (\<exists>gs. history_of s (ob_lease db') = history_of s (ob_lease db) @ gs) \<and> ob_fence db' = ob_fence db"
  using assms(1)
proof cases
  case (append opts now' now t m fence out)
  from withOutboxTx_Inr [OF append(1)] show ?thesis
    by (rule append_Inr) (use inv in simp)
next
  case (ack t token r)
  have "ob_lease db' = ob_lease db" "ob_fence db' = ob_fence db" by (subst ack_row_log(2) [OF ack(1)], simp)+
  then show ?thesis using inv by simp
next
  case (quarantine t token r decision)
  then show ?thesis using quarantine_log [OF quarantine, of s] inv by simp
next
  case (install resolver g st l)
  then show ?thesis using install_inv [OF inv install(2)] by simp
qed (use inv in \<open>auto simp: acquireLease_def releaseLease_def Let_def split: option.splits prod.splits\<close>)

text \<open>C8: A revocation freezes the source. Once the lease history of a stream holds a revocation at the epoch of its
  fence or a later one, whatever writers, publishers and installers of further grants do, not one row is added to the log of
  the stream and its checkpoint stays what it was; every row keeps its content.\<close>

theorem revoked_source_is_frozen:
  assumes run: "(source_step S E True R)\<^sup>*\<^sup>* db db'" and inv: "lease_inv (ob_lease db)"
    and fence: "map_of (ob_fence db) s = Some epoch"
    and revoked: "r \<in> set (history_of s (ob_lease db))" "lg_leaseStatus r = ''revoked''" "epoch \<le> lg_leaseEpoch r"
  shows "log_of s db' = log_of s db \<and> map_of (ob_source db') s = map_of (ob_source db) s"
proof -
  have "log_kept s db db' \<and> lease_inv (ob_lease db') \<and> r \<in> set (history_of s (ob_lease db')) \<and> ob_fence db' = ob_fence db"
    using run
  proof (induction rule: rtranclp_induct)
    case base
    show ?case using inv revoked(1) by (simp add: log_kept_def)
  next
    case (step y z)
    have l: "lease_inv (ob_lease z) \<and> r \<in> set (history_of s (ob_lease z)) \<and> ob_fence z = ob_fence y"
      using source_step_lease [OF step(2), of s] step.IH by auto
    from step(2) have "log_kept s y z"
    proof (cases rule: source_step_cases [where s = s])
      case (append opts now m f out)
      obtain g where g: "so_gate opts = Some g" using append(2) by auto
      from append(1) have "s = so_streamId opts \<and> f = epoch \<and> source_gate_check S E opts f now y = Inr ()"
        by (rule append_Inr) (use step.IH fence in simp)
      moreover obtain e where "assertSourceLeaseWritable S E (sg_resolver g) s epoch (sg_skew g) (sg_bound g) now (ob_lease y) = Inl e"
        using revoked_epoch_stays_closed [OF _ _ revoked(2,3)] step.IH by blast
      ultimately show ?thesis using g by (auto simp: source_gate_check_def)
    qed
    with step.IH l show ?case by (simp add: log_kept_def)
  qed
  then show ?thesis by (simp add: log_kept_def)
qed


section \<open>A drain is a sequence of source steps\<close>

lemma publish_loop_steps:
  assumes "\<And>r raw receipt. accept_receipt opts r raw = Inr receipt \<Longrightarrow> ar_decision receipt \<in> set ACK_DECISIONS \<Longrightarrow> R (po_streamId opts) r"
    and "publish_loop S opts token w db n = (w', db', out)"
  shows "(source_step S E fenced R)\<^sup>*\<^sup>* db db'"
  using assms
proof (induction S opts token w db n arbitrary: w' db' out rule: publish_loop.induct)
  case (1 S opts token w db n)
  let ?s = "po_streamId opts"
  show ?case
  proof (cases "nextDeliverable ?s token db")
    case (Inr ro)
    show ?thesis
    proof (cases ro)
      case (Some r)
      show ?thesis
      proof (cases "prepare_row S opts r")
        case p: (Inr u)
        obtain w1 answer where d: "po_deliver opts (record_value (row_header ?s r) (or_mutation r)) (head_value (row_head ?s r)) w = (w1, answer)"
          by force
        show ?thesis
        proof (cases answer)
          case (Inl err)
          show ?thesis
            using "1.prems"(2) Inr Some p d Inl
            by (subst (asm) publish_loop.simps)
              (auto intro: source_step.quarantine split: if_splits sum.splits)
        next
          case a: (Inr raw)
          show ?thesis
          proof (cases "accept_receipt opts r raw")
            case (Inl e)
            then show ?thesis using "1.prems"(2) Inr Some p d a by (subst (asm) publish_loop.simps) auto
          next
            case rc: (Inr receipt)
            show ?thesis
            proof (cases "ar_decision receipt \<in> set ACK_DECISIONS")
              case True
              show ?thesis
              proof (cases "ack_row ?s token r db")
                case (Inl e)
                then show ?thesis using "1.prems"(2) Inr Some p d a rc True by (subst (asm) publish_loop.simps) (auto simp: Let_def)
              next
                case k: (Inr db1)
                obtain n' where rest: "publish_loop S opts token w1 db1 n' = (w', db', out)"
                  and n': "n' = n\<lparr>dr_published := dr_published n + 1, dr_acked := dr_acked n + 1\<rparr>"
                  using "1.prems"(2) Inr Some p d a rc True k by (subst (asm) publish_loop.simps) (auto simp: Let_def)
                have "source_step S E fenced R db db1"
                  by (rule source_step.ack [OF k]) (rule "1.prems"(1) [OF rc True])
                moreover have "(source_step S E fenced R)\<^sup>*\<^sup>* db1 db'"
                  using "1.IH" [OF Inr Some p d [symmetric] a refl rc True k] "1.prems"(1) rest n' by simp
                ultimately show ?thesis by (rule converse_rtranclp_into_rtranclp)
              qed
            next
              case False
              then show ?thesis
                using "1.prems"(2) Inr Some p d a rc
                by (subst (asm) publish_loop.simps)
                  (auto simp: Let_def intro: source_step.quarantine split: if_splits sum.splits)
            qed
          qed
        qed
      qed (use "1.prems"(2) Inr Some in \<open>subst (asm) publish_loop.simps, auto\<close>)
    qed (use "1.prems"(2) Inr in \<open>subst (asm) publish_loop.simps, auto\<close>)
  qed (use "1.prems"(2) in \<open>subst (asm) publish_loop.simps, auto\<close>)
qed

lemma drainOnce_steps:
  assumes "\<And>r raw receipt. accept_receipt opts r raw = Inr receipt \<Longrightarrow> ar_decision receipt \<in> set ACK_DECISIONS \<Longrightarrow> R (po_streamId opts) r"
    and d: "drainOnce S opts uuid now w db = (w', db', out)"
  shows "(source_step S E fenced R)\<^sup>*\<^sup>* db db'"
proof (cases "db' = db")
  case False
  then obtain db1 db2 where a: "acquireLease (po_streamId opts) (po_leaseMs opts) uuid now db = (True, db1)"
    and l: "publish_loop S opts uuid w db1 no_drain = (w', db2, out)" and db': "db' = releaseLease (po_streamId opts) uuid db2"
    using d by (auto simp: drainOnce_def split: if_splits prod.splits bool.splits)
  have "source_step S E fenced R db db1"
    using source_step.acquire [of S E fenced R db "po_streamId opts" "po_leaseMs opts" uuid now] a by simp
  also have "(source_step S E fenced R)\<^sup>*\<^sup>* db1 db2" by (rule publish_loop_steps [OF _ l]) (rule assms(1))
  also have "source_step S E fenced R db2 db'" unfolding db' by (rule source_step.release)
  finally show ?thesis by simp
qed simp


section \<open>Source and receiver\<close>

text \<open>The two databases, and the receipts the receiver has issued: record, digest, decision.\<close>

record ('a, 'b) stream_pair =
  sp_source :: "'a outbox_db"
  sp_receiver :: "'b outbox_db"
  sp_issued :: "(row_key \<times> string \<times> ReceiverDecision) list"

definition receipted :: "(row_key \<times> string \<times> ReceiverDecision) list \<Rightarrow> string \<Rightarrow> outbox_row \<Rightarrow> bool" where
  "receipted issued s r \<longleftrightarrow> (\<exists>d \<in> {Applied, Duplicate_ok}. ((s, or_sourceEpoch r, or_sequence r), or_opDigest r, d) \<in> set issued)"

definition row_input :: "string \<Rightarrow> outbox_row \<Rightarrow> op_input" where
  "row_input s r = \<lparr>oi_streamId = s, oi_sourceEpoch = or_sourceEpoch r, oi_sequence = or_sequence r,
     oi_fenceToken = show_int (or_fenceToken r), oi_mutation = or_mutation r\<rparr>"

definition collides :: "sha_fn \<Rightarrow> digest_input \<Rightarrow> digest_input \<Rightarrow> bool" where
  "collides S x y \<longleftrightarrow> \<not> same_input x y \<and> (\<exists>d. digest_of S x = Inr d \<and> digest_of S y = Inr d)"

text \<open>What the network cannot do: present a head that verifies although the source never committed its digest, or
  a record or head that collides with a stored one.\<close>

definition unforged :: "sha_fn \<Rightarrow> string \<Rightarrow> 'b receiver_options \<Rightarrow> 'a outbox_db \<Rightarrow> OutboxRecord \<Rightarrow> SignedStreamHead \<Rightarrow> bool" where
  "unforged S s ro src r h \<longleftrightarrow>
     (ro_verify ro h = Head_verified \<longrightarrow> sh_headDigest h \<in> or_headDigest ` set (rows_of s src)) \<and>
     (\<forall>x \<in> set (rows_of s src). \<not> collides S (Head_input h) (Head_input (row_head s x)) \<and>
        \<not> collides S (Op_input (record_input r)) (Op_input (row_input s x)))"

inductive stream_step :: "sha_fn \<Rightarrow> ('m, 'p) ed25519 \<Rightarrow> string \<Rightarrow> 'b receiver_options \<Rightarrow> ('a, 'b) stream_pair \<Rightarrow> ('a, 'b) stream_pair \<Rightarrow> bool"
  for S :: sha_fn and E :: "('m, 'p) ed25519" and s :: string and ro :: "'b receiver_options" where
  source: "stream_step S E s ro x (x\<lparr>sp_source := src\<rparr>)"
    if "source_step S E fenced (receipted (sp_issued x)) (sp_source x) src"
| deliver: "stream_step S E s ro x (x\<lparr>sp_receiver := rcv, sp_issued := (record_key r, oh_opDigest (rec_header r), d) # sp_issued x\<rparr>)"
    if "verifyAndApplyTumblerInTx S ro ru hu (sp_receiver x) = Inr (d, rcv)" "snapshotRecord ru = Inr r" "snapshotHead hu = Inr h"
      "unforged S s ro (sp_source x) r h"

definition fresh_stream :: "string \<Rightarrow> ('a, 'b) stream_pair \<Rightarrow> bool" where
  "fresh_stream s x \<longleftrightarrow>
     (\<exists>cp. map_of (ob_source (sp_source x)) s = Some cp \<and> tc_sequence cp = 0 \<and> tc_headDigest cp = []) \<and> rows_of s (sp_source x) = [] \<and>
     (\<exists>cp. map_of (ob_receiver (sp_receiver x)) s = Some cp \<and> tc_sequence cp = 0 \<and> tc_headDigest cp = []) \<and>
     filter (\<lambda>p. fst (fst p) = s) (ob_applied (sp_receiver x)) = [] \<and> (\<forall>t. map_of (ob_consumed (sp_receiver x)) (s, t) = None) \<and>
     sp_issued x = []"

section \<open>The log of the source\<close>

definition last_head :: "outbox_row list \<Rightarrow> string" where
  "last_head rs = (if rs = [] then GENESIS_HEAD else or_headDigest (last rs))"

definition log_entry :: "sha_fn \<Rightarrow> string \<Rightarrow> string \<Rightarrow> outbox_row \<Rightarrow> bool" where
  "log_entry S s ep r \<longleftrightarrow> or_streamId r = s \<and> or_sourceEpoch r = ep \<and> streamHeadDigest S (row_head s r) = Inr (or_headDigest r) \<and>
     canonicalOpDigest S (row_input s r) = Inr (or_opDigest r) \<and>
     or_mutation r = mutation_value \<lparr>hm_tumblerId = or_tumblerId r, hm_counter = or_hotpCounter r\<rparr>"

definition log_ok :: "sha_fn \<Rightarrow> string \<Rightarrow> string \<Rightarrow> outbox_row list \<Rightarrow> bool" where
  "log_ok S s ep rs \<longleftrightarrow> (\<forall>i < length rs. or_sequence (rs ! i) = int i + 1 \<and> or_headPrev (rs ! i) = last_head (take i rs) \<and> log_entry S s ep (rs ! i))"

lemma log_ok_append: "log_ok S s ep rs \<Longrightarrow> or_sequence r = int (length rs) + 1 \<Longrightarrow> or_headPrev r = last_head rs \<Longrightarrow> log_entry S s ep r \<Longrightarrow> log_ok S s ep (rs @ [r])"
  by (auto simp: log_ok_def nth_append less_Suc_eq)

definition source_inv :: "sha_fn \<Rightarrow> string \<Rightarrow> 'a outbox_db \<Rightarrow> bool" where
  "source_inv S s db \<longleftrightarrow> (\<exists>cp. map_of (ob_source db) s = Some cp \<and> log_ok S s (tc_sourceEpoch cp) (log_of s db) \<and>
     tc_sequence cp = int (length (log_of s db)) \<and> head_of (tc_headDigest cp) = last_head (log_of s db))"

lemma head_fields_digest [simp]: "head_fields (h\<lparr>sh_headDigest := d, sh_signature := sig\<rparr>) = head_fields h"
  by (simp add: head_fields_def)

lemma next_head_Inr:
  assumes "next_head S opts n prev opDigest = Inr h"
  shows "streamHeadDigest S h = Inr (sh_headDigest h)" "sh_streamId h = so_streamId opts" "sh_sequence h = n" "sh_prevHeadDigest h = prev"
    "sh_opDigest h = opDigest" "sh_headDigest h \<noteq> []"
proof -
  obtain d sig where h: "streamHeadDigest S \<lparr>sh_streamId = so_streamId opts, sh_sequence = n, sh_prevHeadDigest = prev, sh_opDigest = opDigest,
        sh_keyId = so_keyId opts, sh_alg = so_alg opts, sh_headDigest = [], sh_signature = []\<rparr> = Inr d"
    "h = \<lparr>sh_streamId = so_streamId opts, sh_sequence = n, sh_prevHeadDigest = prev, sh_opDigest = opDigest,
        sh_keyId = so_keyId opts, sh_alg = so_alg opts, sh_headDigest = d, sh_signature = sig\<rparr>"
    using assms by (auto simp: next_head_def Let_def bind_res_Inr_iff)
  have "length d = 64" using h(1) by (auto simp: streamHeadDigest_def bind_res_Inr_iff framed_digest_Inr)
  then show "sh_headDigest h \<noteq> []" using h(2) by auto
  show "streamHeadDigest S h = Inr (sh_headDigest h)" using h by (simp add: streamHeadDigest_def head_fields_def)
qed (use assms in \<open>auto simp: next_head_def Let_def bind_res_Inr_iff\<close>)

lemma append_source_inv:
  assumes inv: "source_inv S s db" and a: "appendInTx S E opts now s m fence db = Inr (out, db')"
  shows "source_inv S s db' \<and> (\<exists>r. log_of s db' = log_of s db @ [r] \<and> rows_of s db' = rows_of s db @ [r] \<and> \<not> or_acked r)"
  using a
proof (rule append_Inr)
  fix cp m' opDigest head header cps
  assume s: "s = so_streamId opts" and cp: "map_of (ob_source db) s = Some cp"
    and op: "canonicalOpDigest S \<lparr>oi_streamId = s, oi_sourceEpoch = tc_sourceEpoch cp, oi_sequence = tc_sequence cp + 1,
        oi_fenceToken = show_int fence, oi_mutation = mutation_value m'\<rparr> = Inr opDigest"
    and hd: "next_head S opts (tc_sequence cp + 1) (head_of (tc_headDigest cp)) opDigest = Inr head"
    and header: "header = \<lparr>oh_contractVersion = ''1'', oh_streamId = s, oh_sourceEpoch = tc_sourceEpoch cp, oh_sequence = tc_sequence cp + 1,
        oh_fenceToken = show_int fence, oh_opDigest = opDigest\<rparr>"
    and up: "update_checkpoint s (tc_sequence cp + 1) (sh_headDigest head) (ob_source db) = Inr cps"
    and db': "db' = db\<lparr>ob_rows := ob_rows db @ [new_row header head fence m'], ob_source := cps\<rparr>"
  let ?r = "new_row header head fence m'"
  note h = next_head_Inr [OF hd]
  have r: "bare_row ?r = ?r" "or_streamId ?r = s" by (simp_all add: new_row_def bare_row_def header)
  then have L: "log_of s db' = log_of s db @ [?r]" "rows_of s db' = rows_of s db @ [?r]" by (simp_all add: log_of_def rows_of_def db')
  have i: "log_ok S s (tc_sourceEpoch cp) (log_of s db)" "tc_sequence cp = int (length (log_of s db))" "head_of (tc_headDigest cp) = last_head (log_of s db)"
    using inv cp by (auto simp: source_inv_def)
  have "row_head s ?r = head" using h s by (simp add: row_head_def new_row_def header)
  then have e: "log_entry S s (tc_sourceEpoch cp) ?r" using op h by (simp add: log_entry_def row_input_def new_row_def header) (simp add: mutation_value_def)
  have "log_ok S s (tc_sourceEpoch cp) (log_of s db @ [?r])"
    by (rule log_ok_append [OF i(1) _ _ e]) (use i(2,3) h in \<open>simp_all add: new_row_def header\<close>)
  moreover have "map_of cps s = Some (cp\<lparr>tc_sequence := tc_sequence cp + 1, tc_headDigest := sh_headDigest head\<rparr>)"
    using up cp by (auto simp: update_checkpoint_def Let_def split: if_splits)
  ultimately have "source_inv S s db'"
    unfolding source_inv_def using L i(2) h(6) by (auto simp: db' last_head_def head_of_def new_row_def)
  then show ?thesis using L by (auto simp: new_row_def)
qed

lemma fresh_source_inv: "fresh_stream s x \<Longrightarrow> source_inv S s (sp_source x)"
  by (auto simp: fresh_stream_def source_inv_def log_of_def log_ok_def last_head_def head_of_def)

lemma source_step_inv:
  assumes "source_step S E fenced R db db'" and inv: "source_inv S s db"
  shows "source_inv S s db' \<and> (\<exists>rs. log_of s db' = log_of s db @ rs)"
  using assms(1)
proof (cases rule: source_step_cases [where s = s])
  case kept
  then show ?thesis using inv by (simp add: log_kept_def source_inv_def)
next
  case append
  from append_source_inv [OF inv append(1)] show ?thesis by auto
qed


section \<open>The receiver follows the log\<close>

text \<open>The counter a log leaves for a tumbler.\<close>

definition counter_at :: "string \<Rightarrow> outbox_row list \<Rightarrow> int option" where
  "counter_at t rs = fold (\<lambda>r c. if or_tumblerId r = t then Some (or_hotpCounter r) else c) rs None"

definition follows :: "string \<Rightarrow> nat \<Rightarrow> outbox_row list \<Rightarrow> 'b outbox_db \<Rightarrow> bool" where
  "follows s n rs db \<longleftrightarrow> n \<le> length rs \<and>
     (\<exists>cp. map_of (ob_receiver db) s = Some cp \<and> tc_sequence cp = int n \<and> head_of (tc_headDigest cp) = last_head (take n rs)) \<and>
     filter (\<lambda>p. fst (fst p) = s) (ob_applied db) = map (\<lambda>r. (row_key r, or_opDigest r)) (take n rs) \<and>
     (\<forall>t. map_of (ob_consumed db) (s, t) = counter_at t (take n rs))"

definition stream_inv :: "sha_fn \<Rightarrow> string \<Rightarrow> ('a, 'b) stream_pair \<Rightarrow> bool" where
  "stream_inv S s x \<longleftrightarrow> source_inv S s (sp_source x) \<and> (\<exists>n. follows s n (log_of s (sp_source x)) (sp_receiver x)) \<and>
     (\<forall>(k, d, dec) \<in> set (sp_issued x). dec \<in> {Applied, Duplicate_ok} \<longrightarrow> (k, d) \<in> set (ob_applied (sp_receiver x))) \<and>
     (\<forall>r \<in> set (rows_of s (sp_source x)). or_acked r \<longrightarrow> (row_key r, or_opDigest r) \<in> set (ob_applied (sp_receiver x)))"

lemma mutation_content:
  assumes "content (plain_data (mutation_value m)) = content (plain_data (mutation_value m'))"
  shows "m = m'"
  using assms by (simp add: mutation_value_def js_item_def)

lemma binds_digest: "assertStreamHeadBinds S header h = Inr () \<Longrightarrow> streamHeadDigest S h = Inr (sh_headDigest h) \<and> sh_sequence h = oh_sequence header \<and> sh_opDigest h = oh_opDigest header"
  by (auto simp: assertStreamHeadBinds_def bind_res_Inr_iff)

lemma not_collides:
  assumes "\<not> collides S x y" and "digest_of S x = Inr d" and "digest_of S y = Inr d"
  shows "same_input x y"
  using assms by (auto simp: collides_def)

text \<open>A record that passes the receiver is the row of the log at its sequence.\<close>

lemma delivered_row:
  assumes log: "log_ok S s ep (log_of s src)" and un: "unforged S s ro src r h" and v: "ro_verify ro h = Head_verified"
    and op: "canonicalOpDigest S (record_input r) = Inr (oh_opDigest (rec_header r))"
    and b: "assertStreamHeadBinds S (rec_header r) h = Inr ()" and sq: "oh_sequence (rec_header r) = int n + 1"
    and st: "oh_streamId (rec_header r) = s"
  obtains x where "n < length (log_of s src)" "x = log_of s src ! n" "sh_headDigest h = or_headDigest x"
    "oh_opDigest (rec_header r) = or_opDigest x" "record_key r = row_key x"
    "rec_mutation r = \<lparr>hm_tumblerId = or_tumblerId x, hm_counter = or_hotpCounter x\<rparr>"
proof -
  obtain y where y: "y \<in> set (rows_of s src)" "sh_headDigest h = or_headDigest y"
    using un v by (auto simp: unforged_def)
  define x where "x = bare_row y"
  have x: "x \<in> set (log_of s src)" "row_head s x = row_head s y" "row_input s x = row_input s y"
    using y by (auto simp: x_def log_of_def row_head_def row_input_def)
  then obtain i where i: "i < length (log_of s src)" "log_of s src ! i = x" by (auto simp: in_set_conv_nth)
  have e: "log_entry S s ep x" "or_sequence x = int i + 1" using log i by (auto simp: log_ok_def)
  have hx: "or_headDigest x = or_headDigest y" by (simp add: x_def)
  have "same_input (Head_input h) (Head_input (row_head s x))"
    by (rule not_collides [of S]) (use un y e(1) binds_digest [OF b] hx in \<open>auto simp: unforged_def log_entry_def x(2)\<close>)
  then have hd: "or_sequence x = int n + 1" "oh_opDigest (rec_header r) = or_opDigest x"
    using binds_digest [OF b] sq by (simp_all add: row_head_def)
  have "same_input (Op_input (record_input r)) (Op_input (row_input s x))"
    by (rule not_collides [of S]) (use un y e(1) op hd(2) in \<open>auto simp: unforged_def log_entry_def x(3)\<close>)
  then have "oh_sourceEpoch (rec_header r) = or_sourceEpoch x" "content (plain_data (mutation_value (rec_mutation r))) = content (plain_data (or_mutation x))"
    by (simp_all add: record_input_def row_input_def)
  moreover have "or_streamId x = s" "or_mutation x = mutation_value \<lparr>hm_tumblerId = or_tumblerId x, hm_counter = or_hotpCounter x\<rparr>"
    using e(1) by (auto simp: log_entry_def)
  ultimately show thesis
    using that [of x] i e(2) hd sq st y(2) hx mutation_content
    by (auto simp: record_key_def row_key_def)
qed


lemma duplicate_ok_applied:
  assumes "verifyAndApplyTumblerInTx S ro ru hu db = Inr (Duplicate_ok, db')" and "snapshotRecord ru = Inr r"
  shows "map_of (ob_applied db) (record_key r) = Some (oh_opDigest (rec_header r))"
proof -
  obtain h where h: "snapshotHead hu = Inr h" using assms by (auto simp: verifyAndApplyTumblerInTx_def bind_res_Inr_iff)
  have "receive_verified ro r h db = Inr (Duplicate_ok, db')"
    using assms h
    by (cases "ro_assertSanitized ro (mutation_value (rec_mutation r))"; cases "assertStreamHeadBinds S (rec_header r) h"; cases "ro_verify ro h")
      (auto simp: verifyAndApplyTumblerInTx_def bind_res_Inr_iff split: if_splits)
  moreover have "apply_record ro r h db \<noteq> Inr (Duplicate_ok, db')" by (auto elim: apply_record_Inr)
  ultimately show ?thesis
    by (auto simp: receive_verified_def bind_res_Inr_iff split: option.splits if_splits)
qed

lemma follows_apply:
  assumes f: "follows s n rs db" and n: "n < length rs" and a: "apply_record ro r h db = Inr (Applied, db')"
    and row: "sh_headDigest h = or_headDigest (rs ! n)" "oh_opDigest (rec_header r) = or_opDigest (rs ! n)" "record_key r = row_key (rs ! n)"
      "rec_mutation r = \<lparr>hm_tumblerId = or_tumblerId (rs ! n), hm_counter = or_hotpCounter (rs ! n)\<rparr>"
    and ne: "or_headDigest (rs ! n) \<noteq> []" and st: "oh_streamId (rec_header r) = s" and sq: "oh_sequence (rec_header r) = int n + 1"
  shows "follows s (Suc n) rs db'"
proof -
  from a obtain app consumed applied cps where
    c': "consume (oh_streamId (rec_header r), hm_tumblerId (rec_mutation r)) (hm_counter (rec_mutation r)) (ob_consumed db) = Inr consumed"
    and ap': "insert_applied (record_key r) (oh_opDigest (rec_header r)) (ob_applied db) = Inr applied"
    and u': "update_checkpoint (oh_streamId (rec_header r)) (oh_sequence (rec_header r)) (sh_headDigest h) (ob_receiver db) = Inr cps"
    and db': "db' = db\<lparr>ob_app := app, ob_consumed := consumed, ob_applied := applied, ob_receiver := cps\<rparr>"
    by (rule apply_record_Inr)
  have c: "consume (s, or_tumblerId (rs ! n)) (or_hotpCounter (rs ! n)) (ob_consumed db) = Inr consumed"
    using c' by (simp add: row(4) st)
  note ap = ap' [unfolded row(2)] and u = u' [unfolded st sq row(1)]
  have t: "take (Suc n) rs = take n rs @ [rs ! n]" by (rule take_Suc_conv_app_nth [OF n])
  have "applied = ob_applied db @ [(row_key (rs ! n), or_opDigest (rs ! n))]"
    using ap row(3) by (auto simp: insert_applied_def split: if_splits prod.splits)
  moreover have "fst (row_key (rs ! n)) = s" using row(3) [symmetric] st by (simp add: record_key_def)
  moreover have "\<exists>cp. map_of cps s = Some cp \<and> tc_sequence cp = int (Suc n) \<and> head_of (tc_headDigest cp) = or_headDigest (rs ! n)"
    using u ne by (auto simp: update_checkpoint_def Let_def head_of_def split: option.splits if_splits)
  ultimately show ?thesis
    using f n unfolding follows_def t
    by (auto simp: db' consume_Inr(1) [OF c] counter_at_def last_head_def)
qed

lemma deliver_inv:
  assumes inv: "stream_inv S s x" and st: "ro_streamId ro = s"
    and v: "verifyAndApplyTumblerInTx S ro ru hu (sp_receiver x) = Inr (d, rcv)" and sn: "snapshotRecord ru = Inr r" "snapshotHead hu = Inr h"
    and un: "unforged S s ro (sp_source x) r h"
  shows "stream_inv S s (x\<lparr>sp_receiver := rcv, sp_issued := (record_key r, oh_opDigest (rec_header r), d) # sp_issued x\<rparr>)"
proof -
  obtain n where f: "follows s n (log_of s (sp_source x)) (sp_receiver x)" using inv by (auto simp: stream_inv_def)
  have "(\<exists>n. follows s n (log_of s (sp_source x)) rcv) \<and> set (ob_applied (sp_receiver x)) \<subseteq> set (ob_applied rcv) \<and>
      (d \<in> {Applied, Duplicate_ok} \<longrightarrow> (record_key r, oh_opDigest (rec_header r)) \<in> set (ob_applied rcv))"
    using v
  proof (cases rule: receive_cases)
    case unchanged
    have "d = Duplicate_ok \<Longrightarrow> map_of (ob_applied (sp_receiver x)) (record_key r) = Some (oh_opDigest (rec_header r))"
      by (rule duplicate_ok_applied [OF _ sn(1)]) (use v in simp)
    then show ?thesis using f unchanged by (auto dest: map_of_SomeD)
  next
    case (applied r' h' cp)
    have r': "r' = r" "h' = h" using applied(1,2) sn by simp_all
    obtain ep where log: "log_ok S s ep (log_of s (sp_source x))" using inv by (auto simp: stream_inv_def source_inv_def)
    have sq: "oh_sequence (rec_header r) = int n + 1" using applied(3,7,9) f st r' by (auto simp: follows_def)
    obtain y where y: "n < length (log_of s (sp_source x))" "y = log_of s (sp_source x) ! n" "sh_headDigest h = or_headDigest y"
      "oh_opDigest (rec_header r) = or_opDigest y" "record_key r = row_key y"
      "rec_mutation r = \<lparr>hm_tumblerId = or_tumblerId y, hm_counter = or_hotpCounter y\<rparr>"
      by (rule delivered_row [OF log un _ _ _ sq]) (use applied r' st in auto)
    have "streamHeadDigest S (row_head s y) = Inr (or_headDigest y)" using log y(1,2) by (auto simp: log_ok_def log_entry_def)
    then have "or_headDigest y \<noteq> []" by (auto simp: streamHeadDigest_def bind_res_Inr_iff framed_digest_Inr dest: arg_cong [where f = length])
    then have "follows s (Suc n) (log_of s (sp_source x)) rcv"
      using follows_apply [OF f y(1) applied(11) [unfolded r']] y applied(3) r' st sq by simp
    moreover have "set (ob_applied rcv) = insert (record_key r, oh_opDigest (rec_header r)) (set (ob_applied (sp_receiver x)))"
      using applied(11) r' by (auto elim!: apply_record_Inr simp: insert_applied_def split: if_splits prod.splits)
    ultimately show ?thesis by auto
  qed
  then show ?thesis using inv by (auto simp: stream_inv_def)
qed


text \<open>Which rows of a stream a step of the source acknowledges.\<close>

lemma update_rows_acked:
  assumes "update_rows P f label db = Inr db'" and "\<And>r. bare_row (f r) = bare_row r" and "x \<in> set (rows_of s db')" "or_acked x"
  shows "(\<exists>y \<in> set (rows_of s db). bare_row y = bare_row x \<and> (or_acked y \<or> P y \<and> or_acked (f y)))"
proof -
  have rows: "ob_rows db' = map (\<lambda>r. if P r then f r else r) (ob_rows db)" using assms(1) by (auto simp: update_rows_def split: if_splits)
  then obtain y where y: "y \<in> set (ob_rows db)" "x = (if P y then f y else y)" "or_streamId x = s"
    using assms(3) by (auto simp: rows_of_def)
  have b: "bare_row y = bare_row x" using y(2) assms(2) by simp
  then have "or_streamId y = s" using y(3) by (metis bare_row_fields(1))
  then have "y \<in> set (rows_of s db)" using y(1) by (simp add: rows_of_def)
  moreover have "or_acked y \<or> P y \<and> or_acked (f y)" using y(2) assms(4) by (cases "P y") simp_all
  ultimately show ?thesis using b by blast
qed

lemma source_step_acked:
  assumes "source_step S E fenced R db db'" and x: "x \<in> set (rows_of s db')" "or_acked x"
  shows "(\<exists>y \<in> set (rows_of s db). bare_row y = bare_row x \<and> or_acked y) \<or>
    (\<exists>r. R s r \<and> row_key x = (s, or_sourceEpoch r, or_sequence r) \<and> or_opDigest x = or_opDigest r)"
  using assms(1)
proof cases
  case (append opts now' now t m fence out)
  from withOutboxTx_Inr [OF append(1)] show ?thesis
  proof (rule append_Inr)
    fix cp m' opDigest head header cps
    assume db': "db' = db\<lparr>ob_rows := ob_rows db @ [new_row header head fence m'], ob_source := cps\<rparr>"
    have "\<not> or_acked (new_row header head fence m')" by (simp add: new_row_def)
    with x(2) have "x \<noteq> new_row header head fence m'" by blast
    with x(1) have "x \<in> set (rows_of s db)" by (auto simp: db' rows_of_def split: if_splits)
    with x(2) show ?thesis by blast
  qed
next
  case (ack t token r)
  let ?P = "\<lambda>y. row_key y = (t, or_sourceEpoch r, or_sequence r) \<and> \<not> or_acked y \<and> \<not> or_quarantined y \<and> or_opDigest y = or_opDigest r"
  have "update_rows ?P (\<lambda>x. x\<lparr>or_published := True, or_acked := True\<rparr>) ''publisher ack'' db = Inr db'"
    using ack(1) by (auto simp: ack_row_def split: if_splits)
  from update_rows_acked [OF this _ x] obtain y where y: "y \<in> set (rows_of s db)" "bare_row y = bare_row x" "or_acked y \<or> ?P y"
    by (auto simp: bare_row_def)
  have k: "row_key x = row_key y" "or_opDigest x = or_opDigest y" using y(2) by (metis bare_row_fields(14), metis bare_row_fields(5))
  show ?thesis
  proof (cases "or_acked y")
    case False
    then have "t = s" using y(1,3) by (auto simp: rows_of_def row_key_def)
    then show ?thesis using False y(3) k ack(2) by auto
  qed (use y in blast)
next
  case (quarantine t token r decision)
  let ?key = "(t, or_sourceEpoch r, or_sequence r)"
  obtain db1 db2 where q: "insert_quarantine ?key (or_opDigest r) decision db = Inr db1"
    and u: "update_rows (\<lambda>x. row_key x = ?key \<and> \<not> or_acked x \<and> \<not> or_quarantined x) (\<lambda>x. x\<lparr>or_quarantined := True\<rparr>) ''quarantine mark'' db1 = Inr db2"
    and db': "db' = insert_halted t ?key (or_opDigest r) decision db2"
    using quarantine by (auto simp: quarantineAndHalt_def bind_res_Inr_iff Let_def)
  have "x \<in> set (rows_of s db2)" using x(1) db' by (auto simp: insert_halted_def rows_of_def split: if_splits)
  from update_rows_acked [OF u _ this x(2)] obtain y where "y \<in> set (rows_of s db1)" "bare_row y = bare_row x" "or_acked y"
    by (auto simp: bare_row_def)
  moreover have "rows_of s db1 = rows_of s db" using q by (auto simp: insert_quarantine_def rows_of_def split: option.splits if_splits)
  ultimately show ?thesis by auto
next
  case (acquire t ms token now)
  then have "ob_rows db' = ob_rows db" by (simp add: acquireLease_def Let_def split: option.splits prod.splits)
  with x show ?thesis unfolding rows_of_def by auto
next
  case (release t token)
  then have "ob_rows db' = ob_rows db" by (simp add: releaseLease_def)
  with x show ?thesis unfolding rows_of_def by auto
next
  case (install resolver g st l)
  then have "ob_rows db' = ob_rows db" by simp
  with x show ?thesis unfolding rows_of_def by auto
qed

lemma stream_step_inv:
  assumes "stream_step S E s ro x y" and inv: "stream_inv S s x" and st: "ro_streamId ro = s"
  shows "stream_inv S s y"
  using assms(1)
proof cases
  case (source fenced src)
  have i: "source_inv S s src" "\<exists>rs. log_of s src = log_of s (sp_source x) @ rs"
    using source_step_inv [OF source(2)] inv by (auto simp: stream_inv_def)
  obtain n where "follows s n (log_of s (sp_source x)) (sp_receiver x)" using inv by (auto simp: stream_inv_def)
  then have f: "follows s n (log_of s src) (sp_receiver x)" using i(2) by (auto simp: follows_def)
  have "(row_key r, or_opDigest r) \<in> set (ob_applied (sp_receiver x))" if r: "r \<in> set (rows_of s src)" "or_acked r" for r
    using source_step_acked [OF source(2) r]
  proof
    assume "\<exists>y \<in> set (rows_of s (sp_source x)). bare_row y = bare_row r \<and> or_acked y"
    then obtain y where "y \<in> set (rows_of s (sp_source x))" "bare_row y = bare_row r" "or_acked y" by blast
    moreover from this have "row_key r = row_key y" "or_opDigest r = or_opDigest y" by (metis bare_row_fields(14), metis bare_row_fields(5))
    ultimately show ?thesis using inv by (auto simp: stream_inv_def)
  next
    assume "\<exists>q. receipted (sp_issued x) s q \<and> row_key r = (s, or_sourceEpoch q, or_sequence q) \<and> or_opDigest r = or_opDigest q"
    then obtain q where q: "receipted (sp_issued x) s q" "row_key r = (s, or_sourceEpoch q, or_sequence q)" "or_opDigest r = or_opDigest q" by blast
    then obtain d where "d \<in> {Applied, Duplicate_ok}" "(row_key r, or_opDigest r, d) \<in> set (sp_issued x)"
      unfolding receipted_def q(2,3) by blast
    then show ?thesis using inv by (fastforce simp: stream_inv_def)
  qed
  then show ?thesis using i(1) f inv source(1) by (auto simp: stream_inv_def)
next
  case (deliver ru hu d rcv r h)
  then show ?thesis using deliver_inv [OF inv st] by simp
qed

lemma fresh_stream_inv: "fresh_stream s x \<Longrightarrow> stream_inv S s x"
  using fresh_source_inv [of s x S]
  by (auto simp: stream_inv_def fresh_stream_def follows_def log_of_def last_head_def head_of_def counter_at_def intro!: exI [of _ 0])

lemma stream_reach_inv:
  assumes "(stream_step S E s ro)\<^sup>*\<^sup>* x y" and "fresh_stream s x" and "ro_streamId ro = s"
  shows "stream_inv S s y"
  using assms(1)
proof (induction rule: rtranclp_induct)
  case base
  show ?case using assms(2) by (rule fresh_stream_inv)
next
  case (step y z)
  from step(2,3) assms(3) show ?case by (rule stream_step_inv)
qed

text \<open>C7: The receiver holds a prefix of the source. Start a stream on empty tables, let writers, publishers and lease
  installers work on the source in any interleaving, and let the network deliver any records and heads to
  the receiver, as long as it forges no signature and finds no hash collision with a stored row. Then the
  receiver's history is exactly the first rows of the log, its counters are those these rows leave, its
  checkpoint is their number, and every row acknowledged at the source is among them.\<close>

theorem receiver_is_prefix_of_source:
  assumes run: "(stream_step S E s ro)\<^sup>*\<^sup>* x y" and fresh: "fresh_stream s x" and st: "ro_streamId ro = s"
  shows "\<exists>n cp. n \<le> length (log_of s (sp_source y)) \<and> map_of (ob_receiver (sp_receiver y)) s = Some cp \<and> tc_sequence cp = int n \<and>
    filter (\<lambda>p. fst (fst p) = s) (ob_applied (sp_receiver y)) = map (\<lambda>r. (row_key r, or_opDigest r)) (take n (log_of s (sp_source y))) \<and>
    (\<forall>t. map_of (ob_consumed (sp_receiver y)) (s, t) = counter_at t (take n (log_of s (sp_source y)))) \<and>
    (\<forall>r \<in> set (rows_of s (sp_source y)). or_acked r \<longrightarrow> or_sequence r \<le> int n)"
proof -
  have inv: "stream_inv S s y" by (rule stream_reach_inv [OF run fresh st])
  then obtain n where f: "follows s n (log_of s (sp_source y)) (sp_receiver y)" by (auto simp: stream_inv_def)
  obtain ep where log: "log_ok S s ep (log_of s (sp_source y))" using inv by (auto simp: stream_inv_def source_inv_def)
  have "or_sequence r \<le> int n" if r: "r \<in> set (rows_of s (sp_source y))" "or_acked r" for r
  proof -
    have "(row_key r, or_opDigest r) \<in> set (filter (\<lambda>p. fst (fst p) = s) (ob_applied (sp_receiver y)))"
      using inv r by (auto simp: stream_inv_def row_key_def rows_of_def)
    moreover have "filter (\<lambda>p. fst (fst p) = s) (ob_applied (sp_receiver y)) = map (\<lambda>r. (row_key r, or_opDigest r)) (take n (log_of s (sp_source y)))"
      using f by (simp add: follows_def)
    ultimately have "(row_key r, or_opDigest r) \<in> set (map (\<lambda>r. (row_key r, or_opDigest r)) (take n (log_of s (sp_source y))))"
      by (simp only:)
    then obtain i where "i < n" "i < length (log_of s (sp_source y))" "row_key r = row_key (log_of s (sp_source y) ! i)"
      by (auto simp: in_set_conv_nth)
    then show ?thesis using log by (auto simp: log_ok_def row_key_def)
  qed
  with f show ?thesis by (auto simp: follows_def)
qed


section \<open>Witnesses\<close>

definition empty_outbox :: "unit outbox_db" where
  "empty_outbox = \<lparr>ob_fence = [(''s'', 1)], ob_source = [], ob_receiver = [], ob_rows = [], ob_publisher = [], ob_quarantine = [],
     ob_applied = [], ob_consumed = [], ob_halted = [], ob_lease = empty_lease_db, ob_app = ()\<rparr>"

definition start_checkpoint :: tsk_checkpoint where
  "start_checkpoint = \<lparr>tc_sourceEpoch = ''e1'', tc_epochIndex = 0, tc_sequence = 0, tc_headDigest = []\<rparr>"

definition revoked_db :: "unit outbox_db" where
  "revoked_db = empty_outbox\<lparr>ob_source := [(''s'', start_checkpoint)],
     ob_lease := fold (lease_exec zero_sha example_ed25519) [(example_resolver, example_lease_grant ''revoked'')] empty_lease_db\<rparr>"

theorem revoked_source_is_frozen_witness:
  "lg_leaseEpoch (example_lease_grant ''revoked'') = 1 \<and>
   log_of ''s'' (snd (acquireLease ''s'' 5 ''t'' 0 revoked_db)) = log_of ''s'' revoked_db \<and>
   map_of (ob_source (snd (acquireLease ''s'' 5 ''t'' 0 revoked_db))) ''s'' = map_of (ob_source revoked_db) ''s''"
proof -
  have "ob_lease revoked_db = fold (lease_exec zero_sha example_ed25519) [(example_resolver, example_lease_grant ''revoked'')] empty_lease_db"
    by (simp add: revoked_db_def)
  then have inv: "lease_inv (ob_lease revoked_db)" using lease_run_inv [OF lease_inv_empty] by (simp only:) blast
  have h: "history_of ''s'' (ob_lease revoked_db) = [example_lease_grant ''revoked'']" by code_simp
  have g: "lg_leaseStatus (example_lease_grant ''revoked'') = ''revoked''" "lg_leaseEpoch (example_lease_grant ''revoked'') = 1" by code_simp+
  have f: "map_of (ob_fence revoked_db) ''s'' = Some 1" by (simp add: revoked_db_def empty_outbox_def)
  have run: "(source_step zero_sha example_ed25519 True (\<lambda>_ _. True))\<^sup>*\<^sup>* revoked_db (snd (acquireLease ''s'' 5 ''t'' 0 revoked_db))"
    by (rule r_into_rtranclp) (rule source_step.acquire)
  show ?thesis
    using revoked_source_is_frozen [OF run inv f, of "example_lease_grant ''revoked''"] h g by simp
qed

definition example_writer :: "unit source_options" where
  "example_writer = \<lparr>so_streamId = ''s'', so_sanitize = Inr, so_keyId = ''k'', so_alg = ''ed25519'', so_sign = (\<lambda>_. Inr ''sig''),
     so_maxPendingRows = 10, so_gate = None\<rparr>"

definition example_receiver_options :: "unit receiver_options" where
  "example_receiver_options = \<lparr>ro_streamId = ''s'', ro_assertSanitized = (\<lambda>_. Inr ()),
     ro_verify = (\<lambda>h. if sh_signature h = ''sig'' then Head_verified else Head_invalid), ro_applyInTx = (\<lambda>_ _. Inr ())\<rparr>"

definition source0 :: "unit outbox_db" where
  "source0 = empty_outbox\<lparr>ob_source := [(''s'', start_checkpoint)]\<rparr>"

definition receiver0 :: "unit outbox_db" where
  "receiver0 = empty_outbox\<lparr>ob_receiver := [(''s'', start_checkpoint)]\<rparr>"

definition appended :: "((OutboxRecordHeader \<times> SignedStreamHead) \<times> unit outbox_db) res" where
  "appended = withOutboxTx zero_sha example_ed25519 example_writer 0
     (appendInTx zero_sha example_ed25519 example_writer 0 ''s'' \<lparr>hm_tumblerId = ''t'', hm_counter = 3\<rparr> 1) source0"

definition sent_row :: outbox_row where
  "sent_row = \<lparr>or_streamId = ''s'', or_sourceEpoch = ''e1'', or_sequence = 1, or_fenceToken = 1, or_opDigest = GENESIS_HEAD, or_tumblerId = ''t'',
     or_hotpCounter = 3, or_mutation = mutation_value \<lparr>hm_tumblerId = ''t'', hm_counter = 3\<rparr>, or_headPrev = GENESIS_HEAD, or_headDigest = GENESIS_HEAD,
     or_headKeyId = ''k'', or_headAlg = ''ed25519'', or_headSig = ''sig'', or_published = False, or_acked = False, or_quarantined = False\<rparr>"

definition source1 :: "unit outbox_db" where
  "source1 = source0\<lparr>ob_rows := [sent_row], ob_source := [(''s'', start_checkpoint\<lparr>tc_sequence := 1, tc_headDigest := GENESIS_HEAD\<rparr>)]\<rparr>"

definition sent_record :: js_value where
  "sent_record = record_value (row_header ''s'' sent_row) (or_mutation sent_row)"

definition sent_head :: js_value where
  "sent_head = head_value (row_head ''s'' sent_row)"

definition sent :: OutboxRecord where
  "sent = \<lparr>rec_header = row_header ''s'' sent_row, rec_mutation = \<lparr>hm_tumblerId = ''t'', hm_counter = 3\<rparr>\<rparr>"

lemma example_appended: "appended = Inr ((row_header ''s'' sent_row, row_head ''s'' sent_row), source1)"
  by code_simp

lemma example_snapshots:
  "snapshotRecord sent_record = Inr sent" "snapshotHead sent_head = Inr (row_head ''s'' sent_row)" "rows_of ''s'' source1 = [sent_row]"
  by code_simp+

lemma example_unforged: "unforged zero_sha ''s'' example_receiver_options source1 sent (row_head ''s'' sent_row)"
proof -
  have "same_input (Op_input (record_input sent)) (Op_input (row_input ''s'' sent_row))" by code_simp
  moreover have "same_input (Head_input (row_head ''s'' sent_row)) (Head_input (row_head ''s'' sent_row))" by simp
  moreover have "sh_headDigest (row_head ''s'' sent_row) = or_headDigest sent_row" by (simp add: row_head_def)
  ultimately show ?thesis by (simp add: unforged_def example_snapshots(3) collides_def)
qed

theorem receiver_is_prefix_of_source_witness:
  "\<exists>rcv cp. verifyAndApplyTumblerInTx zero_sha example_receiver_options sent_record sent_head receiver0 = Inr (Applied, rcv) \<and>
     map_of (ob_receiver rcv) ''s'' = Some cp \<and> 1 \<le> tc_sequence cp \<and> tc_sequence cp \<le> int (length (log_of ''s'' source1)) \<and>
     map_of (ob_consumed rcv) (''s'', ''t'') = Some 3"
proof -
  let ?x = "\<lparr>sp_source = source0, sp_receiver = receiver0, sp_issued = []\<rparr>"
  let ?step = "stream_step zero_sha example_ed25519 ''s'' example_receiver_options"
  have "case verifyAndApplyTumblerInTx zero_sha example_receiver_options sent_record sent_head receiver0 of
      Inr (d, rcv) \<Rightarrow> d = Applied \<and> map_of (ob_consumed rcv) (''s'', ''t'') = Some 3 \<and>
        (case map_of (ob_receiver rcv) ''s'' of Some cp \<Rightarrow> 1 \<le> tc_sequence cp | None \<Rightarrow> False)
    | Inl _ \<Rightarrow> False" by code_simp
  then obtain rcv where v: "verifyAndApplyTumblerInTx zero_sha example_receiver_options sent_record sent_head receiver0 = Inr (Applied, rcv)"
    and c: "map_of (ob_consumed rcv) (''s'', ''t'') = Some 3" "case map_of (ob_receiver rcv) ''s'' of Some cp \<Rightarrow> 1 \<le> tc_sequence cp | None \<Rightarrow> False"
    by (cases "verifyAndApplyTumblerInTx zero_sha example_receiver_options sent_record sent_head receiver0") auto
  let ?x1 = "?x\<lparr>sp_source := source1\<rparr>"
  let ?y = "?x1\<lparr>sp_receiver := rcv, sp_issued := (record_key sent, oh_opDigest (rec_header sent), Applied) # sp_issued ?x1\<rparr>"
  have "?step ?x ?x1"
    by (rule stream_step.source [where fenced = False], simp only: stream_pair.simps, rule source_step.append [OF example_appended [unfolded appended_def]]) simp
  moreover have "?step ?x1 ?y"
    by (rule stream_step.deliver [OF _ example_snapshots(1,2)]) (simp_all only: stream_pair.simps v example_unforged)
  ultimately have run: "?step\<^sup>*\<^sup>* ?x ?y" by (rule converse_rtranclp_into_rtranclp [OF _ r_into_rtranclp])
  have fresh: "fresh_stream ''s'' ?x"
    by (simp add: fresh_stream_def source0_def receiver0_def empty_outbox_def start_checkpoint_def rows_of_def)
  obtain n cp where "n \<le> length (log_of ''s'' source1)" "map_of (ob_receiver rcv) ''s'' = Some cp" "tc_sequence cp = int n"
    using receiver_is_prefix_of_source [OF run fresh] by (auto simp: example_receiver_options_def)
  with v c show ?thesis by auto
qed

end
