(* ===== verification/Hash_Chain.thy ===== *)
theory Hash_Chain
  imports TSK_Types
begin

text \<open>
  Hash-linked logs: every entry carries a sequence number, the hash of its predecessor and its own hash. The
  locale states what a log relies on: the hash of an entry binds the fields it covers, among them the
  sequence number and the link, unless two entries collide. Its consequence: the head of a
  log determines the whole log.
\<close>

fun linked :: "('e \<Rightarrow> int) \<Rightarrow> ('e \<Rightarrow> string) \<Rightarrow> ('e \<Rightarrow> string) \<Rightarrow> ('e \<Rightarrow> string) \<Rightarrow> int \<Rightarrow> string \<Rightarrow> 'e list \<Rightarrow> bool" where
  "linked number prev compute stored i h [] = True"
| "linked number prev compute stored i h (e # es) =
     (number e = i \<and> prev e = h \<and> compute e = stored e \<and> linked number prev compute stored (i + 1) (stored e) es)"

definition chain_head :: "('e \<Rightarrow> string) \<Rightarrow> string \<Rightarrow> 'e list \<Rightarrow> string" where
  "chain_head stored h es = (if es = [] then h else stored (last es))"

lemma chain_head_simps [simp]:
  "chain_head stored h [] = h" "chain_head stored h (e # es) = chain_head stored (stored e) es"
  "chain_head stored h (es @ [e]) = stored e"
  by (auto simp: chain_head_def)

lemma linked_append:
  "linked number prev compute stored i h (es @ [e]) \<longleftrightarrow>
     linked number prev compute stored i h es \<and> number e = i + int (length es) \<and> prev e = chain_head stored h es \<and> compute e = stored e"
  by (induction es arbitrary: i h) auto

locale hash_chain =
  fixes number :: "'e \<Rightarrow> int" and prev compute stored :: "'e \<Rightarrow> string"
    and covered :: "'e \<Rightarrow> 'c" and clash :: "'e \<Rightarrow> 'e \<Rightarrow> bool"
  assumes hash_binds: "compute e = compute f \<Longrightarrow> \<not> clash e f \<Longrightarrow> covered e = covered f"
    and covers_link: "covered e = covered f \<Longrightarrow> number e = number f \<and> prev e = prev f"
begin

lemma head_determines_log:
  assumes "linked number prev compute stored 1 h es" and "linked number prev compute stored 1 h fs"
    and "length es = length fs" and "chain_head stored h es = chain_head stored h fs"
    and "\<And>e f. e \<in> set es \<Longrightarrow> f \<in> set fs \<Longrightarrow> \<not> clash e f"
  shows "map covered es = map covered fs \<and> map stored es = map stored fs"
  using assms
proof (induction es arbitrary: fs rule: rev_induct)
  case (snoc e es)
  then obtain gs f where fs: "fs = gs @ [f]" by (cases fs rule: rev_cases) auto
  have e: "linked number prev compute stored 1 h es" "prev e = chain_head stored h es" "compute e = stored e"
    using snoc.prems(1) by (simp_all add: linked_append)
  have f: "linked number prev compute stored 1 h gs" "prev f = chain_head stored h gs" "compute f = stored f"
    using snoc.prems(2) by (simp_all add: fs linked_append)
  have eq: "stored e = stored f" using snoc.prems(4) by (simp add: fs)
  have "covered e = covered f" using hash_binds [of e f] e(3) f(3) eq snoc.prems(5) by (simp add: fs)
  moreover have "map covered es = map covered gs \<and> map stored es = map stored gs"
  proof (rule snoc.IH [OF e(1) f(1)])
    show "length es = length gs" using snoc.prems(3) by (simp add: fs)
    show "chain_head stored h es = chain_head stored h gs" using covers_link [OF \<open>covered e = covered f\<close>] e(2) f(2) by simp
    show "\<And>x y. x \<in> set es \<Longrightarrow> y \<in> set gs \<Longrightarrow> \<not> clash x y" using snoc.prems(5) by (simp add: fs)
  qed
  ultimately show ?case by (simp add: fs eq)
qed simp

end

end
