(* ===== verification/Runtime_Capture.thy ===== *)
theory Runtime_Capture
  imports Canonical_Json TSK_Types
begin

text \<open>
  The runtime metadata and the audit capture of \<^verbatim>\<open>packages/core/src/runtime-capture.ts\<close>: what is read from the
  environment of the process, and the redaction of every value before it leaves the process or enters a
  ledger. Objects are lists of properties in the order of their creation; names that look like array indices,
  which JavaScript enumerates first, are not reordered.
\<close>

section \<open>Sensitive names\<close>

type_synonym js_object = "(string \<times> jsval) list"

definition REDACTED :: string where "REDACTED = ''[REDACTED]''"

fun starts :: "string \<Rightarrow> string \<Rightarrow> bool" where
  "starts [] s = True"
| "starts (c # p) [] = False"
| "starts (c # p) (d # s) = (c = d \<and> starts p s)"

fun occurs :: "string \<Rightarrow> string \<Rightarrow> bool" where
  "occurs p [] = (p = [])"
| "occurs p (c # s) = (starts p (c # s) \<or> occurs p s)"

definition lower_char :: "char \<Rightarrow> char" where
  "lower_char c = (if is_upper c then char_of (of_char c + 32 :: nat) else c)"

text \<open>The alternatives of the pattern; \<^verbatim>\<open>[_-]?\<close> is written out.\<close>

definition sensitive_words :: "string list" where
  "sensitive_words =
     [''secret'', ''token'', ''password'', ''private'', ''credential'', ''apikey'', ''api_key'', ''api-key'',
      ''sharedsecret'', ''shared_secret'', ''shared-secret'', ''rawkey'', ''raw_key'', ''raw-key'', ''authorization'']"

definition SENSITIVE_FIELD :: "string \<Rightarrow> bool" where
  "SENSITIVE_FIELD name \<longleftrightarrow> (\<exists>w \<in> set sensitive_words. occurs w (map lower_char name))"

text \<open>Properties written one by one into a fresh object: the name \<^verbatim>\<open>__proto__\<close> does not become one.\<close>

function (sequential) sanitizeCaptureValue :: "jsval \<Rightarrow> string \<Rightarrow> jsval" where
  "sanitizeCaptureValue (JArray vs) name =
     (if SENSITIVE_FIELD name then JString REDACTED else JArray (map (\<lambda>x. sanitizeCaptureValue x []) vs))"
| "sanitizeCaptureValue (JObject ps) name =
     (if SENSITIVE_FIELD name then JString REDACTED
      else JObject (map (\<lambda>p. (fst p, sanitizeCaptureValue (snd p) (fst p))) (filter (\<lambda>p. fst p \<noteq> ''__proto__'') ps)))"
| "sanitizeCaptureValue v name = (if SENSITIVE_FIELD name then JString REDACTED else v)"
  by pat_completeness auto

lemma size_mem_list: "x \<in> set vs \<Longrightarrow> size x < size (JArray vs)"
  by (induction vs) auto

termination sanitizeCaptureValue
  by (relation "measure (\<lambda>(v, _). size v)") (auto dest: size_mem_list size_snd_mem)

declare sanitizeCaptureValue.simps [simp del]

section \<open>Metadata of the runtime\<close>

text \<open>What the module reads of \<^verbatim>\<open>globalThis.process\<close>; \<^verbatim>\<open>cwd\<close> may be missing or throw.\<close>

record runtime_process =
  rp_env :: js_object
  rp_cwd :: "string res option"
  rp_version :: "string option"

definition js_space :: "char \<Rightarrow> bool" where
  "js_space c \<longleftrightarrow> (of_char c :: nat) \<in> {9, 10, 11, 12, 13, 32, 160}"

definition blank :: "string \<Rightarrow> bool" where
  "blank s = list_all js_space s"

fun firstEnv :: "js_object \<Rightarrow> string list \<Rightarrow> string option" where
  "firstEnv env [] = None"
| "firstEnv env (n # ns) =
     (case map_of env n of
        Some (JString s) \<Rightarrow> if blank s then firstEnv env ns else Some s
      | _ \<Rightarrow> firstEnv env ns)"

definition safeCwd :: "runtime_process option \<Rightarrow> string option" where
  "safeCwd P =
     (case P of
        Some p \<Rightarrow> (case rp_cwd p of Some (Inr s) \<Rightarrow> Some s | _ \<Rightarrow> None)
      | None \<Rightarrow> None)"

definition opt_text :: "string option \<Rightarrow> jsval" where
  "opt_text s = (case s of None \<Rightarrow> JUndefined | Some t \<Rightarrow> JString t)"

definition or_else :: "'a option \<Rightarrow> 'a option \<Rightarrow> 'a option" where
  "or_else a b = (case a of None \<Rightarrow> b | Some _ \<Rightarrow> a)"

text \<open>Most fields are read from three variables whose names share the tail.\<close>

definition env_names :: "string \<Rightarrow> string list" where
  "env_names tail = [''AI_RUNTIME_'' @ tail, ''CODEX_'' @ tail, ''CLAUDE_'' @ tail]"

definition env_fields :: "(string \<times> string) list" where
  "env_fields =
     [(''permissions'', ''PERMISSIONS''), (''agentsMd'', ''AGENTS_MD''), (''account'', ''ACCOUNT''), (''email'', ''EMAIL''),
      (''organization'', ''ORGANIZATION''), (''loginMethod'', ''LOGIN_METHOD''), (''collaborationMode'', ''COLLABORATION_MODE''),
      (''sessionId'', ''SESSION_ID''), (''sessionName'', ''SESSION_NAME''), (''contextWindow'', ''CONTEXT_WINDOW''),
      (''contextUsed'', ''CONTEXT_USED''), (''contextLeft'', ''CONTEXT_LEFT''), (''limits'', ''LIMITS''),
      (''mcpServers'', ''MCP_SERVERS''), (''settingSources'', ''SETTING_SOURCES''), (''statusText'', ''STATUS_TEXT''),
      (''configText'', ''CONFIG_TEXT''), (''usageText'', ''USAGE_TEXT''), (''statsText'', ''STATS_TEXT'')]"

definition env_metadata :: "runtime_process option \<Rightarrow> string \<Rightarrow> js_object" where
  "env_metadata P now =
     (let env = (case P of None \<Rightarrow> [] | Some p \<Rightarrow> rp_env p); get = firstEnv env in
      [(''capturedAt'', JString now),
       (''source'', JString ''env''),
       (''tool'', opt_text (get [''AI_RUNTIME_TOOL'', ''CODEX_RUNTIME_TOOL'', ''CLAUDE_RUNTIME_TOOL''])),
       (''toolVersion'', opt_text (or_else (get [''AI_RUNTIME_TOOL_VERSION'', ''CODEX_VERSION'', ''CLAUDE_CODE_VERSION''])
                                          (case P of None \<Rightarrow> None | Some p \<Rightarrow> rp_version p))),
       (''model'', opt_text (get (env_names ''MODEL'' @ [''ANTHROPIC_MODEL'']))),
       (''reasoning'', opt_text (get (env_names ''REASONING''))),
       (''summaryMode'', opt_text (get (env_names ''SUMMARY_MODE''))),
       (''directory'', opt_text (get [''AI_RUNTIME_DIRECTORY'', ''AI_RUNTIME_CWD'', ''CODEX_CWD'', ''CLAUDE_PROJECT_DIR''])),
       (''cwd'', opt_text (or_else (get [''AI_RUNTIME_CWD'', ''CODEX_CWD'', ''CLAUDE_PROJECT_DIR'']) (safeCwd P)))] @
      map (\<lambda>(f, t). (f, opt_text (get (env_names t)))) env_fields)"

text \<open>\<^verbatim>\<open>{ ...a, ...b }\<close>: later properties replace earlier ones in place.\<close>

definition spread :: "js_object \<Rightarrow> js_object \<Rightarrow> js_object" where
  "spread a b = fold (\<lambda>(k, v). omap_set k v) b a"

definition js_nullish :: "jsval \<Rightarrow> bool" where
  "js_nullish v \<longleftrightarrow> v = JUndefined \<or> v = JNull"

definition collectRuntimeMetadata :: "runtime_process option \<Rightarrow> string \<Rightarrow> js_object \<Rightarrow> jsval" where
  "collectRuntimeMetadata P now overrides =
     (let given = js_get (JObject overrides) ''capturedAt'' in
      sanitizeCaptureValue
        (JObject (spread (spread (env_metadata P now) overrides)
           [(''capturedAt'', if js_nullish given then JString now else given),
            (''source'', JString (if overrides \<noteq> [] then ''combined'' else ''env''))])) [])"

section \<open>The capture of a key generation\<close>

text \<open>The sink acts on a world of its own and may throw; the two readings of the clock are those of the event
  and of its metadata.\<close>

definition js_props_of :: "jsval \<Rightarrow> js_object" where
  "js_props_of v = (case v of JObject ps \<Rightarrow> ps | _ \<Rightarrow> [])"

definition captured_event :: "runtime_process option \<Rightarrow> string \<Rightarrow> string \<Rightarrow> js_object \<Rightarrow> jsval" where
  "captured_event P now now' event =
     (let at = js_get (JObject event) ''generatedAt'' in
      sanitizeCaptureValue
        (JObject (spread event
           [(''generatedAt'', if js_nullish at then JString now else at),
            (''runtime'', collectRuntimeMetadata P now' (js_props_of (js_get (JObject event) ''runtime'')))])) [])"

definition emitKeyGenerationCapture ::
  "runtime_process option \<Rightarrow> string \<Rightarrow> string \<Rightarrow> (jsval \<Rightarrow> 'w \<Rightarrow> 'w \<times> unit res) option \<Rightarrow> js_object \<Rightarrow> 'w \<Rightarrow> 'w" where
  "emitKeyGenerationCapture P now now' sink event w =
     (case sink of
        None \<Rightarrow> w
      | Some f \<Rightarrow> fst (f (captured_event P now now' event) w))"

section \<open>What the redaction keeps\<close>

datatype path_step = Key string | Index nat

fun at_path :: "jsval \<Rightarrow> path_step list \<Rightarrow> jsval option" where
  "at_path v [] = Some v"
| "at_path v (Key k # p) =
     (case v of JObject ps \<Rightarrow> (case map_of ps k of None \<Rightarrow> None | Some x \<Rightarrow> at_path x p) | _ \<Rightarrow> None)"
| "at_path v (Index i # p) =
     (case v of JArray vs \<Rightarrow> if i < length vs then at_path (vs ! i) p else None | _ \<Rightarrow> None)"

fun hides :: "path_step \<Rightarrow> bool" where
  "hides (Key k) = SENSITIVE_FIELD k"
| "hides (Index _) = False"

text \<open>The specification: what a reader of the redacted value finds at a path of the original one.\<close>

fun redacted_at :: "jsval \<Rightarrow> path_step list \<Rightarrow> jsval option" where
  "redacted_at v [] = Some (sanitizeCaptureValue v [])"
| "redacted_at v (s # p) =
     (if s = Key ''__proto__'' then None
      else case at_path v [s] of
        None \<Rightarrow> None
      | Some x \<Rightarrow> if hides s then at_path (JString REDACTED) p else redacted_at x p)"

lemma SENSITIVE_FIELD_Nil [simp]: "\<not> SENSITIVE_FIELD []"
  by (simp add: SENSITIVE_FIELD_def sensitive_words_def)

lemma sanitize_sensitive: "SENSITIVE_FIELD n \<Longrightarrow> sanitizeCaptureValue v n = JString REDACTED"
  by (cases v) (simp_all add: sanitizeCaptureValue.simps)

lemma sanitize_plain: "\<not> SENSITIVE_FIELD n \<Longrightarrow> sanitizeCaptureValue v n = sanitizeCaptureValue v []"
  by (cases v) (simp_all add: sanitizeCaptureValue.simps)

lemma sanitize_simps [simp]:
  "sanitizeCaptureValue (JArray vs) [] = JArray (map (\<lambda>x. sanitizeCaptureValue x []) vs)"
  "sanitizeCaptureValue (JObject ps) [] =
     JObject (map (\<lambda>p. (fst p, sanitizeCaptureValue (snd p) (fst p))) (filter (\<lambda>p. fst p \<noteq> ''__proto__'') ps))"
  "sanitizeCaptureValue (JString s) [] = JString s" "sanitizeCaptureValue (JNum n) [] = JNum n"
  "sanitizeCaptureValue (JBool b) [] = JBool b" "sanitizeCaptureValue JNull [] = JNull"
  "sanitizeCaptureValue JUndefined [] = JUndefined"
  by (simp_all add: sanitizeCaptureValue.simps)

lemma map_of_sanitized:
  "map_of (map (\<lambda>p. (fst p, sanitizeCaptureValue (snd p) (fst p))) (filter (\<lambda>p. fst p \<noteq> ''__proto__'') ps)) k =
     (if k = ''__proto__'' then None else map_option (\<lambda>x. sanitizeCaptureValue x k) (map_of ps k))"
  by (induction ps) auto

lemma at_path_sanitized: "at_path (sanitizeCaptureValue v []) p = redacted_at v p"
proof (induction v p rule: redacted_at.induct)
  case (2 v s p)
  show ?case
  proof (cases s)
    case (Key k)
    then show ?thesis
      using 2 by (cases v) (auto simp: map_of_sanitized sanitize_sensitive sanitize_plain [of k] split: option.splits)
  next
    case (Index i)
    then show ?thesis using 2 by (cases v) auto
  qed
qed simp

lemma at_path_scalar: "at_path (JString s) p = Some x \<Longrightarrow> p = [] \<and> x = JString s"
  by (cases p rule: at_path.cases [of "(JString s, p)" for p, simplified]) auto

lemma redacted_sensitive:
  "redacted_at v p = Some x \<Longrightarrow> Key k \<in> set p \<Longrightarrow> SENSITIVE_FIELD k \<Longrightarrow> x = JString REDACTED"
  by (induction v p rule: redacted_at.induct) (auto dest: at_path_scalar split: if_splits option.splits)

lemma redacted_clean:
  "list_all (\<lambda>s. \<not> hides s \<and> s \<noteq> Key ''__proto__'') p \<Longrightarrow>
   redacted_at v p = map_option (\<lambda>x. sanitizeCaptureValue x []) (at_path v p)"
proof (induction v p rule: redacted_at.induct)
  case (2 v s p)
  then show ?case by (cases s; cases v) (auto split: option.splits)
qed simp


definition example_event :: js_object where
  "example_event = [(''event'', JString ''rotated''), (''details'', JObject [(''API_Key'', JString ''k'')])]"


end
