(* ===== verification/Principal.thy ===== *)
theory Principal
  imports Hash_Chain Runtime_Capture Crypto
begin

text \<open>
  The principal session ledger of \<^verbatim>\<open>packages/server/src/principal-session.ts\<close>: sessions of one principal on
  several providers are bound by a keyed proof; each agent has a hash-linked stream of events; after every
  event a checkpoint, itself hash-linked, records the heads of all streams of the principal. Further, the
  sealed cache that authorizes when the ledger is out of reach. The maps of the class are association lists,
  and the objects in them are values: no operation but the lookups hands one of them out. A clock gives the
  successive readings of \<^verbatim>\<open>Date.now()\<close> within one operation.
\<close>

section \<open>Canonical texts\<close>

text \<open>\<^verbatim>\<open>sortValue\<close> writes the sorted properties one by one into a fresh object.\<close>

function (sequential) sortValue :: "jsval \<Rightarrow> jsval" where
  "sortValue (JArray vs) = JArray (map sortValue vs)"
| "sortValue (JObject ps) =
     JObject (map (\<lambda>p. (fst p, sortValue (snd p))) (sort_key fst (filter (\<lambda>p. fst p \<noteq> ''__proto__'') ps)))"
| "sortValue v = v"
  by pat_completeness auto

termination sortValue
  by (relation "measure size") (auto dest: size_mem_list size_snd_mem)

definition canonicalJson :: "jsval \<Rightarrow> string" where
  "canonicalJson v = json_text (sortValue v)"

section \<open>Records\<close>

definition PRINCIPAL_GENESIS_HASH :: string where "PRINCIPAL_GENESIS_HASH = replicate 64 CHR ''0''"
definition PRINCIPAL_BINDING_PURPOSE :: string where "PRINCIPAL_BINDING_PURPOSE = ''tsk.principal.session.bind.v1''"

record PrincipalRecord =
  pn_principalId :: string
  pn_principalDigest :: string
  pn_createdAt :: int
  pn_updatedAt :: int
  pn_authorizationContext :: js_object
  pn_keyVersion :: int
  pn_sessionIds :: "string list"
  pn_activeSessionIds :: "string list"
  pn_streamIds :: "string list"
  pn_checkpointHead :: string
  pn_checkpointSeq :: int

record PrincipalStreamRecord =
  pst_principalId :: string
  pst_streamId :: string
  pst_provider :: string
  pst_agentInstanceId :: string
  pst_providerSessionIds :: "string list"
  pst_seq :: int
  pst_headHash :: string

record PrincipalSessionProof =
  pp_challengeNonce :: string
  pp_signedAt :: jsnum
  pp_signature :: string

record BindSessionInput =
  bi_principalSecret :: string
  bi_proof :: PrincipalSessionProof
  bi_provider :: string
  bi_providerSessionId :: string
  bi_agentInstanceId :: "string option"
  bi_policyDigest :: string
  bi_runtimeMetadata :: "js_object option"
  bi_authorizationContext :: "js_object option"
  bi_maxProofAgeMs :: "int option"

datatype PrincipalEventType = Session_bound | Session_event | Session_closed | Key_rotated | Authorization_updated

fun event_text :: "PrincipalEventType \<Rightarrow> string" where
  "event_text Session_bound = ''session_bound''"
| "event_text Session_event = ''session_event''"
| "event_text Session_closed = ''session_closed''"
| "event_text Key_rotated = ''key_rotated''"
| "event_text Authorization_updated = ''authorization_updated''"

record PrincipalStreamEvent =
  pe_principalId :: string
  pe_streamId :: string
  pe_provider :: string
  pe_providerSessionId :: "string option"
  pe_agentInstanceId :: string
  pe_seq :: int
  pe_timestamp :: int
  pe_eventType :: PrincipalEventType
  pe_policyDigest :: "string option"
  pe_proofDigest :: "string option"
  pe_payloadHash :: string
  pe_payload :: jsval
  pe_prevHash :: string
  pe_chainHash :: string
  pe_bindingHash :: "string option"

type_synonym stream_heads = "(string \<times> int \<times> string) list"

record PrincipalCheckpoint =
  pk_principalId :: string
  pk_seq :: int
  pk_timestamp :: int
  pk_streamHeads :: stream_heads
  pk_prevHash :: string
  pk_checkpointHash :: string

record SessionBinding =
  sb_principalId :: string
  sb_streamId :: string
  sb_provider :: string
  sb_providerSessionId :: string
  sb_agentInstanceId :: string
  sb_boundAt :: int
  sb_policyDigest :: string
  sb_authorizationContext :: js_object
  sb_runtime :: jsval
  sb_prevHash :: string
  sb_bindingHash :: string
  sb_checkpointHash :: string

record MemoryPrincipalSessionLedger =
  pl_principals :: "(string \<times> PrincipalRecord) list"
  pl_streams :: "(string \<times> PrincipalStreamRecord) list"
  pl_events :: "(string \<times> PrincipalStreamEvent list) list"
  pl_checkpoints :: "(string \<times> PrincipalCheckpoint list) list"

definition empty_ledger :: MemoryPrincipalSessionLedger where
  "empty_ledger = \<lparr>pl_principals = [], pl_streams = [], pl_events = [], pl_checkpoints = []\<rparr>"

text \<open>\<^verbatim>\<open>m.get(k) ?? []\<close>.\<close>

definition entries :: "string \<Rightarrow> (string \<times> 'a list) list \<Rightarrow> 'a list" where
  "entries k m = (case map_of m k of None \<Rightarrow> [] | Some es \<Rightarrow> es)"

section \<open>Identifiers and proofs\<close>

definition principalDigestFromSecret :: "sha_fn \<Rightarrow> string \<Rightarrow> string res" where
  "principalDigestFromSecret S secret =
     bind_res (validateHexSecret secret) (\<lambda>_. Inr (sha256 S (''tsk-principal-v1:'' @ secret)))"

definition principalIdFromDigest :: "sha_fn \<Rightarrow> string \<Rightarrow> string" where
  "principalIdFromDigest S d = ''principal_'' @ take 24 (sha256 S (''tsk-principal-id-v1:'' @ d))"

definition makeStreamId :: "sha_fn \<Rightarrow> string \<Rightarrow> string \<Rightarrow> string \<Rightarrow> string" where
  "makeStreamId S principalId provider agentInstanceId =
     ''stream_'' @ take 24 (sha256 S (principalId @ '':'' @ provider @ '':'' @ agentInstanceId))"

definition assertBindingInput :: "BindSessionInput \<Rightarrow> unit res" where
  "assertBindingInput input =
     (if blank (bi_provider input) then Inl ''provider is required''
      else if blank (bi_providerSessionId input) then Inl ''providerSessionId is required''
      else if blank (bi_policyDigest input) then Inl ''policyDigest is required''
      else Inr ())"

definition buildPrincipalSessionProofPayload ::
  "string \<Rightarrow> string \<Rightarrow> string \<Rightarrow> string \<Rightarrow> string \<Rightarrow> string \<Rightarrow> jsnum \<Rightarrow> jsval" where
  "buildPrincipalSessionProofPayload principalDigest provider providerSessionId agentInstanceId policyDigest challengeNonce signedAt =
     JObject
       [(''purpose'', JString PRINCIPAL_BINDING_PURPOSE), (''principal_digest'', JString principalDigest),
        (''provider'', JString provider), (''provider_session_id'', JString providerSessionId),
        (''agent_instance_id'', JString agentInstanceId), (''policy_digest'', JString policyDigest),
        (''challenge_nonce'', JString challengeNonce), (''signed_at'', JNum signedAt)]"

definition signPrincipalSessionProof :: "hmac_fn \<Rightarrow> string \<Rightarrow> jsval \<Rightarrow> string res" where
  "signPrincipalSessionProof H secret payload = hmac H secret (canonicalJson payload)"

text \<open>\<^verbatim>\<open>Math.abs(now - t) > maxAge\<close>: a comparison with \<^verbatim>\<open>NaN\<close> is false. A fraction lies strictly between its
  integral part and the next integer.\<close>

fun proof_expired :: "int \<Rightarrow> jsnum \<Rightarrow> int \<Rightarrow> bool" where
  "proof_expired now (NInt t) maxAge = (maxAge < \<bar>now - t\<bar>)"
| "proof_expired now (NFrac t) maxAge = (maxAge \<le> now - t - 1 \<or> maxAge \<le> t - now)"
| "proof_expired now (NInf _) maxAge = True"
| "proof_expired now NNaN maxAge = False"

definition agent_of :: "BindSessionInput \<Rightarrow> string" where
  "agent_of input =
     (case bi_agentInstanceId input of
        None \<Rightarrow> bi_provider input @ '':'' @ bi_providerSessionId input
      | Some a \<Rightarrow> a)"

definition proof_payload :: "BindSessionInput \<Rightarrow> string \<Rightarrow> jsval" where
  "proof_payload input digest =
     buildPrincipalSessionProofPayload digest (bi_provider input) (bi_providerSessionId input) (agent_of input)
       (bi_policyDigest input) (pp_challengeNonce (bi_proof input)) (pp_signedAt (bi_proof input))"

definition verifyPrincipalSessionProof :: "hmac_fn \<Rightarrow> int \<Rightarrow> BindSessionInput \<Rightarrow> string \<Rightarrow> unit res" where
  "verifyPrincipalSessionProof H now input digest =
     (if proof_expired now (pp_signedAt (bi_proof input)) (case bi_maxProofAgeMs input of None \<Rightarrow> 5 * 60000 | Some m \<Rightarrow> m)
      then Inl ''principal session proof expired''
      else if length (pp_challengeNonce (bi_proof input)) < 16 then Inl ''principal session proof nonce too short''
      else bind_res (hmac H (bi_principalSecret input) (canonicalJson (proof_payload input digest))) (\<lambda>expected.
        if constantTimeEqual expected (pp_signature (bi_proof input)) then Inr () else Inl ''principal session proof invalid''))"

section \<open>Hashes of events and checkpoints\<close>

definition event_value :: "PrincipalStreamEvent \<Rightarrow> jsval" where
  "event_value e =
     (let opt = (\<lambda>s. case s of None \<Rightarrow> JNull | Some t \<Rightarrow> JString t) in
      JArray
        [JNum (NInt (pe_seq e)), JString (pe_prevHash e), JString (pe_principalId e), JString (pe_streamId e),
         JString (pe_provider e), opt (pe_providerSessionId e), JString (pe_agentInstanceId e), JNum (NInt (pe_timestamp e)),
         JString (event_text (pe_eventType e)), opt (pe_policyDigest e), opt (pe_proofDigest e), JString (pe_payloadHash e),
         if js_nullish (pe_payload e) then JObject [] else pe_payload e])"

definition computeStreamEventHash :: "sha_fn \<Rightarrow> PrincipalStreamEvent \<Rightarrow> string" where
  "computeStreamEventHash S e = sha256 S (canonicalJson (event_value e))"

definition heads_value :: "stream_heads \<Rightarrow> jsval" where
  "heads_value hs =
     JObject (map (\<lambda>(sid, n, h). (sid, JObject [(''seq'', JNum (NInt n)), (''chainHash'', JString h)])) hs)"

definition checkpoint_value :: "PrincipalCheckpoint \<Rightarrow> jsval" where
  "checkpoint_value c =
     JArray [JNum (NInt (pk_seq c)), JString (pk_prevHash c), JString (pk_principalId c), JNum (NInt (pk_timestamp c)),
             heads_value (pk_streamHeads c)]"

definition computeCheckpointHash :: "sha_fn \<Rightarrow> PrincipalCheckpoint \<Rightarrow> string" where
  "computeCheckpointHash S c = sha256 S (canonicalJson (checkpoint_value c))"

section \<open>Operations of the ledger\<close>

definition put_principal :: "PrincipalRecord \<Rightarrow> MemoryPrincipalSessionLedger \<Rightarrow> MemoryPrincipalSessionLedger" where
  "put_principal p L = L\<lparr>pl_principals := omap_set (pn_principalId p) p (pl_principals L)\<rparr>"

definition put_stream :: "PrincipalStreamRecord \<Rightarrow> MemoryPrincipalSessionLedger \<Rightarrow> MemoryPrincipalSessionLedger" where
  "put_stream st L = L\<lparr>pl_streams := omap_set (pst_streamId st) st (pl_streams L)\<rparr>"

definition upsertPrincipal ::
  "sha_fn \<Rightarrow> int \<Rightarrow> string \<Rightarrow> js_object \<Rightarrow> MemoryPrincipalSessionLedger \<Rightarrow> PrincipalRecord \<times> MemoryPrincipalSessionLedger" where
  "upsertPrincipal S now digest auth L =
     (let pid = principalIdFromDigest S digest in
      case map_of (pl_principals L) pid of
        Some p \<Rightarrow> (p, L)
      | None \<Rightarrow>
          let p = \<lparr>pn_principalId = pid, pn_principalDigest = digest, pn_createdAt = now, pn_updatedAt = now,
                   pn_authorizationContext = auth, pn_keyVersion = 1, pn_sessionIds = [], pn_activeSessionIds = [], pn_streamIds = [],
                   pn_checkpointHead = PRINCIPAL_GENESIS_HASH, pn_checkpointSeq = 0\<rparr> in
          (p, (put_principal p L)\<lparr>pl_checkpoints := omap_set pid [] (pl_checkpoints L)\<rparr>))"

definition add_new :: "'a \<Rightarrow> 'a list \<Rightarrow> 'a list" where
  "add_new x xs = (if x \<in> set xs then xs else xs @ [x])"

definition upsertStream ::
  "PrincipalRecord \<Rightarrow> string \<Rightarrow> string \<Rightarrow> string \<Rightarrow> string \<Rightarrow> MemoryPrincipalSessionLedger \<Rightarrow>
   PrincipalStreamRecord \<times> PrincipalRecord \<times> MemoryPrincipalSessionLedger" where
  "upsertStream p sid provider agentInstanceId providerSessionId L =
     (case map_of (pl_streams L) sid of
        Some st \<Rightarrow>
          let st' = st\<lparr>pst_providerSessionIds := add_new providerSessionId (pst_providerSessionIds st)\<rparr> in
          (st', p, L\<lparr>pl_streams := omap_set sid st' (pl_streams L)\<rparr>)
      | None \<Rightarrow>
          let st = \<lparr>pst_principalId = pn_principalId p, pst_streamId = sid, pst_provider = provider, pst_agentInstanceId = agentInstanceId,
                    pst_providerSessionIds = [providerSessionId], pst_seq = 0, pst_headHash = PRINCIPAL_GENESIS_HASH\<rparr>;
              p' = p\<lparr>pn_streamIds := pn_streamIds p @ [sid]\<rparr> in
          (st, p', (put_principal p' (put_stream st L))\<lparr>pl_events := omap_set sid [] (pl_events L)\<rparr>))"

record event_options =
  eo_providerSessionId :: "string option"
  eo_policyDigest :: "string option"
  eo_proofDigest :: "string option"
  eo_binding :: bool

definition no_options :: event_options where
  "no_options = \<lparr>eo_providerSessionId = None, eo_policyDigest = None, eo_proofDigest = None, eo_binding = False\<rparr>"

definition event_base ::
  "sha_fn \<Rightarrow> int \<Rightarrow> PrincipalStreamRecord \<Rightarrow> PrincipalEventType \<Rightarrow> js_object \<Rightarrow> event_options \<Rightarrow> PrincipalStreamEvent" where
  "event_base S now st eventType payload opts =
     (let sanitizedPayload = sanitizeCaptureValue (JObject payload) [] in
      \<lparr>pe_principalId = pst_principalId st, pe_streamId = pst_streamId st, pe_provider = pst_provider st,
       pe_providerSessionId = eo_providerSessionId opts, pe_agentInstanceId = pst_agentInstanceId st, pe_seq = pst_seq st + 1,
       pe_timestamp = now, pe_eventType = eventType, pe_policyDigest = eo_policyDigest opts, pe_proofDigest = eo_proofDigest opts,
       pe_payloadHash = sha256 S (canonicalJson sanitizedPayload), pe_payload = sanitizedPayload,
       pe_prevHash = pst_headHash st, pe_chainHash = [], pe_bindingHash = None\<rparr>)"

definition appendEventToStream ::
  "sha_fn \<Rightarrow> int \<Rightarrow> PrincipalStreamRecord \<Rightarrow> PrincipalEventType \<Rightarrow> js_object \<Rightarrow> event_options \<Rightarrow> MemoryPrincipalSessionLedger \<Rightarrow>
   PrincipalStreamEvent \<times> MemoryPrincipalSessionLedger" where
  "appendEventToStream S now st eventType payload opts L =
     (let base = event_base S now st eventType payload opts;
          chainHash = computeStreamEventHash S base;
          event = base\<lparr>pe_chainHash := chainHash, pe_bindingHash := if eo_binding opts then Some chainHash else None\<rparr> in
      (event,
       (put_stream (st\<lparr>pst_seq := pst_seq st + 1, pst_headHash := chainHash\<rparr>) L)
         \<lparr>pl_events := omap_set (pst_streamId st) (entries (pst_streamId st) (pl_events L) @ [event]) (pl_events L)\<rparr>))"

text \<open>An assignment to the property \<^verbatim>\<open>__proto__\<close> adds no property.\<close>

definition assign_head :: "string \<Rightarrow> int \<times> string \<Rightarrow> stream_heads \<Rightarrow> stream_heads" where
  "assign_head sid h hs = (if sid = ''__proto__'' then hs else omap_set sid h hs)"

definition current_heads :: "string list \<Rightarrow> MemoryPrincipalSessionLedger \<Rightarrow> stream_heads" where
  "current_heads sids L =
     fold (\<lambda>sid hs. case map_of (pl_streams L) sid of
         Some st \<Rightarrow> assign_head sid (pst_seq st, pst_headHash st) hs
       | None \<Rightarrow> hs) sids []"

definition appendCheckpoint ::
  "sha_fn \<Rightarrow> int \<Rightarrow> PrincipalRecord \<Rightarrow> MemoryPrincipalSessionLedger \<Rightarrow> PrincipalCheckpoint \<times> MemoryPrincipalSessionLedger" where
  "appendCheckpoint S now p L =
     (let base = \<lparr>pk_principalId = pn_principalId p, pk_seq = pn_checkpointSeq p + 1, pk_timestamp = now,
                  pk_streamHeads = current_heads (pn_streamIds p) L, pk_prevHash = pn_checkpointHead p, pk_checkpointHash = []\<rparr>;
          c = base\<lparr>pk_checkpointHash := computeCheckpointHash S base\<rparr> in
      (c,
       (put_principal (p\<lparr>pn_checkpointSeq := pk_seq c, pn_checkpointHead := pk_checkpointHash c, pn_updatedAt := now\<rparr>) L)
         \<lparr>pl_checkpoints := omap_set (pn_principalId p) (entries (pn_principalId p) (pl_checkpoints L) @ [c]) (pl_checkpoints L)\<rparr>))"

text \<open>What a binding writes once its input and proof are checked: readings 1, 2 and 3 of the clock are those of
  the principal, the event and the checkpoint.\<close>

definition bind_update ::
  "sha_fn \<Rightarrow> runtime_process option \<Rightarrow> string \<Rightarrow> (nat \<Rightarrow> int) \<Rightarrow> BindSessionInput \<Rightarrow> string \<Rightarrow> MemoryPrincipalSessionLedger \<Rightarrow>
   SessionBinding \<times> MemoryPrincipalSessionLedger" where
  "bind_update S P isoNow clock input digest L =
     (let (p0, L1) = upsertPrincipal S (clock 1) digest (case bi_authorizationContext input of None \<Rightarrow> [] | Some a \<Rightarrow> a) L;
          agent = agent_of input;
          sid = makeStreamId S (pn_principalId p0) (bi_provider input) agent;
          (st, p1, L2) = upsertStream p0 sid (bi_provider input) agent (bi_providerSessionId input) L1;
          p2 = p1\<lparr>pn_sessionIds := add_new (bi_providerSessionId input) (pn_sessionIds p1),
                   pn_activeSessionIds := add_new (bi_providerSessionId input) (pn_activeSessionIds p1),
                   pn_authorizationContext := (case bi_authorizationContext input of
                      None \<Rightarrow> pn_authorizationContext p1 | Some a \<Rightarrow> spread (pn_authorizationContext p1) a)\<rparr>;
          L3 = put_principal p2 L2;
          runtime = collectRuntimeMetadata P isoNow (case bi_runtimeMetadata input of None \<Rightarrow> [] | Some m \<Rightarrow> m);
          proof = bi_proof input;
          proofDigest = sha256 S (canonicalJson (JObject [(''challengeNonce'', JString (pp_challengeNonce proof)),
             (''signedAt'', JNum (pp_signedAt proof)), (''signature'', JString (pp_signature proof))]));
          (event, L4) = appendEventToStream S (clock 2) st Session_bound
             [(''provider'', JString (bi_provider input)), (''providerSessionId'', JString (bi_providerSessionId input)),
              (''agentInstanceId'', JString agent), (''policyDigest'', JString (bi_policyDigest input)), (''runtime'', runtime),
              (''authorizationContext'', JObject (pn_authorizationContext p2))]
             \<lparr>eo_providerSessionId = Some (bi_providerSessionId input), eo_policyDigest = Some (bi_policyDigest input),
              eo_proofDigest = Some proofDigest, eo_binding = True\<rparr> L3;
          (c, L5) = appendCheckpoint S (clock 3) p2 L4 in
      (\<lparr>sb_principalId = pn_principalId p2, sb_streamId = sid, sb_provider = bi_provider input,
        sb_providerSessionId = bi_providerSessionId input, sb_agentInstanceId = agent, sb_boundAt = pe_timestamp event,
        sb_policyDigest = bi_policyDigest input, sb_authorizationContext = pn_authorizationContext p2, sb_runtime = runtime,
        sb_prevHash = pe_prevHash event, sb_bindingHash = pe_chainHash event, sb_checkpointHash = pk_checkpointHash c\<rparr>, L5))"

definition bindSession ::
  "sha_fn \<Rightarrow> hmac_fn \<Rightarrow> runtime_process option \<Rightarrow> string \<Rightarrow> (nat \<Rightarrow> int) \<Rightarrow> BindSessionInput \<Rightarrow> MemoryPrincipalSessionLedger \<Rightarrow>
   (SessionBinding \<times> MemoryPrincipalSessionLedger) res" where
  "bindSession S H P isoNow clock input L =
     bind_res (assertBindingInput input) (\<lambda>_.
     bind_res (validateHexSecret (bi_principalSecret input)) (\<lambda>_.
     bind_res (principalDigestFromSecret S (bi_principalSecret input)) (\<lambda>digest.
     bind_res (verifyPrincipalSessionProof H (clock 0) input digest) (\<lambda>_.
       Inr (bind_update S P isoNow clock input digest L)))))"

definition mustPrincipal :: "string \<Rightarrow> MemoryPrincipalSessionLedger \<Rightarrow> PrincipalRecord res" where
  "mustPrincipal pid L =
     (case map_of (pl_principals L) pid of None \<Rightarrow> Inl (''Unknown principal: '' @ pid) | Some p \<Rightarrow> Inr p)"

definition appendStreamEvent ::
  "sha_fn \<Rightarrow> (nat \<Rightarrow> int) \<Rightarrow> string \<Rightarrow> string \<Rightarrow> PrincipalEventType \<Rightarrow> js_object \<Rightarrow> MemoryPrincipalSessionLedger \<Rightarrow>
   (PrincipalStreamEvent \<times> MemoryPrincipalSessionLedger) res" where
  "appendStreamEvent S clock pid sid eventType payload L =
     bind_res (mustPrincipal pid L) (\<lambda>p.
       case map_of (pl_streams L) sid of
         None \<Rightarrow> Inl (''Unknown stream for principal: '' @ sid)
       | Some st \<Rightarrow>
           if pst_principalId st \<noteq> pid then Inl (''Unknown stream for principal: '' @ sid)
           else (let (event, L1) = appendEventToStream S (clock 0) st eventType payload no_options L;
                     (c, L2) = appendCheckpoint S (clock 1) p L1 in
                 Inr (event, L2)))"

text \<open>The session leaves the active list before the stream is looked up, also when that throws.\<close>

definition closeSession ::
  "sha_fn \<Rightarrow> (nat \<Rightarrow> int) \<Rightarrow> string \<Rightarrow> string \<Rightarrow> string \<Rightarrow> MemoryPrincipalSessionLedger \<Rightarrow> MemoryPrincipalSessionLedger \<times> unit res" where
  "closeSession S clock pid sid providerSessionId L =
     (case mustPrincipal pid L of
        Inl e \<Rightarrow> (L, Inl e)
      | Inr p \<Rightarrow>
          let L1 = L\<lparr>pl_principals := omap_set pid (p\<lparr>pn_activeSessionIds := filter (\<lambda>i. i \<noteq> providerSessionId) (pn_activeSessionIds p)\<rparr>) (pl_principals L)\<rparr> in
          (case appendStreamEvent S clock pid sid Session_closed [(''providerSessionId'', JString providerSessionId)] L1 of
             Inl e \<Rightarrow> (L1, Inl e)
           | Inr (_, L2) \<Rightarrow> (L2, Inr ())))"

definition getPrincipal :: "string \<Rightarrow> MemoryPrincipalSessionLedger \<Rightarrow> PrincipalRecord option" where
  "getPrincipal pid L = map_of (pl_principals L) pid"

text \<open>Stream identifiers are lower-case, so that \<^verbatim>\<open>localeCompare\<close> orders them by their characters.\<close>

definition queryPrincipalEvents :: "string \<Rightarrow> int \<Rightarrow> MemoryPrincipalSessionLedger \<Rightarrow> PrincipalStreamEvent list res" where
  "queryPrincipalEvents pid limit L =
     bind_res (mustPrincipal pid L) (\<lambda>p.
       let es = sort_key pe_timestamp (sort_key pe_streamId (sort_key pe_seq
                  (concat (map (\<lambda>sid. entries sid (pl_events L)) (pn_streamIds p))))) in
       Inr (js_slice es (- limit) (int (length es))))"

definition snapshotStream :: "string \<Rightarrow> MemoryPrincipalSessionLedger \<Rightarrow> PrincipalStreamEvent list" where
  "snapshotStream sid L = entries sid (pl_events L)"

section \<open>Verification\<close>

record PrincipalChainVerifyResult =
  vr_valid :: bool
  vr_principalId :: string
  vr_brokenAt :: "string option"
  vr_reason :: "string option"

definition broken :: "string \<Rightarrow> string \<Rightarrow> string \<Rightarrow> PrincipalChainVerifyResult" where
  "broken pid at reason = \<lparr>vr_valid = False, vr_principalId = pid, vr_brokenAt = Some at, vr_reason = Some reason\<rparr>"

fun verify_events ::
  "sha_fn \<Rightarrow> string \<Rightarrow> string \<Rightarrow> int \<Rightarrow> string \<Rightarrow> PrincipalStreamEvent list \<Rightarrow> PrincipalChainVerifyResult + string" where
  "verify_events S pid sid i prevHash [] = Inr prevHash"
| "verify_events S pid sid i prevHash (e # es) =
     (let at = sid @ '':'' @ show_int (pe_seq e) in
      if pe_seq e \<noteq> i + 1 then Inl (broken pid at ''non_contiguous_stream_seq'')
      else if pe_prevHash e \<noteq> prevHash then Inl (broken pid at ''broken_stream_link'')
      else if computeStreamEventHash S e \<noteq> pe_chainHash e then Inl (broken pid at ''stream_entry_hash_mismatch'')
      else verify_events S pid sid (i + 1) (pe_chainHash e) es)"

fun verify_streams ::
  "sha_fn \<Rightarrow> string \<Rightarrow> string list \<Rightarrow> stream_heads \<Rightarrow> MemoryPrincipalSessionLedger \<Rightarrow> PrincipalChainVerifyResult + stream_heads" where
  "verify_streams S pid [] heads L = Inr heads"
| "verify_streams S pid (sid # sids) heads L =
     (case map_of (pl_streams L) sid of
        None \<Rightarrow> Inl (broken pid sid ''stream_missing'')
      | Some st \<Rightarrow>
          let es = entries sid (pl_events L) in
          (case verify_events S pid sid 0 PRINCIPAL_GENESIS_HASH es of
             Inl r \<Rightarrow> Inl r
           | Inr prevHash \<Rightarrow>
               if pst_seq st \<noteq> int (length es) \<or> pst_headHash st \<noteq> prevHash then Inl (broken pid sid ''stream_head_mismatch'')
               else verify_streams S pid sids (assign_head sid (pst_seq st, pst_headHash st) heads) L))"

fun verify_checkpoints ::
  "sha_fn \<Rightarrow> string \<Rightarrow> int \<Rightarrow> string \<Rightarrow> PrincipalCheckpoint list \<Rightarrow> PrincipalChainVerifyResult option" where
  "verify_checkpoints S pid i prevHash [] = None"
| "verify_checkpoints S pid i prevHash (c # cs) =
     (let at = ''checkpoint:'' @ show_int (pk_seq c) in
      if pk_seq c \<noteq> i + 1 then Some (broken pid at ''non_contiguous_checkpoint_seq'')
      else if pk_prevHash c \<noteq> prevHash then Some (broken pid at ''broken_checkpoint_link'')
      else if computeCheckpointHash S c \<noteq> pk_checkpointHash c then Some (broken pid at ''checkpoint_hash_mismatch'')
      else verify_checkpoints S pid (i + 1) (pk_checkpointHash c) cs)"

definition valid_result :: "string \<Rightarrow> PrincipalChainVerifyResult" where
  "valid_result pid = \<lparr>vr_valid = True, vr_principalId = pid, vr_brokenAt = None, vr_reason = None\<rparr>"

definition verifyPrincipalContinuity :: "sha_fn \<Rightarrow> string \<Rightarrow> MemoryPrincipalSessionLedger \<Rightarrow> PrincipalChainVerifyResult" where
  "verifyPrincipalContinuity S pid L =
     (case map_of (pl_principals L) pid of
        None \<Rightarrow> \<lparr>vr_valid = False, vr_principalId = pid, vr_brokenAt = None, vr_reason = Some ''principal_not_found''\<rparr>
      | Some p \<Rightarrow>
          (case verify_streams S pid (pn_streamIds p) [] L of
             Inl r \<Rightarrow> r
           | Inr currentHeads \<Rightarrow>
               let cs = entries pid (pl_checkpoints L) in
               (case verify_checkpoints S pid 0 PRINCIPAL_GENESIS_HASH cs of
                  Some r \<Rightarrow> r
                | None \<Rightarrow>
                    if cs = [] \<or> pk_checkpointHash (last cs) \<noteq> pn_checkpointHead p \<or> pk_seq (last cs) \<noteq> pn_checkpointSeq p
                    then broken pid ''checkpoint:head'' ''principal_checkpoint_head_mismatch''
                    else if canonicalJson (heads_value (pk_streamHeads (last cs))) \<noteq> canonicalJson (heads_value currentHeads)
                    then broken pid ''checkpoint:latest'' ''checkpoint_stream_heads_mismatch''
                    else valid_result pid)))"

section \<open>The sealed cache\<close>

datatype cache_source = From_replica | From_sealed_cache

fun source_text :: "cache_source \<Rightarrow> string" where
  "source_text From_replica = ''replica''"
| "source_text From_sealed_cache = ''sealed_cache''"

record SealedPrincipalCache =
  sp_version :: string
  sp_source :: cache_source
  sp_principalId :: string
  sp_policyDigest :: string
  sp_checkpointHash :: string
  sp_issuedAt :: int
  sp_expiresAt :: int
  sp_consumedNonceDigests :: "string list"
  sp_authorizationContext :: js_object
  sp_seal :: string

record SealPrincipalCacheInput =
  si_source :: cache_source
  si_principalId :: string
  si_policyDigest :: string
  si_checkpointHash :: string
  si_issuedAt :: int
  si_expiresAt :: int
  si_consumedNonceDigests :: "string list option"
  si_authorizationContext :: "js_object option"

text \<open>The cache without its seal.\<close>

definition cache_value :: "SealedPrincipalCache \<Rightarrow> jsval" where
  "cache_value c =
     JObject
       [(''version'', JString (sp_version c)), (''source'', JString (source_text (sp_source c))), (''principalId'', JString (sp_principalId c)),
        (''policyDigest'', JString (sp_policyDigest c)), (''checkpointHash'', JString (sp_checkpointHash c)),
        (''issuedAt'', JNum (NInt (sp_issuedAt c))), (''expiresAt'', JNum (NInt (sp_expiresAt c))),
        (''consumedNonceDigests'', JArray (map JString (sp_consumedNonceDigests c))),
        (''authorizationContext'', JObject (sp_authorizationContext c))]"

definition computeCacheSeal :: "hmac_fn \<Rightarrow> SealedPrincipalCache \<Rightarrow> string \<Rightarrow> string res" where
  "computeCacheSeal H c sealKey =
     bind_res (validateHexSecret sealKey) (\<lambda>_. hmac H sealKey (canonicalJson (cache_value c)))"

definition sealPrincipalCache :: "hmac_fn \<Rightarrow> SealPrincipalCacheInput \<Rightarrow> string \<Rightarrow> SealedPrincipalCache res" where
  "sealPrincipalCache H input sealKey =
     (let cache = \<lparr>sp_version = ''1'', sp_source = si_source input, sp_principalId = si_principalId input,
            sp_policyDigest = si_policyDigest input, sp_checkpointHash = si_checkpointHash input, sp_issuedAt = si_issuedAt input,
            sp_expiresAt = si_expiresAt input,
            sp_consumedNonceDigests = (case si_consumedNonceDigests input of None \<Rightarrow> [] | Some ds \<Rightarrow> ds),
            sp_authorizationContext = (case si_authorizationContext input of None \<Rightarrow> [] | Some a \<Rightarrow> a), sp_seal = []\<rparr> in
      bind_res (computeCacheSeal H cache sealKey) (\<lambda>seal. Inr (cache\<lparr>sp_seal := seal\<rparr>)))"

record FallbackAuthorizationResult =
  fb_ok :: bool
  fb_source :: "cache_source option"
  fb_authorizationContext :: "js_object option"
  fb_error :: "string option"

definition fallback_error :: "string \<Rightarrow> FallbackAuthorizationResult" where
  "fallback_error e = \<lparr>fb_ok = False, fb_source = None, fb_authorizationContext = None, fb_error = Some e\<rparr>"

definition verifyFallbackAuthorization ::
  "sha_fn \<Rightarrow> hmac_fn \<Rightarrow> int \<Rightarrow> SealedPrincipalCache \<Rightarrow> string \<Rightarrow> string \<Rightarrow> string \<Rightarrow> string \<Rightarrow> bool \<Rightarrow> FallbackAuthorizationResult res" where
  "verifyFallbackAuthorization S H now cache sealKey requestedPolicyDigest expectedCheckpointHash challengeNonce proofVerified =
     bind_res (computeCacheSeal H cache sealKey) (\<lambda>expectedSeal.
       Inr (if \<not> constantTimeEqual (sp_seal cache) expectedSeal then fallback_error ''cache_seal_invalid''
            else if now < sp_issuedAt cache then fallback_error ''cache_not_yet_valid''
            else if sp_expiresAt cache \<le> now then fallback_error ''cache_expired''
            else if sp_policyDigest cache \<noteq> requestedPolicyDigest then fallback_error ''policy_mismatch''
            else if sp_checkpointHash cache \<noteq> expectedCheckpointHash then fallback_error ''checkpoint_mismatch''
            else if \<not> proofVerified then fallback_error ''fresh_proof_required''
            else if length challengeNonce < 16 then fallback_error ''nonce_too_short''
            else if sha256 S challengeNonce \<in> set (sp_consumedNonceDigests cache) then fallback_error ''nonce_replay''
            else \<lparr>fb_ok = True, fb_source = Some (sp_source cache), fb_authorizationContext = Some (sp_authorizationContext cache),
                  fb_error = None\<rparr>))"

end
