(* ===== verification/Principal_Ledger.thy ===== *)
theory Principal_Ledger
  imports Principal
begin

text \<open>
  What the principal ledger guarantees: its own verification accepts every ledger its operations produce,
  and the head of the checkpoints determines all events and checkpoints.
\<close>

section \<open>Canonical texts bind values\<close>

lemma sortValue_undefined [simp]: "sortValue v = JUndefined \<longleftrightarrow> v = JUndefined"
  by (cases v) auto

lemma canonicalJson_canonical: "canonicalJson v = canonical (sortValue v)"
  unfolding canonicalJson_def
proof (induction v rule: sortValue.induct)
  case (1 vs)
  then have "map (\<lambda>x. json_text (if sortValue x = JUndefined then JNull else sortValue x)) vs =
      map (\<lambda>x. canonical (if sortValue x = JUndefined then JNull else sortValue x)) vs" by simp
  then show ?case by (simp add: comp_def del: map_eq_conv)
next
  case (2 ps)
  let ?qs = "sort_key fst (filter (\<lambda>p. fst p \<noteq> ''__proto__'') ps)"
  let ?rs = "sort_key fst (filter (\<lambda>p. snd p \<noteq> JUndefined) (filter (\<lambda>p. fst p \<noteq> ''__proto__'') ps))"
  have f: "filter (\<lambda>p. snd p \<noteq> JUndefined) (map (\<lambda>p. (fst p, sortValue (snd p))) ?qs) = map (\<lambda>p. (fst p, sortValue (snd p))) ?rs"
    by (simp add: filter_map comp_def filter_sort)
  have "map (\<lambda>p. json_string (fst p) @ CHR '':'' # json_text (sortValue (snd p))) ?rs =
      map (\<lambda>p. json_string (fst p) @ CHR '':'' # canonical (sortValue (snd p))) ?rs"
    using 2 by (intro map_cong) auto
  then show ?case by (simp add: f sorted_content comp_def del: map_eq_conv)
qed simp_all

lemma integral_sortValue: "integral v \<Longrightarrow> integral (sortValue v)"
  by (induction v rule: sortValue.induct) auto

text \<open>What a text binds of a value.\<close>

definition bound :: "jsval \<Rightarrow> jsval" where
  "bound v = content (sortValue v)"

lemma canonicalJson_bound:
  assumes "integral v" "integral w" "v \<noteq> JUndefined" "w \<noteq> JUndefined" "canonicalJson v = canonicalJson w"
  shows "bound v = bound w"
  unfolding bound_def
  using canonical_prefix [of "sortValue v" "[]" "sortValue w" "[]"] assms integral_sortValue
  by (simp add: canonicalJson_canonical)

section \<open>The two chains\<close>

lemma integral_event_value: "integral (event_value e) \<longleftrightarrow> integral (pe_payload e)"
  by (auto simp: event_value_def Let_def js_nullish_def split: option.splits)

lemma integral_heads_value [simp]: "integral (heads_value hs)"
  by (auto simp: heads_value_def)

lemma integral_checkpoint_value [simp]: "integral (checkpoint_value c)"
  by (auto simp: checkpoint_value_def heads_value_def)

definition clash :: "sha_fn \<Rightarrow> jsval \<Rightarrow> jsval \<Rightarrow> bool" where
  "clash S v w \<longleftrightarrow> \<not> integral v \<or> \<not> integral w \<or>
     canonicalJson v \<noteq> canonicalJson w \<and> sha256 S (canonicalJson v) = sha256 S (canonicalJson w)"

lemma event_text_inject [simp]: "event_text a = event_text b \<longleftrightarrow> a = b"
  by (cases a; cases b) simp_all

lemma bound_event:
  assumes "bound (event_value e) = bound (event_value f)"
  shows "pe_seq e = pe_seq f" "pe_prevHash e = pe_prevHash f" "pe_principalId e = pe_principalId f" "pe_streamId e = pe_streamId f"
    "pe_provider e = pe_provider f" "pe_providerSessionId e = pe_providerSessionId f" "pe_agentInstanceId e = pe_agentInstanceId f"
    "pe_timestamp e = pe_timestamp f" "pe_eventType e = pe_eventType f" "pe_policyDigest e = pe_policyDigest f"
    "pe_proofDigest e = pe_proofDigest f" "pe_payloadHash e = pe_payloadHash f"
  using assms by (auto simp: bound_def event_value_def Let_def split: option.splits)

lemma bound_checkpoint:
  assumes "bound (checkpoint_value c) = bound (checkpoint_value d)"
  shows "pk_seq c = pk_seq d" "pk_prevHash c = pk_prevHash d" "pk_principalId c = pk_principalId d" "pk_timestamp c = pk_timestamp d"
    "bound (heads_value (pk_streamHeads c)) = bound (heads_value (pk_streamHeads d))"
  using assms by (auto simp: bound_def checkpoint_value_def heads_value_def)

lemma event_value_defined [simp]: "event_value e \<noteq> JUndefined" "checkpoint_value c \<noteq> JUndefined"
  by (simp_all add: event_value_def checkpoint_value_def Let_def)

interpretation event_chain: hash_chain pe_seq pe_prevHash "computeStreamEventHash S" pe_chainHash
  "\<lambda>e. bound (event_value e)" "\<lambda>e f. clash S (event_value e) (event_value f)"
proof
  show "bound (event_value e) = bound (event_value f)"
    if "computeStreamEventHash S e = computeStreamEventHash S f" "\<not> clash S (event_value e) (event_value f)" for e f
    using that canonicalJson_bound [of "event_value e" "event_value f"] by (simp add: clash_def computeStreamEventHash_def)
qed (auto dest: bound_event)

interpretation checkpoint_chain: hash_chain pk_seq pk_prevHash "computeCheckpointHash S" pk_checkpointHash
  "\<lambda>c. bound (checkpoint_value c)" "\<lambda>c d. clash S (checkpoint_value c) (checkpoint_value d)"
proof
  show "bound (checkpoint_value c) = bound (checkpoint_value d)"
    if "computeCheckpointHash S c = computeCheckpointHash S d" "\<not> clash S (checkpoint_value c) (checkpoint_value d)" for c d
    using that canonicalJson_bound [of "checkpoint_value c" "checkpoint_value d"] by (simp add: clash_def computeCheckpointHash_def)
qed (auto dest: bound_checkpoint)

abbreviation event_log :: "sha_fn \<Rightarrow> PrincipalStreamEvent list \<Rightarrow> bool" where
  "event_log S \<equiv> linked pe_seq pe_prevHash (computeStreamEventHash S) pe_chainHash 1 PRINCIPAL_GENESIS_HASH"

abbreviation checkpoint_log :: "sha_fn \<Rightarrow> PrincipalCheckpoint list \<Rightarrow> bool" where
  "checkpoint_log S \<equiv> linked pk_seq pk_prevHash (computeCheckpointHash S) pk_checkpointHash 1 PRINCIPAL_GENESIS_HASH"

abbreviation event_head :: "PrincipalStreamEvent list \<Rightarrow> string" where
  "event_head \<equiv> chain_head pe_chainHash PRINCIPAL_GENESIS_HASH"

abbreviation checkpoint_head :: "PrincipalCheckpoint list \<Rightarrow> string" where
  "checkpoint_head \<equiv> chain_head pk_checkpointHash PRINCIPAL_GENESIS_HASH"

section \<open>What the verification decides\<close>

lemma verify_events_iff:
  "verify_events S pid sid i h es = Inr h' \<longleftrightarrow>
     linked pe_seq pe_prevHash (computeStreamEventHash S) pe_chainHash (i + 1) h es \<and> h' = chain_head pe_chainHash h es"
  by (induction S pid sid i h es rule: verify_events.induct) (auto simp: Let_def)

lemma verify_checkpoints_iff:
  "verify_checkpoints S pid i h cs = None \<longleftrightarrow> linked pk_seq pk_prevHash (computeCheckpointHash S) pk_checkpointHash (i + 1) h cs"
  by (induction S pid i h cs rule: verify_checkpoints.induct) (auto simp: Let_def)

definition stream_ok :: "sha_fn \<Rightarrow> string \<Rightarrow> MemoryPrincipalSessionLedger \<Rightarrow> bool" where
  "stream_ok S sid L \<longleftrightarrow>
     (case map_of (pl_streams L) sid of
        None \<Rightarrow> False
      | Some st \<Rightarrow> event_log S (entries sid (pl_events L)) \<and> pst_seq st = int (length (entries sid (pl_events L))) \<and>
          pst_headHash st = event_head (entries sid (pl_events L)))"

definition collect_heads :: "string list \<Rightarrow> stream_heads \<Rightarrow> MemoryPrincipalSessionLedger \<Rightarrow> stream_heads" where
  "collect_heads sids hs L =
     fold (\<lambda>sid hs. case map_of (pl_streams L) sid of
         Some st \<Rightarrow> assign_head sid (pst_seq st, pst_headHash st) hs
       | None \<Rightarrow> hs) sids hs"

lemma collect_heads_simps [simp]:
  "collect_heads [] hs L = hs"
  "collect_heads (sid # sids) hs L =
     collect_heads sids (case map_of (pl_streams L) sid of
         Some st \<Rightarrow> assign_head sid (pst_seq st, pst_headHash st) hs | None \<Rightarrow> hs) L"
  by (simp_all add: collect_heads_def)

lemma verify_streams_iff:
  "verify_streams S pid sids hs L = Inr hs' \<longleftrightarrow> (\<forall>sid \<in> set sids. stream_ok S sid L) \<and> hs' = collect_heads sids hs L"
proof (induction sids arbitrary: hs)
  case (Cons sid sids)
  show ?case
  proof (cases "map_of (pl_streams L) sid")
    case (Some st)
    show ?thesis
    proof (cases "verify_events S pid sid 0 PRINCIPAL_GENESIS_HASH (entries sid (pl_events L))")
      case (Inr h)
      then show ?thesis using Some Cons verify_events_iff [of S pid sid 0 PRINCIPAL_GENESIS_HASH "entries sid (pl_events L)" h]
        by (auto simp: stream_ok_def Let_def)
    next
      case (Inl r)
      then show ?thesis using Some verify_events_iff [of S pid sid 0 PRINCIPAL_GENESIS_HASH "entries sid (pl_events L)"]
        by (auto simp: stream_ok_def Let_def)
    qed
  qed (simp add: stream_ok_def)
qed auto

definition continuous :: "sha_fn \<Rightarrow> string \<Rightarrow> PrincipalRecord \<Rightarrow> MemoryPrincipalSessionLedger \<Rightarrow> bool" where
  "continuous S pid p L \<longleftrightarrow>
     (\<forall>sid \<in> set (pn_streamIds p). stream_ok S sid L) \<and>
     (let cs = entries pid (pl_checkpoints L) in
      checkpoint_log S cs \<and> cs \<noteq> [] \<and> pn_checkpointHead p = pk_checkpointHash (last cs) \<and> pn_checkpointSeq p = pk_seq (last cs) \<and>
      canonicalJson (heads_value (pk_streamHeads (last cs))) = canonicalJson (heads_value (current_heads (pn_streamIds p) L)))"

lemma broken_invalid [simp]: "\<not> vr_valid (broken pid at r)" "vr_valid (valid_result pid)"
  by (simp_all add: broken_def valid_result_def)

lemma verify_events_invalid: "verify_events S pid sid i h es = Inl r \<Longrightarrow> \<not> vr_valid r"
  by (induction S pid sid i h es rule: verify_events.induct) (auto simp: Let_def split: if_splits)

lemma verify_streams_invalid: "verify_streams S pid sids hs L = Inl r \<Longrightarrow> \<not> vr_valid r"
  by (induction S pid sids hs L rule: verify_streams.induct)
    (auto simp: Let_def dest: verify_events_invalid split: if_splits option.splits sum.splits)

lemma verify_checkpoints_invalid: "verify_checkpoints S pid i h cs = Some r \<Longrightarrow> \<not> vr_valid r"
  by (induction S pid i h cs rule: verify_checkpoints.induct) (auto simp: Let_def split: if_splits)

lemma verify_iff:
  "verifyPrincipalContinuity S pid L = valid_result pid \<longleftrightarrow> (\<exists>p. map_of (pl_principals L) pid = Some p \<and> continuous S pid p L)"
proof (cases "map_of (pl_principals L) pid")
  case (Some p)
  show ?thesis
  proof (cases "verify_streams S pid (pn_streamIds p) [] L")
    case (Inl r)
    then have "\<not> (\<forall>sid \<in> set (pn_streamIds p). stream_ok S sid L)"
      using verify_streams_iff [of S pid "pn_streamIds p" "[]" L] by auto
    moreover have "r \<noteq> valid_result pid" using verify_streams_invalid [OF Inl] by auto
    ultimately show ?thesis using Inl Some by (simp add: verifyPrincipalContinuity_def continuous_def)
  next
    case (Inr hs)
    then have hs: "(\<forall>sid \<in> set (pn_streamIds p). stream_ok S sid L)" "hs = current_heads (pn_streamIds p) L"
      by (simp_all add: verify_streams_iff collect_heads_def current_heads_def)
    show ?thesis
    proof (cases "verify_checkpoints S pid 0 PRINCIPAL_GENESIS_HASH (entries pid (pl_checkpoints L))")
      case None
      then have "checkpoint_log S (entries pid (pl_checkpoints L))" by (simp add: verify_checkpoints_iff)
      moreover have "broken pid a b \<noteq> valid_result pid" for a b using broken_invalid by metis
      ultimately show ?thesis using Some Inr None hs
        by (auto simp: verifyPrincipalContinuity_def continuous_def Let_def)
    next
      case (Some r)
      then have "\<not> checkpoint_log S (entries pid (pl_checkpoints L))"
        using verify_checkpoints_iff [of S pid 0 PRINCIPAL_GENESIS_HASH "entries pid (pl_checkpoints L)"] by auto
      moreover have "r \<noteq> valid_result pid" using verify_checkpoints_invalid [OF Some] by auto
      ultimately show ?thesis using Inr Some \<open>map_of (pl_principals L) pid = Some p\<close>
        by (simp add: verifyPrincipalContinuity_def continuous_def Let_def)
    qed
  qed
qed (simp add: verifyPrincipalContinuity_def valid_result_def)

section \<open>The head of the checkpoints determines the history\<close>

lemma linked_last:
  "linked number prev compute stored 1 h es \<Longrightarrow> es \<noteq> [] \<Longrightarrow> number (last es) = int (length es)"
  by (cases es rule: rev_cases) (auto simp: linked_append)

lemma map_of_collect_heads:
  "map_of (collect_heads sids hs L) sid =
     (case map_of (pl_streams L) sid of
        Some st \<Rightarrow> if sid \<in> set sids \<and> sid \<noteq> ''__proto__'' then Some (pst_seq st, pst_headHash st) else map_of hs sid
      | None \<Rightarrow> map_of hs sid)"
  by (induction sids arbitrary: hs) (auto simp: assign_head_def split: option.splits)

lemma collect_heads_keys:
  "distinct (map fst hs) \<and> map_of hs ''__proto__'' = None \<Longrightarrow>
   distinct (map fst (collect_heads sids hs L)) \<and> map_of (collect_heads sids hs L) ''__proto__'' = None"
proof (induction sids arbitrary: hs)
  case (Cons sid sids)
  show ?case unfolding collect_heads_simps
    by (rule Cons.IH) (use Cons.prems in \<open>auto simp: assign_head_def distinct_omap_set split: option.splits\<close>)
qed simp

lemmas current_heads_collect = collect_heads_def [of sids "[]" L for sids L, folded current_heads_def]

lemma map_of_sort_key: "distinct (map fst ps) \<Longrightarrow> map_of (sort_key fst ps) = map_of ps"
  using distinct_sorted_members [of ps "\<lambda>_. True"] by (subst map_of_inject_set) simp_all

lemma js_get_bound_heads:
  assumes "distinct (map fst hs)" "''__proto__'' \<notin> fst ` set hs"
  shows "js_get (bound (heads_value hs)) sid =
    (case map_of hs sid of None \<Rightarrow> JUndefined
     | Some (n, h) \<Rightarrow> bound (JObject [(''seq'', JNum (NInt n)), (''chainHash'', JString h)]))"
proof -
  define g where "g = (\<lambda>nh. JObject [(''seq'', JNum (NInt (fst nh))), (''chainHash'', JString (snd nh))])"
  define ps where "ps = map (\<lambda>p. (fst p, g (snd p))) hs"
  have ps: "heads_value hs = JObject ps" by (auto simp: heads_value_def ps_def g_def)
  have keys: "map fst ps = map fst hs" by (simp add: ps_def comp_def)
  have f: "filter (\<lambda>p. fst p \<noteq> ''__proto__'') ps = ps" using assms(2) by (force simp: ps_def filter_id_conv)
  let ?qs = "map (\<lambda>p. (fst p, sortValue (snd p))) (sort_key fst ps)"
  have "distinct (map fst ?qs)" using distinct_sorted_members [of ps "\<lambda>_. True"] assms(1) keys by (simp add: comp_def)
  then have "js_get (bound (heads_value hs)) sid = content (js_get (JObject ?qs) sid)"
    unfolding ps bound_def by (simp add: f js_get_content del: js_get.simps content.simps)
  also have "map_of ?qs sid = map_option (\<lambda>nh. sortValue (g nh)) (map_of hs sid)"
  proof -
    have "map_of (sort_key fst ps) = map_of ps" by (rule map_of_sort_key) (simp add: keys assms(1))
    moreover have "map_of ps sid = map_option g (map_of hs sid)" unfolding ps_def by (rule map_of_map_snd)
    ultimately show ?thesis unfolding map_of_map_snd by (simp add: option.map_comp comp_def)
  qed
  then have "content (js_get (JObject ?qs) sid) = (case map_of hs sid of None \<Rightarrow> JUndefined | Some nh \<Rightarrow> bound (g nh))"
    by (auto simp: bound_def split: option.splits)
  finally show ?thesis by (auto simp: g_def split: option.splits)
qed

lemma bound_head_inject:
  "bound (JObject [(''seq'', JNum (NInt n)), (''chainHash'', JString h)]) = bound (JObject [(''seq'', JNum (NInt m)), (''chainHash'', JString k)]) \<longleftrightarrow>
     n = m \<and> h = k"
  "bound (JObject [(''seq'', JNum (NInt n)), (''chainHash'', JString h)]) \<noteq> JUndefined"
  by (auto simp: bound_def)

lemma heads_determined:
  assumes "bound (heads_value (current_heads sids L)) = bound (heads_value (current_heads sids' L'))"
  shows "map_of (current_heads sids L) sid = map_of (current_heads sids' L') sid"
proof -
  have k: "distinct (map fst (current_heads ids M)) \<and> ''__proto__'' \<notin> fst ` set (current_heads ids M)" for ids M
    using collect_heads_keys [of "[]" ids M] by (simp add: current_heads_collect map_of_eq_None_iff)
  show ?thesis
    using js_get_bound_heads [of "current_heads sids L" sid] js_get_bound_heads [of "current_heads sids' L'" sid] k assms
    by (auto simp: bound_head_inject bound_head_inject(2) [THEN not_sym] split: option.splits)
qed

text \<open>Events and checkpoints that agree in all that is hashed; the copy of the hash in a binding event is not.\<close>

definition same_event :: "PrincipalStreamEvent \<Rightarrow> PrincipalStreamEvent \<Rightarrow> bool" where
  "same_event e f \<longleftrightarrow>
     e\<lparr>pe_payload := JNull, pe_bindingHash := None\<rparr> = f\<lparr>pe_payload := JNull, pe_bindingHash := None\<rparr> \<and>
     bound (if js_nullish (pe_payload e) then JObject [] else pe_payload e) = bound (if js_nullish (pe_payload f) then JObject [] else pe_payload f)"

definition same_checkpoint :: "PrincipalCheckpoint \<Rightarrow> PrincipalCheckpoint \<Rightarrow> bool" where
  "same_checkpoint c d \<longleftrightarrow>
     c\<lparr>pk_streamHeads := []\<rparr> = d\<lparr>pk_streamHeads := []\<rparr> \<and> bound (heads_value (pk_streamHeads c)) = bound (heads_value (pk_streamHeads d))"

lemma bound_payload:
  "(case bound (event_value e) of JArray vs \<Rightarrow> last vs | _ \<Rightarrow> JNull) = bound (if js_nullish (pe_payload e) then JObject [] else pe_payload e)"
  by (cases "js_nullish (pe_payload e)") (auto simp: bound_def event_value_def Let_def js_nullish_def)

lemma same_eventI:
  assumes "bound (event_value e) = bound (event_value f)" and "pe_chainHash e = pe_chainHash f"
  shows "same_event e f"
  unfolding same_event_def
proof
  show "e\<lparr>pe_payload := JNull, pe_bindingHash := None\<rparr> = f\<lparr>pe_payload := JNull, pe_bindingHash := None\<rparr>"
    using bound_event [OF assms(1)] assms(2) by (cases e; cases f) simp
  show "bound (if js_nullish (pe_payload e) then JObject [] else pe_payload e) = bound (if js_nullish (pe_payload f) then JObject [] else pe_payload f)"
    using bound_payload [of e] bound_payload [of f] assms(1) by simp
qed

lemma same_checkpointI:
  "bound (checkpoint_value c) = bound (checkpoint_value d) \<Longrightarrow> pk_checkpointHash c = pk_checkpointHash d \<Longrightarrow> same_checkpoint c d"
  using bound_checkpoint [of c d] by (cases c; cases d) (simp add: same_checkpoint_def)

lemma list_all2_of_maps:
  assumes "map f xs = map f ys" "map g xs = map g ys" "\<And>x y. f x = f y \<Longrightarrow> g x = g y \<Longrightarrow> P x y"
  shows "list_all2 P xs ys"
  using assms(1,2)
proof (induction xs arbitrary: ys)
  case (Cons x xs)
  then show ?case by (cases ys) (auto intro: assms(3))
qed simp

definition hashed :: "string \<Rightarrow> MemoryPrincipalSessionLedger \<Rightarrow> jsval list" where
  "hashed pid L =
     map checkpoint_value (entries pid (pl_checkpoints L)) @
     (case map_of (pl_principals L) pid of
        None \<Rightarrow> []
      | Some p \<Rightarrow> concat (map (\<lambda>sid. map event_value (entries sid (pl_events L))) (pn_streamIds p)))"

lemma checkpoints_determined:
  assumes "checkpoint_log S cs" "checkpoint_log S cs'" "cs \<noteq> []" "cs' \<noteq> []" "pk_seq (last cs) = pk_seq (last cs')"
    "pk_checkpointHash (last cs) = pk_checkpointHash (last cs')"
    "\<And>c d. c \<in> set cs \<Longrightarrow> d \<in> set cs' \<Longrightarrow> \<not> clash S (checkpoint_value c) (checkpoint_value d)"
  shows "list_all2 same_checkpoint cs cs'"
proof -
  have "length cs = length cs'" using linked_last [OF assms(1,3)] linked_last [OF assms(2,4)] assms(5) by simp
  moreover have "checkpoint_head cs = checkpoint_head cs'" using assms(3,4,6) by (simp add: chain_head_def)
  ultimately have "map (\<lambda>c. bound (checkpoint_value c)) cs = map (\<lambda>c. bound (checkpoint_value c)) cs' \<and>
      map pk_checkpointHash cs = map pk_checkpointHash cs'"
    by (rule checkpoint_chain.head_determines_log [OF assms(1,2)]) (rule assms(7))
  then show ?thesis by (intro list_all2_of_maps [of "\<lambda>c. bound (checkpoint_value c)" cs cs' pk_checkpointHash]) (auto intro: same_checkpointI)
qed

lemma events_determined:
  assumes "stream_ok S sid L" "stream_ok S sid L'" "map_of (pl_streams L) sid = Some st" "map_of (pl_streams L') sid = Some st'"
    "pst_seq st = pst_seq st'" "pst_headHash st = pst_headHash st'"
    "\<And>e f. e \<in> set (entries sid (pl_events L)) \<Longrightarrow> f \<in> set (entries sid (pl_events L')) \<Longrightarrow> \<not> clash S (event_value e) (event_value f)"
  shows "list_all2 same_event (entries sid (pl_events L)) (entries sid (pl_events L'))"
proof -
  let ?es = "entries sid (pl_events L)" and ?fs = "entries sid (pl_events L')"
  have "map (\<lambda>c. bound (event_value c)) ?es = map (\<lambda>c. bound (event_value c)) ?fs \<and> map pe_chainHash ?es = map pe_chainHash ?fs"
    using assms(1-6) by (intro event_chain.head_determines_log [where S = S and h = PRINCIPAL_GENESIS_HASH] assms(7)) (auto simp: stream_ok_def)
  then show ?thesis by (intro list_all2_of_maps [of "\<lambda>c. bound (event_value c)" ?es ?fs pe_chainHash]) (auto intro: same_eventI)
qed

lemma heads_listed:
  "\<forall>sid \<in> set sids. stream_ok S sid L \<Longrightarrow> map_of (current_heads sids L) sid \<noteq> None \<longleftrightarrow> sid \<in> set sids - {''__proto__''}"
  using map_of_collect_heads [of sids "[]" L sid]
  by (auto simp: current_heads_collect stream_ok_def split: option.splits if_splits)

text \<open>C29: The checkpoint head of a principal fixes its history. Let two ledgers, for instance a copy kept elsewhere and
  one that was tampered with, both pass the verification for a principal and agree in the head and number of
  its checkpoints, and let the hash not collide on what they hash. Then they have the same checkpoints
  and the same streams with the same events, in every field that is hashed, payloads included.\<close>

theorem checkpoint_binds_history:
  assumes valid: "verifyPrincipalContinuity S pid L = valid_result pid" "verifyPrincipalContinuity S pid L' = valid_result pid"
    and p: "map_of (pl_principals L) pid = Some p" "map_of (pl_principals L') pid = Some p'"
    and head: "pn_checkpointHead p = pn_checkpointHead p'" "pn_checkpointSeq p = pn_checkpointSeq p'"
    and no_clash: "\<forall>v \<in> set (hashed pid L). \<forall>w \<in> set (hashed pid L'). \<not> clash S v w"
  shows "list_all2 same_checkpoint (entries pid (pl_checkpoints L)) (entries pid (pl_checkpoints L')) \<and>
    set (pn_streamIds p) - {''__proto__''} = set (pn_streamIds p') - {''__proto__''} \<and>
    (\<forall>sid \<in> set (pn_streamIds p) - {''__proto__''}. list_all2 same_event (entries sid (pl_events L)) (entries sid (pl_events L')))"
proof -
  let ?cs = "entries pid (pl_checkpoints L)" and ?cs' = "entries pid (pl_checkpoints L')"
  have c: "continuous S pid p L" "continuous S pid p' L'" using valid p by (auto simp: verify_iff)
  note c = c [unfolded continuous_def Let_def]
  have cps: "list_all2 same_checkpoint ?cs ?cs'"
    by (rule checkpoints_determined [of S]) (use c head no_clash in \<open>auto simp: hashed_def\<close>)
  have cs: "?cs \<noteq> []" "?cs' \<noteq> []" using c by blast+
  have "same_checkpoint (last ?cs) (last ?cs')" using list_all2_nthD [OF cps, of "length ?cs - 1"] list_all2_lengthD [OF cps] cs
    by (simp add: last_conv_nth)
  moreover have "bound (heads_value (pk_streamHeads (last ?cs))) = bound (heads_value (current_heads (pn_streamIds p) L))"
    "bound (heads_value (pk_streamHeads (last ?cs'))) = bound (heads_value (current_heads (pn_streamIds p') L'))"
    using c by (auto intro!: canonicalJson_bound simp: heads_value_def)
  ultimately have heads: "map_of (current_heads (pn_streamIds p) L) sid = map_of (current_heads (pn_streamIds p') L') sid" for sid
    by (intro heads_determined) (simp add: same_checkpoint_def)
  note look = map_of_collect_heads [of _ "[]", unfolded current_heads_collect]
  have ids: "set (pn_streamIds p) - {''__proto__''} = set (pn_streamIds p') - {''__proto__''}"
    by (rule set_eqI) (simp only: heads heads_listed [OF conjunct1 [OF c(1)], symmetric] heads_listed [OF conjunct1 [OF c(2)], symmetric])
  moreover have "list_all2 same_event (entries sid (pl_events L)) (entries sid (pl_events L'))" if sid: "sid \<in> set (pn_streamIds p) - {''__proto__''}" for sid
  proof -
    have sid': "sid \<in> set (pn_streamIds p')" using sid ids by blast
    have ok: "stream_ok S sid L" "stream_ok S sid L'" using c sid sid' by blast+
    obtain st st' where st: "map_of (pl_streams L) sid = Some st" "map_of (pl_streams L') sid = Some st'" using ok by (auto simp: stream_ok_def split: option.splits)
    have "pst_seq st = pst_seq st' \<and> pst_headHash st = pst_headHash st'" using heads [of sid] sid sid' st by (simp add: look)
    then show ?thesis
      by (intro events_determined [OF ok st]) (use no_clash p sid sid' in \<open>fastforce simp: hashed_def\<close>)+
  qed
  ultimately show ?thesis using cps by blast
qed

section \<open>Every ledger the operations produce verifies\<close>

text \<open>Streams belong to exactly one principal and are well formed; the checkpoints of a principal are linked and
  counted; the last one holds the present heads. Within an operation the last part fails for the principal
  it works on.\<close>

definition owner :: "MemoryPrincipalSessionLedger \<Rightarrow> string \<Rightarrow> string option" where
  "owner L sid = map_option pst_principalId (map_of (pl_streams L) sid)"

definition streams_inv :: "sha_fn \<Rightarrow> MemoryPrincipalSessionLedger \<Rightarrow> bool" where
  "streams_inv S L \<longleftrightarrow>
     (\<forall>pid p. map_of (pl_principals L) pid = Some p \<longrightarrow>
        pn_principalId p = pid \<and> (\<forall>sid. sid \<in> set (pn_streamIds p) \<longleftrightarrow> owner L sid = Some pid)) \<and>
     (\<forall>sid st. map_of (pl_streams L) sid = Some st \<longrightarrow>
        pst_streamId st = sid \<and> stream_ok S sid L \<and> map_of (pl_principals L) (pst_principalId st) \<noteq> None)"

definition counted :: "sha_fn \<Rightarrow> string \<Rightarrow> PrincipalRecord \<Rightarrow> MemoryPrincipalSessionLedger \<Rightarrow> bool" where
  "counted S pid p L \<longleftrightarrow>
     (let cs = entries pid (pl_checkpoints L) in
      checkpoint_log S cs \<and> pn_checkpointSeq p = int (length cs) \<and> pn_checkpointHead p = checkpoint_head cs)"

definition current :: "string \<Rightarrow> PrincipalRecord \<Rightarrow> MemoryPrincipalSessionLedger \<Rightarrow> bool" where
  "current pid p L \<longleftrightarrow>
     (let cs = entries pid (pl_checkpoints L) in cs \<noteq> [] \<and> pk_streamHeads (last cs) = current_heads (pn_streamIds p) L)"

definition ledger_inv_but :: "sha_fn \<Rightarrow> string set \<Rightarrow> MemoryPrincipalSessionLedger \<Rightarrow> bool" where
  "ledger_inv_but S X L \<longleftrightarrow> streams_inv S L \<and>
     (\<forall>pid p. map_of (pl_principals L) pid = Some p \<longrightarrow> counted S pid p L \<and> (pid \<notin> X \<longrightarrow> current pid p L))"

abbreviation ledger_inv :: "sha_fn \<Rightarrow> MemoryPrincipalSessionLedger \<Rightarrow> bool" where
  "ledger_inv S \<equiv> ledger_inv_but S {}"

lemma current_heads_cong:
  assumes "\<And>sid. sid \<in> set sids \<Longrightarrow>
    map_option (\<lambda>st. (pst_seq st, pst_headHash st)) (map_of (pl_streams L') sid) = map_option (\<lambda>st. (pst_seq st, pst_headHash st)) (map_of (pl_streams L) sid)"
  shows "current_heads sids L' = current_heads sids L"
  unfolding current_heads_def
proof (rule fold_cong [OF refl refl])
  fix sid
  assume "sid \<in> set sids"
  then show "(\<lambda>hs. case map_of (pl_streams L') sid of Some st \<Rightarrow> assign_head sid (pst_seq st, pst_headHash st) hs | None \<Rightarrow> hs) =
      (\<lambda>hs. case map_of (pl_streams L) sid of Some st \<Rightarrow> assign_head sid (pst_seq st, pst_headHash st) hs | None \<Rightarrow> hs)"
    using assms [of sid] by (auto simp: fun_eq_iff split: option.splits)
qed

lemma entries_set [simp]: "entries k (omap_set k' v m) = (if k = k' then v else entries k m)"
  by (simp add: entries_def)

text \<open>A change of one stream of a principal, with its events, that keeps the chain.\<close>

lemma stream_update_inv:
  assumes inv: "ledger_inv_but S X L" and st: "map_of (pl_streams L) sid = Some st"
    and st': "pst_streamId st' = sid" "pst_principalId st' = pst_principalId st"
    and ok: "event_log S es" "pst_seq st' = int (length es)" "pst_headHash st' = event_head es"
    and X: "pst_principalId st \<in> X"
    and L': "pl_principals L' = pl_principals L" "pl_checkpoints L' = pl_checkpoints L" "pl_streams L' = omap_set sid st' (pl_streams L)"
      "\<And>k. entries k (pl_events L') = (if k = sid then es else entries k (pl_events L))"
  shows "ledger_inv_but S X L'"
proof -
  have si: "streams_inv S L" using inv by (simp add: ledger_inv_but_def)
  have ok': "stream_ok S k L' \<longleftrightarrow> (if k = sid then True else stream_ok S k L)" for k
    using ok by (simp add: stream_ok_def L' split: option.split)
  have "owner L' = owner L" using st st' by (auto simp: owner_def fun_eq_iff L')
  then have "streams_inv S L'" using si st st' by (auto simp: streams_inv_def ok' L' split: if_splits)
  moreover have "current pid p L'" if "map_of (pl_principals L) pid = Some p" "pid \<notin> X" for pid p
  proof -
    have "current pid p L" using inv that by (simp add: ledger_inv_but_def)
    moreover have "sid \<notin> set (pn_streamIds p)" using si that st X by (auto simp: streams_inv_def owner_def)
    then have "current_heads (pn_streamIds p) L' = current_heads (pn_streamIds p) L" by (intro current_heads_cong) (auto simp: L')
    ultimately show ?thesis by (simp add: current_def L')
  qed
  ultimately show ?thesis using inv by (simp add: ledger_inv_but_def counted_def L')
qed

text \<open>A principal may be rewritten as long as its streams and its checkpoints stay.\<close>

lemma principal_update_inv:
  assumes inv: "ledger_inv_but S X L" and p: "map_of (pl_principals L) pid = Some p"
    and p': "pn_principalId p' = pid" "pn_streamIds p' = pn_streamIds p"
      "pn_checkpointSeq p' = pn_checkpointSeq p" "pn_checkpointHead p' = pn_checkpointHead p"
  shows "ledger_inv_but S X (L\<lparr>pl_principals := omap_set pid p' (pl_principals L)\<rparr>)" (is "ledger_inv_but S X ?L")
proof -
  have "stream_ok S k ?L = stream_ok S k L" for k by (simp add: stream_ok_def split: option.split)
  moreover have "owner ?L = owner L" by (simp add: owner_def fun_eq_iff)
  ultimately have "streams_inv S ?L" using inv p p' by (auto simp: ledger_inv_but_def streams_inv_def split: if_splits)
  moreover have "current_heads sids ?L = current_heads sids L" for sids by (simp add: current_heads_def)
  ultimately show ?thesis using inv p p' by (auto simp: ledger_inv_but_def counted_def current_def)
qed

lemma event_hash_stored [simp]:
  "computeStreamEventHash S (e\<lparr>pe_chainHash := h, pe_bindingHash := b\<rparr>) = computeStreamEventHash S e"
  by (simp add: computeStreamEventHash_def event_value_def)

lemma event_base_simps [simp]:
  "pe_seq (event_base S now st ty payload opts) = pst_seq st + 1" "pe_prevHash (event_base S now st ty payload opts) = pst_headHash st"
  by (simp_all add: event_base_def Let_def)

lemma append_event_Pair:
  assumes "appendEventToStream S now st ty payload opts L = (e, L')"
  shows "L' = L\<lparr>pl_streams := omap_set (pst_streamId st) (st\<lparr>pst_seq := pst_seq st + 1, pst_headHash := pe_chainHash e\<rparr>) (pl_streams L),
      pl_events := omap_set (pst_streamId st) (entries (pst_streamId st) (pl_events L) @ [e]) (pl_events L)\<rparr>"
    "pe_seq e = pst_seq st + 1" "pe_prevHash e = pst_headHash st" "computeStreamEventHash S e = pe_chainHash e"
proof -
  define b where "b = event_base S now st ty payload opts"
  define x where "x = (if eo_binding opts then Some (computeStreamEventHash S b) else None)"
  have "e = b\<lparr>pe_chainHash := computeStreamEventHash S b, pe_bindingHash := x\<rparr>" and
    L': "L' = (put_stream (st\<lparr>pst_seq := pst_seq st + 1, pst_headHash := computeStreamEventHash S b\<rparr>) L)
      \<lparr>pl_events := omap_set (pst_streamId st) (entries (pst_streamId st) (pl_events L) @ [e]) (pl_events L)\<rparr>"
    using assms by (auto simp only: appendEventToStream_def Let_def prod.inject b_def x_def)
  then have h: "pe_chainHash e = computeStreamEventHash S b" "computeStreamEventHash S e = computeStreamEventHash S b" "pe_seq e = pe_seq b"
    "pe_prevHash e = pe_prevHash b" by simp_all
  show "pe_seq e = pst_seq st + 1" "pe_prevHash e = pst_headHash st" "computeStreamEventHash S e = pe_chainHash e"
    by (simp_all add: h b_def)
  show "L' = L\<lparr>pl_streams := omap_set (pst_streamId st) (st\<lparr>pst_seq := pst_seq st + 1, pst_headHash := pe_chainHash e\<rparr>) (pl_streams L),
      pl_events := omap_set (pst_streamId st) (entries (pst_streamId st) (pl_events L) @ [e]) (pl_events L)\<rparr>"
    by (simp add: L' h put_stream_def)
qed

lemma append_event_inv:
  assumes "appendEventToStream S now st ty payload opts L = (e, L')" and inv: "ledger_inv_but S X L"
    and st: "map_of (pl_streams L) (pst_streamId st) = Some st" and X: "pst_principalId st \<in> X"
  shows "ledger_inv_but S X L' \<and> pl_principals L' = pl_principals L \<and> owner L' = owner L"
proof -
  note e = append_event_Pair [OF assms(1)]
  let ?es = "entries (pst_streamId st) (pl_events L)"
  have "stream_ok S (pst_streamId st) L" using inv st unfolding ledger_inv_but_def streams_inv_def by blast
  then have ok: "event_log S ?es" "pst_seq st = int (length ?es)" "pst_headHash st = event_head ?es" using st by (simp_all add: stream_ok_def)
  have "ledger_inv_but S X L'"
    by (rule stream_update_inv [OF inv st, of "st\<lparr>pst_seq := pst_seq st + 1, pst_headHash := pe_chainHash e\<rparr>" "?es @ [e]"])
      (use ok e(2-4) X in \<open>auto simp: e(1) linked_append\<close>)
  then show ?thesis using st by (auto simp: e(1) owner_def fun_eq_iff)
qed

lemma append_checkpoint_inv:
  assumes "appendCheckpoint S now p L = (c, L')" and inv: "ledger_inv_but S {pid} L" and p: "map_of (pl_principals L) pid = Some p"
  shows "ledger_inv S L' \<and> pl_streams L' = pl_streams L"
proof -
  have id: "pn_principalId p = pid" using inv p by (simp add: ledger_inv_but_def streams_inv_def)
  let ?cs = "entries pid (pl_checkpoints L)"
  let ?p = "p\<lparr>pn_checkpointSeq := pk_seq c, pn_checkpointHead := pk_checkpointHash c, pn_updatedAt := now\<rparr>"
  have L': "L' = L\<lparr>pl_principals := omap_set pid ?p (pl_principals L), pl_checkpoints := omap_set pid (?cs @ [c]) (pl_checkpoints L)\<rparr>"
    and c: "pk_seq c = pn_checkpointSeq p + 1" "pk_prevHash c = pn_checkpointHead p" "computeCheckpointHash S c = pk_checkpointHash c"
      "pk_streamHeads c = current_heads (pn_streamIds p) L"
    using assms(1) id by (auto simp: appendCheckpoint_def Let_def put_principal_def computeCheckpointHash_def checkpoint_value_def)
  have "stream_ok S k L' = stream_ok S k L" for k by (simp add: stream_ok_def L' split: option.split)
  moreover have "owner L' = owner L" by (simp add: owner_def fun_eq_iff L')
  ultimately have "streams_inv S L'" using inv p id by (auto simp: ledger_inv_but_def streams_inv_def L' split: if_splits)
  moreover have heads: "current_heads sids L' = current_heads sids L" for sids by (simp add: current_heads_def L')
  have cnt: "counted S pid p L" using inv p by (simp add: ledger_inv_but_def)
  have "counted S q r L' \<and> current q r L'" if r: "map_of (pl_principals L') q = Some r" for q r
  proof (cases "q = pid")
    case True
    then have r': "r = ?p" using r by (simp add: L')
    show ?thesis unfolding r' counted_def current_def heads
      using cnt c True by (simp add: L' counted_def Let_def linked_append)
  next
    case False
    then have "counted S q r L \<and> current q r L" using inv r by (auto simp: ledger_inv_but_def L')
    then show ?thesis using False by (simp add: counted_def current_def L' heads [unfolded L'])
  qed
  ultimately show ?thesis by (simp add: ledger_inv_but_def L')
qed

lemma upsert_principal_inv:
  assumes "upsertPrincipal S now digest auth L = (p, L')" and inv: "ledger_inv S L"
  shows "ledger_inv_but S {principalIdFromDigest S digest} L' \<and> map_of (pl_principals L') (principalIdFromDigest S digest) = Some p \<and>
    pn_principalId p = principalIdFromDigest S digest \<and> pl_streams L' = pl_streams L"
proof (cases "map_of (pl_principals L) (principalIdFromDigest S digest)")
  case (Some q)
  then show ?thesis using assms by (auto simp: upsertPrincipal_def ledger_inv_but_def streams_inv_def)
next
  case None
  let ?pid = "principalIdFromDigest S digest"
  have p: "pn_principalId p = ?pid" "pn_streamIds p = []" "pn_checkpointSeq p = 0" "pn_checkpointHead p = PRINCIPAL_GENESIS_HASH"
    and L': "L' = L\<lparr>pl_principals := omap_set ?pid p (pl_principals L), pl_checkpoints := omap_set ?pid [] (pl_checkpoints L)\<rparr>"
    using assms(1) None by (auto simp: upsertPrincipal_def put_principal_def Let_def)
  have "stream_ok S k L' = stream_ok S k L" for k by (simp add: stream_ok_def L' split: option.split)
  moreover have "owner L' = owner L" by (simp add: owner_def fun_eq_iff L')
  moreover have "owner L sid \<noteq> Some ?pid" for sid
    using inv None by (cases "map_of (pl_streams L) sid") (auto simp: ledger_inv_but_def streams_inv_def owner_def, metis option.distinct(1))
  ultimately have "streams_inv S L'" using inv p by (auto simp: ledger_inv_but_def streams_inv_def L' split: if_splits)
  moreover have "counted S q r L'" "q \<noteq> ?pid \<longrightarrow> current q r L'" if "map_of (pl_principals L') q = Some r" for q r
    using that inv p by (auto simp: ledger_inv_but_def counted_def current_def L' current_heads_def split: if_splits)
  ultimately show ?thesis using p by (auto simp: ledger_inv_but_def L')
qed

lemma upsert_stream_inv:
  assumes "upsertStream p sid provider agent session L = (st, p', L')" and inv: "ledger_inv_but S {pid} L"
    and p: "map_of (pl_principals L) pid = Some p" and free: "owner L sid \<in> {None, Some pid}"
  shows "ledger_inv_but S {pid} L' \<and> map_of (pl_principals L') pid = Some p' \<and> map_of (pl_streams L') sid = Some st \<and>
    pst_streamId st = sid \<and> pst_principalId st = pid \<and> owner L' = (owner L)(sid \<mapsto> pid)"
proof (cases "map_of (pl_streams L) sid")
  case (Some st0)
  let ?st = "st0\<lparr>pst_providerSessionIds := add_new session (pst_providerSessionIds st0)\<rparr>"
  have r: "st = ?st" "p' = p" "L' = L\<lparr>pl_streams := omap_set sid ?st (pl_streams L)\<rparr>"
    using assms(1) Some by (auto simp: upsertStream_def Let_def)
  have o: "pst_principalId st0 = pid" using free Some by (simp add: owner_def)
  have st0: "pst_streamId st0 = sid" "stream_ok S sid L" using inv Some by (auto simp: ledger_inv_but_def streams_inv_def)
  have "ledger_inv_but S {pid} L'"
    by (rule stream_update_inv [OF inv Some, of ?st "entries sid (pl_events L)"]) (use st0 o Some r in \<open>auto simp: stream_ok_def\<close>)
  then show ?thesis using r p o st0 Some by (auto simp: owner_def fun_eq_iff)
next
  case None
  have id: "pn_principalId p = pid" using inv p by (simp add: ledger_inv_but_def streams_inv_def)
  have st: "pst_principalId st = pid" "pst_streamId st = sid" "pst_seq st = 0" "pst_headHash st = PRINCIPAL_GENESIS_HASH"
    and p': "p' = p\<lparr>pn_streamIds := pn_streamIds p @ [sid]\<rparr>"
    and L': "L' = L\<lparr>pl_principals := omap_set pid p' (pl_principals L), pl_streams := omap_set sid st (pl_streams L),
      pl_events := omap_set sid [] (pl_events L)\<rparr>"
    using assms(1) None id by (auto simp: upsertStream_def put_principal_def put_stream_def Let_def)
  have proj: "pl_principals L' = omap_set pid p' (pl_principals L)" "pl_streams L' = omap_set sid st (pl_streams L)"
    "pl_events L' = omap_set sid [] (pl_events L)" "pl_checkpoints L' = pl_checkpoints L" by (simp_all add: L')
  have ok: "stream_ok S k L' \<longleftrightarrow> k = sid \<or> stream_ok S k L" for k
    using st by (auto simp: stream_ok_def proj split: option.split)
  have ow: "owner L' = (owner L)(sid \<mapsto> pid)" using st by (auto simp: owner_def fun_eq_iff proj)
  have nown: "owner L sid = None" using None by (simp add: owner_def)
  have "streams_inv S L'" using inv p st p' nown
    by (auto simp: ledger_inv_but_def streams_inv_def proj ok ow split: if_splits)
  moreover have "counted S q r L'" "q \<noteq> pid \<longrightarrow> current q r L'" if r: "map_of (pl_principals L') q = Some r" for q r
  proof -
    show "counted S q r L'" using r inv p by (auto simp: ledger_inv_but_def counted_def proj p' split: if_splits)
    show "q \<noteq> pid \<longrightarrow> current q r L'"
    proof
      assume q: "q \<noteq> pid"
      then have r': "map_of (pl_principals L) q = Some r" using r by (simp add: proj)
      then have "current q r L" "sid \<notin> set (pn_streamIds r)"
        using inv q nown by (auto simp: ledger_inv_but_def streams_inv_def)
      moreover have "current_heads (pn_streamIds r) L' = current_heads (pn_streamIds r) L"
        by (rule current_heads_cong) (use calculation(2) in \<open>auto simp: proj\<close>)
      ultimately show "current q r L'" by (simp add: current_def proj)
    qed
  qed
  ultimately show ?thesis using st p' ow by (auto simp: ledger_inv_but_def proj)
qed

lemma ledger_inv_weaken: "ledger_inv S L \<Longrightarrow> ledger_inv_but S X L"
  by (auto simp: ledger_inv_but_def)

definition bound_id :: "sha_fn \<Rightarrow> BindSessionInput \<Rightarrow> string \<times> string" where
  "bound_id S input =
     (let pid = principalIdFromDigest S (sha256 S (''tsk-principal-v1:'' @ bi_principalSecret input)) in
      (pid, makeStreamId S pid (bi_provider input) (agent_of input)))"

lemma bind_update_inv:
  assumes "bind_update S P isoNow clock input digest L = (b, L')" and inv: "ledger_inv S L"
    and pid: "pid = principalIdFromDigest S digest" and sid: "sid = makeStreamId S pid (bi_provider input) (agent_of input)"
    and free: "owner L sid \<in> {None, Some pid}"
  shows "ledger_inv S L' \<and> owner L' = (owner L)(sid \<mapsto> pid)"
proof -
  obtain p0 L1 where u1: "upsertPrincipal S (clock 1) digest (case bi_authorizationContext input of None \<Rightarrow> [] | Some a \<Rightarrow> a) L = (p0, L1)" by fastforce
  from upsert_principal_inv [OF u1 inv] have i1: "ledger_inv_but S {pid} L1" "map_of (pl_principals L1) pid = Some p0" "pn_principalId p0 = pid"
    and o1: "owner L1 = owner L" by (auto simp: pid owner_def fun_eq_iff)
  obtain st p1 L2 where u2: "upsertStream p0 sid (bi_provider input) (agent_of input) (bi_providerSessionId input) L1 = (st, p1, L2)"
    by (metis prod_cases3)
  from upsert_stream_inv [OF u2 i1(1,2)] free o1
  have i2: "ledger_inv_but S {pid} L2" "map_of (pl_principals L2) pid = Some p1" "map_of (pl_streams L2) sid = Some st" "pst_streamId st = sid"
    "pst_principalId st = pid" and o2: "owner L2 = (owner L)(sid \<mapsto> pid)" by auto
  define p2 where "p2 = p1\<lparr>pn_sessionIds := add_new (bi_providerSessionId input) (pn_sessionIds p1),
    pn_activeSessionIds := add_new (bi_providerSessionId input) (pn_activeSessionIds p1),
    pn_authorizationContext := (case bi_authorizationContext input of
       None \<Rightarrow> pn_authorizationContext p1 | Some a \<Rightarrow> spread (pn_authorizationContext p1) a)\<rparr>"
  have id: "pn_principalId p1 = pid" using i2 by (simp add: ledger_inv_but_def streams_inv_def)
  define L3 where "L3 = put_principal p2 L2"
  have i3: "ledger_inv_but S {pid} L3" unfolding L3_def put_principal_def
    using principal_update_inv [OF i2(1,2), of p2] id by (simp add: p2_def)
  have L3: "map_of (pl_streams L3) sid = Some st" "map_of (pl_principals L3) pid = Some p2" "owner L3 = owner L2"
    using i2(3) id by (auto simp: L3_def put_principal_def p2_def owner_def fun_eq_iff)
  obtain payload opts e L4 where u4: "appendEventToStream S (clock 2) st Session_bound payload opts L3 = (e, L4)"
    and last: "snd (appendCheckpoint S (clock 3) p2 L4) = L'"
    using assms(1) unfolding bind_update_def Let_def u1 prod.case i1(3) sid [symmetric] u2 p2_def [symmetric] L3_def [symmetric]
    by (auto split: prod.splits simp del: One_nat_def)
  have i4: "ledger_inv_but S {pid} L4" "pl_principals L4 = pl_principals L3" "owner L4 = owner L3"
    using append_event_inv [OF u4 i3] i2(4,5) L3 by auto
  obtain c where u5: "appendCheckpoint S (clock 3) p2 L4 = (c, L')" using last by (metis prod.collapse)
  show ?thesis using append_checkpoint_inv [OF u5 i4(1)] i4 L3 o2 by (auto simp: owner_def fun_eq_iff)
qed

lemma append_stream_event_inv:
  assumes "appendStreamEvent S clock pid sid ty payload L = Inr (e, L')" and inv: "ledger_inv S L"
  shows "ledger_inv S L' \<and> owner L' = owner L"
proof -
  obtain p st where p: "map_of (pl_principals L) pid = Some p" "map_of (pl_streams L) sid = Some st" "pst_principalId st = pid"
    using assms(1) by (auto simp: appendStreamEvent_def mustPrincipal_def bind_res_Inr_iff split: option.splits if_splits)
  obtain e1 L1 where u1: "appendEventToStream S (clock 0) st ty payload no_options L = (e1, L1)" by fastforce
  obtain c L2 where u2: "appendCheckpoint S (clock 1) p L1 = (c, L2)" by fastforce
  have "L2 = L'" using assms(1) p u1 u2 by (simp add: appendStreamEvent_def mustPrincipal_def)
  have "pst_streamId st = sid" using inv p(2) unfolding ledger_inv_but_def streams_inv_def by blast
  then have i1: "ledger_inv_but S {pid} L1" "pl_principals L1 = pl_principals L" "owner L1 = owner L"
    using append_event_inv [OF u1 ledger_inv_weaken [OF inv], of "{pid}"] p by auto
  show ?thesis using append_checkpoint_inv [OF u2 i1(1)] i1 p(1) \<open>L2 = L'\<close> by (auto simp: owner_def fun_eq_iff)
qed

lemma close_session_inv:
  assumes inv: "ledger_inv S L"
  shows "ledger_inv S (fst (closeSession S clock pid sid session L)) \<and> owner (fst (closeSession S clock pid sid session L)) = owner L"
proof (cases "map_of (pl_principals L) pid")
  case (Some p)
  define L1 where "L1 = L\<lparr>pl_principals := omap_set pid (p\<lparr>pn_activeSessionIds := filter (\<lambda>i. i \<noteq> session) (pn_activeSessionIds p)\<rparr>) (pl_principals L)\<rparr>"
  have "pn_principalId p = pid" using inv Some by (simp add: ledger_inv_but_def streams_inv_def)
  then have i1: "ledger_inv S L1" unfolding L1_def by (intro principal_update_inv [OF inv Some]) simp_all
  moreover have o1: "owner L1 = owner L" by (simp add: L1_def owner_def fun_eq_iff)
  ultimately show ?thesis
  proof (cases "appendStreamEvent S clock pid sid Session_closed [(''providerSessionId'', JString session)] L1")
    case (Inr r)
    then show ?thesis using append_stream_event_inv [of S clock pid sid _ _ L1 "fst r" "snd r"] i1 o1 Some
      by (auto simp: closeSession_def mustPrincipal_def L1_def [symmetric] split: prod.splits)
  qed (use Some in \<open>auto simp: closeSession_def mustPrincipal_def L1_def [symmetric]\<close>)
qed (use inv in \<open>auto simp: closeSession_def mustPrincipal_def\<close>)

datatype ledger_op =
    Bind "runtime_process option" string "nat \<Rightarrow> int" BindSessionInput
  | Append "nat \<Rightarrow> int" string string PrincipalEventType js_object
  | Close "nat \<Rightarrow> int" string string string

fun ledger_exec :: "sha_fn \<Rightarrow> hmac_fn \<Rightarrow> ledger_op \<Rightarrow> MemoryPrincipalSessionLedger \<Rightarrow> MemoryPrincipalSessionLedger" where
  "ledger_exec S H (Bind P isoNow clock input) L = (case bindSession S H P isoNow clock input L of Inl _ \<Rightarrow> L | Inr (_, L') \<Rightarrow> L')"
| "ledger_exec S H (Append clock pid sid ty payload) L = (case appendStreamEvent S clock pid sid ty payload L of Inl _ \<Rightarrow> L | Inr (_, L') \<Rightarrow> L')"
| "ledger_exec S H (Close clock pid sid session) L = fst (closeSession S clock pid sid session L)"

fun bound_ids :: "sha_fn \<Rightarrow> ledger_op list \<Rightarrow> (string \<times> string) list" where
  "bound_ids S [] = []"
| "bound_ids S (Bind P isoNow clock input # ops) = bound_id S input # bound_ids S ops"
| "bound_ids S (op # ops) = bound_ids S ops"

definition one_owner :: "(string \<times> string) list \<Rightarrow> bool" where
  "one_owner ids \<longleftrightarrow> (\<forall>x \<in> set ids. \<forall>y \<in> set ids. snd x = snd y \<longrightarrow> fst x = fst y)"

definition owners_in :: "(string \<times> string) set \<Rightarrow> MemoryPrincipalSessionLedger \<Rightarrow> bool" where
  "owners_in B L \<longleftrightarrow> (\<forall>sid pid. owner L sid = Some pid \<longrightarrow> (pid, sid) \<in> B)"

lemma bind_inv:
  assumes "bindSession S H P isoNow clock input L = Inr (b, L')" and inv: "ledger_inv S L" "owners_in B L"
    and B: "bound_id S input \<in> B" "\<And>x y. x \<in> B \<Longrightarrow> y \<in> B \<Longrightarrow> snd x = snd y \<Longrightarrow> fst x = fst y"
  shows "ledger_inv S L' \<and> owners_in B L'"
proof -
  obtain pid sid where id: "bound_id S input = (pid, sid)" by fastforce
  have u: "bind_update S P isoNow clock input (sha256 S (''tsk-principal-v1:'' @ bi_principalSecret input)) L = (b, L')"
    using assms(1) by (auto simp: bindSession_def principalDigestFromSecret_def bind_res_Inr_iff)
  have "owner L sid \<in> {None, Some pid}"
  proof (cases "owner L sid")
    case (Some q)
    then have "(q, sid) \<in> B" using inv(2) by (simp add: owners_in_def)
    then show ?thesis using B(2) [of "(q, sid)" "(pid, sid)"] B(1) id Some by simp
  qed simp
  then have "ledger_inv S L' \<and> owner L' = (owner L)(sid \<mapsto> pid)"
    using id by (intro bind_update_inv [OF u inv(1)]) (auto simp: bound_id_def Let_def)
  then show ?thesis using inv(2) B(1) id by (auto simp: owners_in_def split: if_splits)
qed

lemma ledger_run_inv:
  assumes "ledger_inv S L" "owners_in B L" "set (bound_ids S ops) \<subseteq> B" "\<And>x y. x \<in> B \<Longrightarrow> y \<in> B \<Longrightarrow> snd x = snd y \<Longrightarrow> fst x = fst y"
  shows "ledger_inv S (fold (ledger_exec S H) ops L)"
  using assms(1-3)
proof (induction ops arbitrary: L)
  case (Cons op ops)
  have "ledger_inv S (ledger_exec S H op L) \<and> owners_in B (ledger_exec S H op L)"
  proof (cases op)
    case (Bind P isoNow clock input)
    show ?thesis
    proof (cases "bindSession S H P isoNow clock input L")
      case (Inr r)
      obtain b L' where r: "r = (b, L')" by fastforce
      have "bound_id S input \<in> B" using Cons.prems(3) Bind by simp
      with Inr [unfolded r] Cons.prems(1,2) have "ledger_inv S L' \<and> owners_in B L'" by (rule bind_inv) (rule assms(4))
      then show ?thesis unfolding Bind ledger_exec.simps Inr r sum.case prod.case .
    qed (use Bind Cons.prems in simp)
  next
    case (Append clock pid sid ty payload)
    then show ?thesis using append_stream_event_inv [OF _ Cons.prems(1)] Cons.prems by (auto simp: owners_in_def split: sum.splits)
  next
    case (Close clock pid sid session)
    then show ?thesis using close_session_inv [OF Cons.prems(1)] Cons.prems by (auto simp: owners_in_def)
  qed
  moreover have "set (bound_ids S ops) \<subseteq> B" using Cons.prems(3) by (cases op) auto
  ultimately show ?case using Cons.IH by simp
qed simp


section \<open>The sealed cache\<close>

lemma canonicalJson_bound_iff:
  assumes "integral v" "integral w" "v \<noteq> JUndefined" "w \<noteq> JUndefined"
  shows "canonicalJson v = canonicalJson w \<longleftrightarrow> bound v = bound w"
  using canonicalJson_bound [OF assms] canonical_content [of "sortValue v"] canonical_content [of "sortValue w"]
  by (auto simp: canonicalJson_canonical bound_def)

text \<open>C31: A sealed cache authorizes what was sealed and nothing else. Let a cache be sealed, and let any cache that carries
  this seal be presented, with the keyed hash not colliding on the two. It is accepted exactly when it
  has the content that was sealed, the time is within its validity, policy and checkpoint are the requested
  ones, a fresh proof was verified, and the nonce is long enough and not among the consumed ones.\<close>

theorem fallback_authorizes_iff:
  assumes sealed: "sealPrincipalCache H input key = Inr cache" and seal: "sp_seal c = sp_seal cache"
    and int: "integral (cache_value c)" "integral (cache_value cache)"
    and collision_free: "H (hex_decode key) (utf8 (canonicalJson (cache_value c))) = H (hex_decode key) (utf8 (canonicalJson (cache_value cache))) \<Longrightarrow>
      canonicalJson (cache_value c) = canonicalJson (cache_value cache)"
  shows "\<exists>r. verifyFallbackAuthorization S H now c key policy checkpoint nonce proofVerified = Inr r \<and>
    (fb_ok r \<longleftrightarrow> bound (cache_value c) = bound (cache_value cache) \<and> sp_issuedAt c \<le> now \<and> now < sp_expiresAt c \<and>
       sp_policyDigest c = policy \<and> sp_checkpointHash c = checkpoint \<and> proofVerified \<and> 16 \<le> length nonce \<and>
       sha256 S nonce \<notin> set (sp_consumedNonceDigests c)) \<and>
    (fb_ok r \<longrightarrow> fb_authorizationContext r = Some (sp_authorizationContext c))"
proof -
  have key: "secret_ok key" and s: "sp_seal cache = digest_b64url (H (hex_decode key) (utf8 (canonicalJson (cache_value cache))))"
    using sealed by (auto simp: sealPrincipalCache_def computeCacheSeal_def hmac_def Let_def bind_res_Inr_iff cache_value_def)
  have "sp_seal c = digest_b64url (H (hex_decode key) (utf8 (canonicalJson (cache_value c)))) \<longleftrightarrow> bound (cache_value c) = bound (cache_value cache)"
    using collision_free canonicalJson_bound_iff [OF int] by (auto simp: seal s digest_b64url_inject cache_value_def)
  then show ?thesis
    using key by (auto simp: verifyFallbackAuthorization_def computeCacheSeal_def hmac_def fallback_error_def)
qed

section \<open>Two behaviours worth knowing\<close>

text \<open>A close that fails because the stream is unknown has already removed the session: no event records it.\<close>

lemma failed_close_drops_session:
  assumes "map_of (pl_principals L) pid = Some p" and "map_of (pl_streams L) sid = None"
  shows "\<exists>L' e p'. closeSession S clock pid sid session L = (L', Inl e) \<and> map_of (pl_principals L') pid = Some p' \<and>
    session \<notin> set (pn_activeSessionIds p') \<and> pl_events L' = pl_events L \<and> pl_checkpoints L' = pl_checkpoints L"
  using assms by (auto simp: closeSession_def mustPrincipal_def appendStreamEvent_def Let_def)

text \<open>A colon in the name of a provider makes two agents of one principal share a stream.\<close>

lemma stream_id_ambiguous: "makeStreamId S pid (a @ '':'' @ b) c = makeStreamId S pid a (b @ '':'' @ c)"
  by (simp add: makeStreamId_def)

text \<open>The authorization context of a binding is redacted by its own name before it is hashed.\<close>

lemma authorization_redacted: "sanitizeCaptureValue v ''authorizationContext'' = JString REDACTED"
proof -
  have "SENSITIVE_FIELD ''authorizationContext''" by code_simp
  then show ?thesis by (rule sanitize_sensitive)
qed

text \<open>A proof without a number for its time never expires.\<close>

lemma undated_proof_never_expires: "pp_signedAt (bi_proof input) = NNaN \<Longrightarrow>
    verifyPrincipalSessionProof H now input digest = verifyPrincipalSessionProof H now' input digest"
  by (simp add: verifyPrincipalSessionProof_def)

section \<open>Examples\<close>

definition length_hash :: sha_fn where
  "length_hash bs = of_nat (length bs)"

definition zero_hmac :: hmac_fn where
  "zero_hmac key msg = 0"

definition example_binding :: BindSessionInput where
  "example_binding =
     \<lparr>bi_principalSecret = replicate 64 CHR ''a'',
      bi_proof = \<lparr>pp_challengeNonce = replicate 16 CHR ''n'', pp_signedAt = NInt 0, pp_signature = digest_b64url 0\<rparr>,
      bi_provider = ''p'', bi_providerSessionId = ''s'', bi_agentInstanceId = None, bi_policyDigest = ''d'',
      bi_runtimeMetadata = None, bi_authorizationContext = None, bi_maxProofAgeMs = None\<rparr>"

definition small_event :: "string option \<Rightarrow> PrincipalStreamEvent" where
  "small_event b =
     (let e = \<lparr>pe_principalId = ''p'', pe_streamId = ''s'', pe_provider = ''v'', pe_providerSessionId = None, pe_agentInstanceId = ''a'', pe_seq = 1,
        pe_timestamp = 5, pe_eventType = Session_event, pe_policyDigest = None, pe_proofDigest = None, pe_payloadHash = ''h'',
        pe_payload = JObject [(''n'', JNum (NInt 1))], pe_prevHash = PRINCIPAL_GENESIS_HASH, pe_chainHash = [], pe_bindingHash = b\<rparr> in
      e\<lparr>pe_chainHash := computeStreamEventHash length_hash e\<rparr>)"

definition small_checkpoint :: PrincipalCheckpoint where
  "small_checkpoint =
     (let c = \<lparr>pk_principalId = ''p'', pk_seq = 1, pk_timestamp = 6, pk_streamHeads = [(''s'', 1, pe_chainHash (small_event None))],
        pk_prevHash = PRINCIPAL_GENESIS_HASH, pk_checkpointHash = []\<rparr> in
      c\<lparr>pk_checkpointHash := computeCheckpointHash length_hash c\<rparr>)"

definition small_principal :: "int \<Rightarrow> PrincipalRecord" where
  "small_principal version =
     \<lparr>pn_principalId = ''p'', pn_principalDigest = ''d'', pn_createdAt = 1, pn_updatedAt = 6, pn_authorizationContext = [], pn_keyVersion = version,
      pn_sessionIds = [], pn_activeSessionIds = [], pn_streamIds = [''s''], pn_checkpointHead = pk_checkpointHash small_checkpoint,
      pn_checkpointSeq = 1\<rparr>"

definition small_ledger :: "int \<Rightarrow> string option \<Rightarrow> MemoryPrincipalSessionLedger" where
  "small_ledger version b =
     \<lparr>pl_principals = [(''p'', small_principal version)],
      pl_streams = [(''s'', \<lparr>pst_principalId = ''p'', pst_streamId = ''s'', pst_provider = ''v'', pst_agentInstanceId = ''a'',
         pst_providerSessionIds = [], pst_seq = 1, pst_headHash = pe_chainHash (small_event None)\<rparr>)],
      pl_events = [(''s'', [small_event b])], pl_checkpoints = [(''p'', [small_checkpoint])]\<rparr>"

theorem checkpoint_binds_history_witness:
  "list_all2 same_event (entries ''s'' (pl_events (small_ledger 1 None))) (entries ''s'' (pl_events (small_ledger 2 (Some ''x'')))) \<and>
   length (entries ''s'' (pl_events (small_ledger 1 None))) = 1"
proof -
  have v: "verifyPrincipalContinuity length_hash ''p'' (small_ledger 1 None) = valid_result ''p''"
    "verifyPrincipalContinuity length_hash ''p'' (small_ledger 2 (Some ''x'')) = valid_result ''p''" by code_simp+
  have n: "list_all (\<lambda>v. list_all (\<lambda>w. \<not> clash length_hash v w) (hashed ''p'' (small_ledger 2 (Some ''x'')))) (hashed ''p'' (small_ledger 1 None))"
    by code_simp
  have p: "map_of (pl_principals (small_ledger k b)) ''p'' = Some (small_principal k)" for k b by (simp add: small_ledger_def)
  from checkpoint_binds_history [OF v p p _ _ n [unfolded list_all_iff]]
  show ?thesis by (simp add: small_principal_def) (simp add: small_ledger_def entries_def)
qed

lemma example_binds:
  "bindSession length_hash zero_hmac None ''t'' clock example_binding L =
     Inr (bind_update length_hash None ''t'' clock example_binding (sha256 length_hash (''tsk-principal-v1:'' @ replicate 64 CHR ''a'')) L)"
  if "clock 0 = 0"
proof -
  have "assertBindingInput example_binding = Inr ()" "validateHexSecret (bi_principalSecret example_binding) = Inr ()"
    "verifyPrincipalSessionProof zero_hmac 0 example_binding (sha256 length_hash (''tsk-principal-v1:'' @ replicate 64 CHR ''a'')) = Inr ()"
    by code_simp+
  then show ?thesis using that by (simp only: bindSession_def principalDigestFromSecret_def bind_res_simps) (simp add: example_binding_def)
qed


definition example_seal :: SealPrincipalCacheInput where
  "example_seal = \<lparr>si_source = From_replica, si_principalId = ''p'', si_policyDigest = ''d'', si_checkpointHash = ''c'', si_issuedAt = 1,
     si_expiresAt = 9, si_consumedNonceDigests = None, si_authorizationContext = Some [(''role'', JString ''r'')]\<rparr>"

theorem fallback_authorizes_iff_witness:
  "\<exists>cache r. sealPrincipalCache zero_hmac example_seal (replicate 64 CHR ''a'') = Inr cache \<and>
     verifyFallbackAuthorization length_hash zero_hmac 5 cache (replicate 64 CHR ''a'') ''d'' ''c'' (replicate 16 CHR ''n'') True = Inr r \<and>
     fb_ok r \<and> fb_authorizationContext r = Some [(''role'', JString ''r'')]"
proof -
  have key: "secret_ok (replicate 64 CHR ''a'')" by code_simp
  obtain cache where c: "sealPrincipalCache zero_hmac example_seal (replicate 64 CHR ''a'') = Inr cache"
    "sp_issuedAt cache = 1" "sp_expiresAt cache = 9" "sp_policyDigest cache = ''d''" "sp_checkpointHash cache = ''c''"
    "sp_consumedNonceDigests cache = []" "sp_authorizationContext cache = [(''role'', JString ''r'')]"
    using key by (auto simp: sealPrincipalCache_def computeCacheSeal_def hmac_def Let_def example_seal_def)
  have i: "integral (cache_value cache)" by (simp add: cache_value_def c)
  from fallback_authorizes_iff [OF c(1) refl i i refl, of length_hash 5 "''d''" "''c''" "replicate 16 CHR ''n''" True]
  show ?thesis using c by auto
qed

end
