(* ===== verification/Http_Transport.thy ===== *)
theory Http_Transport
  imports Hotp_Outbox Runtime_Capture
begin

text \<open>
  The HTTP hop between the outbox publisher and the receiver, \<^verbatim>\<open>packages/server/src/http-outbox-transport.ts\<close>: the
  keyed request with its nonce and body digest, the stores that burn nonces, the ingest handler, and the reply
  envelope that binds a receipt to the request attempt. Of the platform the model takes HMAC, SHA-256,
  the base64url decoder, \<^verbatim>\<open>Number\<close> of a string, \<^verbatim>\<open>JSON.parse\<close> of decoded bytes, and the text and the
  bytes a pattern and \<^verbatim>\<open>Buffer.from\<close> see of an array, as parameters; the network is a function on a world of
  its own.
\<close>

section \<open>Grammar and framing\<close>

definition REQ_DOMAIN :: string where "REQ_DOMAIN = ''TSKv1-req''"
definition ACK_DOMAIN :: string where "ACK_DOMAIN = ''TSKv1-ack''"
definition CONTENT_TYPE :: string where "CONTENT_TYPE = ''application/json''"
definition DEFAULT_FRESHNESS_MS :: int where "DEFAULT_FRESHNESS_MS = 30000"
definition DEFAULT_MAX_BODY_BYTES :: int where "DEFAULT_MAX_BODY_BYTES = 64 * 1024"
definition DEFAULT_NONCE_RETENTION_MS :: int where "DEFAULT_NONCE_RETENTION_MS = 120000"
definition DEFAULT_MAX_CLOCK_SKEW_MS :: int where "DEFAULT_MAX_CLOCK_SKEW_MS = 5000"
definition DEFAULT_NONCE_SAFETY_MS :: int where "DEFAULT_NONCE_SAFETY_MS = 30000"
definition DEFAULT_BODY_READ_MS :: int where "DEFAULT_BODY_READ_MS = 10000"

definition NONCE_RE :: "string \<Rightarrow> bool" where
  "NONCE_RE s \<longleftrightarrow> 16 \<le> length s \<and> length s \<le> 128 \<and> list_all (\<lambda>c. id_start c \<or> c \<in> set ''_-'') s"

definition ENVELOPE_KEYS :: "string list" where
  "ENVELOPE_KEYS = [''v'', ''keyId'', ''challenge'', ''requestDigest'', ''receipt'', ''sig'']"

record platform =
  pf_hmac :: hmac_fn
  pf_sha :: sha_fn
  pf_unb64u :: "string \<Rightarrow> byte list"
  pf_number :: "string \<Rightarrow> jsnum"
  pf_parse :: "byte list \<Rightarrow> js_value res"
  pf_array :: "js_value \<Rightarrow> (string \<times> byte list) option"

definition digest_bytes :: "digest \<Rightarrow> byte list" where
  "digest_bytes d = map (\<lambda>i. ucast (drop_bit (8 * (31 - i)) d)) [0..<32]"

definition ctEqualB64u :: "platform \<Rightarrow> string \<Rightarrow> digest \<Rightarrow> bool" where
  "ctEqualB64u F a expected \<longleftrightarrow>
     (let got = pf_unb64u F a; b = digest_bytes expected in length got = length b \<and> list_all2 (=) got b)"

definition toSecret :: "byte list \<Rightarrow> string \<Rightarrow> byte list res" where
  "toSecret s label = (if length s < 32 then Inl (label @ '' must be >= 32 bytes'') else Inr s)"

definition posInt :: "int \<Rightarrow> string \<Rightarrow> unit res" where
  "posInt n label = require (1 \<le> n \<and> n \<le> MAX_SAFE_INTEGER) (label @ '' must be a positive safe integer'')"

fun isPlainObject :: "js_value \<Rightarrow> bool" where
  "isPlainObject (VObject own symbols plain) = plain"
| "isPlainObject _ = False"

definition hasExactKeys :: "js_value \<Rightarrow> string list \<Rightarrow> bool" where
  "hasExactKeys v keys \<longleftrightarrow>
     (case v of
        VObject own symbols plain \<Rightarrow> length own = length keys \<and> \<not> symbols \<and> (\<forall>k \<in> set keys. k \<in> fst ` set own)
      | _ \<Rightarrow> False)"

fun is_text :: "js_value \<Rightarrow> bool" where
  "is_text (VString _) = True"
| "is_text _ = False"

fun is_number :: "js_value \<Rightarrow> bool" where
  "is_number (VNumber _) = True"
| "is_number _ = False"

text \<open>A copy of the receipt with its nine fields, the sequence a number and the others strings.\<close>

definition strictReceipt :: "js_value \<Rightarrow> js_value res" where
  "strictReceipt o' =
     (if \<not> isPlainObject o' \<or> \<not> hasExactKeys o' RECEIPT_KEYS then Inl ''receipt has an invalid key set''
      else bind_res (checks (map (\<lambda>k. require (if k = ''sequence'' then is_number (field o' k) else is_text (field o' k))
                       (''receipt.'' @ k @ '' has the wrong type'')) RECEIPT_KEYS)) (\<lambda>_.
        Inr (data_object (map (\<lambda>k. (k, field o' k)) RECEIPT_KEYS))))"

definition js_trim :: "string \<Rightarrow> string" where
  "js_trim s = rev (dropWhile js_space (rev (dropWhile js_space s)))"

definition isJsonMime :: "string option \<Rightarrow> bool" where
  "isJsonMime ct =
     (case ct of
        None \<Rightarrow> False
      | Some s \<Rightarrow> s \<noteq> [] \<and> map lower_char (js_trim (takeWhile (\<lambda>c. c \<noteq> CHR '';'') s)) = CONTENT_TYPE)"

section \<open>Nonces\<close>

text \<open>The memory store: expired entries go first, then the nonce is looked up and stored.\<close>

record MemoryReplayNonceStore =
  mn_retentionMs :: int
  mn_seen :: "(string \<times> int) list"

definition mn_checkAndStore :: "int \<Rightarrow> string \<Rightarrow> MemoryReplayNonceStore \<Rightarrow> MemoryReplayNonceStore \<times> bool res" where
  "mn_checkAndStore t nonce st =
     (let seen = filter (\<lambda>(k, exp). \<not> exp \<le> t) (mn_seen st) in
      if omap_has nonce seen then (st\<lparr>mn_seen := seen\<rparr>, Inr False)
      else (st\<lparr>mn_seen := omap_set nonce (t + mn_retentionMs st) seen\<rparr>, Inr True))"

text \<open>The table of the database store. The environment of a call is the clock of the process and what the database
  clock reads at each of the three statements; a statement without a reading fails.\<close>

record PgReplayNonceStore =
  gn_retentionMs :: int
  gn_maxClockSkewMs :: int
  gn_rows :: "(string \<times> int) list"

type_synonym db_clock = "int option \<times> int option \<times> int option"

definition gn_checkAndStore :: "int \<Rightarrow> db_clock \<Rightarrow> string \<Rightarrow> PgReplayNonceStore \<Rightarrow> PgReplayNonceStore \<times> bool res" where
  "gn_checkAndStore now readings nonce st =
     (case readings of (selected, deleted, inserted) \<Rightarrow>
       (case selected of
          None \<Rightarrow> (st, Inl ''database unavailable'')
        | Some dbNow \<Rightarrow>
            if gn_maxClockSkewMs st < \<bar>dbNow - now\<bar>
            then (st, Inl ''replay-nonce store: DB/app clock skew exceeds the allowed bound (fail closed)'')
            else (case deleted of
               None \<Rightarrow> (st, Inl ''database unavailable'')
             | Some deleteNow \<Rightarrow>
                 let rows = filter (\<lambda>(k, exp). \<not> exp < deleteNow) (gn_rows st) in
                 (case inserted of
                    None \<Rightarrow> (st\<lparr>gn_rows := rows\<rparr>, Inl ''database unavailable'')
                  | Some insertNow \<Rightarrow>
                      if omap_has nonce rows then (st\<lparr>gn_rows := rows\<rparr>, Inr False)
                      else (st\<lparr>gn_rows := rows @ [(nonce, insertNow + gn_retentionMs st)]\<rparr>, Inr True)))))"

section \<open>The client\<close>

text \<open>What is thrown: a transport error carries \<^verbatim>\<open>retriable\<close>, a validation error does not.\<close>

definition transport_error :: "bool \<Rightarrow> string \<Rightarrow> jsval" where
  "transport_error retriable msg =
     JObject [(''name'', JString ''OutboxTransportError''), (''message'', JString msg), (''retriable'', JBool retriable)]"

definition validation_error :: "string \<Rightarrow> jsval" where
  "validation_error msg = JObject [(''name'', JString ''ContractValidationError''), (''message'', JString msg)]"

abbreviation terminal :: "string \<Rightarrow> jsval" where "terminal \<equiv> transport_error False"
abbreviation transient :: "string \<Rightarrow> jsval" where "transient \<equiv> transport_error True"

definition classifyStatus :: "int \<Rightarrow> jsval" where
  "classifyStatus status =
     (if 500 \<le> status \<or> status = 408 \<or> status = 429 then transient (''transport received HTTP '' @ show_int status)
      else terminal (''transport received HTTP '' @ show_int status))"

record http_request =
  hq_method :: string
  hq_url :: string
  hq_contentType :: "string option"
  hq_keyId :: "string option"
  hq_timestamp :: "string option"
  hq_nonce :: "string option"
  hq_signature :: "string option"
  hq_body :: "byte list"

text \<open>What a request comes back with: nothing in time, an exception, or a response. Its body is a stream of chunks
  that ends, fails, or is missing.\<close>

datatype body_end = Body_done | Body_failed

record fetch_response =
  fx_status :: int
  fx_contentType :: "string option"
  fx_contentLength :: "string option"
  fx_body :: "(byte list list \<times> body_end) option"

datatype fetch_outcome =
    Timed_out
  | Fetch_threw "jsval option"
  | Responded fetch_response

record http_transport =
  ht_path :: string
  ht_requestKeyId :: string
  ht_requestSecret :: "byte list"
  ht_resolveResponseKey :: "string \<Rightarrow> byte list option"
  ht_verifyAck :: "js_value \<Rightarrow> js_value \<Rightarrow> unit res"
  ht_timeoutMs :: int
  ht_maxResponseBytes :: int
  ht_maxRequestBytes :: int

text \<open>The checks of the constructor that concern the configuration; the URL is given by its request path.\<close>

definition new_http_transport :: "http_transport \<Rightarrow> http_transport res" where
  "new_http_transport t =
     bind_res (require (KEY_ID_RE (ht_requestKeyId t)) ''invalid requestKeyId'') (\<lambda>_.
     bind_res (toSecret (ht_requestSecret t) ''requestSecret'') (\<lambda>_.
     bind_res (posInt (ht_timeoutMs t) ''timeoutMs'') (\<lambda>_.
     bind_res (posInt (ht_maxResponseBytes t) ''maxResponseBytes'') (\<lambda>_.
     bind_res (posInt (ht_maxRequestBytes t) ''maxRequestBytes'') (\<lambda>_. Inr t)))))"

fun read_chunks :: "int \<Rightarrow> int \<Rightarrow> byte list list \<Rightarrow> byte list option" where
  "read_chunks limit got [] = Some []"
| "read_chunks limit got (c # cs) =
     (if limit < got + int (length c) then None
      else map_option (\<lambda>bs. c @ bs) (read_chunks limit (got + int (length c)) cs))"

definition readCapped :: "int \<Rightarrow> fetch_response \<Rightarrow> jsval + byte list" where
  "readCapped limit r =
     (case fx_body r of
        None \<Rightarrow> Inl (terminal ''transport response has no readable body stream'')
      | Some (chunks, e) \<Rightarrow>
          (case read_chunks limit 0 chunks of
             None \<Rightarrow> Inl (terminal ''transport reply too large'')
           | Some bs \<Rightarrow> if e = Body_done then Inr bs else Inl (JObject [(''name'', JString ''TypeError'')])))"

definition terminal_if :: "bool \<Rightarrow> string \<Rightarrow> jsval + unit" where
  "terminal_if b msg = (if b then Inl (terminal msg) else Inr ())"

definition bind_err :: "jsval + 'a \<Rightarrow> ('a \<Rightarrow> jsval + 'b) \<Rightarrow> jsval + 'b" where
  "bind_err x f = (case x of Inl e \<Rightarrow> Inl e | Inr a \<Rightarrow> f a)"

definition or_error :: "(string \<Rightarrow> jsval) \<Rightarrow> 'a res \<Rightarrow> jsval + 'a" where
  "or_error err x = (case x of Inl m \<Rightarrow> Inl (err m) | Inr a \<Rightarrow> Inr a)"

definition reply_mac :: "platform \<Rightarrow> byte list \<Rightarrow> string \<Rightarrow> string \<Rightarrow> string \<Rightarrow> string \<Rightarrow> js_value \<Rightarrow> digest res" where
  "reply_mac F secret keyId challenge requestDigest path receipt =
     bind_res (canonicalize receipt) (\<lambda>text.
     bind_res (frame [ACK_DOMAIN, keyId, challenge, requestDigest, path, text]) (\<lambda>msg. Inr (pf_hmac F secret msg)))"

definition same_field :: "js_value \<Rightarrow> js_value \<Rightarrow> string \<Rightarrow> bool" where
  "same_field a b k \<longleftrightarrow> field a k = field b k"

definition verifyEnvelope :: "platform \<Rightarrow> http_transport \<Rightarrow> byte list \<Rightarrow> js_value \<Rightarrow> string \<Rightarrow> string \<Rightarrow> jsval + js_value" where
  "verifyEnvelope F t reply record sentNonce sentBodyDigest =
     bind_err (or_error (\<lambda>_. terminal ''transport reply is not valid JSON'') (pf_parse F reply)) (\<lambda>env.
     bind_err (terminal_if (\<not> isPlainObject env \<or> \<not> hasExactKeys env ENVELOPE_KEYS \<or> field env ''v'' \<noteq> VString ACK_DOMAIN \<or>
         \<not> is_text (field env ''keyId'') \<or> \<not> is_text (field env ''challenge'') \<or> \<not> is_text (field env ''requestDigest'') \<or>
         \<not> is_text (field env ''sig'')) ''transport reply envelope malformed'') (\<lambda>_.
     bind_err (terminal_if (field env ''challenge'' \<noteq> VString sentNonce \<or> field env ''requestDigest'' \<noteq> VString sentBodyDigest)
         ''transport reply not bound to this request attempt'') (\<lambda>_.
     bind_err (or_error validation_error (reqString (field env ''keyId'') ''keyId'')) (\<lambda>keyId.
     bind_err (or_error validation_error (reqString (field env ''sig'') ''sig'')) (\<lambda>sig.
     bind_err (case ht_resolveResponseKey t keyId of
                 None \<Rightarrow> Inl (terminal ''transport reply signed under an unknown response key'')
               | Some raw \<Rightarrow> or_error validation_error (toSecret raw ''resolved response secret'')) (\<lambda>secret.
     bind_err (or_error (\<lambda>_. terminal ''transport reply receipt malformed'') (strictReceipt (field env ''receipt''))) (\<lambda>receipt.
     bind_err (or_error validation_error (reply_mac F secret keyId sentNonce sentBodyDigest (ht_path t) receipt)) (\<lambda>mac.
     bind_err (terminal_if (\<not> ctEqualB64u F sig mac) ''transport reply envelope MAC invalid'') (\<lambda>_.
     bind_err (terminal_if (\<not> same_field receipt record ''streamId'' \<or> \<not> same_field receipt record ''sourceEpoch'' \<or>
         \<not> same_field receipt record ''sequence'' \<or> \<not> same_field receipt record ''opDigest'')
         ''transport reply does not bind to the delivered record'') (\<lambda>_.
     bind_err (or_error (\<lambda>_. terminal ''transport reply ack signature/authorization invalid'') (ht_verifyAck t receipt record)) (\<lambda>_.
       Inr receipt)))))))))))"

definition too_long :: "platform \<Rightarrow> http_transport \<Rightarrow> string option \<Rightarrow> bool" where
  "too_long F t len =
     (case len of None \<Rightarrow> False | Some s \<Rightarrow> (let n = pf_number F s in Number_isFinite n \<and> num_gt n (ht_maxResponseBytes t)))"

definition request_mac :: "platform \<Rightarrow> byte list \<Rightarrow> string \<Rightarrow> string \<Rightarrow> string \<Rightarrow> string \<Rightarrow> string \<Rightarrow> digest res" where
  "request_mac F secret keyId path ts nonce bodyDigest =
     bind_res (frame [REQ_DOMAIN, keyId, ''POST'', path, ts, nonce, bodyDigest]) (\<lambda>msg. Inr (pf_hmac F secret msg))"

definition take_response :: "platform \<Rightarrow> http_transport \<Rightarrow> js_value \<Rightarrow> string \<Rightarrow> string \<Rightarrow> fetch_outcome \<Rightarrow> jsval + js_value" where
  "take_response F t record nonce bodyDigest outcome =
     (case outcome of
        Timed_out \<Rightarrow> Inl (transient (''transport deadline '' @ show_int (ht_timeoutMs t) @ ''ms exceeded''))
      | Fetch_threw (Some err) \<Rightarrow> Inl err
      | Fetch_threw None \<Rightarrow> Inl (transient ''transport request failed'')
      | Responded r \<Rightarrow>
          bind_err (if fx_status r \<noteq> 200 then Inl (classifyStatus (fx_status r)) else Inr ()) (\<lambda>_.
          bind_err (terminal_if (\<not> isJsonMime (fx_contentType r)) ''transport reply is not application/json'') (\<lambda>_.
          bind_err (terminal_if (too_long F t (fx_contentLength r)) ''transport reply too large'') (\<lambda>_.
          bind_err (readCapped (ht_maxResponseBytes t) r) (\<lambda>reply.
            verifyEnvelope F t reply record nonce bodyDigest)))))"

text \<open>One delivery. The network answers the signed request; an \<^verbatim>\<open>OutboxTransportError\<close> thrown by \<^verbatim>\<open>fetch\<close> passes
  through, any other exception is transient.\<close>

definition sent_request :: "platform \<Rightarrow> http_transport \<Rightarrow> string \<Rightarrow> string \<Rightarrow> string \<Rightarrow> http_request res" where
  "sent_request F t body ts nonce =
     bind_res (request_mac F (ht_requestSecret t) (ht_requestKeyId t) (ht_path t) ts nonce (digest_hex (pf_sha F (utf8 body)))) (\<lambda>mac.
       Inr \<lparr>hq_method = ''POST'', hq_url = ht_path t, hq_contentType = Some CONTENT_TYPE, hq_keyId = Some (ht_requestKeyId t),
            hq_timestamp = Some ts, hq_nonce = Some nonce, hq_signature = Some (digest_b64url mac), hq_body = utf8 body\<rparr>)"

definition deliverAndAwaitAck ::
  "platform \<Rightarrow> http_transport \<Rightarrow> (http_request \<Rightarrow> 'w \<Rightarrow> 'w \<times> fetch_outcome) \<Rightarrow> string \<Rightarrow> jsnum \<Rightarrow> js_value \<Rightarrow> js_value \<Rightarrow> 'w \<Rightarrow> 'w \<times> (jsval + js_value)" where
  "deliverAndAwaitAck F t fetch nonce now record head w =
     (case canonicalize (data_object [(''record'', record), (''head'', head)]) of
        Inl m \<Rightarrow> (w, Inl (validation_error m))
      | Inr body \<Rightarrow>
          if ht_maxRequestBytes t < int (length (utf8 body)) then (w, Inl (terminal ''request body exceeds maxRequestBytes''))
          else if \<not> NONCE_RE nonce then (w, Inl (terminal ''nonce generator produced an invalid nonce''))
          else if \<not> Number_isSafeInteger now then (w, Inl (terminal ''clock produced a non-integer timestamp''))
          else (case sent_request F t body (show_num now) nonce of
             Inl m \<Rightarrow> (w, Inl (validation_error m))
           | Inr req \<Rightarrow>
               (case fetch req w of
                  (w', outcome) \<Rightarrow> (w', take_response F t record nonce (digest_hex (pf_sha F (utf8 body))) outcome))))"

section \<open>The receiver\<close>

record ('s, 'w) http_receiver =
  hv_expectedPath :: string
  hv_resolveRequestKey :: "string \<Rightarrow> byte list option"
  hv_responseKeyId :: string
  hv_responseSecret :: "byte list"
  hv_receive :: "js_value \<Rightarrow> js_value \<Rightarrow> 'w \<Rightarrow> 'w \<times> js_value res"
  hv_checkAndStore :: "int \<Rightarrow> string \<Rightarrow> 's \<Rightarrow> 's \<times> bool res"
  hv_retentionMs :: int
  hv_maxClockSkewMs :: int
  hv_freshnessMs :: int
  hv_nonceSafetyMs :: int
  hv_maxBodyBytes :: int
  hv_bodyReadMs :: int

definition createHttpOutboxReceiver :: "('s, 'w) http_receiver \<Rightarrow> ('s, 'w) http_receiver res" where
  "createHttpOutboxReceiver o' =
     bind_res (posInt (hv_freshnessMs o') ''freshnessMs'') (\<lambda>_.
     bind_res (posInt (hv_nonceSafetyMs o') ''nonceSafetyMs'') (\<lambda>_.
     bind_res (posInt (hv_maxBodyBytes o') ''maxBodyBytes'') (\<lambda>_.
     bind_res (posInt (hv_bodyReadMs o') ''bodyReadMs'') (\<lambda>_.
     bind_res (require (\<exists>p. hv_expectedPath o' = CHR ''/'' # p) ''expectedPath must be an absolute request path'') (\<lambda>_.
     bind_res (require (KEY_ID_RE (hv_responseKeyId o')) ''invalid responseKeyId'') (\<lambda>_.
     bind_res (toSecret (hv_responseSecret o') ''responseSecret'') (\<lambda>_.
     bind_res (require (2 * hv_freshnessMs o' + hv_nonceSafetyMs o' \<le> hv_retentionMs o' - 2 * hv_maxClockSkewMs o') ''nonce retention too small'') (\<lambda>_.
       Inr o'))))))))"

datatype body_read = Body "byte list" | Body_timeout | Body_error

datatype stream_end = Stream_end | Stream_timeout | Stream_error

type_synonym body_stream = "byte list list \<times> stream_end"

text \<open>The chunks that arrive before the stream ends, breaks off, or the time limit cuts the connection. The first
  chunk past the limit stops the reading.\<close>

definition readBodyCapped :: "int \<Rightarrow> body_stream \<Rightarrow> body_read" where
  "readBodyCapped limit stream =
     (case read_chunks limit 0 (fst stream) of
        None \<Rightarrow> Body_error
      | Some bs \<Rightarrow> (case snd stream of Stream_end \<Rightarrow> Body bs | Stream_timeout \<Rightarrow> Body_timeout | Stream_error \<Rightarrow> Body_error))"

text \<open>What \<^verbatim>\<open>assertStreamHeadBinds\<close> does on parsed JSON, whose fields have any type. Objects and arrays are never
  identical to one another, the patterns convert an array to text, and the hash takes its elements as bytes.\<close>

fun text_of :: "platform \<Rightarrow> string \<Rightarrow> js_value \<Rightarrow> (string \<times> byte list) res" where
  "text_of F label (VString s) = Inr (s, utf8 s)"
| "text_of F label (VArray n own symbols) = (case pf_array F (VArray n own symbols) of None \<Rightarrow> Inl label | Some x \<Rightarrow> Inr x)"
| "text_of F label _ = Inl label"

fun frame_bytes :: "byte list list \<Rightarrow> byte list res" where
  "frame_bytes [] = Inr []"
| "frame_bytes (b # bs) = bind_res (u32be (int (length b))) (\<lambda>n. bind_res (frame_bytes bs) (\<lambda>rest. Inr (n @ b @ rest)))"

definition head_binds :: "platform \<Rightarrow> js_value \<Rightarrow> js_value \<Rightarrow> unit res" where
  "head_binds F record head =
     bind_res (reqString (field head ''streamId'') ''streamId'') (\<lambda>streamId.
     bind_res (require (field record ''streamId'' = VString streamId) ''stream head streamId != record'') (\<lambda>_.
     bind_res (reqInt (field head ''sequence'') ''sequence'') (\<lambda>sequence.
     bind_res (require (field record ''sequence'' = VNumber (NInt sequence)) ''stream head sequence != record'') (\<lambda>_.
     bind_res (reqString (field head ''opDigest'') ''opDigest'') (\<lambda>opDigest.
     bind_res (require (field record ''opDigest'' = VString opDigest) ''stream head opDigest != record'') (\<lambda>_.
     bind_res (reqString (field head ''alg'') ''unknown stream head alg'') (\<lambda>alg.
     bind_res (require (alg \<in> set STREAM_HEAD_ALGS) ''unknown stream head alg'') (\<lambda>_.
     bind_res (text_of F ''invalid keyId'' (field head ''keyId'')) (\<lambda>keyId.
     bind_res (require (KEY_ID_PATTERN (fst keyId)) ''invalid keyId'') (\<lambda>_.
     bind_res (assert_id streamId ''streamId'') (\<lambda>_.
     bind_res (require (safe_nat 1 sequence) ''mutation stream-head sequence must be a safe integer >= 1'') (\<lambda>_.
     bind_res (text_of F ''prevHeadDigest must be 64 lowercase hex'' (field head ''prevHeadDigest'')) (\<lambda>prev.
     bind_res (require (HEX64 (fst prev)) ''prevHeadDigest must be 64 lowercase hex'') (\<lambda>_.
     bind_res (require (HEX64 opDigest) ''opDigest must be 64 lowercase hex'') (\<lambda>_.
     bind_res (frame_bytes [utf8 (HA_OUTBOX_DIGEST_DOMAIN @ ''/tsk-stream-head''), utf8 HA_OUTBOX_CONTRACT_VERSION, utf8 streamId,
         utf8 (show_int sequence), snd prev, utf8 opDigest, snd keyId, utf8 alg]) (\<lambda>bs.
       require (field head ''headDigest'' = VString (digest_hex (pf_sha F bs))) ''stream head digest mismatch''))))))))))))))))"

text \<open>The reply: status and body. A body that cannot be rendered makes the handler answer 500.\<close>

definition error_reply :: "int \<Rightarrow> string \<Rightarrow> int \<times> js_value" where
  "error_reply status msg = (status, data_object [(''error'', VString msg)])"

text \<open>What the request has to pass before its nonce is burned: the reply that refuses it, or its nonce, digest and
  time.\<close>

definition authenticate_request ::
  "platform \<Rightarrow> ('s, 'w) http_receiver \<Rightarrow> int \<Rightarrow> http_request \<Rightarrow> body_stream \<Rightarrow> (int \<times> js_value) + (string \<times> string \<times> int \<times> byte list)" where
  "authenticate_request F o' now req body =
     (if hq_method req \<noteq> ''POST'' then Inl (error_reply 405 ''method not allowed'')
      else if hq_url req \<noteq> hv_expectedPath o' then Inl (error_reply 404 ''not found'')
      else if \<not> isJsonMime (hq_contentType req) then Inl (error_reply 415 ''unsupported media type'')
      else case readBodyCapped (hv_maxBodyBytes o') body of
        Body_timeout \<Rightarrow> Inl (error_reply 408 ''body read failed'')
      | Body_error \<Rightarrow> Inl (error_reply 413 ''body read failed'')
      | Body bytes \<Rightarrow>
          (case (hq_keyId req, hq_timestamp req, hq_nonce req, hq_signature req) of
             (Some keyId, Some ts, Some nonce, Some sig) \<Rightarrow>
               if keyId = [] \<or> ts = [] \<or> nonce = [] \<or> sig = [] \<or> \<not> KEY_ID_RE keyId \<or> \<not> NONCE_RE nonce
               then Inl (error_reply 401 ''unauthenticated'')
               else (case hv_resolveRequestKey o' keyId of
                  None \<Rightarrow> Inl (error_reply 401 ''unknown key'')
                | Some secret \<Rightarrow>
                    if length secret < 32 then Inl (error_reply 500 ''ingest failed'')
                    else (case pf_number F ts of
                       NInt t \<Rightarrow>
                         if MAX_SAFE_INTEGER < \<bar>t\<bar> \<or> hv_freshnessMs o' < \<bar>now - t\<bar> then Inl (error_reply 401 ''stale or invalid timestamp'')
                         else (let bodyDigest = digest_hex (pf_sha F bytes) in
                           case request_mac F secret keyId (hq_url req) ts nonce bodyDigest of
                             Inl _ \<Rightarrow> Inl (error_reply 500 ''ingest failed'')
                           | Inr mac \<Rightarrow>
                               if ctEqualB64u F sig mac then Inr (nonce, bodyDigest, t, bytes) else Inl (error_reply 401 ''bad signature''))
                     | _ \<Rightarrow> Inl (error_reply 401 ''stale or invalid timestamp'')))
           | _ \<Rightarrow> Inl (error_reply 401 ''unauthenticated'')))"

definition process_body ::
  "platform \<Rightarrow> ('s, 'w) http_receiver \<Rightarrow> http_request \<Rightarrow> string \<Rightarrow> string \<Rightarrow> byte list \<Rightarrow> 'w \<Rightarrow> 'w \<times> int \<times> js_value" where
  "process_body F o' req nonce bodyDigest bytes w =
     (case pf_parse F bytes of
        Inl _ \<Rightarrow> (w, error_reply 400 ''invalid json'')
      | Inr parsed \<Rightarrow>
          if \<not> isPlainObject parsed \<or> \<not> isPlainObject (field parsed ''record'') \<or> \<not> isPlainObject (field parsed ''head'')
          then (w, error_reply 400 ''invalid envelope'')
          else (case head_binds F (field parsed ''record'') (field parsed ''head'') of
             Inl _ \<Rightarrow> (w, error_reply 400 ''head does not bind record'')
           | Inr _ \<Rightarrow>
               (case hv_receive o' (field parsed ''record'') (field parsed ''head'') w of
                  (w', Inl _) \<Rightarrow> (w', error_reply 500 ''ingest failed'')
                | (w', Inr receipt) \<Rightarrow>
                    (case reply_mac F (hv_responseSecret o') (hv_responseKeyId o') nonce bodyDigest (hq_url req) receipt of
                       Inl _ \<Rightarrow> (w', error_reply 500 ''ingest failed'')
                     | Inr mac \<Rightarrow>
                         (let reply = data_object [(''v'', VString ACK_DOMAIN), (''keyId'', VString (hv_responseKeyId o')),
                            (''challenge'', VString nonce), (''requestDigest'', VString bodyDigest), (''receipt'', receipt),
                            (''sig'', VString (digest_b64url mac))] in
                          case canonicalize reply of Inl _ \<Rightarrow> (w', error_reply 500 ''ingest failed'') | Inr _ \<Rightarrow> (w', 200, reply))))))"

text \<open>The store reads the clock again, later.\<close>

definition handle_request ::
  "platform \<Rightarrow> ('s, 'w) http_receiver \<Rightarrow> int \<Rightarrow> int \<Rightarrow> http_request \<Rightarrow> body_stream \<Rightarrow> 's \<times> 'w \<Rightarrow> ('s \<times> 'w) \<times> int \<times> js_value" where
  "handle_request F o' now later req body sw =
     (case authenticate_request F o' now req body of
        Inl reply \<Rightarrow> (sw, reply)
      | Inr (nonce, bodyDigest, t, bytes) \<Rightarrow>
          (case hv_checkAndStore o' later nonce (fst sw) of
             (s', Inl _) \<Rightarrow> ((s', snd sw), error_reply 500 ''ingest failed'')
           | (s', Inr False) \<Rightarrow> ((s', snd sw), error_reply 401 ''replay'')
           | (s', Inr True) \<Rightarrow> (case process_body F o' req nonce bodyDigest bytes (snd sw) of (w', reply) \<Rightarrow> ((s', w'), reply))))"

section \<open>A signed request is processed once\<close>

text \<open>The requests a receiver handles, each with the two readings of the clock, and which of them it processed.\<close>

type_synonym arrival = "int \<times> int \<times> http_request \<times> body_stream"

definition arrive :: "platform \<Rightarrow> ('s, 'w) http_receiver \<Rightarrow> arrival \<Rightarrow> 's \<times> 'w \<Rightarrow> 's \<times> 'w" where
  "arrive F o' a sw = (case a of (now, later, req, body) \<Rightarrow> fst (handle_request F o' now later req body sw))"

definition processed :: "platform \<Rightarrow> ('s, 'w) http_receiver \<Rightarrow> arrival \<Rightarrow> 's \<times> 'w \<Rightarrow> (string \<times> int) list" where
  "processed F o' a sw =
     (case a of (now, later, req, body) \<Rightarrow>
        (case authenticate_request F o' now req body of
           Inl _ \<Rightarrow> []
         | Inr (nonce, _, t, _) \<Rightarrow> if snd (hv_checkAndStore o' later nonce (fst sw)) = Inr True then [(nonce, t)] else []))"

fun processed_run :: "platform \<Rightarrow> ('s, 'w) http_receiver \<Rightarrow> arrival list \<Rightarrow> 's \<times> 'w \<Rightarrow> (string \<times> int) list" where
  "processed_run F o' [] sw = []"
| "processed_run F o' (a # as) sw = processed F o' a sw @ processed_run F o' as (arrive F o' a sw)"

text \<open>The clock does not go back, and the store is reached within the safety margin.\<close>

fun timely :: "int \<Rightarrow> arrival list \<Rightarrow> bool" where
  "timely margin [] = True"
| "timely margin ((now, later, req, body) # as) =
     (now \<le> later \<and> later < now + margin \<and> (\<forall>(now', later', _, _) \<in> set as. later \<le> now' \<and> later \<le> later') \<and> timely margin as)"

lemma authenticated_fresh:
  "authenticate_request F o' now req body = Inr (nonce, d, t, bs) \<Longrightarrow> \<bar>now - t\<bar> \<le> hv_freshnessMs o'"
  by (auto simp: authenticate_request_def Let_def split: if_splits body_read.splits option.splits jsnum.splits sum.splits)

lemma arrive_store:
  "fst (arrive F o' (now, later, req, body) sw) =
     (case authenticate_request F o' now req body of
        Inl _ \<Rightarrow> fst sw
      | Inr (nonce, _, _, _) \<Rightarrow> fst (hv_checkAndStore o' later nonce (fst sw)))"
  by (auto simp: arrive_def handle_request_def split: sum.splits prod.splits bool.splits)

lemma processed_split:
  "x \<in> set (processed_run F o' as sw) \<Longrightarrow>
   \<exists>pre c post. as = pre @ c # post \<and> x \<in> set (processed F o' c (fold (arrive F o') pre sw))"
proof (induction as arbitrary: sw)
  case (Cons a as)
  show ?case
  proof (cases "x \<in> set (processed F o' a sw)")
    case True
    then show ?thesis by (intro exI [of _ "[]"] exI [of _ a] exI [of _ as]) simp
  next
    case False
    then have "x \<in> set (processed_run F o' as (arrive F o' a sw))" using Cons.prems by simp
    then obtain pre c post where "as = pre @ c # post" "x \<in> set (processed F o' c (fold (arrive F o') pre (arrive F o' a sw)))"
      using Cons.IH by blast
    then show ?thesis by (intro exI [of _ "a # pre"] exI [of _ c] exI [of _ post]) simp
  qed
qed simp

lemma timely_split:
  "timely margin (pre @ (now, later, req, body) # post) \<Longrightarrow> later < now + margin \<and> (\<forall>(now', later', _, _) \<in> set pre. later' \<le> later)"
  by (induction pre) auto

lemma map_of_filter_first: "map_of xs k = Some v \<Longrightarrow> P (k, v) \<Longrightarrow> map_of (filter P xs) k = Some v"
  by (induction xs) (auto split: if_splits)

locale nonce_store =
  fixes check :: "int \<Rightarrow> string \<Rightarrow> 's \<Rightarrow> 's \<times> bool res" and guaranteed :: int
    and inv :: "'s \<Rightarrow> bool" and blocked :: "'s \<Rightarrow> string \<Rightarrow> int \<Rightarrow> bool"
  assumes inv_check: "inv s \<Longrightarrow> inv (fst (check now m s))"
    and burn: "inv s \<Longrightarrow> snd (check now n s) = Inr True \<Longrightarrow> t < now + guaranteed \<Longrightarrow> blocked (fst (check now n s)) n t"
    and kept: "inv s \<Longrightarrow> blocked s n t \<Longrightarrow> now \<le> t \<Longrightarrow> blocked (fst (check now m s)) n t"
    and refused: "inv s \<Longrightarrow> blocked s n t \<Longrightarrow> now \<le> t \<Longrightarrow> snd (check now n s) \<noteq> Inr True"
begin

lemma arrive_inv: "hv_checkAndStore o' = check \<Longrightarrow> inv (fst sw) \<Longrightarrow> inv (fst (arrive F o' a sw))"
  using inv_check by (cases a) (auto simp: arrive_store split: sum.splits)

lemma blocked_run:
  assumes o': "hv_checkAndStore o' = check"
  shows "inv (fst sw) \<Longrightarrow> blocked (fst sw) n b \<Longrightarrow> \<forall>(now, later, _, _) \<in> set as. later \<le> b \<Longrightarrow>
    inv (fst (fold (arrive F o') as sw)) \<and> blocked (fst (fold (arrive F o') as sw)) n b"
proof (induction as arbitrary: sw)
  case (Cons a as)
  obtain now later req body where a: "a = (now, later, req, body)" by (metis prod_cases4)
  have "blocked (fst (arrive F o' a sw)) n b"
    using Cons.prems kept by (auto simp: a arrive_store o' split: sum.splits)
  then show ?case using Cons.IH [OF arrive_inv [OF o' Cons.prems(1)]] Cons.prems(3) by simp
qed simp

lemma processed_once:
  assumes o': "hv_checkAndStore o' = check" and conf: "2 * hv_freshnessMs o' + margin \<le> guaranteed"
  shows "inv (fst sw) \<Longrightarrow> timely margin as \<Longrightarrow> distinct (processed_run F o' as sw)"
proof (induction as arbitrary: sw)
  case (Cons a as)
  obtain now later req body where a: "a = (now, later, req, body)" by (metis prod_cases4)
  have "(n, t) \<notin> set (processed_run F o' as (arrive F o' a sw))" if p: "processed F o' a sw = [(n, t)]" for n t
  proof
    assume "(n, t) \<in> set (processed_run F o' as (arrive F o' a sw))"
    then obtain pre c post where c: "as = pre @ c # post" "(n, t) \<in> set (processed F o' c (fold (arrive F o') pre (arrive F o' a sw)))"
      using processed_split by blast
    obtain now2 later2 req2 body2 where c2: "c = (now2, later2, req2, body2)" by (metis prod_cases4)
    have first: "\<bar>now - t\<bar> \<le> hv_freshnessMs o'" "snd (check later n (fst sw)) = Inr True" "fst (arrive F o' a sw) = fst (check later n (fst sw))"
      using p by (auto simp: processed_def a arrive_store o' dest: authenticated_fresh split: sum.splits if_splits)
    have second: "\<bar>now2 - t\<bar> \<le> hv_freshnessMs o'" "snd (check later2 n (fst (fold (arrive F o') pre (arrive F o' a sw)))) = Inr True"
      using c(2) by (auto simp: processed_def c2 o' dest: authenticated_fresh [OF sym] split: sum.splits if_splits)
    have time: "now \<le> later" "later2 < now2 + margin" "\<forall>(now, later, _, _) \<in> set pre. later \<le> later2"
      using Cons.prems(2) timely_split [of margin pre now2 later2 req2 body2 post] by (simp_all add: a c c2)
    have "blocked (fst (arrive F o' a sw)) n later2"
      unfolding first(3) by (rule burn [OF Cons.prems(1) first(2)]) (use first(1) second(1) time conf in linarith)
    from blocked_run [OF o' arrive_inv [OF o' Cons.prems(1)] this time(3)] second(2) refused show False by blast
  qed
  moreover have "processed F o' a sw = [] \<or> (\<exists>n t. processed F o' a sw = [(n, t)])"
    by (auto simp: processed_def split: sum.splits prod.splits)
  ultimately show ?case
    using Cons.IH [OF arrive_inv [OF o' Cons.prems(1)]] Cons.prems(2) by (auto simp: a)
qed simp

end

interpretation memory_nonces: nonce_store mn_checkAndStore R "\<lambda>st. mn_retentionMs st = R"
  "\<lambda>st n t. \<exists>e. map_of (mn_seen st) n = Some e \<and> t < e" for R :: int
proof
  fix st :: MemoryReplayNonceStore and now t :: int and n m :: string
  note d = mn_checkAndStore_def Let_def
  show "mn_retentionMs st = R \<Longrightarrow> mn_retentionMs (fst (mn_checkAndStore now m st)) = R" by (simp add: d)
  show "\<exists>e. map_of (mn_seen (fst (mn_checkAndStore now n st))) n = Some e \<and> t < e"
    if "mn_retentionMs st = R" "snd (mn_checkAndStore now n st) = Inr True" "t < now + R"
    using that by (auto simp: d split: if_splits)
  have pruned: "map_of (filter (\<lambda>(k, e). \<not> e \<le> now) (mn_seen st)) n = Some e" if "map_of (mn_seen st) n = Some e" "now < e" for e
    using that by (intro map_of_filter_first) auto
  show "\<exists>e. map_of (mn_seen (fst (mn_checkAndStore now m st))) n = Some e \<and> t < e"
    if "\<exists>e. map_of (mn_seen st) n = Some e \<and> t < e" "now \<le> t"
    using that pruned by (fastforce simp: d)
  show "snd (mn_checkAndStore now n st) \<noteq> Inr True" if "\<exists>e. map_of (mn_seen st) n = Some e \<and> t < e" "now \<le> t"
    using that pruned by (fastforce simp: d)
qed

text \<open>The database clock does not go back during a call, and the second statement runs at most \<^verbatim>\<open>delay\<close> after the
  first.\<close>

definition prompt :: "int \<Rightarrow> (int \<Rightarrow> db_clock) \<Rightarrow> bool" where
  "prompt delay db \<longleftrightarrow>
     (\<forall>now selected deleted inserted. db now = (Some selected, Some deleted, inserted) \<longrightarrow>
        deleted \<le> selected + delay \<and> (\<forall>i. inserted = Some i \<longrightarrow> selected \<le> i))"

lemma gn_checkAndStore_cases:
  assumes "prompt delay db"
  obtains (failed) e where "gn_checkAndStore now (db now) n st = (st, Inl e)"
  | (ran) rows r deleteNow where "gn_checkAndStore now (db now) n st = (st\<lparr>gn_rows := rows\<rparr>, r)"
      "deleteNow \<le> now + gn_maxClockSkewMs st + delay"
      "rows = filter (\<lambda>(k, exp). \<not> exp < deleteNow) (gn_rows st) \<and> r \<noteq> Inr True \<or>
       (\<exists>e. rows = filter (\<lambda>(k, exp). \<not> exp < deleteNow) (gn_rows st) @ [(n, e)] \<and>
          map_of (filter (\<lambda>(k, exp). \<not> exp < deleteNow) (gn_rows st)) n = None \<and> now - gn_maxClockSkewMs st + gn_retentionMs st \<le> e \<and> r = Inr True)"
proof -
  obtain selected deleted inserted where db: "db now = (selected, deleted, inserted)" by (metis prod_cases3)
  show ?thesis
  proof (cases "\<exists>s d. selected = Some s \<and> deleted = Some d \<and> \<bar>s - now\<bar> \<le> gn_maxClockSkewMs st")
    case True
    then obtain s d where sd: "selected = Some s" "deleted = Some d" "\<bar>s - now\<bar> \<le> gn_maxClockSkewMs st" by blast
    have late: "d \<le> s + delay" "\<And>i. inserted = Some i \<Longrightarrow> s \<le> i" using assms db sd by (auto simp: prompt_def)
    define rows where "rows = filter (\<lambda>(k, exp). \<not> exp < d) (gn_rows st)"
    show ?thesis
    proof (cases "\<exists>i. inserted = Some i \<and> map_of rows n = None")
      case True
      then obtain i where i: "inserted = Some i" "map_of rows n = None" by blast
      show ?thesis
        by (rule ran [of "rows @ [(n, i + gn_retentionMs st)]" "Inr True" d])
          (use sd db late i in \<open>simp_all add: gn_checkAndStore_def Let_def flip: rows_def\<close>)
    next
      case False
      then have "\<exists>r. gn_checkAndStore now (db now) n st = (st\<lparr>gn_rows := rows\<rparr>, r) \<and> r \<noteq> Inr True"
        using sd db by (cases inserted) (simp_all add: gn_checkAndStore_def Let_def flip: rows_def)
      then show ?thesis using ran [of rows _ d] sd late by (fastforce simp: rows_def)
    qed
  next
    case False
    then have "\<exists>e. gn_checkAndStore now (db now) n st = (st, Inl e)"
      using db by (cases selected; cases deleted) (auto simp: gn_checkAndStore_def)
    then show ?thesis using failed by blast
  qed
qed

interpretation database_nonces: nonce_store "\<lambda>now. gn_checkAndStore now (db now)" "R - 2 * K - delay"
  "\<lambda>st. gn_retentionMs st = R \<and> gn_maxClockSkewMs st = K \<and> prompt delay db"
  "\<lambda>st n t. \<exists>e. map_of (gn_rows st) n = Some e \<and> t + K + delay \<le> e" for R K delay :: int and db :: "int \<Rightarrow> db_clock"
proof
  fix st :: PgReplayNonceStore and now t :: int and n m :: string
  assume inv: "gn_retentionMs st = R \<and> gn_maxClockSkewMs st = K \<and> prompt delay db"
  then have db: "prompt delay db" by simp
  have pruned: "map_of (filter (\<lambda>(k, e). \<not> e < d) (gn_rows st)) n = Some e"
    if "map_of (gn_rows st) n = Some e" "t + K + delay \<le> e" "now \<le> t" "d \<le> now + gn_maxClockSkewMs st + delay" for e d
    using that inv by (intro map_of_filter_first) auto
  show "gn_retentionMs (fst (gn_checkAndStore now (db now) m st)) = R \<and> gn_maxClockSkewMs (fst (gn_checkAndStore now (db now) m st)) = K \<and> prompt delay db"
    by (rule gn_checkAndStore_cases [OF db, of now m st]) (use inv in auto)
  show "\<exists>e. map_of (gn_rows (fst (gn_checkAndStore now (db now) n st))) n = Some e \<and> t + K + delay \<le> e"
    if "snd (gn_checkAndStore now (db now) n st) = Inr True" "t < now + (R - 2 * K - delay)"
    by (rule gn_checkAndStore_cases [OF db, of now n st]) (use inv that in \<open>auto simp: map_add_def\<close>)
  assume blocked: "\<exists>e. map_of (gn_rows st) n = Some e \<and> t + K + delay \<le> e" and t: "now \<le> t"
  then obtain e where e: "map_of (gn_rows st) n = Some e" "t + K + delay \<le> e" by blast
  note kept = pruned [OF e t]
  show "\<exists>e. map_of (gn_rows (fst (gn_checkAndStore now (db now) m st))) n = Some e \<and> t + K + delay \<le> e"
  proof (rule gn_checkAndStore_cases [OF db, of now m st])
    fix rows r d
    assume "gn_checkAndStore now (db now) m st = (st\<lparr>gn_rows := rows\<rparr>, r)" "d \<le> now + gn_maxClockSkewMs st + delay"
      "rows = filter (\<lambda>(k, exp). \<not> exp < d) (gn_rows st) \<and> r \<noteq> Inr True \<or>
       (\<exists>e. rows = filter (\<lambda>(k, exp). \<not> exp < d) (gn_rows st) @ [(m, e)] \<and>
          map_of (filter (\<lambda>(k, exp). \<not> exp < d) (gn_rows st)) m = None \<and> now - gn_maxClockSkewMs st + gn_retentionMs st \<le> e \<and> r = Inr True)"
    then show ?thesis using kept [of d] e by (auto simp: map_add_def)
  qed (use blocked in simp)
  show "snd (gn_checkAndStore now (db now) n st) \<noteq> Inr True"
    by (rule gn_checkAndStore_cases [OF db, of now n st]) (use kept in auto)
qed

section \<open>Properties\<close>

lemma bind_err_Inr_iff: "bind_err x f = Inr b \<longleftrightarrow> (\<exists>a. x = Inr a \<and> f a = Inr b)"
  by (cases x) (simp_all add: bind_err_def)

lemma or_error_Inr_iff: "or_error err x = Inr a \<longleftrightarrow> x = Inr a"
  by (cases x) (simp_all add: or_error_def)

lemma terminal_if_Inr_iff: "terminal_if b msg = Inr u \<longleftrightarrow> \<not> b"
  by (simp add: terminal_if_def)

lemma receiver_margin:
  "createHttpOutboxReceiver o' = Inr v \<Longrightarrow> 2 * hv_freshnessMs o' + hv_nonceSafetyMs o' \<le> hv_retentionMs o' - 2 * hv_maxClockSkewMs o'"
  by (auto simp: createHttpOutboxReceiver_def bind_res_Inr_iff require_def split: if_splits)

text \<open>C39: The retention margin that \<^verbatim>\<open>createHttpOutboxReceiver\<close> insists on is what replay protection needs. Over any
  sequence of arrivals at a receiver it accepted, on the database nonce store with clocks that agree within the
  configured skew at each call, no request (nonce and timestamp) is processed twice, as long as the clock of the process
  does not go back and the time from the freshness check to the store, plus the time between the store's statements,
  stays below the safety margin.\<close>

theorem signed_request_processed_once:
  assumes "createHttpOutboxReceiver o' = Inr v" and "hv_checkAndStore o' = (\<lambda>now. gn_checkAndStore now (db now))"
    and "gn_retentionMs st = hv_retentionMs o'" and "gn_maxClockSkewMs st = hv_maxClockSkewMs o'"
    and "prompt delay db" and "timely (hv_nonceSafetyMs o' - delay) arrivals"
  shows "distinct (processed_run F o' arrivals (st, w))"
  by (rule database_nonces.processed_once [OF assms(2), where margin = "hv_nonceSafetyMs o' - delay" and delay = delay
      and R = "hv_retentionMs o'" and K = "hv_maxClockSkewMs o'"])
    (use assms receiver_margin [OF assms(1)] in simp_all)

definition demo_nonce :: string where "demo_nonce = ''nonce-nonce-nonce''"

definition demo_record :: js_value where
  "demo_record = data_object [(''streamId'', VString ''s''), (''sourceEpoch'', VString ''e''), (''sequence'', VNumber (NInt 1)),
     (''opDigest'', VString ''d'')]"

definition demo_receipt :: js_value where
  "demo_receipt = data_object [(''streamId'', VString ''s''), (''sourceEpoch'', VString ''e''), (''sequence'', VNumber (NInt 1)),
     (''opDigest'', VString ''d''), (''decision'', VString ''applied''), (''receiverId'', VString ''r''), (''keyId'', VString ''k''),
     (''issuedAt'', VString ''t''), (''signature'', VString ''g'')]"

definition demo_reply :: js_value where
  "demo_reply = data_object [(''v'', VString ACK_DOMAIN), (''keyId'', VString ''k''), (''challenge'', VString demo_nonce),
     (''requestDigest'', VString (digest_hex 0)), (''receipt'', demo_receipt), (''sig'', VString ''m'')]"

definition demo_platform :: platform where
  "demo_platform = \<lparr>pf_hmac = (\<lambda>_ _. 0), pf_sha = (\<lambda>_. 0), pf_unb64u = (\<lambda>_. replicate 32 0), pf_number = (\<lambda>_. NInt 1000),
     pf_parse = (\<lambda>_. Inr demo_reply), pf_array = (\<lambda>_. None)\<rparr>"

definition demo_db :: "int \<Rightarrow> db_clock" where "demo_db now = (Some (now + 3), Some (now + 4), Some (now + 5))"

definition demo_receiver :: "(PgReplayNonceStore, unit) http_receiver" where
  "demo_receiver = \<lparr>hv_expectedPath = ''/ingest'', hv_resolveRequestKey = (\<lambda>_. Some (replicate 32 0)), hv_responseKeyId = ''k'',
     hv_responseSecret = replicate 32 0, hv_receive = (\<lambda>_ _ w. (w, Inr demo_receipt)),
     hv_checkAndStore = (\<lambda>now. gn_checkAndStore now (demo_db now)), hv_retentionMs = DEFAULT_NONCE_RETENTION_MS,
     hv_maxClockSkewMs = DEFAULT_MAX_CLOCK_SKEW_MS, hv_freshnessMs = DEFAULT_FRESHNESS_MS, hv_nonceSafetyMs = DEFAULT_NONCE_SAFETY_MS,
     hv_maxBodyBytes = DEFAULT_MAX_BODY_BYTES, hv_bodyReadMs = DEFAULT_BODY_READ_MS\<rparr>"

definition demo_request :: http_request where
  "demo_request = \<lparr>hq_method = ''POST'', hq_url = ''/ingest'', hq_contentType = Some CONTENT_TYPE, hq_keyId = Some ''k'',
     hq_timestamp = Some ''1000'', hq_nonce = Some demo_nonce, hq_signature = Some ''m'', hq_body = []\<rparr>"

definition demo_arrivals :: "arrival list" where
  "demo_arrivals = [(900, 901, demo_request, ([[1]], Stream_end)), (950, 951, demo_request, ([[1]], Stream_end))]"

definition demo_store :: PgReplayNonceStore where
  "demo_store = \<lparr>gn_retentionMs = DEFAULT_NONCE_RETENTION_MS, gn_maxClockSkewMs = DEFAULT_MAX_CLOCK_SKEW_MS, gn_rows = []\<rparr>"

lemma demo_prompt: "prompt 1 demo_db"
  by (simp add: prompt_def demo_db_def)

theorem signed_request_processed_once_witness:
  "set (processed_run demo_platform demo_receiver demo_arrivals (demo_store, ())) = {(demo_nonce, 1000)} \<and>
   distinct (processed_run demo_platform demo_receiver demo_arrivals (demo_store, ()))"
proof
  have key: "KEY_ID_RE ''k''" by code_simp
  have accepted: "createHttpOutboxReceiver demo_receiver = Inr demo_receiver"
    by (simp add: createHttpOutboxReceiver_def demo_receiver_def bind_res_def require_def posInt_def toSecret_def key
        MAX_SAFE_INTEGER_def DEFAULT_NONCE_RETENTION_MS_def DEFAULT_MAX_CLOCK_SKEW_MS_def
        DEFAULT_FRESHNESS_MS_def DEFAULT_NONCE_SAFETY_MS_def DEFAULT_MAX_BODY_BYTES_def DEFAULT_BODY_READ_MS_def)
  have timely: "timely (hv_nonceSafetyMs demo_receiver - 1) demo_arrivals"
    by (simp add: demo_receiver_def demo_arrivals_def DEFAULT_NONCE_SAFETY_MS_def)
  show "distinct (processed_run demo_platform demo_receiver demo_arrivals (demo_store, ()))"
    by (rule signed_request_processed_once [OF accepted _ _ _ demo_prompt timely]) (simp_all add: demo_receiver_def demo_store_def)
  show "set (processed_run demo_platform demo_receiver demo_arrivals (demo_store, ())) = {(demo_nonce, 1000)}" by code_simp
qed

text \<open>C40: A receipt comes out of a delivery only when the response to this very request carried an envelope whose MAC,
  under a key of at least 32 bytes that the envelope names, covers the nonce of the attempt, the digest of the body
  sent, the request path and the canonical receipt; the receipt names the stream, epoch, sequence and digest of the
  record delivered, and the acknowledgement verifier accepted it.\<close>

theorem transport_receipt_bound:
  assumes "deliverAndAwaitAck F t fetch nonce now record head w = (w', Inr receipt)"
  shows "\<exists>body req response reply env keyId secret sig mac.
    canonicalize (data_object [(''record'', record), (''head'', head)]) = Inr body \<and>
    sent_request F t body (show_num now) nonce = Inr req \<and> fetch req w = (w', Responded response) \<and>
    readCapped (ht_maxResponseBytes t) response = Inr reply \<and> pf_parse F reply = Inr env \<and>
    field env ''keyId'' = VString keyId \<and> field env ''sig'' = VString sig \<and>
    ht_resolveResponseKey t keyId = Some secret \<and> 32 \<le> length secret \<and>
    reply_mac F secret keyId nonce (digest_hex (pf_sha F (utf8 body))) (ht_path t) receipt = Inr mac \<and> ctEqualB64u F sig mac \<and>
    (\<forall>k \<in> {''streamId'', ''sourceEpoch'', ''sequence'', ''opDigest''}. field receipt k = field record k) \<and>
    ht_verifyAck t receipt record = Inr ()"
proof -
  obtain body req response where b: "canonicalize (data_object [(''record'', record), (''head'', head)]) = Inr body"
      "sent_request F t body (show_num now) nonce = Inr req" "fetch req w = (w', Responded response)"
      "take_response F t record nonce (digest_hex (pf_sha F (utf8 body))) (Responded response) = Inr receipt"
    using assms by (auto simp: deliverAndAwaitAck_def take_response_def split: sum.splits if_splits prod.splits fetch_outcome.splits option.splits)
  obtain reply where r: "readCapped (ht_maxResponseBytes t) response = Inr reply"
      "verifyEnvelope F t reply record nonce (digest_hex (pf_sha F (utf8 body))) = Inr receipt"
    using b(4) by (auto simp: take_response_def bind_err_Inr_iff)
  obtain env keyId sig secret mac where v: "pf_parse F reply = Inr env" "reqString (field env ''keyId'') ''keyId'' = Inr keyId"
      "reqString (field env ''sig'') ''sig'' = Inr sig" "ht_resolveResponseKey t keyId = Some secret" "32 \<le> length secret"
      "reply_mac F secret keyId nonce (digest_hex (pf_sha F (utf8 body))) (ht_path t) receipt = Inr mac" "ctEqualB64u F sig mac"
      "same_field receipt record ''streamId''" "same_field receipt record ''sourceEpoch''" "same_field receipt record ''sequence''"
      "same_field receipt record ''opDigest''" "ht_verifyAck t receipt record = Inr ()"
    using r(2) by (auto simp: verifyEnvelope_def bind_err_Inr_iff or_error_Inr_iff terminal_if_Inr_iff toSecret_def split: option.splits if_splits)
  have str: "reqString x l = Inr y \<Longrightarrow> x = VString y" for x l y by (cases x) simp_all
  have "field env ''keyId'' = VString keyId" "field env ''sig'' = VString sig" using v(2,3) str by blast+
  then show ?thesis using b(1-3) r(1) v by (simp add: same_field_def)
qed

definition demo_transport :: http_transport where
  "demo_transport = \<lparr>ht_path = ''/ingest'', ht_requestKeyId = ''k'', ht_requestSecret = replicate 32 0,
     ht_resolveResponseKey = (\<lambda>_. Some (replicate 32 0)), ht_verifyAck = (\<lambda>_ _. Inr ()), ht_timeoutMs = 5000,
     ht_maxResponseBytes = DEFAULT_MAX_BODY_BYTES, ht_maxRequestBytes = DEFAULT_MAX_BODY_BYTES\<rparr>"

definition demo_fetch :: "http_request \<Rightarrow> unit \<Rightarrow> unit \<times> fetch_outcome" where
  "demo_fetch req w = (w, Responded \<lparr>fx_status = 200, fx_contentType = Some ''application/json; charset=utf-8'',
     fx_contentLength = None, fx_body = Some ([[1], [2]], Body_done)\<rparr>)"

lemma demo_delivery:
  "deliverAndAwaitAck demo_platform demo_transport demo_fetch demo_nonce (NInt 1000) demo_record demo_record () = ((), Inr demo_receipt)"
  by code_simp

theorem transport_receipt_bound_witness:
  "\<exists>keyId secret mac. ht_resolveResponseKey demo_transport keyId = Some secret \<and> 32 \<le> length secret \<and>
     reply_mac demo_platform secret keyId demo_nonce (digest_hex 0) ''/ingest'' demo_receipt = Inr mac"
  using transport_receipt_bound [OF demo_delivery] by (auto simp: demo_platform_def demo_transport_def)

text \<open>A network failure, a missed deadline, and the statuses 408, 429 and 5xx leave the record to the next drain.\<close>

lemma network_failures_retried:
  assumes "outcome = Timed_out \<or> outcome = Fetch_threw None \<or> (\<exists>r. outcome = Responded r \<and> (500 \<le> fx_status r \<or> fx_status r \<in> {408, 429}))"
  shows "\<exists>err. take_response F t record nonce digest outcome = Inl err \<and> \<not> isTerminalTransportError err"
  using assms by (auto simp: take_response_def classifyStatus_def bind_err_def transport_error_def isTerminalTransportError_def)

text \<open>A record that cannot be rendered is not retriable, but its error does not say so: the publisher meets it again on
  every drain.\<close>

lemma unrenderable_record_retried:
  assumes "canonicalize (data_object [(''record'', record), (''head'', head)]) = Inl m"
  shows "\<exists>err. deliverAndAwaitAck F t fetch nonce now record head w = (w, Inl err) \<and> \<not> isTerminalTransportError err"
  by (simp add: deliverAndAwaitAck_def assms validation_error_def isTerminalTransportError_def)

text \<open>A request as the client signs it is authenticated by a receiver that knows the key, at any time within the
  freshness window.\<close>

lemma sent_request_authenticated:
  assumes "sent_request F t body ts nonce = Inr req" and "new_http_transport t = Inr t" and "NONCE_RE nonce"
    and "hv_expectedPath o' = ht_path t" and "hv_resolveRequestKey o' (ht_requestKeyId t) = Some (ht_requestSecret t)"
    and "int (length (utf8 body)) \<le> hv_maxBodyBytes o'"
    and "pf_number F ts = NInt sent" and "ts \<noteq> []" and "\<bar>sent\<bar> \<le> MAX_SAFE_INTEGER" and "\<bar>now - sent\<bar> \<le> hv_freshnessMs o'"
    and "\<And>d. pf_unb64u F (digest_b64url d) = digest_bytes d"
  shows "authenticate_request F o' now req ([hq_body req], Stream_end) =
    Inr (nonce, digest_hex (pf_sha F (utf8 body)), sent, utf8 body)"
proof -
  obtain mac where mac: "request_mac F (ht_requestSecret t) (ht_requestKeyId t) (ht_path t) ts nonce (digest_hex (pf_sha F (utf8 body))) = Inr mac"
      and req: "req = \<lparr>hq_method = ''POST'', hq_url = ht_path t, hq_contentType = Some CONTENT_TYPE, hq_keyId = Some (ht_requestKeyId t),
        hq_timestamp = Some ts, hq_nonce = Some nonce, hq_signature = Some (digest_b64url mac), hq_body = utf8 body\<rparr>"
    using assms(1) by (auto simp: sent_request_def bind_res_Inr_iff)
  have key: "KEY_ID_RE (ht_requestKeyId t)" "ht_requestKeyId t \<noteq> []" "32 \<le> length (ht_requestSecret t)"
    using assms(2) by (auto simp: new_http_transport_def bind_res_Inr_iff require_def toSecret_def KEY_ID_RE_def over_class_def split: if_splits)
  have "isJsonMime (Some CONTENT_TYPE)" by code_simp
  moreover have "readBodyCapped (hv_maxBodyBytes o') ([utf8 body], Stream_end) = Body (utf8 body)"
    using assms(6) by (simp add: readBodyCapped_def)
  moreover have "ctEqualB64u F (digest_b64url mac) mac" by (simp add: ctEqualB64u_def assms list.rel_eq)
  moreover have "digest_b64url mac \<noteq> []" by (simp add: digest_b64url_def)
  moreover have "nonce \<noteq> []" using assms(3) by (auto simp: NONCE_RE_def)
  ultimately show ?thesis using assms(3-10) key mac by (simp add: req authenticate_request_def Let_def)
qed

end
