(* ===== verification/Ha_Control.thy ===== *)
theory Ha_Control
  imports Source_Lease Promotion
begin

text \<open>
  The control plane of a failover, \<^verbatim>\<open>packages/server/src/ha-control-fencing.ts\<close>: provisioning, the epoch witness,
  leases, the cutover of a promotion and the activation of the new source, each a signed, hash-linked history
  with a head. Every operation runs in one serializable transaction under a lock on its stream, and every statement
  is restricted to that stream, so the state of the database is, per stream, the rows of that stream; a transaction
  that throws leaves it alone. HMAC, SHA-256, the encodings and \<^verbatim>\<open>JSON.parse\<close> of the platform are parameters, and
  every reading of the clock of the database is an argument. The attestation of the schema is not modelled.
\<close>

section \<open>Bounds and signatures\<close>

definition MAX_LEASE_HORIZON_MS :: int where "MAX_LEASE_HORIZON_MS = 24 * 3600 * 1000"
definition MAX_SAFETY_MARGIN_MS :: int where "MAX_SAFETY_MARGIN_MS = 3600 * 1000"
definition MAX_CLAIM_REMAINING_MS :: int where "MAX_CLAIM_REMAINING_MS = 3600 * 1000"
definition MAX_PRIOR_TARGET_LEASE_CHAIN :: nat where "MAX_PRIOR_TARGET_LEASE_CHAIN = 10000"

definition HA_STREAM_ID_RE :: "string \<Rightarrow> bool" where
  "HA_STREAM_ID_RE = over_class (\<lambda>c. id_start c \<or> c \<in> set '':._/-'') 200"

record ha_platform =
  hp_hmac :: hmac_fn
  hp_sha :: sha_fn
  hp_b64u :: "byte list \<Rightarrow> string"
  hp_unb64u :: "string \<Rightarrow> byte list"
  hp_utf8 :: "byte list \<Rightarrow> string"
  hp_number :: "string \<Rightarrow> jsnum"
  hp_parse :: "string \<Rightarrow> jsval res"

text \<open>The configured authority: its signing key, the keys it resolves, its policy, and the identifier of its database.\<close>

record 'p ha_control =
  hc_keyId :: string
  hc_secret :: "byte list"
  hc_resolve :: "string \<Rightarrow> byte list option"
  hc_minClaimRemainingMs :: int
  hc_sourceGuard :: "(string \<times> 'p signing_key \<times> int) option"
  hc_systemId :: string

definition guard_secret :: "byte list \<Rightarrow> byte list res" where
  "guard_secret s = (if length s < 32 then Inl ''guard secret must be >= 32 bytes'' else Inr s)"

definition new_ha_control :: "'p ha_control \<Rightarrow> 'p ha_control res" where
  "new_ha_control C =
     bind_res (require (KEY_ID_RE (hc_keyId C)) ''invalid guard keyId'') (\<lambda>_.
     bind_res (guard_secret (hc_secret C)) (\<lambda>_.
     bind_res (vInt (hc_minClaimRemainingMs C) ''policy.minClaimRemainingMs'' 1 MAX_CLAIM_REMAINING_MS) (\<lambda>_.
     bind_res (case hc_sourceGuard C of
                 None \<Rightarrow> Inr ()
               | Some (keyId, key, ttl) \<Rightarrow> checks [require (keyId \<noteq> []) ''policy.sourceGuard requires keyId + privateKey'',
                   vInt ttl ''policy.sourceGuard.activationTtlMs'' 1 MAX_MS]) (\<lambda>_. Inr C))))"

definition ha_withKey :: "string \<Rightarrow> byte list \<Rightarrow> byte list" where
  "ha_withKey keyId msg = tagged_frame [FText ''tsk_ha_key'', FText keyId] @ msg"

definition guard_sign :: "ha_platform \<Rightarrow> 'p ha_control \<Rightarrow> byte list \<Rightarrow> string" where
  "guard_sign P C msg = digest_b64url (hp_hmac P (hc_secret C) (ha_withKey (hc_keyId C) msg))"

text \<open>A text that survives the round trip through the decoder and decodes to the expected bytes is their encoding.\<close>

definition ctEqB64u :: "string \<Rightarrow> digest \<Rightarrow> bool" where
  "ctEqB64u a expected \<longleftrightarrow> B64U_CANON a \<and> a = digest_b64url expected"

definition verifyGuard :: "ha_platform \<Rightarrow> 'p ha_control \<Rightarrow> string \<Rightarrow> byte list \<Rightarrow> string \<Rightarrow> unit res" where
  "verifyGuard P C keyId msg signature =
     (if \<not> KEY_ID_RE keyId then Inl ''invalid guard keyId''
      else case hc_resolve C keyId of
        None \<Rightarrow> Inl ''unknown or revoked guard keyId''
      | Some raw \<Rightarrow> bind_res (guard_secret raw) (\<lambda>secret.
          require (ctEqB64u signature (hp_hmac P secret (ha_withKey keyId msg))) ''invalid guard signature''))"

section \<open>Signed tables\<close>

text \<open>The five pairs of a head table and a history table have one shape: the data of the row, its number, the digest of
  its predecessor, its own digest, and the signature. What differs is collected in a \<open>table_def\<close>: the signed
  message, the checks on reading a row, a further unique constraint, and what an update of the head leaves
  alone.\<close>

record 'd signed_row =
  sr_data :: 'd
  sr_seq :: int
  sr_prev :: "string option"
  sr_digest :: string
  sr_keyId :: string
  sr_signature :: string

record 'd signed_table =
  tb_head :: "'d signed_row option"
  tb_history :: "'d signed_row list"

record 'd table_def =
  td_msg :: "'d \<Rightarrow> int \<Rightarrow> string option \<Rightarrow> string \<Rightarrow> byte list"
  td_link :: "'d \<Rightarrow> unit res"
  td_unique :: "'d \<Rightarrow> 'd \<Rightarrow> bool"
  td_keep :: "'d \<Rightarrow> 'd \<Rightarrow> 'd"

definition link_row :: "'d table_def \<Rightarrow> 'd signed_row \<Rightarrow> unit res" where
  "link_row T r = checks
     [td_link T (sr_data r), vInt (sr_seq r) ''seq'' 1 MAX_SEQ, vNullableDigest (sr_prev r) ''prev digest'',
      require (HEX64 (sr_digest r)) ''invalid digest (expected 64-hex digest)'']"

definition digMsg :: "'d table_def \<Rightarrow> 'd signed_row \<Rightarrow> byte list" where
  "digMsg T r = td_msg T (sr_data r) (sr_seq r) (sr_prev r) []"

definition sigMsg :: "'d table_def \<Rightarrow> 'd signed_row \<Rightarrow> byte list" where
  "sigMsg T r = td_msg T (sr_data r) (sr_seq r) (sr_prev r) (sr_digest r)"

fun chain_loop :: "ha_platform \<Rightarrow> 'p ha_control \<Rightarrow> 'd table_def \<Rightarrow> int \<Rightarrow> string option \<Rightarrow> 'd signed_row list \<Rightarrow> unit res" where
  "chain_loop P C T i prev [] = Inr ()"
| "chain_loop P C T i prev (l # ls) =
     bind_res (checks
       [require (sr_seq l = i + 1) ''non-contiguous history seq'', require (sr_prev l = prev) ''broken prev-digest chain'',
        require (sha256hex (hp_sha P) (digMsg T l) = sr_digest l) ''history row digest mismatch'',
        verifyGuard P C (sr_keyId l) (sigMsg T l) (sr_signature l)]) (\<lambda>_.
       chain_loop P C T (i + 1) (Some (sr_digest l)) ls)"

definition verifyChain :: "ha_platform \<Rightarrow> 'p ha_control \<Rightarrow> 'd table_def \<Rightarrow> 'd signed_row list \<Rightarrow> 'd signed_row \<Rightarrow> unit res" where
  "verifyChain P C T history head =
     (if history = [] then Inl ''missing signed history''
      else bind_res (chain_loop P C T 0 None history) (\<lambda>_. checks
        [require (sr_seq head = sr_seq (last history) \<and> sr_digest head = sr_digest (last history))
           ''head is not the latest history row (replay/rollback detected)'',
         require (sha256hex (hp_sha P) (digMsg T head) = sr_digest head) ''head digest mismatch'',
         verifyGuard P C (sr_keyId head) (sigMsg T head) (sr_signature head)]))"

definition read_table :: "ha_platform \<Rightarrow> 'p ha_control \<Rightarrow> 'd table_def \<Rightarrow> 'd signed_table \<Rightarrow> 'd signed_row option res" where
  "read_table P C T tb =
     (case tb_head tb of
        None \<Rightarrow> Inr None
      | Some head \<Rightarrow>
          let history = sort_key sr_seq (tb_history tb) in
          bind_res (check_all (link_row T) history) (\<lambda>_.
          bind_res (link_row T head) (\<lambda>_.
          bind_res (verifyChain P C T history head) (\<lambda>_. Inr (Some head)))))"

definition signed_row_of :: "ha_platform \<Rightarrow> 'p ha_control \<Rightarrow> 'd table_def \<Rightarrow> 'd \<Rightarrow> int \<Rightarrow> string option \<Rightarrow> 'd signed_row" where
  "signed_row_of P C T d seq prev =
     (let digest = sha256hex (hp_sha P) (td_msg T d seq prev []) in
      \<lparr>sr_data = d, sr_seq = seq, sr_prev = prev, sr_digest = digest, sr_keyId = hc_keyId C,
       sr_signature = guard_sign P C (td_msg T d seq prev digest)\<rparr>)"

definition history_conflict :: "'d table_def \<Rightarrow> 'd signed_row \<Rightarrow> 'd signed_table \<Rightarrow> bool" where
  "history_conflict T row tb \<longleftrightarrow>
     list_ex (\<lambda>r. sr_seq r = sr_seq row \<or> sr_digest r = sr_digest row \<or> td_unique T (sr_data r) (sr_data row)) (tb_history tb)"

text \<open>The insert into the history and the insert or compare-and-swap of the head.\<close>

definition table_transition ::
  "ha_platform \<Rightarrow> 'p ha_control \<Rightarrow> 'd table_def \<Rightarrow> 'd \<Rightarrow> int \<Rightarrow> string option \<Rightarrow> 'd signed_table \<Rightarrow> ('d signed_row \<times> 'd signed_table) res" where
  "table_transition P C T d seq prev tb =
     (let row = signed_row_of P C T d seq prev in
      if history_conflict T row tb then Inl ''unique constraint''
      else case (prev, tb_head tb) of
        (None, None) \<Rightarrow> Inr (row, tb\<lparr>tb_history := tb_history tb @ [row], tb_head := Some row\<rparr>)
      | (None, Some _) \<Rightarrow> Inl ''unique constraint''
      | (Some _, None) \<Rightarrow> Inl ''forward-CAS: expected exactly 1 affected row, got 0''
      | (Some p, Some h) \<Rightarrow>
          if sr_digest h \<noteq> p then Inl ''forward-CAS: expected exactly 1 affected row, got 0''
          else Inr (row, tb\<lparr>tb_history := tb_history tb @ [row], tb_head := Some (row\<lparr>sr_data := td_keep T (sr_data h) d\<rparr>)\<rparr>))"

section \<open>The rows of a stream\<close>

datatype prov_state = PIntent | PIncomplete | PProvisioned

fun prov_state_text :: "prov_state \<Rightarrow> string" where
  "prov_state_text PIntent = ''intent''"
| "prov_state_text PIncomplete = ''incomplete''"
| "prov_state_text PProvisioned = ''provisioned''"

record prov_data =
  pd_genesisMarker :: string
  pd_state :: prov_state

record witness_data =
  wd_epoch :: int
  wd_state :: prov_state

record lease_data =
  hl_leaseId :: string
  hl_holderNodeId :: string
  hl_epoch :: int
  hl_status :: string
  hl_maxExpiryMs :: int
  hl_grantCommandId :: string

datatype cutover_phase = PREPARING | SOURCE_FENCED | FENCED | IMPORTING | READY | ACTIVE | ABORTED

fun phase_text :: "cutover_phase \<Rightarrow> string" where
  "phase_text PREPARING = ''PREPARING''"
| "phase_text SOURCE_FENCED = ''SOURCE_FENCED''"
| "phase_text FENCED = ''FENCED''"
| "phase_text IMPORTING = ''IMPORTING''"
| "phase_text READY = ''READY''"
| "phase_text ACTIVE = ''ACTIVE''"
| "phase_text ABORTED = ''ABORTED''"

record cutover_data =
  ct_epoch :: int
  ct_commandId :: string
  ct_phase :: cutover_phase
  ct_evidence :: "string option"

text \<open>The column with the JSON text of the grant is kept as the grant.\<close>

record activation_data =
  av_commandId :: string
  av_epoch :: int
  av_bKeyId :: string
  av_receiptDigest :: string
  av_priorGrantDigest :: "string option"
  av_grantDigest :: string
  av_grant :: LeaseGrant

record ha_stream =
  hs_provisioning :: "prov_data signed_table"
  hs_witness :: "witness_data signed_table"
  hs_lease :: "lease_data signed_table"
  hs_cutover :: "cutover_data signed_table"
  hs_activation :: "activation_data signed_table"

type_synonym ha_db = "string \<Rightarrow> ha_stream"

definition provMsg :: "string \<Rightarrow> prov_data table_def" where
  "provMsg s = \<lparr>td_msg = (\<lambda>d seq prev digest. tagged_frame [FText ''tsk_ha_prov/v1'', FText s, FText (pd_genesisMarker d),
       FText (prov_state_text (pd_state d)), FInt seq, nullable prev, FText digest]),
     td_link = (\<lambda>_. Inr ()), td_unique = (\<lambda>_ _. False), td_keep = (\<lambda>old new. new\<lparr>pd_genesisMarker := pd_genesisMarker old\<rparr>)\<rparr>"

definition witMsg :: "string \<Rightarrow> witness_data table_def" where
  "witMsg s = \<lparr>td_msg = (\<lambda>d seq prev digest. tagged_frame [FText ''tsk_ha_witness/v1'', FText s, FInt (wd_epoch d),
       FText (prov_state_text (wd_state d)), FInt seq, nullable prev, FText digest]),
     td_link = (\<lambda>d. vInt (wd_epoch d) ''epoch'' 0 MAX_EPOCH), td_unique = (\<lambda>_ _. False), td_keep = (\<lambda>old new. new)\<rparr>"

definition leaseMsg :: "string \<Rightarrow> lease_data table_def" where
  "leaseMsg s = \<lparr>td_msg = (\<lambda>d seq prev digest. tagged_frame [FText ''tsk_ha_lease/v1'', FText s, FText (hl_leaseId d),
       FText (hl_holderNodeId d), FInt (hl_epoch d), FInt seq, FText (hl_status d), FInt (hl_maxExpiryMs d),
       FText (hl_grantCommandId d), nullable prev, FText digest]),
     td_link = (\<lambda>d. checks [vInt (hl_epoch d) ''epoch'' 0 MAX_EPOCH, vInt (hl_maxExpiryMs d) ''granted_max_expiry_ms'' 0 MAX_MS]),
     td_unique = (\<lambda>a b. hl_grantCommandId a = hl_grantCommandId b), td_keep = (\<lambda>old new. new)\<rparr>"

definition cutMsg :: "string \<Rightarrow> cutover_data table_def" where
  "cutMsg s = \<lparr>td_msg = (\<lambda>d seq prev digest. tagged_frame [FText ''tsk_ha_cutover/v1'', FText s, FInt (ct_epoch d),
       FText (ct_commandId d), FInt seq, FText (phase_text (ct_phase d)), nullable (ct_evidence d), nullable prev, FText digest]),
     td_link = (\<lambda>d. vInt (ct_epoch d) ''epoch'' 0 MAX_EPOCH), td_unique = (\<lambda>_ _. False), td_keep = (\<lambda>old new. new)\<rparr>"

definition activation_checks :: "activation_data \<Rightarrow> unit res list" where
  "activation_checks d =
     [vId (av_commandId d) ID_RE ''activation command_id'', vInt (av_epoch d) ''activation epoch'' 1 MAX_EPOCH,
      vId (av_bKeyId d) KEY_ID_RE ''activation target key'', require (HEX64 (av_receiptDigest d)) ''invalid activation receipt digest'',
      vNullableDigest (av_priorGrantDigest d) ''prior_target_grant_digest'', require (HEX64 (av_grantDigest d)) ''invalid activation grant_digest'']"

definition activationMsg :: "string \<Rightarrow> activation_data table_def" where
  "activationMsg s = \<lparr>td_msg = (\<lambda>d seq prev digest. tagged_frame [FText ''tsk_ha_source_activation/v2'', FText s, FText (av_commandId d),
       FInt (av_epoch d), FText (av_bKeyId d), FText (av_receiptDigest d), FInt seq, nullable (av_priorGrantDigest d),
       FText (av_grantDigest d), nullable prev, FText digest]),
     td_link = (\<lambda>d. checks (activation_checks d)), td_unique = (\<lambda>a b. av_commandId a = av_commandId b), td_keep = (\<lambda>old new. new)\<rparr>"

text \<open>Reading for an activation also verifies the stored grants.\<close>

definition activation_grant_checks :: "sha_fn \<Rightarrow> ('m, 'p) ed25519 \<Rightarrow> 'm resolver \<Rightarrow> string \<Rightarrow> activation_data \<Rightarrow> unit res list" where
  "activation_grant_checks S E resolver s d =
     [verifyLeaseGrant S E resolver (av_grant d),
      require (lg_grantDigest (av_grant d) = av_grantDigest d \<and> lg_streamId (av_grant d) = s \<and> lg_commandId (av_grant d) = av_commandId d \<and>
        lg_leaseEpoch (av_grant d) = av_epoch d \<and> lg_holderNodeId (av_grant d) = av_bKeyId d)
        ''activation grant_json does not bind its signed activation row -- quarantine'']"

definition activation_rows :: "sha_fn \<Rightarrow> ('m, 'p) ed25519 \<Rightarrow> 'm resolver \<Rightarrow> string \<Rightarrow> activation_data table_def" where
  "activation_rows S E resolver s = (activationMsg s)\<lparr>td_link := (\<lambda>d. checks (activation_checks d @ activation_grant_checks S E resolver s d))\<rparr>"

section \<open>Provisioning\<close>

definition prov_put ::
  "ha_platform \<Rightarrow> 'p ha_control \<Rightarrow> string \<Rightarrow> prov_data \<Rightarrow> int \<Rightarrow> string option \<Rightarrow> ha_stream \<Rightarrow> (prov_data signed_row \<times> ha_stream) res" where
  "prov_put P C s d seq prev x =
     bind_res (table_transition P C (provMsg s) d seq prev (hs_provisioning x)) (\<lambda>(row, tb). Inr (row, x\<lparr>hs_provisioning := tb\<rparr>))"

definition readProvisioning :: "ha_platform \<Rightarrow> 'p ha_control \<Rightarrow> string \<Rightarrow> ha_stream \<Rightarrow> prov_data signed_row option res" where
  "readProvisioning P C s x = read_table P C (provMsg s) (hs_provisioning x)"

definition readWitness :: "ha_platform \<Rightarrow> 'p ha_control \<Rightarrow> string \<Rightarrow> ha_stream \<Rightarrow> witness_data signed_row option res" where
  "readWitness P C s x = read_table P C (witMsg s) (hs_witness x)"

text \<open>Both inserts of the genesis do nothing on a conflict.\<close>

definition witnessGenesis :: "ha_platform \<Rightarrow> 'p ha_control \<Rightarrow> string \<Rightarrow> prov_state \<Rightarrow> ha_stream \<Rightarrow> ha_stream" where
  "witnessGenesis P C s state x =
     (let row = signed_row_of P C (witMsg s) \<lparr>wd_epoch = 0, wd_state = state\<rparr> 1 None; tb = hs_witness x in
      x\<lparr>hs_witness := tb
          \<lparr>tb_history := (if history_conflict (witMsg s) row tb then tb_history tb else tb_history tb @ [row]),
           tb_head := (case tb_head tb of None \<Rightarrow> Some row | Some h \<Rightarrow> Some h)\<rparr>\<rparr>)"

definition witnessAdvanceState ::
  "ha_platform \<Rightarrow> 'p ha_control \<Rightarrow> string \<Rightarrow> int \<Rightarrow> prov_state \<Rightarrow> ha_stream \<Rightarrow> (witness_data signed_row \<times> ha_stream) res" where
  "witnessAdvanceState P C s epoch state x =
     bind_res (readWitness P C s x) (\<lambda>cur.
       case cur of
         None \<Rightarrow> Inl ''witness genesis missing''
       | Some c \<Rightarrow>
           bind_res (table_transition P C (witMsg s) \<lparr>wd_epoch = epoch, wd_state = state\<rparr> (sr_seq c + 1) (Some (sr_digest c)) (hs_witness x)) (\<lambda>(row, tb).
             Inr (row, x\<lparr>hs_witness := tb\<rparr>)))"

text \<open>The three transactions of \<^verbatim>\<open>provision\<close>.\<close>

definition provision_intent :: "ha_platform \<Rightarrow> 'p ha_control \<Rightarrow> string \<Rightarrow> string \<Rightarrow> ha_stream \<Rightarrow> (unit \<times> ha_stream) res" where
  "provision_intent P C s genesis x =
     bind_res (readProvisioning P C s x) (\<lambda>cur.
       case cur of
         Some c \<Rightarrow> if pd_genesisMarker (sr_data c) \<noteq> genesis then Inl ''genesis marker conflict for an existing stream'' else Inr ((), x)
       | None \<Rightarrow> bind_res (prov_put P C s \<lparr>pd_genesisMarker = genesis, pd_state = PIntent\<rparr> 1 None x) (\<lambda>(_, x'). Inr ((), x')))"

definition provision_incomplete :: "ha_platform \<Rightarrow> 'p ha_control \<Rightarrow> string \<Rightarrow> string \<Rightarrow> ha_stream \<Rightarrow> (unit \<times> ha_stream) res" where
  "provision_incomplete P C s genesis x =
     bind_res (readProvisioning P C s x) (\<lambda>cur.
       case cur of
         None \<Rightarrow> Inl ''TypeError''
       | Some c \<Rightarrow>
           if pd_genesisMarker (sr_data c) \<noteq> genesis then Inl ''genesis marker conflict''
           else if pd_state (sr_data c) = PIntent
           then bind_res (prov_put P C s \<lparr>pd_genesisMarker = genesis, pd_state = PIncomplete\<rparr> (sr_seq c + 1) (Some (sr_digest c)) x) (\<lambda>(_, x').
                  Inr ((), witnessGenesis P C s PIncomplete x'))
           else Inr ((), x))"

definition provision_provisioned :: "ha_platform \<Rightarrow> 'p ha_control \<Rightarrow> string \<Rightarrow> string \<Rightarrow> ha_stream \<Rightarrow> (prov_data signed_row \<times> ha_stream) res" where
  "provision_provisioned P C s genesis x =
     bind_res (readProvisioning P C s x) (\<lambda>cur.
       case cur of
         None \<Rightarrow> Inl ''TypeError''
       | Some c \<Rightarrow>
           if pd_genesisMarker (sr_data c) \<noteq> genesis then Inl ''genesis marker conflict''
           else if pd_state (sr_data c) = PIncomplete
           then bind_res (prov_put P C s \<lparr>pd_genesisMarker = genesis, pd_state = PProvisioned\<rparr> (sr_seq c + 1) (Some (sr_digest c)) x) (\<lambda>(row, x').
                  bind_res (witnessAdvanceState P C s 0 PProvisioned x') (\<lambda>(_, x''). Inr (row, x'')))
           else Inr (c, x))"

definition provision_args :: "string \<Rightarrow> unit res" where
  "provision_args genesis = require (1 \<le> length genesis \<and> length genesis \<le> 512) ''invalid genesisMarker''"

section \<open>Leases\<close>

record lease_input =
  li_leaseId :: string
  li_holderNodeId :: string
  li_epoch :: int
  li_status :: string
  li_maxExpiryMs :: int
  li_grantCommandId :: string

definition readLease :: "ha_platform \<Rightarrow> 'p ha_control \<Rightarrow> string \<Rightarrow> ha_stream \<Rightarrow> lease_data signed_row option res" where
  "readLease P C s x = read_table P C (leaseMsg s) (hs_lease x)"

definition readCutover :: "ha_platform \<Rightarrow> 'p ha_control \<Rightarrow> string \<Rightarrow> ha_stream \<Rightarrow> cutover_data signed_row option res" where
  "readCutover P C s x = read_table P C (cutMsg s) (hs_cutover x)"

definition CUTOVER_TERMINAL :: "cutover_phase \<Rightarrow> bool" where
  "CUTOVER_TERMINAL p \<longleftrightarrow> p = ACTIVE \<or> p = ABORTED"

definition CUTOVER_FROZEN :: "cutover_phase \<Rightarrow> bool" where
  "CUTOVER_FROZEN p \<longleftrightarrow> p \<in> {PREPARING, SOURCE_FENCED, FENCED, IMPORTING, READY}"

text \<open>The stream is provisioned: its verified witness.\<close>

definition provisioned_witness :: "ha_platform \<Rightarrow> 'p ha_control \<Rightarrow> string \<Rightarrow> ha_stream \<Rightarrow> witness_data signed_row res" where
  "provisioned_witness P C s x =
     bind_res (readWitness P C s x) (\<lambda>w.
       case w of
         Some r \<Rightarrow> if wd_state (sr_data r) = PProvisioned then Inr r else Inl ''stream not provisioned''
       | None \<Rightarrow> Inl ''stream not provisioned'')"

definition grants_at :: "int \<Rightarrow> ha_stream \<Rightarrow> lease_data signed_row list" where
  "grants_at epoch x = filter (\<lambda>r. hl_epoch (sr_data r) = epoch) (sort_key sr_seq (tb_history (hs_lease x)))"

definition max_expiry_at :: "int \<Rightarrow> ha_stream \<Rightarrow> int" where
  "max_expiry_at epoch x =
     (case grants_at epoch x of [] \<Rightarrow> 0 | r # rs \<Rightarrow> fold (\<lambda>q m. max (hl_maxExpiryMs (sr_data q)) m) rs (hl_maxExpiryMs (sr_data r)))"

definition lease_of_input :: "lease_input \<Rightarrow> lease_data" where
  "lease_of_input i = \<lparr>hl_leaseId = li_leaseId i, hl_holderNodeId = li_holderNodeId i, hl_epoch = li_epoch i, hl_status = li_status i,
     hl_maxExpiryMs = li_maxExpiryMs i, hl_grantCommandId = li_grantCommandId i\<rparr>"

definition lease_args :: "lease_input \<Rightarrow> unit res" where
  "lease_args i = checks
     [vId (li_leaseId i) ID_RE ''leaseId'', vId (li_holderNodeId i) ID_RE ''holderNodeId'', vId (li_grantCommandId i) ID_RE ''grantCommandId'',
      vInt (li_epoch i) ''epoch'' 0 MAX_EPOCH, vInt (li_maxExpiryMs i) ''grantedMaxExpiryMs'' 0 MAX_MS,
      require (li_status i = ''active'' \<or> li_status i = ''revoked'') ''invalid lease status'']"

text \<open>A new grant, once its command is not a retry: the writer of an epoch is fixed by its first grant, and the expiry
  does not fall.\<close>

definition lease_append ::
  "ha_platform \<Rightarrow> 'p ha_control \<Rightarrow> string \<Rightarrow> lease_input \<Rightarrow> lease_data signed_row option \<Rightarrow> ha_stream \<Rightarrow> ((lease_data \<times> int \<times> string) \<times> ha_stream) res" where
  "lease_append P C s i cur x =
     bind_res (checks
       [require (case grants_at (li_epoch i) x of [] \<Rightarrow> True
           | r # _ \<Rightarrow> hl_holderNodeId (sr_data r) = li_holderNodeId i \<and> hl_leaseId (sr_data r) = li_leaseId i)
           ''lease holder/leaseId is immutable within an epoch -- advance the epoch to change the writer'',
        vInt (max_expiry_at (li_epoch i) x) ''prior max expiry'' 0 MAX_MS,
        require (max_expiry_at (li_epoch i) x \<le> li_maxExpiryMs i) ''grantedMaxExpiryMs would shorten the monotonic fence horizon'']) (\<lambda>_.
     bind_res (table_transition P C (leaseMsg s) (lease_of_input i) ((case cur of None \<Rightarrow> 0 | Some c \<Rightarrow> sr_seq c) + 1)
         (map_option sr_digest cur) (hs_lease x)) (\<lambda>(row, tb).
       Inr ((sr_data row, sr_seq row, sr_digest row), x\<lparr>hs_lease := tb\<rparr>)))"

definition writeLease ::
  "ha_platform \<Rightarrow> 'p ha_control \<Rightarrow> string \<Rightarrow> lease_input \<Rightarrow> int \<Rightarrow> ha_stream \<Rightarrow> ((lease_data \<times> int \<times> string) \<times> ha_stream) res" where
  "writeLease P C s i now x =
     bind_res (lease_args i) (\<lambda>_.
     bind_res (provisioned_witness P C s x) (\<lambda>w.
     bind_res (require (li_epoch i = wd_epoch (sr_data w)) ''lease epoch must equal the current witness epoch'') (\<lambda>_.
     bind_res (vInt now ''control now'' 0 MAX_MS) (\<lambda>_.
     bind_res (require (li_maxExpiryMs i \<le> now + MAX_LEASE_HORIZON_MS) ''grantedMaxExpiryMs exceeds the control-clock horizon'') (\<lambda>_.
     bind_res (readCutover P C s x) (\<lambda>cut.
     bind_res (require (\<not> ((case cut of None \<Rightarrow> False | Some c \<Rightarrow> CUTOVER_FROZEN (ct_phase (sr_data c))) \<and> li_status i = ''active''))
         ''lease grants are frozen while a promotion is in-flight'') (\<lambda>_.
     bind_res (readLease P C s x) (\<lambda>cur.
       case find (\<lambda>r. hl_grantCommandId (sr_data r) = li_grantCommandId i) (tb_history (hs_lease x)) of
         Some r \<Rightarrow>
           if sr_data r \<noteq> lease_of_input i then Inl ''grantCommandId reused with a different lease tuple -- quarantine''
           else bind_res (link_row (leaseMsg s) r) (\<lambda>_. Inr ((lease_of_input i, sr_seq r, sr_digest r), x))
       | None \<Rightarrow> lease_append P C s i cur x))))))))"

definition proveOldFenced :: "ha_platform \<Rightarrow> 'p ha_control \<Rightarrow> string \<Rightarrow> int \<Rightarrow> int \<Rightarrow> int \<Rightarrow> ha_stream \<Rightarrow> (lease_data signed_row \<times> int) res" where
  "proveOldFenced P C s target margin now x =
     bind_res (readLease P C s x) (\<lambda>lease.
       case lease of
         None \<Rightarrow> Inl ''no lease to fence -- A not proven fenced''
       | Some r \<Rightarrow>
           bind_res (checks
             [require (hl_epoch (sr_data r) = target - 1) ''lease epoch != targetEpoch-1 -- A not proven fenced'',
              require (hl_status (sr_data r) = ''revoked'') ''lease is not revoked -- A not proven fenced'',
              vInt (max_expiry_at (hl_epoch (sr_data r)) x) ''max grant expiry'' 0 MAX_MS, vInt now ''control now'' 0 MAX_MS,
              require (max_expiry_at (hl_epoch (sr_data r)) x + margin \<le> now)
                ''lease grant has not expired past the safety margin -- A not proven fenced (wait or STONITH)'']) (\<lambda>_.
             Inr (r, max_expiry_at (hl_epoch (sr_data r)) x)))"

end
