(* ===== verification/Ha_Cutover.thy ===== *)
theory Ha_Cutover
  imports Ha_Control
begin

text \<open>
  The cutover of a promotion in \<^verbatim>\<open>packages/server/src/ha-control-fencing.ts\<close>: the intent, the binding of the frozen source, the
  advance of the epoch against the Redis claim, import, readiness, activation, and the grant for the promoted source.
  The receipts of \<^verbatim>\<open>packages/server/src/tsk-source-fence.ts\<close> that it verifies are modelled here.
\<close>

section \<open>Receipts\<close>

record SourceFrozenReceipt =
  zr_streamId :: string
  zr_commandId :: string
  zr_epoch :: int
  zr_n :: int
  zr_signedHeadDigestAtN :: string
  zr_sourceStateDigestAtN :: string
  zr_sourceNodeId :: string
  zr_revokeCommandId :: string
  zr_leaseId :: string
  zr_leaseGrantDigest :: string
  zr_receiptDigest :: string
  zr_sourceKeyId :: string
  zr_sourceSignature :: string

definition frozenReceiptMsg :: "SourceFrozenReceipt \<Rightarrow> string \<Rightarrow> byte list" where
  "frozenReceiptMsg r digest = tagged_frame
     [FText ''tsk_source_frozen/v2'', FText (zr_streamId r), FText (zr_commandId r), FInt (zr_epoch r), FInt (zr_n r),
      FText (zr_signedHeadDigestAtN r), FText (zr_sourceStateDigestAtN r), FText (zr_sourceNodeId r), FText (zr_revokeCommandId r),
      FText (zr_leaseId r), FText (zr_leaseGrantDigest r), FText digest]"

definition signSourceFrozenReceipt ::
  "sha_fn \<Rightarrow> ('m, 'p) ed25519 \<Rightarrow> string \<Rightarrow> 'p signing_key \<Rightarrow> SourceFrozenReceipt \<Rightarrow> SourceFrozenReceipt res" where
  "signSourceFrozenReceipt S E keyId key b =
     bind_res (checks
       [require (KEY_ID_RE keyId) ''invalid source keyId'', vId (zr_streamId b) STREAM_ID_RE ''streamId'', vId (zr_commandId b) ID_RE ''commandId'',
        vId (zr_sourceNodeId b) ID_RE ''sourceNodeId'', vId (zr_revokeCommandId b) ID_RE ''revokeCommandId'', vId (zr_leaseId b) ID_RE ''leaseId'',
        vInt (zr_epoch b) ''epoch'' 0 MAX_EPOCH, vInt (zr_n b) ''n'' 0 MAX_SEQ,
        require (HEX64 (zr_signedHeadDigestAtN b)) ''invalid signedHeadDigestAtN'',
        require (HEX64 (zr_sourceStateDigestAtN b)) ''invalid sourceStateDigestAtN'',
        require (HEX64 (zr_leaseGrantDigest b)) ''invalid leaseGrantDigest'']) (\<lambda>_.
       let digest = sha256hex S (frozenReceiptMsg b []) in
       bind_res (edSignB64u E keyId key (frozenReceiptMsg b digest)) (\<lambda>signature.
         Inr (b\<lparr>zr_receiptDigest := digest, zr_sourceKeyId := keyId, zr_sourceSignature := signature\<rparr>)))"

definition verifySourceFrozenReceipt :: "sha_fn \<Rightarrow> ('m, 'p) ed25519 \<Rightarrow> 'm resolver \<Rightarrow> SourceFrozenReceipt \<Rightarrow> unit res" where
  "verifySourceFrozenReceipt S E resolver r =
     bind_res (require (sha256hex S (frozenReceiptMsg r []) = zr_receiptDigest r) ''frozen receipt digest mismatch'') (\<lambda>_.
       verifySig E resolver (zr_sourceKeyId r) (frozenReceiptMsg r (zr_receiptDigest r)) (zr_sourceSignature r))"

record BFinalizedReceipt =
  br_streamId :: string
  br_commandId :: string
  br_epoch :: int
  br_sourceEpoch :: string
  br_n :: int
  br_generationId :: string
  br_frozenReceiptDigest :: string
  br_manifestDigest :: string
  br_manifestRoot :: string
  br_sourceSystemId :: string
  br_sourceKeyId :: string
  br_sourceSignature :: string
  br_guardKeyId :: string
  br_guardSignature :: string
  br_signedHeadDigestAtN :: string
  br_sourceStateDigestAtN :: string
  br_bSystemId :: string
  br_receiptDigest :: string
  br_bKeyId :: string
  br_bSignature :: string

definition bFinalizedMsg :: "BFinalizedReceipt \<Rightarrow> string \<Rightarrow> byte list" where
  "bFinalizedMsg b digest = tagged_frame
     [FText ''tsk_b_finalized/v2'', FText (br_streamId b), FText (br_commandId b), FInt (br_epoch b), FText (br_sourceEpoch b), FInt (br_n b),
      FText (br_generationId b), FText (br_frozenReceiptDigest b), FText (br_manifestDigest b), FText (br_manifestRoot b),
      FText (br_sourceSystemId b), FText (br_sourceKeyId b), FText (br_sourceSignature b), FText (br_guardKeyId b), FText (br_guardSignature b),
      FText (br_signedHeadDigestAtN b), FText (br_sourceStateDigestAtN b), FText (br_bSystemId b), FText digest]"

definition signBFinalizedReceipt ::
  "sha_fn \<Rightarrow> ('m, 'p) ed25519 \<Rightarrow> string \<Rightarrow> 'p signing_key \<Rightarrow> BFinalizedReceipt \<Rightarrow> BFinalizedReceipt res" where
  "signBFinalizedReceipt S E keyId key b =
     (let digest = sha256hex S (bFinalizedMsg b []) in
      bind_res (edSignB64u E keyId key (bFinalizedMsg b digest)) (\<lambda>signature.
        Inr (b\<lparr>br_receiptDigest := digest, br_bKeyId := keyId, br_bSignature := signature\<rparr>)))"

definition verifyBFinalizedReceipt :: "sha_fn \<Rightarrow> ('m, 'p) ed25519 \<Rightarrow> 'm resolver \<Rightarrow> BFinalizedReceipt \<Rightarrow> unit res" where
  "verifyBFinalizedReceipt S E resolver r =
     bind_res (require (sha256hex S (bFinalizedMsg r []) = br_receiptDigest r) ''BFinalizedReceipt digest mismatch'') (\<lambda>_.
       verifySig E resolver (br_bKeyId r) (bFinalizedMsg r (br_receiptDigest r)) (br_bSignature r))"

section \<open>Fence evidence\<close>

record FenceEvidence =
  fe_holderNodeId :: string
  fe_grantSeq :: int
  fe_grantDigest :: string
  fe_maxExpiryMs :: int
  fe_controlNowMs :: int
  fe_safetyMarginMs :: int
  fe_redisNodeId :: string
  fe_redisEpoch :: int
  fe_redisExpiresMs :: int
  fe_redisClaimDigest :: string
  fe_witnessFrom :: int
  fe_witnessTo :: int

definition evidence_parts :: "FenceEvidence \<Rightarrow> frame_part list" where
  "evidence_parts e =
     [FText ''tsk_ha_evidence/v1'', FText (fe_holderNodeId e), FInt (fe_grantSeq e), FText (fe_grantDigest e), FInt (fe_maxExpiryMs e),
      FInt (fe_controlNowMs e), FInt (fe_safetyMarginMs e), FText (fe_redisNodeId e), FInt (fe_redisEpoch e), FInt (fe_redisExpiresMs e),
      FText (fe_redisClaimDigest e), FInt (fe_witnessFrom e), FInt (fe_witnessTo e), FText ''lease-expiry-control-clock'']"

definition encodeEvidence :: "ha_platform \<Rightarrow> FenceEvidence \<Rightarrow> string" where
  "encodeEvidence P e = hp_b64u P (tagged_frame (evidence_parts e))"

definition read_length :: "byte list \<Rightarrow> nat" where
  "read_length bs = foldl (\<lambda>n b. 256 * n + unat b) 0 (take 4 bs)"

function unframe :: "ha_platform \<Rightarrow> byte list \<Rightarrow> string list res" where
  "unframe P [] = Inr []"
| "unframe P (tag # bs) =
     (if tag = 0 then bind_res (unframe P bs) (\<lambda>out. Inr ([] # out))
      else if tag \<noteq> 1 then Inl ''malformed evidence frame tag''
      else if length bs < 4 then Inl ''truncated evidence frame length''
      else let len = read_length bs; body = drop 4 bs in
        if length body < len then Inl ''truncated evidence frame body''
        else bind_res (unframe P (drop len body)) (\<lambda>out. Inr (hp_utf8 P (take len body) # out)))"
  by pat_completeness auto

termination unframe
  by (relation "measure (\<lambda>(P, bs). length bs)") auto

definition vIntText :: "ha_platform \<Rightarrow> string \<Rightarrow> string \<Rightarrow> int \<Rightarrow> int \<Rightarrow> int res" where
  "vIntText P text label lo hi =
     (case hp_number P text of NInt n \<Rightarrow> bind_res (vInt n label lo hi) (\<lambda>_. Inr n) | _ \<Rightarrow> Inl (label @ '' must be a safe integer in range''))"

definition evidence_of :: "ha_platform \<Rightarrow> string list \<Rightarrow> FenceEvidence res" where
  "evidence_of P f =
     bind_res (vId (f ! 1) ID_RE ''evidence.holderNodeId'') (\<lambda>_.
     bind_res (vIntText P (f ! 2) ''evidence.grantSeq'' 1 MAX_SEQ) (\<lambda>grantSeq.
     bind_res (require (HEX64 (f ! 3)) ''invalid evidence.grantDigest'') (\<lambda>_.
     bind_res (vIntText P (f ! 4) ''evidence.maxExpiryMs'' 0 MAX_MS) (\<lambda>maxExpiryMs.
     bind_res (vIntText P (f ! 5) ''evidence.controlNowMs'' 0 MAX_MS) (\<lambda>controlNowMs.
     bind_res (vIntText P (f ! 6) ''evidence.safetyMarginMs'' 0 MAX_SAFETY_MARGIN_MS) (\<lambda>safetyMarginMs.
     bind_res (vId (f ! 7) ID_RE ''evidence.redisNodeId'') (\<lambda>_.
     bind_res (vIntText P (f ! 8) ''evidence.redisEpoch'' 1 MAX_EPOCH) (\<lambda>redisEpoch.
     bind_res (vIntText P (f ! 9) ''evidence.redisExpiresMs'' 0 MAX_MS) (\<lambda>redisExpiresMs.
     bind_res (require (HEX64 (f ! 10)) ''invalid evidence.redisClaimDigest'') (\<lambda>_.
     bind_res (vIntText P (f ! 11) ''evidence.witnessFrom'' 0 MAX_EPOCH) (\<lambda>witnessFrom.
     bind_res (vIntText P (f ! 12) ''evidence.witnessTo'' 1 MAX_EPOCH) (\<lambda>witnessTo.
       Inr \<lparr>fe_holderNodeId = f ! 1, fe_grantSeq = grantSeq, fe_grantDigest = f ! 3, fe_maxExpiryMs = maxExpiryMs,
            fe_controlNowMs = controlNowMs, fe_safetyMarginMs = safetyMarginMs, fe_redisNodeId = f ! 7, fe_redisEpoch = redisEpoch,
            fe_redisExpiresMs = redisExpiresMs, fe_redisClaimDigest = f ! 10, fe_witnessFrom = witnessFrom, fe_witnessTo = witnessTo\<rparr>))))))))))))"

definition decodeEvidence :: "ha_platform \<Rightarrow> string \<Rightarrow> FenceEvidence res" where
  "decodeEvidence P s =
     bind_res (require (B64U_CANON s) ''invalid evidence encoding'') (\<lambda>_.
     bind_res (unframe P (hp_unb64u P s)) (\<lambda>f.
     bind_res (require (length f = 14 \<and> f ! 0 = ''tsk_ha_evidence/v1'') ''unexpected evidence layout'') (\<lambda>_.
     bind_res (require (f ! 13 = ''lease-expiry-control-clock'') ''unknown evidence proofMode'') (\<lambda>_.
       evidence_of P f))))"

section \<open>The Redis authority\<close>

definition claimDigest :: "ha_platform \<Rightarrow> FenceRecord \<Rightarrow> string" where
  "claimDigest P r = sha256hex (hp_sha P) (tagged_frame
     [FText ''tsk_ha_claim/v1'', FText (fr_nodeId r), FInt (fr_fenceEpoch r), FInt (fr_expiresAt r), FText (fr_commandId r)])"

definition assertRedisAuthority :: "FenceRecord option \<Rightarrow> int \<Rightarrow> string \<Rightarrow> int \<Rightarrow> unit res" where
  "assertRedisAuthority r witnessEpoch commandId targetEpoch =
     (case r of
        None \<Rightarrow> require (witnessEpoch = 0) ''Redis fence authority is absent with witness epoch > 0 -- loss/rollback; quarantine''
      | Some f \<Rightarrow> checks
          [require (witnessEpoch \<le> fr_fenceEpoch f) ''Redis fence epoch < witness -- authority rolled back; quarantine'',
           require (\<not> witnessEpoch < fr_fenceEpoch f \<or> (fr_fenceEpoch f = targetEpoch \<and> fr_commandId f = commandId))
             ''Redis epoch ahead of witness without the matching active intent -- quarantine''])"

definition reconcileFencedRedis :: "ha_platform \<Rightarrow> FenceRecord option \<Rightarrow> FenceEvidence \<Rightarrow> string \<Rightarrow> unit res" where
  "reconcileFencedRedis P r evidence commandId =
     (case r of
        None \<Rightarrow> Inl ''Redis authority absent on a FENCED retry -- loss/rollback; quarantine''
      | Some f \<Rightarrow> checks
          [require (fr_fenceEpoch f = fe_witnessTo evidence) ''Redis epoch != the signed FENCED epoch on retry -- quarantine'',
           require (fr_active f \<and> fr_nodeId f = fe_redisNodeId evidence \<and> fr_commandId f = commandId \<and>
             fr_expiresAt f = fe_redisExpiresMs evidence \<and> claimDigest P f = fe_redisClaimDigest evidence)
             ''Redis record does not match the signed FENCED evidence tuple on retry -- quarantine''])"

definition claim_matches :: "string \<Rightarrow> int \<Rightarrow> string \<Rightarrow> int \<Rightarrow> FenceRecord \<Rightarrow> bool" where
  "claim_matches holder target cmd expiry r \<longleftrightarrow>
     fr_active r \<and> fr_nodeId r = holder \<and> fr_fenceEpoch r = target \<and> fr_commandId r = cmd \<and> fr_expiresAt r = expiry"

section \<open>Transitions of the cutover\<close>

definition cutTransition ::
  "ha_platform \<Rightarrow> 'p ha_control \<Rightarrow> string \<Rightarrow> cutover_data \<Rightarrow> int \<Rightarrow> string option \<Rightarrow> ha_stream \<Rightarrow> (cutover_data signed_row \<times> ha_stream) res" where
  "cutTransition P C s d seqno prev x =
     bind_res (table_transition P C (cutMsg s) d seqno prev (hs_cutover x)) (\<lambda>(row, tb). Inr (row, x\<lparr>hs_cutover := tb\<rparr>))"

text \<open>The next row after the current head.\<close>

definition cut_next :: "ha_platform \<Rightarrow> 'p ha_control \<Rightarrow> string \<Rightarrow> cutover_data signed_row \<Rightarrow> cutover_phase \<Rightarrow> string option \<Rightarrow> ha_stream \<Rightarrow> (cutover_data signed_row \<times> ha_stream) res" where
  "cut_next P C s cur phase evidence x =
     cutTransition P C s ((sr_data cur)\<lparr>ct_phase := phase, ct_evidence := evidence\<rparr>) (sr_seq cur + 1) (Some (sr_digest cur)) x"

definition cut_at :: "cutover_phase \<Rightarrow> string \<Rightarrow> int \<Rightarrow> cutover_data signed_row option \<Rightarrow> bool" where
  "cut_at phase cmd target cur \<longleftrightarrow>
     (case cur of None \<Rightarrow> False
      | Some c \<Rightarrow> ct_phase (sr_data c) = phase \<and> ct_commandId (sr_data c) = cmd \<and> ct_epoch (sr_data c) = target)"

definition command_args :: "string \<Rightarrow> int \<Rightarrow> unit res" where
  "command_args cmd target = checks [vId cmd ID_RE ''commandId'', vInt target ''targetEpoch'' 1 MAX_EPOCH]"

definition beginPromotionIntent ::
  "ha_platform \<Rightarrow> 'p ha_control \<Rightarrow> string \<Rightarrow> string \<Rightarrow> int \<Rightarrow> ha_stream \<Rightarrow> (cutover_data signed_row \<times> ha_stream) res" where
  "beginPromotionIntent P C s cmd target x =
     bind_res (command_args cmd target) (\<lambda>_.
     bind_res (provisioned_witness P C s x) (\<lambda>w.
     bind_res (require (target = wd_epoch (sr_data w) + 1) ''targetEpoch must equal witness.epoch+1'') (\<lambda>_.
     bind_res (readCutover P C s x) (\<lambda>cur.
       case cur of
         None \<Rightarrow> cutTransition P C s \<lparr>ct_epoch = target, ct_commandId = cmd, ct_phase = PREPARING, ct_evidence = None\<rparr> 1 None x
       | Some c \<Rightarrow>
           if \<not> CUTOVER_TERMINAL (ct_phase (sr_data c))
           then (if ct_commandId (sr_data c) = cmd \<and> ct_epoch (sr_data c) = target then Inr (c, x)
                 else Inl ''an in-flight intent blocks a new promotion'')
           else cutTransition P C s \<lparr>ct_epoch = target, ct_commandId = cmd, ct_phase = PREPARING, ct_evidence = None\<rparr>
                  (sr_seq c + 1) (Some (sr_digest c)) x))))"

definition abort_evidence :: "string \<Rightarrow> string" where
  "abort_evidence reason = json_text (JObject [(''k'', JString ''abort/v1''), (''reason'', JString reason)])"

definition abortFencedPromotion ::
  "ha_platform \<Rightarrow> 'p ha_control \<Rightarrow> string \<Rightarrow> string \<Rightarrow> int \<Rightarrow> string \<Rightarrow> ha_stream \<Rightarrow> (cutover_data signed_row \<times> ha_stream) res" where
  "abortFencedPromotion P C s cmd target reason x =
     bind_res (command_args cmd target) (\<lambda>_.
     bind_res (vId reason ID_RE ''reasonCode'') (\<lambda>_.
     bind_res (readCutover P C s x) (\<lambda>cur.
       if cut_at ABORTED cmd target cur
       then (if ct_evidence (sr_data (the cur)) \<noteq> Some (abort_evidence reason) then Inl ''ABORTED retry reason differs from signed evidence -- quarantine''
             else Inr (the cur, x))
       else if \<not> (cut_at FENCED cmd target cur \<or> cut_at IMPORTING cmd target cur \<or> cut_at READY cmd target cur)
       then Inl ''only a matching post-fence cutover may consume an ABORTED epoch -- quarantine''
       else bind_res (readWitness P C s x) (\<lambda>w.
         case w of
           None \<Rightarrow> Inl ''cannot consume ABORTED epoch without the exact signed witness advance -- quarantine''
         | Some r \<Rightarrow>
             if wd_state (sr_data r) \<noteq> PProvisioned \<or> wd_epoch (sr_data r) \<noteq> target
             then Inl ''cannot consume ABORTED epoch without the exact signed witness advance -- quarantine''
             else cut_next P C s (the cur) ABORTED (Some (abort_evidence reason)) x))))"

section \<open>Source activations\<close>

definition readActivationEpoch :: "ha_platform \<Rightarrow> 'p ha_control \<Rightarrow> string \<Rightarrow> ha_stream \<Rightarrow> int res" where
  "readActivationEpoch P C s x =
     (case tb_head (hs_activation x) of
        None \<Rightarrow> if tb_history (hs_activation x) \<noteq> [] then Inl ''source activation history exists without a head -- quarantine'' else Inr 0
      | Some head \<Rightarrow> bind_res (read_table P C (activationMsg s) (hs_activation x)) (\<lambda>_. Inr (av_epoch (sr_data head))))"

definition assertConsumedActivationEpochs :: "int \<Rightarrow> int \<Rightarrow> (int \<times> cutover_phase) list \<Rightarrow> int list \<Rightarrow> unit res" where
  "assertConsumedActivationEpochs current target cutoverRows activatedEpochs =
     bind_res (require (current < target) ''source activation epoch does not advance current authority -- quarantine'') (\<lambda>_.
       check_all (\<lambda>epoch. checks
         [require (epoch \<notin> set activatedEpochs) ''skipped activation epoch already has source authority evidence -- quarantine'',
          require (filter CUTOVER_TERMINAL (map snd (filter (\<lambda>r. fst r = epoch) cutoverRows)) = [ABORTED])
            ''source activation skipped epoch without one verified terminal ABORTED cutover -- quarantine'']) [current + 1..target - 1])"

definition assertActivationGap :: "int \<Rightarrow> int \<Rightarrow> ha_stream \<Rightarrow> unit res" where
  "assertActivationGap current target x =
     (let between = (\<lambda>e. current < e \<and> e < target);
          skipped = filter (\<lambda>r. between (ct_epoch (sr_data r))) (sort_key sr_seq (tb_history (hs_cutover x)));
          activated = filter (\<lambda>r. between (av_epoch (sr_data r))) (tb_history (hs_activation x)) in
      bind_res (check_all (\<lambda>r. vInt (ct_epoch (sr_data r)) ''skipped cutover epoch'' 1 MAX_EPOCH) skipped) (\<lambda>_.
      bind_res (check_all (\<lambda>r. vInt (av_epoch (sr_data r)) ''skipped activation epoch'' 1 MAX_EPOCH) activated) (\<lambda>_.
        assertConsumedActivationEpochs current target (map (\<lambda>r. (ct_epoch (sr_data r), ct_phase (sr_data r))) skipped)
          (map (\<lambda>r. av_epoch (sr_data r)) activated))))"

section \<open>From the intent to the fence\<close>

definition frozen_evidence :: "SourceFrozenReceipt \<Rightarrow> string" where
  "frozen_evidence r = json_text (JObject
     [(''k'', JString ''source_fenced/v1''), (''frozenReceiptDigest'', JString (zr_receiptDigest r)), (''sourceEpoch'', JNum (NInt (zr_epoch r))),
      (''n'', JNum (NInt (zr_n r))), (''headAtN'', JString (zr_signedHeadDigestAtN r)), (''stateAtN'', JString (zr_sourceStateDigestAtN r)),
      (''sourceNodeId'', JString (zr_sourceNodeId r)), (''revokeCommandId'', JString (zr_revokeCommandId r)), (''leaseId'', JString (zr_leaseId r)),
      (''leaseGrantDigest'', JString (zr_leaseGrantDigest r)), (''sourceKeyId'', JString (zr_sourceKeyId r))])"

definition bindSourceFenced ::
  "ha_platform \<Rightarrow> ('m, 'p) ed25519 \<Rightarrow> 'p ha_control \<Rightarrow> string \<Rightarrow> string \<Rightarrow> int \<Rightarrow> SourceFrozenReceipt \<Rightarrow> 'm resolver \<Rightarrow> ha_stream \<Rightarrow> (cutover_data signed_row \<times> ha_stream) res" where
  "bindSourceFenced P E C s cmd target fr resolver x =
     bind_res (command_args cmd target) (\<lambda>_.
     bind_res (verifySourceFrozenReceipt (hp_sha P) E resolver fr) (\<lambda>_.
     bind_res (checks
       [require (zr_commandId fr = cmd) ''frozen receipt commandId != cutover command -- quarantine'',
        require (zr_streamId fr = s) ''frozen receipt streamId != cutover stream -- quarantine'']) (\<lambda>_.
     bind_res (readActivationEpoch P C s x) (\<lambda>sourceEpoch.
     bind_res (assertActivationGap sourceEpoch target x) (\<lambda>_.
     bind_res (require (zr_epoch fr = sourceEpoch) ''frozen receipt epoch != current signed source activation epoch -- quarantine'') (\<lambda>_.
     bind_res (readCutover P C s x) (\<lambda>cur.
       if cut_at SOURCE_FENCED cmd target cur
       then (if ct_evidence (sr_data (the cur)) \<noteq> Some (frozen_evidence fr)
             then Inl ''SOURCE_FENCED retry with a DIFFERENT frozen receipt than the bound one -- quarantine''
             else Inr (the cur, x))
       else if \<not> cut_at PREPARING cmd target cur then Inl ''no matching PREPARING intent to bind SOURCE_FENCED -- quarantine''
       else cut_next P C s (the cur) SOURCE_FENCED (Some (frozen_evidence fr)) x)))))))"

text \<open>The first transaction of \<^verbatim>\<open>advanceEpoch\<close>: either the fence is there already, with its evidence, or the old
  holder is proven fenced, with the digest of its lease.\<close>

datatype advance_pre = Already_fenced "string option" | Proven_fenced string

definition advance_args :: "string \<Rightarrow> int \<Rightarrow> string \<Rightarrow> int \<Rightarrow> int \<Rightarrow> unit res" where
  "advance_args cmd target holder margin claimExpiry =
     bind_res (command_args cmd target) (\<lambda>_. checks
       [vId holder ID_RE ''holderNodeId'', vInt margin ''safetyMarginMs'' 0 MAX_SAFETY_MARGIN_MS, vInt claimExpiry ''claimExpiresAtMs'' 1 MAX_MS])"

definition advance_first ::
  "ha_platform \<Rightarrow> 'p ha_control \<Rightarrow> string \<Rightarrow> string \<Rightarrow> int \<Rightarrow> int \<Rightarrow> int \<Rightarrow> FenceRecord option res \<Rightarrow> ha_stream \<Rightarrow> advance_pre res" where
  "advance_first P C s cmd target margin now redis x =
     bind_res (readCutover P C s x) (\<lambda>cut.
       if cut_at FENCED cmd target cut then Inr (Already_fenced (ct_evidence (sr_data (the cut))))
       else bind_res (readWitness P C s x) (\<lambda>w.
            if \<not> cut_at SOURCE_FENCED cmd target cut then Inl ''no matching SOURCE_FENCED intent for this promotion''
            else case w of
              None \<Rightarrow> Inl ''stream not provisioned''
            | Some r \<Rightarrow>
                bind_res (checks [require (wd_state (sr_data r) = PProvisioned) ''stream not provisioned'',
                  require (wd_epoch (sr_data r) = target - 1) ''witness epoch is not targetEpoch-1'']) (\<lambda>_.
                bind_res (proveOldFenced P C s target margin now x) (\<lambda>(lease, _).
                bind_res redis (\<lambda>f.
                bind_res (assertRedisAuthority f (wd_epoch (sr_data r)) cmd target) (\<lambda>_. Inr (Proven_fenced (sr_digest lease))))))))"

definition advance_retry :: "ha_platform \<Rightarrow> string \<Rightarrow> string option \<Rightarrow> FenceRecord option res \<Rightarrow> unit res" where
  "advance_retry P cmd evidence redis =
     (case evidence of
        None \<Rightarrow> Inl ''FENCED cutover is missing its signed evidence -- quarantine''
      | Some t \<Rightarrow> bind_res redis (\<lambda>f. bind_res (decodeEvidence P t) (\<lambda>e. reconcileFencedRedis P f e cmd)))"

definition advance_readback :: "ha_platform \<Rightarrow> string \<Rightarrow> string \<Rightarrow> int \<Rightarrow> int \<Rightarrow> FenceRecord option res \<Rightarrow> string res" where
  "advance_readback P cmd holder target claimExpiry redis =
     bind_res redis (\<lambda>f.
       case f of
         None \<Rightarrow> Inl ''Redis claim tuple did not read back exactly -- quarantine''
       | Some r \<Rightarrow> if claim_matches holder target cmd claimExpiry r then Inr (claimDigest P r) else Inl ''Redis claim tuple did not read back exactly -- quarantine'')"

text \<open>The last transaction of \<^verbatim>\<open>advanceEpoch\<close>; it asserts everything again, with two readings of the clock.\<close>

definition advance_last ::
  "ha_platform \<Rightarrow> 'p ha_control \<Rightarrow> string \<Rightarrow> string \<Rightarrow> int \<Rightarrow> string \<Rightarrow> int \<Rightarrow> int \<Rightarrow> string \<Rightarrow> string \<Rightarrow> FenceRecord option res \<Rightarrow> int \<Rightarrow> int \<Rightarrow> ha_stream \<Rightarrow> (FenceEvidence option \<times> ha_stream) res" where
  "advance_last P C s cmd target holder margin claimExpiry leaseDigest redisClaimDigest redis now nowFinal x =
     bind_res (readCutover P C s x) (\<lambda>cut.
       if cut_at FENCED cmd target cut
       then bind_res (advance_retry P cmd (ct_evidence (sr_data (the cut))) redis) (\<lambda>_. Inr (None, x))
       else if \<not> cut_at SOURCE_FENCED cmd target cut then Inl ''intent changed under promotion -- abort''
       else bind_res (readWitness P C s x) (\<lambda>w.
         if \<not> (case w of None \<Rightarrow> False | Some r \<Rightarrow> wd_state (sr_data r) = PProvisioned \<and> wd_epoch (sr_data r) = target - 1)
         then Inl ''witness changed under promotion -- abort''
         else bind_res (proveOldFenced P C s target margin now x) (\<lambda>(lease, maxExpiry).
              bind_res (require (sr_digest lease = leaseDigest) ''the fenced lease changed under promotion (frozen invariant violated) -- abort'') (\<lambda>_.
              bind_res redis (\<lambda>f.
              bind_res (vInt nowFinal ''control now'' 0 MAX_MS) (\<lambda>_.
                case f of
                  None \<Rightarrow> Inl ''Redis tuple changed before FENCED -- abort''
                | Some r \<Rightarrow>
                    bind_res (checks
                      [require (claim_matches holder target cmd claimExpiry r) ''Redis tuple changed before FENCED -- abort'',
                       require (nowFinal + hc_minClaimRemainingMs C \<le> fr_expiresAt r) ''Redis claim TTL is below the configured min budget -- quarantine'']) (\<lambda>_.
                    bind_res (witnessAdvanceState P C s target PProvisioned x) (\<lambda>(_, x1).
                      let evidence = \<lparr>fe_holderNodeId = hl_holderNodeId (sr_data lease), fe_grantSeq = sr_seq lease, fe_grantDigest = sr_digest lease,
                            fe_maxExpiryMs = maxExpiry, fe_controlNowMs = now, fe_safetyMarginMs = margin, fe_redisNodeId = fr_nodeId r,
                            fe_redisEpoch = fr_fenceEpoch r, fe_redisExpiresMs = fr_expiresAt r, fe_redisClaimDigest = redisClaimDigest,
                            fe_witnessFrom = target - 1, fe_witnessTo = target\<rparr> in
                      bind_res (cut_next P C s (the cut) FENCED (Some (encodeEvidence P evidence)) x1) (\<lambda>(_, x2).
                        Inr (Some evidence, x2))))))))))"

text \<open>The whole call, when nothing else touches the stream in between, over any fencing store.\<close>

record 'w fencing_api =
  fa_current :: "'w \<Rightarrow> FenceRecord option res"
  fa_claim :: "string \<Rightarrow> int \<Rightarrow> int \<Rightarrow> string \<Rightarrow> 'w \<Rightarrow> 'w \<times> bool res"

definition advanceEpoch ::
  "ha_platform \<Rightarrow> 'p ha_control \<Rightarrow> 'w fencing_api \<Rightarrow> string \<Rightarrow> string \<Rightarrow> int \<Rightarrow> string \<Rightarrow> int \<Rightarrow> int \<Rightarrow> int \<times> int \<times> int \<Rightarrow> 'w \<Rightarrow> ha_stream \<Rightarrow>
     ('w \<times> ha_stream) \<times> FenceEvidence option res" where
  "advanceEpoch P C A s cmd target holder margin claimExpiry clock w x =
     (case clock of (now1, now2, now3) \<Rightarrow>
        (case bind_res (advance_args cmd target holder margin claimExpiry) (\<lambda>_. advance_first P C s cmd target margin now1 (fa_current A w) x) of
           Inl e \<Rightarrow> ((w, x), Inl e)
         | Inr (Already_fenced evidence) \<Rightarrow> ((w, x), bind_res (advance_retry P cmd evidence (fa_current A w)) (\<lambda>_. Inr None))
         | Inr (Proven_fenced leaseDigest) \<Rightarrow>
             (case fa_claim A holder target claimExpiry cmd w of
                (w1, Inl e) \<Rightarrow> ((w1, x), Inl e)
              | (w1, Inr _) \<Rightarrow>
                  (case bind_res (advance_readback P cmd holder target claimExpiry (fa_current A w1)) (\<lambda>digest.
                          advance_last P C s cmd target holder margin claimExpiry leaseDigest digest (fa_current A w1) now2 now3 x) of
                     Inl e \<Rightarrow> ((w1, x), Inl e)
                   | Inr (evidence, x') \<Rightarrow> ((w1, x'), Inr evidence)))))"

section \<open>From the fence to the new source\<close>

definition source_fenced_row :: "string \<Rightarrow> int \<Rightarrow> cutover_phase \<Rightarrow> ha_stream \<Rightarrow> cutover_data signed_row option" where
  "source_fenced_row cmd target phase x =
     find (\<lambda>r. ct_commandId (sr_data r) = cmd \<and> ct_epoch (sr_data r) = target \<and> ct_phase (sr_data r) = phase) (tb_history (hs_cutover x))"

definition markImporting ::
  "ha_platform \<Rightarrow> 'p ha_control \<Rightarrow> string \<Rightarrow> string \<Rightarrow> int \<Rightarrow> ha_stream \<Rightarrow> (cutover_data signed_row \<times> ha_stream) res" where
  "markImporting P C s cmd target x =
     bind_res (command_args cmd target) (\<lambda>_.
     bind_res (readCutover P C s x) (\<lambda>cur.
       if cut_at IMPORTING cmd target cur then Inr (the cur, x)
       else if \<not> cut_at FENCED cmd target cur then Inl ''no matching FENCED cutover to begin IMPORTING -- quarantine''
       else if source_fenced_row cmd target SOURCE_FENCED x = None
       then Inl ''cannot IMPORT: no bound SOURCE_FENCED freeze receipt for this command/epoch -- quarantine''
       else cut_next P C s (the cur) IMPORTING (ct_evidence (sr_data (the cur))) x))"

definition ready_evidence :: "string \<Rightarrow> BFinalizedReceipt \<Rightarrow> string" where
  "ready_evidence controlSystemId r = json_text (JObject
     [(''k'', JString ''ready/v1''), (''bReceiptDigest'', JString (br_receiptDigest r)), (''generationId'', JString (br_generationId r)),
      (''manifestDigest'', JString (br_manifestDigest r)), (''manifestRoot'', JString (br_manifestRoot r)),
      (''frozenReceiptDigest'', JString (br_frozenReceiptDigest r)), (''n'', JNum (NInt (br_n r))), (''bSystemId'', JString (br_bSystemId r)),
      (''sourceSystemId'', JString (br_sourceSystemId r)), (''controlSystemId'', JString controlSystemId), (''bKeyId'', JString (br_bKeyId r))])"

text \<open>The evidence of an earlier row of this promotion, parsed.\<close>

definition phase_evidence :: "ha_platform \<Rightarrow> string \<Rightarrow> int \<Rightarrow> cutover_phase \<Rightarrow> ha_stream \<Rightarrow> jsval res" where
  "phase_evidence P cmd target phase x =
     (case source_fenced_row cmd target phase x of
        None \<Rightarrow> Inl ''no bound evidence -- quarantine''
      | Some r \<Rightarrow> (case ct_evidence (sr_data r) of None \<Rightarrow> Inl ''no bound evidence -- quarantine'' | Some t \<Rightarrow> hp_parse P t))"

definition receipt_checks :: "'p ha_control \<Rightarrow> BFinalizedReceipt \<Rightarrow> jsval \<Rightarrow> int \<Rightarrow> unit res" where
  "receipt_checks C r sf sourceEpoch = checks
     [require (js_get sf ''sourceEpoch'' = JNum (NInt sourceEpoch)) ''bound SOURCE_FENCED sourceEpoch != current signed source activation epoch -- quarantine'',
      require (js_get sf ''sourceEpoch'' = JNum (NInt (br_epoch r))) ''BFinalizedReceipt epoch != the bound freeze sourceEpoch -- quarantine'',
      require (br_bSystemId r \<noteq> br_sourceSystemId r) ''B system_identifier == source -- not a distinct node; quarantine'',
      require (br_bSystemId r \<noteq> hc_systemId C) ''B system_identifier == control -- not a distinct node; quarantine'']"

definition markReady ::
  "ha_platform \<Rightarrow> ('m, 'p) ed25519 \<Rightarrow> 'p ha_control \<Rightarrow> string \<Rightarrow> string \<Rightarrow> int \<Rightarrow> BFinalizedReceipt \<Rightarrow> 'm resolver \<Rightarrow> ha_stream \<Rightarrow> (cutover_data signed_row \<times> ha_stream) res" where
  "markReady P E C s cmd target r resolver x =
     bind_res (command_args cmd target) (\<lambda>_.
     bind_res (verifyBFinalizedReceipt (hp_sha P) E resolver r) (\<lambda>_.
     bind_res (checks
       [require (br_commandId r = cmd) ''BFinalizedReceipt commandId != cutover command -- quarantine'',
        require (br_streamId r = s) ''BFinalizedReceipt streamId != cutover stream -- quarantine'']) (\<lambda>_.
     bind_res (readCutover P C s x) (\<lambda>cur.
       if \<not> (cut_at READY cmd target cur \<or> cut_at IMPORTING cmd target cur) then Inl ''no matching IMPORTING cutover to mark READY -- quarantine''
       else bind_res (phase_evidence P cmd target SOURCE_FENCED x) (\<lambda>sf.
            bind_res (checks
              [require (js_get sf ''frozenReceiptDigest'' = JString (br_frozenReceiptDigest r)) ''BFinalizedReceipt frozenReceiptDigest != the bound SOURCE_FENCED freeze -- quarantine'',
               require (js_get sf ''n'' = JNum (NInt (br_n r)) \<and> js_get sf ''headAtN'' = JString (br_signedHeadDigestAtN r) \<and>
                 js_get sf ''stateAtN'' = JString (br_sourceStateDigestAtN r)) ''BFinalizedReceipt N/head@N/state@N != the bound freeze -- quarantine'']) (\<lambda>_.
            bind_res (readActivationEpoch P C s x) (\<lambda>sourceEpoch.
            bind_res (assertActivationGap sourceEpoch target x) (\<lambda>_.
            bind_res (receipt_checks C r sf sourceEpoch) (\<lambda>_.
              if cut_at READY cmd target cur
              then (if ct_evidence (sr_data (the cur)) \<noteq> Some (ready_evidence (hc_systemId C) r)
                    then Inl ''READY retry with a DIFFERENT B receipt than the ratified one -- quarantine'' else Inr (the cur, x))
              else cut_next P C s (the cur) READY (Some (ready_evidence (hc_systemId C) r)) x))))))))) "

definition active_evidence :: "jsval \<Rightarrow> string" where
  "active_evidence rd = json_text (JObject
     [(''k'', JString ''active/v1''), (''bReceiptDigest'', js_get rd ''bReceiptDigest''), (''generationId'', js_get rd ''generationId''),
      (''bSystemId'', js_get rd ''bSystemId''), (''sourceSystemId'', js_get rd ''sourceSystemId''), (''controlSystemId'', js_get rd ''controlSystemId''),
      (''n'', js_get rd ''n''), (''frozenReceiptDigest'', js_get rd ''frozenReceiptDigest''), (''bKeyId'', js_get rd ''bKeyId'')])"

definition activate_cutover ::
  "ha_platform \<Rightarrow> 'p ha_control \<Rightarrow> string \<Rightarrow> string \<Rightarrow> int \<Rightarrow> ha_stream \<Rightarrow> (cutover_data signed_row \<times> ha_stream) res" where
  "activate_cutover P C s cmd target x =
     bind_res (command_args cmd target) (\<lambda>_.
     bind_res (readCutover P C s x) (\<lambda>cur.
       if \<not> (cut_at ACTIVE cmd target cur \<or> cut_at READY cmd target cur) then Inl ''no matching READY cutover to ACTIVATE -- quarantine''
       else bind_res (phase_evidence P cmd target READY x) (\<lambda>rd.
         if cut_at ACTIVE cmd target cur
         then (if ct_evidence (sr_data (the cur)) \<noteq> Some (active_evidence rd)
               then Inl ''ACTIVE retry does not reproduce the ratified go-live evidence -- quarantine'' else Inr (the cur, x))
         else cut_next P C s (the cur) ACTIVE (Some (active_evidence rd)) x)))"

text \<open>The lease chain a returning target presents: the digest of the grant before, and per epoch the holder, the lease and
  whether it was revoked.\<close>

fun prior_loop ::
  "sha_fn \<Rightarrow> ('m, 'p) ed25519 \<Rightarrow> 'm resolver \<Rightarrow> string \<Rightarrow> int \<Rightarrow> int \<Rightarrow> string option \<Rightarrow> (int \<times> string \<times> string \<times> bool) list \<Rightarrow> LeaseGrant list \<Rightarrow> unit res" where
  "prior_loop S E resolver s target i prev ids [] = Inr ()"
| "prior_loop S E resolver s target i prev ids (g # gs) =
     bind_res (verifyLeaseGrant S E resolver g) (\<lambda>_.
     bind_res (checks
       [require (lg_streamId g = s) ''prior target lease chain streamId != cutover stream -- quarantine'',
        require (lg_leaseGrantSeq g = i + 1 \<and> lg_prevGrantDigest g = prev) ''prior target lease chain is not contiguous from genesis -- quarantine'',
        require (lg_leaseEpoch g < target) ''prior target lease epoch must precede the promoted epoch -- quarantine'',
        require (case map_of ids (lg_leaseEpoch g) of None \<Rightarrow> True | Some (h, l, _) \<Rightarrow> h = lg_holderNodeId g \<and> l = lg_leaseId g)
          ''prior target lease chain changes holder/leaseId within an epoch -- quarantine'',
        require (case map_of ids (lg_leaseEpoch g) of None \<Rightarrow> True | Some (_, _, revoked) \<Rightarrow> \<not> revoked)
          ''prior target lease chain continues after a terminal revoke -- quarantine'']) (\<lambda>_.
       prior_loop S E resolver s target (i + 1) (Some (lg_grantDigest g))
         (omap_set (lg_leaseEpoch g) (lg_holderNodeId g, lg_leaseId g, lg_leaseStatus g = ''revoked'') ids) gs))"

definition last_grant :: "LeaseGrant list \<Rightarrow> LeaseGrant option" where
  "last_grant gs = (if gs = [] then None else Some (last gs))"

text \<open>The chain must contain the grant of the last activation of this target at its place.\<close>

definition chain_rooted :: "string \<Rightarrow> LeaseGrant list \<Rightarrow> activation_data signed_row list \<Rightarrow> unit res" where
  "chain_rooted holder chain history =
     (let mine = filter (\<lambda>r. av_bKeyId (sr_data r) = holder) history in
      if mine = [] then
        require (case chain of [] \<Rightarrow> True | g # _ \<Rightarrow> lg_leaseGrantSeq g = 1 \<and> lg_prevGrantDigest g = None)
          ''first return target lease chain is not rooted at genesis -- quarantine''
      else if chain = [] then Inl ''returning target omitted its lease chain -- quarantine''
      else let rooted = av_grant (sr_data (last mine)); i = nat (lg_leaseGrantSeq rooted - 1) in
        require (i < length chain \<and> lg_grantDigest (chain ! i) = lg_grantDigest rooted)
          ''prior target lease chain is not rooted at its last control activation at the expected sequence -- quarantine'')"

definition active_pins :: "jsval \<Rightarrow> BFinalizedReceipt \<Rightarrow> bool" where
  "active_pins rd r \<longleftrightarrow>
     js_get rd ''bReceiptDigest'' = JString (br_receiptDigest r) \<and> js_get rd ''n'' = JNum (NInt (br_n r)) \<and>
     js_get rd ''bSystemId'' = JString (br_bSystemId r) \<and> js_get rd ''bKeyId'' = JString (br_bKeyId r)"

definition activation_grant :: "string \<Rightarrow> string \<Rightarrow> int \<Rightarrow> string \<Rightarrow> LeaseGrant option \<Rightarrow> int \<Rightarrow> LeaseGrant" where
  "activation_grant s cmd target holder prior expires =
     \<lparr>lg_streamId = s, lg_leaseEpoch = target, lg_leaseStatus = ''active'', lg_holderNodeId = holder, lg_leaseId = ''bsrc-'' @ cmd,
      lg_commandId = cmd, lg_leaseExpiresAtMs = expires, lg_leaseGrantSeq = (case prior of None \<Rightarrow> 0 | Some g \<Rightarrow> lg_leaseGrantSeq g) + 1,
      lg_prevGrantDigest = map_option lg_grantDigest prior, lg_grantDigest = [], lg_guardKeyId = [], lg_guardSignature = []\<rparr>"

definition activation_append ::
  "ha_platform \<Rightarrow> ('m, 'p) ed25519 \<Rightarrow> 'p ha_control \<Rightarrow> string \<times> 'p signing_key \<times> int \<Rightarrow> string \<Rightarrow> string \<Rightarrow> int \<Rightarrow> BFinalizedReceipt \<Rightarrow> LeaseGrant list \<Rightarrow>
     activation_data signed_row option \<Rightarrow> int \<Rightarrow> ha_stream \<Rightarrow> (LeaseGrant \<times> ha_stream) res" where
  "activation_append P E C guard s cmd target r chain head now x =
     (case guard of (keyId, key, ttl) \<Rightarrow>
       let current = (case head of None \<Rightarrow> 0 | Some h \<Rightarrow> av_epoch (sr_data h)) in
       bind_res (chain_rooted (br_bKeyId r) chain (sort_key sr_seq (tb_history (hs_activation x)))) (\<lambda>_.
       bind_res (assertActivationGap current target x) (\<lambda>_.
       bind_res (require (br_epoch r = current) ''BFinalizedReceipt epoch != current signed source activation epoch -- quarantine'') (\<lambda>_.
       bind_res (vInt now ''control now'' 0 MAX_MS) (\<lambda>_.
       bind_res (signLeaseGrant (hp_sha P) E keyId key (activation_grant s cmd target (br_bKeyId r) (last_grant chain) (min (now + ttl) MAX_MS))) (\<lambda>g.
       bind_res (table_transition P C (activationMsg s)
           \<lparr>av_commandId = cmd, av_epoch = target, av_bKeyId = br_bKeyId r, av_receiptDigest = br_receiptDigest r,
            av_priorGrantDigest = map_option lg_grantDigest (last_grant chain), av_grantDigest = lg_grantDigest g, av_grant = g\<rparr>
           ((case head of None \<Rightarrow> 0 | Some h \<Rightarrow> sr_seq h) + 1) (map_option sr_digest head) (hs_activation x)) (\<lambda>(_, tb).
         Inr (g, x\<lparr>hs_activation := tb\<rparr>))))))))"

definition activateSource ::
  "ha_platform \<Rightarrow> ('m, 'p) ed25519 \<Rightarrow> 'p ha_control \<Rightarrow> string \<Rightarrow> string \<Rightarrow> int \<Rightarrow> BFinalizedReceipt \<Rightarrow> 'm resolver \<Rightarrow> 'm resolver \<Rightarrow> LeaseGrant list \<Rightarrow> int \<Rightarrow>
     ha_stream \<Rightarrow> (LeaseGrant \<times> ha_stream) res" where
  "activateSource P E C s cmd target r bResolver leaseResolver chain now x =
     bind_res (command_args cmd target) (\<lambda>_.
       case hc_sourceGuard C of
         None \<Rightarrow> Inl ''activateSource requires a configured policy.sourceGuard signing authority''
       | Some guard \<Rightarrow>
           bind_res (require (length chain \<le> MAX_PRIOR_TARGET_LEASE_CHAIN) ''priorTargetLeaseChain must be an array of at most 10000 grants'') (\<lambda>_.
           bind_res (verifyBFinalizedReceipt (hp_sha P) E bResolver r) (\<lambda>_.
           bind_res (prior_loop (hp_sha P) E leaseResolver s target 0 None [] chain) (\<lambda>_.
           bind_res (checks
             [require (br_commandId r = cmd) ''BFinalizedReceipt commandId != cutover command -- quarantine'',
              require (br_streamId r = s) ''BFinalizedReceipt streamId != cutover stream -- quarantine'',
              vId (br_bKeyId r) ID_RE ''ratified B key id (holder)'',
              require (case last_grant chain of None \<Rightarrow> True | Some g \<Rightarrow> lg_leaseStatus g = ''revoked'' \<and> lg_holderNodeId g = br_bKeyId r)
                ''prior target lease high-water must be revoked and held by the ratified target -- quarantine'',
              vId (''bsrc-'' @ cmd) ID_RE ''derived leaseId'']) (\<lambda>_.
           bind_res (readCutover P C s x) (\<lambda>cur.
             if \<not> cut_at ACTIVE cmd target cur then Inl ''no ACTIVE cutover to activate the source authority against -- quarantine''
             else bind_res (hp_parse P (case ct_evidence (sr_data (the cur)) of None \<Rightarrow> ''{}'' | Some t \<Rightarrow> t)) (\<lambda>rd.
                  bind_res (require (active_pins rd r) ''BFinalizedReceipt is not the one ratified into the ACTIVE head -- quarantine'') (\<lambda>_.
                  bind_res (require (tb_head (hs_activation x) \<noteq> None \<or> tb_history (hs_activation x) = []) ''activation history exists without a head -- quarantine'') (\<lambda>_.
                  bind_res (read_table P C (activation_rows (hp_sha P) E leaseResolver s) (hs_activation x)) (\<lambda>head.
                    case head of
                      Some h \<Rightarrow>
                        if av_commandId (sr_data h) = cmd
                        then (if av_epoch (sr_data h) \<noteq> target \<or> av_bKeyId (sr_data h) \<noteq> br_bKeyId r \<or> av_receiptDigest (sr_data h) \<noteq> br_receiptDigest r \<or>
                                av_priorGrantDigest (sr_data h) \<noteq> map_option lg_grantDigest (last_grant chain)
                              then Inl ''source activation retry does not byte-bind the current activation -- quarantine''
                              else Inr (av_grant (sr_data h), x))
                        else activation_append P E C guard s cmd target r chain head now x
                    | None \<Rightarrow> activation_append P E C guard s cmd target r chain head now x))))))))))"

end
