(* ===== verification/Ha_Promotion.thy ===== *)
theory Ha_Promotion
  imports Ha_Cutover
begin

text \<open>
  What the control plane guarantees over any sequence of its operations, by any number of callers: leases of different
  epochs do not overlap in time, a cutover passes its phases in order, and the epochs are accounted for. The three
  transactions of a provisioning and the last one of an epoch advance are steps of their own, so that other operations
  may come in between.
\<close>

section \<open>Operations as steps\<close>

datatype 'm control_op =
    Op_intent string
  | Op_incomplete string
  | Op_provisioned string
  | Op_lease lease_input int
  | Op_begin string int
  | Op_abort string int string
  | Op_bind string int SourceFrozenReceipt "'m resolver"
  | Op_advance string int string int int string string "FenceRecord option res" int int
  | Op_import string int
  | Op_ready string int BFinalizedReceipt "'m resolver"
  | Op_activate string int
  | Op_source string int BFinalizedReceipt "'m resolver" "'m resolver" "LeaseGrant list" int

text \<open>The readings of the clock of the database in an operation.\<close>

fun readings :: "'m control_op \<Rightarrow> int list" where
  "readings (Op_lease i now) = [now]"
| "readings (Op_advance cmd target holder margin expiry leaseDigest digest redis now nowFinal) = [now, nowFinal]"
| "readings (Op_source cmd target r bResolver leaseResolver chain now) = [now]"
| "readings _ = []"

definition tx_rows :: "('a \<times> ha_stream) res \<Rightarrow> ha_stream res" where
  "tx_rows r = bind_res r (\<lambda>p. Inr (snd p))"

fun run_op :: "ha_platform \<Rightarrow> ('m, 'p) ed25519 \<Rightarrow> 'p ha_control \<Rightarrow> string \<Rightarrow> 'm control_op \<Rightarrow> ha_stream \<Rightarrow> ha_stream res" where
  "run_op P E C s (Op_intent genesis) x = bind_res (provision_args genesis) (\<lambda>_. tx_rows (provision_intent P C s genesis x))"
| "run_op P E C s (Op_incomplete genesis) x = bind_res (provision_args genesis) (\<lambda>_. tx_rows (provision_incomplete P C s genesis x))"
| "run_op P E C s (Op_provisioned genesis) x = bind_res (provision_args genesis) (\<lambda>_. tx_rows (provision_provisioned P C s genesis x))"
| "run_op P E C s (Op_lease i now) x = tx_rows (writeLease P C s i now x)"
| "run_op P E C s (Op_begin cmd target) x = tx_rows (beginPromotionIntent P C s cmd target x)"
| "run_op P E C s (Op_abort cmd target reason) x = tx_rows (abortFencedPromotion P C s cmd target reason x)"
| "run_op P E C s (Op_bind cmd target r resolver) x = tx_rows (bindSourceFenced P E C s cmd target r resolver x)"
| "run_op P E C s (Op_advance cmd target holder margin expiry leaseDigest digest redis now nowFinal) x =
     bind_res (advance_args cmd target holder margin expiry) (\<lambda>_.
       tx_rows (advance_last P C s cmd target holder margin expiry leaseDigest digest redis now nowFinal x))"
| "run_op P E C s (Op_import cmd target) x = tx_rows (markImporting P C s cmd target x)"
| "run_op P E C s (Op_ready cmd target r resolver) x = tx_rows (markReady P E C s cmd target r resolver x)"
| "run_op P E C s (Op_activate cmd target) x = tx_rows (activate_cutover P C s cmd target x)"
| "run_op P E C s (Op_source cmd target r bResolver leaseResolver chain now) x =
     tx_rows (activateSource P E C s cmd target r bResolver leaseResolver chain now x)"

text \<open>A failing operation is rolled back.\<close>

definition control_exec :: "ha_platform \<Rightarrow> ('m, 'p) ed25519 \<Rightarrow> 'p ha_control \<Rightarrow> string \<Rightarrow> 'm control_op \<Rightarrow> ha_db \<Rightarrow> ha_db" where
  "control_exec P E C s op db =
     (if \<not> HA_STREAM_ID_RE s then db else case run_op P E C s op (db s) of Inl _ \<Rightarrow> db | Inr x \<Rightarrow> db(s := x))"

definition empty_table :: "'d signed_table" where
  "empty_table = \<lparr>tb_head = None, tb_history = []\<rparr>"

definition empty_db :: ha_db where
  "empty_db = (\<lambda>_. \<lparr>hs_provisioning = empty_table, hs_witness = empty_table, hs_lease = empty_table, hs_cutover = empty_table,
     hs_activation = empty_table\<rparr>)"

text \<open>The clock of the database only advances.\<close>

inductive control_step :: "ha_platform \<Rightarrow> ('m, 'p) ed25519 \<Rightarrow> 'p ha_control \<Rightarrow> int \<times> ha_db \<Rightarrow> int \<times> ha_db \<Rightarrow> bool"
  for P E C where
  control_op: "t \<le> t' \<Longrightarrow> list_all (\<lambda>r. t \<le> r \<and> r \<le> t') (readings op) \<Longrightarrow> control_step P E C (t, db) (t', control_exec P E C s op db)"

section \<open>What an operation does to the rows\<close>

lemma tx_rows_Inr_iff: "tx_rows r = Inr x \<longleftrightarrow> (\<exists>a. r = Inr (a, x))"
  by (auto simp: tx_rows_def bind_res_Inr_iff)

lemma read_table_Inr: "read_table P C T tb = Inr r \<Longrightarrow> r = tb_head tb"
  by (auto simp: read_table_def Let_def bind_res_Inr_iff split: option.splits)

lemma transition_Inr:
  assumes "table_transition P C T d seq prev tb = Inr (row, tb')"
  shows "row = signed_row_of P C T d seq prev" "tb_history tb' = tb_history tb @ [row]"
    "prev = map_option sr_digest (tb_head tb)"
    "tb_head tb' = Some (row\<lparr>sr_data := (case tb_head tb of None \<Rightarrow> d | Some h \<Rightarrow> td_keep T (sr_data h) d)\<rparr>)"
  using assms by (auto simp: table_transition_def Let_def signed_row_of_def split: if_splits option.splits prod.splits)

lemma signed_row_of_sel [simp]:
  "sr_data (signed_row_of P C T d seq prev) = d" "sr_seq (signed_row_of P C T d seq prev) = seq"
  "sr_prev (signed_row_of P C T d seq prev) = prev"
  by (simp_all add: signed_row_of_def Let_def)

definition wit_epoch :: "ha_stream \<Rightarrow> int" where
  "wit_epoch x = (case tb_head (hs_witness x) of None \<Rightarrow> 0 | Some r \<Rightarrow> wd_epoch (sr_data r))"

definition wit_ready :: "ha_stream \<Rightarrow> bool" where
  "wit_ready x \<longleftrightarrow> (case tb_head (hs_witness x) of None \<Rightarrow> False | Some r \<Rightarrow> wd_state (sr_data r) = PProvisioned)"

definition prov_done :: "ha_stream \<Rightarrow> bool" where
  "prov_done x \<longleftrightarrow> (case tb_head (hs_provisioning x) of None \<Rightarrow> False | Some r \<Rightarrow> pd_state (sr_data r) = PProvisioned)"

definition leases :: "ha_stream \<Rightarrow> lease_data list" where
  "leases x = map sr_data (tb_history (hs_lease x))"

abbreviation cuts :: "ha_stream \<Rightarrow> cutover_data signed_row list" where
  "cuts x \<equiv> tb_history (hs_cutover x)"

definition head_is_last :: "'d signed_table \<Rightarrow> bool" where
  "head_is_last tb \<longleftrightarrow> tb_head tb = (if tb_history tb = [] then None else Some (last (tb_history tb)))"

lemma provisioned_witness_Inr:
  assumes "provisioned_witness P C s x = Inr w"
  shows "tb_head (hs_witness x) = Some w" "wit_ready x" "wit_epoch x = wd_epoch (sr_data w)"
proof -
  obtain h where h: "read_table P C (witMsg s) (hs_witness x) = Inr (Some h)" "w = h" "wd_state (sr_data h) = PProvisioned"
    using assms by (auto simp: provisioned_witness_def readWitness_def bind_res_Inr_iff split: option.splits if_splits)
  then show "tb_head (hs_witness x) = Some w" using read_table_Inr by fastforce
  then show "wit_ready x" "wit_epoch x = wd_epoch (sr_data w)" using h by (simp_all add: wit_ready_def wit_epoch_def)
qed

lemma grants_at_set: "set (grants_at e x) = {r \<in> set (tb_history (hs_lease x)). hl_epoch (sr_data r) = e}"
  by (auto simp: grants_at_def)

lemma fold_max_ge: "m \<le> fold (\<lambda>q. max (f q)) rs (m :: int) \<and> (\<forall>r \<in> set rs. f r \<le> fold (\<lambda>q. max (f q)) rs m)"
proof (induction rs arbitrary: m)
  case (Cons q rs)
  have "max (f q) m \<le> fold (\<lambda>q. max (f q)) rs (max (f q) m)" "\<forall>r \<in> set rs. f r \<le> fold (\<lambda>q. max (f q)) rs (max (f q) m)"
    using Cons.IH by blast+
  then show ?case by auto
qed simp

lemma max_expiry_bound: "r \<in> set (tb_history (hs_lease x)) \<Longrightarrow> hl_maxExpiryMs (sr_data r) \<le> max_expiry_at (hl_epoch (sr_data r)) x"
proof -
  assume "r \<in> set (tb_history (hs_lease x))"
  then have "r \<in> set (grants_at (hl_epoch (sr_data r)) x)" by (simp add: grants_at_set)
  then show ?thesis
    using fold_max_ge [where f = "\<lambda>q. hl_maxExpiryMs (sr_data q)", THEN conjunct1] fold_max_ge [where f = "\<lambda>q. hl_maxExpiryMs (sr_data q)", THEN conjunct2, rule_format]
    by (cases "grants_at (hl_epoch (sr_data r)) x") (auto simp: max_expiry_at_def)
qed

text \<open>The order of the phases.\<close>

fun phase_follows :: "cutover_phase \<Rightarrow> cutover_phase \<Rightarrow> bool" where
  "phase_follows PREPARING q \<longleftrightarrow> q = SOURCE_FENCED"
| "phase_follows SOURCE_FENCED q \<longleftrightarrow> q = FENCED"
| "phase_follows FENCED q \<longleftrightarrow> q = IMPORTING \<or> q = ABORTED"
| "phase_follows IMPORTING q \<longleftrightarrow> q = READY \<or> q = ABORTED"
| "phase_follows READY q \<longleftrightarrow> q = ACTIVE \<or> q = ABORTED"
| "phase_follows _ q \<longleftrightarrow> False"

definition cut_follows :: "cutover_data signed_row \<Rightarrow> cutover_data signed_row \<Rightarrow> bool" where
  "cut_follows a b \<longleftrightarrow> sr_seq b = sr_seq a + 1 \<and> sr_prev b = Some (sr_digest a) \<and>
     (if CUTOVER_TERMINAL (ct_phase (sr_data a)) then ct_phase (sr_data b) = PREPARING \<and> ct_epoch (sr_data b) = ct_epoch (sr_data a) + 1
      else phase_follows (ct_phase (sr_data a)) (ct_phase (sr_data b)) \<and> ct_epoch (sr_data b) = ct_epoch (sr_data a) \<and>
        ct_commandId (sr_data b) = ct_commandId (sr_data a))"

text \<open>The rows of the tables other than the cutover are untouched.\<close>

definition fenced :: "cutover_data signed_row \<Rightarrow> bool" where
  "fenced c \<longleftrightarrow> ct_phase (sr_data c) \<noteq> PREPARING \<and> ct_phase (sr_data c) \<noteq> SOURCE_FENCED"

text \<open>The effects of the operations, abstracted from digests and signatures. The clock readings are those of the
  operation.\<close>

inductive control_effect :: "int list \<Rightarrow> ha_stream \<Rightarrow> ha_stream \<Rightarrow> bool" where
  eff_same: "control_effect ts x x"
| eff_prov: "\<not> prov_done x \<Longrightarrow> \<not> prov_done x' \<Longrightarrow> wit_ready x' = wit_ready x \<Longrightarrow> wit_epoch x' = wit_epoch x \<Longrightarrow> hs_lease x' = hs_lease x \<Longrightarrow>
    hs_cutover x' = hs_cutover x \<Longrightarrow> hs_activation x' = hs_activation x \<Longrightarrow> control_effect ts x x'"
| eff_ready: "\<not> prov_done x \<Longrightarrow> prov_done x' \<Longrightarrow> wit_epoch x' = 0 \<Longrightarrow> wit_ready x' \<Longrightarrow> hs_lease x' = hs_lease x \<Longrightarrow> hs_cutover x' = hs_cutover x \<Longrightarrow>
    hs_activation x' = hs_activation x \<Longrightarrow> control_effect ts x x'"
| eff_lease: "wit_ready x \<Longrightarrow> hl_epoch d = wit_epoch x \<Longrightarrow>
    (case grants_at (hl_epoch d) x of [] \<Rightarrow> True | r # _ \<Rightarrow> hl_holderNodeId (sr_data r) = hl_holderNodeId d \<and> hl_leaseId (sr_data r) = hl_leaseId d) \<Longrightarrow>
    map sr_data (tb_history tb) = leases x @ [d] \<Longrightarrow> control_effect ts x (x\<lparr>hs_lease := tb\<rparr>)"
| eff_begin: "wit_ready x \<Longrightarrow> ct_phase (sr_data row) = PREPARING \<Longrightarrow> ct_epoch (sr_data row) = wit_epoch x + 1 \<Longrightarrow>
    (case tb_head (hs_cutover x) of None \<Rightarrow> sr_seq row = 1 \<and> sr_prev row = None
     | Some c \<Rightarrow> CUTOVER_TERMINAL (ct_phase (sr_data c)) \<and> sr_seq row = sr_seq c + 1 \<and> sr_prev row = Some (sr_digest c)) \<Longrightarrow>
    tb_history tb = cuts x @ [row] \<Longrightarrow> tb_head tb = Some row \<Longrightarrow> control_effect ts x (x\<lparr>hs_cutover := tb\<rparr>)"
| eff_phase: "tb_head (hs_cutover x) = Some c \<Longrightarrow> \<not> CUTOVER_TERMINAL (ct_phase (sr_data c)) \<Longrightarrow> cut_follows c row \<Longrightarrow> ct_phase (sr_data row) \<noteq> FENCED \<Longrightarrow>
    tb_history tb = cuts x @ [row] \<Longrightarrow> tb_head tb = Some row \<Longrightarrow> control_effect ts x (x\<lparr>hs_cutover := tb\<rparr>)"
| eff_fence: "tb_head (hs_cutover x) = Some c \<Longrightarrow> ct_phase (sr_data c) = SOURCE_FENCED \<Longrightarrow> cut_follows c row \<Longrightarrow>
    ct_epoch (sr_data row) = wit_epoch x + 1 \<Longrightarrow> now \<in> set ts \<Longrightarrow> \<forall>l \<in> set (leases x). hl_epoch l = wit_epoch x \<longrightarrow> hl_maxExpiryMs l \<le> now \<Longrightarrow>
    wit_ready x \<Longrightarrow> wit_ready x' \<Longrightarrow> wit_epoch x' = wit_epoch x + 1 \<Longrightarrow> hs_provisioning x' = hs_provisioning x \<Longrightarrow> hs_lease x' = hs_lease x \<Longrightarrow>
    hs_activation x' = hs_activation x \<Longrightarrow> cuts x' = cuts x @ [row] \<Longrightarrow> tb_head (hs_cutover x') = Some row \<Longrightarrow> control_effect ts x x'"
| eff_activation: "tb_head (hs_cutover x) = Some c \<Longrightarrow> ct_phase (sr_data c) = ACTIVE \<Longrightarrow> av_epoch (sr_data row) = ct_epoch (sr_data c) \<Longrightarrow>
    av_commandId (sr_data row) = ct_commandId (sr_data c) \<Longrightarrow> current = (case tb_head (hs_activation x) of None \<Rightarrow> 0 | Some h \<Rightarrow> av_epoch (sr_data h)) \<Longrightarrow>
    current < av_epoch (sr_data row) \<Longrightarrow>
    \<forall>e. current < e \<and> e < av_epoch (sr_data row) \<longrightarrow> (\<exists>q \<in> set (cuts x). ct_epoch (sr_data q) = e \<and> ct_phase (sr_data q) = ABORTED) \<Longrightarrow>
    tb_history tb = tb_history (hs_activation x) @ [row] \<Longrightarrow> tb_head tb = Some row \<Longrightarrow> control_effect ts x (x\<lparr>hs_activation := tb\<rparr>)"

lemma cutTransition_Inr:
  assumes "cutTransition P C s d seq prev x = Inr (row, x')"
  obtains tb where "x' = x\<lparr>hs_cutover := tb\<rparr>" "tb_history tb = cuts x @ [row]" "tb_head tb = Some row" "sr_data row = d" "sr_seq row = seq"
    "sr_prev row = prev" "prev = map_option sr_digest (tb_head (hs_cutover x))"
proof -
  obtain tb where tb: "table_transition P C (cutMsg s) d seq prev (hs_cutover x) = Inr (row, tb)" "x' = x\<lparr>hs_cutover := tb\<rparr>"
    using assms by (auto simp: cutTransition_def bind_res_Inr_iff)
  note t = transition_Inr [OF tb(1)]
  have "tb_head tb = Some row" using t(1,4) by (simp add: cutMsg_def split: option.splits)
  then show thesis using that [OF tb(2)] t(1-3) by simp
qed

lemma cut_at_Some: "cut_at phase cmd target cur \<longleftrightarrow>
    (\<exists>c. cur = Some c \<and> ct_phase (sr_data c) = phase \<and> ct_commandId (sr_data c) = cmd \<and> ct_epoch (sr_data c) = target)"
  by (auto simp: cut_at_def split: option.splits)

lemma cut_next_follows:
  assumes "cut_next P C s c phase ev x = Inr (row, x')" and "tb_head (hs_cutover x) = Some c" and "phase_follows (ct_phase (sr_data c)) phase"
  obtains tb where "x' = x\<lparr>hs_cutover := tb\<rparr>" "tb_history tb = cuts x @ [row]" "tb_head tb = Some row" "cut_follows c row"
    "\<not> CUTOVER_TERMINAL (ct_phase (sr_data c))" "ct_phase (sr_data row) = phase" "ct_epoch (sr_data row) = ct_epoch (sr_data c)"
proof -
  obtain tb where tb: "x' = x\<lparr>hs_cutover := tb\<rparr>" "tb_history tb = cuts x @ [row]" "tb_head tb = Some row"
      "sr_data row = (sr_data c)\<lparr>ct_phase := phase, ct_evidence := ev\<rparr>" "sr_seq row = sr_seq c + 1" "sr_prev row = Some (sr_digest c)"
    using assms(1) unfolding cut_next_def by (rule cutTransition_Inr)
  moreover have "\<not> CUTOVER_TERMINAL (ct_phase (sr_data c))" using assms(3) by (cases "ct_phase (sr_data c)") (auto simp: CUTOVER_TERMINAL_def)
  ultimately show thesis using that assms(3) by (simp add: cut_follows_def)
qed

lemma cut_next_effect:
  assumes "cut_next P C s c phase ev x = Inr (row, x')" and "tb_head (hs_cutover x) = Some c" and "phase_follows (ct_phase (sr_data c)) phase" and "phase \<noteq> FENCED"
  shows "control_effect ts x x'"
  using assms(4) by (auto intro: cut_next_follows [OF assms(1-3)] eff_phase [OF assms(2)])

lemma read_heads:
  "readWitness P C s x = Inr w \<Longrightarrow> w = tb_head (hs_witness x)"
  "readCutover P C s x = Inr c \<Longrightarrow> c = tb_head (hs_cutover x)"
  "readLease P C s x = Inr l \<Longrightarrow> l = tb_head (hs_lease x)"
  "readProvisioning P C s x = Inr p \<Longrightarrow> p = tb_head (hs_provisioning x)"
  by (simp_all add: readWitness_def readCutover_def readLease_def readProvisioning_def read_table_Inr)

lemma prov_put_Inr:
  assumes "prov_put P C s d seq prev x = Inr (row, x')"
  obtains tb r where "x' = x\<lparr>hs_provisioning := tb\<rparr>" "tb_head tb = Some r" "pd_state (sr_data r) = pd_state d"
proof -
  obtain tb where tb: "table_transition P C (provMsg s) d seq prev (hs_provisioning x) = Inr (row, tb)" "x' = x\<lparr>hs_provisioning := tb\<rparr>"
    using assms by (auto simp: prov_put_def bind_res_Inr_iff)
  show thesis
    by (rule that [OF tb(2) transition_Inr(4) [OF tb(1)]]) (simp add: provMsg_def split: option.splits)
qed

lemma intent_effect:
  assumes "provision_intent P C s genesis x = Inr (u, x')"
  shows "control_effect ts x x'"
proof -
  have "x' = x \<or> tb_head (hs_provisioning x) = None \<and> (\<exists>row. prov_put P C s \<lparr>pd_genesisMarker = genesis, pd_state = PIntent\<rparr> 1 None x = Inr (row, x'))"
    using assms read_heads(4) [of P C s x]
    by (cases "tb_head (hs_provisioning x)"; cases "readProvisioning P C s x")
      (auto simp: provision_intent_def bind_res_Inr_iff split: if_splits)
  then show ?thesis
  proof (elim disjE conjE exE)
    fix row
    assume none: "tb_head (hs_provisioning x) = None" and "prov_put P C s \<lparr>pd_genesisMarker = genesis, pd_state = PIntent\<rparr> 1 None x = Inr (row, x')"
    from this(2) obtain tb r where "x' = x\<lparr>hs_provisioning := tb\<rparr>" "tb_head tb = Some r" "pd_state (sr_data r) = PIntent" by (rule prov_put_Inr) simp
    then show ?thesis using none by (intro eff_prov) (simp_all add: prov_done_def wit_ready_def wit_epoch_def)
  qed (simp add: eff_same)
qed

lemma incomplete_effect:
  assumes "provision_incomplete P C s genesis x = Inr (u, x')"
  shows "control_effect ts x x'"
proof -
  obtain c where c: "tb_head (hs_provisioning x) = Some c"
      "x' = x \<or> pd_state (sr_data c) = PIntent \<and> (\<exists>row x1. prov_put P C s \<lparr>pd_genesisMarker = genesis, pd_state = PIncomplete\<rparr> (sr_seq c + 1) (Some (sr_digest c)) x = Inr (row, x1) \<and>
         x' = witnessGenesis P C s PIncomplete x1)"
    using assms read_heads(4) [of P C s x]
    by (cases "tb_head (hs_provisioning x)"; cases "readProvisioning P C s x")
      (auto simp: provision_incomplete_def bind_res_Inr_iff split: if_splits)
  show ?thesis
  proof (cases "x' = x")
    case False
    with c obtain row x1 where x1: "pd_state (sr_data c) = PIntent" "x' = witnessGenesis P C s PIncomplete x1"
        "prov_put P C s \<lparr>pd_genesisMarker = genesis, pd_state = PIncomplete\<rparr> (sr_seq c + 1) (Some (sr_digest c)) x = Inr (row, x1)" by blast
    from x1(3) obtain tb r where "x1 = x\<lparr>hs_provisioning := tb\<rparr>" "tb_head tb = Some r" "pd_state (sr_data r) = PIncomplete" by (rule prov_put_Inr) simp
    then show ?thesis using c(1) x1(1,2)
      by (intro eff_prov) (simp_all add: prov_done_def wit_ready_def wit_epoch_def witnessGenesis_def Let_def split: option.splits)
  qed (simp add: eff_same)
qed

lemma witness_advance_Inr:
  assumes "witnessAdvanceState P C s epoch state x = Inr (row, x')"
  obtains tb r where "x' = x\<lparr>hs_witness := tb\<rparr>" "tb_head tb = Some r" "sr_data r = \<lparr>wd_epoch = epoch, wd_state = state\<rparr>"
proof -
  obtain cur where "readWitness P C s x = Inr cur" using assms by (auto simp: witnessAdvanceState_def bind_res_Inr_iff)
  with assms have "\<exists>(c :: witness_data signed_row) tb. table_transition P C (witMsg s) \<lparr>wd_epoch = epoch, wd_state = state\<rparr> (sr_seq c + 1) (Some (sr_digest c)) (hs_witness x) = Inr (row, tb) \<and>
      x' = x\<lparr>hs_witness := tb\<rparr>"
    by (cases cur) (auto simp: witnessAdvanceState_def bind_res_Inr_iff)
  then obtain c :: "witness_data signed_row" and tb where tb: "table_transition P C (witMsg s) \<lparr>wd_epoch = epoch, wd_state = state\<rparr> (sr_seq c + 1) (Some (sr_digest c)) (hs_witness x) = Inr (row, tb)"
      "x' = x\<lparr>hs_witness := tb\<rparr>" by blast
  show thesis
    by (rule that [OF tb(2) transition_Inr(4) [OF tb(1)]]) (simp add: witMsg_def split: option.splits)
qed

lemma provisioned_effect:
  assumes "provision_provisioned P C s genesis x = Inr (u, x')"
  shows "control_effect ts x x'"
proof -
  obtain c where c: "tb_head (hs_provisioning x) = Some c"
      "x' = x \<or> pd_state (sr_data c) = PIncomplete \<and> (\<exists>row row' x1. prov_put P C s \<lparr>pd_genesisMarker = genesis, pd_state = PProvisioned\<rparr> (sr_seq c + 1) (Some (sr_digest c)) x = Inr (row, x1) \<and>
         witnessAdvanceState P C s 0 PProvisioned x1 = Inr (row', x'))"
    using assms read_heads(4) [of P C s x]
    by (cases "tb_head (hs_provisioning x)"; cases "readProvisioning P C s x")
      (auto simp: provision_provisioned_def bind_res_Inr_iff split: if_splits)
  show ?thesis
  proof (cases "x' = x")
    case False
    with c obtain row row' x1 where x1: "pd_state (sr_data c) = PIncomplete" "witnessAdvanceState P C s 0 PProvisioned x1 = Inr (row', x')"
        "prov_put P C s \<lparr>pd_genesisMarker = genesis, pd_state = PProvisioned\<rparr> (sr_seq c + 1) (Some (sr_digest c)) x = Inr (row, x1)" by blast
    from x1(3) obtain tb r where tb: "x1 = x\<lparr>hs_provisioning := tb\<rparr>" "tb_head tb = Some r" "pd_state (sr_data r) = PProvisioned" by (rule prov_put_Inr) simp
    from x1(2) obtain wt w where "x' = x1\<lparr>hs_witness := wt\<rparr>" "tb_head wt = Some w" "sr_data w = \<lparr>wd_epoch = 0, wd_state = PProvisioned\<rparr>"
      by (rule witness_advance_Inr)
    with tb c(1) x1(1) show ?thesis by (intro eff_ready) (simp_all add: prov_done_def wit_ready_def wit_epoch_def)
  qed (simp add: eff_same)
qed

lemma lease_append_effect:
  assumes "lease_append P C s i cur x = Inr (u, x')" and "wit_ready x" and "li_epoch i = wit_epoch x"
  shows "control_effect ts x x'"
proof -
  obtain row tb where tb: "table_transition P C (leaseMsg s) (lease_of_input i) ((case cur of None \<Rightarrow> 0 | Some c \<Rightarrow> sr_seq c) + 1) (map_option sr_digest cur) (hs_lease x) = Inr (row, tb)"
      "x' = x\<lparr>hs_lease := tb\<rparr>"
      "case grants_at (li_epoch i) x of [] \<Rightarrow> True | r # _ \<Rightarrow> hl_holderNodeId (sr_data r) = li_holderNodeId i \<and> hl_leaseId (sr_data r) = li_leaseId i"
    using assms(1) by (auto simp: lease_append_def bind_res_Inr_iff)
  show ?thesis unfolding tb(2)
    by (rule eff_lease [of x "lease_of_input i"])
      (use assms(2,3) tb(3) transition_Inr(1,2) [OF tb(1)] in \<open>simp_all add: lease_of_input_def leases_def split: list.splits\<close>)
qed

lemma lease_effect:
  assumes "writeLease P C s i now x = Inr (u, x')"
  shows "control_effect ts x x'"
proof -
  obtain w cur where w: "provisioned_witness P C s x = Inr w" "li_epoch i = wd_epoch (sr_data w)" "x' = x \<or> lease_append P C s i cur x = Inr (u, x')"
    using assms by (cases "find (\<lambda>r. hl_grantCommandId (sr_data r) = li_grantCommandId i) (tb_history (hs_lease x))")
      (auto simp: writeLease_def bind_res_Inr_iff split: if_splits)
  note p = provisioned_witness_Inr [OF w(1)]
  show ?thesis using w(3) lease_append_effect [OF _ p(2), of P C s i cur u x' ts] w(2) p(3) by (auto simp: eff_same)
qed

lemma begin_effect:
  assumes "beginPromotionIntent P C s cmd target x = Inr (u, x')"
  shows "control_effect ts x x'"
proof -
  obtain w cur where w: "provisioned_witness P C s x = Inr w" "target = wd_epoch (sr_data w) + 1" "readCutover P C s x = Inr cur"
    using assms by (auto simp: beginPromotionIntent_def bind_res_Inr_iff)
  note cur = read_heads(2) [OF w(3)]
  note p = provisioned_witness_Inr [OF w(1)]
  have "x' = x \<or> (\<exists>seq prev. cutTransition P C s \<lparr>ct_epoch = target, ct_commandId = cmd, ct_phase = PREPARING, ct_evidence = None\<rparr> seq prev x = Inr (u, x') \<and>
      (case cur of None \<Rightarrow> seq = 1 \<and> prev = None
       | Some c \<Rightarrow> CUTOVER_TERMINAL (ct_phase (sr_data c)) \<and> seq = sr_seq c + 1 \<and> prev = Some (sr_digest c)))"
    using assms w by (cases cur) (auto simp: beginPromotionIntent_def bind_res_Inr_iff split: if_splits)
  then show ?thesis
  proof (elim disjE exE conjE)
    fix seq prev
    assume "cutTransition P C s \<lparr>ct_epoch = target, ct_commandId = cmd, ct_phase = PREPARING, ct_evidence = None\<rparr> seq prev x = Inr (u, x')"
      and pos: "case cur of None \<Rightarrow> seq = 1 \<and> prev = None
       | Some c \<Rightarrow> CUTOVER_TERMINAL (ct_phase (sr_data c)) \<and> seq = sr_seq c + 1 \<and> prev = Some (sr_digest c)"
    then obtain tb where tb: "x' = x\<lparr>hs_cutover := tb\<rparr>" "tb_history tb = cuts x @ [u]" "tb_head tb = Some u" "sr_seq u = seq" "sr_prev u = prev"
        "sr_data u = \<lparr>ct_epoch = target, ct_commandId = cmd, ct_phase = PREPARING, ct_evidence = None\<rparr>"
      by (elim cutTransition_Inr) simp
    show ?thesis unfolding tb(1)
      by (rule eff_begin [OF p(2) _ _ _ tb(2,3)]) (use pos cur tb(4-6) w(2) p(3) in \<open>simp_all split: option.splits\<close>)
  qed (simp add: eff_same)
qed

lemma abort_effect:
  assumes "abortFencedPromotion P C s cmd target reason x = Inr (u, x')"
  shows "control_effect ts x x'"
proof -
  obtain cur where r: "readCutover P C s x = Inr cur" using assms by (auto simp: abortFencedPromotion_def bind_res_Inr_iff)
  note cur = read_heads(2) [OF r]
  have "x' = x \<or> (\<exists>c. cur = Some c \<and> phase_follows (ct_phase (sr_data c)) ABORTED \<and> cut_next P C s c ABORTED (Some (abort_evidence reason)) x = Inr (u, x'))"
    using assms r by (auto simp: abortFencedPromotion_def bind_res_Inr_iff cut_at_Some split: if_splits option.splits)
  then show ?thesis by (auto simp: eff_same cur intro: cut_next_effect)
qed

lemma bind_effect:
  assumes "bindSourceFenced P E C s cmd target fr resolver x = Inr (u, x')"
  shows "control_effect ts x x'"
proof -
  obtain cur where r: "readCutover P C s x = Inr cur" using assms by (auto simp: bindSourceFenced_def bind_res_Inr_iff)
  note cur = read_heads(2) [OF r]
  have "x' = x \<or> (\<exists>c. cur = Some c \<and> phase_follows (ct_phase (sr_data c)) SOURCE_FENCED \<and> cut_next P C s c SOURCE_FENCED (Some (frozen_evidence fr)) x = Inr (u, x'))"
    using assms r by (auto simp: bindSourceFenced_def bind_res_Inr_iff cut_at_Some split: if_splits)
  then show ?thesis by (auto simp: eff_same cur intro: cut_next_effect)
qed

lemma import_effect:
  assumes "markImporting P C s cmd target x = Inr (u, x')"
  shows "control_effect ts x x'"
proof -
  obtain cur where r: "readCutover P C s x = Inr cur" using assms by (auto simp: markImporting_def bind_res_Inr_iff)
  note cur = read_heads(2) [OF r]
  have "x' = x \<or> (\<exists>c. cur = Some c \<and> phase_follows (ct_phase (sr_data c)) IMPORTING \<and> cut_next P C s c IMPORTING (ct_evidence (sr_data c)) x = Inr (u, x'))"
    using assms r by (auto simp: markImporting_def bind_res_Inr_iff cut_at_Some split: if_splits)
  then show ?thesis by (auto simp: eff_same cur intro: cut_next_effect)
qed

lemma ready_effect:
  assumes "markReady P E C s cmd target br resolver x = Inr (u, x')"
  shows "control_effect ts x x'"
proof -
  obtain cur where r: "readCutover P C s x = Inr cur" using assms by (auto simp: markReady_def bind_res_Inr_iff)
  note cur = read_heads(2) [OF r]
  have "x' = x \<or> (\<exists>c ev. cur = Some c \<and> phase_follows (ct_phase (sr_data c)) READY \<and> cut_next P C s c READY ev x = Inr (u, x'))"
    using assms r by (auto simp: markReady_def bind_res_Inr_iff cut_at_Some split: if_splits)
  then show ?thesis by (auto simp: eff_same cur intro: cut_next_effect)
qed

lemma activate_effect:
  assumes "activate_cutover P C s cmd target x = Inr (u, x')"
  shows "control_effect ts x x'"
proof -
  obtain cur where r: "readCutover P C s x = Inr cur" using assms by (auto simp: activate_cutover_def bind_res_Inr_iff)
  note cur = read_heads(2) [OF r]
  have "x' = x \<or> (\<exists>c ev. cur = Some c \<and> phase_follows (ct_phase (sr_data c)) ACTIVE \<and> cut_next P C s c ACTIVE ev x = Inr (u, x'))"
    using assms r by (auto simp: activate_cutover_def bind_res_Inr_iff cut_at_Some split: if_splits)
  then show ?thesis by (auto simp: eff_same cur intro: cut_next_effect)
qed

lemma prove_fenced_Inr:
  assumes "proveOldFenced P C s target margin now x = Inr r" and "0 \<le> margin" and "l \<in> set (leases x)" and "hl_epoch l = target - 1"
  shows "hl_maxExpiryMs l \<le> now"
proof -
  obtain h where h: "readLease P C s x = Inr (Some h)" "hl_epoch (sr_data h) = target - 1" "max_expiry_at (target - 1) x + margin \<le> now"
    using assms(1) by (auto simp: proveOldFenced_def bind_res_Inr_iff split: option.splits)
  obtain q where "q \<in> set (tb_history (hs_lease x))" "l = sr_data q" using assms(3) by (auto simp: leases_def)
  then have "hl_maxExpiryMs l \<le> max_expiry_at (target - 1) x" using max_expiry_bound [of q x] assms(4) by simp
  then show ?thesis using h(3) assms(2) by simp
qed

lemma advance_effect:
  assumes args: "advance_args cmd target holder margin expiry = Inr ()"
    and run: "advance_last P C s cmd target holder margin expiry leaseDigest digest redis now nowFinal x = Inr (u, x')" and "now \<in> set ts"
  shows "control_effect ts x x'"
proof -
  have margin: "0 \<le> margin" using args by (auto simp: advance_args_def bind_res_Inr_iff vInt_def)
  obtain cut where cut: "readCutover P C s x = Inr cut" using run by (auto simp: advance_last_def bind_res_Inr_iff)
  have head: "cut = tb_head (hs_cutover x)" by (rule read_heads(2) [OF cut])
  show ?thesis
  proof (cases "cut_at FENCED cmd target cut")
    case True
    then show ?thesis using run cut by (auto simp: advance_last_def bind_res_Inr_iff eff_same)
  next
    case False
    then obtain w where at: "cut_at SOURCE_FENCED cmd target cut" and w: "readWitness P C s x = Inr w"
      using run cut by (auto simp: advance_last_def bind_res_Inr_iff split: if_splits)
    obtain c where c: "tb_head (hs_cutover x) = Some c" "ct_phase (sr_data c) = SOURCE_FENCED" "ct_epoch (sr_data c) = target" "the cut = c"
      using at head by (auto simp: cut_at_Some)
    obtain q where q: "w = Some q" "wd_state (sr_data q) = PProvisioned" "wd_epoch (sr_data q) = target - 1"
      using run cut w at False by (cases w) (auto simp: advance_last_def bind_res_Inr_iff split: if_splits)
    have wit: "wit_ready x" "wit_epoch x = target - 1" using q read_heads(1) [OF w] by (auto simp: wit_ready_def wit_epoch_def)
    obtain lease row1 x1 row ev where steps: "proveOldFenced P C s target margin now x = Inr lease"
        "witnessAdvanceState P C s target PProvisioned x = Inr (row1, x1)" "cut_next P C s c FENCED ev x1 = Inr (row, x')"
      using run cut w q at False c(4) by (auto simp: advance_last_def bind_res_Inr_iff Let_def split: if_splits option.splits)
    from steps(2) obtain wt r where x1: "x1 = x\<lparr>hs_witness := wt\<rparr>" "tb_head wt = Some r" "sr_data r = \<lparr>wd_epoch = target, wd_state = PProvisioned\<rparr>"
      by (rule witness_advance_Inr)
    have c1: "tb_head (hs_cutover x1) = Some c" "phase_follows (ct_phase (sr_data c)) FENCED" using c x1(1) by simp_all
    obtain tb where tb: "x' = x1\<lparr>hs_cutover := tb\<rparr>" "tb_history tb = cuts x1 @ [row]" "tb_head tb = Some row" "cut_follows c row"
        "ct_epoch (sr_data row) = ct_epoch (sr_data c)"
      by (rule cut_next_follows [OF steps(3) c1])
    show ?thesis
      by (rule eff_fence [OF c(1,2) tb(4) _ \<open>now \<in> set ts\<close> _ wit(1)])
        (use tb x1 wit c(3) prove_fenced_Inr [OF steps(1) margin] in \<open>simp_all add: wit_ready_def wit_epoch_def\<close>)
  qed
qed

lemma activation_gap_Inr:
  assumes "assertActivationGap current target x = Inr ()"
  shows "current < target" "\<lbrakk>current < e; e < target\<rbrakk> \<Longrightarrow> \<exists>q \<in> set (cuts x). ct_epoch (sr_data q) = e \<and> ct_phase (sr_data q) = ABORTED"
proof -
  let ?rows = "map (\<lambda>r. (ct_epoch (sr_data r), ct_phase (sr_data r))) (filter (\<lambda>r. current < ct_epoch (sr_data r) \<and> ct_epoch (sr_data r) < target) (sort_key sr_seq (cuts x)))"
  have gap: "current < target" "\<forall>e \<in> set [current + 1..target - 1]. filter CUTOVER_TERMINAL (map snd (filter (\<lambda>r. fst r = e) ?rows)) = [ABORTED]"
    using assms by (auto simp: assertActivationGap_def assertConsumedActivationEpochs_def bind_res_Inr_iff check_all_Inr_iff Let_def)
  then show "current < target" by simp
  assume "current < e" "e < target"
  then have "e \<in> set [current + 1..target - 1]" by simp
  with gap(2) have "filter CUTOVER_TERMINAL (map snd (filter (\<lambda>r. fst r = e) ?rows)) = [ABORTED]" by blast
  then have "ABORTED \<in> set (filter CUTOVER_TERMINAL (map snd (filter (\<lambda>r. fst r = e) ?rows)))" by simp
  then show "\<exists>q \<in> set (cuts x). ct_epoch (sr_data q) = e \<and> ct_phase (sr_data q) = ABORTED" by auto
qed

lemma append_activation_effect:
  assumes run: "activation_append P E C guard s cmd target r chain head now x = Inr (g, x')" and head: "head = tb_head (hs_activation x)"
    and cut: "tb_head (hs_cutover x) = Some c" "ct_phase (sr_data c) = ACTIVE" "ct_commandId (sr_data c) = cmd" "ct_epoch (sr_data c) = target"
  shows "control_effect ts x x'"
proof -
  let ?current = "case head of None \<Rightarrow> 0 | Some h \<Rightarrow> av_epoch (sr_data h)"
  obtain d seq row tb where t: "assertActivationGap ?current target x = Inr ()" "av_commandId d = cmd" "av_epoch d = target"
      "table_transition P C (activationMsg s) d seq (map_option sr_digest head) (hs_activation x) = Inr (row, tb)" "x' = x\<lparr>hs_activation := tb\<rparr>"
    using run by (cases guard) (force simp: activation_append_def bind_res_Inr_iff Let_def)
  note tr = transition_Inr [OF t(4)]
  have row: "tb_head tb = Some row" "sr_data row = d" using tr(1,4) by (simp_all add: activationMsg_def split: option.splits)
  show ?thesis unfolding t(5)
    by (rule eff_activation [OF cut(1,2) _ _ refl _ _ tr(2) row(1)])
      (use row(2) t(2,3) cut(3,4) activation_gap_Inr [OF t(1)] head in \<open>simp_all\<close>)
qed

lemma source_effect:
  assumes "activateSource P E C s cmd target r bResolver leaseResolver chain now x = Inr (g, x')"
  shows "control_effect ts x x'"
proof -
  obtain guard cur where r: "hc_sourceGuard C = Some guard" "readCutover P C s x = Inr cur"
    using assms by (auto simp: activateSource_def bind_res_Inr_iff split: option.splits)
  note cur = read_heads(2) [OF r(2)]
  obtain head where h: "cut_at ACTIVE cmd target cur" "read_table P C (activation_rows (hp_sha P) E leaseResolver s) (hs_activation x) = Inr head"
      "x' = x \<or> activation_append P E C guard s cmd target r chain head now x = Inr (g, x')"
  proof -
    have "\<exists>head. cut_at ACTIVE cmd target cur \<and> read_table P C (activation_rows (hp_sha P) E leaseResolver s) (hs_activation x) = Inr head \<and>
        (x' = x \<or> activation_append P E C guard s cmd target r chain head now x = Inr (g, x'))"
    proof (cases "read_table P C (activation_rows (hp_sha P) E leaseResolver s) (hs_activation x)")
      case (Inr head)
      then show ?thesis using assms r
        by (cases head) (auto simp: activateSource_def bind_res_Inr_iff split: if_splits)
    qed (use assms r in \<open>auto simp: activateSource_def bind_res_Inr_iff split: if_splits\<close>)
    then show ?thesis using that by blast
  qed
  obtain c where c: "tb_head (hs_cutover x) = Some c" "ct_phase (sr_data c) = ACTIVE" "ct_commandId (sr_data c) = cmd" "ct_epoch (sr_data c) = target"
    using h(1) cur by (auto simp: cut_at_Some)
  show ?thesis using h(3) append_activation_effect [OF _ read_table_Inr [OF h(2)] c, of P E C guard s r chain now g x' ts]
    by (auto simp: eff_same)
qed

lemma run_op_effect: "run_op P E C s op x = Inr x' \<Longrightarrow> control_effect (readings op) x x'"
  by (cases op) (auto simp: bind_res_Inr_iff tx_rows_Inr_iff intro: intent_effect incomplete_effect provisioned_effect lease_effect begin_effect
      abort_effect bind_effect import_effect ready_effect activate_effect source_effect advance_effect)

section \<open>The invariant\<close>

text \<open>No grant is above the epoch of the witness; the grants of earlier epochs have expired; the grants of an epoch name
  one holder and one lease.\<close>

definition one_holder :: "lease_data list \<Rightarrow> bool" where
  "one_holder ls \<longleftrightarrow> (\<forall>a \<in> set ls. \<forall>b \<in> set ls. hl_epoch a = hl_epoch b \<longrightarrow> hl_holderNodeId a = hl_holderNodeId b \<and> hl_leaseId a = hl_leaseId b)"

definition lease_rows_inv :: "int \<Rightarrow> ha_stream \<Rightarrow> bool" where
  "lease_rows_inv now x \<longleftrightarrow>
     (\<forall>l \<in> set (leases x). hl_epoch l \<le> wit_epoch x \<and> (hl_epoch l < wit_epoch x \<longrightarrow> hl_maxExpiryMs l \<le> now)) \<and> one_holder (leases x)"

definition cut_log :: "cutover_data signed_row list \<Rightarrow> bool" where
  "cut_log rows \<longleftrightarrow> successively cut_follows rows \<and>
     (rows \<noteq> [] \<longrightarrow> ct_phase (sr_data (hd rows)) = PREPARING \<and> ct_epoch (sr_data (hd rows)) = 1 \<and> sr_seq (hd rows) = 1 \<and> sr_prev (hd rows) = None)"

definition cutover_inv :: "ha_stream \<Rightarrow> bool" where
  "cutover_inv x \<longleftrightarrow> head_is_last (hs_cutover x) \<and> cut_log (cuts x) \<and>
     wit_epoch x = (case tb_head (hs_cutover x) of None \<Rightarrow> 0 | Some c \<Rightarrow> if fenced c then ct_epoch (sr_data c) else ct_epoch (sr_data c) - 1)"

definition prov_inv :: "ha_stream \<Rightarrow> bool" where
  "prov_inv x \<longleftrightarrow> (\<not> prov_done x \<longrightarrow> \<not> wit_ready x) \<and> (\<not> wit_ready x \<longrightarrow> wit_epoch x = 0 \<and> cuts x = [] \<and> leases x = [])"

definition activated :: "ha_stream \<Rightarrow> int list" where
  "activated x = map (\<lambda>r. av_epoch (sr_data r)) (tb_history (hs_activation x))"

text \<open>Activations go up; each is backed by an active cutover of its command; every epoch up to the last activation is
  activated or was aborted.\<close>

definition activation_inv :: "ha_stream \<Rightarrow> bool" where
  "activation_inv x \<longleftrightarrow> head_is_last (hs_activation x) \<and> sorted_wrt (<) (activated x) \<and>
     (\<forall>r \<in> set (tb_history (hs_activation x)). \<exists>c \<in> set (cuts x). ct_phase (sr_data c) = ACTIVE \<and>
        ct_epoch (sr_data c) = av_epoch (sr_data r) \<and> ct_commandId (sr_data c) = av_commandId (sr_data r)) \<and>
     (\<forall>e a. 1 \<le> e \<and> e \<le> a \<and> a \<in> set (activated x) \<longrightarrow>
        e \<in> set (activated x) \<or> (\<exists>c \<in> set (cuts x). ct_epoch (sr_data c) = e \<and> ct_phase (sr_data c) = ABORTED))"

definition control_inv :: "int \<Rightarrow> ha_stream \<Rightarrow> bool" where
  "control_inv now x \<longleftrightarrow> lease_rows_inv now x \<and> cutover_inv x \<and> prov_inv x \<and> activation_inv x"

lemma head_is_last_append: "tb_history tb' = tb_history tb @ [row] \<Longrightarrow> tb_head tb' = Some row \<Longrightarrow> head_is_last tb'"
  by (simp add: head_is_last_def)

lemma cut_log_append:
  assumes "cut_log rows" and "head_is_last tb" and "tb_history tb = rows"
    and "case tb_head tb of None \<Rightarrow> ct_phase (sr_data row) = PREPARING \<and> ct_epoch (sr_data row) = 1 \<and> sr_seq row = 1 \<and> sr_prev row = None | Some c \<Rightarrow> cut_follows c row"
  shows "cut_log (rows @ [row])"
  using assms by (cases "rows = []") (auto simp: cut_log_def head_is_last_def successively_append_iff)

lemma grants_holder:
  assumes "case grants_at e x of [] \<Rightarrow> True | r # _ \<Rightarrow> hl_holderNodeId (sr_data r) = h \<and> hl_leaseId (sr_data r) = i"
    and "one_holder (leases x)" and "l \<in> set (leases x)" and "hl_epoch l = e"
  shows "hl_holderNodeId l = h \<and> hl_leaseId l = i"
proof -
  obtain q where "q \<in> set (tb_history (hs_lease x))" "l = sr_data q" using assms(3) by (auto simp: leases_def)
  then have "q \<in> set (grants_at e x)" using assms(4) by (simp add: grants_at_set)
  then obtain r rs where rs: "grants_at e x = r # rs" by (cases "grants_at e x") auto
  then have "r \<in> set (grants_at e x)" by simp
  then have r: "sr_data r \<in> set (leases x)" "hl_epoch (sr_data r) = e" by (simp_all add: grants_at_set leases_def)
  have "hl_holderNodeId (sr_data r) = h \<and> hl_leaseId (sr_data r) = i" using assms(1) unfolding rs by simp
  then show ?thesis using assms(2) [unfolded one_holder_def, rule_format, OF assms(3) r(1)] assms(4) r(2) by simp
qed

lemma one_holder_append:
  assumes "one_holder ls" and "\<And>l. l \<in> set ls \<Longrightarrow> hl_epoch l = hl_epoch d \<Longrightarrow> hl_holderNodeId l = hl_holderNodeId d \<and> hl_leaseId l = hl_leaseId d"
  shows "one_holder (ls @ [d])"
proof -
  show ?thesis unfolding one_holder_def
  proof (intro ballI impI)
    fix a b
    assume "a \<in> set (ls @ [d])" "b \<in> set (ls @ [d])" "hl_epoch a = hl_epoch b"
    then show "hl_holderNodeId a = hl_holderNodeId b \<and> hl_leaseId a = hl_leaseId b"
      using assms(1) [unfolded one_holder_def, rule_format, of a b] assms(2) [of a] assms(2) [of b] by (cases "a = d"; cases "b = d") simp_all
  qed
qed

lemma lease_rows_later: "lease_rows_inv now x \<Longrightarrow> now \<le> now' \<Longrightarrow> lease_rows_inv now' x"
  unfolding lease_rows_inv_def by (meson order_trans)

lemma lease_effect_inv:
  assumes "control_effect ts x x'" and "control_inv now x" and "now \<le> now'" and "\<forall>t \<in> set ts. now \<le> t \<and> t \<le> now'"
  shows "lease_rows_inv now' x'"
proof -
  have inv: "lease_rows_inv now x" "prov_inv x" using assms(2) by (simp_all add: control_inv_def)
  have later: "lease_rows_inv now' x" by (rule lease_rows_later [OF inv(1) assms(3)])
  then have one: "one_holder (leases x)" by (simp add: lease_rows_inv_def)
  show ?thesis using assms(1)
  proof cases
    case (eff_lease d tb)
    have l: "leases x' = leases x @ [d]" "wit_epoch x' = wit_epoch x" using eff_lease by (simp_all add: leases_def wit_epoch_def)
    have "one_holder (leases x @ [d])" by (rule one_holder_append [OF one grants_holder [OF eff_lease(4) one]])
    then show ?thesis using later eff_lease(3) by (auto simp: lease_rows_inv_def l)
  next
    case (eff_fence c row t)
    have l: "leases x' = leases x" using eff_fence by (simp add: leases_def)
    have "hl_maxExpiryMs a \<le> now'" if "a \<in> set (leases x)" for a
    proof (cases "hl_epoch a = wit_epoch x")
      case True
      then have "hl_maxExpiryMs a \<le> t" using eff_fence(6) that by blast
      then show ?thesis using assms(4) eff_fence(5) by fastforce
    next
      case False
      then show ?thesis using later that unfolding lease_rows_inv_def by force
    qed
    then show ?thesis using later eff_fence(9) by (auto simp: lease_rows_inv_def l)
  next
    case eff_ready
    then show ?thesis using later inv(2) by (auto simp: lease_rows_inv_def prov_inv_def leases_def)
  qed (use later in \<open>simp_all add: lease_rows_inv_def leases_def wit_epoch_def\<close>)
qed

lemma fenced_simps:
  "ct_phase (sr_data c) = PREPARING \<Longrightarrow> \<not> fenced c" "ct_phase (sr_data c) = SOURCE_FENCED \<Longrightarrow> \<not> fenced c" "ct_phase (sr_data c) = FENCED \<Longrightarrow> fenced c"
  by (simp_all add: fenced_def)

lemma fenced_kept:
  "cut_follows c row \<Longrightarrow> \<not> CUTOVER_TERMINAL (ct_phase (sr_data c)) \<Longrightarrow> ct_phase (sr_data row) \<noteq> FENCED \<Longrightarrow>
   fenced row = fenced c \<and> ct_epoch (sr_data row) = ct_epoch (sr_data c)"
  by (cases "ct_phase (sr_data c)") (auto simp: cut_follows_def fenced_def)

lemma terminal_fenced: "CUTOVER_TERMINAL (ct_phase (sr_data c)) \<Longrightarrow> fenced c"
  by (auto simp: CUTOVER_TERMINAL_def fenced_def)

lemma cutover_effect_inv:
  assumes "control_effect ts x x'" and "control_inv now x"
  shows "cutover_inv x'"
proof -
  have inv: "cutover_inv x" "prov_inv x" using assms(2) by (simp_all add: control_inv_def)
  have last: "head_is_last (hs_cutover x)" "cut_log (cuts x)" using inv(1) by (simp_all add: cutover_inv_def)
  show ?thesis using assms(1)
  proof cases
    case (eff_begin row tb)
    have pos: "case tb_head (hs_cutover x) of None \<Rightarrow> ct_phase (sr_data row) = PREPARING \<and> ct_epoch (sr_data row) = 1 \<and> sr_seq row = 1 \<and> sr_prev row = None
        | Some c \<Rightarrow> cut_follows c row"
      using eff_begin inv(1) terminal_fenced by (auto simp: cutover_inv_def cut_follows_def split: option.splits)
    show ?thesis unfolding cutover_inv_def
      using head_is_last_append [OF eff_begin(6,7)] cut_log_append [OF last(2,1) refl pos] eff_begin
      by (simp add: wit_epoch_def fenced_simps)
  next
    case (eff_phase c row tb)
    have pos: "case tb_head (hs_cutover x) of None \<Rightarrow> ct_phase (sr_data row) = PREPARING \<and> ct_epoch (sr_data row) = 1 \<and> sr_seq row = 1 \<and> sr_prev row = None
        | Some c \<Rightarrow> cut_follows c row" using eff_phase by simp
    show ?thesis unfolding cutover_inv_def
      using head_is_last_append [OF eff_phase(6,7)] cut_log_append [OF last(2,1) refl pos] fenced_kept [OF eff_phase(4,3,5)] eff_phase inv(1)
      by (simp add: wit_epoch_def cutover_inv_def)
  next
    case (eff_fence c row t)
    have pos: "case tb_head (hs_cutover x) of None \<Rightarrow> ct_phase (sr_data row) = PREPARING \<and> ct_epoch (sr_data row) = 1 \<and> sr_seq row = 1 \<and> sr_prev row = None
        | Some c \<Rightarrow> cut_follows c row" using eff_fence by simp
    have "ct_phase (sr_data row) = FENCED" using eff_fence(2,3) by (simp add: cut_follows_def CUTOVER_TERMINAL_def)
    then show ?thesis unfolding cutover_inv_def
      using head_is_last_append [OF eff_fence(13,14)] cut_log_append [OF last(2,1) refl pos] eff_fence by (simp add: fenced_simps)
  next
    case eff_ready
    then show ?thesis using inv by (auto simp: cutover_inv_def prov_inv_def head_is_last_def)
  qed (use inv(1) in \<open>simp_all add: cutover_inv_def wit_epoch_def\<close>)
qed

lemma prov_effect_inv:
  assumes "control_effect ts x x'" and "control_inv now x"
  shows "prov_inv x'"
proof -
  have inv: "prov_inv x" "cuts x = [] \<Longrightarrow> tb_head (hs_cutover x) = None"
    using assms(2) by (simp_all add: control_inv_def cutover_inv_def head_is_last_def)
  show ?thesis using assms(1)
    by cases (use inv in \<open>auto simp: prov_inv_def prov_done_def wit_ready_def wit_epoch_def leases_def split: option.splits\<close>)
qed

lemma activation_inv_mono:
  assumes "activation_inv x" and "hs_activation x' = hs_activation x" and "set (cuts x) \<subseteq> set (cuts x')"
  shows "activation_inv x'"
proof -
  have "activated x' = activated x" by (simp add: activated_def assms(2))
  then show ?thesis using assms(1,3) unfolding activation_inv_def assms(2) \<open>activated x' = activated x\<close> by (elim conjE) (intro conjI; (assumption | blast))
qed

lemma activation_effect_inv:
  assumes "control_effect ts x x'" and "control_inv now x"
  shows "activation_inv x'"
proof -
  have inv: "activation_inv x" using assms(2) by (simp add: control_inv_def)
  show ?thesis using assms(1)
  proof cases
    case (eff_activation c row current tb)
    have acts: "activated x' = activated x @ [av_epoch (sr_data row)]" "cuts x' = cuts x" using eff_activation by (simp_all add: activated_def)
    have inc: "sorted_wrt (<) (activated x)" "head_is_last (hs_activation x)" using inv by (simp_all add: activation_inv_def)
    have current: "activated x = [] \<and> current = 0 \<or> activated x \<noteq> [] \<and> current = last (activated x)"
      using inc(2) eff_activation(6) by (auto simp: head_is_last_def activated_def last_map split: if_splits)
    have top: "a \<le> current" if "a \<in> set (activated x)" for a
      using current inc(1) that by (cases "activated x" rule: rev_cases) (auto simp: sorted_wrt_append)
    have c: "c \<in> set (cuts x)" using assms(2) eff_activation(2) by (auto simp: control_inv_def cutover_inv_def head_is_last_def split: if_splits)
    have covered: "e \<in> set (activated x') \<or> (\<exists>q \<in> set (cuts x). ct_epoch (sr_data q) = e \<and> ct_phase (sr_data q) = ABORTED)"
      if e: "1 \<le> e" "e \<le> a" "a \<in> set (activated x')" for e a
    proof -
      consider "e \<le> current" | "current < e" "e < av_epoch (sr_data row)" | "e = av_epoch (sr_data row)"
        using e eff_activation(7) top by (fastforce simp: acts)
      then show ?thesis
      proof cases
        case 1
        then have "current \<in> set (activated x)" using current e(1) by auto
        then show ?thesis using inv 1 e(1) by (auto simp: activation_inv_def acts)
      qed (use eff_activation(8) in \<open>simp_all add: acts\<close>)
    qed
    have "sorted_wrt (<) (activated x')" using inc(1) top eff_activation(7) by (fastforce simp: acts sorted_wrt_append)
    then show ?thesis
      using inv c covered head_is_last_append [OF eff_activation(9,10)] eff_activation(1,3-5,9)
      by (auto simp: activation_inv_def acts)
  qed (use inv in \<open>auto intro: activation_inv_mono\<close>)
qed

lemma control_step_inv:
  assumes "control_step P E C (t, db) (t', db')" and "\<forall>s. control_inv t (db s)"
  shows "\<forall>s. control_inv t' (db' s)"
  using assms(1)
proof cases
  case (control_op op s)
  have readings: "\<forall>r \<in> set (readings op). t \<le> r \<and> r \<le> t'" using control_op(3) by (simp add: list_all_iff)
  have kept: "control_inv t' x'" if "control_effect (readings op) (db q) x'" for x' q
    using lease_effect_inv [OF that _ control_op(2) readings] cutover_effect_inv [OF that] prov_effect_inv [OF that] activation_effect_inv [OF that] assms(2)
    by (auto simp: control_inv_def)
  show ?thesis
  proof
    fix q
    show "control_inv t' (db' q)"
      unfolding control_op(1) by (auto simp: control_exec_def split: sum.splits intro: kept [OF eff_same] kept [OF run_op_effect])
  qed
qed

lemma empty_db_inv: "control_inv t (empty_db s)"
  by (simp add: control_inv_def empty_db_def empty_table_def lease_rows_inv_def one_holder_def cutover_inv_def prov_inv_def activation_inv_def leases_def cut_log_def
      head_is_last_def wit_epoch_def wit_ready_def activated_def)

lemma control_reachable_inv: "(control_step P E C)\<^sup>*\<^sup>* (t0, empty_db) (t, db) \<Longrightarrow> control_inv t (db s)"
proof -
  have "(control_step P E C)\<^sup>*\<^sup>* u v \<Longrightarrow> \<forall>s. control_inv (fst u) (snd u s) \<Longrightarrow> \<forall>s. control_inv (fst v) (snd v s)" for u v
    by (induction rule: rtranclp_induct) (auto dest: control_step_inv)
  from this [of "(t0, empty_db)" "(t, db)"] show "(control_step P E C)\<^sup>*\<^sup>* (t0, empty_db) (t, db) \<Longrightarrow> control_inv t (db s)"
    using empty_db_inv by simp
qed

end
