(* ===== verification/Ha_Readback.thy ===== *)
theory Ha_Readback
  imports Ha_Promotion
begin

text \<open>
  The control plane never quarantines what it wrote itself: in every reachable state the verifying reads of its five
  signed tables succeed and return the heads, as long as the signing key resolves and the histories stay below the bound
  on sequence numbers.
\<close>

section \<open>Own signatures verify\<close>

definition own_key :: "'p ha_control \<Rightarrow> bool" where
  "own_key C \<longleftrightarrow> KEY_ID_RE (hc_keyId C) \<and> hc_resolve C (hc_keyId C) = Some (hc_secret C) \<and> 32 \<le> length (hc_secret C)"

lemma HEX64_digest_hex [simp]: "HEX64 (digest_hex d)"
proof -
  have "is_lower_hex_char (hex_digits ! (n mod 16))" for n
  proof -
    have "hex_digits ! (n mod 16) \<in> set hex_digits" by (rule nth_mem) (simp add: hex_digits_def)
    then show ?thesis by (auto simp: hex_digits_def is_lower_hex_char_def)
  qed
  then show ?thesis by (simp add: HEX64_def digest_hex_def list_all_iff)
qed

lemma b64url_alphabet_canon: "list_all (\<lambda>c. id_start c \<or> c \<in> set ''_-'') b64url_alphabet"
  by code_simp

lemma B64U_CANON_b64url [simp]: "B64U_CANON (digest_b64url d)"
  using b64url_alphabet_canon b64url_group_lt by (simp add: B64U_CANON_def digest_b64url_def list_all_length)

lemma HEX64_sha256hex [simp]: "HEX64 (sha256hex S b)"
  by (simp add: sha256hex_def)

lemma sha256hex_text: "sha256hex S b = d \<Longrightarrow> HEX64 d"
  using HEX64_sha256hex by blast

lemma verify_own: "own_key C \<Longrightarrow> verifyGuard P C (hc_keyId C) msg (guard_sign P C msg) = Inr ()"
  by (simp add: own_key_def verifyGuard_def guard_secret_def guard_sign_def ctEqB64u_def)

section \<open>Tables the control plane has written\<close>

fun chain_ok :: "ha_platform \<Rightarrow> 'p ha_control \<Rightarrow> 'd table_def \<Rightarrow> int \<Rightarrow> string option \<Rightarrow> 'd signed_row list \<Rightarrow> bool" where
  "chain_ok P C T i prev [] \<longleftrightarrow> True"
| "chain_ok P C T i prev (l # ls) \<longleftrightarrow>
     l = signed_row_of P C T (sr_data l) (i + 1) prev \<and> td_link T (sr_data l) = Inr () \<and> chain_ok P C T (i + 1) (Some (sr_digest l)) ls"

definition table_ok :: "ha_platform \<Rightarrow> 'p ha_control \<Rightarrow> 'd table_def \<Rightarrow> 'd signed_table \<Rightarrow> bool" where
  "table_ok P C T tb \<longleftrightarrow> chain_ok P C T 0 None (tb_history tb) \<and> head_is_last tb"

lemma signed_row_of_rest [simp]:
  "sr_digest (signed_row_of P C T d seq prev) = sha256hex (hp_sha P) (td_msg T d seq prev [])"
  "sr_keyId (signed_row_of P C T d seq prev) = hc_keyId C"
  "sr_signature (signed_row_of P C T d seq prev) = guard_sign P C (td_msg T d seq prev (sha256hex (hp_sha P) (td_msg T d seq prev [])))"
  by (simp_all add: signed_row_of_def Let_def)

lemma chain_ok_append:
  "chain_ok P C T i prev (ls @ [r]) \<longleftrightarrow> chain_ok P C T i prev ls \<and>
     r = signed_row_of P C T (sr_data r) (i + int (length ls) + 1) (if ls = [] then prev else Some (sr_digest (last ls))) \<and> td_link T (sr_data r) = Inr ()"
  by (induction ls arbitrary: i prev) (auto simp: algebra_simps)

lemma chain_ok_row:
  assumes "chain_ok P C T i prev ls" and "r \<in> set ls"
  shows "\<exists>q. r = signed_row_of P C T (sr_data r) (sr_seq r) q \<and> (prev = q \<or> (\<exists>l \<in> set ls. q = Some (sr_digest l))) \<and> i < sr_seq r \<and> sr_seq r \<le> i + int (length ls)
    \<and> td_link T (sr_data r) = Inr ()"
  using assms
proof (induction ls arbitrary: i prev)
  case (Cons l ls)
  show ?case
  proof (cases "r = l")
    case True
    have "sr_seq l = i + 1" using Cons.prems(1) by (metis chain_ok.simps(2) signed_row_of_sel(2))
    then show ?thesis using Cons.prems(1) True by (intro exI [of _ prev]) simp
  next
    case False
    then show ?thesis using Cons.IH [of "i + 1" "Some (sr_digest l)"] Cons.prems by fastforce
  qed
qed simp

lemma chain_ok_seqs: "chain_ok P C T i prev ls \<Longrightarrow> map sr_seq ls = map (\<lambda>j. i + int j + 1) [0..<length ls]"
proof (induction ls arbitrary: i prev)
  case (Cons l ls)
  have "sr_seq l = i + 1" using Cons.prems by (metis chain_ok.simps(2) signed_row_of_sel(2))
  then show ?case using Cons.IH [of "i + 1" "Some (sr_digest l)"] Cons.prems
    by (simp add: upt_conv_Cons map_Suc_upt [symmetric] comp_def algebra_simps del: upt_Suc)
qed simp

lemma chain_ok_sorted: "chain_ok P C T i prev ls \<Longrightarrow> sort_key sr_seq ls = ls"
  by (rule sort_key_id_if_sorted) (simp add: chain_ok_seqs sorted_wrt_map sorted_iff_nth_mono)

lemma chain_ok_link:
  assumes "chain_ok P C T i prev ls" and "0 \<le> i" and "i + int (length ls) \<le> MAX_SEQ" and "case prev of None \<Rightarrow> True | Some d \<Rightarrow> HEX64 d" and "r \<in> set ls"
  shows "link_row T r = Inr ()"
  using assms
proof (induction ls arbitrary: i prev)
  case (Cons l ls)
  have l: "sr_seq l = i + 1" "sr_prev l = prev" "HEX64 (sr_digest l)" "td_link T (sr_data l) = Inr ()"
    using Cons.prems(1) by (metis chain_ok.simps(2) signed_row_of_sel(2,3) signed_row_of_rest(1) HEX64_sha256hex)+
  have "vNullableDigest prev label = Inr ()" for label using Cons.prems(4) by (simp add: vNullableDigest_def split: option.splits)
  then have "link_row T l = Inr ()"
    using l Cons.prems(2,3) by (simp add: link_row_def vInt_def MAX_SAFE_INTEGER_def MAX_SEQ_def)
  then show ?case using Cons.IH [of "i + 1" "Some (sr_digest l)"] Cons.prems l(3) by auto
qed simp

lemma chain_ok_verifies:
  assumes "own_key C" and "chain_ok P C T i prev ls"
  shows "chain_loop P C T i prev ls = Inr ()"
  using assms(2)
proof (induction ls arbitrary: i prev)
  case (Cons l ls)
  obtain d where l: "l = signed_row_of P C T d (i + 1) prev" using Cons.prems by auto
  then show ?case using Cons by (simp add: bind_res_Inr_iff digMsg_def sigMsg_def verify_own [OF assms(1)])
qed simp

lemma table_ok_reads:
  assumes key: "own_key C" and ok: "table_ok P C T tb" and len: "int (length (tb_history tb)) \<le> MAX_SEQ"
  shows "read_table P C T tb = Inr (tb_head tb)"
proof (cases "tb_history tb" rule: rev_cases)
  case Nil
  then show ?thesis using ok by (simp add: table_ok_def head_is_last_def read_table_def)
next
  case (snoc ls r)
  then have r: "tb_head tb = Some r" using ok by (simp add: table_ok_def head_is_last_def)
  have chain: "chain_ok P C T 0 None (ls @ [r])" using ok snoc by (simp add: table_ok_def)
  have links: "\<forall>q \<in> set (ls @ [r]). link_row T q = Inr ()"
    using chain_ok_link [OF chain] len snoc by simp
  obtain d seq prev where row: "r = signed_row_of P C T d seq prev" using chain unfolding chain_ok_append by metis
  have "verifyChain P C T (ls @ [r]) r = Inr ()"
    using chain_ok_verifies [OF key chain] row by (simp add: verifyChain_def bind_res_Inr_iff digMsg_def sigMsg_def verify_own [OF key])
  then show ?thesis using links r snoc chain_ok_sorted [OF chain] by (simp add: read_table_def bind_res_Inr_iff check_all_Inr_iff)
qed

lemma head_seq:
  assumes "table_ok P C T tb" and "tb_head tb = Some h"
  shows "sr_seq h = int (length (tb_history tb))" "td_link T (sr_data h) = Inr ()" "tb_history tb \<noteq> []" "last (tb_history tb) = h"
proof -
  obtain ls where ls: "tb_history tb = ls @ [h]" using assms by (cases "tb_history tb" rule: rev_cases) (auto simp: table_ok_def head_is_last_def)
  then have "chain_ok P C T 0 None (ls @ [h])" using assms(1) by (simp add: table_ok_def)
  then have h: "h = signed_row_of P C T (sr_data h) (int (length ls) + 1) (if ls = [] then None else Some (sr_digest (last ls)))" "td_link T (sr_data h) = Inr ()"
    by (auto simp: chain_ok_append)
  show "sr_seq h = int (length (tb_history tb))" using arg_cong [OF h(1), of sr_seq] ls by simp
  show "td_link T (sr_data h) = Inr ()" "tb_history tb \<noteq> []" "last (tb_history tb) = h" using h ls by simp_all
qed

definition next_seq :: "'d signed_row option \<Rightarrow> int" where
  "next_seq h = (case h of None \<Rightarrow> 0 | Some r \<Rightarrow> sr_seq r) + 1"

lemma transition_ok:
  assumes ok: "table_ok P C T tb" and run: "table_transition P C T d seq prev tb = Inr (row, tb')" and seq: "seq = next_seq (tb_head tb)"
    and link: "td_link T d = Inr ()" and keep: "\<And>h. tb_head tb = Some h \<Longrightarrow> td_keep T (sr_data h) d = d"
  shows "table_ok P C T tb'"
proof -
  note t = transition_Inr [OF run]
  have head: "tb_head tb' = Some row" using t(1,4) keep by (simp split: option.splits)
  have pos: "seq = int (length (tb_history tb)) + 1 \<and> prev = (if tb_history tb = [] then None else Some (sr_digest (last (tb_history tb))))"
  proof (cases "tb_head tb")
    case None
    then have "tb_history tb = []" using ok by (simp add: table_ok_def head_is_last_def split: if_splits)
    then show ?thesis using None seq t(3) by (simp add: next_seq_def)
  next
    case (Some h)
    then show ?thesis using head_seq [OF ok Some] seq t(3) by (simp add: next_seq_def)
  qed
  show ?thesis unfolding table_ok_def
    using ok pos t(1,2) link head_is_last_append [OF t(2) head] by (simp add: chain_ok_append table_ok_def)
qed

section \<open>Every operation keeps the tables\<close>

definition tables_ok :: "ha_platform \<Rightarrow> 'p ha_control \<Rightarrow> string \<Rightarrow> ha_stream \<Rightarrow> bool" where
  "tables_ok P C s x \<longleftrightarrow> table_ok P C (provMsg s) (hs_provisioning x) \<and> table_ok P C (witMsg s) (hs_witness x) \<and>
     table_ok P C (leaseMsg s) (hs_lease x) \<and> table_ok P C (cutMsg s) (hs_cutover x) \<and> table_ok P C (activationMsg s) (hs_activation x)"

lemma prov_put_ok:
  assumes "prov_put P C s d (next_seq (tb_head (hs_provisioning x))) prev x = Inr (row, x')" and "tables_ok P C s x"
    and "\<And>h. tb_head (hs_provisioning x) = Some h \<Longrightarrow> pd_genesisMarker (sr_data h) = pd_genesisMarker d"
  shows "tables_ok P C s x'"
proof -
  obtain tb where tb: "table_transition P C (provMsg s) d (next_seq (tb_head (hs_provisioning x))) prev (hs_provisioning x) = Inr (row, tb)" "x' = x\<lparr>hs_provisioning := tb\<rparr>"
    using assms(1) by (auto simp: prov_put_def bind_res_Inr_iff)
  have "table_ok P C (provMsg s) tb"
    by (rule transition_ok [OF _ tb(1) refl]) (use assms(2,3) in \<open>simp_all add: tables_ok_def provMsg_def\<close>)
  then show ?thesis using assms(2) tb(2) by (simp add: tables_ok_def)
qed

lemma witnessGenesis_ok:
  assumes "tables_ok P C s x"
  shows "tables_ok P C s (witnessGenesis P C s state x)"
proof -
  have ok: "table_ok P C (witMsg s) (hs_witness x)" using assms by (simp add: tables_ok_def)
  have link: "td_link (witMsg s) \<lparr>wd_epoch = 0, wd_state = state\<rparr> = Inr ()"
    by (simp add: witMsg_def vInt_def MAX_SAFE_INTEGER_def MAX_EPOCH_def)
  have "table_ok P C (witMsg s) (hs_witness (witnessGenesis P C s state x))"
  proof (cases "tb_history (hs_witness x)")
    case Nil
    then show ?thesis using ok link
      by (simp add: table_ok_def head_is_last_def witnessGenesis_def Let_def history_conflict_def)
  next
    case (Cons r rs)
    then have "sr_seq r = 1" using ok chain_ok_seqs [of P C "witMsg s" 0 None "r # rs"] by (simp add: table_ok_def upt_conv_Cons del: upt_Suc)
    then show ?thesis using ok Cons
      by (simp add: table_ok_def head_is_last_def witnessGenesis_def Let_def history_conflict_def)
  qed
  then show ?thesis using assms by (simp add: tables_ok_def witnessGenesis_def Let_def)
qed

lemma witness_advance_ok:
  assumes "witnessAdvanceState P C s epoch state x = Inr (row, x')" and "tables_ok P C s x" and "0 \<le> epoch" "epoch \<le> MAX_EPOCH"
  shows "tables_ok P C s x'"
proof -
  obtain c where c: "tb_head (hs_witness x) = Some c" "readWitness P C s x = Inr (Some c)"
    using assms(1) read_heads(1) [of P C s x] by (cases "readWitness P C s x") (auto simp: witnessAdvanceState_def split: option.splits)
  obtain tb where tb: "table_transition P C (witMsg s) \<lparr>wd_epoch = epoch, wd_state = state\<rparr> (sr_seq c + 1) (Some (sr_digest c)) (hs_witness x) = Inr (row, tb)"
      "x' = x\<lparr>hs_witness := tb\<rparr>" using assms(1) c(2) by (auto simp: witnessAdvanceState_def bind_res_Inr_iff)
  have "table_ok P C (witMsg s) tb"
    by (rule transition_ok [OF _ tb(1)])
      (use assms(2-4) c(1) in \<open>simp_all add: tables_ok_def next_seq_def witMsg_def vInt_def MAX_SAFE_INTEGER_def MAX_EPOCH_def\<close>)
  then show ?thesis using assms(2) tb(2) by (simp add: tables_ok_def)
qed

lemma cutTransition_ok:
  assumes "cutTransition P C s d seq prev x = Inr (row, x')" and "tables_ok P C s x" and "seq = next_seq (tb_head (hs_cutover x))"
    and "td_link (cutMsg s) d = Inr ()"
  shows "tables_ok P C s x'"
proof -
  obtain tb where tb: "table_transition P C (cutMsg s) d seq prev (hs_cutover x) = Inr (row, tb)" "x' = x\<lparr>hs_cutover := tb\<rparr>"
    using assms(1) by (auto simp: cutTransition_def bind_res_Inr_iff)
  have "table_ok P C (cutMsg s) tb"
    by (rule transition_ok [OF _ tb(1) assms(3,4)]) (use assms(2) in \<open>simp_all add: tables_ok_def cutMsg_def\<close>)
  then show ?thesis using assms(2) tb(2) by (simp add: tables_ok_def)
qed

lemma cut_next_ok:
  assumes "cut_next P C s c phase ev x = Inr (row, x')" and "tables_ok P C s x" and "tb_head (hs_cutover x) = Some c"
  shows "tables_ok P C s x'"
proof -
  have "td_link (cutMsg s) (sr_data c) = Inr ()" by (rule head_seq(2) [where P = P and C = C, OF _ assms(3)]) (use assms(2) in \<open>simp add: tables_ok_def\<close>)
  then show ?thesis
    using cutTransition_ok [OF assms(1) [unfolded cut_next_def] assms(2)] assms(3) by (simp add: next_seq_def cutMsg_def)
qed

lemma prov_next_ok:
  assumes "prov_put P C s \<lparr>pd_genesisMarker = pd_genesisMarker (sr_data c), pd_state = state\<rparr> (sr_seq c + 1) prev x = Inr (row, x')"
    and "tables_ok P C s x" and "tb_head (hs_provisioning x) = Some c"
  shows "tables_ok P C s x'"
  by (rule prov_put_ok [OF _ assms(2), where d = "\<lparr>pd_genesisMarker = pd_genesisMarker (sr_data c), pd_state = state\<rparr>" and prev = prev and row = row])
    (use assms(1,3) in \<open>simp_all add: next_seq_def\<close>)

lemma intent_ok:
  assumes run: "provision_intent P C s genesis x = Inr (u, x')" and ok: "tables_ok P C s x"
  shows "tables_ok P C s x'"
proof -
  obtain cur where cur: "readProvisioning P C s x = Inr cur" using run by (auto simp: provision_intent_def bind_res_Inr_iff)
  note head = read_heads(4) [OF cur]
  show ?thesis
  proof (cases cur)
    case None
    then obtain row where "prov_put P C s \<lparr>pd_genesisMarker = genesis, pd_state = PIntent\<rparr> 1 None x = Inr (row, x')"
      using run cur by (auto simp: provision_intent_def bind_res_Inr_iff)
    then show ?thesis using head None by (intro prov_put_ok [OF _ ok, where prev = None]) (auto simp: next_seq_def)
  qed (use run cur ok in \<open>auto simp: provision_intent_def split: if_splits\<close>)
qed

lemma incomplete_ok:
  assumes run: "provision_incomplete P C s genesis x = Inr (u, x')" and ok: "tables_ok P C s x"
  shows "tables_ok P C s x'"
proof -
  obtain cur where cur: "readProvisioning P C s x = Inr cur" using run by (auto simp: provision_incomplete_def bind_res_Inr_iff)
  then obtain c where c: "cur = Some c" using run by (cases cur) (auto simp: provision_incomplete_def)
  then have head: "tb_head (hs_provisioning x) = Some c" using read_heads(4) [OF cur] by simp
  have "x' = x \<or> (\<exists>row x1. prov_put P C s \<lparr>pd_genesisMarker = pd_genesisMarker (sr_data c), pd_state = PIncomplete\<rparr> (sr_seq c + 1) (Some (sr_digest c)) x = Inr (row, x1) \<and>
      x' = witnessGenesis P C s PIncomplete x1)"
    using run cur c by (auto simp: provision_incomplete_def bind_res_Inr_iff split: if_splits)
  then show ?thesis using ok prov_next_ok [OF _ ok head] witnessGenesis_ok by blast
qed

lemma provisioned_ok:
  assumes run: "provision_provisioned P C s genesis x = Inr (u, x')" and ok: "tables_ok P C s x"
  shows "tables_ok P C s x'"
proof -
  obtain cur where cur: "readProvisioning P C s x = Inr cur" using run by (auto simp: provision_provisioned_def bind_res_Inr_iff)
  then obtain c where c: "cur = Some c" using run by (cases cur) (auto simp: provision_provisioned_def)
  then have head: "tb_head (hs_provisioning x) = Some c" using read_heads(4) [OF cur] by simp
  have "x' = x \<or> (\<exists>row x1 row'. prov_put P C s \<lparr>pd_genesisMarker = pd_genesisMarker (sr_data c), pd_state = PProvisioned\<rparr> (sr_seq c + 1) (Some (sr_digest c)) x = Inr (row, x1) \<and>
      witnessAdvanceState P C s 0 PProvisioned x1 = Inr (row', x'))"
    using run cur c by (auto simp: provision_provisioned_def bind_res_Inr_iff split: if_splits)
  then show ?thesis using ok prov_next_ok [OF _ ok head] witness_advance_ok [of P C s 0 PProvisioned] by (fastforce simp: MAX_EPOCH_def)
qed

lemma writeLease_ok:
  assumes run: "writeLease P C s i now x = Inr (u, x')" and ok: "tables_ok P C s x"
  shows "tables_ok P C s x'"
proof -
  obtain cur where args: "lease_args i = Inr ()" and cur: "readLease P C s x = Inr cur" and fin: "x' = x \<or> lease_append P C s i cur x = Inr (u, x')"
    using run by (auto simp: writeLease_def bind_res_Inr_iff split: if_splits option.splits)
  have head: "cur = tb_head (hs_lease x)" by (rule read_heads(3) [OF cur])
  show ?thesis
  proof (cases "x' = x")
    case False
    with fin obtain row tb where tb: "table_transition P C (leaseMsg s) (lease_of_input i) (next_seq (tb_head (hs_lease x))) (map_option sr_digest cur) (hs_lease x) = Inr (row, tb)"
        "x' = x\<lparr>hs_lease := tb\<rparr>" by (auto simp: lease_append_def bind_res_Inr_iff head next_seq_def)
    have "table_ok P C (leaseMsg s) tb"
    proof (rule transition_ok [OF _ tb(1) refl])
      show "table_ok P C (leaseMsg s) (hs_lease x)" using ok by (simp add: tables_ok_def)
    qed (use args in \<open>simp_all add: leaseMsg_def lease_args_def lease_of_input_def vInt_def abs_le_iff\<close>)
    then show ?thesis using ok tb(2) by (simp add: tables_ok_def)
  qed (simp add: ok)
qed

lemma command_epoch: "command_args cmd target = Inr () \<Longrightarrow> 1 \<le> target \<and> target \<le> MAX_EPOCH \<and> ID_RE cmd"
  by (simp add: command_args_def vInt_def vId_def)

lemma beginPromotion_ok:
  assumes run: "beginPromotionIntent P C s cmd target x = Inr (u, x')" and ok: "tables_ok P C s x"
  shows "tables_ok P C s x'"
proof -
  obtain cur where args: "command_args cmd target = Inr ()" and cur: "readCutover P C s x = Inr cur"
    using run by (auto simp: beginPromotionIntent_def bind_res_Inr_iff)
  have head: "tb_head (hs_cutover x) = cur" using read_heads(2) [OF cur] by simp
  have "x' = x \<or> (\<exists>prev. cutTransition P C s \<lparr>ct_epoch = target, ct_commandId = cmd, ct_phase = PREPARING, ct_evidence = None\<rparr> (next_seq cur) prev x = Inr (u, x'))"
    using run cur by (cases cur) (auto simp: beginPromotionIntent_def bind_res_Inr_iff next_seq_def split: if_splits)
  moreover have "td_link (cutMsg s) \<lparr>ct_epoch = target, ct_commandId = cmd, ct_phase = PREPARING, ct_evidence = None\<rparr> = Inr ()"
    using command_epoch [OF args] by (simp add: cutMsg_def vInt_def MAX_EPOCH_def MAX_SAFE_INTEGER_def)
  ultimately show ?thesis using cutTransition_ok [OF _ ok] ok head by blast
qed

text \<open>The other operations on the cutover append after its head or leave the rows alone.\<close>

definition cut_or_same :: "ha_platform \<Rightarrow> 'p ha_control \<Rightarrow> string \<Rightarrow> ha_stream \<Rightarrow> ha_stream \<Rightarrow> bool" where
  "cut_or_same P C s x x' \<longleftrightarrow> x' = x \<or> (\<exists>c phase ev row. readCutover P C s x = Inr (Some c) \<and> cut_next P C s c phase ev x = Inr (row, x'))"

lemma cut_or_same_ok:
  assumes "cut_or_same P C s x x'" and "tables_ok P C s x"
  shows "tables_ok P C s x'"
  using assms(1) unfolding cut_or_same_def
proof (elim disjE exE conjE)
  fix c phase ev row
  assume "readCutover P C s x = Inr (Some c)" and n: "cut_next P C s c phase ev x = Inr (row, x')"
  from read_heads(2) [OF this(1)] show ?thesis by (intro cut_next_ok [OF n assms(2)]) simp
qed (simp add: assms(2))

lemma cutover_ops:
  shows "abortFencedPromotion P C s cmd target reason x = Inr (u, x') \<Longrightarrow> cut_or_same P C s x x'"
    and "bindSourceFenced P E C s cmd target fr resolver x = Inr (u, x') \<Longrightarrow> cut_or_same P C s x x'"
    and "markImporting P C s cmd target x = Inr (u, x') \<Longrightarrow> cut_or_same P C s x x'"
    and "markReady P E C s cmd target br resolver x = Inr (u, x') \<Longrightarrow> cut_or_same P C s x x'"
    and "activate_cutover P C s cmd target x = Inr (u, x') \<Longrightarrow> cut_or_same P C s x x'"
  unfolding cut_or_same_def
  by (auto simp: abortFencedPromotion_def bindSourceFenced_def markImporting_def markReady_def activate_cutover_def bind_res_Inr_iff cut_at_Some
      split: if_splits option.splits)

lemma advance_ok:
  assumes args: "advance_args cmd target holder margin expiry = Inr ()" and ok: "tables_ok P C s x"
    and run: "advance_last P C s cmd target holder margin expiry leaseDigest digest redis now nowFinal x = Inr (u, x')"
  shows "tables_ok P C s x'"
proof -
  have "command_args cmd target = Inr ()" using args by (auto simp: advance_args_def bind_res_Inr_iff)
  then have target: "0 \<le> target" "target \<le> MAX_EPOCH" using command_epoch by fastforce+
  obtain cut where cut: "readCutover P C s x = Inr cut" using run by (auto simp: advance_last_def bind_res_Inr_iff)
  have "x' = x \<or> (\<exists>c row1 x1 row ev. cut = Some c \<and> witnessAdvanceState P C s target PProvisioned x = Inr (row1, x1) \<and> cut_next P C s c FENCED ev x1 = Inr (row, x'))"
    using run cut by (cases "cut_at FENCED cmd target cut")
      (auto simp: advance_last_def bind_res_Inr_iff Let_def cut_at_Some split: if_splits option.splits)
  then show ?thesis
  proof (elim disjE exE conjE)
    fix c row1 x1 row ev
    assume c: "cut = Some c" and w: "witnessAdvanceState P C s target PProvisioned x = Inr (row1, x1)" and n: "cut_next P C s c FENCED ev x1 = Inr (row, x')"
    from w obtain tb where "x1 = x\<lparr>hs_witness := tb\<rparr>" by (rule witness_advance_Inr)
    then have "tb_head (hs_cutover x1) = Some c" using read_heads(2) [OF cut] c by simp
    then show ?thesis by (rule cut_next_ok [OF n witness_advance_ok [OF w ok target]])
  qed (simp add: ok)
qed

lemma verified_grant_digest: "verifyLeaseGrant S E resolver g = Inr u \<Longrightarrow> HEX64 (lg_grantDigest g)"
  by (auto simp: verifyLeaseGrant_def bind_res_Inr_iff dest: sha256hex_text)

lemma signed_grant_digest: "signLeaseGrant S E keyId key b = Inr g \<Longrightarrow> HEX64 (lg_grantDigest g)"
  by (auto simp: signLeaseGrant_def bind_res_Inr_iff Let_def)

lemma prior_loop_grants: "prior_loop S E resolver s target i prev ids gs = Inr u \<Longrightarrow> g \<in> set gs \<Longrightarrow> verifyLeaseGrant S E resolver g = Inr ()"
  by (induction gs arbitrary: i prev ids) (auto simp: bind_res_Inr_iff)

lemma verified_receipt: "verifyBFinalizedReceipt S E resolver r = Inr u \<Longrightarrow> KEY_ID_RE (br_bKeyId r) \<and> HEX64 (br_receiptDigest r)"
  by (auto simp: verifyBFinalizedReceipt_def bind_res_Inr_iff verifySig_def dest: sha256hex_text split: if_splits)

lemma activation_append_ok:
  assumes run: "activation_append P E C guard s cmd target r chain head now x = Inr (g, x')" and head: "head = tb_head (hs_activation x)"
    and ok: "tables_ok P C s x" and args: "command_args cmd target = Inr ()" and r: "verifyBFinalizedReceipt (hp_sha P) E bResolver r = Inr ()"
    and chain: "prior_loop (hp_sha P) E leaseResolver s target 0 None [] chain = Inr ()"
  shows "tables_ok P C s x'"
proof -
  obtain row tb where g: "HEX64 (lg_grantDigest g)" and tb: "x' = x\<lparr>hs_activation := tb\<rparr>"
      "table_transition P C (activationMsg s)
         \<lparr>av_commandId = cmd, av_epoch = target, av_bKeyId = br_bKeyId r, av_receiptDigest = br_receiptDigest r,
          av_priorGrantDigest = map_option lg_grantDigest (last_grant chain), av_grantDigest = lg_grantDigest g, av_grant = g\<rparr>
         (next_seq (tb_head (hs_activation x))) (map_option sr_digest head) (hs_activation x) = Inr (row, tb)"
    using run by (cases guard) (auto simp: activation_append_def bind_res_Inr_iff Let_def next_seq_def head dest: signed_grant_digest)
  have prior: "case map_option lg_grantDigest (last_grant chain) of None \<Rightarrow> True | Some d \<Rightarrow> HEX64 d"
    using verified_grant_digest [OF prior_loop_grants [OF chain, of "last chain"]] by (simp add: last_grant_def)
  have "table_ok P C (activationMsg s) tb"
  proof (rule transition_ok [OF _ tb(2) refl])
    show "table_ok P C (activationMsg s) (hs_activation x)" using ok by (simp add: tables_ok_def)
  qed (use g prior command_epoch [OF args] verified_receipt [OF r] in
      \<open>simp_all add: activationMsg_def activation_checks_def vId_def vInt_def vNullableDigest_def MAX_EPOCH_def MAX_SAFE_INTEGER_def split: option.splits\<close>)
  then show ?thesis using ok tb(1) by (simp add: tables_ok_def)
qed

lemma activateSource_ok:
  assumes run: "activateSource P E C s cmd target r bResolver leaseResolver chain now x = Inr (g, x')" and ok: "tables_ok P C s x"
  shows "tables_ok P C s x'"
proof -
  have args: "command_args cmd target = Inr ()" "verifyBFinalizedReceipt (hp_sha P) E bResolver r = Inr ()"
      "prior_loop (hp_sha P) E leaseResolver s target 0 None [] chain = Inr ()"
    using run by (auto simp: activateSource_def bind_res_Inr_iff split: option.splits)
  have "x' = x \<or> (\<exists>guard. activation_append P E C guard s cmd target r chain (tb_head (hs_activation x)) now x = Inr (g, x'))"
    using run read_table_Inr [of P C "activation_rows (hp_sha P) E leaseResolver s" "hs_activation x"]
    by (cases "read_table P C (activation_rows (hp_sha P) E leaseResolver s) (hs_activation x)"; cases "tb_head (hs_activation x)")
      (auto simp: activateSource_def bind_res_Inr_iff split: option.splits if_splits)
  then show ?thesis using ok activation_append_ok [OF _ refl ok args] by blast
qed

lemma run_op_ok: "run_op P E C s op x = Inr x' \<Longrightarrow> tables_ok P C s x \<Longrightarrow> tables_ok P C s x'"
  by (cases op) (auto simp: bind_res_Inr_iff tx_rows_Inr_iff intro: intent_ok incomplete_ok provisioned_ok writeLease_ok beginPromotion_ok advance_ok
      activateSource_ok cut_or_same_ok [OF cutover_ops(1)] cut_or_same_ok [OF cutover_ops(2)] cut_or_same_ok [OF cutover_ops(3)]
      cut_or_same_ok [OF cutover_ops(4)] cut_or_same_ok [OF cutover_ops(5)])

lemma exec_ok: "\<forall>q. tables_ok P C q (db q) \<Longrightarrow> tables_ok P C q (control_exec P E C s op db q)"
  using run_op_ok [of P E C s op "db s"] by (simp add: control_exec_def split: sum.splits)

lemma reachable_ok:
  assumes "(control_step P E C)\<^sup>*\<^sup>* (t0, empty_db) (t, db)"
  shows "tables_ok P C s (db s)"
proof -
  have "(control_step P E C)\<^sup>*\<^sup>* u v \<Longrightarrow> \<forall>s. tables_ok P C s (snd u s) \<Longrightarrow> \<forall>s. tables_ok P C s (snd v s)" for u v
  proof (induction rule: rtranclp_induct)
    case (step v w)
    then show ?case by (auto elim!: control_step.cases intro: exec_ok)
  qed
  moreover have "tables_ok P C s (empty_db s)" for s by (simp add: tables_ok_def empty_db_def empty_table_def table_ok_def head_is_last_def)
  ultimately show ?thesis using assms by fastforce
qed

end
