(* ===== verification/Ha_Example.thy ===== *)
theory Ha_Example
  imports Ha_Readback
begin

text \<open>
  One promotion from beginning to end: a stream is provisioned, node A is granted a lease, freezes and is revoked, and node
  B is fenced in, imports, is ratified, becomes active and is granted its source lease. The run shows that the
  conditions under which the guarantees are stated can be met together.
\<close>

section \<open>The platform of the example\<close>

text \<open>The hash of the example reads the last byte of the link to the predecessor, so that the digest of a row depends only on
  its place.\<close>

definition demo_sha :: sha_fn where
  "demo_sha bs = (case rev bs of _ # _ # _ # _ # _ # b # _ \<Rightarrow> ucast b + 1 | _ \<Rightarrow> 0)"

fun hash_at :: "nat \<Rightarrow> digest" where
  "hash_at 0 = 1"
| "hash_at (Suc i) = ucast (last (utf8 (digest_hex (hash_at i)))) + 1"

definition link_at :: "nat \<Rightarrow> string option" where
  "link_at i = (case i of 0 \<Rightarrow> None | Suc j \<Rightarrow> Some (digest_hex (hash_at j)))"

definition frozen :: SourceFrozenReceipt where
  "frozen = (let r = \<lparr>zr_streamId = ''s'', zr_commandId = ''c'', zr_epoch = 0, zr_n = 1, zr_signedHeadDigestAtN = ''h'', zr_sourceStateDigestAtN = ''t'',
       zr_sourceNodeId = ''A'', zr_revokeCommandId = ''r'', zr_leaseId = ''l'', zr_leaseGrantDigest = ''d'', zr_receiptDigest = [], zr_sourceKeyId = ''A'',
       zr_sourceSignature = ''s''\<rparr>
     in r\<lparr>zr_receiptDigest := sha256hex demo_sha (frozenReceiptMsg r [])\<rparr>)"

definition finalized :: BFinalizedReceipt where
  "finalized = (let r = \<lparr>br_streamId = ''s'', br_commandId = ''c'', br_epoch = 0, br_sourceEpoch = ''0'', br_n = 1, br_generationId = ''g'', br_frozenReceiptDigest = ''f'',
       br_manifestDigest = ''m'', br_manifestRoot = ''m'', br_sourceSystemId = ''3'', br_sourceKeyId = ''A'', br_sourceSignature = ''s'', br_guardKeyId = ''g'',
       br_guardSignature = ''s'', br_signedHeadDigestAtN = ''h'', br_sourceStateDigestAtN = ''t'', br_bSystemId = ''2'', br_receiptDigest = [], br_bKeyId = ''B'',
       br_bSignature = ''s''\<rparr>
     in r\<lparr>br_receiptDigest := sha256hex demo_sha (bFinalizedMsg r [])\<rparr>)"

text \<open>The parser of the example returns one object with the fields that the recorded and the ratified evidence have.\<close>

definition demo_json :: jsval where
  "demo_json = JObject [(''frozenReceiptDigest'', JString ''f''), (''n'', JNum (NInt 1)), (''headAtN'', JString ''h''), (''stateAtN'', JString ''t''),
     (''sourceEpoch'', JNum (NInt 0)), (''bReceiptDigest'', JString (br_receiptDigest finalized)), (''bSystemId'', JString ''2''), (''bKeyId'', JString ''B'')]"

definition demo_ha :: ha_platform where
  "demo_ha = \<lparr>hp_hmac = (\<lambda>_ _. 0), hp_sha = demo_sha, hp_b64u = (\<lambda>_. ''e''), hp_unb64u = (\<lambda>_. []), hp_utf8 = (\<lambda>_. []), hp_number = (\<lambda>_. NNaN),
     hp_parse = (\<lambda>_. Inr demo_json)\<rparr>"

definition demo_ed :: "(unit, unit) ed25519" where "demo_ed = \<lparr>edVerify = (\<lambda>_ _ _. True), edSign = (\<lambda>_ _. ''s'')\<rparr>"

definition demo_control :: "unit ha_control" where
  "demo_control = \<lparr>hc_keyId = ''k'', hc_secret = replicate 32 0, hc_resolve = (\<lambda>_. Some (replicate 32 0)), hc_minClaimRemainingMs = 1,
     hc_sourceGuard = Some (''g'', Ed25519_private (), 10), hc_systemId = ''1''\<rparr>"

text \<open>Tables as the example fills them.\<close>

definition demo_row :: "'d table_def \<Rightarrow> 'd \<Rightarrow> nat \<Rightarrow> 'd signed_row" where
  "demo_row T d i = signed_row_of demo_ha demo_control T d (int i + 1) (link_at i)"

definition demo_rows :: "'d table_def \<Rightarrow> 'd list \<Rightarrow> 'd signed_row list" where
  "demo_rows T ds = map (\<lambda>i. demo_row T (ds ! i) i) [0..<length ds]"

definition demo_table :: "'d table_def \<Rightarrow> 'd list \<Rightarrow> 'd signed_table" where
  "demo_table T ds = \<lparr>tb_head = (if ds = [] then None else Some (demo_row T (last ds) (length ds - 1))), tb_history = demo_rows T ds\<rparr>"

definition demo_format :: "'d table_def \<Rightarrow> bool" where
  "demo_format T \<longleftrightarrow> (\<forall>d seq prev. \<exists>pre. td_msg T d seq prev [] = pre @ framed_part (nullable prev) @ [1, 0, 0, 0, 0])"

lemma demo_formats: "demo_format (provMsg s)" "demo_format (witMsg s)" "demo_format (leaseMsg s)" "demo_format (cutMsg s)" "demo_format (activationMsg s)"
proof -
  have frame: "\<exists>pre. tagged_frame (ps @ [nullable prev, FText []]) = pre @ framed_part (nullable prev) @ [1, 0, 0, 0, 0]" for ps prev
    by (intro exI [of _ "tagged_frame ps"]) (simp add: tagged_frame_def utf8Len_def be32_def)
  show "demo_format (provMsg s)" unfolding demo_format_def provMsg_def
    using frame [of "[FText ''tsk_ha_prov/v1'', FText s, FText g, FText q, FInt n]" for g q n] by simp
  show "demo_format (witMsg s)" unfolding demo_format_def witMsg_def
    using frame [of "[FText ''tsk_ha_witness/v1'', FText s, FInt e, FText q, FInt n]" for e q n] by simp
  show "demo_format (leaseMsg s)" unfolding demo_format_def leaseMsg_def
    using frame [of "[FText ''tsk_ha_lease/v1'', FText s, FText l, FText h, FInt e, FInt n, FText q, FInt m, FText g]" for l h e n q m g] by simp
  show "demo_format (cutMsg s)" unfolding demo_format_def cutMsg_def
    using frame [of "[FText ''tsk_ha_cutover/v1'', FText s, FInt e, FText c, FInt n, FText q, v]" for e c n q v] by simp
  show "demo_format (activationMsg s)" unfolding demo_format_def activationMsg_def
    using frame [of "[FText ''tsk_ha_source_activation/v2'', FText s, FText c, FInt e, FText k, FText r, FInt n, v, FText g]" for c e k r n v g] by simp
qed

lemma last_digest_hex: "last (digest_hex d) = hex_digits ! (unat d mod 16)"
  by (simp add: digest_hex_def last_map)

lemma digest_hex_nonempty [simp]: "digest_hex d \<noteq> []"
  using length_digest_hex [of d] by force

lemma demo_row_digest:
  assumes "demo_format T"
  shows "sr_digest (demo_row T d i) = digest_hex (hash_at i)"
proof -
  have "demo_sha (td_msg T d (int i + 1) (link_at i) []) = hash_at i"
  proof (cases i)
    case 0
    then obtain pre where "td_msg T d (int i + 1) (link_at i) [] = pre @ [0] @ [1, 0, 0, 0, 0]"
      using assms [unfolded demo_format_def, rule_format, of d "int i + 1" "link_at i"] by (auto simp: link_at_def nullable_def)
    then show ?thesis using 0 by (simp add: demo_sha_def)
  next
    case (Suc j)
    obtain pre where pre: "td_msg T d (int i + 1) (link_at i) [] = pre @ (1 # be32 (utf8Len (digest_hex (hash_at j))) @ utf8 (digest_hex (hash_at j))) @ [1, 0, 0, 0, 0]"
      using assms [unfolded demo_format_def, rule_format, of d "int i + 1" "link_at i"] Suc by (auto simp: link_at_def nullable_def)
    obtain c cs where "digest_hex (hash_at j) = c # cs" by (cases "digest_hex (hash_at j)") auto
    then obtain bs b where "utf8 (digest_hex (hash_at j)) = bs @ [b]" by (metis rev_exhaust utf8_simps(2) append_is_Nil_conv utf8_char_nonempty)
    then show ?thesis using pre Suc by (simp add: demo_sha_def)
  qed
  then show ?thesis by (simp add: demo_row_def sha256hex_def demo_ha_def)
qed

lemma last_utf8: "s \<noteq> [] \<Longrightarrow> last (utf8 s) = last (utf8_char (last s))"
  by (induction s rule: rev_induct) (auto simp: last_append)

lemma hash_step: "hash_at i = w \<Longrightarrow> hex_digits ! (unat w mod 16) = c \<Longrightarrow> hash_at (Suc i) = ucast (last (utf8_char c)) + 1"
  by (simp add: last_utf8 last_digest_hex)

declare hash_at.simps [simp del]

lemma hash_at_values: "map hash_at [0..<7] = [1, 50, 51, 52, 53, 54, 55]"
proof -
  have h0: "hash_at 0 = 1" by (simp add: hash_at.simps)
  have h1: "hash_at 1 = 50" using hash_step [OF h0, of "CHR ''1''"] by (simp add: hex_digits_def utf8_char_def)
  have h2: "hash_at 2 = 51" using hash_step [OF h1, of "CHR ''2''"] by (simp add: hex_digits_def utf8_char_def del: One_nat_def)
  have h3: "hash_at 3 = 52" using hash_step [OF h2, of "CHR ''3''"] by (simp add: hex_digits_def utf8_char_def)
  have h4: "hash_at 4 = 53" using hash_step [OF h3, of "CHR ''4''"] by (simp add: hex_digits_def utf8_char_def)
  have h5: "hash_at 5 = 54" using hash_step [OF h4, of "CHR ''5''"] by (simp add: hex_digits_def utf8_char_def)
  have h6: "hash_at 6 = 55" using hash_step [OF h5, of "CHR ''6''"] by (simp add: hex_digits_def utf8_char_def)
  have "[0..<7] = [0, 1, 2, 3, 4, 5, 6 :: nat]" by (simp add: upt_rec)
  then show ?thesis using h0 h1 h2 h3 h4 h5 h6 by simp
qed

lemma hash_at_distinct: "i < j \<Longrightarrow> j < 7 \<Longrightarrow> hash_at i \<noteq> hash_at j"
proof -
  have "distinct (map hash_at [0..<7])" unfolding hash_at_values by simp
  then show "i < j \<Longrightarrow> j < 7 \<Longrightarrow> hash_at i \<noteq> hash_at j" by (fastforce simp: distinct_map inj_on_def)
qed

section \<open>Tables of the example read back and grow\<close>

lemma demo_own_key: "own_key demo_control"
  by (simp add: own_key_def demo_control_def KEY_ID_RE_def over_class_def id_start_def is_lower_def)

lemma demo_rows_append: "demo_rows T (ds @ [d]) = demo_rows T ds @ [demo_row T d (length ds)]"
  by (simp add: demo_rows_def nth_append)

lemma demo_row_data [simp]: "sr_data (demo_row T d i) = d" "sr_seq (demo_row T d i) = int i + 1"
  by (simp_all add: demo_row_def)

lemma demo_rows_last: "ds \<noteq> [] \<Longrightarrow> last (demo_rows T ds) = demo_row T (last ds) (length ds - 1)"
  by (cases ds rule: rev_cases) (simp_all add: demo_rows_append)

lemma length_demo_rows [simp]: "length (demo_rows T ds) = length ds" "demo_rows T [] = []" "demo_rows T ds = [] \<longleftrightarrow> ds = []"
  by (simp_all add: demo_rows_def)

lemma demo_rows_data [simp]: "map sr_data (demo_rows T ds) = ds"
  by (simp add: demo_rows_def comp_def map_nth)

lemma link_at_last: "demo_format T \<Longrightarrow> link_at (length ds) = (if ds = [] then None else Some (sr_digest (last (demo_rows T ds))))"
  by (cases ds rule: rev_cases) (simp_all add: link_at_def demo_rows_append demo_row_digest)

lemma demo_table_ok:
  assumes "demo_format T" and "list_all (\<lambda>d. td_link T d = Inr ()) ds"
  shows "table_ok demo_ha demo_control T (demo_table T ds)"
proof -
  have "chain_ok demo_ha demo_control T 0 None (demo_rows T ds)" using assms(2)
  proof (induction ds rule: rev_induct)
    case (snoc d ds)
    then show ?case using link_at_last [OF assms(1), of ds] by (simp add: demo_rows_append chain_ok_append demo_row_def)
  qed simp
  then show ?thesis by (simp add: table_ok_def head_is_last_def demo_table_def demo_rows_last)
qed

lemma demo_read:
  assumes "demo_format T" and "list_all (\<lambda>d. td_link T d = Inr ()) ds" and "length ds < 7"
  shows "read_table demo_ha demo_control T (demo_table T ds) = Inr (tb_head (demo_table T ds))"
  by (rule table_ok_reads [OF demo_own_key demo_table_ok [OF assms(1,2)]]) (use assms(3) in \<open>simp add: demo_table_def MAX_SEQ_def\<close>)

lemma demo_grow:
  assumes T: "demo_format T" and "length ds < 7" and "list_all (\<lambda>e. \<not> td_unique T e d) ds" and "ds \<noteq> [] \<Longrightarrow> td_keep T (last ds) d = d"
    and "seq = int (length ds) + 1" and "prev = link_at (length ds)"
  shows "table_transition demo_ha demo_control T d seq prev (demo_table T ds) = Inr (demo_row T d (length ds), demo_table T (ds @ [d]))"
proof -
  let ?row = "signed_row_of demo_ha demo_control T d seq prev"
  have row: "?row = demo_row T d (length ds)" by (simp add: demo_row_def assms(5,6))
  have "\<not> history_conflict T ?row (demo_table T ds)"
    using assms(2,3) hash_at_distinct
    by (auto simp: row history_conflict_def list_ex_iff demo_table_def demo_rows_def demo_row_digest [OF T] list_all_length)
  then have conflict: "\<not> history_conflict T (demo_row T d (length ds)) (demo_table T ds)" by (simp only: row) simp
  have same: "(demo_row T d (length ds))\<lparr>sr_data := d\<rparr> = demo_row T d (length ds)" by (rule signed_row.equality) simp_all
  show ?thesis
  proof (cases "ds = []")
    case True
    then have "prev = None" "tb_head (demo_table T ds) = None" using assms(6) by (simp_all add: link_at_def demo_table_def)
    then show ?thesis unfolding table_transition_def Let_def row using conflict True demo_rows_append [of T "[]" d] by (simp add: demo_table_def)
  next
    case False
    then have "prev = Some (sr_digest (demo_row T (last ds) (length ds - 1)))" "tb_head (demo_table T ds) = Some (demo_row T (last ds) (length ds - 1))"
      using assms(6) link_at_last [OF T, of ds] demo_rows_last [of ds T] by (simp_all add: demo_table_def)
    then show ?thesis unfolding table_transition_def Let_def row using conflict False assms(4) same by (simp add: demo_table_def demo_rows_append)
  qed
qed

section \<open>The promotion\<close>

lemma table_defs [simp]:
  "td_link (provMsg s) d = Inr ()" "td_unique (provMsg s) d e \<longleftrightarrow> False" "td_keep (provMsg s) d e = e\<lparr>pd_genesisMarker := pd_genesisMarker d\<rparr>"
  "td_unique (witMsg s) v w \<longleftrightarrow> False" "td_keep (witMsg s) v w = w"
  "td_unique (leaseMsg s) l m \<longleftrightarrow> hl_grantCommandId l = hl_grantCommandId m" "td_keep (leaseMsg s) l m = m"
  "td_unique (cutMsg s) c f \<longleftrightarrow> False" "td_keep (cutMsg s) c f = f"
  "td_unique (activationMsg s) a b \<longleftrightarrow> av_commandId a = av_commandId b" "td_keep (activationMsg s) a b = b"
  by (simp_all add: provMsg_def witMsg_def leaseMsg_def cutMsg_def activationMsg_def)

definition world :: "prov_data list \<Rightarrow> witness_data list \<Rightarrow> lease_data list \<Rightarrow> cutover_data list \<Rightarrow> activation_data list \<Rightarrow> ha_stream" where
  "world ps ws ls cs as = \<lparr>hs_provisioning = demo_table (provMsg ''s'') ps, hs_witness = demo_table (witMsg ''s'') ws, hs_lease = demo_table (leaseMsg ''s'') ls,
     hs_cutover = demo_table (cutMsg ''s'') cs, hs_activation = demo_table (activationMsg ''s'') as\<rparr>"

lemma world_sel [simp]:
  "hs_provisioning (world ps ws ls cs as) = demo_table (provMsg ''s'') ps" "hs_witness (world ps ws ls cs as) = demo_table (witMsg ''s'') ws"
  "hs_lease (world ps ws ls cs as) = demo_table (leaseMsg ''s'') ls" "hs_cutover (world ps ws ls cs as) = demo_table (cutMsg ''s'') cs"
  "hs_activation (world ps ws ls cs as) = demo_table (activationMsg ''s'') as"
  by (simp_all add: world_def)

lemma world_put [simp]:
  "(world ps ws ls cs as)\<lparr>hs_provisioning := demo_table (provMsg ''s'') ps'\<rparr> = world ps' ws ls cs as"
  "(world ps ws ls cs as)\<lparr>hs_witness := demo_table (witMsg ''s'') ws'\<rparr> = world ps ws' ls cs as"
  "(world ps ws ls cs as)\<lparr>hs_lease := demo_table (leaseMsg ''s'') ls'\<rparr> = world ps ws ls' cs as"
  "(world ps ws ls cs as)\<lparr>hs_cutover := demo_table (cutMsg ''s'') cs'\<rparr> = world ps ws ls cs' as"
  "(world ps ws ls cs as)\<lparr>hs_activation := demo_table (activationMsg ''s'') as'\<rparr> = world ps ws ls cs as'"
  by (simp_all add: world_def)

lemma demo_head [simp]: "tb_head (demo_table T ds) = (if ds = [] then None else Some (demo_row T (last ds) (length ds - 1)))"
  "tb_history (demo_table T ds) = demo_rows T ds"
  by (simp_all add: demo_table_def)

lemma world_reads [simp]:
  "length ps < 7 \<Longrightarrow> readProvisioning demo_ha demo_control ''s'' (world ps ws ls cs as) = Inr (tb_head (demo_table (provMsg ''s'') ps))"
  "length ws < 7 \<Longrightarrow> list_all (\<lambda>d. 0 \<le> wd_epoch d \<and> wd_epoch d \<le> 1) ws \<Longrightarrow>
     readWitness demo_ha demo_control ''s'' (world ps ws ls cs as) = Inr (tb_head (demo_table (witMsg ''s'') ws))"
  "length ls < 7 \<Longrightarrow> list_all (\<lambda>d. 0 \<le> hl_epoch d \<and> hl_epoch d \<le> 1 \<and> 0 \<le> hl_maxExpiryMs d \<and> hl_maxExpiryMs d \<le> 99) ls \<Longrightarrow>
     readLease demo_ha demo_control ''s'' (world ps ws ls cs as) = Inr (tb_head (demo_table (leaseMsg ''s'') ls))"
  "length cs < 7 \<Longrightarrow> list_all (\<lambda>d. ct_epoch d = 1) cs \<Longrightarrow>
     readCutover demo_ha demo_control ''s'' (world ps ws ls cs as) = Inr (tb_head (demo_table (cutMsg ''s'') cs))"
proof -
  show "readProvisioning demo_ha demo_control ''s'' (world ps ws ls cs as) = Inr (tb_head (demo_table (provMsg ''s'') ps))" if "length ps < 7"
    unfolding readProvisioning_def world_sel by (rule demo_read [OF demo_formats(1)]) (use that in \<open>simp_all add: list_all_iff\<close>)
  show "readWitness demo_ha demo_control ''s'' (world ps ws ls cs as) = Inr (tb_head (demo_table (witMsg ''s'') ws))"
    if "length ws < 7" "list_all (\<lambda>d. 0 \<le> wd_epoch d \<and> wd_epoch d \<le> 1) ws"
    unfolding readWitness_def world_sel by (rule demo_read [OF demo_formats(2)])
      (use that in \<open>auto simp: witMsg_def list_all_iff vInt_def MAX_EPOCH_def MAX_SAFE_INTEGER_def\<close>)
  show "readLease demo_ha demo_control ''s'' (world ps ws ls cs as) = Inr (tb_head (demo_table (leaseMsg ''s'') ls))"
    if "length ls < 7" "list_all (\<lambda>d. 0 \<le> hl_epoch d \<and> hl_epoch d \<le> 1 \<and> 0 \<le> hl_maxExpiryMs d \<and> hl_maxExpiryMs d \<le> 99) ls"
    unfolding readLease_def world_sel by (rule demo_read [OF demo_formats(3)])
      (use that in \<open>fastforce simp: leaseMsg_def list_all_iff vInt_def MAX_EPOCH_def MAX_MS_def MAX_SAFE_INTEGER_def\<close>)+
  show "readCutover demo_ha demo_control ''s'' (world ps ws ls cs as) = Inr (tb_head (demo_table (cutMsg ''s'') cs))"
    if "length cs < 7" "list_all (\<lambda>d. ct_epoch d = 1) cs"
    unfolding readCutover_def world_sel by (rule demo_read [OF demo_formats(4)])
      (use that in \<open>auto simp: cutMsg_def list_all_iff vInt_def MAX_EPOCH_def MAX_SAFE_INTEGER_def\<close>)
qed

abbreviation prov :: "prov_state \<Rightarrow> prov_data" where "prov st \<equiv> \<lparr>pd_genesisMarker = ''g'', pd_state = st\<rparr>"
abbreviation wit :: "int \<Rightarrow> prov_state \<Rightarrow> witness_data" where "wit e st \<equiv> \<lparr>wd_epoch = e, wd_state = st\<rparr>"
abbreviation cut_row :: "cutover_phase \<Rightarrow> string option \<Rightarrow> cutover_data" where
  "cut_row ph ev \<equiv> \<lparr>ct_epoch = 1, ct_commandId = ''c'', ct_phase = ph, ct_evidence = ev\<rparr>"

definition lease_cmd :: "string \<Rightarrow> string \<Rightarrow> int \<Rightarrow> string \<Rightarrow> int \<Rightarrow> lease_input" where
  "lease_cmd cmd holder epoch status expiry = \<lparr>li_leaseId = ''l'', li_holderNodeId = holder, li_epoch = epoch, li_status = status,
     li_maxExpiryMs = expiry, li_grantCommandId = cmd\<rparr>"

abbreviation run_demo :: "unit control_op \<Rightarrow> ha_stream \<Rightarrow> ha_stream res" where
  "run_demo op x \<equiv> run_op demo_ha demo_ed demo_control ''s'' op x"

lemma prov_grow:
  assumes "length ps < 7" and "ps \<noteq> [] \<Longrightarrow> pd_genesisMarker (last ps) = pd_genesisMarker d" and "seq = int (length ps) + 1" and "prev = link_at (length ps)"
  shows "prov_put demo_ha demo_control ''s'' d seq prev (world ps ws ls cs as) = Inr (demo_row (provMsg ''s'') d (length ps), world (ps @ [d]) ws ls cs as)"
  using demo_grow [OF demo_formats(1) [of "''s''"] assms(1) _ _ assms(3,4), of d] assms(2) by (simp add: prov_put_def list_all_iff)

lemma witness_grow:
  assumes "length ws < 6" and "list_all (\<lambda>d. 0 \<le> wd_epoch d \<and> wd_epoch d \<le> 1) (ws @ [v])"
  shows "witnessAdvanceState demo_ha demo_control ''s'' e st (world ps (ws @ [v]) ls cs as) =
    Inr (demo_row (witMsg ''s'') (wit e st) (Suc (length ws)), world ps (ws @ [v, wit e st]) ls cs as)"
  using demo_grow [OF demo_formats(2) [of "''s''"] _ _ _ refl refl, of "ws @ [v]" "wit e st"] assms
  by (simp add: witnessAdvanceState_def list_all_iff link_at_def demo_row_digest demo_formats add.commute)

lemma witness_start: "witnessGenesis demo_ha demo_control ''s'' st (world ps [] ls cs as) = world ps [wit 0 st] ls cs as"
proof -
  have "signed_row_of demo_ha demo_control (witMsg ''s'') (wit 0 st) 1 None = demo_row (witMsg ''s'') (wit 0 st) 0" by (simp add: demo_row_def link_at_def)
  then show ?thesis by (simp add: witnessGenesis_def Let_def history_conflict_def world_def demo_table_def demo_rows_def)
qed

lemma cut_grow:
  assumes "length cs < 7" and "seq = int (length cs) + 1" and "prev = link_at (length cs)"
  shows "cutTransition demo_ha demo_control ''s'' c seq prev (world ps ws ls cs as) = Inr (demo_row (cutMsg ''s'') c (length cs), world ps ws ls (cs @ [c]) as)"
  using demo_grow [OF demo_formats(4) [of "''s''"] assms(1) _ _ assms(2,3), of c] by (simp add: cutTransition_def list_all_iff)

lemma cut_next_grow:
  assumes "length cs < 6"
  shows "cut_next demo_ha demo_control ''s'' (demo_row (cutMsg ''s'') c (length cs)) ph ev (world ps ws ls (cs @ [c]) as) =
    Inr (demo_row (cutMsg ''s'') (c\<lparr>ct_phase := ph, ct_evidence := ev\<rparr>) (Suc (length cs)), world ps ws ls (cs @ [c, c\<lparr>ct_phase := ph, ct_evidence := ev\<rparr>]) as)"
  using assms cut_grow [OF _ refl refl, of "cs @ [c]"] by (simp add: cut_next_def demo_row_digest demo_formats link_at_def add.commute)

lemma lease_grow:
  assumes "length ls < 7" and "list_all (\<lambda>l. hl_grantCommandId l \<noteq> hl_grantCommandId d) ls" and "seq = int (length ls) + 1" and "prev = link_at (length ls)"
  shows "table_transition demo_ha demo_control (leaseMsg ''s'') d seq prev (demo_table (leaseMsg ''s'') ls) =
    Inr (demo_row (leaseMsg ''s'') d (length ls), demo_table (leaseMsg ''s'') (ls @ [d]))"
  using demo_grow [OF demo_formats(3) [of "''s''"] assms(1) _ _ assms(3,4), of d] assms(2) by (simp add: list_all_iff)

lemma step1: "run_demo (Op_intent ''g'') (world [] [] [] [] []) = Inr (world [prov PIntent] [] [] [] [])"
  using prov_grow [of "[]" "prov PIntent" 1 None]
  by (simp add: provision_args_def require_def provision_intent_def tx_rows_def link_at_def)

lemma step2: "run_demo (Op_incomplete ''g'') (world [prov PIntent] [] [] [] []) =
    Inr (world [prov PIntent, prov PIncomplete] [wit 0 PIncomplete] [] [] [])"
  using prov_grow [of "[prov PIntent]" "prov PIncomplete" 2 "Some (digest_hex (hash_at 0))"]
  by (simp add: provision_args_def require_def provision_incomplete_def tx_rows_def link_at_def demo_row_digest demo_formats witness_start)

abbreviation provs :: "prov_data list" where "provs \<equiv> [prov PIntent, prov PIncomplete, prov PProvisioned]"
abbreviation wits :: "witness_data list" where "wits \<equiv> [wit 0 PIncomplete, wit 0 PProvisioned]"

lemma step3: "run_demo (Op_provisioned ''g'') (world [prov PIntent, prov PIncomplete] [wit 0 PIncomplete] [] [] []) = Inr (world provs wits [] [] [])"
  using prov_grow [of "[prov PIntent, prov PIncomplete]" "prov PProvisioned" 3 "Some (digest_hex (hash_at 1))"] witness_grow [of "[]" "wit 0 PIncomplete"]
  by (simp add: provision_args_def require_def provision_provisioned_def tx_rows_def link_at_def demo_row_digest demo_formats)

definition lease_row :: "string \<Rightarrow> string \<Rightarrow> int \<Rightarrow> string \<Rightarrow> int \<Rightarrow> lease_data" where
  "lease_row cmd holder epoch status expiry = lease_of_input (lease_cmd cmd holder epoch status expiry)"

lemma grants_at_world: "length ls < 7 \<Longrightarrow> grants_at e (world ps ws ls cs as) = filter (\<lambda>r. hl_epoch (sr_data r) = e) (demo_rows (leaseMsg ''s'') ls)"
proof -
  have "map sr_seq (demo_rows T ds) = map (\<lambda>i. int i + 1) [0..<length ds]" for T and ds :: "lease_data list" by (simp add: demo_rows_def comp_def)
  then have "sort_key sr_seq (demo_rows T ds) = demo_rows T ds" for T and ds :: "lease_data list"
    by (intro sort_key_id_if_sorted) (simp add: sorted_iff_nth_mono)
  then show ?thesis by (simp add: grants_at_def)
qed

lemma step4: "run_demo (Op_lease (lease_cmd ''a'' ''A'' 0 ''active'' 5) 1) (world provs wits [] [] []) = Inr (world provs wits [lease_row ''a'' ''A'' 0 ''active'' 5] [] [])"
  using lease_grow [of "[]" "lease_row ''a'' ''A'' 0 ''active'' 5" 1 None]
  by (simp add: writeLease_def lease_append_def lease_args_def provisioned_witness_def lease_cmd_def tx_rows_def grants_at_world max_expiry_at_def checks_def require_def
      vInt_def vId_def ID_RE_def over_class_def id_start_def is_lower_def is_upper_def MAX_EPOCH_def MAX_MS_def MAX_SAFE_INTEGER_def MAX_LEASE_HORIZON_MS_def lease_row_def link_at_def)

lemma demo_command [simp]: "command_args ''c'' 1 = Inr ()"
  by (simp add: command_args_def vInt_def vId_def ID_RE_def over_class_def id_start_def is_lower_def MAX_EPOCH_def MAX_SAFE_INTEGER_def)

lemma demo_key_ids [simp]: "KEY_ID_RE ''A''" "KEY_ID_RE ''B''" "KEY_ID_RE ''g''" "B64U_CANON ''s''" "ID_RE ''B''" "ID_RE ''bsrc-c''"
  by (simp_all add: KEY_ID_RE_def ID_RE_def B64U_CANON_def over_class_def id_start_def is_lower_def is_upper_def is_digit_def)

abbreviation any_key :: "unit resolver" where "any_key \<equiv> (\<lambda>_. Some (Ed25519_public ()))"

lemma frozen_verifies [simp]: "verifySourceFrozenReceipt (hp_sha demo_ha) demo_ed any_key frozen = Inr ()"
  by (simp add: verifySourceFrozenReceipt_def frozen_def Let_def demo_ha_def demo_ed_def verifySig_def frozenReceiptMsg_def require_def)

lemma finalized_verifies [simp]: "verifyBFinalizedReceipt (hp_sha demo_ha) demo_ed any_key finalized = Inr ()"
  by (simp add: verifyBFinalizedReceipt_def finalized_def Let_def demo_ha_def demo_ed_def verifySig_def bFinalizedMsg_def require_def)

lemma first_activation [simp]:
  "readActivationEpoch P C s (world ps ws ls cs []) = Inr 0"
  "assertActivationGap 0 1 (world ps ws ls cs as) = Inr ()"
proof -
  show "readActivationEpoch P C s (world ps ws ls cs []) = Inr 0" by (simp add: readActivationEpoch_def)
  have "\<not> (0 < e \<and> e < 1)" for e :: int by simp
  then show "assertActivationGap 0 1 (world ps ws ls cs as) = Inr ()"
    by (simp add: assertActivationGap_def Let_def assertConsumedActivationEpochs_def require_def)
qed

abbreviation leasesA :: "lease_data list" where "leasesA \<equiv> [lease_row ''a'' ''A'' 0 ''active'' 5]"
abbreviation leasesR :: "lease_data list" where "leasesR \<equiv> [lease_row ''a'' ''A'' 0 ''active'' 5, lease_row ''r'' ''A'' 0 ''revoked'' 5]"
abbreviation bound_rows :: "cutover_data list" where "bound_rows \<equiv> [cut_row PREPARING None, cut_row SOURCE_FENCED (Some (frozen_evidence frozen))]"

lemma lease_row_sel [simp]:
  "hl_epoch (lease_row c h e st x) = e" "hl_maxExpiryMs (lease_row c h e st x) = x" "hl_grantCommandId (lease_row c h e st x) = c"
  "hl_holderNodeId (lease_row c h e st x) = h" "hl_leaseId (lease_row c h e st x) = ''l''" "hl_status (lease_row c h e st x) = st"
  by (simp_all add: lease_row_def lease_of_input_def lease_cmd_def)

lemma step5: "run_demo (Op_begin ''c'' 1) (world provs wits leasesA [] []) = Inr (world provs wits leasesA [cut_row PREPARING None] [])"
  using cut_grow [of "[]" 1 None "cut_row PREPARING None"]
  by (simp add: beginPromotionIntent_def provisioned_witness_def tx_rows_def link_at_def require_def)

lemma step6: "run_demo (Op_bind ''c'' 1 frozen any_key) (world provs wits leasesA [cut_row PREPARING None] []) = Inr (world provs wits leasesA bound_rows [])"
  using cut_next_grow [of "[]" "cut_row PREPARING None"]
  by (simp add: bindSourceFenced_def cut_at_def tx_rows_def checks_def require_def) (simp add: frozen_def Let_def)

lemma demo_rows_Cons2 [simp]:
  "demo_rows T [a] = [demo_row T a 0]" "demo_rows T [a, b] = [demo_row T a 0, demo_row T b 1]"
  "demo_rows T [a, b, c] = [demo_row T a 0, demo_row T b 1, demo_row T c 2]"
  by (simp_all add: demo_rows_def upt_rec numeral_2_eq_2)

lemma lease_cmd_sel [simp]:
  "li_epoch (lease_cmd c h e st x) = e" "li_maxExpiryMs (lease_cmd c h e st x) = x" "li_grantCommandId (lease_cmd c h e st x) = c"
  "li_holderNodeId (lease_cmd c h e st x) = h" "li_leaseId (lease_cmd c h e st x) = ''l''" "li_status (lease_cmd c h e st x) = st"
  "lease_of_input (lease_cmd c h e st x) = lease_row c h e st x"
  by (simp_all add: lease_cmd_def lease_row_def)

lemma demo_lease_args:
  "lease_args (lease_cmd ''r'' ''A'' 0 ''revoked'' 5) = Inr ()" "lease_args (lease_cmd ''b'' ''B'' 1 ''active'' 30) = Inr ()"
  by (simp_all add: lease_args_def vInt_def vId_def ID_RE_def over_class_def id_start_def is_lower_def is_upper_def MAX_EPOCH_def MAX_MS_def MAX_SAFE_INTEGER_def)

lemmas lease_run = writeLease_def lease_append_def provisioned_witness_def tx_rows_def grants_at_world max_expiry_at_def checks_def require_def vInt_def MAX_MS_def
  MAX_SAFE_INTEGER_def MAX_LEASE_HORIZON_MS_def demo_lease_args demo_row_digest demo_formats link_at_def

lemma step7: "run_demo (Op_lease (lease_cmd ''r'' ''A'' 0 ''revoked'' 5) 2) (world provs wits leasesA bound_rows []) = Inr (world provs wits leasesR bound_rows [])"
  using lease_grow [of leasesA "lease_row ''r'' ''A'' 0 ''revoked'' 5" 2 "Some (digest_hex (hash_at 0))"] by (simp add: lease_run)

text \<open>The Redis claim of node B.\<close>

definition claimed :: FenceRecord where
  "claimed = \<lparr>fr_nodeId = ''B'', fr_fenceEpoch = 1, fr_expiresAt = 20, fr_commandId = ''c'', fr_active = True\<rparr>"

definition fence_op :: "unit control_op" where
  "fence_op = Op_advance ''c'' 1 ''B'' 1 20 (digest_hex (hash_at 1)) (claimDigest demo_ha claimed) (Inr (Some claimed)) 7 8"

abbreviation wits1 :: "witness_data list" where "wits1 \<equiv> [wit 0 PIncomplete, wit 0 PProvisioned, wit 1 PProvisioned]"
abbreviation fenced_rows :: "cutover_data list" where
  "fenced_rows \<equiv> [cut_row PREPARING None, cut_row SOURCE_FENCED (Some (frozen_evidence frozen)), cut_row FENCED (Some ''e'')]"

lemma step8_args: "advance_args ''c'' 1 ''B'' 1 20 = Inr ()"
  by (simp add: advance_args_def vInt_def vId_def MAX_SAFETY_MARGIN_MS_def MAX_MS_def MAX_SAFE_INTEGER_def)

lemma step8: "run_demo fence_op (world provs wits leasesR bound_rows []) = Inr (world provs wits1 leasesR fenced_rows [])"
  using witness_grow [of "[wit 0 PIncomplete]" "wit 0 PProvisioned" 1 PProvisioned] cut_next_grow [of "[cut_row PREPARING None]" "cut_row SOURCE_FENCED (Some (frozen_evidence frozen))" FENCED]
  by (simp add: fence_op_def step8_args advance_last_def cut_at_def proveOldFenced_def tx_rows_def checks_def require_def vInt_def MAX_MS_def MAX_SAFE_INTEGER_def grants_at_world
      max_expiry_at_def demo_row_digest demo_formats claimed_def claim_matches_def Let_def encodeEvidence_def)
    (simp add: demo_ha_def demo_control_def)

abbreviation imported_rows :: "cutover_data list" where "imported_rows \<equiv> fenced_rows @ [cut_row IMPORTING (Some ''e'')]"
abbreviation ready_rows :: "cutover_data list" where "ready_rows \<equiv> imported_rows @ [cut_row READY (Some (ready_evidence ''1'' finalized))]"
abbreviation active_rows :: "cutover_data list" where "active_rows \<equiv> ready_rows @ [cut_row ACTIVE (Some (active_evidence demo_json))]"

lemma demo_rows_more [simp]:
  "demo_rows T [a, b, c, d] = [demo_row T a 0, demo_row T b 1, demo_row T c 2, demo_row T d 3]"
  "demo_rows T [a, b, c, d, e] = [demo_row T a 0, demo_row T b 1, demo_row T c 2, demo_row T d 3, demo_row T e 4]"
  "demo_rows T [a, b, c, d, e, f] = [demo_row T a 0, demo_row T b 1, demo_row T c 2, demo_row T d 3, demo_row T e 4, demo_row T f 5]"
  by (simp_all add: demo_rows_def upt_rec eval_nat_numeral)

lemma step9: "run_demo (Op_import ''c'' 1) (world provs wits1 leasesR fenced_rows []) = Inr (world provs wits1 leasesR imported_rows [])"
  using cut_next_grow [of bound_rows "cut_row FENCED (Some ''e'')" IMPORTING] by (simp add: markImporting_def cut_at_def source_fenced_row_def tx_rows_def numeral_2_eq_2)

lemma demo_evidence [simp]:
  "hp_parse demo_ha t = Inr demo_json" "js_get demo_json ''frozenReceiptDigest'' = JString ''f''" "js_get demo_json ''n'' = JNum (NInt 1)"
  "js_get demo_json ''headAtN'' = JString ''h''" "js_get demo_json ''stateAtN'' = JString ''t''" "js_get demo_json ''sourceEpoch'' = JNum (NInt 0)"
  "js_get demo_json ''bReceiptDigest'' = JString (br_receiptDigest finalized)" "js_get demo_json ''bSystemId'' = JString ''2''" "js_get demo_json ''bKeyId'' = JString ''B''"
  by (simp_all add: demo_ha_def demo_json_def)

lemma finalized_sel [simp]:
  "br_streamId finalized = ''s''" "br_commandId finalized = ''c''" "br_epoch finalized = 0" "br_n finalized = 1" "br_frozenReceiptDigest finalized = ''f''"
  "br_sourceSystemId finalized = ''3''" "br_signedHeadDigestAtN finalized = ''h''" "br_sourceStateDigestAtN finalized = ''t''" "br_bSystemId finalized = ''2''"
  "br_bKeyId finalized = ''B''"
  by (simp_all add: finalized_def Let_def)

lemma demo_system [simp]: "hc_systemId demo_control = ''1''" "hc_sourceGuard demo_control = Some (''g'', Ed25519_private (), 10)"
  by (simp_all add: demo_control_def)

lemma step10: "run_demo (Op_ready ''c'' 1 finalized any_key) (world provs wits1 leasesR imported_rows []) = Inr (world provs wits1 leasesR ready_rows [])"
  using cut_next_grow [of fenced_rows "cut_row IMPORTING (Some ''e'')" READY]
  by (simp add: markReady_def cut_at_def phase_evidence_def source_fenced_row_def receipt_checks_def tx_rows_def checks_def require_def numeral_3_eq_3)

lemma step11: "run_demo (Op_activate ''c'' 1) (world provs wits1 leasesR ready_rows []) = Inr (world provs wits1 leasesR active_rows [])"
  using cut_next_grow [of imported_rows "cut_row READY (Some (ready_evidence ''1'' finalized))" ACTIVE]
  by (simp add: activate_cutover_def cut_at_def phase_evidence_def source_fenced_row_def tx_rows_def numeral_eq_Suc)

definition source_grant :: LeaseGrant where
  "source_grant = (let g = activation_grant ''s'' ''c'' 1 ''B'' None 19 in
     g\<lparr>lg_grantDigest := sha256hex demo_sha (leaseGrantMsg g []), lg_guardKeyId := ''g'', lg_guardSignature := ''s''\<rparr>)"

definition source_row :: activation_data where
  "source_row = \<lparr>av_commandId = ''c'', av_epoch = 1, av_bKeyId = ''B'', av_receiptDigest = br_receiptDigest finalized, av_priorGrantDigest = None,
     av_grantDigest = lg_grantDigest source_grant, av_grant = source_grant\<rparr>"

lemma source_signed: "signLeaseGrant (hp_sha demo_ha) demo_ed ''g'' (Ed25519_private ()) (activation_grant ''s'' ''c'' 1 ''B'' None 19) = Inr source_grant"
  by (simp add: signLeaseGrant_def grant_checks_def checks_def source_grant_def Let_def activation_grant_def require_def vId_def vInt_def vNullableDigest_def edSignB64u_def
      demo_ed_def demo_ha_def STREAM_ID_RE_def ID_RE_def over_class_def id_start_def is_lower_def is_upper_def is_digit_def MAX_EPOCH_def MAX_SEQ_def MAX_MS_def MAX_SAFE_INTEGER_def)

lemma step12: "run_demo (Op_source ''c'' 1 finalized any_key any_key [] 9) (world provs wits1 leasesR active_rows []) = Inr (world provs wits1 leasesR active_rows [source_row])"
  using demo_grow [OF demo_formats(5) [of "''s''"] _ _ _ refl refl, of "[]" source_row] source_signed
  by (simp add: activateSource_def cut_at_def active_pins_def activation_append_def chain_rooted_def last_grant_def read_table_def tx_rows_def checks_def require_def vId_def vInt_def
      MAX_MS_def MAX_SAFE_INTEGER_def link_at_def source_row_def Let_def)

abbreviation promoted :: ha_stream where "promoted \<equiv> world provs wits1 leasesR active_rows [source_row]"

lemma step13: "writeLease demo_ha demo_control ''s'' (lease_cmd ''b'' ''B'' 1 ''active'' 30) 10 promoted =
    Inr ((lease_row ''b'' ''B'' 1 ''active'' 30, 3, digest_hex (hash_at 2)), world provs wits1 (leasesR @ [lease_row ''b'' ''B'' 1 ''active'' 30]) active_rows [source_row])"
  using lease_grow [of leasesR "lease_row ''b'' ''B'' 1 ''active'' 30" 3 "Some (digest_hex (hash_at 1))"] by (simp add: lease_run numeral_2_eq_2 CUTOVER_FROZEN_def)

section \<open>The promotion is a run\<close>

definition example_db :: "ha_stream \<Rightarrow> ha_db" where "example_db x = empty_db(''s'' := x)"

lemma demo_start: "empty_db = example_db (world [] [] [] [] [])"
  by (rule ext) (simp add: example_db_def empty_db_def empty_table_def world_def demo_table_def)

lemma demo_step:
  assumes "(control_step demo_ha demo_ed demo_control)\<^sup>*\<^sup>* (0, empty_db) (t, example_db x)" and "run_demo op x = Inr x'"
    and "t \<le> t'" and "list_all (\<lambda>r. t \<le> r \<and> r \<le> t') (readings op)"
  shows "(control_step demo_ha demo_ed demo_control)\<^sup>*\<^sup>* (0, empty_db) (t', example_db x')"
proof -
  have "HA_STREAM_ID_RE ''s''" by (simp add: HA_STREAM_ID_RE_def over_class_def id_start_def is_lower_def)
  then have "control_exec demo_ha demo_ed demo_control ''s'' op (example_db x) = example_db x'" using assms(2) by (simp add: control_exec_def example_db_def)
  then have "control_step demo_ha demo_ed demo_control (t, example_db x) (t', example_db x')" using control_op [OF assms(3,4)] by metis
  with assms(1) show ?thesis by (rule rtranclp.rtrancl_into_rtrancl)
qed

lemma provisioned_reached: "(control_step demo_ha demo_ed demo_control)\<^sup>*\<^sup>* (0, empty_db) (0, example_db (world provs wits [] [] []))"
proof -
  have "(control_step demo_ha demo_ed demo_control)\<^sup>*\<^sup>* (0, empty_db) (0, example_db (world [] [] [] [] []))" by (simp add: demo_start [symmetric])
  from demo_step [OF demo_step [OF demo_step [OF this step1 order_refl] step2 order_refl] step3 order_refl] show ?thesis by simp
qed

lemma fenced_reached: "(control_step demo_ha demo_ed demo_control)\<^sup>*\<^sup>* (0, empty_db) (8, example_db (world provs wits1 leasesR fenced_rows []))"
proof -
  have "(control_step demo_ha demo_ed demo_control)\<^sup>*\<^sup>* (0, empty_db) (1, example_db (world provs wits leasesA [] []))"
    by (rule demo_step [OF provisioned_reached step4]) simp_all
  from demo_step [OF demo_step [OF this step5 order_refl] step6 order_refl]
  have "(control_step demo_ha demo_ed demo_control)\<^sup>*\<^sup>* (0, empty_db) (1, example_db (world provs wits leasesA bound_rows []))" by simp
  then have "(control_step demo_ha demo_ed demo_control)\<^sup>*\<^sup>* (0, empty_db) (2, example_db (world provs wits leasesR bound_rows []))"
    by (rule demo_step [OF _ step7]) simp_all
  then show ?thesis by (rule demo_step [OF _ step8]) (simp_all add: fence_op_def)
qed

lemma promotion_reached: "(control_step demo_ha demo_ed demo_control)\<^sup>*\<^sup>* (0, empty_db) (9, example_db promoted)"
proof -
  from demo_step [OF demo_step [OF demo_step [OF fenced_reached step9 order_refl] step10 order_refl] step11 order_refl]
  have "(control_step demo_ha demo_ed demo_control)\<^sup>*\<^sup>* (0, empty_db) (8, example_db (world provs wits1 leasesR active_rows []))" by simp
  then show ?thesis by (rule demo_step [OF _ step12]) simp_all
qed

end
