(* ===== verification/Ha_Guarantees.thy ===== *)
theory Ha_Guarantees
  imports Ha_Example
begin

text \<open>
  The guarantees of the control plane for every reachable state, and a full promotion as an example: a stream is
  provisioned, node A holds a lease and is revoked, and node B is promoted, activated and granted a lease.
\<close>

section \<open>Leases of different epochs do not overlap\<close>

lemma writeLease_granted:
  assumes "writeLease P C s i now x = Inr ((d, seq, digest), x')"
  shows "hl_epoch d = wit_epoch x \<and> (d \<in> set (leases x) \<or>
    (case grants_at (wit_epoch x) x of [] \<Rightarrow> True | r # _ \<Rightarrow> hl_holderNodeId (sr_data r) = hl_holderNodeId d \<and> hl_leaseId (sr_data r) = hl_leaseId d))"
proof -
  obtain w where w: "provisioned_witness P C s x = Inr w" "li_epoch i = wd_epoch (sr_data w)"
    using assms by (auto simp: writeLease_def bind_res_Inr_iff)
  then have epoch: "li_epoch i = wit_epoch x" using provisioned_witness_Inr(3) by fastforce
  show ?thesis
  proof (cases "find (\<lambda>r. hl_grantCommandId (sr_data r) = li_grantCommandId i) (tb_history (hs_lease x))")
    case None
    then obtain cur where "lease_append P C s i cur x = Inr ((d, seq, digest), x')"
      using assms by (auto simp: writeLease_def bind_res_Inr_iff)
    then show ?thesis using epoch by (auto simp: lease_append_def bind_res_Inr_iff lease_of_input_def dest!: transition_Inr(1) split: list.splits)
  next
    case (Some r)
    then have "d = lease_of_input i" "sr_data r = lease_of_input i"
      using assms by (auto simp: writeLease_def bind_res_Inr_iff split: if_splits)
    moreover have "r \<in> set (tb_history (hs_lease x))" using Some by (auto simp: find_Some_iff)
    ultimately have "d \<in> set (leases x)" by (metis leases_def image_eqI set_map)
    then show ?thesis using epoch \<open>d = lease_of_input i\<close> by (simp add: lease_of_input_def)
  qed
qed

text \<open>C11: Whoever calls the control plane, in whatever order and with whatever failures: when a lease is granted, renewed or
  revoked at some time of the control clock, every earlier grant of the stream belongs to the same or an earlier
  epoch, the grants of earlier epochs have all expired by then, and those of the same epoch name the same holder and
  lease. So no two nodes hold a live lease of a stream at the same time.\<close>

theorem leases_of_epochs_disjoint:
  assumes reach: "(control_step P E C)\<^sup>*\<^sup>* (t0, empty_db) (t, db)" and "t \<le> now"
    and grant: "writeLease P C s i now (db s) = Inr ((d, seq, digest), x')" and l: "l \<in> set (leases (db s))"
  shows "hl_epoch l \<le> hl_epoch d \<and> (hl_epoch l < hl_epoch d \<longrightarrow> hl_maxExpiryMs l \<le> now) \<and>
    (hl_epoch l = hl_epoch d \<longrightarrow> hl_holderNodeId l = hl_holderNodeId d \<and> hl_leaseId l = hl_leaseId d)"
proof -
  have inv: "lease_rows_inv now (db s)"
    using control_reachable_inv [OF reach, of s] lease_rows_later [OF _ \<open>t \<le> now\<close>] by (simp add: control_inv_def)
  then have one: "one_holder (leases (db s))" by (simp add: lease_rows_inv_def)
  note g = writeLease_granted [OF grant]
  have "hl_holderNodeId l = hl_holderNodeId d \<and> hl_leaseId l = hl_leaseId d" if e: "hl_epoch l = hl_epoch d"
  proof (cases "d \<in> set (leases (db s))")
    case True
    then show ?thesis using one [unfolded one_holder_def, rule_format, OF l _ e] by blast
  next
    case False
    then show ?thesis using g e by (intro grants_holder [OF _ one l]) auto
  qed
  then show ?thesis using inv l g unfolding lease_rows_inv_def by simp
qed

text \<open>In the promotion, the lease of node A has expired when node B gets its own.\<close>

theorem leases_of_epochs_disjoint_witness:
  "(control_step demo_ha demo_ed demo_control)\<^sup>*\<^sup>* (0, empty_db) (9, example_db promoted) \<and>
   lease_row ''a'' ''A'' 0 ''active'' 5 \<in> set (leases (example_db promoted ''s'')) \<and>
   hl_epoch (lease_row ''a'' ''A'' 0 ''active'' 5) < hl_epoch (lease_row ''b'' ''B'' 1 ''active'' 30) \<and> hl_maxExpiryMs (lease_row ''a'' ''A'' 0 ''active'' 5) \<le> 10"
proof -
  have l: "lease_row ''a'' ''A'' 0 ''active'' 5 \<in> set (leases (example_db promoted ''s''))" by (simp add: leases_def example_db_def)
  have "writeLease demo_ha demo_control ''s'' (lease_cmd ''b'' ''B'' 1 ''active'' 30) 10 (example_db promoted ''s'') =
      Inr ((lease_row ''b'' ''B'' 1 ''active'' 30, 3, digest_hex (hash_at 2)), world provs wits1 (leasesR @ [lease_row ''b'' ''B'' 1 ''active'' 30]) active_rows [source_row])"
    using step13 by (simp add: example_db_def)
  from leases_of_epochs_disjoint [OF promotion_reached _ this l] show ?thesis using l promotion_reached by simp
qed

section \<open>The cutover keeps to its protocol\<close>

lemma cut_log_nth:
  assumes "cut_log rows" and "Suc i < length rows"
  shows "cut_follows (rows ! i) (rows ! Suc i)"
  using assms by (simp add: cut_log_def successively_conv_nth)

lemma cut_log_before:
  assumes "cut_log rows" and "i < length rows" and "ct_phase (sr_data (rows ! i)) = q" and "q \<noteq> PREPARING"
  shows "\<exists>j. i = Suc j \<and> cut_follows (rows ! j) (rows ! i) \<and> phase_follows (ct_phase (sr_data (rows ! j))) q \<and>
    ct_epoch (sr_data (rows ! j)) = ct_epoch (sr_data (rows ! i)) \<and> ct_commandId (sr_data (rows ! j)) = ct_commandId (sr_data (rows ! i))"
proof (cases i)
  case 0
  have "rows \<noteq> []" using assms(2) by auto
  then have "ct_phase (sr_data (rows ! 0)) = PREPARING" using assms(1) by (auto simp: cut_log_def hd_conv_nth)
  then show ?thesis using assms(3,4) 0 by simp
next
  case (Suc j)
  then show ?thesis using cut_log_nth [OF assms(1), of j] assms(2-4) by (auto simp: cut_follows_def split: if_splits)
qed

lemma phase_before:
  "phase_follows p ACTIVE \<longleftrightarrow> p = READY" "phase_follows p READY \<longleftrightarrow> p = IMPORTING" "phase_follows p IMPORTING \<longleftrightarrow> p = FENCED"
  "phase_follows p FENCED \<longleftrightarrow> p = SOURCE_FENCED" "phase_follows p SOURCE_FENCED \<longleftrightarrow> p = PREPARING"
  by (cases p; simp)+

text \<open>The row and the four before it, in one promotion.\<close>

definition promotion_at :: "cutover_data signed_row list \<Rightarrow> nat \<Rightarrow> cutover_phase list \<Rightarrow> bool" where
  "promotion_at rows k phases \<longleftrightarrow>
     (\<forall>i < length phases. k + i < length rows \<and> ct_phase (sr_data (rows ! (k + i))) = phases ! i \<and>
        ct_epoch (sr_data (rows ! (k + i))) = ct_epoch (sr_data (rows ! k)) \<and> ct_commandId (sr_data (rows ! (k + i))) = ct_commandId (sr_data (rows ! k)))"

lemma active_promotion:
  assumes log: "cut_log rows" and "n < length rows" and "ct_phase (sr_data (rows ! n)) = ACTIVE"
  shows "\<exists>k. n = k + 5 \<and> promotion_at rows k [PREPARING, SOURCE_FENCED, FENCED, IMPORTING, READY, ACTIVE]"
proof -
  obtain n4 where n4: "n = Suc n4" "ct_phase (sr_data (rows ! n4)) = READY" "ct_epoch (sr_data (rows ! n4)) = ct_epoch (sr_data (rows ! n))"
      "ct_commandId (sr_data (rows ! n4)) = ct_commandId (sr_data (rows ! n))"
    using cut_log_before [OF log assms(2,3)] by (auto simp: phase_before)
  obtain n3 where n3: "n4 = Suc n3" "ct_phase (sr_data (rows ! n3)) = IMPORTING" "ct_epoch (sr_data (rows ! n3)) = ct_epoch (sr_data (rows ! n4))"
      "ct_commandId (sr_data (rows ! n3)) = ct_commandId (sr_data (rows ! n4))"
    using cut_log_before [OF log _ n4(2)] assms(2) n4(1) by (auto simp: phase_before)
  obtain n2 where n2: "n3 = Suc n2" "ct_phase (sr_data (rows ! n2)) = FENCED" "ct_epoch (sr_data (rows ! n2)) = ct_epoch (sr_data (rows ! n3))"
      "ct_commandId (sr_data (rows ! n2)) = ct_commandId (sr_data (rows ! n3))"
    using cut_log_before [OF log _ n3(2)] assms(2) n4(1) n3(1) by (auto simp: phase_before)
  obtain n1 where n1: "n2 = Suc n1" "ct_phase (sr_data (rows ! n1)) = SOURCE_FENCED" "ct_epoch (sr_data (rows ! n1)) = ct_epoch (sr_data (rows ! n2))"
      "ct_commandId (sr_data (rows ! n1)) = ct_commandId (sr_data (rows ! n2))"
    using cut_log_before [OF log _ n2(2)] assms(2) n4(1) n3(1) n2(1) by (auto simp: phase_before)
  obtain k where k: "n1 = Suc k" "ct_phase (sr_data (rows ! k)) = PREPARING" "ct_epoch (sr_data (rows ! k)) = ct_epoch (sr_data (rows ! n1))"
      "ct_commandId (sr_data (rows ! k)) = ct_commandId (sr_data (rows ! n1))"
    using cut_log_before [OF log _ n1(2)] assms(2) n4(1) n3(1) n2(1) n1(1) by (auto simp: phase_before)
  show ?thesis
    by (rule exI [of _ k])
      (use assms(2,3) n4 n3 n2 n1 k in \<open>simp add: promotion_at_def numeral_eq_Suc All_less_Suc2\<close>)
qed

lemma cut_log_epochs:
  assumes "cut_log rows" and "i < j" and "j < length rows"
  shows "ct_epoch (sr_data (rows ! i)) \<le> ct_epoch (sr_data (rows ! j)) \<and>
    (CUTOVER_TERMINAL (ct_phase (sr_data (rows ! i))) \<longrightarrow> ct_epoch (sr_data (rows ! i)) < ct_epoch (sr_data (rows ! j)))"
  using assms(2,3)
proof (induction j)
  case (Suc j)
  have "cut_follows (rows ! j) (rows ! Suc j)" using cut_log_nth [OF assms(1)] Suc.prems by simp
  then show ?case using Suc by (cases "i = j") (fastforce simp: cut_follows_def less_Suc_eq split: if_splits)+
qed simp

lemma one_end:
  assumes "cut_log rows" and "a \<in> set rows" and "b \<in> set rows" and "CUTOVER_TERMINAL (ct_phase (sr_data a))" "CUTOVER_TERMINAL (ct_phase (sr_data b))"
    and "ct_epoch (sr_data a) = ct_epoch (sr_data b)"
  shows "a = b"
proof -
  obtain i j where "i < length rows" "j < length rows" "a = rows ! i" "b = rows ! j" using assms(2,3) by (auto simp: in_set_conv_nth)
  then show ?thesis using cut_log_epochs [OF assms(1), of i j] cut_log_epochs [OF assms(1), of j i] assms(4-6) by (cases i j rule: linorder_cases) auto
qed

text \<open>C13: The signed history of the cutover of a stream is, at any time, a sequence of promotions at the epochs 1, 2, and so
  on, each passing its phases in order under one command and ending active or aborted before the next begins. An active
  row is the sixth of its promotion: the source was frozen, the epoch fenced, the import made and ratified before. The
  epoch of the witness is that of the cutover once it is fenced, and the one before until then.\<close>

theorem cutover_follows_protocol:
  assumes "(control_step P E C)\<^sup>*\<^sup>* (t0, empty_db) (t, db)"
  shows "cut_log (tb_history (hs_cutover (db s))) \<and>
    (\<forall>n < length (tb_history (hs_cutover (db s))). ct_phase (sr_data (tb_history (hs_cutover (db s)) ! n)) = ACTIVE \<longrightarrow>
       (\<exists>k. n = k + 5 \<and> promotion_at (tb_history (hs_cutover (db s))) k [PREPARING, SOURCE_FENCED, FENCED, IMPORTING, READY, ACTIVE])) \<and>
    wit_epoch (db s) = (case tb_head (hs_cutover (db s)) of None \<Rightarrow> 0 | Some c \<Rightarrow> if fenced c then ct_epoch (sr_data c) else ct_epoch (sr_data c) - 1)"
  using control_reachable_inv [OF assms, of s] active_promotion by (auto simp: control_inv_def cutover_inv_def)

theorem cutover_follows_protocol_witness:
  "(control_step demo_ha demo_ed demo_control)\<^sup>*\<^sup>* (0, empty_db) (9, example_db promoted) \<and>
   promotion_at (tb_history (hs_cutover (example_db promoted ''s''))) 0 [PREPARING, SOURCE_FENCED, FENCED, IMPORTING, READY, ACTIVE] \<and>
   wit_epoch (example_db promoted ''s'') = 1"
proof -
  let ?rows = "tb_history (hs_cutover (example_db promoted ''s''))"
  have rows: "length ?rows = 6" "ct_phase (sr_data (?rows ! 5)) = ACTIVE" by (simp_all add: example_db_def)
  have "\<exists>k. 5 = k + 5 \<and> promotion_at ?rows k [PREPARING, SOURCE_FENCED, FENCED, IMPORTING, READY, ACTIVE]"
    by (rule cutover_follows_protocol [OF promotion_reached, of "''s''", THEN conjunct2, THEN conjunct1, rule_format]) (use rows in simp_all)
  moreover have "wit_epoch (example_db promoted ''s'') = 1" by (simp add: wit_epoch_def example_db_def)
  ultimately show ?thesis using promotion_reached by simp
qed

section \<open>Every epoch is accounted for\<close>

text \<open>C18: Source grants are handed out at strictly increasing epochs, each for the command of a cutover that became active at
  that epoch; and of the epochs up to the last of them, each either has its grant or was aborted, and never both.\<close>

theorem activations_accounted:
  assumes "(control_step P E C)\<^sup>*\<^sup>* (t0, empty_db) (t, db)"
  shows "sorted_wrt (<) (activated (db s)) \<and>
    (\<forall>r \<in> set (tb_history (hs_activation (db s))). \<exists>c \<in> set (tb_history (hs_cutover (db s))). ct_phase (sr_data c) = ACTIVE \<and>
       ct_epoch (sr_data c) = av_epoch (sr_data r) \<and> ct_commandId (sr_data c) = av_commandId (sr_data r)) \<and>
    (\<forall>e a. 1 \<le> e \<and> e \<le> a \<and> a \<in> set (activated (db s)) \<longrightarrow>
       (e \<in> set (activated (db s)) \<longleftrightarrow> (\<forall>c \<in> set (tb_history (hs_cutover (db s))). ct_epoch (sr_data c) = e \<longrightarrow> ct_phase (sr_data c) \<noteq> ABORTED)))"
proof -
  have inv: "activation_inv (db s)" "cut_log (cuts (db s))" using control_reachable_inv [OF assms, of s] by (simp_all add: control_inv_def cutover_inv_def)
  have backed: "\<exists>c \<in> set (cuts (db s)). ct_phase (sr_data c) = ACTIVE \<and> ct_epoch (sr_data c) = e" if "e \<in> set (activated (db s))" for e
    using that inv(1) by (auto simp: activated_def activation_inv_def)
  have "ct_phase (sr_data c) \<noteq> ABORTED" if c: "e \<in> set (activated (db s))" "c \<in> set (cuts (db s))" "ct_epoch (sr_data c) = e" for e c
  proof
    assume "ct_phase (sr_data c) = ABORTED"
    moreover obtain b where "b \<in> set (cuts (db s))" "ct_phase (sr_data b) = ACTIVE" "ct_epoch (sr_data b) = e" using backed [OF c(1)] by blast
    ultimately show False using one_end [OF inv(2), of b c] c by (auto simp: CUTOVER_TERMINAL_def)
  qed
  then show ?thesis using inv(1) unfolding activation_inv_def by blast
qed

theorem activations_accounted_witness:
  "(control_step demo_ha demo_ed demo_control)\<^sup>*\<^sup>* (0, empty_db) (9, example_db promoted) \<and> activated (example_db promoted ''s'') = [1] \<and>
   (\<exists>c. c \<in> set (tb_history (hs_cutover (example_db promoted ''s''))) \<and> ct_phase (sr_data c) = ACTIVE \<and> ct_epoch (sr_data c) = 1 \<and> ct_commandId (sr_data c) = ''c'')"
proof -
  have row: "demo_row (activationMsg ''s'') source_row 0 \<in> set (tb_history (hs_activation (example_db promoted ''s'')))" by (simp add: example_db_def)
  have "activated (example_db promoted ''s'') = [1]" by (simp add: activated_def example_db_def source_row_def)
  then show ?thesis
    using activations_accounted [OF promotion_reached, of "''s''", THEN conjunct2, THEN conjunct1, rule_format, OF row] promotion_reached
    by (auto simp: source_row_def)
qed

section \<open>No false alarm\<close>

text \<open>C19: In every state the control plane reaches, whatever its callers did and whichever transactions failed, the verifying
  reads of the five signed tables of a stream succeed: they return the heads, and the activation epoch is that of the
  last grant. The chains, digests and signatures it wrote pass its own checks, so it never quarantines its own work, as
  long as its signing key still resolves and no history has outgrown the range of sequence numbers.\<close>

theorem own_history_reads_back:
  assumes reach: "(control_step P E C)\<^sup>*\<^sup>* (t0, empty_db) (t, db)" and key: "own_key C"
    and len: "int (length (tb_history (hs_provisioning (db s)))) \<le> MAX_SEQ" "int (length (tb_history (hs_witness (db s)))) \<le> MAX_SEQ"
      "int (length (tb_history (hs_lease (db s)))) \<le> MAX_SEQ" "int (length (tb_history (hs_cutover (db s)))) \<le> MAX_SEQ"
      "int (length (tb_history (hs_activation (db s)))) \<le> MAX_SEQ"
  shows "readProvisioning P C s (db s) = Inr (tb_head (hs_provisioning (db s))) \<and> readWitness P C s (db s) = Inr (tb_head (hs_witness (db s))) \<and>
    readLease P C s (db s) = Inr (tb_head (hs_lease (db s))) \<and> readCutover P C s (db s) = Inr (tb_head (hs_cutover (db s))) \<and>
    readActivationEpoch P C s (db s) = Inr (case tb_head (hs_activation (db s)) of None \<Rightarrow> 0 | Some h \<Rightarrow> av_epoch (sr_data h))"
proof -
  have ok: "tables_ok P C s (db s)" by (rule reachable_ok [OF reach])
  then have a: "read_table P C (activationMsg s) (hs_activation (db s)) = Inr (tb_head (hs_activation (db s)))"
      "head_is_last (hs_activation (db s))" using table_ok_reads [OF key _ len(5)] by (simp_all add: tables_ok_def table_ok_def)
  then have "readActivationEpoch P C s (db s) = Inr (case tb_head (hs_activation (db s)) of None \<Rightarrow> 0 | Some h \<Rightarrow> av_epoch (sr_data h))"
    by (auto simp: readActivationEpoch_def head_is_last_def split: option.splits if_splits)
  then show ?thesis using ok table_ok_reads [OF key _ len(1)] table_ok_reads [OF key _ len(2)] table_ok_reads [OF key _ len(3)] table_ok_reads [OF key _ len(4)]
    by (simp add: tables_ok_def readProvisioning_def readWitness_def readLease_def readCutover_def)
qed

theorem own_history_reads_back_witness:
  "own_key demo_control \<and> (control_step demo_ha demo_ed demo_control)\<^sup>*\<^sup>* (0, empty_db) (9, example_db promoted) \<and>
   readCutover demo_ha demo_control ''s'' (example_db promoted ''s'') = Inr (tb_head (hs_cutover (example_db promoted ''s''))) \<and>
   readActivationEpoch demo_ha demo_control ''s'' (example_db promoted ''s'') = Inr 1"
proof -
  note reads = own_history_reads_back [OF promotion_reached demo_own_key, of "''s''"]
  show ?thesis using reads demo_own_key promotion_reached by (simp add: example_db_def MAX_SEQ_def source_row_def)
qed

section \<open>One call of the epoch advance\<close>

lemma proven_expired:
  assumes "proveOldFenced P C s target margin now x = Inr r" and "l \<in> set (leases x)" and "hl_epoch l = target - 1"
  shows "hl_maxExpiryMs l + margin \<le> now"
proof -
  obtain h where h: "max_expiry_at (target - 1) x + margin \<le> now"
    using assms(1) by (auto simp: proveOldFenced_def bind_res_Inr_iff split: option.splits)
  obtain q where "q \<in> set (tb_history (hs_lease x))" "l = sr_data q" using assms(2) by (auto simp: leases_def)
  then show ?thesis using max_expiry_bound [of q x] assms(3) h by simp
qed

lemma advance_last_Inr:
  assumes run: "advance_last P C s cmd target holder margin expiry leaseDigest digest redis now nowFinal x = Inr (Some ev, x')"
  shows "(\<exists>r. redis = Inr (Some r) \<and> claim_matches holder target cmd expiry r \<and> nowFinal + hc_minClaimRemainingMs C \<le> fr_expiresAt r) \<and>
    (\<exists>r. proveOldFenced P C s target margin now x = Inr r) \<and> wit_epoch x = target - 1 \<and> wit_epoch x' = target \<and> hs_lease x' = hs_lease x \<and>
    (\<exists>row. tb_head (hs_cutover x') = Some row \<and> sr_data row = \<lparr>ct_epoch = target, ct_commandId = cmd, ct_phase = FENCED, ct_evidence = Some (encodeEvidence P ev)\<rparr>)"
proof -
  obtain cut where cut: "readCutover P C s x = Inr cut" using run by (auto simp: advance_last_def bind_res_Inr_iff)
  have at: "\<not> cut_at FENCED cmd target cut" "cut_at SOURCE_FENCED cmd target cut"
    using run cut by (auto simp: advance_last_def bind_res_Inr_iff split: if_splits)
  then obtain c where c: "cut = Some c" "ct_commandId (sr_data c) = cmd" "ct_epoch (sr_data c) = target" by (auto simp: cut_at_Some)
  obtain w where w: "readWitness P C s x = Inr (Some w)" "wd_epoch (sr_data w) = target - 1"
    using run cut at by (auto simp: advance_last_def bind_res_Inr_iff split: if_splits option.splits)
  have epoch: "wit_epoch x = target - 1" using w(2) read_heads(1) [OF w(1), symmetric] by (simp add: wit_epoch_def)
  obtain q r row1 x1 row where steps: "proveOldFenced P C s target margin now x = Inr q" "redis = Inr (Some r)" "claim_matches holder target cmd expiry r"
      "nowFinal + hc_minClaimRemainingMs C \<le> fr_expiresAt r" "witnessAdvanceState P C s target PProvisioned x = Inr (row1, x1)"
      "cut_next P C s c FENCED (Some (encodeEvidence P ev)) x1 = Inr (row, x')"
    using run cut at w c(1) by (auto simp: advance_last_def bind_res_Inr_iff Let_def split: if_splits option.splits)
  from steps(5) obtain wt v where x1: "x1 = x\<lparr>hs_witness := wt\<rparr>" "tb_head wt = Some v" "sr_data v = \<lparr>wd_epoch = target, wd_state = PProvisioned\<rparr>"
    by (rule witness_advance_Inr)
  from steps(6) [unfolded cut_next_def] obtain tb where tb: "x' = x1\<lparr>hs_cutover := tb\<rparr>" "tb_head tb = Some row"
      "sr_data row = (sr_data c)\<lparr>ct_phase := FENCED, ct_evidence := Some (encodeEvidence P ev)\<rparr>" by (rule cutTransition_Inr)
  have "sr_data row = \<lparr>ct_epoch = target, ct_commandId = cmd, ct_phase = FENCED, ct_evidence = Some (encodeEvidence P ev)\<rparr>"
    using tb(3) c(2,3) by (intro cutover_data.equality) simp_all
  then show ?thesis using steps(1-4) epoch x1 tb(1,2) by (simp add: wit_epoch_def)
qed


text \<open>A fencing store of one record, which accepts the claim of node B.\<close>

definition claim_store :: "FenceRecord option fencing_api" where
  "claim_store = \<lparr>fa_current = Inr, fa_claim = (\<lambda>node epoch expiry cmd w.
     (Some \<lparr>fr_nodeId = node, fr_fenceEpoch = epoch, fr_expiresAt = expiry, fr_commandId = cmd, fr_active = True\<rparr>, Inr True))\<rparr>"

definition demo_evidence_of :: FenceEvidence where
  "demo_evidence_of = \<lparr>fe_holderNodeId = ''A'', fe_grantSeq = 2, fe_grantDigest = digest_hex (hash_at 1), fe_maxExpiryMs = 5, fe_controlNowMs = 7, fe_safetyMarginMs = 1,
     fe_redisNodeId = ''B'', fe_redisEpoch = 1, fe_redisExpiresMs = 20, fe_redisClaimDigest = claimDigest demo_ha claimed, fe_witnessFrom = 0, fe_witnessTo = 1\<rparr>"

lemma demo_advance:
  "advanceEpoch demo_ha demo_control claim_store ''s'' ''c'' 1 ''B'' 1 20 (6, 7, 8) None (world provs wits leasesR bound_rows []) =
     ((Some claimed, world provs wits1 leasesR fenced_rows []), Inr (Some demo_evidence_of))"
  using witness_grow [of "[wit 0 PIncomplete]" "wit 0 PProvisioned" 1 PProvisioned] cut_next_grow [of "[cut_row PREPARING None]" "cut_row SOURCE_FENCED (Some (frozen_evidence frozen))" FENCED]
  by (simp add: advanceEpoch_def claim_store_def step8_args advance_first_def assertRedisAuthority_def advance_readback_def advance_last_def cut_at_def proveOldFenced_def checks_def
      require_def vInt_def MAX_MS_def MAX_SAFE_INTEGER_def grants_at_world max_expiry_at_def demo_row_digest demo_formats claimed_def claim_matches_def Let_def encodeEvidence_def
      demo_evidence_of_def)
    (simp add: demo_ha_def demo_control_def)


end
