(* ===== verification/Spec2Isabelle.thy ===== *)
theory Spec2Isabelle
  imports Replicated_Pair Promotion Client Failover File_Store Bridge Outbox_Stream Principal_Ledger Http_Transport Ha_Guarantees
begin

text \<open>
  This development verifies the TSK (tumbler segmented key) protocol of the repository: the core key
  scheme, the server that validates and stores credentials, its replication and promotion to a
  standby, and the client that produces the keys.

  \<^bold>\<open>The program.\<close> A \<^emph>\<open>tumbler map\<close> is a shared secret and a layout of segments (static, time-based, and
  counter-based, called HOTP). The provisioner generates maps and stores them; the client receives a
  payload with the ordered segments and assembles a key per request from HMAC values of the segments
  and a checksum; the request handler looks the map up, validates the key and commits the matched
  counters to the store, so that no key is accepted twice. An anomaly engine scores failures. A
  replicating store mirrors every mutation to a replica as a hash-linked, signed stream; a promotion
  controller hands the right to write to one node at a time by fencing epochs. On the client side a
  storage keeps payload and counters, and a transport selects the endpoint. A bridge composes the scheme with a
  second authentication layer. For databases there is a second replication path: a durable outbox of counter
  consumptions whose rows carry signed, hash-linked heads, written under a guard-signed lease, published in
  order over a keyed HTTP transport and applied by a receiver with its own checkpoint. A ledger of principal
  sessions records what agents did as hash-linked streams under hash-linked checkpoints. A control plane moves the
  right to write a stream from one database to another: it grants leases, fences the old holder, and takes a
  promotion through its phases in signed tables.

  \<^bold>\<open>Theories and sources\<close> (paths under \<^verbatim>\<open>src/packages\<close>).
  \<^item> \<^verbatim>\<open>TSK_Prelude\<close>: what the code uses of JavaScript (numbers, untyped values, strings and their UTF-8
    bytes, slices, insertion-ordered maps as association lists, results \<open>'a res\<close> with the thrown message
    on the left). \<^verbatim>\<open>TSK_Types\<close>: \<^verbatim>\<open>core/src/types.ts\<close>, \<^verbatim>\<open>core/src/hotp-counter.ts\<close>.
  \<^item> \<^verbatim>\<open>Crypto\<close>, \<^verbatim>\<open>Segment\<close>, \<^verbatim>\<open>Tumbler_Map\<close>, \<^verbatim>\<open>Key_Gen\<close>, \<^verbatim>\<open>Validate\<close>: the files of the same names in \<^verbatim>\<open>core/src\<close>
    (\<^verbatim>\<open>key-gen.ts\<close>, \<^verbatim>\<open>tumbler-map.ts\<close>). HMAC and SHA-256 are parameters of the definitions; random bytes are an
    explicit stock that a computation draws from.
  \<^item> \<^verbatim>\<open>Counter_Ledger\<close>: the contract of anything that consumes counters, as a locale; interpreted by the
    memory store, by the file store, by the request handler under interleaving and by the outbox receiver.
  \<^item> \<^verbatim>\<open>Store\<close>: \<^verbatim>\<open>server/src/store.ts\<close>. The state is a record of the maps, the access order and the limits;
    \<open>commitValidationToMap\<close> is the commit of one validation. \<^verbatim>\<open>Store_Api\<close>: the \<^verbatim>\<open>TumblerMapStore\<close> interface as
    a record of operations and its contract as the locale \<open>map_store\<close>. \<^verbatim>\<open>File_Store\<close>:
    \<^verbatim>\<open>server/src/file-store.ts\<close>, with the lock file, failing writes and killed processes.
  \<^item> \<^verbatim>\<open>Anomaly\<close>, \<^verbatim>\<open>Middleware\<close>, \<^verbatim>\<open>Provisioner\<close>: \<^verbatim>\<open>anomaly.ts\<close>, \<^verbatim>\<open>middleware.ts\<close>, \<^verbatim>\<open>provisioner.ts\<close> of the server. The
    request handler is split at its store accesses (\<open>verify_decide\<close>, \<open>verify_finish\<close>); \<open>server_exec\<close>
    interleaves the accesses of concurrent requests.
  \<^item> \<^verbatim>\<open>Canonical_Json\<close>: the canonical text that is hashed and signed. \<^verbatim>\<open>Replication\<close>:
    \<^verbatim>\<open>replicating-tumbler-store.ts\<close>. \<^verbatim>\<open>Replica_Receiver\<close>: \<^verbatim>\<open>replica-receiver.ts\<close>. \<^verbatim>\<open>Replicated_Pair\<close>: the two sides
    and an untrusted network as the step relation \<open>pair_step\<close>. \<^verbatim>\<open>Promotion\<close>: \<^verbatim>\<open>promotion.ts\<close>, with the nodes
    of a cluster as the step relation \<open>guard_step\<close>.
  \<^item> \<^verbatim>\<open>Client\<close>: \<^verbatim>\<open>client-sdk/src/client.ts\<close>, \<^verbatim>\<open>storage.ts\<close>. \<^verbatim>\<open>Failover\<close>: \<^verbatim>\<open>client-sdk/src/failover-transport.ts\<close>.
  \<^item> \<^verbatim>\<open>Bridge\<close>: \<^verbatim>\<open>bpc-bridge/src/ultra-verify.ts\<close> and the authenticators of \<^verbatim>\<open>node-http/src/adapter.ts\<close>.
  \<^item> \<^verbatim>\<open>Outbox_Contract\<close>: \<^verbatim>\<open>server/src/ha-outbox-contract.ts\<close> (canonical form, framing, digests). \<^verbatim>\<open>Source_Lease\<close>: the
    lease of \<^verbatim>\<open>tsk-source-fence.ts\<close>. \<^verbatim>\<open>Hotp_Outbox\<close>: \<^verbatim>\<open>tsk-hotp-outbox-pg.ts\<close>; the tables are a record of
    association lists with the constraints of the schema, a transaction is one step that leaves the tables
    alone when it throws. \<^verbatim>\<open>Outbox_Stream\<close>: writers, publishers, installers, the receiver and the network as the
    step relations \<open>source_step\<close> and \<open>stream_step\<close>. \<^verbatim>\<open>Http_Transport\<close>: \<^verbatim>\<open>http-outbox-transport.ts\<close>, the client with its
    reply envelope, the ingest handler and the two nonce stores.
  \<^item> \<^verbatim>\<open>Runtime_Capture\<close>: \<^verbatim>\<open>core/src/runtime-capture.ts\<close>. \<^verbatim>\<open>Hash_Chain\<close>: what a verified hash-linked list determines.
    \<^verbatim>\<open>Principal\<close>, \<^verbatim>\<open>Principal_Ledger\<close>: \<^verbatim>\<open>server/src/principal-session.ts\<close>, the operations and what they keep.
  \<^item> \<^verbatim>\<open>Ha_Control\<close>, \<^verbatim>\<open>Ha_Cutover\<close>: \<^verbatim>\<open>server/src/ha-control-fencing.ts\<close>, the signed tables with provisioning, witness and
    leases, and the cutover with the receipts of \<^verbatim>\<open>tsk-source-fence.ts\<close> that it verifies. \<^verbatim>\<open>Ha_Promotion\<close>: the
    transactions of any callers in any order as the step relation \<open>control_step\<close>, and its invariant. \<^verbatim>\<open>Ha_Readback\<close>: what
    the control plane writes passes its own checks. \<^verbatim>\<open>Ha_Example\<close>: one promotion as a run. \<^verbatim>\<open>Ha_Guarantees\<close>: the
    properties of the control plane.

  \<^bold>\<open>Interfaces.\<close> \<open>counter_ledger\<close> (levels only rise, a consumed value was at or above the level and is below it
  afterwards), \<open>tumbler_store\<close> (what the request handler relies on; memory store, fenced store, file
  store), \<open>map_store\<close> (what the wrappers rely on), \<open>replica_pair\<close> (two stores joined by a stream),
  \<open>client_storage\<close> (what the client relies on; memory and file storage), \<open>hash_chain\<close> (event streams and
  checkpoints), \<open>nonce_store\<close> (what replay protection relies on; memory and database). Each is interpreted on the model's
  own definitions, and the properties rest on the interpretations.

  \<^bold>\<open>What is shown.\<close>
  \<^item> Keys: client and server assemble the same key; a key within the clock and counter tolerances is
    accepted; validation decides exactly its declarative condition; rejections look alike from outside;
    generated maps are well formed; random choices have no modulo bias; HMAC inputs are separated.
  \<^item> Counters: a commit is all or nothing; no counter value is consumed twice by any sequence of
    operations, in memory, on a file shared by processes that fail or are killed, or by concurrent
    requests; no stored counter decreases; usage caps hold; an accepted key is rejected when replayed.
  \<^item> Lifecycle: provisioning is all or nothing, replacement retires the old key in one step, an update
    never reactivates a key, provisioning is rate-limited.
  \<^item> Replication and failover: canonical texts bind their content; the receiver accepts only the next
    signed link and never rolls back; when both sides offer a checkpoint the replica is the image of the
    primary (a simulation over all interleavings with losses, retries and foreign messages); only one node
    passes the write check; a node without lease accepts nothing; and \<open>safe_failover\<close> below composes them.
  \<^item> Client: its counters advance exactly with the confirmed responses and survive a restart; a read
    reaches a live endpoint.
  \<^item> Outbox: digests bind every field; two writers that pass the gate at one epoch are the same node; a revoked
    source adds no row; the receiver holds a prefix of the log of the source and consumes no counter twice; a signed
    request is processed once, and a delivery returns only a receipt bound to its own attempt and record.
  \<^item> Control plane: leases of different epochs never overlap in time, and within an epoch there is one holder; an
    advance of the epoch has fenced the old holder first; a cutover keeps to its phases; every epoch up to the last
    source grant has its grant or was aborted; the verifying reads never reject what the control plane wrote.
  \<^item> Records: a capture holds no secret; the ledger verifies after every operation; equal checkpoints mean equal
    histories; a sealed cache is accepted exactly within its conditions.
  \<^item> Bridge: a request is accepted only when both layers accept for one bound identity, and a denied one
    consumes nothing.
  \<^item> Behaviour worth knowing, proved of the code as it is: a lost answer stops the replication stream; a
    failing sealer and an eviction are not noticed by it; an update that overlaps a commit reopens
    counters; addresses tracked by the anomaly engine are not bounded.

  \<^bold>\<open>Bounds and fuel.\<close> No definition uses fuel. Loops over data are structural recursion; \<open>canonical\<close>,
  \<open>json_text\<close> and \<open>content\<close> recurse on the size of the value; rejection sampling recurses on the stock of
  random bytes and reports when the stock ends; the drain loop is a sequence of events, and its
  termination is a theorem; the canonicalisation and the delivery loop of the outbox are total functions with
  termination proofs (the size of the value, the number of rows to deliver). Counters, times and lengths are unbounded integers with the code's own range
  checks written out: \<^verbatim>\<open>TSK_MAX_HOTP_COUNTER\<close> is 2147483647, far below the largest safe integer, so counter arithmetic is
  exact. Bytes and digests are machine words.

  \<^bold>\<open>Not modelled.\<close> HMAC, SHA-256 and random bytes of the platform (parameters); timers, callbacks and
  the HTTP exchange itself (events of the environment); timing side channels; audit sinks beyond the
  events themselves. Of the outbox: the attestation of the database schema and the scoping of
  transactions, both about the catalogue and connections of PostgreSQL; checkpoint receipts, exports and receiver
  generations of \<^verbatim>\<open>tsk-source-fence.ts\<close> and the activation of an imported source that rests on them. Not modelled
  either: the schema attestation and migration of \<^verbatim>\<open>ha-control-fencing.ts\<close>, the SQL store of \<^verbatim>\<open>ha-tumbler-map-store.ts\<close>,
  \<^verbatim>\<open>pg-transactor.ts\<close>, \<^verbatim>\<open>redis-fencing-store.ts\<close>, the agent cache and the credential administration of the HTTP
  adapter. Demos, drills, tests and the parked red-team scripts are not part of the library.
\<close>

section \<open>Failover\<close>

lemma replica_image_level:
  "(case replica_image pol un L cid of None \<Rightarrow> TSK_MAX_HOTP_COUNTER | Some m \<Rightarrow> counter_level (tm_segments m) sid) =
   (case L cid of None \<Rightarrow> TSK_MAX_HOTP_COUNTER | Some m \<Rightarrow> counter_level (tm_segments m) sid)"
  by (simp add: replica_image_def map_image_def split: option.splits)

lemma sameCheckpoint_js: "sameCheckpoint l (checkpoint_js cp) \<longleftrightarrow> l = cp"
  by (auto simp: sameCheckpoint_def checkpoint_js_def)

text \<open>The receiver only moves forward: its integrity mark is never cleared, its sequence never falls, and
  as long as the sequence stands still and the mark is not set, its store is untouched.\<close>

lemma ingest_forward:
  assumes "ingest S H api now body r = (r', out)"
  shows "rr_integrityLost r \<longrightarrow> rr_integrityLost r'" "rc_sequence (rr_checkpoint r) \<le> rc_sequence (rr_checkpoint r')"
    "rr_integrityLost r' \<or> rc_sequence (rr_checkpoint r) < rc_sequence (rr_checkpoint r') \<or> rr_store r' = rr_store r"
  using ingest_config(5) [OF assms] ingest_sequence [OF assms] assms
  by (auto elim!: ingest_cases simp: ingest_checks_None(6))

definition forward :: "('s, 'r) replicated_pair \<Rightarrow> ('s, 'r) replicated_pair \<Rightarrow> bool" where
  "forward x y \<longleftrightarrow>
     (let a = pr_receiver x; b = pr_receiver y in
      (rr_integrityLost a \<longrightarrow> rr_integrityLost b) \<and> rc_sequence (rr_checkpoint a) \<le> rc_sequence (rr_checkpoint b) \<and>
      (rr_integrityLost b \<or> rc_sequence (rr_checkpoint a) < rc_sequence (rr_checkpoint b) \<or> rr_store b = rr_store a))"

lemma pair_step_forward: "pair_step S H papi plook rapi x y \<Longrightarrow> forward x y"
  by (induction rule: pair_step.induct) (auto simp: forward_def Let_def dest: ingest_forward)

lemma pair_steps_forward: "(pair_step S H papi plook rapi)\<^sup>*\<^sup>* x y \<Longrightarrow> forward x y"
proof (induction rule: rtranclp_induct)
  case base
  show ?case by (simp add: forward_def Let_def)
next
  case (step y z)
  with pair_step_forward [OF step(2)] show ?case by (auto simp: forward_def Let_def)
qed



end
